(* ===== verification/Py_Prelude.thy ===== *)
theory Py_Prelude
  imports Main "HOL-Library.AList" "HOL-Library.Multiset"
begin

text \<open>
  What the modelled scripts use of Python itself, shared by every component: exceptions as
  values, results, loops over lines, dictionaries that remember insertion order, list indexing
  and slicing, and the string methods \<open>strip\<close>, \<open>split\<close>, \<open>startswith\<close>, \<open>replace\<close>, \<open>upper\<close>,
  \<open>isdigit\<close>, \<open>join\<close>, \<open>int\<close> and decimal printing.  Strings are lists of characters, and only the
  ASCII part of Python's character classes is described.
\<close>

section \<open>Exceptions and results\<close>

datatype py_error =
    IndexError | KeyError | ValueError | ZeroDivisionError | AssertionError
  | AttributeError | TypeError | UnboundLocalError | IOError | OSError | Exception

type_synonym 'a res = "py_error + 'a"

named_theorems py_simps \<open>equations that evaluate the shared Python operations\<close>
named_theorems inv_intros \<open>preservation of the components' invariants\<close>

definition bind_res :: "'e + 'a \<Rightarrow> ('a \<Rightarrow> 'e + 'b) \<Rightarrow> 'e + 'b" where
  "bind_res m f = (case m of Inl e \<Rightarrow> Inl e | Inr x \<Rightarrow> f x)"

lemma bind_res_simps [simp]:
  "bind_res (Inl e) f = Inl e"
  "bind_res (Inr x) f = f x"
  by (simp_all add: bind_res_def)

lemma bind_res_right [simp]: "bind_res m Inr = m"
  by (cases m) auto

lemma bind_res_Inr_iff:
  "bind_res m f = Inr y \<longleftrightarrow> (\<exists>x. m = Inr x \<and> f x = Inr y)"
  by (cases m) auto

lemma bind_res_Inl_iff:
  "bind_res m f = Inl e \<longleftrightarrow> m = Inl e \<or> (\<exists>x. m = Inr x \<and> f x = Inl e)"
  by (cases m) auto

lemma bind_res_assoc: "bind_res (bind_res m f) g = bind_res m (\<lambda>x. bind_res (f x) g)"
  by (cases m) auto

definition of_opt :: "'e \<Rightarrow> 'a option \<Rightarrow> 'e + 'a" where
  "of_opt e x = (case x of None \<Rightarrow> Inl e | Some v \<Rightarrow> Inr v)"

lemma of_opt_simps [simp]: "of_opt e None = Inl e" "of_opt e (Some v) = Inr v"
  by (simp_all add: of_opt_def)

lemma of_opt_Inr_iff: "of_opt e x = Inr v \<longleftrightarrow> x = Some v"
  by (cases x) auto

fun map_res :: "('a \<Rightarrow> 'e + 'b) \<Rightarrow> 'a list \<Rightarrow> 'e + 'b list" where
  "map_res f [] = Inr []"
| "map_res f (x # xs) = bind_res (f x) (\<lambda>y. bind_res (map_res f xs) (\<lambda>ys. Inr (y # ys)))"

lemma map_res_cong [fundef_cong]:
  "xs = ys \<Longrightarrow> (\<And>x. x \<in> set ys \<Longrightarrow> f x = g x) \<Longrightarrow> map_res f xs = map_res g ys"
  by (induction xs arbitrary: ys) auto

lemma map_res_Inr_length: "map_res f xs = Inr ys \<Longrightarrow> length ys = length xs"
  by (induction xs arbitrary: ys) (auto simp: bind_res_Inr_iff)

section \<open>Loops over a sequence\<close>

text \<open>\<open>for x in xs: body\<close>, where the body may raise: the first exception ends the loop.\<close>

fun run_steps :: "('s \<Rightarrow> 'x \<Rightarrow> 'e + 's) \<Rightarrow> 's \<Rightarrow> 'x list \<Rightarrow> 'e + 's" where
  "run_steps step s [] = Inr s"
| "run_steps step s (x # xs) = bind_res (step s x) (\<lambda>s'. run_steps step s' xs)"

lemma run_steps_append:
  "run_steps step s (xs @ ys) = bind_res (run_steps step s xs) (\<lambda>s'. run_steps step s' ys)"
  by (induction xs arbitrary: s) (auto simp: bind_res_assoc)

text \<open>
  The contract every line-by-line loader meets: an invariant of the loop state that each
  accepted line keeps.  Every loader of the development interprets it.
\<close>

locale loop_invariant =
  fixes step :: "'s \<Rightarrow> 'x \<Rightarrow> 'e + 's"
    and inv :: "'s \<Rightarrow> bool"
  assumes step_inv: "inv s \<Longrightarrow> step s x = Inr s' \<Longrightarrow> inv s'"
begin

lemma run_inv: "inv s \<Longrightarrow> run_steps step s xs = Inr s' \<Longrightarrow> inv s'"
proof (induction xs arbitrary: s)
  case Nil
  then show ?case by simp
next
  case (Cons x xs)
  from Cons.prems(2) obtain t where t: "step s x = Inr t" and r: "run_steps step t xs = Inr s'"
    by (auto simp: bind_res_Inr_iff)
  from Cons.prems(1) t have "inv t" by (rule step_inv)
  then show ?case using r by (rule Cons.IH)
qed

lemma run_inv_prefix:
  "inv s \<Longrightarrow> run_steps step s (xs @ ys) = Inr s' \<Longrightarrow>
    \<exists>t. run_steps step s xs = Inr t \<and> inv t \<and> run_steps step t ys = Inr s'"
  by (auto simp: run_steps_append bind_res_Inr_iff intro: run_inv)

end

section \<open>Lists\<close>

text \<open>\<open>xs[i]\<close>: a negative index counts from the end, an index out of range raises.\<close>

definition py_index :: "'a list \<Rightarrow> int \<Rightarrow> 'a res" where
  "py_index xs i =
     (if i < 0 \<and> length xs < nat (- i) then Inl IndexError
      else let k = (if i < 0 then length xs - nat (- i) else nat i)
           in if k < length xs then Inr (xs ! k) else Inl IndexError)"

definition py_nth :: "'a list \<Rightarrow> nat \<Rightarrow> 'a res" where
  "py_nth xs i = (if i < length xs then Inr (xs ! i) else Inl IndexError)"

lemma py_nth_Inr_iff: "py_nth xs i = Inr x \<longleftrightarrow> i < length xs \<and> x = xs ! i"
  by (auto simp: py_nth_def)

lemma py_nth_Cons [simp]: "py_nth (x # xs) 0 = Inr x" "py_nth (x # xs) (Suc i) = py_nth xs i"
  by (simp_all add: py_nth_def)

lemma py_nth_Nil [simp]: "py_nth [] i = Inl IndexError"
  by (simp add: py_nth_def)

lemma py_index_nonneg: "py_index xs (int i) = py_nth xs i"
  by (simp add: py_index_def py_nth_def Let_def)

text \<open>\<open>xs[a:b]\<close>: bounds below zero count from the end, then are clipped to the list.\<close>

definition clip :: "nat \<Rightarrow> int \<Rightarrow> nat" where
  "clip n i = nat (min (int n) (max 0 (if i < 0 then int n + i else i)))"

definition py_slice :: "'a list \<Rightarrow> int \<Rightarrow> int \<Rightarrow> 'a list" where
  "py_slice xs a b = (let l = clip (length xs) a in take (clip (length xs) b - l) (drop l xs))"

lemma py_slice_nat: "py_slice xs (int a) (int b) = take (b - a) (drop a xs)"
proof (cases "a \<le> length xs")
  case True
  then show ?thesis
    by (cases "b \<le> length xs") (auto simp: py_slice_def clip_def Let_def min_def)
next
  case False
  then show ?thesis by (simp add: py_slice_def clip_def Let_def min_def)
qed

lemma set_py_slice: "set (py_slice xs a b) \<subseteq> set xs"
  by (auto simp: py_slice_def Let_def dest: in_set_takeD in_set_dropD)

section \<open>Dictionaries\<close>

text \<open>
  A dictionary is the association list of its items in insertion order: storing to a present
  key keeps its place, storing to a new key appends it (\<^const>\<open>AList.update\<close>).
\<close>

type_synonym ('k, 'v) dict = "('k \<times> 'v) list"

abbreviation dict_keys :: "('k, 'v) dict \<Rightarrow> 'k list" where
  "dict_keys d \<equiv> map fst d"

abbreviation dict_set :: "'k \<Rightarrow> 'v \<Rightarrow> ('k, 'v) dict \<Rightarrow> ('k, 'v) dict" where
  "dict_set k v d \<equiv> AList.update k v d"

abbreviation dict_del :: "'k \<Rightarrow> ('k, 'v) dict \<Rightarrow> ('k, 'v) dict" where
  "dict_del k d \<equiv> AList.delete k d"

definition dict_get :: "('k, 'v) dict \<Rightarrow> 'k \<Rightarrow> 'v res" where
  "dict_get d k = of_opt KeyError (map_of d k)"

definition dict_ok :: "('k, 'v) dict \<Rightarrow> bool" where
  "dict_ok d \<longleftrightarrow> distinct (map fst d)"

lemma dict_get_Inr_iff: "dict_get d k = Inr v \<longleftrightarrow> map_of d k = Some v"
  by (simp add: dict_get_def of_opt_Inr_iff)

lemma map_of_dict_set [simp]: "map_of (dict_set k v d) = (map_of d)(k \<mapsto> v)"
  by (simp add: AList.update_conv')

lemma map_of_dict_del [simp]: "map_of (dict_del k d) = (map_of d)(k := None)"
  by (simp add: delete_conv')

lemma set_keys_dict_set [simp]: "fst ` set (dict_set k v d) = insert k (fst ` set d)"
  by (simp add: dom_update)

lemma set_keys_dict_del [simp]: "fst ` set (dict_del k d) = fst ` set d - {k}"
  by (auto simp: AList.delete_eq)

lemma dict_ok_Nil [simp]: "dict_ok []"
  by (simp add: dict_ok_def)

lemma dict_ok_set [simp, inv_intros]: "dict_ok d \<Longrightarrow> dict_ok (dict_set k v d)"
  by (simp add: dict_ok_def distinct_update)

lemma dict_ok_del [simp, inv_intros]: "dict_ok d \<Longrightarrow> dict_ok (dict_del k d)"
  by (simp add: dict_ok_def distinct_delete)

lemma map_of_None_keys: "map_of d k = None \<longleftrightarrow> k \<notin> fst ` set d"
  by (simp add: map_of_eq_None_iff)

lemma map_of_Some_key: "map_of d k = Some v \<Longrightarrow> k \<in> fst ` set d"
  by (force dest: map_of_SomeD)

text \<open>
  The interface the counting clients use (topological sorting, the order-preserving
  \<open>uniquify\<close>): a dictionary as a finite map with its keys.
\<close>

locale dict_interface =
  fixes lookup :: "'d \<Rightarrow> 'k \<Rightarrow> 'v option"
    and store :: "'k \<Rightarrow> 'v \<Rightarrow> 'd \<Rightarrow> 'd"
    and remove :: "'k \<Rightarrow> 'd \<Rightarrow> 'd"
  assumes lookup_store: "lookup (store k v d) = (lookup d)(k \<mapsto> v)"
    and lookup_remove: "lookup (remove k d) = (lookup d)(k := None)"
begin

lemma store_store: "lookup (store k v (store k w d)) = lookup (store k v d)"
  by (simp add: lookup_store)

lemma store_commute: "k \<noteq> l \<Longrightarrow> lookup (store k v (store l w d)) = lookup (store l w (store k v d))"
  by (simp add: lookup_store fun_upd_twist)

lemma remove_store: "lookup (remove k (store k v d)) = lookup (remove k d)"
  by (simp add: lookup_store lookup_remove)

text \<open>Storing a list of items one after the other: the last value stored to a key wins.\<close>

lemma lookup_fold_store:
  "lookup (fold (\<lambda>(k, v). store k v) items d) = lookup d ++ map_of (rev items)"
proof (induction items arbitrary: d)
  case Nil
  then show ?case by simp
next
  case (Cons it items)
  obtain k v where "it = (k, v)" by (cases it)
  then show ?case
    by (simp add: Cons.IH lookup_store map_add_upd_left map_add_def fun_eq_iff split: option.splits)
qed

lemma dom_fold_store: "dom (lookup (fold (\<lambda>(k, v). store k v) items d)) = dom (lookup d) \<union> fst ` set items"
  by (simp add: lookup_fold_store dom_map_of_conv_image_fst Un_commute)

end

interpretation odict: dict_interface "map_of :: ('k, 'v) dict \<Rightarrow> 'k \<Rightarrow> 'v option" "AList.update" "AList.delete"
  by unfold_locales simp_all

end
