(* ===== verification/Py_Strings.thy ===== *)
theory Py_Strings
  imports Py_Prelude "HOL-Library.Sublist"
begin

text \<open>
  The string methods the scripts use, on lists of ASCII characters: \<open>strip\<close>, \<open>split\<close> with and
  without a separator, \<open>join\<close>, \<open>startswith\<close>, \<open>replace\<close>, \<open>upper\<close>, \<open>isdigit\<close>, \<open>int\<close> and decimal
  printing, with the round trips between them.
\<close>

section \<open>Characters\<close>

definition code :: "char \<Rightarrow> nat" where
  "code c = of_char c"

definition is_ws :: "char \<Rightarrow> bool" where
  "is_ws c \<longleftrightarrow> code c = 32 \<or> (9 \<le> code c \<and> code c \<le> 13) \<or> (28 \<le> code c \<and> code c \<le> 31)"

definition is_digit :: "char \<Rightarrow> bool" where
  "is_digit c \<longleftrightarrow> 48 \<le> code c \<and> code c \<le> 57"

definition to_upper :: "char \<Rightarrow> char" where
  "to_upper c = (if 97 \<le> code c \<and> code c \<le> 122 then char_of (code c - 32) else c)"

definition digit_char :: "nat \<Rightarrow> char" where
  "digit_char d = char_of (48 + d)"

definition digit_val :: "char \<Rightarrow> nat" where
  "digit_val c = code c - 48"

lemma code_char_of: "n < 256 \<Longrightarrow> code (char_of n) = n"
  by (simp add: code_def)

lemma digit_char_simps [simp]:
  assumes "d < 10"
  shows "is_digit (digit_char d)" "digit_val (digit_char d) = d" "\<not> is_ws (digit_char d)"
    "to_upper (digit_char d) = digit_char d"
  using assms by (simp_all add: is_digit_def digit_char_def digit_val_def is_ws_def to_upper_def code_char_of)

lemma digit_not_special:
  assumes "is_digit c"
  shows "c \<noteq> CHR ''-''" "c \<noteq> CHR ''P''" "c \<noteq> CHR ''S''" "c \<noteq> CHR ''W''" "c \<noteq> CHR ''H''" "c \<noteq> CHR '':''"
    "c \<noteq> CHR ''+''" "c \<noteq> CHR ''_''" "c \<noteq> CHR ''#''"
  using assms by (auto simp: is_digit_def code_def)

lemma digit_not_ws: "is_digit c \<Longrightarrow> \<not> is_ws c"
  by (auto simp: is_digit_def is_ws_def)

lemma to_upper_digit: "is_digit c \<Longrightarrow> to_upper c = c"
  by (auto simp: is_digit_def to_upper_def)

lemma code_to_upper: "\<not> (97 \<le> code (to_upper c) \<and> code (to_upper c) \<le> 122)"
  by (auto simp: to_upper_def code_char_of)

lemma to_upper_idem [simp]: "to_upper (to_upper c) = to_upper c"
  using code_to_upper [of c] by (auto simp: to_upper_def [of "to_upper c"])

section \<open>strip, startswith, join\<close>

definition rstrip :: "string \<Rightarrow> string" where
  "rstrip s = rev (dropWhile is_ws (rev s))"

definition strip :: "string \<Rightarrow> string" where
  "strip s = rstrip (dropWhile is_ws s)"

abbreviation startswith :: "string \<Rightarrow> string \<Rightarrow> bool" where
  "startswith s p \<equiv> take (length p) s = p"

definition upper :: "string \<Rightarrow> string" where
  "upper s = map to_upper s"

definition isdigit :: "string \<Rightarrow> bool" where
  "isdigit s \<longleftrightarrow> s \<noteq> [] \<and> list_all is_digit s"

fun join :: "string \<Rightarrow> string list \<Rightarrow> string" where
  "join sep [] = []"
| "join sep [w] = w"
| "join sep (w # ws) = w @ sep @ join sep ws"

lemma strip_Nil [simp]: "strip [] = []"
  by (simp add: strip_def rstrip_def)

text \<open>A string that starts and ends with other characters than white space is left alone.\<close>

lemma strip_id:
  assumes "s = [] \<or> \<not> is_ws (hd s) \<and> \<not> is_ws (last s)"
  shows "strip s = s"
proof (cases "s = []")
  case True
  then show ?thesis by simp
next
  case False
  with assms have a: "\<not> is_ws (hd s)" and b: "\<not> is_ws (last s)" by auto
  from False a have l: "dropWhile is_ws s = s" by (cases s) auto
  from False b have "dropWhile is_ws (rev s) = rev s" by (cases s rule: rev_cases) auto
  with l show ?thesis by (simp add: strip_def rstrip_def)
qed

lemma strip_ends: "strip s = [] \<or> \<not> is_ws (hd (strip s)) \<and> \<not> is_ws (last (strip s))"
proof (cases "strip s = []")
  case True
  then show ?thesis by simp
next
  case False
  let ?t = "dropWhile is_ws s"
  have "last (strip s) = hd (dropWhile is_ws (rev ?t))"
    using False by (simp add: strip_def rstrip_def last_rev)
  then have l: "\<not> is_ws (last (strip s))"
    using False hd_dropWhile [of is_ws "rev ?t"] by (auto simp: strip_def rstrip_def)
  obtain suf where t: "?t = strip s @ suf"
    by (metis strip_def rstrip_def suffix_dropWhile suffix_to_prefix rev_rev_ident prefix_def)
  then have "?t \<noteq> []" and "hd ?t = hd (strip s)" using False by auto
  then have "\<not> is_ws (hd (strip s))" using hd_dropWhile [of is_ws s] by simp
  with l show ?thesis by simp
qed

lemma strip_idem [simp]: "strip (strip s) = strip s"
  by (rule strip_id) (rule strip_ends)

text \<open>\<open>os.path.join\<close> and \<open>os.path.basename\<close>, with \<open>/\<close> between the parts of a path.\<close>

definition path_join :: "string \<Rightarrow> string \<Rightarrow> string" where
  "path_join a b = (if startswith b ''/'' then b else if a = [] \<or> last a = CHR ''/'' then a @ b else a @ ''/'' @ b)"

definition basename :: "string \<Rightarrow> string" where
  "basename p = rev (takeWhile (\<lambda>c. c \<noteq> CHR ''/'') (rev p))"

text \<open>\<open>p in s\<close> on strings.\<close>

fun contains :: "string \<Rightarrow> string \<Rightarrow> bool" where
  "contains p [] \<longleftrightarrow> p = []"
| "contains p (c # s) \<longleftrightarrow> startswith (c # s) p \<or> contains p s"

lemma contains_sublist: "contains p s \<longleftrightarrow> sublist p s"
proof (induction s)
  case (Cons c s)
  have "startswith (c # s) p \<longleftrightarrow> prefix p (c # s)" by (auto simp: take_is_prefix prefix_def)
      (metis append_take_drop_id)
  with Cons show ?case by (simp add: sublist_Cons_right)
qed simp

section \<open>split\<close>

fun split_on :: "char \<Rightarrow> string \<Rightarrow> string list" where
  "split_on c [] = [[]]"
| "split_on c (x # xs) =
     (if x = c then [] # split_on c xs
      else case split_on c xs of [] \<Rightarrow> [[x]] | w # ws \<Rightarrow> (x # w) # ws)"

lemma split_on_neq_Nil [simp]: "split_on c s \<noteq> []"
  by (induction s) (auto split: list.splits)

lemma join_Cons_ne: "ws \<noteq> [] \<Longrightarrow> join sep (w # ws) = w @ sep @ join sep ws"
  by (cases ws) auto

lemma join_Cons_head: "join sep ((x # w) # ws) = x # join sep (w # ws)"
  by (cases ws) auto

theorem join_split_on: "join [c] (split_on c s) = s"
proof (induction s)
  case Nil
  then show ?case by simp
next
  case (Cons x s)
  show ?case
  proof (cases "split_on c s")
    case Nil
    then show ?thesis by simp
  next
    case (Cons w ws)
    with Cons.IH show ?thesis by (auto simp: join_Cons_ne join_Cons_head)
  qed
qed

lemma split_on_none: "c \<notin> set s \<Longrightarrow> split_on c s = [s]"
  by (induction s) auto

lemma split_on_append: "c \<notin> set w \<Longrightarrow> split_on c (w @ c # s) = w # split_on c s"
  by (induction w) auto

theorem split_on_join:
  assumes "ws \<noteq> []" and "\<forall>w \<in> set ws. c \<notin> set w"
  shows "split_on c (join [c] ws) = ws"
  using assms
proof (induction ws)
  case Nil
  then show ?case by simp
next
  case (Cons w ws)
  then show ?case
    by (cases ws) (auto simp: split_on_none split_on_append)
qed

lemma split_on_no_sep: "w \<in> set (split_on c s) \<Longrightarrow> c \<notin> set w"
  by (induction s arbitrary: w) (auto split: list.splits if_splits)

text \<open>\<open>s.split(c, 1)\<close>: at the first separator only.\<close>

definition split_once :: "char \<Rightarrow> string \<Rightarrow> string list" where
  "split_once c s =
     (if c \<in> set s then [takeWhile (\<lambda>x. x \<noteq> c) s, tl (dropWhile (\<lambda>x. x \<noteq> c) s)] else [s])"

lemma split_once_join: "join [c] (split_once c s) = s"
proof (cases "c \<in> set s")
  case True
  then have "dropWhile (\<lambda>x. x \<noteq> c) s \<noteq> []" by simp
  moreover from this have "hd (dropWhile (\<lambda>x. x \<noteq> c) s) = c"
    using hd_dropWhile [of "\<lambda>x. x \<noteq> c" s] by simp
  ultimately have "c # tl (dropWhile (\<lambda>x. x \<noteq> c) s) = dropWhile (\<lambda>x. x \<noteq> c) s"
    by (metis list.collapse)
  with True show ?thesis by (simp add: split_once_def)
next
  case False
  then show ?thesis by (simp add: split_once_def)
qed

text \<open>\<open>s.split()\<close>: the maximal runs of characters that are not white space.\<close>

function split_ws :: "string \<Rightarrow> string list" where
  "split_ws s =
     (let t = dropWhile is_ws s
      in if t = [] then []
         else takeWhile (\<lambda>c. \<not> is_ws c) t # split_ws (dropWhile (\<lambda>c. \<not> is_ws c) t))"
  by pat_completeness auto
termination
proof (relation "measure length", goal_cases)
  case 1
  then show ?case by simp
next
  case (2 s t)
  then have "\<not> is_ws (hd t)" and "t \<noteq> []" using hd_dropWhile [of is_ws s] by auto
  then have "length (dropWhile (\<lambda>c. \<not> is_ws c) t) < length t"
    by (cases t) (auto simp: less_Suc_eq_le length_dropWhile_le)
  also have "length t \<le> length s" using 2 by (simp add: length_dropWhile_le)
  finally show ?case by simp
qed

declare split_ws.simps [simp del]

lemma split_ws_Nil [simp]: "split_ws [] = []"
  by (simp add: split_ws.simps)

lemma split_ws_ws: "list_all is_ws s \<Longrightarrow> split_ws s = []"
  by (subst split_ws.simps) (simp add: list_all_iff Let_def)

lemma split_ws_word:
  assumes "w \<noteq> []" and "list_all (\<lambda>c. \<not> is_ws c) w" and "r = [] \<or> is_ws (hd r)"
  shows "split_ws (w @ r) = w # split_ws r"
proof -
  have d: "dropWhile is_ws (w @ r) = w @ r" using assms(1,2) by (cases w) auto
  have t: "takeWhile (\<lambda>c. \<not> is_ws c) (w @ r) = w"
    using assms(2,3) by (cases r) (auto simp: list_all_iff takeWhile_append)
  have u: "dropWhile (\<lambda>c. \<not> is_ws c) (w @ r) = r"
    using assms(2,3) by (cases r) (auto simp: list_all_iff dropWhile_append)
  have "split_ws (w @ r) =
      (let t = dropWhile is_ws (w @ r)
       in if t = [] then [] else takeWhile (\<lambda>c. \<not> is_ws c) t # split_ws (dropWhile (\<lambda>c. \<not> is_ws c) t))"
    by (rule split_ws.simps)
  also have "\<dots> = w # split_ws r" using assms(1) by (simp only: d t u Let_def) simp
  finally show ?thesis .
qed

lemma split_ws_skip: "is_ws c \<Longrightarrow> split_ws (c # s) = split_ws s"
  by (simp add: split_ws.simps [of "c # s"] split_ws.simps [of s])

lemma split_ws_parts: "w \<in> set (split_ws s) \<Longrightarrow> w \<noteq> [] \<and> list_all (\<lambda>c. \<not> is_ws c) w"
proof (induction s rule: split_ws.induct)
  case (1 s)
  let ?t = "dropWhile is_ws s"
  show ?case
  proof (cases "?t = []")
    case True
    with "1.prems" show ?thesis by (simp add: split_ws.simps [of s])
  next
    case False
    then have "\<not> is_ws (hd ?t)" by (rule hd_dropWhile)
    with False have ne: "takeWhile (\<lambda>c. \<not> is_ws c) ?t \<noteq> []" by (cases ?t) auto
    from "1.prems" False have "w = takeWhile (\<lambda>c. \<not> is_ws c) ?t \<or>
        w \<in> set (split_ws (dropWhile (\<lambda>c. \<not> is_ws c) ?t))"
      by (simp add: split_ws.simps [of s] Let_def split: if_splits)
    then show ?thesis
    proof
      assume "w = takeWhile (\<lambda>c. \<not> is_ws c) ?t"
      with ne show ?thesis by (auto simp: list_all_iff dest: set_takeWhileD)
    next
      assume "w \<in> set (split_ws (dropWhile (\<lambda>c. \<not> is_ws c) ?t))"
      then show ?thesis by (rule "1.IH" [OF refl False])
    qed
  qed
qed

section \<open>replace\<close>

text \<open>\<open>s.replace(old, new)\<close>, from left to right, occurrences not overlapping.\<close>

function py_replace :: "string \<Rightarrow> string \<Rightarrow> string \<Rightarrow> string" where
  "py_replace old new [] = []"
| "py_replace old new (c # s) =
     (if old \<noteq> [] \<and> startswith (c # s) old then new @ py_replace old new (drop (length old) (c # s))
      else c # py_replace old new s)"
  by pat_completeness auto
termination
  by (relation "measure (\<lambda>(old, new, s). length s)") auto

lemma py_replace_absent: "hd old \<notin> set s \<Longrightarrow> old \<noteq> [] \<Longrightarrow> py_replace old new s = s"
proof (induction s)
  case Nil
  then show ?case by simp
next
  case (Cons c s)
  then show ?case by (cases old) auto
qed

lemma py_replace_skip:
  "hd old \<notin> set w \<Longrightarrow> old \<noteq> [] \<Longrightarrow> py_replace old new (w @ s) = w @ py_replace old new s"
proof (induction w)
  case Nil
  then show ?case by simp
next
  case (Cons c w)
  then show ?case by (cases old) auto
qed

section \<open>Decimal numbers\<close>

fun show_nat :: "nat \<Rightarrow> string" where
  "show_nat n = (if n < 10 then [digit_char n] else show_nat (n div 10) @ [digit_char (n mod 10)])"

declare show_nat.simps [simp del]

definition show_int :: "int \<Rightarrow> string" where
  "show_int i = (if i < 0 then CHR ''-'' # show_nat (nat (- i)) else show_nat (nat i))"

definition digits_val :: "string \<Rightarrow> nat" where
  "digits_val s = foldl (\<lambda>a c. 10 * a + digit_val c) 0 s"

lemma digits_val_snoc: "digits_val (s @ [c]) = 10 * digits_val s + digit_val c"
  by (simp add: digits_val_def)

lemma show_nat_props: "show_nat n \<noteq> [] \<and> list_all is_digit (show_nat n)"
proof (induction n rule: show_nat.induct)
  case (1 n)
  then show ?case by (cases "n < 10") (simp_all add: show_nat.simps [of n])
qed

lemma show_nat_neq_Nil [simp]: "show_nat n \<noteq> []"
  using show_nat_props by blast

lemma show_nat_digits [simp]: "list_all is_digit (show_nat n)"
  using show_nat_props by blast

lemma show_nat_digit: "c \<in> set (show_nat n) \<Longrightarrow> is_digit c"
  using show_nat_digits [of n] by (auto simp: list_all_iff)

lemma isdigit_show_nat [simp]: "isdigit (show_nat n)"
  by (simp add: isdigit_def)

theorem digits_val_show_nat [simp]: "digits_val (show_nat n) = n"
proof (induction n rule: show_nat.induct)
  case (1 n)
  show ?case
  proof (cases "n < 10")
    case True
    then show ?thesis by (simp add: show_nat.simps [of n] digits_val_def)
  next
    case False
    with "1.IH" show ?thesis by (simp add: show_nat.simps [of n] digits_val_snoc)
  qed
qed

lemma show_nat_inj: "show_nat m = show_nat n \<Longrightarrow> m = n"
  by (metis digits_val_show_nat)

lemma upper_show_nat [simp]: "upper (show_nat n) = show_nat n"
  by (auto simp: upper_def intro!: map_idI dest: show_nat_digit to_upper_digit)

text \<open>
  \<open>int(s)\<close>: white space around, one optional sign, then digits with single underscores
  between them; anything else raises \<^const>\<open>ValueError\<close>.
\<close>

fun underscored :: "string \<Rightarrow> bool" where
  "underscored [] = False"
| "underscored [c] = is_digit c"
| "underscored (c # d # s) = (is_digit c \<and> (if d = CHR ''_'' then underscored s else underscored (d # s)))"

definition unsigned_int :: "string \<Rightarrow> nat res" where
  "unsigned_int s =
     (if underscored s then Inr (digits_val (filter is_digit s)) else Inl ValueError)"

definition py_int :: "string \<Rightarrow> int res" where
  "py_int s =
     (case strip s of
        [] \<Rightarrow> Inl ValueError
      | c # r \<Rightarrow>
          (if c = CHR ''-'' then bind_res (unsigned_int r) (\<lambda>n. Inr (- int n))
           else if c = CHR ''+'' then bind_res (unsigned_int r) (\<lambda>n. Inr (int n))
           else bind_res (unsigned_int (c # r)) (\<lambda>n. Inr (int n))))"

lemma underscored_digits: "s \<noteq> [] \<Longrightarrow> list_all is_digit s \<Longrightarrow> underscored s"
  by (induction s rule: underscored.induct) (auto dest: digit_not_special)

lemma unsigned_int_digits:
  "s \<noteq> [] \<Longrightarrow> list_all is_digit s \<Longrightarrow> unsigned_int s = Inr (digits_val s)"
  by (simp add: unsigned_int_def underscored_digits filter_id_conv list_all_iff)

lemma strip_digits:
  assumes "list_all is_digit s"
  shows "strip s = s"
proof (rule strip_id)
  show "s = [] \<or> \<not> is_ws (hd s) \<and> \<not> is_ws (last s)"
    using assms by (cases "s = []") (auto simp: list_all_iff digit_not_ws)
qed

theorem py_int_digits:
  assumes "s \<noteq> []" and "list_all is_digit s"
  shows "py_int s = Inr (int (digits_val s))"
proof -
  obtain c r where s: "s = c # r" using assms(1) by (cases s) auto
  with assms(2) have "c \<noteq> CHR ''-''" "c \<noteq> CHR ''+''" by (auto dest: digit_not_special)
  with s assms show ?thesis by (simp add: py_int_def strip_digits unsigned_int_digits)
qed

theorem py_int_show_nat [simp]: "py_int (show_nat n) = Inr (int n)"
  by (simp add: py_int_digits)

theorem py_int_show_int [simp]: "py_int (show_int i) = Inr i"
proof (cases "i < 0")
  case False
  then show ?thesis by (simp add: show_int_def)
next
  case True
  let ?s = "show_nat (nat (- i))"
  have "\<not> is_ws (last ?s)"
    by (rule digit_not_ws, rule show_nat_digit, rule last_in_set) simp
  then have "strip (CHR ''-'' # ?s) = CHR ''-'' # ?s"
    by (intro strip_id) (simp add: is_ws_def [of "CHR ''-''"] code_def)
  with True show ?thesis by (simp add: show_int_def py_int_def unsigned_int_digits)
qed

end
