(* ===== verification/Py_Float.thy ===== *)
theory Py_Float
  imports Complex_Main "HOL-Library.Log_Nat"
begin

text \<open>
  Python's \<open>float\<close> as the rationals a 64-bit double holds.  Every arithmetic operation of the
  scripts computes the exact rational and rounds it; the rounding is an argument \<open>fl\<close> of the
  definitions that use floats.  \<open>dbl\<close> is the machine's: 53 significant bits, to nearest, ties to
  even (no overflow and no subnormal numbers: the scripts' values lie far inside the range).
  \<open>exact\<close> is ideal arithmetic.
\<close>

section \<open>Rounding to nearest, ties to even\<close>

definition rne :: "rat \<Rightarrow> int" where
  "rne x = (let f = \<lfloor>x\<rfloor>; d = x - of_int f
            in if d < 1 / 2 then f else if d > 1 / 2 then f + 1 else if even f then f else f + 1)"

lemma rne_bounds: "\<lfloor>x\<rfloor> \<le> rne x" "rne x \<le> \<lceil>x\<rceil>"
proof -
  show "\<lfloor>x\<rfloor> \<le> rne x" by (simp add: rne_def Let_def)
  show "rne x \<le> \<lceil>x\<rceil>"
  proof (cases "x = of_int \<lfloor>x\<rfloor>")
    case True
    then have "x - of_int \<lfloor>x\<rfloor> = 0" by simp
    then have "rne x = \<lfloor>x\<rfloor>" by (simp add: rne_def Let_def)
    then show ?thesis by (simp add: floor_le_ceiling)
  next
    case False
    then have "\<lceil>x\<rceil> = \<lfloor>x\<rfloor> + 1" by (metis ceiling_altdef)
    then show ?thesis by (simp add: rne_def Let_def)
  qed
qed

lemma rne_of_int [simp]: "rne (of_int n) = n"
  by (simp add: rne_def Let_def)

lemma rne_error: "\<bar>of_int (rne x) - x\<bar> \<le> 1 / 2"
proof -
  define f where "f = \<lfloor>x\<rfloor>"
  have "of_int f \<le> x" "x < of_int f + 1" unfolding f_def by linarith+
  then show ?thesis unfolding rne_def Let_def f_def [symmetric] by (simp add: abs_if)
qed

lemma rne_le: "x \<le> of_int n \<Longrightarrow> rne x \<le> n"
  using rne_bounds(2) [of x] by (meson ceiling_le_iff order_trans)

lemma rne_ge: "of_int n \<le> x \<Longrightarrow> n \<le> rne x"
  using rne_bounds(1) [of x] by (meson le_floor_iff order_trans)

section \<open>Doubles\<close>

text \<open>The binary exponent of a positive rational: \<open>2 ^ e \<le> x < 2 ^ (e + 1)\<close>.\<close>

definition ilog2 :: "rat \<Rightarrow> int" where
  "ilog2 x =
     (if 1 \<le> x then int (floorlog 2 (nat \<lfloor>x\<rfloor>)) - 1
      else let k = int (floorlog 2 (nat \<lfloor>1 / x\<rfloor>)) - 1
           in if x * 2 powi k = 1 then - k else - k - 1)"

definition dbl :: "rat \<Rightarrow> rat" where
  "dbl x =
     (if x = 0 then 0
      else let e = ilog2 \<bar>x\<bar> - 52
           in sgn x * of_int (rne (\<bar>x\<bar> * 2 powi (- e))) * 2 powi e)"

definition exact :: "rat \<Rightarrow> rat" where
  "exact x = x"

lemma exact_eq: "exact = (\<lambda>x. x)"
  by (rule ext) (simp add: exact_def)

text \<open>\<open>round(x, 1)\<close>: to one decimal place, exactly rounded, then the nearest double.\<close>

definition round1 :: "(rat \<Rightarrow> rat) \<Rightarrow> rat \<Rightarrow> rat" where
  "round1 fl x = fl (of_int (rne (10 * x)) / 10)"

text \<open>\<open>int(x)\<close>: towards zero.\<close>

definition trunc :: "rat \<Rightarrow> int" where
  "trunc x = (if 0 \<le> x then \<lfloor>x\<rfloor> else \<lceil>x\<rceil>)"

lemma floorlog2_bounds:
  assumes "0 < n"
  shows "2 ^ (floorlog 2 n - 1) \<le> n" "n < 2 ^ (floorlog 2 n)" "0 < floorlog 2 n"
proof -
  have "2 ^ (floorlog 2 n - 1) \<le> n \<and> n < 2 ^ (floorlog 2 n)"
    using assms by (intro floorlog_bounds) simp_all
  then show "2 ^ (floorlog 2 n - 1) \<le> n" "n < 2 ^ (floorlog 2 n)" by auto
  show "0 < floorlog 2 n" using assms by (simp add: floorlog_def)
qed

lemma floorlog2_rat:
  assumes "1 \<le> (x::rat)"
  shows "2 powi (int (floorlog 2 (nat \<lfloor>x\<rfloor>)) - 1) \<le> x" "x < 2 powi int (floorlog 2 (nat \<lfloor>x\<rfloor>))"
proof -
  let ?n = "nat \<lfloor>x\<rfloor>"
  let ?k = "floorlog 2 ?n"
  from assms have f: "1 \<le> \<lfloor>x\<rfloor>" by simp
  then have n: "0 < ?n" by simp
  note b = floorlog2_bounds [OF n]
  have "(of_nat (2 ^ (?k - 1)) :: rat) \<le> of_nat ?n" using b(1) by (simp only: of_nat_le_iff)
  also have "(of_nat ?n :: rat) \<le> x" using f by simp
  finally have "2 ^ (?k - 1) \<le> x" by simp
  moreover have "int ?k - 1 = int (?k - 1)" using b(3) by simp
  ultimately show "2 powi (int ?k - 1) \<le> x" by (simp only: power_int_of_nat)
  have "\<lfloor>x\<rfloor> + 1 \<le> 2 ^ ?k"
  proof -
    have "?n + 1 \<le> 2 ^ ?k" using Suc_leI [OF b(2)] by (simp only: Suc_eq_plus1)
    then have "int (?n + 1) \<le> int (2 ^ ?k)" by (simp only: of_nat_le_iff)
    with f show ?thesis by simp
  qed
  then have "(of_int (\<lfloor>x\<rfloor> + 1) :: rat) \<le> of_int (2 ^ ?k)" by (simp only: of_int_le_iff)
  moreover have "x < of_int (\<lfloor>x\<rfloor> + 1)" by linarith
  ultimately have "x < 2 ^ ?k" by simp
  then show "x < 2 powi int ?k" by simp
qed

lemma powi_split: "(2::rat) powi (a + b) = 2 powi a * 2 powi b"
  by (simp add: power_int_add)

lemma powi_cancel: "(2::rat) powi (- k) * 2 powi k = 1"
  by (simp flip: powi_split)

lemma ilog2_lower:
  assumes "0 < x"
  shows "2 powi ilog2 x \<le> x"
proof (cases "1 \<le> x")
  case True
  then show ?thesis using floorlog2_rat(1) [OF True] by (simp add: ilog2_def)
next
  case False
  define k where "k = int (floorlog 2 (nat \<lfloor>1 / x\<rfloor>)) - 1"
  from False assms have y: "1 \<le> 1 / x" by simp
  have "1 / x < 2 powi (k + 1)" using floorlog2_rat(2) [OF y] by (simp add: k_def)
  then have "1 < x * 2 powi (k + 1)" using assms by (simp add: field_simps)
  then have "2 powi (- (k + 1)) * 2 powi (k + 1) < x * 2 powi (k + 1)" by (simp only: powi_cancel)
  then have u: "2 powi (- (k + 1)) < x" by (rule mult_right_less_imp_less) simp
  show ?thesis
  proof (cases "x * 2 powi k = 1")
    case True
    then have "x * 2 powi k = 2 powi (- k) * 2 powi k" by (simp only: powi_cancel)
    then have "2 powi (- k) = x" by simp
    with False True show ?thesis by (simp add: ilog2_def k_def [symmetric])
  next
    case nk: False
    have "ilog2 x = - k - 1" using False nk by (simp add: ilog2_def k_def [symmetric])
    then have "ilog2 x = - (k + 1)" by simp
    with u show ?thesis by (simp only: less_imp_le)
  qed
qed

lemma ilog2_upper:
  assumes "0 < x"
  shows "x < 2 powi (ilog2 x + 1)"
proof (cases "1 \<le> x")
  case True
  then show ?thesis using floorlog2_rat(2) [OF True] by (simp add: ilog2_def)
next
  case False
  define k where "k = int (floorlog 2 (nat \<lfloor>1 / x\<rfloor>)) - 1"
  from False assms have y: "1 \<le> 1 / x" by simp
  have "2 powi k \<le> 1 / x" using floorlog2_rat(1) [OF y] by (simp add: k_def)
  then have le: "x * 2 powi k \<le> 1" using assms by (simp add: field_simps)
  show ?thesis
  proof (cases "x * 2 powi k = 1")
    case True
    then have i: "ilog2 x + 1 = - k + 1" using False by (simp add: ilog2_def k_def [symmetric])
    from True have "x * 2 powi k = 2 powi (- k) * 2 powi k" by (simp only: powi_cancel)
    then have "x = 2 powi (- k)" by simp
    also have "(2::rat) powi (- k) < 2 powi (- k + 1)" by (intro power_int_strict_increasing) simp_all
    finally show ?thesis by (simp only: i)
  next
    case nk: False
    then have i: "ilog2 x + 1 = - k" using False by (simp add: ilog2_def k_def [symmetric])
    from nk le have "x * 2 powi k < 2 powi (- k) * 2 powi k" by (simp only: powi_cancel)
    then have "x < 2 powi (- k)" by (rule mult_right_less_imp_less) simp
    then show ?thesis by (simp only: i)
  qed
qed

text \<open>The two facts about a quotient that the interleaving of packets relies on.\<close>

lemma dbl_ge_1:
  assumes "1 \<le> x"
  shows "1 \<le> dbl x"
proof -
  define e where "e = ilog2 x - 52"
  have "0 \<le> ilog2 x"
    using assms floorlog2_bounds(3) [of "nat \<lfloor>x\<rfloor>"] by (simp add: ilog2_def)
  then have e: "- 52 \<le> e" by (simp add: e_def)
  have "2 powi (52::int) \<le> x * 2 powi (- e)"
  proof -
    have "2 powi ilog2 x * 2 powi (- e) \<le> x * 2 powi (- e)"
      using ilog2_lower [of x] assms by (intro mult_right_mono) simp_all
    also have "2 powi ilog2 x * 2 powi (- e) = (2::rat) powi (ilog2 x + - e)"
      by (rule powi_split [symmetric])
    finally show ?thesis by (simp add: e_def)
  qed
  then have "of_int (2 ^ 52) \<le> x * 2 powi (- e)" by simp
  then have r: "2 ^ 52 \<le> rne (x * 2 powi (- e))" by (rule rne_ge)
  have "(1::rat) = 2 powi (52 + - 52)" by simp
  also have "\<dots> \<le> 2 powi (52 + e)" using e by (intro power_int_increasing) simp_all
  also have "\<dots> = of_int (2 ^ 52) * 2 powi e" by (simp add: powi_split)
  also have "\<dots> \<le> of_int (rne (x * 2 powi (- e))) * 2 powi e"
    using r by (intro mult_right_mono) (simp_all only: of_int_le_iff, simp)
  finally show ?thesis using assms by (simp add: dbl_def e_def [symmetric] Let_def)
qed

lemma ilog2_below_1: "x < 1 \<Longrightarrow> 0 < x \<Longrightarrow> ilog2 x < 0"
proof (rule ccontr)
  assume x: "x < 1" "0 < x" and "\<not> ilog2 x < 0"
  then have "(2::rat) powi 0 \<le> 2 powi ilog2 x" by (intro power_int_increasing) simp_all
  also have "\<dots> \<le> x" using x(2) by (rule ilog2_lower)
  finally show False using x by simp
qed

text \<open>A number at most \<open>1 - 2 ^ -53\<close> (a double) is not rounded up to one.\<close>

lemma dbl_less_1:
  assumes "0 \<le> x" and "x * 2 ^ 53 \<le> 2 ^ 53 - 1"
  shows "dbl x < 1"
proof (cases "x = 0")
  case True
  then show ?thesis by (simp add: dbl_def)
next
  case False
  with assms(1) have x0: "0 < x" by simp
  have x1: "x < 1" using assms(2) by simp
  define e where "e = ilog2 x - 52"
  have e53: "e \<le> - 53" using ilog2_below_1 [OF x1 x0] by (simp add: e_def)
  have d: "dbl x = of_int (rne (x * 2 powi (- e))) * 2 powi e"
    using x0 by (simp add: dbl_def e_def [symmetric] Let_def)
  show ?thesis
  proof (cases "e = - 53")
    case True
    have "x * 2 powi (- e) \<le> of_int (2 ^ 53 - 1)" using assms(2) True by simp
    then have "rne (x * 2 powi (- e)) \<le> 2 ^ 53 - 1" by (rule rne_le)
    then have "(of_int (rne (x * 2 powi (- e))) :: rat) \<le> of_int (2 ^ 53 - 1)" by (simp only: of_int_le_iff)
    moreover have "(0::rat) < 2 powi e" by simp
    ultimately have "dbl x \<le> of_int (2 ^ 53 - 1) * 2 powi e" unfolding d by (intro mult_right_mono) simp_all
    also have "\<dots> < 1" using True by (simp add: power_int_minus)
    finally show ?thesis .
  next
    case neq: False
    with e53 have e54: "e \<le> - 54" by simp
    have up: "rne (x * 2 powi (- e)) \<le> 2 ^ 53"
    proof (rule rne_le)
      have "x < 2 powi (ilog2 x + 1)" using x0 by (rule ilog2_upper)
      then have "x * 2 powi (- e) \<le> 2 powi (ilog2 x + 1) * 2 powi (- e)" by (intro mult_right_mono) simp_all
      also have "\<dots> = 2 powi (53::int)" by (simp add: e_def flip: powi_split)
      finally show "x * 2 powi (- e) \<le> of_int (2 ^ 53)" by simp
    qed
    then have "(of_int (rne (x * 2 powi (- e))) :: rat) \<le> of_int (2 ^ 53)" by (simp only: of_int_le_iff)
    then have "dbl x \<le> of_int (2 ^ 53) * 2 powi e" unfolding d by (intro mult_right_mono) simp_all
    also have "\<dots> = 2 powi (53 + e)" by (simp add: powi_split)
    also have "\<dots> \<le> 2 powi (- 1)" using e54 by (intro power_int_increasing) simp_all
    also have "\<dots> < 1" by (simp add: power_int_minus)
    finally show ?thesis .
  qed
qed

section \<open>The interface of float division\<close>

text \<open>
  What the scripts rely on when they compare quotients of counters with one: for counters below
  \<open>2 ^ 53\<close> the rounded quotient is below one exactly when the numerator is below the denominator.
\<close>

locale float_division =
  fixes fl :: "rat \<Rightarrow> rat"
  assumes fl_less: "0 \<le> p \<Longrightarrow> p < q \<Longrightarrow> q \<le> 2 ^ 53 \<Longrightarrow> fl (of_int p / of_int q) < 1"
    and fl_ge: "0 < q \<Longrightarrow> q \<le> p \<Longrightarrow> 1 \<le> fl (of_int p / of_int q)"
begin

lemma fl_ge_iff:
  assumes "0 \<le> p" and "0 < q" and "q \<le> 2 ^ 53"
  shows "1 \<le> fl (of_int p / of_int q) \<longleftrightarrow> q \<le> p"
  using fl_less [of p q] fl_ge [of q p] assms by (cases "p < q") auto

end

interpretation ideal: float_division exact
  by unfold_locales (simp_all add: exact_def)

interpretation machine: float_division dbl
proof unfold_locales
  fix p q :: int
  assume p: "0 \<le> p" "p < q" and q: "q \<le> 2 ^ 53"
  let ?x = "of_int p / of_int q :: rat"
  have q0: "(0::rat) < of_int q" using p by simp
  show "dbl ?x < 1"
  proof (rule dbl_less_1)
    show "0 \<le> ?x" using p by simp
    have "(of_int p :: rat) * 2 ^ 53 \<le> (of_int q - 1) * 2 ^ 53"
    proof (rule mult_right_mono)
      have "(of_int p :: rat) \<le> of_int (q - 1)" using p by (simp only: of_int_le_iff)
      then show "(of_int p :: rat) \<le> of_int q - 1" by simp
    qed simp
    also have "\<dots> \<le> of_int q * (2 ^ 53 - 1)"
    proof -
      have "(of_int q :: rat) \<le> of_int (2 ^ 53)" using q by (simp only: of_int_le_iff)
      then show ?thesis by (simp add: algebra_simps)
    qed
    finally show "?x * 2 ^ 53 \<le> 2 ^ 53 - 1" using q0 by (simp add: field_simps)
  qed
next
  fix p q :: int
  assume "0 < q" "q \<le> p"
  then have "(1::rat) \<le> of_int p / of_int q" by simp
  then show "1 \<le> dbl (of_int p / of_int q)" by (rule dbl_ge_1)
qed

end
