(* ===== verification/Pkt_Queue.thy ===== *)
theory Pkt_Queue
  imports Py_Strings Py_Float
begin

text \<open>
  \<open>sim_pkt_queue\<close> of \<open>graph.py\<close>: from the flows of a port, their packet counts and the queue
  depths they saw, the script replays an interleaving of the packets, counts how often a packet
  of one flow waited behind a packet of another, and turns the counts into the degree of every
  flow in the provenance graph (how much it delayed others minus how much it was delayed).
\<close>

section \<open>The interleaving\<close>

definition ratios :: "(rat \<Rightarrow> rat) \<Rightarrow> int list \<Rightarrow> int list \<Rightarrow> rat list res" where
  "ratios fl ptrs pktnums =
     map_res (\<lambda>(ptr, pktnum). if pktnum = 0 then Inl ZeroDivisionError
                              else Inr (fl (of_int ptr / of_int pktnum))) (zip ptrs pktnums)"

definition index_of :: "'a \<Rightarrow> 'a list \<Rightarrow> nat" where
  "index_of x xs = length (takeWhile (\<lambda>y. y \<noteq> x) xs)"

definition bump :: "nat \<Rightarrow> int list \<Rightarrow> int list" where
  "bump i ptrs = ptrs[i := ptrs ! i + 1]"

text \<open>The \<open>while True\<close> loop; \<^const>\<open>None\<close> is a loop that never ends.\<close>

partial_function (option) merge_loop ::
  "(rat \<Rightarrow> rat) \<Rightarrow> int list \<Rightarrow> int list \<Rightarrow> nat list \<Rightarrow> nat list res option" where
  "merge_loop fl pktnums ptrs pkt_list =
     (case ratios fl ptrs pktnums of
        Inl e \<Rightarrow> Some (Inl e)
      | Inr rela_ptrs \<Rightarrow>
          if rela_ptrs = [] then Some (Inl ValueError)
          else if 1 \<le> min_list rela_ptrs then Some (Inr pkt_list)
          else (let max_idx = index_of (min_list rela_ptrs) rela_ptrs
                in merge_loop fl pktnums (bump max_idx ptrs) (pkt_list @ [max_idx])))"

declare merge_loop.simps [code]

section \<open>Counting who waited for whom\<close>

type_synonym matrix = "nat list list"

definition bump_entry :: "nat \<Rightarrow> nat \<Rightarrow> matrix \<Rightarrow> matrix" where
  "bump_entry a b m = m[a := (m ! a)[b := m ! a ! b + 1]]"

text \<open>\<open>for i in range(1, queuedepth + 1)\<close>, left at the front of the packet list.\<close>

fun wait_steps :: "nat list \<Rightarrow> nat \<Rightarrow> nat \<Rightarrow> nat \<Rightarrow> matrix \<Rightarrow> matrix" where
  "wait_steps pkts p i 0 m = m"
| "wait_steps pkts p i (Suc k) m =
     (if p < i then m
      else wait_steps pkts p (Suc i) k (bump_entry (pkts ! p) (pkts ! (p - i)) m))"

definition wait_row :: "nat list \<Rightarrow> int list \<Rightarrow> nat \<Rightarrow> matrix \<Rightarrow> matrix res" where
  "wait_row pkts queuedepths p m =
     bind_res (py_nth queuedepths (pkts ! p)) (\<lambda>d. Inr (wait_steps pkts p 1 (nat d) m))"

definition wait_counts :: "nat list \<Rightarrow> int list \<Rightarrow> nat \<Rightarrow> matrix res" where
  "wait_counts pkts queuedepths flownum =
     run_steps (\<lambda>m p. wait_row pkts queuedepths p m) (replicate flownum (replicate flownum 0))
       [0..<length pkts]"

section \<open>Weights and degrees\<close>

definition norm_row :: "(rat \<Rightarrow> rat) \<Rightarrow> int list \<Rightarrow> nat \<Rightarrow> nat list \<Rightarrow> rat list res" where
  "norm_row fl pktnums i row =
     map_res (\<lambda>w. bind_res (py_nth pktnums i) (\<lambda>n.
        if n = 0 then Inl ZeroDivisionError
        else Inr (round1 fl (fl (of_nat w / of_int n))))) row"

definition norm_matrix :: "(rat \<Rightarrow> rat) \<Rightarrow> int list \<Rightarrow> matrix \<Rightarrow> rat list list res" where
  "norm_matrix fl pktnums m = map_res (\<lambda>(i, row). norm_row fl pktnums i row) (enumerate 0 m)"

definition dict_zip :: "'k list \<Rightarrow> 'v list \<Rightarrow> ('k, 'v) dict" where
  "dict_zip ks vs = fold (\<lambda>(k, v). dict_set k v) (zip ks vs) []"

type_synonym weights = "(string, (string, rat) dict) dict"

definition add_weight :: "(rat \<Rightarrow> rat) \<Rightarrow> weights \<Rightarrow> (string, rat) dict \<Rightarrow> string \<times> string \<Rightarrow> (string, rat) dict res" where
  "add_weight fl pw degree e =
     (case e of (flow, flow1) \<Rightarrow>
        bind_res (dict_get pw flow) (\<lambda>row.
        bind_res (dict_get row flow1) (\<lambda>w.
        bind_res (dict_get degree flow) (\<lambda>d.
          let degree1 = dict_set flow (fl (d - w)) degree
          in bind_res (dict_get degree1 flow1) (\<lambda>d1.
               Inr (dict_set flow1 (fl (d1 + w)) degree1))))))"

definition degrees :: "(rat \<Rightarrow> rat) \<Rightarrow> string list \<Rightarrow> weights \<Rightarrow> (string, rat) dict \<Rightarrow> (string, rat) dict res" where
  "degrees fl flows pw degree = run_steps (add_weight fl pw) degree (List.product flows flows)"

text \<open>
  The whole function: \<^const>\<open>None\<close> in the outer option is a run that never ends, \<open>Inr None\<close> the early
  \<open>return\<close> without flows.
\<close>

definition sim_pkt_queue ::
  "(rat \<Rightarrow> rat) \<Rightarrow> string list \<Rightarrow> int list \<Rightarrow> int list \<Rightarrow> (string, rat) dict option res option" where
  "sim_pkt_queue fl flows pktnums queuedepths =
     (let flownum = length flows in
      if flownum = 0 then Some (Inr None)
      else map_option (\<lambda>r.
        bind_res r (\<lambda>pkt_list.
        bind_res (wait_counts pkt_list queuedepths flownum) (\<lambda>waitfor.
        bind_res (norm_matrix fl pktnums waitfor) (\<lambda>w.
        bind_res (degrees fl flows (dict_zip flows (map (dict_zip flows) w))
                   (fold (\<lambda>f. dict_set f 0) flows [])) (\<lambda>d.
          Inr (Some d))))))
        (merge_loop fl pktnums (replicate flownum 0) []))"

section \<open>The interleaving replays every packet once\<close>

lemma index_of_in:
  assumes "x \<in> set xs"
  shows "index_of x xs < length xs" "xs ! index_of x xs = x"
proof -
  show l: "index_of x xs < length xs"
    using assms unfolding index_of_def by (induction xs) auto
  from l show "xs ! index_of x xs = x"
    unfolding index_of_def by (metis (mono_tags, lifting) nth_length_takeWhile)
qed

lemma ratios_ok:
  assumes "length ptrs = length pktnums" and "\<forall>q \<in> set pktnums. q \<noteq> 0"
  shows "ratios fl ptrs pktnums = Inr (map2 (\<lambda>p q. fl (of_int p / of_int q)) ptrs pktnums)"
  using assms unfolding ratios_def by (induction ptrs pktnums rule: list_induct2) auto

text \<open>The loop invariant: every pointer counts the packets replayed for its flow.\<close>

definition merge_inv :: "int list \<Rightarrow> int list \<Rightarrow> nat list \<Rightarrow> bool" where
  "merge_inv pktnums ptrs pkts \<longleftrightarrow>
     length ptrs = length pktnums \<and> set pkts \<subseteq> {..<length pktnums} \<and>
     (\<forall>i < length pktnums. ptrs ! i = int (count_list pkts i) \<and> ptrs ! i \<le> pktnums ! i)"

lemma count_list_snoc: "count_list (xs @ [x]) y = count_list xs y + (if x = y then 1 else 0)"
  by (induction xs) auto

lemma merge_inv_init:
  "\<forall>q \<in> set pktnums. 0 < q \<Longrightarrow> merge_inv pktnums (replicate (length pktnums) 0) []"
  by (auto simp: merge_inv_def all_set_conv_all_nth less_imp_le)

lemma merge_inv_bump:
  assumes "merge_inv pktnums ptrs pkts" and "i < length pktnums" and "ptrs ! i < pktnums ! i"
  shows "merge_inv pktnums (bump i ptrs) (pkts @ [i])"
  using assms by (auto simp: merge_inv_def bump_def nth_list_update count_list_snoc)

definition left_over :: "int list \<Rightarrow> int list \<Rightarrow> nat" where
  "left_over pktnums ptrs = (\<Sum>i < length pktnums. nat (pktnums ! i - ptrs ! i))"

lemma left_over_bump:
  assumes "length ptrs = length pktnums" and i: "i < length pktnums" and "ptrs ! i < pktnums ! i"
  shows "left_over pktnums (bump i ptrs) < left_over pktnums ptrs"
  unfolding left_over_def
proof (rule sum_strict_mono_ex1)
  show "\<forall>j \<in> {..<length pktnums}. nat (pktnums ! j - bump i ptrs ! j) \<le> nat (pktnums ! j - ptrs ! j)"
    using assms by (auto simp: bump_def nth_list_update)
  show "\<exists>j \<in> {..<length pktnums}. nat (pktnums ! j - bump i ptrs ! j) < nat (pktnums ! j - ptrs ! j)"
    using assms by (auto simp: bump_def intro!: bexI [of _ i])
qed simp

context float_division
begin

text \<open>One turn of the loop: either all pointers are at their counts, or one below it moves.\<close>

lemma merge_turn:
  assumes inv: "merge_inv pktnums ptrs pkts" and ne: "pktnums \<noteq> []"
    and q: "\<forall>q \<in> set pktnums. 0 < q \<and> q \<le> 2 ^ 53"
  shows "merge_loop fl pktnums ptrs pkts = Some (Inr pkts) \<and> ptrs = pktnums \<or>
    (\<exists>i < length pktnums. ptrs ! i < pktnums ! i \<and>
       (\<forall>j < length pktnums. fl (of_int (ptrs ! i) / of_int (pktnums ! i))
                             \<le> fl (of_int (ptrs ! j) / of_int (pktnums ! j))) \<and>
       merge_loop fl pktnums ptrs pkts = merge_loop fl pktnums (bump i ptrs) (pkts @ [i]))"
proof -
  define rs where "rs = map2 (\<lambda>p q. fl (of_int p / of_int q)) ptrs pktnums"
  have len: "length ptrs = length pktnums" using inv by (simp add: merge_inv_def)
  then have lrs: "length rs = length pktnums" and
    nth: "\<And>j. j < length pktnums \<Longrightarrow> rs ! j = fl (of_int (ptrs ! j) / of_int (pktnums ! j))"
    by (simp_all add: rs_def)
  have rne: "rs \<noteq> []" using lrs ne by (cases pktnums) auto
  have rat: "ratios fl ptrs pktnums = Inr rs"
    unfolding rs_def using len q by (intro ratios_ok) auto
  have ge: "1 \<le> rs ! j \<longleftrightarrow> pktnums ! j \<le> ptrs ! j" if "j < length pktnums" for j
  proof -
    have "0 \<le> ptrs ! j" using inv that by (simp add: merge_inv_def)
    moreover have "0 < pktnums ! j \<and> pktnums ! j \<le> 2 ^ 53" using q that by (simp only: nth_mem)
    ultimately show ?thesis unfolding nth [OF that] by (simp only: fl_ge_iff)
  qed
  show ?thesis
  proof (cases "1 \<le> min_list rs")
    case True
    then have "\<forall>r \<in> set rs. 1 \<le> r" using rne by (simp add: min_list_Min)
    then have "\<forall>j < length pktnums. pktnums ! j \<le> ptrs ! j" using ge lrs by (metis nth_mem)
    then have "ptrs = pktnums" using inv len by (auto simp: merge_inv_def intro!: nth_equalityI order_antisym)
    moreover have "merge_loop fl pktnums ptrs pkts = Some (Inr pkts)"
      using True rne by (simp add: merge_loop.simps rat)
    ultimately show ?thesis by simp
  next
    case False
    let ?m = "min_list rs"
    let ?i = "index_of ?m rs"
    have mem: "?m \<in> set rs" using rne by (simp add: min_list_Min)
    have i: "?i < length pktnums" and ri: "rs ! ?i = ?m"
      using index_of_in [OF mem] lrs by simp_all
    have lt: "ptrs ! ?i < pktnums ! ?i" using ge [OF i] False ri by simp
    have least: "\<forall>j < length pktnums. rs ! ?i \<le> rs ! j"
      using rne lrs ri by (simp add: min_list_Min)
    have step: "merge_loop fl pktnums ptrs pkts = merge_loop fl pktnums (bump ?i ptrs) (pkts @ [?i])"
      using False rne by (subst merge_loop.simps) (simp add: rat Let_def)
    show ?thesis using i lt least step nth by (intro disjI2 exI [of _ ?i]) simp
  qed
qed

text \<open>
  The loop ends whatever the rounding, and its packet list holds every flow's packets, each once.
\<close>

lemma merge_total:
  assumes "merge_inv pktnums ptrs pkts" and "pktnums \<noteq> []"
    and "\<forall>q \<in> set pktnums. 0 < q \<and> q \<le> 2 ^ 53"
  shows "\<exists>pl. merge_loop fl pktnums ptrs pkts = Some (Inr pl) \<and> merge_inv pktnums pktnums pl"
  using assms(1)
proof (induction "left_over pktnums ptrs" arbitrary: ptrs pkts rule: less_induct)
  case less
  note turn = merge_turn [OF less.prems assms(2,3)]
  show ?case
  proof (cases "ptrs = pktnums \<and> merge_loop fl pktnums ptrs pkts = Some (Inr pkts)")
    case True
    with less.prems show ?thesis by auto
  next
    case False
    then obtain i where i: "i < length pktnums" "ptrs ! i < pktnums ! i"
      and step: "merge_loop fl pktnums ptrs pkts = merge_loop fl pktnums (bump i ptrs) (pkts @ [i])"
      using turn by blast
    have "length ptrs = length pktnums" using less.prems by (simp add: merge_inv_def)
    then show ?thesis
      unfolding step using less.hyps [OF left_over_bump merge_inv_bump] i less.prems by blast
  qed
qed

end

text \<open>Proportional progress, in ideal arithmetic: no flow runs ahead of another by more than a packet.\<close>

definition fair :: "int list \<Rightarrow> nat list \<Rightarrow> bool" where
  "fair pktnums pkts \<longleftrightarrow>
     (\<forall>k \<le> length pkts. \<forall>i < length pktnums. \<forall>j < length pktnums.
        0 < count_list (take k pkts) i \<longrightarrow>
        (of_nat (count_list (take k pkts) i) - 1) / of_int (pktnums ! i)
          \<le> (of_nat (count_list (take k pkts) j) / of_int (pktnums ! j) :: rat))"

lemma fair_snoc:
  assumes f: "fair pktnums pkts" and q: "\<forall>q \<in> set pktnums. 0 < q" and x: "x < length pktnums"
    and least: "\<forall>j < length pktnums. (of_nat (count_list pkts x) / of_int (pktnums ! x) :: rat)
                   \<le> of_nat (count_list pkts j) / of_int (pktnums ! j)"
  shows "fair pktnums (pkts @ [x])"
  unfolding fair_def
proof (intro allI impI)
  fix k i j
  assume k: "k \<le> length (pkts @ [x])" and i: "i < length pktnums" and j: "j < length pktnums"
    and pos: "0 < count_list (take k (pkts @ [x])) i"
  have qj: "(0::rat) < of_int (pktnums ! j)" using q j by simp
  let ?c = "\<lambda>l y. (of_nat (count_list l y) :: rat)"
  have mono: "?c pkts j / of_int (pktnums ! j) \<le> ?c (pkts @ [x]) j / of_int (pktnums ! j)"
    using qj by (intro divide_right_mono) (simp_all add: count_list_snoc)
  show "(?c (take k (pkts @ [x])) i - 1) / of_int (pktnums ! i) \<le> ?c (take k (pkts @ [x])) j / of_int (pktnums ! j)"
  proof (cases "k \<le> length pkts")
    case True
    with f i j pos show ?thesis by (simp add: fair_def)
  next
    case False
    with k have t: "take k (pkts @ [x]) = pkts @ [x]" by simp
    show ?thesis
    proof (cases "i = x")
      case True
      then have "(?c (pkts @ [x]) i - 1) / of_int (pktnums ! i) = ?c pkts x / of_int (pktnums ! x)"
        by (simp add: count_list_snoc)
      also have "\<dots> \<le> ?c pkts j / of_int (pktnums ! j)" using least j by simp
      finally show ?thesis using mono t by simp
    next
      case ne: False
      then have "?c (pkts @ [x]) i = ?c pkts i" by (simp add: count_list_snoc)
      moreover have "(?c pkts i - 1) / of_int (pktnums ! i) \<le> ?c pkts j / of_int (pktnums ! j)"
      proof -
        have "0 < count_list (take (length pkts) pkts) i"
          using pos ne unfolding t by (simp add: count_list_snoc)
        then show ?thesis using f i j unfolding fair_def by (metis order_refl take_all_iff)
      qed
      ultimately show ?thesis using mono t by simp
    qed
  qed
qed

lemma merge_fair:
  assumes "merge_inv pktnums ptrs pkts" and "pktnums \<noteq> []"
    and q: "\<forall>q \<in> set pktnums. 0 < q \<and> q \<le> 2 ^ 53"
    and "fair pktnums pkts"
    and "merge_loop exact pktnums ptrs pkts = Some (Inr pl)"
  shows "fair pktnums pl"
  using assms(1,4,5)
proof (induction "left_over pktnums ptrs" arbitrary: ptrs pkts rule: less_induct)
  case less
  note turn = ideal.merge_turn [OF less.prems(1) assms(2) q]
  show ?case
  proof (cases "ptrs = pktnums \<and> merge_loop exact pktnums ptrs pkts = Some (Inr pkts)")
    case True
    with less.prems show ?thesis by auto
  next
    case False
    then obtain i where i: "i < length pktnums" "ptrs ! i < pktnums ! i"
      and least: "\<forall>j < length pktnums. exact (of_int (ptrs ! i) / of_int (pktnums ! i))
                     \<le> exact (of_int (ptrs ! j) / of_int (pktnums ! j))"
      and step: "merge_loop exact pktnums ptrs pkts = merge_loop exact pktnums (bump i ptrs) (pkts @ [i])"
      using turn by blast
    have len: "length ptrs = length pktnums" using less.prems(1) by (simp add: merge_inv_def)
    have "fair pktnums (pkts @ [i])"
    proof (rule fair_snoc)
      show "\<forall>j < length pktnums. (of_nat (count_list pkts i) / of_int (pktnums ! i) :: rat)
              \<le> of_nat (count_list pkts j) / of_int (pktnums ! j)"
        using least less.prems(1) i(1) by (simp add: merge_inv_def exact_def)
    qed (use less.prems(2) q i(1) in auto)
    moreover have "merge_loop exact pktnums (bump i ptrs) (pkts @ [i]) = Some (Inr pl)"
      using less.prems(3) step by simp
    ultimately show ?thesis
      using less.hyps [OF left_over_bump merge_inv_bump] i less.prems(1) len by blast
  qed
qed

section \<open>What the wait counts say\<close>

text \<open>
  The specification: flow \<open>a\<close> waited for flow \<open>b\<close> once for every packet of \<open>a\<close> and every one of the
  (at most) queue-depth packets in front of it that belongs to \<open>b\<close>.
\<close>

definition in_front :: "nat list \<Rightarrow> nat \<Rightarrow> nat \<Rightarrow> nat \<Rightarrow> nat \<Rightarrow> nat set" where
  "in_front pkts p i k b = {j. i \<le> j \<and> j < i + k \<and> j \<le> p \<and> pkts ! (p - j) = b}"

definition waits_behind :: "nat list \<Rightarrow> int list \<Rightarrow> nat \<Rightarrow> nat \<Rightarrow> nat \<Rightarrow> nat" where
  "waits_behind pkts queuedepths n a b =
     (\<Sum>p < n. if pkts ! p = a then card (in_front pkts p 1 (nat (queuedepths ! a)) b) else 0)"

definition square :: "nat \<Rightarrow> matrix \<Rightarrow> bool" where
  "square n m \<longleftrightarrow> length m = n \<and> (\<forall>row \<in> set m. length row = n)"

lemma square_bump: "square n m \<Longrightarrow> a < n \<Longrightarrow> square n (bump_entry a b m)"
  by (auto simp: square_def bump_entry_def dest!: set_update_subset_insert [THEN subsetD])

lemma bump_entry_nth:
  assumes "square n m" "a < n" "b < n" "x < n" "y < n"
  shows "bump_entry a b m ! x ! y = m ! x ! y + (if x = a \<and> y = b then 1 else 0)"
  using assms by (auto simp: square_def bump_entry_def nth_list_update)

lemma in_front_finite [simp]: "finite (in_front pkts p i k b)"
  by (rule finite_subset [of _ "{..p}"]) (auto simp: in_front_def)

lemma card_in_front_0 [simp]: "in_front pkts p i 0 b = {}"
  by (auto simp: in_front_def)

lemma card_in_front_Suc:
  "card (in_front pkts p i (Suc k) b) =
     (if p < i then 0 else (if pkts ! (p - i) = b then 1 else 0) + card (in_front pkts p (Suc i) k b))"
proof (cases "p < i")
  case True
  then have "in_front pkts p i (Suc k) b = {}" by (auto simp: in_front_def)
  with True show ?thesis by simp
next
  case False
  then have "in_front pkts p i (Suc k) b =
      (if pkts ! (p - i) = b then insert i (in_front pkts p (Suc i) k b) else in_front pkts p (Suc i) k b)"
    by (auto simp: in_front_def Suc_le_eq dest: le_neq_implies_less)
  moreover have "i \<notin> in_front pkts p (Suc i) k b" by (simp add: in_front_def)
  ultimately show ?thesis using False by simp
qed

lemma wait_steps_spec:
  assumes "square n m" and "p < length pkts" and "set pkts \<subseteq> {..<n}"
  shows "square n (wait_steps pkts p i k m) \<and>
    (\<forall>x < n. \<forall>y < n. wait_steps pkts p i k m ! x ! y =
       m ! x ! y + (if x = pkts ! p then card (in_front pkts p i k y) else 0))"
  using assms(1)
proof (induction k arbitrary: i m)
  case 0
  then show ?case by simp
next
  case (Suc k)
  show ?case
  proof (cases "p < i")
    case True
    with Suc.prems show ?thesis by (simp add: card_in_front_Suc)
  next
    case False
    let ?a = "pkts ! p" and ?b = "pkts ! (p - i)"
    have ab: "?a < n" "?b < n" using assms(2,3) by (auto simp: subset_iff)
    from Suc.prems ab(1) have sq: "square n (bump_entry ?a ?b m)" by (rule square_bump)
    show ?thesis using Suc.IH [OF sq, of "Suc i"] False
      by (simp add: bump_entry_nth [OF Suc.prems ab] card_in_front_Suc)
  qed
qed

lemma wait_row_spec:
  assumes "square n m" and "p < length pkts" and "set pkts \<subseteq> {..<n}" and "length queuedepths = n"
  obtains m' where "wait_row pkts queuedepths p m = Inr m'" and "square n m'"
    and "\<forall>x < n. \<forall>y < n. m' ! x ! y =
       m ! x ! y + (if x = pkts ! p then card (in_front pkts p 1 (nat (queuedepths ! x)) y) else 0)"
proof -
  have "pkts ! p < length queuedepths" using assms(2,3,4) by (auto simp: subset_iff)
  then have "wait_row pkts queuedepths p m = Inr (wait_steps pkts p 1 (nat (queuedepths ! (pkts ! p))) m)"
    by (simp add: wait_row_def py_nth_def)
  then show ?thesis
    using wait_steps_spec [OF assms(1-3), of 1 "nat (queuedepths ! (pkts ! p))"] that by auto
qed

lemma wait_prefix_spec:
  assumes "set pkts \<subseteq> {..<n}" and "length queuedepths = n"
  shows "k \<le> length pkts \<Longrightarrow>
    \<exists>m. run_steps (\<lambda>m p. wait_row pkts queuedepths p m) (replicate n (replicate n 0)) [0..<k] = Inr m \<and>
      square n m \<and> (\<forall>x < n. \<forall>y < n. m ! x ! y = waits_behind pkts queuedepths k x y)"
proof (induction k)
  case 0
  then show ?case by (simp add: square_def waits_behind_def)
next
  case (Suc k)
  then obtain m where r: "run_steps (\<lambda>m p. wait_row pkts queuedepths p m) (replicate n (replicate n 0)) [0..<k] = Inr m"
    and sq: "square n m" and m: "\<forall>x < n. \<forall>y < n. m ! x ! y = waits_behind pkts queuedepths k x y"
    by auto
  from Suc.prems have "k < length pkts" by simp
  from wait_row_spec [OF sq this assms] obtain m' where "wait_row pkts queuedepths k m = Inr m'"
    and "square n m'" and "\<forall>x < n. \<forall>y < n. m' ! x ! y =
       m ! x ! y + (if x = pkts ! k then card (in_front pkts k 1 (nat (queuedepths ! x)) y) else 0)" .
  with r m show ?case by (simp add: run_steps_append waits_behind_def)
qed

lemma wait_counts_spec:
  assumes "set pkts \<subseteq> {..<n}" and "length queuedepths = n"
  shows "\<exists>m. wait_counts pkts queuedepths n = Inr m \<and> square n m \<and>
    (\<forall>a < n. \<forall>b < n. m ! a ! b = waits_behind pkts queuedepths (length pkts) a b)"
  using wait_prefix_spec [OF assms, of "length pkts"] by (simp add: wait_counts_def)

section \<open>Degrees\<close>

definition total :: "('k, rat) dict \<Rightarrow> rat" where
  "total d = sum_list (map snd d)"

lemma total_set:
  assumes "dict_ok d" and "map_of d k = Some v"
  shows "total (dict_set k w d) = total d - v + w"
  using assms
proof (induction d)
  case Nil
  then show ?case by simp
next
  case (Cons it d)
  obtain k' v' where "it = (k', v')" by (cases it)
  with Cons show ?case by (auto simp: total_def dict_ok_def split: if_splits)
qed

lemma dict_get_set_same: "dict_get (dict_set k v d) k = Inr v"
  by (simp add: dict_get_def)

text \<open>
  In ideal arithmetic every step takes from one flow what it gives to the other, so the loop
  over pairs of flows keeps the sum of the degrees.
\<close>

lemma add_weight_total:
  assumes "dict_ok degree \<and> total degree = t" and "add_weight exact pw degree e = Inr degree'"
  shows "dict_ok degree' \<and> total degree' = t"
proof -
  obtain a b where e: "e = (a, b)" by (cases e)
  from assms(2) obtain row w d d1 where d: "dict_get degree a = Inr d"
    and d1: "dict_get (dict_set a (d - w) degree) b = Inr d1"
    and r: "degree' = dict_set b (d1 + w) (dict_set a (d - w) degree)"
    by (auto simp: e add_weight_def bind_res_Inr_iff exact_def Let_def)
  have ok: "dict_ok (dict_set a (d - w) degree)" using assms(1) by simp
  have "total degree' = total (dict_set a (d - w) degree) - d1 + (d1 + w)"
    unfolding r using d1 ok by (intro total_set) (simp_all add: dict_get_Inr_iff)
  also have "total (dict_set a (d - w) degree) = total degree - d + (d - w)"
    using assms(1) d by (intro total_set) (simp_all add: dict_get_Inr_iff)
  finally show ?thesis using assms(1) ok r by simp
qed

interpretation degree_loop: loop_invariant "add_weight exact pw" "\<lambda>d. dict_ok d \<and> total d = t" for pw t
  by unfold_locales (rule add_weight_total)

text \<open>Whatever the rounding, the loop only rewrites the entries of the flows.\<close>

lemma add_weight_keys:
  assumes "fst ` set degree = F" and "add_weight fl pw degree e = Inr degree'"
  shows "fst ` set degree' = F"
proof -
  obtain a b where e: "e = (a, b)" by (cases e)
  from assms(2) obtain w d d1 where d: "map_of degree a = Some d"
    and d1: "map_of (dict_set a (fl (d - w)) degree) b = Some d1"
    and r: "degree' = dict_set b (fl (d1 + w)) (dict_set a (fl (d - w)) degree)"
    by (auto simp: e add_weight_def bind_res_Inr_iff Let_def dict_get_Inr_iff simp del: map_of_dict_set)
  from d have "a \<in> F" unfolding assms(1) [symmetric] by (rule map_of_Some_key)
  moreover from map_of_Some_key [OF d1] have "b \<in> insert a F" by (simp add: assms(1))
  ultimately show ?thesis by (auto simp: r assms(1))
qed

interpretation degree_keys: loop_invariant "add_weight fl pw" "\<lambda>d. fst ` set d = F" for fl pw F
  by unfold_locales (rule add_weight_keys)

lemma init_degree: "dict_ok (fold (\<lambda>f. dict_set f 0) flows d) \<and> total (fold (\<lambda>f. dict_set f 0) flows d) = 0 \<and>
    fst ` set (fold (\<lambda>f. dict_set f 0) flows d) = set flows \<union> fst ` set d"
  if "dict_ok d" "\<forall>v \<in> snd ` set d. v = (0::rat)"
  using that
proof (induction flows arbitrary: d)
  case Nil
  then have "map snd d = map (\<lambda>_. 0) d" by simp
  then have "total d = sum_list (map (\<lambda>_. 0) d)" by (simp only: total_def)
  with Nil show ?case by simp
next
  case (Cons f flows)
  have "\<forall>v \<in> snd ` set (dict_set f 0 d). v = 0"
  proof
    fix v assume "v \<in> snd ` set (dict_set f 0 d)"
    then obtain k where "(k, v) \<in> set (dict_set f 0 d)" by auto
    then have "map_of (dict_set f 0 d) k = Some v"
      using Cons.prems(1) dict_ok_set [of d f 0] by (simp add: dict_ok_def del: map_of_dict_set)
    then show "v = 0" using Cons.prems(2) by (auto split: if_splits dest!: map_of_SomeD intro: rev_image_eqI)
  qed
  then show ?case using Cons.IH [of "dict_set f 0 d"] Cons.prems(1) by auto
qed

section \<open>The whole function\<close>

lemma dict_zip_lookup:
  assumes "length vs = length ks" and "k \<in> set ks"
  shows "\<exists>v \<in> set vs. map_of (dict_zip ks vs) k = Some v"
proof -
  let ?items = "zip ks vs"
  have m: "map_of (dict_zip ks vs) = map_of (rev ?items)"
    by (simp add: dict_zip_def odict.lookup_fold_store)
  have "k \<in> fst ` set (rev ?items)" using assms by (force simp: set_zip in_set_conv_nth)
  then obtain v where v: "map_of (rev ?items) k = Some v" by (metis map_of_eq_None_iff not_None_eq)
  then have "(k, v) \<in> set ?items" by (auto dest: map_of_SomeD)
  then show ?thesis using v m by (auto dest: set_zip_rightD)
qed

lemma norm_row_ok:
  assumes "i < length pktnums" and "pktnums ! i \<noteq> 0"
  shows "norm_row fl pktnums i row = Inr (map (\<lambda>w. round1 fl (fl (of_nat w / of_int (pktnums ! i)))) row)"
  using assms by (induction row) (simp_all add: norm_row_def py_nth_def)

lemma norm_matrix_ok:
  assumes "square n m" and "length pktnums = n" and "\<forall>q \<in> set pktnums. q \<noteq> 0"
  shows "\<exists>w. norm_matrix fl pktnums m = Inr w \<and> length w = n \<and> (\<forall>row \<in> set w. length row = n)"
proof -
  have "\<exists>w. map_res (\<lambda>(i, row). norm_row fl pktnums i row) (enumerate k rows) = Inr w \<and>
      length w = length rows \<and> (\<forall>row \<in> set w. length row = n)"
    if "k + length rows \<le> n" and "\<forall>row \<in> set rows. length row = n" for k rows
    using that
  proof (induction rows arbitrary: k)
    case Nil
    then show ?case by simp
  next
    case (Cons row rows)
    then have k: "k < length pktnums" using assms(2) by simp
    then have "pktnums ! k \<noteq> 0" using assms(3) by simp
    with k have "norm_row fl pktnums k row =
        Inr (map (\<lambda>w. round1 fl (fl (of_nat w / of_int (pktnums ! k)))) row)" by (rule norm_row_ok)
    moreover obtain w where "map_res (\<lambda>(i, row). norm_row fl pktnums i row) (enumerate (Suc k) rows) = Inr w"
        "length w = length rows" "\<forall>row \<in> set w. length row = n"
      using Cons.IH [of "Suc k"] Cons.prems by auto
    ultimately show ?case using Cons.prems(2) by simp
  qed
  from this [of 0 m] assms(1) show ?thesis by (simp add: norm_matrix_def square_def)
qed

lemma degrees_ok:
  assumes "\<forall>f \<in> set flows. \<exists>row. map_of pw f = Some row \<and> (\<forall>g \<in> set flows. \<exists>w. map_of row g = Some w)"
    and "fst ` set d = set flows"
  shows "\<exists>d'. degrees fl flows pw d = Inr d' \<and> fst ` set d' = set flows"
proof -
  have "\<exists>d'. run_steps (add_weight fl pw) d es = Inr d' \<and> fst ` set d' = set flows"
    if "set es \<subseteq> set flows \<times> set flows" and "fst ` set d = set flows" for es d
    using that
  proof (induction es arbitrary: d)
    case Nil
    then show ?case by simp
  next
    case (Cons e es)
    obtain a b where e: "e = (a, b)" by (cases e)
    with Cons.prems(1) have ab: "a \<in> set flows" "b \<in> set flows" by auto
    obtain row w where row: "map_of pw a = Some row" "map_of row b = Some w" using assms(1) ab by blast
    obtain da where da: "map_of d a = Some da"
      using ab(1) Cons.prems(2) by (metis map_of_eq_None_iff option.exhaust)
    obtain db where db: "map_of d b = Some db"
      using ab(2) Cons.prems(2) by (metis map_of_eq_None_iff option.exhaust)
    have "\<exists>d1. add_weight fl pw d e = Inr d1"
      using row da db by (simp add: e add_weight_def dict_get_def Let_def)
    then obtain d1 where step: "add_weight fl pw d e = Inr d1" ..
    from add_weight_keys [OF Cons.prems(2) step] have "fst ` set d1 = set flows" .
    with Cons.IH [of d1] Cons.prems(1) step show ?case by simp
  qed
  from this [of "List.product flows flows"] assms(2) show ?thesis by (auto simp: degrees_def)
qed

text \<open>C3.  The interleaving loop of \<open>sim_pkt_queue\<close>, run in double precision on packet counts between
  1 and \<open>2 ^ 53\<close>, ends, and the packet list it returns holds exactly the packets of every flow:
  flow \<open>i\<close> appears \<open>pktnums[i]\<close> times and nothing else appears.\<close>

theorem interleaving_complete:
  assumes "pktnums \<noteq> []" and "\<forall>q \<in> set pktnums. 0 < q \<and> q \<le> 2 ^ 53"
  shows "\<exists>pl. merge_loop dbl pktnums (replicate (length pktnums) 0) [] = Some (Inr pl) \<and>
           set pl \<subseteq> {..<length pktnums} \<and>
           (\<forall>i < length pktnums. int (count_list pl i) = pktnums ! i)"
  using machine.merge_total [OF merge_inv_init assms(1,2)] assms(2) by (auto simp: merge_inv_def)

theorem interleaving_complete_witness:
  "\<exists>pl. merge_loop dbl [2, 1] [0, 0] [] = Some (Inr pl) \<and> set pl \<subseteq> {..<2} \<and>
     int (count_list pl 0) = 2 \<and> int (count_list pl 1) = 1"
  using interleaving_complete [of "[2, 1]"] by (auto simp: numeral_2_eq_2 All_less_Suc)

text \<open>C5.  In ideal (exact) arithmetic the replayed interleaving is proportional: after every prefix, a flow
  is at most one of its own packets ahead of any other flow.  Without its last packet, the share of its
  packets that a flow has sent is at most the share that any other flow has sent.\<close>

theorem interleaving_proportional:
  assumes "pktnums \<noteq> []" and "\<forall>q \<in> set pktnums. 0 < q \<and> q \<le> 2 ^ 53"
    and "merge_loop exact pktnums (replicate (length pktnums) 0) [] = Some (Inr pl)"
    and "k \<le> length pl" and "i < length pktnums" and "j < length pktnums"
    and "0 < count_list (take k pl) i"
  shows "(of_nat (count_list (take k pl) i) - 1) / of_int (pktnums ! i)
           \<le> (of_nat (count_list (take k pl) j) / of_int (pktnums ! j) :: rat)"
proof -
  have "merge_inv pktnums (replicate (length pktnums) 0) []" using assms(2) by (intro merge_inv_init) auto
  moreover have "fair pktnums []" by (simp add: fair_def)
  ultimately have "fair pktnums pl" using assms(3) by (rule merge_fair [OF _ assms(1,2)])
  with assms(4-7) show ?thesis unfolding fair_def by blast
qed

lemma merge_small: "merge_loop exact [2, 1] [0, 0] [] = Some (Inr [0, 1, 0])"
  by code_simp

theorem interleaving_proportional_witness:
  "merge_loop exact [2, 1] [0, 0] [] = Some (Inr [0, 1, 0]) \<and>
   (of_nat (count_list (take 2 [0, 1, 0]) (1::nat)) - 1) / of_int ([2, 1] ! 1)
     \<le> (of_nat (count_list (take 2 [0, 1, 0]) (0::nat)) / of_int ([2, 1] ! 0) :: rat)"
proof
  show m: "merge_loop exact [2, 1] [0, 0] [] = Some (Inr [0, 1, 0])" by (rule merge_small)
  show "(of_nat (count_list (take 2 [0, 1, 0]) (1::nat)) - 1) / of_int ([2, 1] ! 1)
     \<le> (of_nat (count_list (take 2 [0, 1, 0]) (0::nat)) / of_int ([2, 1] ! 0) :: rat)"
    by (rule interleaving_proportional [of "[2, 1]"]) (simp_all add: m numeral_2_eq_2)
qed

text \<open>C6.  The wait matrix counts what it should: entry \<open>(a, b)\<close> is the number of pairs of a packet of
  flow \<open>a\<close> and one of the queue-depth packets before it that belongs to flow \<open>b\<close>.\<close>

theorem wait_matrix_counts:
  assumes "set pkts \<subseteq> {..<n}" and "length queuedepths = n"
  shows "\<exists>m. wait_counts pkts queuedepths n = Inr m \<and>
    (\<forall>a < n. \<forall>b < n. m ! a ! b = waits_behind pkts queuedepths (length pkts) a b)"
  using wait_counts_spec [OF assms] by blast

theorem wait_matrix_counts_witness:
  "wait_counts [0, 1, 0] [2, 1] 2 = Inr [[1, 1], [1, 0]] \<and>
   (\<exists>m. wait_counts [0, 1, 0] [2, 1] 2 = Inr m \<and>
     (\<forall>a < 2. \<forall>b < 2. m ! a ! b = waits_behind [0, 1, 0] [2, 1] 3 a b))"
proof
  show "wait_counts [0, 1, 0] [2, 1] 2 = Inr [[1, 1], [1, 0]]" by code_simp
  show "\<exists>m. wait_counts [0, 1, 0] [2, 1] 2 = Inr m \<and>
     (\<forall>a < 2. \<forall>b < 2. m ! a ! b = waits_behind [0, 1, 0] [2, 1] 3 a b)"
    using wait_matrix_counts [of "[0, 1, 0]" 2 "[2, 1]"] by (simp add: numeral_3_eq_3)
qed

text \<open>C1.  \<open>sim_pkt_queue\<close> never raises and always returns on the telemetry of a port: for at least
  one flow, as many packet counts (between 1 and \<open>2 ^ 53\<close>) and queue depths as flows, it returns a
  degree for every flow and for nothing else.\<close>

theorem sim_pkt_queue_returns:
  assumes "flows \<noteq> []" and "length pktnums = length flows" and "length queuedepths = length flows"
    and q: "\<forall>q \<in> set pktnums. 0 < q \<and> q \<le> 2 ^ 53"
  shows "\<exists>d. sim_pkt_queue dbl flows pktnums queuedepths = Some (Inr (Some d)) \<and> fst ` set d = set flows"
proof -
  let ?n = "length flows"
  have ne: "pktnums \<noteq> []" using assms(1,2) by auto
  have inv: "merge_inv pktnums (replicate ?n 0) []"
    unfolding assms(2) [symmetric] using q by (intro merge_inv_init) blast
  obtain pl where pl: "merge_loop dbl pktnums (replicate ?n 0) [] = Some (Inr pl)"
    and sub: "set pl \<subseteq> {..<?n}"
    using machine.merge_total [OF inv ne q] unfolding merge_inv_def assms(2) by blast
  obtain m where m: "wait_counts pl queuedepths ?n = Inr m" "square ?n m"
    using wait_counts_spec [OF sub assms(3)] by blast
  obtain w where w: "norm_matrix dbl pktnums m = Inr w" "length w = ?n" "\<forall>row \<in> set w. length row = ?n"
    using norm_matrix_ok [OF m(2) assms(2), of dbl] q by auto
  let ?pw = "dict_zip flows (map (dict_zip flows) w)"
  have pw: "\<forall>f \<in> set flows. \<exists>row. map_of ?pw f = Some row \<and> (\<forall>g \<in> set flows. \<exists>x. map_of row g = Some x)"
  proof
    fix f assume that: "f \<in> set flows"
    have "\<exists>v \<in> set (map (dict_zip flows) w). map_of ?pw f = Some v"
      using that w(2) by (intro dict_zip_lookup) simp_all
    then obtain v where r: "map_of ?pw f = Some (dict_zip flows v)" and v: "v \<in> set w" by auto
    have "\<forall>g \<in> set flows. \<exists>x. map_of (dict_zip flows v) g = Some x"
    proof
      fix g assume "g \<in> set flows"
      moreover have "length v = length flows" using v w(3) by blast
      ultimately show "\<exists>x. map_of (dict_zip flows v) g = Some x"
        using dict_zip_lookup [of v flows g] by blast
    qed
    with r show "\<exists>row. map_of ?pw f = Some row \<and> (\<forall>g \<in> set flows. \<exists>x. map_of row g = Some x)" by blast
  qed
  have "fst ` set (fold (\<lambda>f. dict_set f (0::rat)) flows []) = set flows"
    using init_degree [of "[]" flows] by simp
  from degrees_ok [OF pw this, of dbl] obtain d where d: "degrees dbl flows ?pw (fold (\<lambda>f. dict_set f 0) flows []) = Inr d"
    and keys: "fst ` set d = set flows"
    by blast
  have "sim_pkt_queue dbl flows pktnums queuedepths = Some (Inr (Some d))"
    using assms(1) by (simp only: sim_pkt_queue_def Let_def pl m(1) w(1) d bind_res_simps
        length_0_conv if_False option.map)
  with keys show ?thesis by blast
qed

theorem sim_pkt_queue_returns_witness:
  "\<exists>d. sim_pkt_queue dbl [''a'', ''b''] [2, 1] [1, 0] = Some (Inr (Some d)) \<and> fst ` set d = {''a'', ''b''}"
  using sim_pkt_queue_returns [of "[''a'', ''b'']" "[2, 1]" "[1, 0]"] by simp

text \<open>C2.  Delay is conserved: in ideal arithmetic the degrees \<open>sim_pkt_queue\<close> returns add up to zero, so
  what some flows lost waiting, others caused.\<close>

theorem degrees_conserved:
  assumes "sim_pkt_queue exact flows pktnums queuedepths = Some (Inr (Some d))"
  shows "sum_list (map snd d) = 0"
proof -
  obtain pw where "degrees exact flows pw (fold (\<lambda>f. dict_set f 0) flows []) = Inr d"
    using assms by (auto simp: sim_pkt_queue_def Let_def bind_res_Inr_iff split: if_splits)
  then have r: "run_steps (add_weight exact pw) (fold (\<lambda>f. dict_set f 0) flows []) (List.product flows flows) = Inr d"
    by (simp only: degrees_def)
  have "dict_ok (fold (\<lambda>f. dict_set f (0::rat)) flows []) \<and> total (fold (\<lambda>f. dict_set f 0) flows []) = 0"
    using init_degree [of "[]" flows] by simp
  from degree_loop.run_inv [OF this r] have "dict_ok d \<and> total d = 0" .
  then show ?thesis by (simp add: total_def)
qed

lemma sim_small:
  "sim_pkt_queue exact [''a'', ''b''] [2, 1] [1, 0] = Some (Inr (Some [(''a'', - 1 / 2), (''b'', 1 / 2)]))"
  by code_simp

theorem degrees_conserved_witness:
  "sim_pkt_queue exact [''a'', ''b''] [2, 1] [1, 0] = Some (Inr (Some [(''a'', - 1 / 2), (''b'', 1 / 2)])) \<and>
   sum_list (map snd [(''a'', - 1 / 2 :: rat), (''b'', 1 / 2)]) = 0"
  using sim_small degrees_conserved [OF sim_small] by blast

end
