(* ===== verification/Telemetry.thy ===== *)
theory Telemetry
  imports Pkt_Queue
begin

text \<open>
  \<open>parse_telemetry\<close> and \<open>main\<close> of \<open>graph.py\<close>: the reports a switch logs when it is polled are
  read line by line into the tree that \<open>telemetry.json\<close> holds (switch, report time, epoch, port,
  then the weights of the provenance graph), and reports that follow another one too closely are
  dropped.
\<close>

section \<open>The tree\<close>

datatype json = JNum rat | JStr string | JObj "(string \<times> json) list"

text \<open>\<open>d[k1][k2]...\<close> as a value and \<open>d[k1][k2]...[k] = v\<close> as a statement.\<close>

fun json_get :: "json \<Rightarrow> string list \<Rightarrow> json res" where
  "json_get j [] = Inr j"
| "json_get (JObj d) (k # ks) = (case map_of d k of None \<Rightarrow> Inl KeyError | Some j \<Rightarrow> json_get j ks)"
| "json_get (JNum _) (k # ks) = Inl TypeError"
| "json_get (JStr _) (k # ks) = Inl TypeError"

fun json_set :: "json \<Rightarrow> string list \<Rightarrow> string \<Rightarrow> json \<Rightarrow> json res" where
  "json_set (JObj d) [] k v = Inr (JObj (dict_set k v d))"
| "json_set (JObj d) (p # ps) k v =
     (case map_of d p of
        None \<Rightarrow> Inl KeyError
      | Some j \<Rightarrow> bind_res (json_set j ps k v) (\<lambda>j'. Inr (JObj (dict_set p j' d))))"
| "json_set (JNum _) ps k v = Inl TypeError"
| "json_set (JStr _) ps k v = Inl TypeError"

definition json_nums :: "(string, rat) dict \<Rightarrow> json" where
  "json_nums d = JObj (map (\<lambda>(k, v). (k, JNum v)) d)"

section \<open>The variables of the loop\<close>

text \<open>
  The local variables a report binds with its \<open>time\<close> line; before the first such line they are
  unbound.  \<open>v_inport\<close> is \<^const>\<open>None\<close> for the value \<open>-1\<close>.  \<open>v_linked\<close> lists the epochs whose
  \<open>porttelemetry\<close> dictionary is the very object the tree holds as \<open>p2p_weight\<close>, so that a later
  store to it shows in the tree.
\<close>

record tele_vars =
  v_time :: string
  v_porttel :: "(string, (string, rat) dict) dict"
  v_traffic :: "(string, int) dict"
  v_inport :: "string option"
  v_teleflag :: bool
  v_polling :: bool
  v_port :: string
  v_epoch :: string
  v_flows :: "string list"
  v_pktnums :: "int list"
  v_qdepths :: "int list"
  v_linked :: "string list"

record tele =
  tree :: json
  vars :: "tele_vars option"

abbreviation EPOCH_NOW :: string where "EPOCH_NOW \<equiv> ''epoch_now''"
abbreviation EPOCH_LAST :: string where "EPOCH_LAST \<equiv> ''epoch_last''"

definition new_vars :: "string \<Rightarrow> tele_vars option \<Rightarrow> tele_vars" where
  "new_vars time old =
     \<lparr>v_time = time, v_porttel = [(EPOCH_NOW, []), (EPOCH_LAST, [])], v_traffic = [],
      v_inport = None, v_teleflag = False, v_polling = False, v_port = ''0'', v_epoch = EPOCH_NOW,
      v_flows = (case old of None \<Rightarrow> [] | Some v \<Rightarrow> v_flows v),
      v_pktnums = (case old of None \<Rightarrow> [] | Some v \<Rightarrow> v_pktnums v),
      v_qdepths = (case old of None \<Rightarrow> [] | Some v \<Rightarrow> v_qdepths v),
      v_linked = []\<rparr>"

definition put :: "string list \<Rightarrow> string \<Rightarrow> json \<Rightarrow> tele \<Rightarrow> tele res" where
  "put path k v s = bind_res (json_set (tree s) path k v) (\<lambda>t. Inr (s\<lparr>tree := t\<rparr>))"

definition set_vars :: "tele_vars \<Rightarrow> tele \<Rightarrow> tele" where
  "set_vars v s = s\<lparr>vars := Some v\<rparr>"

text \<open>A store to \<open>porttelemetry[epoch]\<close>, seen in the tree when the tree holds that dictionary.\<close>

definition store_porttel :: "string \<Rightarrow> string \<Rightarrow> (string, rat) dict \<Rightarrow> tele_vars \<Rightarrow> tele \<Rightarrow> tele res" where
  "store_porttel sw epoch d v s =
     (let v' = v\<lparr>v_porttel := dict_set epoch d (v_porttel v)\<rparr>
      in if epoch \<in> set (v_linked v)
         then put [sw, v_time v, epoch] ''p2p_weight'' (json_nums d) (set_vars v' s)
         else Inr (set_vars v' s))"

section \<open>The branches of the loop body\<close>

definition on_time :: "string \<Rightarrow> string \<Rightarrow> tele \<Rightarrow> tele res" where
  "on_time sw line s =
     bind_res (py_nth (split_ws line) 1) (\<lambda>time.
     bind_res (put [sw] time (JObj [(EPOCH_NOW, JObj []), (EPOCH_LAST, JObj [])]) s) (\<lambda>s1.
       Inr (set_vars (new_vars time (vars s)) s1)))"

text \<open>The share of the traffic from the polled port that each port of the epoch takes.\<close>

definition scale_entry :: "(rat \<Rightarrow> rat) \<Rightarrow> (string, int) dict \<Rightarrow> string \<times> rat \<Rightarrow> (string \<times> rat) res" where
  "scale_entry fl traffic e =
     (let total = sum_list (map snd traffic) in
      if total = 0 then Inr (fst e, 0)
      else bind_res (dict_get traffic (fst e)) (\<lambda>m.
             Inr (fst e, fl (fl (snd e * of_int m) / of_int total))))"

definition scale_ports :: "(rat \<Rightarrow> rat) \<Rightarrow> (string, int) dict \<Rightarrow> (string, rat) dict \<Rightarrow> (string, rat) dict res" where
  "scale_ports fl traffic d = map_res (scale_entry fl traffic) d"

definition close_epoch :: "(rat \<Rightarrow> rat) \<Rightarrow> string \<Rightarrow> tele \<Rightarrow> string \<Rightarrow> tele res" where
  "close_epoch fl sw s epoch =
     (case vars s of
        None \<Rightarrow> Inl UnboundLocalError
      | Some v0 \<Rightarrow>
          (let v = v0\<lparr>v_epoch := epoch\<rparr> in
           bind_res (json_get (tree s) [sw, v_time v, epoch]) (\<lambda>e.
             if e \<noteq> JObj [] \<and> \<not> v_polling v then
               bind_res (dict_get (v_porttel v) epoch) (\<lambda>d.
               bind_res (scale_ports fl (v_traffic v) d) (\<lambda>d'.
               bind_res (store_porttel sw epoch d' v s) (\<lambda>s1.
               bind_res (put [sw, v_time v, epoch] ''p2p_weight'' (json_nums d') s1) (\<lambda>s2.
                 Inr (s2\<lparr>vars := map_option (\<lambda>w. w\<lparr>v_linked := epoch # v_linked w\<rparr>) (vars s2)\<rparr>)))))
             else Inr (set_vars v s))))"

definition on_end :: "(rat \<Rightarrow> rat) \<Rightarrow> string \<Rightarrow> tele_vars \<Rightarrow> tele \<Rightarrow> tele res" where
  "on_end fl sw v s =
     bind_res (case v_inport v of None \<Rightarrow> Inr s | Some p \<Rightarrow> put [sw, v_time v] ''inport'' (JStr p) s)
       (\<lambda>s1. run_steps (close_epoch fl sw) s1 [EPOCH_NOW, EPOCH_LAST])"

definition on_type :: "string \<Rightarrow> string \<Rightarrow> bool \<Rightarrow> tele_vars \<Rightarrow> tele \<Rightarrow> tele res" where
  "on_type sw t polling v s =
     bind_res (put [sw, v_time v] ''type'' (JStr t) s) (\<lambda>s1. Inr (set_vars (v\<lparr>v_polling := polling\<rparr>) s1))"

definition on_epoch :: "string \<Rightarrow> tele \<Rightarrow> tele res" where
  "on_epoch line s =
     bind_res (py_nth (split_ws line) 1) (\<lambda>e.
       Inr (s\<lparr>vars := map_option (\<lambda>v. v\<lparr>v_epoch := ''epoch_'' @ e\<rparr>) (vars s)\<rparr>))"

definition on_blank :: "(rat \<Rightarrow> rat) \<Rightarrow> string \<Rightarrow> tele_vars \<Rightarrow> tele \<Rightarrow> tele res option" where
  "on_blank fl sw v s =
     map_option (\<lambda>r. bind_res r (\<lambda>degrees.
        let s1 = set_vars (v\<lparr>v_teleflag := False\<rparr>) s in
        case degrees of
          None \<Rightarrow> Inr s1
        | Some d \<Rightarrow> put [sw, v_time v, v_epoch v, v_port v] ''p2f_weight'' (json_nums d) s1))
       (sim_pkt_queue fl (v_flows v) (v_pktnums v) (v_qdepths v))"

definition on_flow_header :: "string \<Rightarrow> string \<Rightarrow> tele_vars \<Rightarrow> tele \<Rightarrow> tele res" where
  "on_flow_header sw line v s =
     bind_res (put [sw, v_time v, v_epoch v, v_port v] ''f2p_weight'' (JObj []) s) (\<lambda>s1.
     bind_res (py_index (split_ws line) (- 1)) (\<lambda>port.
       Inr (set_vars (v\<lparr>v_flows := [], v_pktnums := [], v_qdepths := [],
                        v_port := port, v_teleflag := True\<rparr>) s1)))"

definition int_field :: "string \<Rightarrow> nat \<Rightarrow> int res" where
  "int_field line i = bind_res (py_nth (split_ws line) i) py_int"

definition on_port_header ::
  "(rat \<Rightarrow> rat) \<Rightarrow> string \<Rightarrow> string list \<Rightarrow> nat \<Rightarrow> tele_vars \<Rightarrow> tele \<Rightarrow> tele res" where
  "on_port_header fl sw ls i v0 s0 =
     bind_res (py_index (split_ws (butlast (ls ! i))) (- 1)) (\<lambda>port.
     bind_res (py_nth ls (i + 2)) (\<lambda>data.
     bind_res (int_field data 2) (\<lambda>pktnum.
     bind_res (int_field data 0) (\<lambda>qdepth.
     bind_res (int_field data 1) (\<lambda>paused.
       let v = v0\<lparr>v_port := port\<rparr> in
       bind_res (put [sw, v_time v, v_epoch v] port (JObj []) (set_vars v s0)) (\<lambda>s1.
       bind_res (put [sw, v_time v, v_epoch v, port] ''paused_pkt'' (JNum (of_int paused)) s1) (\<lambda>s2.
       bind_res (dict_get (v_porttel v) (v_epoch v)) (\<lambda>d.
         store_porttel sw (v_epoch v)
           (dict_set port (if pktnum = 0 then 0 else fl (of_int qdepth / of_int pktnum)) d) v s2))))))))"

definition on_meter :: "string list \<Rightarrow> nat \<Rightarrow> tele_vars \<Rightarrow> tele \<Rightarrow> tele res" where
  "on_meter ls i v s =
     bind_res (py_index (split_ws (butlast (ls ! i))) (- 1)) (\<lambda>port.
     bind_res (py_nth ls (i + 2)) (\<lambda>data.
     bind_res (py_int (butlast data)) (\<lambda>n.
     bind_res (py_nth (split_ws (butlast (ls ! i))) 4) (\<lambda>inport.
       Inr (set_vars (v\<lparr>v_port := port, v_traffic := dict_set port n (v_traffic v),
                        v_inport := Some inport\<rparr>) s)))))"

definition on_flow :: "(rat \<Rightarrow> rat) \<Rightarrow> string \<Rightarrow> string \<Rightarrow> tele_vars \<Rightarrow> tele \<Rightarrow> tele res" where
  "on_flow fl sw line v s =
     bind_res (py_nth (split_ws line) 1) (\<lambda>src.
     bind_res (py_nth (split_ws line) 2) (\<lambda>dst.
     bind_res (int_field line 8) (\<lambda>pktnum.
     bind_res (int_field line 10) (\<lambda>paused.
       let flow = src @ ''->'' @ dst in
       bind_res (put [sw, v_time v, v_epoch v, v_port v, ''f2p_weight''] flow (JNum (of_int paused)) s) (\<lambda>s1.
       bind_res (if pktnum - paused = 0 then Inr 0
                 else bind_res (int_field line 9) (\<lambda>q.
                        Inr (trunc (fl (of_int q / of_int (pktnum - paused)))))) (\<lambda>depth.
         Inr (set_vars (v\<lparr>v_flows := v_flows v @ [flow], v_pktnums := v_pktnums v @ [pktnum],
                          v_qdepths := v_qdepths v @ [depth]\<rparr>) s1)))))))"

section \<open>The loop\<close>

text \<open>
  One turn of the loop at line \<open>i\<close>: the state after it and how many further lines it consumes.
  The outer \<^const>\<open>None\<close> is a turn that never ends (the call of \<^const>\<open>sim_pkt_queue\<close>).
\<close>

definition tele_step ::
  "(rat \<Rightarrow> rat) \<Rightarrow> string \<Rightarrow> string list \<Rightarrow> nat \<Rightarrow> tele \<Rightarrow> (nat \<times> tele) res option" where
  "tele_step fl sw ls i s =
     (let line = ls ! i;
          stay = (\<lambda>r. Some (bind_res r (\<lambda>s. Inr (0, s))));
          bound = (\<lambda>f. case vars s of None \<Rightarrow> Some (Inl UnboundLocalError) | Some v \<Rightarrow> f v)
      in
      if startswith line ''time'' then stay (on_time sw line s)
      else if startswith line ''end'' then bound (\<lambda>v. stay (on_end fl sw v s))
      else if startswith line ''polling'' then bound (\<lambda>v. stay (on_type sw ''flow_trace'' True v s))
      else if startswith line ''signal'' then bound (\<lambda>v. stay (on_type sw ''pfc_trace'' False v s))
      else if startswith line ''epoch'' then stay (on_epoch line s)
      else bound (\<lambda>v.
        if v_teleflag v \<and> line = ''\<newline>'' then
          map_option (\<lambda>r. bind_res r (\<lambda>s. Inr (0, s))) (on_blank fl sw v s)
        else if startswith line ''flow telemetry'' then
          Some (bind_res (on_flow_header sw line v s) (\<lambda>s. Inr (1, s)))
        else if startswith line ''port telemetry'' then stay (on_port_header fl sw ls i v s)
        else if startswith line ''traffic meter form port'' then stay (on_meter ls i v s)
        else if v_teleflag v then stay (on_flow fl sw line v s)
        else Some (Inr (0, s))))"

function tele_loop :: "(rat \<Rightarrow> rat) \<Rightarrow> string \<Rightarrow> string list \<Rightarrow> nat \<Rightarrow> tele \<Rightarrow> tele res option" where
  "tele_loop fl sw ls i s =
     (if i < length ls then
        (case tele_step fl sw ls i s of
           None \<Rightarrow> None
         | Some (Inl e) \<Rightarrow> Some (Inl e)
         | Some (Inr (skip, s')) \<Rightarrow> tele_loop fl sw ls (i + 1 + skip) s')
      else Some (Inr s))"
  by pat_completeness auto
termination
  by (relation "measure (\<lambda>(fl, sw, ls, i, s). length ls - i)") auto

declare tele_loop.simps [simp del]

text \<open>
  \<open>parse_telemetry\<close>: one file per switch, \<open>files\<close> the contents of \<open>telemetry_<id>.txt\<close> by line.
  The local variables live across the files.
\<close>

fun parse_telemetry ::
  "(rat \<Rightarrow> rat) \<Rightarrow> (nat \<Rightarrow> string list option) \<Rightarrow> nat list \<Rightarrow> tele \<Rightarrow> tele res option" where
  "parse_telemetry fl files [] s = Some (Inr s)"
| "parse_telemetry fl files (i # ids) s =
     (case files i of
        None \<Rightarrow> Some (Inl IOError)
      | Some ls \<Rightarrow>
          (case put [] (show_nat i) (JObj []) s of
             Inl e \<Rightarrow> Some (Inl e)
           | Inr s1 \<Rightarrow>
               (case tele_loop fl (show_nat i) ls 0 s1 of
                  None \<Rightarrow> None
                | Some (Inl e) \<Rightarrow> Some (Inl e)
                | Some (Inr s2) \<Rightarrow> parse_telemetry fl files ids s2)))"

section \<open>main: reports that follow too closely are dropped\<close>

fun drop_close :: "string list \<Rightarrow> (string \<times> json) list \<Rightarrow> (string \<times> json) list res" where
  "drop_close (t # u # ts) d =
     bind_res (py_int u) (\<lambda>b.
     bind_res (py_int t) (\<lambda>a.
       if b - a < 50000 then
         bind_res (dict_get d u) (\<lambda>_. drop_close (u # ts) (dict_del u d))
       else drop_close (u # ts) d))"
| "drop_close ts d = Inr d"

definition drop_close_switch :: "string \<times> json \<Rightarrow> (string \<times> json) res" where
  "drop_close_switch e =
     (case snd e of
        JObj d \<Rightarrow> bind_res (drop_close (dict_keys d) d) (\<lambda>d'. Inr (fst e, JObj d'))
      | _ \<Rightarrow> Inl AttributeError)"

definition graph_main ::
  "nat list \<Rightarrow> (rat \<Rightarrow> rat) \<Rightarrow> (nat \<Rightarrow> string list option) \<Rightarrow> json res option" where
  "graph_main switch_list fl files =
     map_option (\<lambda>r. bind_res r (\<lambda>s.
        case tree s of
          JObj d \<Rightarrow> bind_res (map_res drop_close_switch d) (\<lambda>d'. Inr (JObj d'))
        | _ \<Rightarrow> Inl AttributeError))
       (parse_telemetry fl files switch_list \<lparr>tree = JObj [], vars = None\<rparr>)"

definition SWITCH_LIST :: "nat list" where
  "SWITCH_LIST = [9, 10, 11, 12]"

definition SWITCH_LIST_deadlock :: "nat list" where
  "SWITCH_LIST_deadlock = [0, 1, 2, 3]"

definition hawkeye_main :: "(nat \<Rightarrow> string list option) \<Rightarrow> json res option" where
  "hawkeye_main files = graph_main SWITCH_LIST dbl files"

definition deadlock_main :: "(nat \<Rightarrow> string list option) \<Rightarrow> json res option" where
  "deadlock_main files = graph_main SWITCH_LIST_deadlock dbl files"

section \<open>Paths into the tree\<close>

lemma json_set_get:
  "json_get j ps = Inr (JObj d) \<Longrightarrow>
    \<exists>j'. json_set j ps k v = Inr j' \<and> json_get j' ps = Inr (JObj (dict_set k v d))"
proof (induction j ps rule: json_get.induct)
  case (2 e p ps)
  then show ?case by (auto split: option.splits)
qed auto

text \<open>A store leaves everything alone that does not lie under the stored key.\<close>

lemma json_set_frame:
  assumes "json_set j ps k v = Inr j'" and "\<not> prefix (ps @ [k]) qs" and "\<not> prefix qs ps"
  shows "json_get j' qs = json_get j qs"
  using assms
proof (induction j ps k v arbitrary: j' qs rule: json_set.induct)
  case (1 d k v)
  then show ?case by (cases qs) auto
next
  case (2 d p ps k v)
  then obtain e e' where e: "map_of d p = Some e" "json_set e ps k v = Inr e'"
    and j': "j' = JObj (dict_set p e' d)"
    by (auto simp: bind_res_Inr_iff split: option.splits)
  from "2.prems"(3) obtain q qs' where qs: "qs = q # qs'" by (cases qs) auto
  show ?case
  proof (cases "q = p")
    case True
    with "2.prems" qs have "\<not> prefix (ps @ [k]) qs'" "\<not> prefix qs' ps" by auto
    with "2.IH" e have "json_get e' qs' = json_get e qs'" by blast
    with True e j' qs show ?thesis by simp
  next
    case False
    with j' qs show ?thesis by simp
  qed
qed auto

section \<open>Every stored report has both epochs\<close>

fun is_obj :: "json \<Rightarrow> bool" where
  "is_obj (JObj _) = True"
| "is_obj _ = False"

definition wf_report :: "json \<Rightarrow> bool" where
  "wf_report j \<longleftrightarrow>
     (case j of
        JObj r \<Rightarrow> (\<forall>e \<in> {EPOCH_NOW, EPOCH_LAST}. \<exists>x. map_of r e = Some x \<and> is_obj x)
      | _ \<Rightarrow> False)"

definition wf_switch :: "json \<Rightarrow> bool" where
  "wf_switch j \<longleftrightarrow> (case j of JObj d \<Rightarrow> (\<forall>t r. map_of d t = Some r \<longrightarrow> wf_report r) | _ \<Rightarrow> False)"

definition wf_tree :: "json \<Rightarrow> bool" where
  "wf_tree j \<longleftrightarrow> (case j of JObj d \<Rightarrow> (\<forall>w r. map_of d w = Some r \<longrightarrow> wf_switch r) | _ \<Rightarrow> False)"

lemma json_set_is_obj: "json_set j ps k v = Inr j' \<Longrightarrow> is_obj j'"
  by (induction j ps k v rule: json_set.induct) (auto simp: bind_res_Inr_iff split: option.splits)

lemma json_set_ConsE:
  assumes "json_set j (p # ps) k v = Inr j'"
  obtains d e e' where "j = JObj d" "map_of d p = Some e" "json_set e ps k v = Inr e'"
    "j' = JObj (dict_set p e' d)"
  using assms by (cases j) (auto simp: bind_res_Inr_iff split: option.splits)

lemma json_set_NilE:
  assumes "json_set j [] k v = Inr j'"
  obtains d where "j = JObj d" "j' = JObj (dict_set k v d)"
  using assms by (cases j) auto

lemma set_report:
  assumes "wf_report j" and "json_set j ps k v = Inr j'" and "ps = [] \<Longrightarrow> k \<noteq> EPOCH_NOW \<and> k \<noteq> EPOCH_LAST"
  shows "wf_report j'"
proof (cases ps)
  case Nil
  with assms show ?thesis by (auto simp: wf_report_def elim!: json_set_NilE)
next
  case (Cons p ps')
  with assms(2) obtain d e e' where "j = JObj d" "map_of d p = Some e" "json_set e ps' k v = Inr e'"
    "j' = JObj (dict_set p e' d)" by (auto elim: json_set_ConsE)
  with assms(1) show ?thesis by (auto simp: wf_report_def dest: json_set_is_obj)
qed

text \<open>Which stores the loop makes: the path decides what may be stored.\<close>

definition good_put :: "string list \<Rightarrow> string \<Rightarrow> json \<Rightarrow> bool" where
  "good_put path k v \<longleftrightarrow>
     (case path of
        [] \<Rightarrow> v = JObj []
      | [_] \<Rightarrow> wf_report v
      | [_, _] \<Rightarrow> k \<noteq> EPOCH_NOW \<and> k \<noteq> EPOCH_LAST
      | _ \<Rightarrow> True)"

lemma set_switch:
  assumes "wf_switch j" and "json_set j ps k v = Inr j'"
    and "ps = [] \<Longrightarrow> wf_report v" and "length ps = 1 \<Longrightarrow> k \<noteq> EPOCH_NOW \<and> k \<noteq> EPOCH_LAST"
  shows "wf_switch j'"
proof (cases ps)
  case Nil
  with assms show ?thesis by (auto simp: wf_switch_def elim!: json_set_NilE)
next
  case (Cons p ps')
  with assms(2) obtain d e e' where *: "j = JObj d" "map_of d p = Some e" "json_set e ps' k v = Inr e'"
    "j' = JObj (dict_set p e' d)" by (auto elim: json_set_ConsE)
  from * assms(1) have "wf_report e" by (auto simp: wf_switch_def)
  then have "wf_report e'" using *(3) by (rule set_report) (use assms(4) Cons in auto)
  with * assms(1) show ?thesis by (auto simp: wf_switch_def)
qed

lemma set_tree:
  assumes "wf_tree j" and "json_set j ps k v = Inr j'" and "good_put ps k v"
  shows "wf_tree j'"
proof (cases ps)
  case Nil
  with assms show ?thesis by (auto simp: wf_tree_def good_put_def wf_switch_def elim!: json_set_NilE)
next
  case (Cons p ps')
  with assms(2) obtain d e e' where *: "j = JObj d" "map_of d p = Some e" "json_set e ps' k v = Inr e'"
    "j' = JObj (dict_set p e' d)" by (auto elim: json_set_ConsE)
  from * assms(1) have "wf_switch e" by (auto simp: wf_tree_def)
  then have "wf_switch e'" using *(3)
    by (rule set_switch) (use assms(3) Cons in \<open>auto simp: good_put_def length_Suc_conv\<close>)
  with * assms(1) show ?thesis by (auto simp: wf_tree_def)
qed

definition wf_tele :: "tele \<Rightarrow> bool" where
  "wf_tele s \<longleftrightarrow> wf_tree (tree s)"

lemma put_wf [inv_intros]: "wf_tele s \<Longrightarrow> put ps k v s = Inr s' \<Longrightarrow> good_put ps k v \<Longrightarrow> wf_tele s'"
  by (auto simp: put_def wf_tele_def bind_res_Inr_iff intro: set_tree)

lemma wf_set_vars [simp]: "wf_tele (set_vars v s) = wf_tele s" "wf_tele (s\<lparr>vars := x\<rparr>) = wf_tele s"
  by (simp_all add: wf_tele_def set_vars_def)

lemma good_puts [simp]:
  "good_put [] k (JObj [])"
  "good_put [a, b, c] k v" "good_put [a, b, c, d] k v" "good_put [a, b, c, d, e] k v"
  "good_put [a, b] ''inport'' v" "good_put [a, b] ''type'' v"
  "good_put [a] k (JObj [(EPOCH_NOW, JObj []), (EPOCH_LAST, JObj [])])"
  by (simp_all add: good_put_def wf_report_def)

lemma store_porttel_wf:
  "wf_tele s \<Longrightarrow> store_porttel sw epoch d v s = Inr s' \<Longrightarrow> wf_tele s'"
  by (auto simp: store_porttel_def Let_def split: if_splits elim: put_wf [rotated])

lemma close_epoch_wf: "wf_tele s \<Longrightarrow> close_epoch fl sw s e = Inr s' \<Longrightarrow> wf_tele s'"
  by (auto simp: close_epoch_def Let_def bind_res_Inr_iff split: option.splits if_splits
      dest!: store_porttel_wf [rotated] elim!: put_wf [rotated])

interpretation close_epochs: loop_invariant "close_epoch fl sw" wf_tele for fl sw
  by unfold_locales (rule close_epoch_wf)

lemma on_end_wf:
  assumes "wf_tele s" and "on_end fl sw v s = Inr s'"
  shows "wf_tele s'"
proof -
  from assms(2) obtain s1 where s1: "(case v_inport v of None \<Rightarrow> Inr s
      | Some p \<Rightarrow> put [sw, v_time v] ''inport'' (JStr p) s) = Inr s1"
    and r: "run_steps (close_epoch fl sw) s1 [EPOCH_NOW, EPOCH_LAST] = Inr s'"
    unfolding on_end_def bind_res_Inr_iff by blast
  from s1 assms(1) have "wf_tele s1" by (auto split: option.splits elim: put_wf [rotated])
  then show ?thesis using r by (rule close_epochs.run_inv)
qed

lemma branches_wf:
  assumes "wf_tele s"
  shows "on_time sw line s = Inr s' \<Longrightarrow> wf_tele s'"
    and "on_type sw t b v s = Inr s' \<Longrightarrow> wf_tele s'"
    and "on_epoch line s = Inr s' \<Longrightarrow> wf_tele s'"
    and "on_blank fl sw v s = Some (Inr s') \<Longrightarrow> wf_tele s'"
    and "on_flow_header sw line v s = Inr s' \<Longrightarrow> wf_tele s'"
    and "on_port_header fl sw ls i v s = Inr s' \<Longrightarrow> wf_tele s'"
    and "on_meter ls i v s = Inr s' \<Longrightarrow> wf_tele s'"
    and "on_flow fl sw line v s = Inr s' \<Longrightarrow> wf_tele s'"
  using assms
  by (auto simp: on_time_def on_type_def on_epoch_def on_blank_def on_flow_header_def
      on_port_header_def on_meter_def on_flow_def bind_res_Inr_iff Let_def
      split: option.splits dest!: store_porttel_wf [rotated] elim!: put_wf [rotated])

lemma tele_step_wf:
  assumes "wf_tele s" and "tele_step fl sw ls i s = Some (Inr (k, s'))"
  shows "wf_tele s'"
  using assms(2,1)
  by (auto simp: tele_step_def Let_def bind_res_Inr_iff split: if_splits option.splits
      intro: branches_wf [OF assms(1)] on_end_wf [OF assms(1)] assms(1))

lemma tele_loop_wf:
  "wf_tele s \<Longrightarrow> tele_loop fl sw ls i s = Some (Inr s') \<Longrightarrow> wf_tele s'"
proof (induction fl sw ls i s rule: tele_loop.induct)
  case (1 fl sw ls i s)
  show ?case
  proof (cases "i < length ls")
    case True
    with "1.prems"(2) obtain k t where t: "tele_step fl sw ls i s = Some (Inr (k, t))"
      and r: "tele_loop fl sw ls (i + 1 + k) t = Some (Inr s')"
      by (auto simp: tele_loop.simps [of fl sw ls i s] split: option.splits sum.splits)
    from "1.IH" [OF True t refl refl tele_step_wf [OF "1.prems"(1) t]] r show ?thesis by simp
  next
    case False
    with "1.prems" show ?thesis by (simp add: tele_loop.simps [of fl sw ls i s])
  qed
qed

lemma parse_telemetry_wf:
  "wf_tele s \<Longrightarrow> parse_telemetry fl files ids s = Some (Inr s') \<Longrightarrow> wf_tele s'"
proof (induction ids arbitrary: s)
  case Nil
  then show ?case by simp
next
  case (Cons i ids)
  then show ?case
    by (auto split: option.splits sum.splits dest!: put_wf [rotated] tele_loop_wf [rotated])
qed

section \<open>Lines written by the switch\<close>

text \<open>A row of a flow table as the simulator prints it: eleven words and a newline.\<close>

record flow_row =
  r_head :: string
  r_src :: string
  r_dst :: string
  r_mid :: "string list"
  r_pkts :: int
  r_depth :: int
  r_paused :: int

definition row_ok :: "flow_row \<Rightarrow> bool" where
  "row_ok r \<longleftrightarrow> length (r_mid r) = 5 \<and> isdigit (r_head r) \<and>
     list_all (\<lambda>w. w \<noteq> [] \<and> list_all (\<lambda>c. \<not> is_ws c) w) (r_src r # r_dst r # r_mid r)"

definition row_words :: "flow_row \<Rightarrow> string list" where
  "row_words r = [r_head r, r_src r, r_dst r] @ r_mid r @
     [show_int (r_pkts r), show_int (r_depth r), show_int (r_paused r)]"

definition render_row :: "flow_row \<Rightarrow> string" where
  "render_row r = join '' '' (row_words r) @ ''\<newline>''"

definition row_name :: "flow_row \<Rightarrow> string" where
  "row_name r = r_src r @ ''->'' @ r_dst r"

definition row_depth :: "(rat \<Rightarrow> rat) \<Rightarrow> flow_row \<Rightarrow> int" where
  "row_depth fl r = (if r_pkts r = r_paused r then 0
     else trunc (fl (of_int (r_depth r) / of_int (r_pkts r - r_paused r))))"

lemma split_ws_words:
  assumes "list_all (\<lambda>w. w \<noteq> [] \<and> list_all (\<lambda>c. \<not> is_ws c) w) ws"
  shows "split_ws (join '' '' ws @ ''\<newline>'') = ws"
  using assms
proof (induction ws)
  case Nil
  then show ?case by (simp add: split_ws_skip is_ws_def code_def)
next
  case (Cons w ws)
  then have w: "w \<noteq> []" "list_all (\<lambda>c. \<not> is_ws c) w" by auto
  show ?case
  proof (cases ws)
    case Nil
    with split_ws_word [OF w, of "''\<newline>''"] show ?thesis
      by (simp add: split_ws_skip is_ws_def code_def)
  next
    case (Cons u us)
    have "split_ws (join '' '' (w # ws) @ ''\<newline>'') = split_ws (w @ CHR '' '' # (join '' '' ws @ ''\<newline>''))"
      using Cons by simp
    also have "\<dots> = w # split_ws (CHR '' '' # (join '' '' ws @ ''\<newline>''))"
      by (rule split_ws_word [OF w]) (simp add: is_ws_def code_def)
    also have "\<dots> = w # split_ws (join '' '' ws @ ''\<newline>'')"
      by (simp add: split_ws_skip is_ws_def code_def)
    finally show ?thesis using Cons.IH Cons.prems by simp
  qed
qed

lemma show_int_word: "show_int i \<noteq> [] \<and> list_all (\<lambda>c. \<not> is_ws c) (show_int i)"
  using show_nat_digits [of "nat i"] show_nat_digits [of "nat (- i)"]
  by (auto simp: show_int_def list_all_iff digit_not_ws is_ws_def [of "CHR ''-''"] code_def)

lemma split_render_row:
  assumes "row_ok r"
  shows "split_ws (render_row r) = row_words r"
  unfolding render_row_def
proof (rule split_ws_words)
  have "r_head r \<noteq> [] \<and> list_all (\<lambda>c. \<not> is_ws c) (r_head r)"
    using assms by (auto simp: row_ok_def isdigit_def list_all_iff digit_not_ws)
  then show "list_all (\<lambda>w. w \<noteq> [] \<and> list_all (\<lambda>c. \<not> is_ws c) w) (row_words r)"
    using assms show_int_word by (auto simp: row_words_def row_ok_def)
qed

lemma row_words_nth:
  assumes "row_ok r"
  shows "py_nth (row_words r) 1 = Inr (r_src r)" "py_nth (row_words r) 2 = Inr (r_dst r)"
    "py_nth (row_words r) 8 = Inr (show_int (r_pkts r))" "py_nth (row_words r) 9 = Inr (show_int (r_depth r))"
    "py_nth (row_words r) 10 = Inr (show_int (r_paused r))"
proof -
  from assms obtain a b c d e where "r_mid r = [a, b, c, d, e]"
    by (auto simp: row_ok_def length_Suc_conv numeral_eq_Suc)
  then show "py_nth (row_words r) 1 = Inr (r_src r)" "py_nth (row_words r) 2 = Inr (r_dst r)"
    "py_nth (row_words r) 8 = Inr (show_int (r_pkts r))" "py_nth (row_words r) 9 = Inr (show_int (r_depth r))"
    "py_nth (row_words r) 10 = Inr (show_int (r_paused r))"
    by (simp_all add: row_words_def py_nth_def numeral_eq_Suc)
qed

lemma render_row_hd:
  assumes "row_ok r"
  obtains c t where "render_row r = c # t" and "is_digit c"
proof -
  from assms obtain c t where "r_head r = c # t" "is_digit c"
    by (cases "r_head r") (auto simp: row_ok_def isdigit_def)
  then have "render_row r = c # tl (render_row r)"
    by (simp add: render_row_def row_words_def)
  with \<open>is_digit c\<close> that show ?thesis by blast
qed

lemma digit_codes: "is_digit c \<Longrightarrow>
    c \<noteq> CHR ''t'' \<and> c \<noteq> CHR ''e'' \<and> c \<noteq> CHR ''p'' \<and> c \<noteq> CHR ''s'' \<and> c \<noteq> CHR ''f'' \<and> c \<noteq> CHR ''\<newline>''"
  by (auto simp: is_digit_def code_def)

abbreviation flow_path :: "string \<Rightarrow> tele_vars \<Rightarrow> string list" where
  "flow_path sw v \<equiv> [sw, v_time v, v_epoch v, v_port v, ''f2p_weight'']"

definition add_row :: "(rat \<Rightarrow> rat) \<Rightarrow> flow_row \<Rightarrow> tele_vars \<Rightarrow> tele_vars" where
  "add_row fl r v = v\<lparr>v_flows := v_flows v @ [row_name r], v_pktnums := v_pktnums v @ [r_pkts r],
     v_qdepths := v_qdepths v @ [row_depth fl r]\<rparr>"

lemma on_flow_row:
  assumes "row_ok r" and "json_get (tree s) (flow_path sw v) = Inr (JObj d)"
  obtains t where "json_set (tree s) (flow_path sw v) (row_name r) (JNum (of_int (r_paused r))) = Inr t"
    and "json_get t (flow_path sw v) = Inr (JObj (dict_set (row_name r) (JNum (of_int (r_paused r))) d))"
    and "on_flow fl sw (render_row r) v s = Inr (set_vars (add_row fl r v) (s\<lparr>tree := t\<rparr>))"
proof -
  from json_set_get [OF assms(2)] obtain t
    where t: "json_set (tree s) (flow_path sw v) (row_name r) (JNum (of_int (r_paused r))) = Inr t"
      "json_get t (flow_path sw v) = Inr (JObj (dict_set (row_name r) (JNum (of_int (r_paused r))) d))"
    by blast
  have "on_flow fl sw (render_row r) v s = Inr (set_vars (add_row fl r v) (s\<lparr>tree := t\<rparr>))"
    using t(1) by (simp add: on_flow_def int_field_def split_render_row [OF assms(1)]
        row_words_nth [OF assms(1)] row_words_nth(1) [OF assms(1), simplified] put_def Let_def row_name_def add_row_def row_depth_def)
  with t that show ?thesis by blast
qed

lemma tele_step_row:
  assumes "row_ok r" and "ls ! i = render_row r" and "vars s = Some v" and "v_teleflag v"
  shows "tele_step fl sw ls i s = Some (bind_res (on_flow fl sw (render_row r) v s) (\<lambda>s. Inr (0, s)))"
proof -
  from assms(1) obtain c t where ct: "render_row r = c # t" and "is_digit c" by (rule render_row_hd)
  then have "c \<noteq> CHR ''t'' \<and> c \<noteq> CHR ''e'' \<and> c \<noteq> CHR ''p'' \<and> c \<noteq> CHR ''s'' \<and> c \<noteq> CHR ''f'' \<and> c \<noteq> CHR ''\<newline>''"
    by (simp add: digit_codes)
  then show ?thesis using assms(2-4) by (simp add: tele_step_def ct)
qed

lemma flow_rows:
  assumes "list_all row_ok rows" and "ls = pre @ map render_row rows @ post"
    and "vars s = Some v" and "v_teleflag v" and "json_get (tree s) (flow_path sw v) = Inr (JObj d)"
  shows "\<exists>t. tele_loop fl sw ls (length pre) s
          = tele_loop fl sw ls (length pre + length rows) \<lparr>tree = t, vars = Some (fold (add_row fl) rows v)\<rparr>
      \<and> json_get t (flow_path sw v) = Inr (JObj (fold (\<lambda>r. dict_set (row_name r) (JNum (of_int (r_paused r)))) rows d))"
  using assms
proof (induction rows arbitrary: pre s v d)
  case Nil
  have "\<lparr>tree = tree s, vars = Some v\<rparr> = s" using Nil.prems(3) by (cases s) simp
  then have "tele_loop fl sw ls (length pre) s = tele_loop fl sw ls (length pre) \<lparr>tree = tree s, vars = Some v\<rparr>"
    by simp
  with Nil.prems(5) show ?case by (intro exI [of _ "tree s"]) simp
next
  case (Cons r rows)
  then have ok: "row_ok r" by simp
  from on_flow_row [OF ok Cons.prems(5)] obtain t where
    t: "json_get t (flow_path sw v) = Inr (JObj (dict_set (row_name r) (JNum (of_int (r_paused r))) d))"
    and o: "on_flow fl sw (render_row r) v s = Inr (set_vars (add_row fl r v) (s\<lparr>tree := t\<rparr>))" by metis
  let ?s = "set_vars (add_row fl r v) (s\<lparr>tree := t\<rparr>)"
  have nth: "ls ! length pre = render_row r" and len: "length pre < length ls"
    using Cons.prems(2) by simp_all
  have step: "tele_loop fl sw ls (length pre) s = tele_loop fl sw ls (length (pre @ [render_row r])) ?s"
    using len by (simp add: tele_loop.simps [of fl sw ls "length pre"]
        tele_step_row [OF ok nth Cons.prems(3,4)] o)
  have path: "flow_path sw (add_row fl r v) = flow_path sw v" by (simp add: add_row_def)
  have "\<exists>u. tele_loop fl sw ls (length (pre @ [render_row r])) ?s
          = tele_loop fl sw ls (length (pre @ [render_row r]) + length rows)
              \<lparr>tree = u, vars = Some (fold (add_row fl) rows (add_row fl r v))\<rparr>
      \<and> json_get u (flow_path sw (add_row fl r v)) = Inr (JObj (fold (\<lambda>r. dict_set (row_name r) (JNum (of_int (r_paused r))))
              rows (dict_set (row_name r) (JNum (of_int (r_paused r))) d)))"
  proof (rule Cons.IH)
    show "list_all row_ok rows" "ls = (pre @ [render_row r]) @ map render_row rows @ post"
      using Cons.prems by simp_all
    show "vars ?s = Some (add_row fl r v)" "v_teleflag (add_row fl r v)"
      using Cons.prems by (simp_all add: set_vars_def add_row_def)
    show "json_get (tree ?s) (flow_path sw (add_row fl r v))
        = Inr (JObj (dict_set (row_name r) (JNum (of_int (r_paused r))) d))"
      using t path by (simp add: set_vars_def)
  qed
  then show ?case unfolding step path by simp
qed

lemma json_get_append: "json_get j (ps @ qs) = bind_res (json_get j ps) (\<lambda>j'. json_get j' qs)"
  by (induction j ps rule: json_get.induct) (auto split: option.splits)

lemma json_get_parent:
  assumes "json_get j (ps @ [k]) = Inr x"
  obtains d where "json_get j ps = Inr (JObj d)" and "map_of d k = Some x"
proof -
  from assms obtain p where p: "json_get j ps = Inr p" "json_get p [k] = Inr x"
    by (auto simp: json_get_append bind_res_Inr_iff)
  then show ?thesis using that by (cases p) (auto split: option.splits)
qed

lemma fold_add_row:
  "fold (add_row fl) rows v =
     v\<lparr>v_flows := v_flows v @ map row_name rows, v_pktnums := v_pktnums v @ map r_pkts rows,
       v_qdepths := v_qdepths v @ map (row_depth fl) rows\<rparr>"
  by (induction rows arbitrary: v) (simp_all add: add_row_def)

lemma tele_step_blank:
  assumes "ls ! i = ''\<newline>''" and "vars s = Some v" and "v_teleflag v"
  shows "tele_step fl sw ls i s = map_option (\<lambda>r. bind_res r (\<lambda>s. Inr (0, s))) (on_blank fl sw v s)"
  using assms by (simp add: tele_step_def)

section \<open>Reports that follow closely\<close>

text \<open>The report times that come less than 50000 ns after the report before them.\<close>

fun too_close :: "(string \<Rightarrow> int) \<Rightarrow> string list \<Rightarrow> string list" where
  "too_close val (t # u # ts) =
     (if val u - val t < 50000 then u # too_close val (u # ts) else too_close val (u # ts))"
| "too_close val ts = []"

lemma set_too_close: "set (too_close val ts) \<subseteq> set (tl ts)"
  by (induction val ts rule: too_close.induct) auto

lemma drop_close_filter:
  assumes "distinct ts" and "\<forall>t \<in> set ts. py_int t = Inr (val t)" and "set (tl ts) \<subseteq> fst ` set d"
  shows "drop_close ts d = Inr (filter (\<lambda>e. fst e \<notin> set (too_close val ts)) d)"
  using assms
proof (induction val ts arbitrary: d rule: too_close.induct)
  case (1 val t u ts)
  show ?case
  proof (cases "val u - val t < 50000")
    case False
    with 1 show ?thesis by auto
  next
    case True
    from "1.prems"(3) obtain x where x: "dict_get d u = Inr x"
      by (cases "map_of d u") (auto simp: dict_get_Inr_iff map_of_None_keys)
    have "drop_close (u # ts) (dict_del u d)
        = Inr (filter (\<lambda>e. fst e \<notin> set (too_close val (u # ts))) (dict_del u d))"
      by (rule "1.IH"(1) [OF True]) (use "1.prems" in auto)
    then show ?thesis using True x "1.prems"
      by (auto simp: AList.delete_eq intro: filter_cong)
  qed
qed auto

text \<open>Among increasing times, two that are kept lie at least 50000 ns apart.\<close>

lemma kept_spacing:
  assumes "sorted (map val ts)" and "distinct ts"
  shows "sorted_wrt (\<lambda>a b. val b - val a \<ge> 50000) (filter (\<lambda>t. t \<notin> set (too_close val ts)) ts)"
    and "ts \<noteq> [] \<Longrightarrow> hd ts \<notin> set (too_close val ts)"
  using assms
proof (induction val ts rule: too_close.induct)
  case (1 val t u ts)
  let ?c = "set (too_close val (u # ts))"
  { case 1
    have t: "t \<notin> ?c" using set_too_close [of val "u # ts"] 1 by auto
    have u: "u \<notin> ?c" using set_too_close [of val "u # ts"] 1 by auto
    have rest: "sorted_wrt (\<lambda>a b. val b - val a \<ge> 50000) (filter (\<lambda>t. t \<notin> ?c) (u # ts))"
      using "1.IH" 1 by (cases "val u - val t < 50000") auto
    show ?case
    proof (cases "val u - val t < 50000")
      case False
      then show ?thesis using 1 t rest by auto
    next
      case True
      have "\<forall>x \<in> set (filter (\<lambda>t. t \<notin> ?c) ts). val x - val t \<ge> 50000"
        using rest u 1 by force
      moreover have "filter (\<lambda>x. x \<notin> set (too_close val (t # u # ts))) ts = filter (\<lambda>t. t \<notin> ?c) ts"
        using True 1 by (auto intro: filter_cong)
      ultimately show ?thesis using True t 1 rest u by auto
    qed
  next
    case 2
    then show ?case using subsetD [OF set_too_close [of val "t # u # ts"], of t]
      by (auto simp del: too_close.simps)
  }
qed auto

lemma map_fst_filter: "map fst (filter (\<lambda>e. P (fst e)) d) = filter P (map fst d)"
  by (induction d) auto

section \<open>Properties\<close>

text \<open>C7. Every report that ends up in the tree, under whatever switch and time, holds an object for
  each of the two epochs, whatever the log lines were.\<close>

theorem telemetry_reports_complete:
  assumes "parse_telemetry fl files ids \<lparr>tree = JObj [], vars = None\<rparr> = Some (Inr s)"
    and "json_get (tree s) [sw, t] = Inr r"
  shows "\<exists>a b. json_get r [EPOCH_NOW] = Inr (JObj a) \<and> json_get r [EPOCH_LAST] = Inr (JObj b)"
proof -
  have "wf_tele \<lparr>tree = JObj [], vars = None\<rparr>" by (simp add: wf_tele_def wf_tree_def)
  then have "wf_tree (tree s)" using parse_telemetry_wf assms(1) by (fastforce simp: wf_tele_def)
  then obtain d where d: "tree s = JObj d" "\<forall>w x. map_of d w = Some x \<longrightarrow> wf_switch x"
    by (auto simp: wf_tree_def split: json.splits)
  with assms(2) obtain w where "map_of d sw = Some w" "json_get w [t] = Inr r"
    by (auto split: option.splits)
  moreover from this d have "wf_switch w" by blast
  ultimately have "wf_report r" by (cases w) (auto simp: wf_switch_def split: option.splits)
  then show ?thesis by (auto simp: wf_report_def split: json.splits elim!: is_obj.elims)
qed

text \<open>C8. The cleanup of \<open>main\<close> keeps the first report of a switch; of reports in time order, every two
  it keeps lie at least 50000 ns apart, and it only ever removes a report that comes less than
  50000 ns after the report logged right before it (kept or not).\<close>

theorem drop_close_spacing:
  assumes "dict_ok d" and "\<forall>t \<in> set (dict_keys d). py_int t = Inr (val t)"
    and "sorted (map val (dict_keys d))"
  shows "\<exists>d'. drop_close (dict_keys d) d = Inr d'
      \<and> sorted_wrt (\<lambda>a b. val b - val a \<ge> 50000) (dict_keys d')
      \<and> (d \<noteq> [] \<longrightarrow> d' \<noteq> [] \<and> hd d' = hd d)
      \<and> d' = filter (\<lambda>e. fst e \<notin> set (too_close val (dict_keys d))) d"
proof -
  let ?k = "\<lambda>t. t \<notin> set (too_close val (dict_keys d))"
  let ?d = "filter (\<lambda>e. ?k (fst e)) d"
  have dist: "distinct (dict_keys d)" using assms(1) by (simp add: dict_ok_def)
  have "set (tl (dict_keys d)) \<subseteq> fst ` set d" by (cases d) auto
  from drop_close_filter [OF dist assms(2) this]
  have run: "drop_close (dict_keys d) d = Inr ?d" .
  have sp: "sorted_wrt (\<lambda>a b. val b - val a \<ge> 50000) (dict_keys ?d)"
    using kept_spacing(1) [OF assms(3) dist] by (simp only: map_fst_filter [of ?k])
  have "d \<noteq> [] \<longrightarrow> ?d \<noteq> [] \<and> hd ?d = hd d"
    using kept_spacing(2) [OF assms(3) dist] by (cases d) (auto simp: filter_empty_conv)
  with run sp show ?thesis by blast
qed

text \<open>C4. A flow table printed by the switch is read back: the rows become the flow-to-port weights, and at
  the blank line after them the port-to-flow weights of the port are the degrees that the queue
  replay computes from exactly the printed packet counts and queue depths.\<close>

theorem flow_table_parsed:
  assumes "list_all row_ok rows" and "ls = pre @ map render_row rows @ ''\<newline>'' # post"
    and "vars s = Some v" and "v_teleflag v" and "v_flows v = []" "v_pktnums v = []" "v_qdepths v = []"
    and "json_get (tree s) (flow_path sw v) = Inr (JObj [])"
    and "sim_pkt_queue fl (map row_name rows) (map r_pkts rows) (map (row_depth fl) rows) = Some (Inr (Some deg))"
  shows "\<exists>s' w. tele_loop fl sw ls (length pre) s = tele_loop fl sw ls (length pre + length rows + 1) s'
      \<and> vars s' = Some w \<and> \<not> v_teleflag w
      \<and> json_get (tree s') (flow_path sw v)
          = Inr (JObj (fold (\<lambda>r. dict_set (row_name r) (JNum (of_int (r_paused r)))) rows []))
      \<and> json_get (tree s') [sw, v_time v, v_epoch v, v_port v, ''p2f_weight''] = Inr (json_nums deg)"
proof -
  let ?port = "[sw, v_time v, v_epoch v, v_port v]"
  let ?w = "fold (add_row fl) rows v"
  let ?j = "length pre + length rows"
  let ?f = "JObj (fold (\<lambda>r. dict_set (row_name r) (JNum (of_int (r_paused r)))) rows [])"
  from flow_rows [OF assms(1,2,3,4,8), of fl] obtain t where
    run: "tele_loop fl sw ls (length pre) s = tele_loop fl sw ls ?j \<lparr>tree = t, vars = Some ?w\<rparr>"
    and got: "json_get t (?port @ [''f2p_weight'']) = Inr ?f" by auto
  from got obtain d where d: "json_get t ?port = Inr (JObj d)" "map_of d ''f2p_weight'' = Some ?f"
    by (rule json_get_parent)
  from json_set_get [OF d(1)] obtain t' where t': "json_set t ?port ''p2f_weight'' (json_nums deg) = Inr t'"
    "json_get t' ?port = Inr (JObj (dict_set ''p2f_weight'' (json_nums deg) d))" by blast
  have blank: "ls ! ?j = ''\<newline>''" and len: "?j < length ls"
    using assms(2) by (simp_all add: nth_append)
  let ?s = "\<lparr>tree = t', vars = Some (?w\<lparr>v_teleflag := False\<rparr>)\<rparr>"
  have ob: "on_blank fl sw ?w \<lparr>tree = t, vars = Some ?w\<rparr> = Some (Inr ?s)"
    using assms(5-7,9) t'(1) by (simp add: on_blank_def fold_add_row put_def set_vars_def Let_def)
  have "v_teleflag ?w" using assms(4) by (simp add: fold_add_row)
  from tele_step_blank [of ls ?j "\<lparr>tree = t, vars = Some ?w\<rparr>" ?w fl sw, OF blank _ this]
  have "tele_loop fl sw ls ?j \<lparr>tree = t, vars = Some ?w\<rparr> = tele_loop fl sw ls (?j + 1) ?s"
    using len by (simp add: tele_loop.simps [of fl sw ls ?j] ob)
  moreover have "json_get t' (?port @ [''f2p_weight'']) = Inr ?f"
    "json_get t' (?port @ [''p2f_weight'']) = Inr (json_nums deg)"
    using t'(2) d(2) unfolding json_get_append by simp_all
  ultimately show ?thesis using run by (intro exI [of _ ?s]) simp
qed

section \<open>Witnesses\<close>

definition sample_log :: "string list" where
  "sample_log =
     [''time 2000000\<newline>'', ''signal\<newline>'', ''epoch now\<newline>'', ''port telemetry for port 3\<newline>'',
      ''qdepth paused pktnum\<newline>'', ''12 4 3\<newline>'', ''flow telemetry for port 3\<newline>'', ''header\<newline>'',
      ''0 a b x x x x x 2 4 1\<newline>'', ''1 c d x x x x x 1 1 0\<newline>'', ''\<newline>'',
      ''traffic meter form port 7 to port 3\<newline>'', ''header\<newline>'', ''100\<newline>'', ''end\<newline>'',
      ''time 2010000\<newline>'', ''signal\<newline>'', ''end\<newline>'']"

theorem telemetry_reports_complete_witness:
  "\<exists>s r. parse_telemetry exact (\<lambda>_. Some sample_log) [9] \<lparr>tree = JObj [], vars = None\<rparr> = Some (Inr s)
     \<and> json_get (tree s) [''9'', ''2000000''] = Inr r
     \<and> (\<exists>a b. json_get r [EPOCH_NOW] = Inr (JObj a) \<and> json_get r [EPOCH_LAST] = Inr (JObj b))"
proof -
  let ?run = "parse_telemetry exact (\<lambda>_. Some sample_log) [9] \<lparr>tree = JObj [], vars = None\<rparr>"
  have "(case ?run of Some (Inr s) \<Rightarrow>
      (case json_get (tree s) [''9'', ''2000000''] of Inr r \<Rightarrow> True | _ \<Rightarrow> False) | _ \<Rightarrow> False)"
    by code_simp
  then obtain s r where "?run = Some (Inr s)" and "json_get (tree s) [''9'', ''2000000''] = Inr r"
    by (auto split: option.splits sum.splits)
  with telemetry_reports_complete [OF this] show ?thesis by blast
qed

theorem drop_close_spacing_witness:
  "\<exists>d'. drop_close [''100'', ''40000'', ''70000'', ''200000'']
       [(''100'', JNum 1), (''40000'', JNum 2), (''70000'', JNum 3), (''200000'', JNum 4)] = Inr d'
     \<and> dict_keys d' = [''100'', ''200000'']"
proof -
  let ?d = "[(''100'', JNum 1), (''40000'', JNum 2), (''70000'', JNum 3), (''200000'', JNum 4)]"
  let ?val = "\<lambda>t. int (digits_val t)"
  have n: "digits_val ''100'' = 100" "digits_val ''40000'' = 40000" "digits_val ''70000'' = 70000"
    "digits_val ''200000'' = 200000"
    by (simp_all add: digits_val_def digit_val_def code_def)
  have "dict_ok ?d" by (simp add: dict_ok_def)
  moreover have "\<forall>t \<in> set (dict_keys ?d). py_int t = Inr (?val t)"
    by (simp add: py_int_digits is_digit_def code_def)
  moreover have "sorted (map ?val (dict_keys ?d))" by (simp add: n)
  ultimately have "\<exists>d'. drop_close (dict_keys ?d) ?d = Inr d'
      \<and> d' = filter (\<lambda>e. fst e \<notin> set (too_close ?val (dict_keys ?d))) ?d"
    using drop_close_spacing [of ?d ?val] by blast
  then show ?thesis by (simp add: n)
qed

definition sample_rows :: "flow_row list" where
  "sample_rows =
     [\<lparr>r_head = ''0'', r_src = ''a'', r_dst = ''b'', r_mid = [''x'', ''x'', ''x'', ''x'', ''x''],
        r_pkts = 2, r_depth = 4, r_paused = 1\<rparr>,
      \<lparr>r_head = ''1'', r_src = ''c'', r_dst = ''d'', r_mid = [''x'', ''x'', ''x'', ''x'', ''x''],
        r_pkts = 1, r_depth = 1, r_paused = 0\<rparr>]"

definition sample_state :: tele where
  "sample_state =
     \<lparr>tree = JObj [(''9'', JObj [(''5'', JObj [(EPOCH_NOW, JObj [(''3'', JObj [(''f2p_weight'', JObj [])])])])])],
      vars = Some ((new_vars ''5'' None)\<lparr>v_teleflag := True, v_port := ''3''\<rparr>)\<rparr>"

theorem flow_table_parsed_witness:
  "\<exists>(s' :: tele) deg. json_get (tree s') [''9'', ''5'', EPOCH_NOW, ''3'', ''f2p_weight'']
       = Inr (JObj [(''a->b'', JNum 1), (''c->d'', JNum 0)])
     \<and> json_get (tree s') [''9'', ''5'', EPOCH_NOW, ''3'', ''p2f_weight''] = Inr (json_nums deg)
     \<and> map fst deg = [''a->b'', ''c->d'']"
proof -
  let ?v = "(new_vars ''5'' None)\<lparr>v_teleflag := True, v_port := ''3''\<rparr>"
  let ?sim = "sim_pkt_queue exact (map row_name sample_rows) (map r_pkts sample_rows) (map (row_depth exact) sample_rows)"
  have rows: "list_all row_ok sample_rows" by code_simp
  have "(case ?sim of Some (Inr (Some deg)) \<Rightarrow> map fst deg = [''a->b'', ''c->d''] | _ \<Rightarrow> False)"
    by code_simp
  then obtain deg where deg: "?sim = Some (Inr (Some deg))" "map fst deg = [''a->b'', ''c->d'']"
    by (auto split: option.splits sum.splits)
  have v: "v_time ?v = ''5''" "v_epoch ?v = EPOCH_NOW" "v_port ?v = ''3''" "v_teleflag ?v"
    "v_flows ?v = []" "v_pktnums ?v = []" "v_qdepths ?v = []"
    by (simp_all add: new_vars_def)
  have f: "fold (\<lambda>r. dict_set (row_name r) (JNum (of_int (r_paused r)))) sample_rows []
      = [(''a->b'', JNum 1), (''c->d'', JNum 0)]" by code_simp
  have get: "json_get (tree sample_state) (flow_path ''9'' ?v) = Inr (JObj [])"
    by (simp add: sample_state_def v)
  have vs: "vars sample_state = Some ?v" by (simp add: sample_state_def)
  have ls: "map render_row sample_rows @ [''\<newline>''] = [] @ map render_row sample_rows @ ''\<newline>'' # []"
    by simp
  from flow_table_parsed [OF rows ls vs v(4-7) get deg(1)]
  show ?thesis unfolding v f by (elim exE conjE) (intro exI conjI; (assumption | rule deg(2)))
qed

end
