(* ===== verification/Forwarding.thy ===== *)
theory Forwarding
  imports Py_Strings
begin

text \<open>
  \<open>src/ctrl/entry_list_gen.py\<close>: the generator of the polling table that the control plane
  installs.  From the forwarding table of the two logic switches (ingress device port, destination
  address, egress device port) it derives the table that routes polling packets, and prints it
  as a C array.
\<close>

section \<open>The tables of the script\<close>

type_synonym forward_entry = "nat \<times> string \<times> nat"

text \<open>Packet kind, ingress device port, address, action, action argument, excluded port.\<close>

type_synonym polling_entry = "nat \<times> nat \<times> string \<times> string \<times> nat \<times> nat"

definition port_list :: "string list" where
  "port_list = [''10/0'', ''11/0'', ''12/0'', ''16/0'', ''28/0'', ''29/0'', ''30/0'', ''31/0'', ''32/0'']"

definition port_list_a :: "string list" where
  "port_list_a = [''10/0'', ''11/0'', ''12/0'', ''16/0'']"

definition dev_port_list_a :: "nat list" where
  "dev_port_list_a = [52, 44, 36, 4]"

definition port_list_b :: "string list" where
  "port_list_b = [''28/0'', ''29/0'', ''30/0'', ''31/0'', ''32/0'']"

definition dev_port_list_b :: "nat list" where
  "dev_port_list_b = [164, 148, 156, 132, 140]"

definition forward_list :: "forward_entry list" where
  "forward_list =
     [(44, ''172.17.1.106'', 36), (44, ''172.17.2.103'', 52), (44, ''172.17.3.104'', 52),
      (44, ''172.17.2.108'', 52), (44, ''172.17.3.109'', 52), (36, ''172.17.1.101'', 44),
      (36, ''172.17.2.103'', 52), (36, ''172.17.3.104'', 52), (36, ''172.17.2.108'', 52),
      (36, ''172.17.3.109'', 52), (52, ''172.17.1.101'', 44), (52, ''172.17.1.106'', 36),
      (132, ''172.17.3.104'', 148), (132, ''172.17.2.108'', 140), (132, ''172.17.3.109'', 156),
      (132, ''172.17.1.101'', 164), (132, ''172.17.1.106'', 164), (140, ''172.17.2.103'', 132),
      (140, ''172.17.3.104'', 148), (140, ''172.17.3.109'', 156), (140, ''172.17.1.101'', 164),
      (140, ''172.17.1.106'', 164), (148, ''172.17.2.103'', 132), (148, ''172.17.2.108'', 140),
      (148, ''172.17.3.109'', 156), (148, ''172.17.1.101'', 164), (148, ''172.17.1.106'', 164),
      (156, ''172.17.2.103'', 132), (156, ''172.17.3.104'', 148), (156, ''172.17.2.108'', 140),
      (156, ''172.17.1.101'', 164), (156, ''172.17.1.106'', 164), (164, ''172.17.2.103'', 132),
      (164, ''172.17.2.108'', 140), (164, ''172.17.3.104'', 148), (164, ''172.17.3.109'', 156)]"

section \<open>The generator\<close>

text \<open>\<open>polling_mc_gid\<close>: the variable the loop assigns and no entry uses; 0 when neither switch has the port.\<close>

definition polling_mc_gid :: "nat list \<Rightarrow> nat list \<Rightarrow> nat \<Rightarrow> string option" where
  "polling_mc_gid as bs p =
     (if p \<in> set as then Some ''POLLING_MC_GID_A''
      else if p \<in> set bs then Some ''POLLING_MC_GID_B'' else None)"

text \<open>The two entries of a forwarding entry: plain polling packets follow the forwarding table,
  packets of kind 3 follow it and are broadcast as well.\<close>

definition forward_polling :: "forward_entry \<Rightarrow> polling_entry list" where
  "forward_polling entry =
     (case entry of (dev_port, ip_address, target_dev_port) \<Rightarrow>
        [(1, dev_port, ip_address, ''ai_unicast_polling'', target_dev_port, 0),
         (3, dev_port, ip_address, ''ai_broadcast_polling'', target_dev_port, dev_port)])"

definition broadcast_polling :: "nat \<Rightarrow> polling_entry" where
  "broadcast_polling dev_port = (2, dev_port, ''0.0.0.0'', ''ai_broadcast_polling'', 511, dev_port)"

definition gen_polling :: "forward_entry list \<Rightarrow> nat list \<Rightarrow> nat list \<Rightarrow> polling_entry list" where
  "gen_polling fwd as bs =
     concat (map forward_polling fwd) @ map broadcast_polling as @ map broadcast_polling bs"

definition forward_polling_list :: "polling_entry list" where
  "forward_polling_list = gen_polling forward_list dev_port_list_a dev_port_list_b"

definition print_entry :: "polling_entry \<Rightarrow> string" where
  "print_entry e =
     (case e of (kind, port, ip, action, arg, excl) \<Rightarrow>
        ''    {'' @ show_nat kind @ '', '' @ show_nat port @ '', \"'' @ ip @ ''\", \"'' @ action @ ''\", ''
        @ show_nat arg @ '', '' @ show_nat excl @ ''},'')"

definition print_table :: "polling_entry list \<Rightarrow> string list" where
  "print_table es =
     [''const forward_polling_entry_t FORWARD_POLLING_LIST[] = {''] @ map print_entry es @ [''};'']"

definition entry_list_gen :: "string list" where
  "entry_list_gen = print_table forward_polling_list"

section \<open>What the switch looks up\<close>

text \<open>Forwarding matches on the ingress port and the address, polling on the packet kind as well;
  a lookup takes the first entry whose key matches.\<close>

definition forward_key :: "forward_entry \<Rightarrow> nat \<times> string" where
  "forward_key e = (fst e, fst (snd e))"

definition polling_key :: "polling_entry \<Rightarrow> nat \<times> nat \<times> string" where
  "polling_key e = (fst e, fst (snd e), fst (snd (snd e)))"

definition forward :: "forward_entry list \<Rightarrow> nat \<Rightarrow> string \<Rightarrow> nat option" where
  "forward fwd p ip = map_option (snd \<circ> snd) (find (\<lambda>e. forward_key e = (p, ip)) fwd)"

definition poll :: "polling_entry list \<Rightarrow> nat \<Rightarrow> nat \<Rightarrow> string \<Rightarrow> (string \<times> nat \<times> nat) option" where
  "poll tab kind p ip = map_option (snd \<circ> snd \<circ> snd) (find (\<lambda>e. polling_key e = (kind, p, ip)) tab)"

lemma polling_key_simps [simp]: "polling_key (k, p, ip, r) = (k, p, ip)"
  by (simp add: polling_key_def)

lemma find_append: "find P (xs @ ys) = (case find P xs of None \<Rightarrow> find P ys | Some x \<Rightarrow> Some x)"
  by (induction xs) auto

lemma find_None_broadcast: "k \<noteq> 2 \<Longrightarrow> find (\<lambda>e. polling_key e = (k, p, ip)) (map broadcast_polling ps) = None"
  by (auto simp: find_None_iff broadcast_polling_def)

lemma poll_forward:
  "poll (concat (map forward_polling fwd)) kind p ip =
     (case forward fwd p ip of
        None \<Rightarrow> None
      | Some q \<Rightarrow> if kind = 1 then Some (''ai_unicast_polling'', q, 0)
                  else if kind = 3 then Some (''ai_broadcast_polling'', q, p) else None)"
proof (induction fwd)
  case Nil
  then show ?case by (simp add: poll_def forward_def)
next
  case (Cons e fwd)
  obtain a b c where "e = (a, b, c)" by (cases e)
  with Cons show ?case
    by (auto simp: poll_def forward_def forward_key_def forward_polling_def split: option.splits)
qed

lemma distinct_forward_polling:
  assumes "distinct (map forward_key fwd)"
  shows "distinct (map polling_key (concat (map forward_polling fwd)))"
  using assms
proof (induction fwd)
  case Nil
  then show ?case by simp
next
  case (Cons e fwd)
  obtain a b c where e: "e = (a, b, c)" by (cases e)
  have keys: "set (map polling_key (concat (map forward_polling fwd)))
      = {(k, p, ip) | k p ip. k \<in> {1, 3} \<and> (p, ip) \<in> forward_key ` set fwd}"
    by (force simp: forward_polling_def forward_key_def image_iff split: prod.splits)
  from Cons.prems e have "(a, b) \<notin> forward_key ` set fwd" by (simp add: forward_key_def image_iff)
  then have "(1, a, b) \<notin> set (map polling_key (concat (map forward_polling fwd)))"
    "(3, a, b) \<notin> set (map polling_key (concat (map forward_polling fwd)))"
    unfolding keys by auto
  moreover have "map polling_key (concat (map forward_polling (e # fwd)))
      = (1, a, b) # (3, a, b) # map polling_key (concat (map forward_polling fwd))"
    by (simp add: e forward_polling_def)
  moreover have "distinct (map polling_key (concat (map forward_polling fwd)))"
    using Cons by simp
  ultimately show ?case by simp
qed

lemma distinct_gen_polling:
  assumes "distinct (map forward_key fwd)" and "distinct (as @ bs)"
  shows "distinct (map polling_key (gen_polling fwd as bs))"
proof -
  have k2: "map polling_key (map broadcast_polling ps) = map (\<lambda>p. (2, p, ''0.0.0.0'')) ps" for ps
    by (simp add: broadcast_polling_def)
  have "distinct (map (\<lambda>p. (2::nat, p, ''0.0.0.0'')) (as @ bs))"
    using assms(2) by (simp only: distinct_map) (simp add: inj_on_def)
  moreover have "set (map polling_key (concat (map forward_polling fwd))) \<inter> set (map (\<lambda>p. (2, p, ''0.0.0.0'')) (as @ bs)) = {}"
    by (auto simp: forward_polling_def split: prod.splits)
  ultimately have "distinct (map polling_key (concat (map forward_polling fwd)) @ map (\<lambda>p. (2, p, ''0.0.0.0'')) (as @ bs))"
    using distinct_forward_polling [OF assms(1)] by (simp only: distinct_append simp_thms)
  then show ?thesis by (simp only: gen_polling_def map_append k2)
qed

lemma forward_mem: "forward fwd p ip = Some q \<Longrightarrow> (p, ip, q) \<in> set fwd"
  by (induction fwd) (auto simp: forward_def forward_key_def split: if_splits)

definition local_step :: "forward_entry \<Rightarrow> bool" where
  "local_step e = (case e of (p, ip, q) \<Rightarrow>
     p \<noteq> q \<and> (p \<in> set dev_port_list_a \<and> q \<in> set dev_port_list_a \<or> p \<in> set dev_port_list_b \<and> q \<in> set dev_port_list_b))"

lemma dev_ports:
  "p \<in> set dev_port_list_a \<longleftrightarrow> p = 52 \<or> p = 44 \<or> p = 36 \<or> p = 4"
  "p \<in> set dev_port_list_b \<longleftrightarrow> p = 164 \<or> p = 148 \<or> p = 156 \<or> p = 132 \<or> p = 140"
  by (simp_all add: dev_port_list_a_def dev_port_list_b_def)

lemma local_step_iff:
  "local_step (p, ip, q) \<longleftrightarrow>
     p \<noteq> q \<and> (p \<in> set dev_port_list_a \<and> q \<in> set dev_port_list_a \<or> p \<in> set dev_port_list_b \<and> q \<in> set dev_port_list_b)"
  by (simp add: local_step_def)

lemma shipped_steps: "list_all local_step forward_list"
  by (simp add: forward_list_def local_step_iff dev_ports)

lemma shipped_distinct: "distinct (map forward_key forward_list)" "distinct (dev_port_list_a @ dev_port_list_b)"
  by (simp_all add: forward_list_def forward_key_def dev_port_list_a_def dev_port_list_b_def)

lemma poll_broadcast:
  "poll (gen_polling fwd as bs) 2 p ip
     = (if ip = ''0.0.0.0'' \<and> p \<in> set as \<union> set bs then Some (''ai_broadcast_polling'', 511, p) else None)"
proof -
  have none: "find (\<lambda>e. polling_key e = (2, p, ip)) (concat (map forward_polling fwd)) = None"
    by (auto simp: find_None_iff forward_polling_def split: prod.splits)
  have find: "find (\<lambda>e. polling_key e = (2, p, ip)) (map broadcast_polling ps)
      = (if ip = ''0.0.0.0'' \<and> p \<in> set ps then Some (broadcast_polling p) else None)" for ps
    by (induction ps) (auto simp: broadcast_polling_def)
  show ?thesis unfolding poll_def gen_polling_def find_append none find by (simp add: broadcast_polling_def)
qed

section \<open>Properties\<close>

text \<open>C13. Polling follows forwarding: in the generated table, plain polling packets (kind 1) are unicast
  and kind 3 packets broadcast towards exactly the port that the forwarding table names for the
  same ingress port and address, and where forwarding has no entry neither has polling.\<close>

theorem polling_follows_forwarding:
  "poll (gen_polling fwd as bs) 1 p ip = map_option (\<lambda>q. (''ai_unicast_polling'', q, 0)) (forward fwd p ip)
   \<and> poll (gen_polling fwd as bs) 3 p ip = map_option (\<lambda>q. (''ai_broadcast_polling'', q, p)) (forward fwd p ip)"
proof -
  have "poll (gen_polling fwd as bs) k p ip = poll (concat (map forward_polling fwd)) k p ip" if "k \<noteq> 2" for k
    using that by (simp add: poll_def gen_polling_def find_append find_None_broadcast split: option.splits)
  then show ?thesis by (simp add: poll_forward split: option.splits)
qed

text \<open>The shipped table is unambiguous and complete: no two of its entries match the same packet,
  broadcast polling from the control plane (kind 2, address 0.0.0.0) is served on exactly the ports
  of the two logic switches, and every forwarding step stays within one logic switch and never
  leaves through the port it came in.\<close>

theorem polling_table_unambiguous:
  "distinct (map polling_key forward_polling_list)
   \<and> (\<forall>p. poll forward_polling_list 2 p ''0.0.0.0'' =
        (if p \<in> set dev_port_list_a \<union> set dev_port_list_b then Some (''ai_broadcast_polling'', 511, p) else None))
   \<and> (\<forall>p ip q. forward forward_list p ip = Some q \<longrightarrow>
        p \<noteq> q \<and> ({p, q} \<subseteq> set dev_port_list_a \<or> {p, q} \<subseteq> set dev_port_list_b))"
proof (intro conjI)
  show "distinct (map polling_key forward_polling_list)"
    unfolding forward_polling_list_def by (rule distinct_gen_polling) (rule shipped_distinct)+
  show "\<forall>p. poll forward_polling_list 2 p ''0.0.0.0'' =
      (if p \<in> set dev_port_list_a \<union> set dev_port_list_b then Some (''ai_broadcast_polling'', 511, p) else None)"
    by (simp add: forward_polling_list_def poll_broadcast)
  show "\<forall>p ip q. forward forward_list p ip = Some q \<longrightarrow>
      p \<noteq> q \<and> ({p, q} \<subseteq> set dev_port_list_a \<or> {p, q} \<subseteq> set dev_port_list_b)"
  proof (intro allI impI)
    fix p ip q assume "forward forward_list p ip = Some q"
    then have "(p, ip, q) \<in> set forward_list" by (rule forward_mem)
    with shipped_steps have "local_step (p, ip, q)" unfolding list_all_iff by blast
    then show "p \<noteq> q \<and> ({p, q} \<subseteq> set dev_port_list_a \<or> {p, q} \<subseteq> set dev_port_list_b)"
      by (simp add: local_step_def)
  qed
qed

text \<open>A concrete lookup, which also shows that the implication of the last property is not vacuous.\<close>

theorem polling_table_unambiguous_witness:
  "forward forward_list 44 ''172.17.1.106'' = Some 36
   \<and> (44 \<noteq> (36::nat) \<and> ({44, 36} \<subseteq> set dev_port_list_a \<or> {44, 36} \<subseteq> set dev_port_list_b))"
proof
  show f: "forward forward_list 44 ''172.17.1.106'' = Some 36"
    by (simp add: forward_def forward_list_def forward_key_def)
  show "44 \<noteq> (36::nat) \<and> ({44, 36} \<subseteq> set dev_port_list_a \<or> {44, 36} \<subseteq> set dev_port_list_b)"
    using polling_table_unambiguous f by blast
qed

end
