(* ===== verification/Rad_Numeric.thy ===== *)
theory Rad_Numeric
  imports Py_Strings Py_Float
begin

text \<open>
  The numeric helpers of \<open>bindings/python/rad_util.py\<close> (Python 2: \<open>/\<close> on integers rounds down):
  binary strings, Euclid's algorithm and fractions, the enumeration of binary numbers, Gray codes,
  polygon areas, quantiles, unit prefixes, float ranges and rounding to a grid.
\<close>

unbundle bit_operations_syntax

section \<open>Binary strings\<close>

text \<open>The digits of \<open>hex(i)\<close>, most significant first, and the table \<open>hex2bin\<close>.\<close>

fun hex_digits :: "nat \<Rightarrow> nat list" where
  "hex_digits n = (if n < 16 then [n] else hex_digits (n div 16) @ [n mod 16])"

declare hex_digits.simps [simp del]

definition bit_char :: "bool \<Rightarrow> char" where
  "bit_char b = (if b then CHR ''1'' else CHR ''0'')"

definition hex2bin :: "nat \<Rightarrow> string" where
  "hex2bin d = map bit_char [odd (d div 8), odd (d div 4), odd (d div 2), odd d]"

text \<open>A negative number prints as \<open>-0x..\<close>, whose third character \<open>x\<close> is not in the table.\<close>

definition int2bin :: "int \<Rightarrow> int \<Rightarrow> string res" where
  "int2bin i n =
     (if i < 0 then Inl KeyError
      else let result = concat (map hex2bin (hex_digits (nat i)))
           in if CHR ''1'' \<in> set (py_slice result 0 (- n)) then Inl ValueError
              else let result = py_slice result (- n) (int (length result))
                   in Inr (replicate (nat (n - int (length result))) CHR ''0'' @ result))"

text \<open>\<open>int(s, 2)\<close>: white space around, a sign, a prefix \<open>0b\<close>, then binary digits.\<close>

definition bits_val :: "string \<Rightarrow> nat" where
  "bits_val s = foldl (\<lambda>a c. 2 * a + (if c = CHR ''1'' then 1 else 0)) 0 s"

definition unsigned_bin :: "string \<Rightarrow> nat res" where
  "unsigned_bin s =
     (let t = (if startswith s ''0b'' \<or> startswith s ''0B'' then drop 2 s else s)
      in if t \<noteq> [] \<and> list_all (\<lambda>c. c = CHR ''0'' \<or> c = CHR ''1'') t then Inr (bits_val t)
         else Inl ValueError)"

definition bin2int :: "string \<Rightarrow> int res" where
  "bin2int bin_string =
     (case strip bin_string of
        [] \<Rightarrow> Inl ValueError
      | c # r \<Rightarrow>
          (if c = CHR ''-'' then bind_res (unsigned_bin r) (\<lambda>n. Inr (- int n))
           else if c = CHR ''+'' then bind_res (unsigned_bin r) (\<lambda>n. Inr (int n))
           else bind_res (unsigned_bin (c # r)) (\<lambda>n. Inr (int n))))"

definition lsb :: "int \<Rightarrow> nat \<Rightarrow> int" where
  "lsb x n = x AND (2 ^ n - 1)"

definition gray_encode :: "int \<Rightarrow> int" where
  "gray_encode i = i XOR drop_bit 1 i"

text \<open>
  \<open>random_vec\<close>: the numbers \<open>random()\<close> returns, times 1024 and truncated, are the argument \<open>rs\<close>;
  \<open>max_value\<close> is \<^const>\<open>None\<close> when not given or zero.
\<close>

definition random_vec :: "int list \<Rightarrow> nat \<Rightarrow> int option \<Rightarrow> string res" where
  "random_vec rs bits max_value =
     bind_res (map_res (\<lambda>i. int2bin i 10) (take (bits div 10 + 1) rs)) (\<lambda>parts.
     bind_res
       (case max_value of
          Some m \<Rightarrow>
            if m < 2 ^ bits - 1 then
              bind_res (bin2int (concat parts)) (\<lambda>v.
                if bits = 0 then Inl ZeroDivisionError
                else int2bin ((v div (2 ^ bits - 1)) * m) (int bits))
            else Inr (concat parts)
        | None \<Rightarrow> Inr (concat parts))
       (\<lambda>vector. Inr (take bits vector)))"

section \<open>binary\_range\<close>

text \<open>The inner \<open>while\<close>: the carry runs through \<open>v\<close> (least significant bit first).\<close>

fun ripple :: "bool list \<Rightarrow> bool list \<Rightarrow> nat \<Rightarrow> nat \<Rightarrow> bool list \<times> bool list" where
  "ripple v toggle i 0 = (v, toggle)"
| "ripple v toggle i (Suc k) =
     (if toggle ! i then
        (if \<not> v ! i then ripple (v[i := True]) (toggle[i + 1 := False]) (i + 1) k
         else ripple (v[i := False]) (toggle[i + 1 := True]) (i + 1) k)
      else (v, toggle))"

partial_function (option) binary_loop :: "nat \<Rightarrow> bool list \<Rightarrow> bool list \<Rightarrow> string list \<Rightarrow> string list option" where
  "binary_loop bits v toggle l =
     (if toggle ! bits then Some l
      else case ripple v (True # replicate bits False) 0 bits of
             (v', toggle') \<Rightarrow> binary_loop bits v' toggle' (l @ [map bit_char (rev v)]))"

declare binary_loop.simps [code]

definition binary_range :: "nat \<Rightarrow> string list option" where
  "binary_range bits = binary_loop bits (replicate bits False) (True # replicate bits False) []"

section \<open>Euclid's algorithm\<close>

text \<open>On integers \<open>abs(remainder) > epsilon\<close> says that the remainder is not zero.\<close>

function gcf_loop :: "int \<Rightarrow> int \<Rightarrow> int" where
  "gcf_loop result remainder =
     (if remainder = 0 then \<bar>result\<bar> else gcf_loop remainder (result mod remainder))"
  by pat_completeness auto
termination
  by (relation "measure (\<lambda>(result, remainder). nat \<bar>remainder\<bar>)") (auto simp: abs_mod_less)

declare gcf_loop.simps [simp del]

definition gcf :: "int \<Rightarrow> int \<Rightarrow> int" where
  "gcf a b = gcf_loop (max a b) (min a b)"

definition lcm2 :: "int \<Rightarrow> int \<Rightarrow> int" where
  "lcm2 a b = (let denom = gcf a b in if denom = 0 then 0 else a * (b div denom))"

definition reduce_fraction :: "int \<times> int \<Rightarrow> (int \<times> int) res" where
  "reduce_fraction fraction =
     (let common_factor = \<bar>gcf (fst fraction) (snd fraction)\<bar>
      in if common_factor = 0 then Inl ZeroDivisionError
         else Inr (fst fraction div common_factor, snd fraction div common_factor))"

section \<open>Polygons\<close>

definition scale_points :: "(rat \<Rightarrow> rat) \<Rightarrow> int \<Rightarrow> (rat \<times> rat) list \<Rightarrow> (int \<times> int) list" where
  "scale_points fl precision ps =
     map (\<lambda>(x, y). (trunc (fl (x * of_int precision)), trunc (fl (y * of_int precision)))) ps"

fun shoelace :: "(int \<times> int) list \<Rightarrow> int" where
  "shoelace ((x, y) # (x', y') # ps) = x' * y - y' * x + shoelace ((x', y') # ps)"
| "shoelace ps = 0"

definition close_polygon :: "(int \<times> int) list \<Rightarrow> (int \<times> int) list" where
  "close_polygon ps = (if last ps \<noteq> hd ps then ps @ [hd ps] else ps)"

text \<open>The list of points is changed in place: its final value is the first result.\<close>

definition polygon_area :: "(rat \<Rightarrow> rat) \<Rightarrow> (rat \<times> rat) list \<Rightarrow> int \<Rightarrow> ((int \<times> int) list \<times> rat) res" where
  "polygon_area fl points_list precision =
     (if points_list = [] then Inl IndexError
      else let ps = close_polygon (scale_points fl precision points_list);
               area = \<bar>shoelace ps div 2\<bar>
           in if precision = 0 then Inl ZeroDivisionError
              else Inr (ps, fl (of_int area / of_int (precision ^ 2))))"

section \<open>Quantiles\<close>

definition quantile :: "(rat \<Rightarrow> rat) \<Rightarrow> rat list \<Rightarrow> rat \<Rightarrow> rat res" where
  "quantile fl l p =
     (let l_sort = sort l;
          n = length l;
          r = fl (1 + fl ((of_nat n - 1) * p));
          i = trunc r;
          f = fl (r - of_int i)
      in if i < int n then
           bind_res (py_index l_sort (i - 1)) (\<lambda>a.
           bind_res (py_index l_sort i) (\<lambda>b.
             Inr (fl (fl (fl (1 - f) * a) + fl (f * b)))))
         else py_index l_sort (i - 1))"

definition trim :: "(rat \<Rightarrow> rat) \<Rightarrow> rat list \<Rightarrow> rat list res" where
  "trim fl l =
     (let l_sort = sort l in
      bind_res (py_nth l_sort (length l_sort div 2)) (\<lambda>_.
      bind_res (quantile fl l_sort (1 / 4)) (\<lambda>q1.
      bind_res (quantile fl l_sort (3 / 4)) (\<lambda>q3.
        let iqr_extra = fl (fl (q3 - q1) * (3 / 2))
        in Inr (filter (\<lambda>x. fl (q1 - iqr_extra) \<le> x \<and> x \<le> fl (q3 + iqr_extra)) l_sort)))))"

section \<open>Unit prefixes\<close>

type_synonym prefixes = "(rat \<times> string \<times> string) list"

definition si_prefixes :: prefixes where
  "si_prefixes =
     [(10 ^ 24, ''Y'', ''yotta''), (10 ^ 21, ''Z'', ''zetta''), (10 ^ 18, ''E'', ''exa''),
      (10 ^ 15, ''P'', ''peta''), (10 ^ 12, ''T'', ''tera''), (10 ^ 9, ''G'', ''giga''),
      (10 ^ 6, ''M'', ''mega''), (10 ^ 3, ''k'', ''kilo''), (1 / 10 ^ 3, ''m'', ''milli''),
      (1 / 10 ^ 6, ''u'', ''micro''), (1 / 10 ^ 9, ''n'', ''nano''), (1 / 10 ^ 12, ''p'', ''pico''),
      (1 / 10 ^ 15, ''f'', ''femto''), (1 / 10 ^ 18, ''a'', ''atto''), (1 / 10 ^ 21, ''z'', ''zepto''),
      (1 / 10 ^ 24, ''y'', ''yocto'')]"

definition extra_prefixes :: prefixes where
  "extra_prefixes =
     [(10 ^ 2, ''h'', ''hecto''), (10, ''da'', ''deka''), (1 / 10, ''d'', ''deci''), (1 / 10 ^ 2, ''c'', ''centi'')]"

definition bin_prefixes :: prefixes where
  "bin_prefixes =
     [(2 ^ 10, ''K'', ''kilo''), (2 ^ 20, ''M'', ''mega''), (2 ^ 30, ''G'', ''mega''),
      (2 ^ 40, ''T'', ''tera''), (2 ^ 50, ''P'', ''peta''), (2 ^ 60, ''E'', ''exa'')]"

definition unit_prefixes :: "bool \<Rightarrow> bool \<Rightarrow> prefixes" where
  "unit_prefixes bin extra =
     (1, [], []) # (if bin then bin_prefixes else if extra then extra_prefixes @ si_prefixes else si_prefixes)"

text \<open>The index of the multiplier: the first interval that holds the value, else an end of the table.\<close>

definition mult_index :: "rat list \<Rightarrow> rat \<Rightarrow> nat" where
  "mult_index ms value =
     (case find (\<lambda>i. ms ! i \<le> value \<and> value < ms ! (i + 1)) [0..<length ms - 1] of
        Some i \<Rightarrow> i
      | None \<Rightarrow> if value < ms ! 0 then 0 else length ms - 1)"

definition round_half_away :: "nat \<Rightarrow> rat \<Rightarrow> rat" where
  "round_half_away dp x =
     (let y = \<bar>x\<bar> * 10 ^ dp; k = of_int \<lfloor>y + 1 / 2\<rfloor> / 10 ^ dp in if x < 0 then - k else k)"

text \<open>
  \<open>nice_units\<close> of a float: \<open>fmt_f\<close> and \<open>fmt_g\<close> stand for the format codes \<open>%.<n>f\<close> and
  \<open>%.<n>g\<close>; the case of equal rounded values moves one prefix up.
\<close>

definition nice_units ::
  "(nat \<Rightarrow> rat \<Rightarrow> string) \<Rightarrow> (nat \<Rightarrow> rat \<Rightarrow> string) \<Rightarrow> (rat \<Rightarrow> rat) \<Rightarrow> rat \<Rightarrow> nat \<Rightarrow> nat option
    \<Rightarrow> string \<Rightarrow> string \<Rightarrow> bool \<Rightarrow> bool \<Rightarrow> bool \<Rightarrow> string" where
  "nice_units fmt_f fmt_g fl value dp sigfigs sfx space extra full_name bin =
     (let prefixes = unit_prefixes bin extra;
          ms = sort (map fst prefixes);
          mi = mult_index ms value;
          up = (sigfigs = None \<and> mi < length ms - 1 \<and>
                round_half_away dp (fl (value / ms ! mi)) = round_half_away dp (fl (ms ! (mi + 1) / ms ! mi)));
          mult = (if up then ms ! (mi + 1) else ms ! mi);
          new_value = fl (value / mult);
          label = (case map_of prefixes mult of None \<Rightarrow> [] | Some (short, long) \<Rightarrow> if full_name then long else short)
      in (case sigfigs of None \<Rightarrow> fmt_f dp new_value | Some k \<Rightarrow> fmt_g k new_value) @ space @ label @ sfx)"

section \<open>float\_range and round\_grid\<close>

partial_function (option) float_loop :: "(rat \<Rightarrow> rat) \<Rightarrow> rat \<Rightarrow> rat \<Rightarrow> rat \<Rightarrow> rat list \<Rightarrow> rat list option" where
  "float_loop fl stop step cur l =
     (if cur < stop then float_loop fl stop step (fl (cur + step)) (l @ [cur]) else Some l)"

definition float_range :: "(rat \<Rightarrow> rat) \<Rightarrow> rat \<Rightarrow> rat option \<Rightarrow> rat option \<Rightarrow> rat list option" where
  "float_range fl start stop step =
     (let (start', stop') = (case stop of None \<Rightarrow> (0, start) | Some s \<Rightarrow> (start, s))
      in float_loop fl stop' (case step of None \<Rightarrow> 1 | Some d \<Rightarrow> d) start' [])"

text \<open>Integers divide rounding down; in the last branch \<open>add_one\<close> was never bound.\<close>

definition round_grid :: "int \<Rightarrow> int \<Rightarrow> int \<Rightarrow> int res" where
  "round_grid value grid mode =
     (if grid = 0 then Inl ZeroDivisionError
      else let off_grid = value mod grid
           in bind_res
                (if mode = 0 then Inr (if (of_int off_grid :: rat) \<ge> of_int grid / 2 then 1 else 0)
                 else if mode = 1 \<and> off_grid \<noteq> 0 then Inr 1
                 else if mode = -1 \<and> off_grid \<noteq> 0 then Inr 0
                 else Inl UnboundLocalError)
                (\<lambda>add_one. Inr ((value div grid + add_one) * grid)))"

text \<open>On floats \<open>%\<close> still rounds down, but \<open>int(value / grid)\<close> rounds towards zero.\<close>

definition round_grid_float :: "(rat \<Rightarrow> rat) \<Rightarrow> rat \<Rightarrow> rat \<Rightarrow> int \<Rightarrow> rat res" where
  "round_grid_float fl value grid mode =
     (if grid = 0 then Inl ZeroDivisionError
      else let off_grid = fl (value - grid * of_int \<lfloor>value / grid\<rfloor>)
           in bind_res
                (if mode = 0 then Inr (if off_grid \<ge> fl (grid / 2) then 1 else 0)
                 else if mode = 1 \<and> off_grid \<noteq> 0 then Inr 1
                 else if mode = -1 \<and> off_grid \<noteq> 0 then Inr 0
                 else Inl UnboundLocalError)
                (\<lambda>add_one. Inr (fl (of_int (trunc (fl (value / grid)) + add_one) * grid))))"

section \<open>Lemmas on binary strings\<close>

lemma bit_char_eq [simp]: "bit_char b = CHR ''1'' \<longleftrightarrow> b" "bit_char b = CHR ''0'' \<longleftrightarrow> \<not> b"
  "bit_char b \<noteq> CHR ''-''" "bit_char b \<noteq> CHR ''+''" "bit_char b \<noteq> CHR ''b''" "bit_char b \<noteq> CHR ''B''"
  by (simp_all add: bit_char_def)

lemma bits_val_snoc: "bits_val (s @ [c]) = 2 * bits_val s + (if c = CHR ''1'' then 1 else 0)"
  by (simp add: bits_val_def)

lemma bits_val_Nil [simp]: "bits_val [] = 0"
  by (simp add: bits_val_def)

lemma bits_val_append: "bits_val (s @ t) = bits_val s * 2 ^ length t + bits_val t"
proof (induction t rule: rev_induct)
  case Nil
  then show ?case by simp
next
  case (snoc c t)
  have "bits_val (s @ t @ [c]) = 2 * bits_val (s @ t) + (if c = CHR ''1'' then 1 else 0)"
    using bits_val_snoc [of "s @ t" c] by simp
  also have "\<dots> = 2 * (bits_val s * 2 ^ length t + bits_val t) + (if c = CHR ''1'' then 1 else 0)"
    by (simp only: snoc.IH)
  finally show ?case by (simp add: bits_val_snoc algebra_simps)
qed

lemma bits_val_less: "bits_val s < 2 ^ length s"
  by (induction s rule: rev_induct) (auto simp: bits_val_snoc)

lemma bits_val_zeros: "CHR ''1'' \<notin> set s \<Longrightarrow> bits_val s = 0"
  by (induction s rule: rev_induct) (auto simp: bits_val_snoc)

lemma bits_val_one: "CHR ''1'' \<in> set s \<Longrightarrow> 0 < bits_val s"
  by (induction s rule: rev_induct) (auto simp: bits_val_snoc)

lemma hex2bin_props: "length (hex2bin d) = 4" "set (hex2bin d) \<subseteq> {CHR ''0'', CHR ''1''}"
  by (auto simp: hex2bin_def bit_char_def)

lemma bits_val_hex2bin: "d < 16 \<Longrightarrow> bits_val (hex2bin d) = d"
proof -
  assume "d < 16"
  then have "d \<in> set [0..<16]" by simp
  moreover have "list_all (\<lambda>d. bits_val (hex2bin d) = d) [0..<16]" by code_simp
  ultimately show ?thesis unfolding list_all_iff by blast
qed

definition hex_string :: "nat \<Rightarrow> string" where
  "hex_string n = concat (map hex2bin (hex_digits n))"

lemma hex_string_props:
  "bits_val (hex_string n) = n \<and> hex_string n \<noteq> [] \<and> set (hex_string n) \<subseteq> {CHR ''0'', CHR ''1''}"
proof (induction n rule: hex_digits.induct)
  case (1 n)
  show ?case
  proof (cases "n < 16")
    case True
    then show ?thesis
      using hex2bin_props [of n] by (auto simp: hex_string_def hex_digits.simps [of n] bits_val_hex2bin)
  next
    case False
    then have h: "hex_string n = hex_string (n div 16) @ hex2bin (n mod 16)"
      by (simp add: hex_string_def hex_digits.simps [of n])
    have "bits_val (hex_string n) = (n div 16) * 2 ^ 4 + n mod 16"
      unfolding h bits_val_append using 1 False by (simp add: hex2bin_props bits_val_hex2bin)
    then show ?thesis using 1 False hex2bin_props(2) [of "n mod 16"] by (auto simp: h)
  qed
qed

lemma bin_chars: "c = CHR ''0'' \<or> c = CHR ''1'' \<Longrightarrow> is_digit c \<and> c \<noteq> CHR ''-'' \<and> c \<noteq> CHR ''+'' \<and> c \<noteq> CHR ''b'' \<and> c \<noteq> CHR ''B''"
  by (auto simp: is_digit_def code_def)

lemma bin2int_bits:
  assumes "s \<noteq> []" and "set s \<subseteq> {CHR ''0'', CHR ''1''}"
  shows "bin2int s = Inr (int (bits_val s))"
proof -
  from assms obtain c r where s: "s = c # r" by (cases s) auto
  have dig: "list_all is_digit s" unfolding list_all_iff
  proof
    fix d assume "d \<in> set s"
    then have "d = CHR ''0'' \<or> d = CHR ''1''" using assms(2) by blast
    then show "is_digit d" by (simp add: bin_chars)
  qed
  have all: "list_all (\<lambda>c. c = CHR ''0'' \<or> c = CHR ''1'') s" using assms(2) unfolding list_all_iff by blast
  have nb: "take 2 s \<noteq> ''0b'' \<and> take 2 s \<noteq> ''0B''"
    using assms(2) s by (cases r) auto
  have "unsigned_bin s = Inr (bits_val s)"
    using assms(1) nb all by (simp add: unsigned_bin_def numeral_2_eq_2)
  moreover have "c \<noteq> CHR ''-''" "c \<noteq> CHR ''+''" using assms(2) s by auto
  ultimately show ?thesis using s strip_digits [OF dig] by (simp add: bin2int_def)
qed

lemma clip_neg: "0 < n \<Longrightarrow> clip m (- int n) = m - n"
  by (simp add: clip_def min_def max_def) linarith

lemma clip_all: "clip m 0 = 0" "clip m (int m) = m"
  by (simp_all add: clip_def)

lemma slices:
  assumes "0 < n"
  shows "py_slice s 0 (- int n) = take (length s - n) s" "py_slice s (- int n) (int (length s)) = drop (length s - n) s"
  by (simp_all add: py_slice_def clip_neg [OF assms] clip_all Let_def)

section \<open>Lemmas on the ripple counter\<close>

fun inc_bits :: "bool list \<Rightarrow> bool list \<times> bool" where
  "inc_bits [] = ([], True)"
| "inc_bits (False # v) = (True # v, False)"
| "inc_bits (True # v) = (case inc_bits v of (w, c) \<Rightarrow> (False # w, c))"

lemma ripple_inc:
  assumes "length toggle = Suc (length pre + length rest)" and "toggle ! length pre"
    and "\<forall>j. length pre < j \<and> j < length toggle \<longrightarrow> \<not> toggle ! j"
  shows "\<exists>t. ripple (pre @ rest) toggle (length pre) (length rest) = (pre @ fst (inc_bits rest), t)
    \<and> length t = length toggle \<and> (t ! (length pre + length rest) \<longleftrightarrow> snd (inc_bits rest))"
  using assms
proof (induction rest arbitrary: pre toggle)
  case Nil
  then show ?case by simp
next
  case (Cons b rest)
  let ?n = "length pre"
  show ?case
  proof (cases b)
    case False
    then have "ripple (pre @ b # rest) toggle ?n (length (b # rest))
        = ripple (pre @ True # rest) (toggle[?n + 1 := False]) (?n + 1) (length rest)"
      using Cons.prems by (simp add: nth_append)
    also have "\<dots> = (pre @ True # rest, toggle[?n + 1 := False])"
      using Cons.prems by (cases "length rest") (simp_all add: nth_list_update)
    finally show ?thesis using False Cons.prems by (auto simp: nth_list_update)
  next
    case True
    then have "ripple (pre @ b # rest) toggle ?n (length (b # rest))
        = ripple ((pre @ [False]) @ rest) (toggle[?n + 1 := True]) (length (pre @ [False])) (length rest)"
      using Cons.prems by (simp add: nth_append)
    moreover have "\<exists>t. ripple ((pre @ [False]) @ rest) (toggle[?n + 1 := True]) (length (pre @ [False])) (length rest)
        = ((pre @ [False]) @ fst (inc_bits rest), t) \<and> length t = length (toggle[?n + 1 := True])
        \<and> (t ! (length (pre @ [False]) + length rest) \<longleftrightarrow> snd (inc_bits rest))"
      by (rule Cons.IH) (use Cons.prems in \<open>auto simp: nth_list_update\<close>)
    ultimately show ?thesis using True by (auto split: prod.splits)
  qed
qed

fun to_bits :: "nat \<Rightarrow> nat \<Rightarrow> bool list" where
  "to_bits 0 i = []"
| "to_bits (Suc n) i = odd i # to_bits n (i div 2)"

lemma length_to_bits [simp]: "length (to_bits n i) = n"
  by (induction n arbitrary: i) auto

lemma inc_to_bits: "i < 2 ^ n \<Longrightarrow> inc_bits (to_bits n i) = (to_bits n (i + 1), i + 1 = 2 ^ n)"
proof (induction n arbitrary: i)
  case 0
  then show ?case by simp
next
  case (Suc n)
  show ?case
  proof (cases "odd i")
    case False
    then have "i + 1 \<noteq> 2 ^ Suc n" by (metis dvd_triv_left even_plus_one_iff power_Suc)
    with False show ?thesis by simp
  next
    case True
    then obtain k where k: "i = 2 * k + 1" by (rule oddE)
    with Suc.prems have "k < 2 ^ n" by simp
    moreover have "2 * k + 1 + 1 = 2 * 2 ^ n \<longleftrightarrow> k + 1 = 2 ^ n" by presburger
    ultimately show ?thesis using Suc.IH [of k] k by simp
  qed
qed

lemma bits_val_rev_to_bits: "i < 2 ^ n \<Longrightarrow> bits_val (map bit_char (rev (to_bits n i))) = i"
proof (induction n arbitrary: i)
  case 0
  then show ?case by simp
next
  case (Suc n)
  then have "i div 2 < 2 ^ n" by simp
  from Suc.IH [OF this] show ?case by (simp add: bits_val_snoc)
qed

definition binary_string :: "nat \<Rightarrow> nat \<Rightarrow> string" where
  "binary_string n i = map bit_char (rev (to_bits n i))"

lemma binary_loop_run:
  assumes "i \<le> 2 ^ n" and "0 < n" and "length toggle = Suc n" and "toggle ! n \<longleftrightarrow> i = 2 ^ n"
  shows "binary_loop n (to_bits n i) toggle l = Some (l @ map (binary_string n) [i..<2 ^ n])"
  using assms
proof (induction "2 ^ n - i" arbitrary: i toggle l)
  case 0
  then show ?case by (simp add: binary_loop.simps)
next
  case (Suc k)
  then have i: "i < 2 ^ n" by simp
  let ?t0 = "True # replicate n False"
  have "\<forall>j. 0 < j \<and> j < Suc n \<longrightarrow> \<not> ?t0 ! j" by (simp add: nth_Cons split: nat.splits)
  then have "\<exists>t. ripple (to_bits n i) ?t0 0 n = (fst (inc_bits (to_bits n i)), t)
    \<and> length t = Suc n \<and> (t ! n \<longleftrightarrow> snd (inc_bits (to_bits n i)))"
    using ripple_inc [of ?t0 "[]" "to_bits n i"] by simp
  then obtain t where t: "ripple (to_bits n i) ?t0 0 n = (to_bits n (i + 1), t)"
    "length t = Suc n" "t ! n \<longleftrightarrow> i + 1 = 2 ^ n"
    by (auto simp: inc_to_bits [OF i])
  have "binary_loop n (to_bits n i) toggle l = binary_loop n (to_bits n (i + 1)) t (l @ [binary_string n i])"
    using i Suc.prems(4) t(1) by (simp add: binary_loop.simps [of n _ toggle] binary_string_def)
  also have "\<dots> = Some ((l @ [binary_string n i]) @ map (binary_string n) [i + 1..<2 ^ n])"
    by (rule Suc.hyps(1)) (use Suc.hyps(2) Suc.prems i t in auto)
  also have "\<dots> = Some (l @ map (binary_string n) [i..<2 ^ n])" using i by (simp add: upt_conv_Cons)
  finally show ?case .
qed

lemma to_bits_0: "to_bits n 0 = replicate n False"
  by (induction n) auto

section \<open>Lemmas on Gray codes, Euclid and quantiles\<close>

lemma gray_half: "gray_encode i div 2 = gray_encode (i div 2)"
proof -
  have "drop_bit 1 (i XOR drop_bit 1 i) = drop_bit 1 i XOR drop_bit 1 (drop_bit 1 i)" by simp
  then show ?thesis unfolding gray_encode_def by (simp add: drop_bit_eq_div)
qed

lemma gray_parity: "odd (gray_encode i) \<longleftrightarrow> (odd i \<noteq> odd (i div 2))"
  by (simp add: gray_encode_def even_xor_iff drop_bit_Suc)

lemma int_eq_half: "(x::int) div 2 = y div 2 \<Longrightarrow> (odd x \<longleftrightarrow> odd y) \<Longrightarrow> x = y"
  by presburger

lemma gray_inj: "0 \<le> i \<Longrightarrow> 0 \<le> j \<Longrightarrow> gray_encode i = gray_encode j \<Longrightarrow> i = j"
proof (induction "nat i + nat j" arbitrary: i j rule: less_induct)
  case less
  show ?case
  proof (cases "i = 0 \<and> j = 0")
    case False
    with less.prems have "nat (i div 2) + nat (j div 2) < nat i + nat j" by linarith
    moreover have "gray_encode (i div 2) = gray_encode (j div 2)"
      unfolding gray_half [symmetric] less.prems(3) ..
    moreover have "0 \<le> i div 2" "0 \<le> j div 2" using less.prems(1,2) by simp_all
    ultimately have h: "i div 2 = j div 2" using less.hyps by blast
    have "odd i \<longleftrightarrow> odd j" using gray_parity [of i] gray_parity [of j] unfolding less.prems(3) h by blast
    with h show ?thesis by (rule int_eq_half)
  qed simp
qed

lemma flip_bit_Suc_half: "flip_bit (Suc k) (x::int) div 2 = flip_bit k (x div 2)"
  by (simp add: flip_bit_Suc)

lemma flip_bit_Suc_parity: "odd (flip_bit (Suc k) (x::int)) \<longleftrightarrow> odd x"
  by (simp add: flip_bit_Suc)

lemma gray_next: "0 \<le> i \<Longrightarrow> \<exists>k. gray_encode (i + 1) = flip_bit k (gray_encode i)"
proof (induction "nat i" arbitrary: i rule: less_induct)
  case less
  show ?case
  proof (cases "even i")
    case True
    then have h: "(i + 1) div 2 = i div 2" by presburger
    have "gray_encode (i + 1) = flip_bit 0 (gray_encode i)"
    proof (rule int_eq_half)
      show "gray_encode (i + 1) div 2 = flip_bit 0 (gray_encode i) div 2"
        by (simp add: gray_half h flip_bit_0)
      show "odd (gray_encode (i + 1)) \<longleftrightarrow> odd (flip_bit 0 (gray_encode i))"
        using True gray_parity [of i] gray_parity [of "i + 1"] by (auto simp: h flip_bit_0)
    qed
    then show ?thesis ..
  next
    case False
    then have h: "(i + 1) div 2 = i div 2 + 1" by presburger
    have "0 < i" using False less.prems by (cases "i = 0") auto
    then have "0 \<le> i div 2" "nat (i div 2) < nat i" by linarith+
    then obtain k where k: "gray_encode (i div 2 + 1) = flip_bit k (gray_encode (i div 2))"
      using less.hyps by blast
    have "gray_encode (i + 1) = flip_bit (Suc k) (gray_encode i)"
    proof (rule int_eq_half)
      show "gray_encode (i + 1) div 2 = flip_bit (Suc k) (gray_encode i) div 2"
        unfolding flip_bit_Suc_half by (simp add: gray_half h k)
      show "odd (gray_encode (i + 1)) \<longleftrightarrow> odd (flip_bit (Suc k) (gray_encode i))"
        unfolding flip_bit_Suc_parity using False by (simp add: gray_parity h)
    qed
    then show ?thesis ..
  qed
qed

lemma gcf_loop_gcd: "gcf_loop a b = gcd a b"
proof (induction a b rule: gcf_loop.induct)
  case (1 a b)
  show ?case
  proof (cases "b = 0")
    case True
    then show ?thesis by (simp add: gcf_loop.simps [of a 0])
  next
    case False
    with 1 show ?thesis
      by (simp add: gcf_loop.simps [of a b] gcd_red_int [of a b])
  qed
qed

lemma gcf_gcd: "gcf a b = gcd a b"
  by (simp add: gcf_def gcf_loop_gcd max_def min_def gcd.commute)

lemma sorted_between:
  fixes xs :: "rat list"
  assumes "sorted xs" and "i < length xs"
  shows "hd xs \<le> xs ! i" "xs ! i \<le> last xs"
proof -
  from assms(2) have "xs \<noteq> []" by auto
  then show "hd xs \<le> xs ! i" "xs ! i \<le> last xs"
    using assms by (auto simp: hd_conv_nth last_conv_nth intro: sorted_nth_mono)
qed

lemma convex_between:
  fixes a b f :: rat
  assumes "0 \<le> f" and "f \<le> 1" and "a \<le> b"
  shows "a \<le> (1 - f) * a + f * b" "(1 - f) * a + f * b \<le> b"
proof -
  have "0 \<le> f * (b - a)" "0 \<le> (1 - f) * (b - a)" using assms by simp_all
  then show "a \<le> (1 - f) * a + f * b" "(1 - f) * a + f * b \<le> b" by (simp_all add: algebra_simps)
qed

section \<open>Properties\<close>

text \<open>\<open>int2bin\<close> and \<open>bin2int\<close> are inverse on every number that fits the width, the string has exactly
  that width, and a number that does not fit is refused.\<close>

theorem int2bin_roundtrip:
  assumes "0 \<le> i" and "0 < n"
  shows "if i < 2 ^ n then \<exists>s. int2bin i (int n) = Inr s \<and> length s = n \<and> bin2int s = Inr i
         else int2bin i (int n) = Inl ValueError"
proof -
  let ?h = "hex_string (nat i)"
  let ?hi = "take (length ?h - n) ?h" and ?lo = "drop (length ?h - n) ?h"
  have h: "bits_val ?h = nat i" "set ?h \<subseteq> {CHR ''0'', CHR ''1''}" using hex_string_props by blast+
  have def: "int2bin i (int n) = (if CHR ''1'' \<in> set ?hi then Inl ValueError
      else Inr (replicate (nat (int n - int (length ?lo))) CHR ''0'' @ ?lo))"
    using assms(1) by (simp add: int2bin_def Let_def slices [OF assms(2)] flip: hex_string_def)
  have val: "nat i = bits_val ?hi * 2 ^ length ?lo + bits_val ?lo"
    using bits_val_append [of ?hi ?lo] h(1) by simp
  show ?thesis
  proof (cases "CHR ''1'' \<in> set ?hi")
    case True
    then have "0 < bits_val ?hi" by (rule bits_val_one)
    moreover from this have "length ?lo = n" by (cases "n \<le> length ?h") auto
    ultimately have "2 ^ n \<le> bits_val ?hi * 2 ^ length ?lo" by simp
    then have "2 ^ n \<le> nat i" using val by linarith
    then have "\<not> i < 2 ^ n" using assms(1) by (metis le_nat_iff not_le of_nat_numeral of_nat_power)
    with True def show ?thesis by simp
  next
    case False
    let ?s = "replicate (nat (int n - int (length ?lo))) CHR ''0'' @ ?lo"
    from False have "nat i = bits_val ?lo" using val bits_val_zeros by simp
    moreover have "bits_val ?s = bits_val ?lo" by (simp add: bits_val_append bits_val_zeros)
    ultimately have v: "bits_val ?s = nat i" by simp
    have len: "length ?s = n" by simp
    have "nat i < 2 ^ n" using bits_val_less [of ?s] v len by simp
    then have "i < 2 ^ n" using assms(1) by (metis nat_less_iff of_nat_numeral of_nat_power)
    moreover have "bin2int ?s = Inr i"
    proof -
      have "?s \<noteq> []" using len assms(2) by auto
      moreover have "set ?s \<subseteq> {CHR ''0'', CHR ''1''}" using h(2) by (auto dest: in_set_dropD)
      ultimately show ?thesis using bin2int_bits [of ?s] v assms(1) by simp
    qed
    ultimately show ?thesis using False def len by auto
  qed
qed

theorem int2bin_roundtrip_witness:
  "int2bin 123 8 = Inr ''01111011'' \<and> bin2int ''01111011'' = Inr 123 \<and> int2bin 15 2 = Inl ValueError"
proof -
  have a: "int2bin 123 8 = Inr ''01111011''" by code_simp
  have "\<exists>s. int2bin 123 (int 8) = Inr s \<and> length s = 8 \<and> bin2int s = Inr 123"
    using int2bin_roundtrip [of 123 8] by simp
  moreover have "int2bin 15 (int 2) = Inl ValueError" using int2bin_roundtrip [of 15 2] by simp
  ultimately show ?thesis using a by simp
qed

text \<open>\<open>binary_range\<close> ends and lists all binary strings of the width in numeric order, each of the
  given width and with the value of its position.\<close>

theorem binary_range_enumerates:
  assumes "0 < n"
  shows "\<exists>l. binary_range n = Some l \<and> length l = 2 ^ n \<and>
    (\<forall>i < 2 ^ n. length (l ! i) = n \<and> bin2int (l ! i) = Inr (int i))"
proof -
  have len: "length (True # replicate n False) = Suc n" by simp
  have "(True # replicate n False) ! n \<longleftrightarrow> (0::nat) = 2 ^ n" using assms by (simp add: nth_Cons')
  from binary_loop_run [OF _ assms len this] have run: "binary_range n = Some (map (binary_string n) [0..<2 ^ n])"
    by (simp add: binary_range_def to_bits_0)
  have "length (binary_string n i) = n \<and> bin2int (binary_string n i) = Inr (int i)" if "i < 2 ^ n" for i
  proof -
    have "binary_string n i \<noteq> []" using assms by (cases n) (auto simp: binary_string_def)
    moreover have "set (binary_string n i) \<subseteq> {CHR ''0'', CHR ''1''}"
      by (auto simp: binary_string_def bit_char_def)
    ultimately have "bin2int (binary_string n i) = Inr (int (bits_val (binary_string n i)))" by (rule bin2int_bits)
    then show ?thesis by (simp add: binary_string_def bits_val_rev_to_bits [OF that])
  qed
  with run show ?thesis by simp
qed

theorem binary_range_enumerates_witness:
  "binary_range 2 = Some [''00'', ''01'', ''10'', ''11''] \<and> bin2int ''10'' = Inr 2"
proof -
  have r: "binary_range 2 = Some [''00'', ''01'', ''10'', ''11'']" by code_simp
  with binary_range_enumerates [of 2]
  have "\<forall>i < 4. bin2int ([''00'', ''01'', ''10'', ''11''] ! i) = Inr (int i)" by auto
  from this [rule_format, of 2] have "bin2int ([''00'', ''01'', ''10'', ''11''] ! 2) = Inr (int 2)" by simp
  with r show ?thesis by simp
qed

text \<open>\<open>gray_encode\<close> is a Gray code: different numbers have different codes, and the codes of neighbours
  differ in exactly one bit.\<close>

theorem gray_code:
  assumes "0 \<le> i" and "0 \<le> j"
  shows "(gray_encode i = gray_encode j \<longleftrightarrow> i = j) \<and> (\<exists>k. gray_encode (i + 1) = flip_bit k (gray_encode i))"
  using gray_inj [OF assms] gray_next [OF assms(1)] by blast

theorem gray_code_witness:
  "gray_encode 3 \<noteq> gray_encode 4 \<and> (\<exists>k. gray_encode 4 = flip_bit k (gray_encode 3))"
  using gray_code [of 3 4] by simp

text \<open>\<open>gcf\<close>, \<open>lcm\<close> and \<open>reduce_fraction\<close> compute the greatest common divisor, the least common multiple
  up to sign, and the fraction in lowest terms; only the fraction 0/0 raises.\<close>

theorem fractions_reduced:
  "gcf a b = gcd a b \<and> \<bar>lcm2 a b\<bar> = lcm a b \<and>
   (case reduce_fraction (a, b) of
      Inl e \<Rightarrow> a = 0 \<and> b = 0 \<and> e = ZeroDivisionError
    | Inr (p, q) \<Rightarrow> coprime p q \<and> p * b = a * q \<and> a = p * gcd a b)"
proof (intro conjI)
  show "gcf a b = gcd a b" by (rule gcf_gcd)
  show "\<bar>lcm2 a b\<bar> = lcm a b"
  proof (cases "gcd a b = 0")
    case True
    then show ?thesis by (simp add: lcm2_def gcf_gcd)
  next
    case False
    have "lcm2 a b * gcd a b = a * b" using False by (simp add: lcm2_def gcf_gcd Let_def)
    then have "\<bar>lcm2 a b\<bar> * gcd a b = lcm a b * gcd a b"
      using prod_gcd_lcm_int [of a b] by (metis abs_mult abs_gcd_int mult.commute)
    then show ?thesis using False by (simp only: mult_cancel_right if_False simp_thms)
  qed
  show "case reduce_fraction (a, b) of
      Inl e \<Rightarrow> a = 0 \<and> b = 0 \<and> e = ZeroDivisionError
    | Inr (p, q) \<Rightarrow> coprime p q \<and> p * b = a * q \<and> a = p * gcd a b"
  proof (cases "gcd a b = 0")
    case True
    then show ?thesis by (simp add: reduce_fraction_def gcf_gcd)
  next
    case False
    then have "a \<noteq> 0 \<or> b \<noteq> 0" by auto
    then have c: "coprime (a div gcd a b) (b div gcd a b)" by (rule div_gcd_coprime)
    have "a div gcd a b * b = a * (b div gcd a b)" by (simp add: dvd_div_mult div_mult_swap)
    with False c show ?thesis by (simp add: reduce_fraction_def gcf_gcd Let_def)
  qed
qed

text \<open>In ideal arithmetic every quantile of a nonempty list, for \<open>p\<close> between 0 and 1, exists and lies
  between the smallest and the largest value; \<open>p = 0\<close> and \<open>p = 1\<close> give just these.\<close>

theorem quantile_between:
  assumes "l \<noteq> []" and "0 \<le> p" and "p \<le> 1"
  shows "\<exists>x. quantile exact l p = Inr x \<and> hd (sort l) \<le> x \<and> x \<le> last (sort l) \<and>
    (p = 0 \<longrightarrow> x = hd (sort l)) \<and> (p = 1 \<longrightarrow> x = last (sort l))"
proof -
  define s where "s = sort l"
  define n where "n = length s"
  define r where "r = 1 + (of_nat n - 1) * p"
  define i where "i = \<lfloor>r\<rfloor>"
  have s: "sorted s" "s \<noteq> []"
    using assms(1) by (auto simp: s_def dest: arg_cong [where f = length])
  have n1: "1 \<le> n" using s(2) by (simp add: n_def Suc_leI)
  have "0 \<le> (of_nat n - 1) * p" using n1 assms(2) by (intro mult_nonneg_nonneg) simp_all
  then have r1: "1 \<le> r" by (simp add: r_def)
  have "(of_nat n - 1) * p \<le> (of_nat n - 1) * 1" using n1 assms(3) by (intro mult_left_mono) simp_all
  then have rn: "r \<le> of_nat n" by (simp add: r_def)
  have i: "1 \<le> i" "i \<le> int n" using r1 rn by (simp_all add: i_def le_floor_iff floor_le_iff)
  have f: "0 \<le> r - of_int i" "r - of_int i < 1" unfolding i_def by linarith+
  have q: "quantile exact l p =
      (if i < int n then
         bind_res (py_index s (i - 1)) (\<lambda>a. bind_res (py_index s i) (\<lambda>b.
           Inr ((1 - (r - of_int i)) * a + (r - of_int i) * b)))
       else py_index s (i - 1))"
    using r1 by (simp add: quantile_def Let_def exact_def trunc_def s_def n_def r_def i_def)
  have prev: "py_index s (i - 1) = Inr (s ! nat (i - 1))"
    using i n_def by (simp add: py_index_def Let_def)
  show ?thesis
  proof (cases "i < int n")
    case True
    have cur: "py_index s i = Inr (s ! nat i)" using i True n_def by (simp add: py_index_def Let_def)
    let ?a = "s ! nat (i - 1)" and ?b = "s ! nat i" and ?f = "r - of_int i"
    have "?a \<le> ?b" using s(1) i True n_def by (intro sorted_nth_mono) auto
    from convex_between [OF f(1) less_imp_le [OF f(2)] this]
    have ab: "?a \<le> (1 - ?f) * ?a + ?f * ?b" "(1 - ?f) * ?a + ?f * ?b \<le> ?b" .
    have "nat (i - 1) < length s" "nat i < length s" using i True n_def by auto
    then have lo: "hd s \<le> ?a" and hi: "?b \<le> last s" by (simp_all only: sorted_between [OF s(1)])
    have p0: "(1 - ?f) * ?a + ?f * ?b = hd s" if "p = 0"
      using that s(2) by (simp add: r_def i_def hd_conv_nth)
    have p1: "p \<noteq> 1" using True n1 by (auto simp: r_def i_def)
    have "quantile exact l p = Inr ((1 - ?f) * ?a + ?f * ?b)" by (simp add: q True prev cur)
    with ab lo hi p0 p1 show ?thesis unfolding s_def [symmetric] by (meson order_trans)
  next
    case False
    then have "i = int n" using i by simp
    then have "quantile exact l p = Inr (s ! (n - 1))" using q prev n1 by (simp add: nat_diff_distrib)
    moreover have "s ! (n - 1) = last s" using s(2) by (simp add: last_conv_nth n_def)
    moreover have "hd s = last s" if "p = 0"
    proof -
      have "n = 1" using \<open>i = int n\<close> that by (simp add: r_def i_def)
      then show ?thesis using s(2) by (simp add: n_def hd_conv_nth last_conv_nth)
    qed
    moreover have "hd s \<le> last s"
      using sorted_between(1) [OF s(1), of "n - 1"] s(2) n1 by (simp add: last_conv_nth n_def)
    ultimately show ?thesis unfolding s_def [symmetric] by auto
  qed
qed

theorem quantile_between_witness:
  "quantile exact [3, 1, 2] (1 / 4) = Inr (3 / 2) \<and> hd (sort [3, 1, 2]) \<le> (3 / 2 :: rat)"
proof -
  have q: "quantile exact [3, 1, 2] (1 / 4) = Inr (3 / 2)" by code_simp
  with quantile_between [of "[3, 1, 2]" "1 / 4"] show ?thesis by simp
qed

text \<open>\<open>round_grid\<close> on integers with a positive grid returns a multiple of the grid: the nearest one in
  mode 0 (ties up), in modes 1 and -1 the next one above and below, except that a value already on
  the grid raises \<open>UnboundLocalError\<close> in those modes.\<close>

theorem round_grid_result:
  assumes "0 < grid" and "mode = 0 \<or> mode = 1 \<or> mode = - 1"
  shows "case round_grid value grid mode of
      Inl e \<Rightarrow> e = UnboundLocalError \<and> mode \<noteq> 0 \<and> grid dvd value
    | Inr r \<Rightarrow> grid dvd r \<and>
        (mode = 0 \<longrightarrow> 2 * \<bar>r - value\<bar> \<le> grid) \<and>
        (mode = 1 \<longrightarrow> value < r \<and> r < value + grid) \<and>
        (mode = - 1 \<longrightarrow> r < value \<and> value < r + grid)"
proof -
  define q m where "q = value div grid" and "m = value mod grid"
  have v: "value = q * grid + m" and m: "0 \<le> m" "m < grid"
    using assms(1) by (simp_all add: q_def m_def)
  have dvd: "grid dvd value \<longleftrightarrow> m = 0" by (simp add: m_def dvd_eq_mod_eq_0)
  have half: "(of_int m :: rat) \<ge> of_int grid / 2 \<longleftrightarrow> grid \<le> 2 * m"
  proof -
    have "of_int grid / 2 \<le> (of_int m :: rat) \<longleftrightarrow> (of_int grid :: rat) \<le> of_int (m * 2)"
      by simp
    then show ?thesis by (simp only: of_int_le_iff mult.commute [of m])
  qed
  have one: "(q + 1) * grid = value - m + grid" and zero: "q * grid = value - m"
    using v by (simp_all add: algebra_simps)
  have gd: "grid dvd value - m" by (metis zero dvd_triv_right)
  from assms(2) show ?thesis
  proof (elim disjE)
    assume "mode = 0"
    then show ?thesis using m assms(1) one zero gd
      by (simp add: round_grid_def Let_def m_def [symmetric] q_def [symmetric] half)
  next
    assume "mode = 1"
    then show ?thesis using m assms(1) one dvd gd
      by (simp add: round_grid_def Let_def m_def [symmetric] q_def [symmetric])
  next
    assume "mode = - 1"
    then show ?thesis using m assms(1) zero dvd gd
      by (simp add: round_grid_def Let_def m_def [symmetric] q_def [symmetric])
  qed
qed

theorem round_grid_result_witness:
  "round_grid 7 5 1 = Inr 10 \<and> (7::int) < 10 \<and> round_grid 10 5 1 = Inl UnboundLocalError"
proof -
  have r: "round_grid 7 5 1 = Inr 10" "round_grid 10 5 1 = Inl UnboundLocalError" by code_simp+
  with round_grid_result [of 5 1 7] show ?thesis by simp
qed

end
