(* ===== verification/Rad_Seq.thy ===== *)
theory Rad_Seq
  imports Py_Strings "HOL-Library.Sublist"
begin

text \<open>
  The sequence helpers of \<open>bindings/python/rad_util.py\<close>: \<open>reverse\<close>, \<open>transpose\<close>, \<open>permutations\<close>,
  \<open>uniquify\<close>, \<open>reverse_dict\<close>, \<open>find_common_fixes\<close>, \<open>is_rotated\<close> and \<open>get_args\<close>.
\<close>

section \<open>reverse and transpose\<close>

definition reverse :: "string \<Rightarrow> string" where
  "reverse input_string = rev input_string"

text \<open>\<open>zip( *rows )\<close>: the columns, as many as the shortest row has; no columns without rows.\<close>

function zip_rows :: "'a list list \<Rightarrow> 'a list list" where
  "zip_rows rows =
     (if rows = [] \<or> [] \<in> set rows then [] else map hd rows # zip_rows (map tl rows))"
  by pat_completeness auto
termination
proof (relation "measure (\<lambda>rows. sum_list (map length rows))", goal_cases)
  case 1
  then show ?case by simp
next
  case (2 rows)
  then obtain r rs where "rows = r # rs" "r \<noteq> []" "\<forall>x \<in> set rs. x \<noteq> []" by (cases rows) auto
  moreover have "sum_list (map length (map tl rs)) \<le> sum_list (map length rs)"
    unfolding map_map by (rule sum_list_mono) simp
  moreover have "length (tl r) < length r" using \<open>r \<noteq> []\<close> by (cases r) auto
  ultimately show ?case
    by (simp only: in_measure list.map sum_list.Cons add_less_le_mono)
qed

declare zip_rows.simps [simp del]

definition transpose :: "'a list list \<Rightarrow> 'a list list" where
  "transpose matrix = zip_rows matrix"

section \<open>permutations\<close>

text \<open>\<open>new_list.insert(i, item)\<close> for an index up to the length.\<close>

definition insert_at :: "nat \<Rightarrow> 'a \<Rightarrow> 'a list \<Rightarrow> 'a list" where
  "insert_at i x xs = take i xs @ x # drop i xs"

fun permutations :: "'a list \<Rightarrow> 'a list list" where
  "permutations (x # y # zs) =
     concat (map (\<lambda>sub. map (\<lambda>i. insert_at i x sub) [0..<length (x # y # zs)]) (permutations (y # zs)))"
| "permutations xs = [xs]"

section \<open>uniquify and reverse\_dict\<close>

text \<open>
  The fast path keeps the items seen in a dictionary; items that are not hashable take the slow
  path over a list.  Without \<open>preserve_order\<close> the fast path returns the keys of the dictionary,
  here in the order they were stored.
\<close>

fun uniq_comp :: "'a list \<Rightarrow> ('a, nat) dict \<Rightarrow> 'a list" where
  "uniq_comp [] d = []"
| "uniq_comp (x # seq) d =
     (if map_of d x = None then x # uniq_comp seq (dict_set x 0 d) else uniq_comp seq d)"

definition uniq_keys :: "'a list \<Rightarrow> 'a list" where
  "uniq_keys seq = dict_keys (fold (\<lambda>x. dict_set x (0::nat)) seq [])"

definition uniq_slow :: "'a list \<Rightarrow> 'a list" where
  "uniq_slow seq = fold (\<lambda>x result. if x \<in> set result then result else result @ [x]) seq []"

definition uniquify :: "bool \<Rightarrow> bool \<Rightarrow> 'a list \<Rightarrow> 'a list" where
  "uniquify hashable preserve_order seq =
     (if hashable then (if preserve_order then uniq_comp seq [] else uniq_keys seq)
      else uniq_slow seq)"

definition reverse_dict :: "('k, 'v) dict \<Rightarrow> ('v, 'k) dict" where
  "reverse_dict d = fold (\<lambda>(k, v). dict_set v k) d []"

section \<open>find\_common\_fixes\<close>

fun common_prefix :: "'a list \<Rightarrow> 'a list \<Rightarrow> nat \<Rightarrow> nat \<Rightarrow> 'a list \<Rightarrow> 'a list" where
  "common_prefix s1 s2 i 0 pre = pre"
| "common_prefix s1 s2 i (Suc k) pre =
     (if s1 ! i \<noteq> s2 ! i then pre else common_prefix s1 s2 (Suc i) k (pre @ [s1 ! i]))"

text \<open>The second loop reads \<open>s[-i]\<close>, the element at \<open>len(s) - i\<close>.\<close>

fun common_suffix :: "'a list \<Rightarrow> 'a list \<Rightarrow> nat \<Rightarrow> nat \<Rightarrow> 'a list \<Rightarrow> 'a list" where
  "common_suffix s1 s2 i 0 suf = suf"
| "common_suffix s1 s2 i (Suc k) suf =
     (if s1 ! (length s1 - i) \<noteq> s2 ! (length s2 - i) then suf
      else common_suffix s1 s2 (Suc i) k (suf @ [s1 ! (length s1 - i)]))"

definition find_common_fixes :: "'a list \<Rightarrow> 'a list \<Rightarrow> 'a list \<times> 'a list" where
  "find_common_fixes s1 s2 =
     (let common_len = min (length s1) (length s2)
      in (common_prefix s1 s2 0 common_len [], rev (common_suffix s1 s2 1 common_len [])))"

section \<open>is\_rotated\<close>

definition start_indexes :: "'a \<Rightarrow> 'a list \<Rightarrow> nat list" where
  "start_indexes head_item seq1 = filter (\<lambda>i. seq1 ! i = head_item) [0..<length seq1]"

definition is_rotated :: "'a list \<Rightarrow> 'a list \<Rightarrow> bool res" where
  "is_rotated seq1 seq2 =
     (if length seq1 \<noteq> length seq2 then Inr False
      else bind_res (py_nth seq2 0) (\<lambda>head_item.
        let double_seq1 = seq1 @ seq1
        in Inr (list_ex (\<lambda>i. take (length seq1) (drop i double_seq1) = seq2)
                  (start_indexes head_item seq1))))"

section \<open>get\_args\<close>

text \<open>The dictionary holds option values (a string or \<^const>\<open>None\<close>) and, under \<open>args\<close>, the list of the rest.\<close>

datatype arg_value = ArgNone | ArgStr string | ArgList "string list"

definition get_arg :: "(string, arg_value) dict \<times> string list \<Rightarrow> string \<Rightarrow> (string, arg_value) dict \<times> string list" where
  "get_arg st arg =
     (case st of (d, args) \<Rightarrow>
        if startswith arg ''-'' then
          (case split_on CHR ''='' (dropWhile (\<lambda>c. c = CHR ''-'') arg) of
             [k, v] \<Rightarrow> (dict_set k (ArgStr v) d, args)
           | k # _ \<Rightarrow> (dict_set k ArgNone d, args)
           | [] \<Rightarrow> (d, args))
        else (d, args @ [arg]))"

definition get_args :: "string list \<Rightarrow> (string, arg_value) dict" where
  "get_args argv = (case fold (\<lambda>a st. get_arg st a) argv ([], []) of (d, args) \<Rightarrow> dict_set ''args'' (ArgList args) d)"

section \<open>Lemmas\<close>

lemma zip_rows_rect:
  assumes "rows \<noteq> []" and "\<forall>r \<in> set rows. length r = n"
  shows "zip_rows rows = map (\<lambda>j. map (\<lambda>r. r ! j) rows) [0..<n]"
  using assms
proof (induction n arbitrary: rows)
  case 0
  then have "[] \<in> set rows" by (cases rows) auto
  then show ?case by (subst zip_rows.simps) simp
next
  case (Suc n)
  then have ne: "\<forall>r \<in> set rows. r \<noteq> []" by auto
  have "zip_rows rows = map hd rows # zip_rows (map tl rows)"
    using Suc.prems(1) ne by (subst zip_rows.simps) auto
  also have "zip_rows (map tl rows) = map (\<lambda>j. map (\<lambda>r. r ! j) (map tl rows)) [0..<n]"
    by (rule Suc.IH) (use Suc.prems in auto)
  also have "map hd rows = map (\<lambda>r. r ! 0) rows"
    using ne by (auto simp: hd_conv_nth)
  also have "map (\<lambda>j. map (\<lambda>r. r ! j) (map tl rows)) [0..<n] = map (\<lambda>j. map (\<lambda>r. r ! Suc j) rows) [0..<n]"
    using Suc.prems(2) by (auto simp: nth_tl)
  finally show ?case by (simp only: upt_conv_Cons [OF zero_less_Suc] map_Suc_upt [symmetric] list.map map_map comp_def)
qed

lemma mset_insert_at [simp]: "mset (insert_at i x xs) = add_mset x (mset xs)"
  by (simp add: insert_at_def) (metis append_take_drop_id mset_append)

lemma length_insert_at [simp]: "length (insert_at i x xs) = Suc (length xs)"
  by (simp add: insert_at_def)

lemma insert_at_surj:
  assumes "x \<in> set ys"
  obtains i zs where "ys = insert_at i x zs" and "i \<le> length zs" and "mset zs = mset ys - {#x#}"
proof -
  from assms obtain as bs where "ys = as @ x # bs" by (meson split_list)
  then have "ys = insert_at (length as) x (as @ bs)" by (simp add: insert_at_def)
  with that [of "length as" "as @ bs"] \<open>ys = as @ x # bs\<close> show ?thesis by simp
qed

lemma insert_at_inj:
  assumes "x \<notin> set xs" and "x \<notin> set ys" and "i \<le> length xs" and "j \<le> length ys"
    and "insert_at i x xs = insert_at j x ys"
  shows "i = j \<and> xs = ys"
proof -
  have t: "takeWhile (\<lambda>y. y \<noteq> x) (insert_at k x zs) = take k zs" if "x \<notin> set zs" for k zs
    using that by (auto simp: insert_at_def takeWhile_append dest: in_set_takeD)
  have "take i xs = take j ys" using t [OF assms(1), of i] t [OF assms(2), of j] assms(5) by simp
  moreover from this have "i = j" using assms(3,4) by (metis length_take min.absorb2)
  moreover from this have "drop i xs = drop j ys"
    using assms(5) calculation(1) by (simp add: insert_at_def)
  ultimately show ?thesis by (metis append_take_drop_id)
qed

lemma insert_at_eq_iff:
  assumes "x \<notin> set xs" and "x \<notin> set ys" and "i \<le> length xs" and "j \<le> length ys"
  shows "insert_at i x xs = insert_at j x ys \<longleftrightarrow> i = j \<and> xs = ys"
  using insert_at_inj [OF assms] by auto

lemma set_permutations: "set (permutations xs) = {ys. mset ys = mset xs}"
proof (induction xs rule: permutations.induct)
  case (1 x y zs)
  show ?case
  proof (intro equalityI subsetI)
    fix ys assume "ys \<in> set (permutations (x # y # zs))"
    then show "ys \<in> {ys. mset ys = mset (x # y # zs)}" using 1 by auto
  next
    fix ys assume "ys \<in> {ys. mset ys = mset (x # y # zs)}"
    then have m: "mset ys = mset (x # y # zs)" by simp
    then have "x \<in> set ys" by (metis list.set_intros(1) set_mset_mset)
    then obtain i sub where ys: "ys = insert_at i x sub" "i \<le> length sub" "mset sub = mset ys - {#x#}"
      by (rule insert_at_surj)
    have "mset sub = mset (y # zs)" unfolding ys(3) m by simp
    then have "sub \<in> set (permutations (y # zs))" using 1 by simp
    moreover have "i \<in> set [0..<length (x # y # zs)]"
      using ys(2) mset_eq_length [OF \<open>mset sub = mset (y # zs)\<close>] by auto
    ultimately have "insert_at i x sub \<in> set (map (\<lambda>i. insert_at i x sub) [0..<length (x # y # zs)])"
      "map (\<lambda>i. insert_at i x sub) [0..<length (x # y # zs)]
        \<in> set (map (\<lambda>sub. map (\<lambda>i. insert_at i x sub) [0..<length (x # y # zs)]) (permutations (y # zs)))"
      by (simp_all only: set_map image_eqI)
    then show "ys \<in> set (permutations (x # y # zs))"
      unfolding ys(1) by (simp only: permutations.simps set_concat Union_iff) blast
  qed
qed auto

lemma distinct_concat_map:
  assumes "distinct xs" and "\<And>x. x \<in> set xs \<Longrightarrow> distinct (f x)"
    and "\<And>x y. x \<in> set xs \<Longrightarrow> y \<in> set xs \<Longrightarrow> x \<noteq> y \<Longrightarrow> set (f x) \<inter> set (f y) = {}"
  shows "distinct (concat (map f xs))"
  using assms
proof (induction xs)
  case (Cons a xs)
  then have "set (f a) \<inter> set (f y) = {}" if "y \<in> set xs" for y using that by auto
  with Cons show ?case by auto
qed simp

lemma distinct_permutations: "distinct xs \<Longrightarrow> distinct (permutations xs)"
proof (induction xs rule: permutations.induct)
  case (1 x y zs)
  have sub: "x \<notin> set s \<and> length s = Suc (length zs)" if "s \<in> set (permutations (y # zs))" for s
  proof -
    from that have m: "mset s = mset (y # zs)" by (simp add: set_permutations)
    then have "set s = set (y # zs)" by (rule mset_eq_setD)
    moreover from m have "length s = length (y # zs)" by (rule mset_eq_length)
    ultimately show ?thesis using "1.prems" by simp
  qed
  show ?case unfolding permutations.simps
  proof (rule distinct_concat_map)
    show "distinct (permutations (y # zs))" using 1 by simp
    show "distinct (map (\<lambda>i. insert_at i x s) [0..<length (x # y # zs)])" if "s \<in> set (permutations (y # zs))" for s
      unfolding distinct_map using sub [OF that] by (simp add: inj_on_def insert_at_eq_iff)
    show "set (map (\<lambda>i. insert_at i x s) [0..<length (x # y # zs)]) \<inter> set (map (\<lambda>i. insert_at i x t) [0..<length (x # y # zs)]) = {}"
      if "s \<in> set (permutations (y # zs))" "t \<in> set (permutations (y # zs))" "s \<noteq> t" for s t
      using sub [OF that(1)] sub [OF that(2)] that(3) by (auto simp: insert_at_eq_iff)
  qed
qed simp_all

text \<open>The items at their first occurrence, in order: what every path of \<open>uniquify\<close> computes.\<close>

fun first_occs :: "'a list \<Rightarrow> 'a list" where
  "first_occs [] = []"
| "first_occs (x # xs) = x # filter (\<lambda>y. y \<noteq> x) (first_occs xs)"

lemma first_occs_set: "set (first_occs xs) = set xs" and first_occs_distinct: "distinct (first_occs xs)"
  by (induction xs) auto

lemma first_occs_subseq: "subseq (first_occs xs) xs"
  by (induction xs) (auto intro: subseq_order.trans [OF subseq_filter_left])

lemma uniq_comp_filter: "uniq_comp seq d = filter (\<lambda>x. map_of d x = None) (first_occs seq)"
  by (induction seq arbitrary: d) (auto intro!: filter_cong simp: filter_empty_conv)

lemma keys_dict_set: "dict_keys (dict_set k v d) = (if k \<in> set (dict_keys d) then dict_keys d else dict_keys d @ [k])"
  by (induction d) auto

lemma uniq_keys_fold:
  "dict_keys (fold (\<lambda>x. dict_set x (0::nat)) seq d) = dict_keys d @ filter (\<lambda>x. x \<notin> set (dict_keys d)) (first_occs seq)"
  by (induction seq arbitrary: d) (auto simp: keys_dict_set intro!: filter_cong)

lemma uniq_slow_fold:
  "fold (\<lambda>x result. if x \<in> set result then result else result @ [x]) seq r
     = r @ filter (\<lambda>x. x \<notin> set r) (first_occs seq)"
  by (induction seq arbitrary: r) (auto intro!: filter_cong)

lemma uniquify_first_occs: "uniquify hashable preserve_order seq = first_occs seq"
  by (simp add: uniquify_def uniq_comp_filter uniq_keys_def uniq_keys_fold uniq_slow_def uniq_slow_fold)

text \<open>Rotations.\<close>

lemma take_drop_double: "i \<le> length s \<Longrightarrow> take (length s) (drop i (s @ s)) = drop i s @ take i s"
  by (simp add: min_def)

lemma start_indexes_spec:
  assumes "length seq1 = length seq2" and "seq2 \<noteq> []"
  shows "list_ex (\<lambda>i. take (length seq1) (drop i (seq1 @ seq1)) = seq2) (start_indexes (seq2 ! 0) seq1)
    \<longleftrightarrow> (\<exists>n. seq2 = rotate n seq1)"
proof
  assume "list_ex (\<lambda>i. take (length seq1) (drop i (seq1 @ seq1)) = seq2) (start_indexes (seq2 ! 0) seq1)"
  then obtain i where "i < length seq1" "take (length seq1) (drop i (seq1 @ seq1)) = seq2"
    by (auto simp: list_ex_iff start_indexes_def)
  then have "seq2 = rotate i seq1" using take_drop_double [of i seq1] by (simp add: rotate_drop_take)
  then show "\<exists>n. seq2 = rotate n seq1" ..
next
  assume "\<exists>n. seq2 = rotate n seq1"
  then obtain n where n: "seq2 = rotate n seq1" ..
  have pos: "0 < length seq1" using assms by simp
  let ?i = "n mod length seq1"
  have i: "?i < length seq1" using pos by simp
  then have "take (length seq1) (drop ?i (seq1 @ seq1)) = seq2"
    using take_drop_double [of ?i seq1] n by (simp add: rotate_drop_take)
  moreover have "seq1 ! ?i = seq2 ! 0"
    using n i pos by (simp add: rotate_drop_take nth_append)
  ultimately show "list_ex (\<lambda>i. take (length seq1) (drop i (seq1 @ seq1)) = seq2) (start_indexes (seq2 ! 0) seq1)"
    using i by (auto simp: list_ex_iff start_indexes_def)
qed

text \<open>Common prefixes and suffixes.\<close>

lemma common_prefix_lcp:
  "k \<le> length s1 - i \<Longrightarrow> k \<le> length s2 - i \<Longrightarrow>
    common_prefix s1 s2 i k pre = pre @ longest_common_prefix (take k (drop i s1)) (take k (drop i s2))"
proof (induction k arbitrary: i pre)
  case 0
  then show ?case by simp
next
  case (Suc k)
  then have "drop i s1 = s1 ! i # drop (Suc i) s1" "drop i s2 = s2 ! i # drop (Suc i) s2"
    by (simp_all add: Cons_nth_drop_Suc)
  with Suc show ?case by (simp only: common_prefix.simps take_Suc_Cons longest_common_prefix.simps) auto
qed

lemma common_suffix_prefix:
  "common_suffix s1 s2 (Suc i) k suf = common_prefix (rev s1) (rev s2) i k suf" if "i + k \<le> length s1" "i + k \<le> length s2"
  using that by (induction k arbitrary: i suf) (simp_all add: rev_nth)

lemma lcp_take:
  "longest_common_prefix (take (min (length xs) (length ys)) xs) (take (min (length xs) (length ys)) ys)
     = longest_common_prefix xs ys"
  by (induction xs ys rule: longest_common_prefix.induct) auto

lemma find_common_fixes_lcp:
  "find_common_fixes s1 s2 =
     (longest_common_prefix s1 s2, rev (longest_common_prefix (rev s1) (rev s2)))"
  using lcp_take [of s1 s2] lcp_take [of "rev s1" "rev s2"]
  by (simp add: find_common_fixes_def Let_def common_prefix_lcp common_suffix_prefix [of 0, simplified])

section \<open>Properties\<close>

text \<open>\<open>permutations\<close> returns exactly the rearrangements of its argument, and each of them once
  when the items differ.\<close>

theorem permutations_exact:
  "set (permutations xs) = {ys. mset ys = mset xs} \<and> (distinct xs \<longrightarrow> distinct (permutations xs))"
  using set_permutations distinct_permutations by blast

theorem permutations_exact_witness:
  "distinct (permutations ''abc'') \<and> ''cab'' \<in> set (permutations ''abc'')"
proof -
  have "distinct (permutations ''abc'')" using permutations_exact [of "''abc''"] by simp
  moreover have "''cab'' \<in> {ys. mset ys = mset ''abc''}" by simp
  ultimately show ?thesis using permutations_exact [of "''abc''"] by blast
qed

text \<open>\<open>is_rotated\<close> decides rotation: it raises only on two empty sequences, and otherwise answers
  whether the second sequence is some rotation of the first.\<close>

theorem is_rotated_decides:
  "is_rotated s1 s2 = (if s1 = [] \<and> s2 = [] then Inl IndexError else Inr (\<exists>n. s2 = rotate n s1))"
proof (cases "length s1 = length s2")
  case False
  then show ?thesis by (auto simp: is_rotated_def)
next
  case True
  show ?thesis
  proof (cases s2)
    case Nil
    with True show ?thesis by (simp add: is_rotated_def)
  next
    case (Cons h t)
    then have "py_nth s2 0 = Inr (s2 ! 0)" by simp
    with True Cons start_indexes_spec [OF True] show ?thesis
      by (simp add: is_rotated_def Let_def)
  qed
qed

text \<open>\<open>find_common_fixes\<close> returns the longest common prefix and the longest common suffix.\<close>

theorem find_common_fixes_longest:
  "\<exists>p q. find_common_fixes s1 s2 = (p, q)
     \<and> (\<forall>r. prefix r s1 \<and> prefix r s2 \<longleftrightarrow> prefix r p) \<and> (\<forall>r. suffix r s1 \<and> suffix r s2 \<longleftrightarrow> suffix r q)"
proof -
  have "prefix r xs \<and> prefix r ys \<longleftrightarrow> prefix r (longest_common_prefix xs ys)" for r and xs ys :: "'a list"
    using longest_common_prefix_max_prefix [of r xs ys] longest_common_prefix_prefix1 [of xs ys]
      longest_common_prefix_prefix2 [of xs ys] by (meson prefix_order.trans)
  then show ?thesis by (auto simp: find_common_fixes_lcp suffix_to_prefix)
qed

text \<open>Every path of \<open>uniquify\<close> (ordered or not, hashable items or not) returns the same list: each
  item once, at its first occurrence, in the order of the argument.\<close>

theorem uniquify_paths_agree:
  "uniquify hashable preserve_order seq = uniquify False True seq \<and> distinct (uniquify hashable preserve_order seq)
   \<and> set (uniquify hashable preserve_order seq) = set seq \<and> subseq (uniquify hashable preserve_order seq) seq"
  by (simp add: uniquify_first_occs first_occs_set first_occs_distinct first_occs_subseq)

text \<open>\<open>transpose\<close> is its own inverse on rectangular matrices with at least one row and one column.\<close>

theorem transpose_involutive:
  assumes "m \<noteq> []" and "0 < n" and "\<forall>r \<in> set m. length r = n"
  shows "transpose (transpose m) = m"
proof -
  have t: "transpose m = map (\<lambda>j. map (\<lambda>r. r ! j) m) [0..<n]"
    unfolding transpose_def using assms(1,3) by (rule zip_rows_rect)
  have "transpose (transpose m) = map (\<lambda>i. map (\<lambda>c. c ! i) (transpose m)) [0..<length m]"
    unfolding transpose_def [of "transpose m"] by (rule zip_rows_rect) (use assms t in auto)
  also have "\<dots> = map (\<lambda>i. m ! i) [0..<length m]"
  proof (rule map_cong)
    fix i assume i: "i \<in> set [0..<length m]"
    then have "length (m ! i) = n" using assms(3) by simp
    then show "map (\<lambda>c. c ! i) (transpose m) = m ! i"
      using i by (auto simp: t intro: nth_equalityI)
  qed simp
  also have "\<dots> = m" by (rule map_nth)
  finally show ?thesis .
qed

theorem transpose_involutive_witness:
  "transpose (transpose [[1, 2, 3], [4, 5, 6 :: int]]) = [[1, 2, 3], [4, 5, 6]]"
  by (rule transpose_involutive [of _ 3]) auto

end
