(* ===== verification/Topsort.thy ===== *)
theory Topsort
  imports Rad_Seq
begin

text \<open>
  \<open>bindings/python/topsort.py\<close>: topological sorting of (parent, child) pairs, in a list and by
  levels, and the enumeration of cycles.  A dictionary keeps the order of its insertions here; the
  theorems hold for the algorithms on dictionaries in any order.
\<close>

section \<open>State and errors\<close>

type_synonym 'k counts = "('k, int) dict"
type_synonym 'k succs = "('k, 'k list) dict"

text \<open>\<open>CycleError\<close> carries the items sorted so far (none in the level version), the parent counts and
  the children that are left.\<close>

datatype 'k topsort_error = PyError py_error | CycleError "'k list" "'k counts" "'k succs"

definition add_pair :: "'k counts \<times> 'k succs \<Rightarrow> 'k \<times> 'k \<Rightarrow> 'k counts \<times> 'k succs" where
  "add_pair st e =
     (case (st, e) of ((num_parents, children), (parent, child)) \<Rightarrow>
        let np1 = (if map_of num_parents parent = None then dict_set parent 0 num_parents else num_parents);
            np2 = (if map_of np1 child = None then dict_set child 0 np1 else np1);
            np3 = dict_set child (the (map_of np2 child) + 1) np2
        in (np3, dict_set parent (case map_of children parent of None \<Rightarrow> [child] | Some cs \<Rightarrow> cs @ [child]) children))"

definition build_graph :: "('k \<times> 'k) list \<Rightarrow> 'k counts \<times> 'k succs" where
  "build_graph pairlist = foldl add_pair ([], []) pairlist"

section \<open>topsort\<close>

text \<open>\<open>num_parents[child] -= 1\<close>, and a child without parents left is appended to \<open>answer\<close>.\<close>

definition knock :: "'k counts \<times> 'k list \<Rightarrow> 'k \<Rightarrow> 'k topsort_error + 'k counts \<times> 'k list" where
  "knock st child =
     (case map_of (fst st) child of
        None \<Rightarrow> Inl (PyError KeyError)
      | Some n \<Rightarrow> Inr (dict_set child (n - 1) (fst st), if n - 1 = 0 then snd st @ [child] else snd st))"

lemma length_dict_set: "k \<in> fst ` set d \<Longrightarrow> length (dict_set k v d) = length d"
  by (induction d) auto

lemma knock_length: "knock st c = Inr st' \<Longrightarrow> length (fst st') = length (fst st)"
  by (auto simp: knock_def split: option.splits intro!: length_dict_set dest: map_of_Some_key)

lemma run_knock_length: "run_steps knock st cs = Inr st' \<Longrightarrow> length (fst st') = length (fst st)"
proof (induction cs arbitrary: st)
  case Nil
  then show ?case by simp
next
  case (Cons c cs)
  then show ?case by (auto simp: bind_res_Inr_iff dest!: knock_length)
qed

lemma length_dict_del: "map_of d k = Some v \<Longrightarrow> length (dict_del k d) < length d"
  by (induction d) (auto simp: less_Suc_eq_le length_delete_le AList.delete_eq split: if_splits)

text \<open>\<open>for parent in answer\<close>: \<open>answer\<close> is the part already visited and the part still to come.\<close>

function topsort_loop ::
  "'k list \<Rightarrow> 'k list \<Rightarrow> 'k counts \<Rightarrow> 'k succs \<Rightarrow> 'k topsort_error + 'k list \<times> 'k counts \<times> 'k succs" where
  "topsort_loop visited [] num_parents children = Inr (visited, num_parents, children)"
| "topsort_loop visited (parent # todo) num_parents children =
     (case map_of num_parents parent of
        None \<Rightarrow> Inl (PyError KeyError)
      | Some _ \<Rightarrow>
          (case map_of children parent of
             None \<Rightarrow> topsort_loop (visited @ [parent]) todo (dict_del parent num_parents) children
           | Some cs \<Rightarrow>
               (case run_steps knock (dict_del parent num_parents, []) cs of
                  Inl e \<Rightarrow> Inl e
                | Inr (np, new) \<Rightarrow>
                    topsort_loop (visited @ [parent]) (todo @ new) np (dict_del parent children))))"
  by pat_completeness auto
termination
  by (relation "measure (\<lambda>(v, t, np, ch). length np)")
    (auto simp: length_dict_del dest!: run_knock_length)

definition topsort :: "('k \<times> 'k) list \<Rightarrow> 'k topsort_error + 'k list" where
  "topsort pairlist =
     (case build_graph pairlist of (num_parents, children) \<Rightarrow>
        let answer = filter (\<lambda>x. map_of num_parents x = Some 0) (dict_keys num_parents)
        in bind_res (topsort_loop [] answer num_parents children) (\<lambda>(answer, np, ch).
             if np \<noteq> [] then Inl (CycleError answer np ch) else Inr answer))"

section \<open>topsort\_levels\<close>

definition level_step :: "'k counts \<times> 'k succs \<Rightarrow> 'k \<Rightarrow> 'k topsort_error + 'k counts \<times> 'k succs" where
  "level_step st level_parent =
     (case map_of (fst st) level_parent of
        None \<Rightarrow> Inl (PyError KeyError)
      | Some _ \<Rightarrow>
          (case map_of (snd st) level_parent of
             None \<Rightarrow> Inr (dict_del level_parent (fst st), snd st)
           | Some cs \<Rightarrow>
               bind_res (run_steps knock (dict_del level_parent (fst st), []) cs) (\<lambda>(np, _).
                 Inr (np, dict_del level_parent (snd st)))))"

lemma level_step_length: "level_step st p = Inr st' \<Longrightarrow> length (fst st') < length (fst st)"
  by (auto simp: level_step_def bind_res_Inr_iff length_dict_del split: option.splits dest!: run_knock_length)

lemma level_steps_length: "run_steps level_step st ps = Inr st' \<Longrightarrow> length (fst st') + length ps \<le> length (fst st)"
proof (induction ps arbitrary: st)
  case Nil
  then show ?case by simp
next
  case (Cons p ps)
  then obtain st1 where "level_step st p = Inr st1" "run_steps level_step st1 ps = Inr st'"
    by (auto simp: bind_res_Inr_iff)
  with Cons.IH [of st1] show ?case by (auto dest!: level_step_length)
qed

text \<open>The generator: the levels it yields and the exception that ends it, if one does.\<close>

function topsort_levels_core :: "'k counts \<Rightarrow> 'k succs \<Rightarrow> 'k list list \<times> 'k topsort_error option" where
  "topsort_levels_core num_parents children =
     (let level_parents = filter (\<lambda>x. map_of num_parents x = Some 0) (dict_keys num_parents)
      in if level_parents = [] then
           ([], if num_parents \<noteq> [] then Some (CycleError [] num_parents children) else None)
         else
           (case run_steps level_step (num_parents, children) level_parents of
              Inl e \<Rightarrow> ([level_parents], Some e)
            | Inr (np, ch) \<Rightarrow>
                (case topsort_levels_core np ch of (ls, e) \<Rightarrow> (level_parents # ls, e))))"
  by pat_completeness auto
termination
proof (relation "measure (\<lambda>(np, ch). length np)", goal_cases)
  case 1
  then show ?case by simp
next
  case (2 num_parents children level_parents st np ch)
  then have "length np + length level_parents \<le> length num_parents"
    using level_steps_length [of "(num_parents, children)" level_parents st]
    by (cases st) simp
  moreover have "0 < length level_parents" using 2(2) by (simp only: length_greater_0_conv not_False_eq_True)
  ultimately show ?case by (simp only: in_measure prod.case)
qed

declare topsort_levels_core.simps [simp del]

definition topsort_levels :: "('k \<times> 'k) list \<Rightarrow> 'k list list \<times> 'k topsort_error option" where
  "topsort_levels pairlist = (case build_graph pairlist of (np, ch) \<Rightarrow> topsort_levels_core np ch)"

section \<open>What the dictionaries count\<close>

definition nodes :: "('k \<times> 'k) list \<Rightarrow> 'k set" where
  "nodes pairs = fst ` set pairs \<union> snd ` set pairs"

definition kids :: "('k \<times> 'k) list \<Rightarrow> 'k \<Rightarrow> 'k list" where
  "kids pairs p = map snd (filter (\<lambda>e. fst e = p) pairs)"

text \<open>The pairs that make \<open>x\<close> wait for a parent outside \<open>D\<close>.\<close>

definition open_pairs :: "('k \<times> 'k) list \<Rightarrow> 'k set \<Rightarrow> 'k \<Rightarrow> nat" where
  "open_pairs pairs D x = length (filter (\<lambda>e. snd e = x \<and> fst e \<notin> D) pairs)"

definition ready :: "('k \<times> 'k) list \<Rightarrow> 'k set \<Rightarrow> 'k set" where
  "ready pairs D = {x \<in> nodes pairs - D. open_pairs pairs D x = 0}"

definition kahn_inv :: "('k \<times> 'k) list \<Rightarrow> 'k set \<Rightarrow> 'k counts \<Rightarrow> 'k succs \<Rightarrow> bool" where
  "kahn_inv pairs D np ch \<longleftrightarrow>
     dict_ok np \<and>
     (\<forall>x. map_of np x = (if x \<in> nodes pairs - D then Some (int (open_pairs pairs D x)) else None)) \<and>
     (\<forall>p. map_of ch p = (if p \<notin> D \<and> kids pairs p \<noteq> [] then Some (kids pairs p) else None)) \<and>
     (\<forall>(a, b) \<in> set pairs. b \<in> D \<longrightarrow> a \<in> D)"

lemma kids_in: "x \<in> set (kids pairs p) \<longleftrightarrow> (p, x) \<in> set pairs"
  by (force simp: kids_def)

lemma open_pairs_0: "open_pairs pairs D x = 0 \<longleftrightarrow> (\<forall>a. (a, x) \<in> set pairs \<longrightarrow> a \<in> D)"
  by (force simp: open_pairs_def filter_empty_conv)

lemma open_pairs_insert:
  "p \<notin> D \<Longrightarrow> open_pairs pairs D x = open_pairs pairs (insert p D) x + count_list (kids pairs p) x"
  by (induction pairs) (auto simp: open_pairs_def kids_def)

lemma build_inv: "kahn_inv pairs {} (fst (build_graph pairs)) (snd (build_graph pairs))"
proof (induction pairs rule: rev_induct)
  case Nil
  then show ?case by (simp add: build_graph_def kahn_inv_def nodes_def kids_def)
next
  case (snoc e pairs)
  obtain a b where e: "e = (a, b)" by (cases e)
  obtain np ch where g: "build_graph pairs = (np, ch)" by (cases "build_graph pairs")
  from snoc g have ok: "dict_ok np"
    and np: "\<And>x. map_of np x = (if x \<in> nodes pairs then Some (int (open_pairs pairs {} x)) else None)"
    and ch: "\<And>p. map_of ch p = (if kids pairs p \<noteq> [] then Some (kids pairs p) else None)"
    by (simp_all add: kahn_inv_def)
  have zero: "open_pairs pairs {} x = 0" if "x \<notin> nodes pairs" for x
    using that by (auto simp: open_pairs_0 nodes_def image_iff)
  have o: "open_pairs (pairs @ [(a, b)]) {} x = open_pairs pairs {} x + (if x = b then 1 else 0)" for x
    by (simp add: open_pairs_def)
  have k: "kids (pairs @ [(a, b)]) p = kids pairs p @ (if p = a then [b] else [])" for p
    by (simp add: kids_def)
  have n: "nodes (pairs @ [(a, b)]) = insert a (insert b (nodes pairs))"
    by (auto simp: nodes_def)
  obtain np' ch' where st: "build_graph (pairs @ [e]) = (np', ch')" "add_pair (np, ch) (a, b) = (np', ch')"
    using g e by (cases "add_pair (np, ch) (a, b)") (simp add: build_graph_def)
  have "dict_ok np'"
    using st(2) ok by (auto simp: add_pair_def Let_def simp del: map_of_dict_set)
  moreover have "map_of np' x = (if x \<in> nodes (pairs @ [(a, b)]) then Some (int (open_pairs (pairs @ [(a, b)]) {} x)) else None)" for x
    using st(2) by (auto simp: add_pair_def Let_def np o n zero split: if_splits)
  moreover have "map_of ch' p = (if kids (pairs @ [(a, b)]) p \<noteq> [] then Some (kids (pairs @ [(a, b)]) p) else None)" for p
    using st(2) by (auto simp: add_pair_def Let_def ch k split: if_splits option.splits)
  ultimately show ?case by (simp add: kahn_inv_def st(1) e [symmetric])
qed

lemma run_knock:
  assumes "\<forall>c \<in> set cs. \<exists>n. map_of np c = Some n \<and> int (count_list cs c) \<le> n" and "dict_ok np"
  shows "\<exists>np' new. run_steps knock (np, acc) cs = Inr (np', acc @ new) \<and> dict_ok np'
    \<and> (\<forall>x. map_of np' x = map_option (\<lambda>n. n - int (count_list cs x)) (map_of np x))
    \<and> distinct new \<and> set new = {x \<in> set cs. map_of np x = Some (int (count_list cs x))}"
  using assms
proof (induction cs arbitrary: np acc)
  case Nil
  then show ?case by (simp add: option.map_ident)
next
  case (Cons c cs)
  from Cons.prems(1) obtain n where n: "map_of np c = Some n" "1 + int (count_list cs c) \<le> n" by auto
  let ?np = "dict_set c (n - 1) np"
  let ?acc = "if n - 1 = 0 then acc @ [c] else acc"
  have "\<exists>np' new. run_steps knock (?np, ?acc) cs = Inr (np', ?acc @ new) \<and> dict_ok np'
    \<and> (\<forall>x. map_of np' x = map_option (\<lambda>n. n - int (count_list cs x)) (map_of ?np x))
    \<and> distinct new \<and> set new = {x \<in> set cs. map_of ?np x = Some (int (count_list cs x))}"
  proof (rule Cons.IH)
    show "\<forall>d \<in> set cs. \<exists>m. map_of ?np d = Some m \<and> int (count_list cs d) \<le> m"
    proof
      fix d assume "d \<in> set cs"
      with Cons.prems(1) obtain m where "map_of np d = Some m" "int (count_list (c # cs) d) \<le> m" by auto
      with n show "\<exists>m. map_of ?np d = Some m \<and> int (count_list cs d) \<le> m" by (cases "d = c") auto
    qed
    show "dict_ok ?np" using Cons.prems(2) by simp
  qed
  then obtain np' new where r: "run_steps knock (?np, ?acc) cs = Inr (np', ?acc @ new)" "dict_ok np'"
    "\<forall>x. map_of np' x = map_option (\<lambda>n. n - int (count_list cs x)) (map_of ?np x)"
    "distinct new" "set new = {x \<in> set cs. map_of ?np x = Some (int (count_list cs x))}" by blast
  have run: "run_steps knock (np, acc) (c # cs) = Inr (np', ?acc @ new)"
    using r(1) n(1) by (simp only: run_steps.simps knock_def fst_conv snd_conv option.case bind_res_simps)
  have val: "\<forall>x. map_of np' x = map_option (\<lambda>n. n - int (count_list (c # cs) x)) (map_of np x)"
    using r(3) n(1) by auto
  show ?case
  proof (cases "n - 1 = 0")
    case True
    then have "c \<notin> set cs" using n(2) count_list_0_iff [of cs c] by simp
    then have c0: "count_list cs c = 0" by (simp add: count_list_0_iff)
    have "set (c # new) = {x \<in> set (c # cs). map_of np x = Some (int (count_list (c # cs) x))}"
      using r(5) n True c0 \<open>c \<notin> set cs\<close> by auto
    moreover have "distinct (c # new)" using r(4,5) \<open>c \<notin> set cs\<close> by auto
    ultimately show ?thesis using run val r(2) True by (intro exI [of _ np'] exI [of _ "c # new"]) simp
  next
    case False
    have c: "c \<in> set cs" if "n = 1 + int (count_list cs c)"
      using that False count_list_0_iff [of cs c] by auto
    have "x \<in> set new \<longleftrightarrow> x \<in> set (c # cs) \<and> map_of np x = Some (int (count_list (c # cs) x))" for x
    proof (cases "x = c")
      case True
      have "c \<in> set new \<longleftrightarrow> c \<in> set cs \<and> n - 1 = int (count_list cs c)" unfolding r(5) by simp
      also have "\<dots> \<longleftrightarrow> n = int (count_list (c # cs) c)" using c by auto
      finally show ?thesis using True n(1) by simp
    next
      case False
      then show ?thesis unfolding r(5) by simp
    qed
    then have "set new = {x \<in> set (c # cs). map_of np x = Some (int (count_list (c # cs) x))}" by blast
    moreover have "run_steps knock (np, acc) (c # cs) = Inr (np', acc @ new)" using run False by simp
    ultimately show ?thesis using val r(2,4) by blast
  qed
qed

text \<open>Visiting an item that is ready.\<close>

lemma visit_ready:
  assumes inv: "kahn_inv pairs D np ch" and p: "p \<in> ready pairs D"
  shows "\<exists>np' new. run_steps knock (dict_del p np, []) (kids pairs p) = Inr (np', new)
    \<and> kahn_inv pairs (insert p D) np' (dict_del p ch) \<and> distinct new \<and> p \<notin> set new
    \<and> set new \<inter> ready pairs D = {} \<and> ready pairs (insert p D) = (ready pairs D - {p}) \<union> set new"
proof -
  have pD: "p \<notin> D" "p \<in> nodes pairs" "open_pairs pairs D p = 0" using p by (auto simp: ready_def)
  have npx: "\<And>x. map_of np x = (if x \<in> nodes pairs - D then Some (int (open_pairs pairs D x)) else None)"
    and chx: "\<And>q. map_of ch q = (if q \<notin> D \<and> kids pairs q \<noteq> [] then Some (kids pairs q) else None)"
    and closed: "\<And>a b. (a, b) \<in> set pairs \<Longrightarrow> b \<in> D \<Longrightarrow> a \<in> D" and ok: "dict_ok np"
    using inv by (auto simp: kahn_inv_def)
  have split: "open_pairs pairs D x = open_pairs pairs (insert p D) x + count_list (kids pairs p) x" for x
    by (rule open_pairs_insert [OF pD(1)])
  have nop: "p \<notin> set (kids pairs p)" using pD by (auto simp: kids_in open_pairs_0)
  have kid: "x \<in> nodes pairs - D \<and> x \<noteq> p" if "x \<in> set (kids pairs p)" for x
    using that closed [of p x] pD nop by (force simp: kids_in nodes_def)
  have "\<exists>np' new. run_steps knock (dict_del p np, []) (kids pairs p) = Inr (np', [] @ new) \<and> dict_ok np'
    \<and> (\<forall>x. map_of np' x = map_option (\<lambda>n. n - int (count_list (kids pairs p) x)) (map_of (dict_del p np) x))
    \<and> distinct new \<and> set new = {x \<in> set (kids pairs p). map_of (dict_del p np) x = Some (int (count_list (kids pairs p) x))}"
  proof (rule run_knock)
    show "\<forall>c \<in> set (kids pairs p). \<exists>n. map_of (dict_del p np) c = Some n \<and> int (count_list (kids pairs p) c) \<le> n"
      using kid split by (auto simp: npx)
    show "dict_ok (dict_del p np)" using ok by simp
  qed
  then obtain np' new where r: "run_steps knock (dict_del p np, []) (kids pairs p) = Inr (np', new)" "dict_ok np'"
    "\<And>x. map_of np' x = map_option (\<lambda>n. n - int (count_list (kids pairs p) x)) (map_of (dict_del p np) x)"
    "distinct new" "set new = {x \<in> set (kids pairs p). map_of (dict_del p np) x = Some (int (count_list (kids pairs p) x))}"
    by auto
  have new: "x \<in> set new \<longleftrightarrow> x \<in> set (kids pairs p) \<and> open_pairs pairs (insert p D) x = 0" for x
    using kid [of x] split [of x] by (auto simp: r(5) npx)
  have "map_of np' x = (if x \<in> nodes pairs - insert p D then Some (int (open_pairs pairs (insert p D) x)) else None)" for x
    using split [of x] by (auto simp: r(3) npx)
  moreover have "map_of (dict_del p ch) q = (if q \<notin> insert p D \<and> kids pairs q \<noteq> [] then Some (kids pairs q) else None)" for q
    by (auto simp: chx)
  moreover have "\<forall>(a, b) \<in> set pairs. b \<in> insert p D \<longrightarrow> a \<in> insert p D"
    using closed pD(3) by (auto simp: open_pairs_0)
  ultimately have inv': "kahn_inv pairs (insert p D) np' (dict_del p ch)"
    using r(2) unfolding kahn_inv_def by blast
  have pos: "0 < open_pairs pairs D x" if "x \<in> set (kids pairs p)" for x
    using that split [of x] count_list_0_iff [of "kids pairs p" x] by auto
  have disj: "set new \<inter> ready pairs D = {}" using new pos by (fastforce simp: ready_def)
  have "ready pairs (insert p D) = (ready pairs D - {p}) \<union> set new"
  proof (intro equalityI subsetI)
    fix x assume x: "x \<in> ready pairs (insert p D)"
    show "x \<in> (ready pairs D - {p}) \<union> set new"
    proof (cases "x \<in> set (kids pairs p)")
      case True
      with x new show ?thesis by (auto simp: ready_def)
    next
      case False
      then have "count_list (kids pairs p) x = 0" by (simp add: count_list_0_iff)
      with x split [of x] show ?thesis by (auto simp: ready_def)
    qed
  next
    fix x assume "x \<in> (ready pairs D - {p}) \<union> set new"
    then show "x \<in> ready pairs (insert p D)"
      using split [of x] kid [of x] new [of x] by (auto simp: ready_def)
  qed
  with r(1,4) inv' disj new nop show ?thesis by (intro exI [of _ np'] exI [of _ new]) blast
qed

lemma visit_no_kids:
  assumes "kahn_inv pairs D np ch" and "p \<in> ready pairs D" and "map_of ch p = None"
  shows "kahn_inv pairs (insert p D) (dict_del p np) ch \<and> ready pairs (insert p D) = ready pairs D - {p}"
proof -
  have k: "kids pairs p = []" using assms by (auto simp: kahn_inv_def ready_def split: if_splits)
  have d: "map_of (dict_del p ch) = map_of ch" using assms(3) by (auto simp: fun_eq_iff)
  from visit_ready [OF assms(1,2)] k obtain np' new where
    "run_steps knock (dict_del p np, []) [] = Inr (np', new)" "kahn_inv pairs (insert p D) np' (dict_del p ch)"
    "ready pairs (insert p D) = (ready pairs D - {p}) \<union> set new" by metis
  then show ?thesis unfolding kahn_inv_def d by simp
qed

lemma visit_kids:
  assumes "kahn_inv pairs D np ch" and "p \<in> ready pairs D" and "map_of ch p = Some cs"
  shows "cs = kids pairs p"
  using assms by (auto simp: kahn_inv_def split: if_splits)

lemma ready_in_np: "kahn_inv pairs D np ch \<Longrightarrow> x \<in> ready pairs D \<longleftrightarrow> map_of np x = Some 0"
  by (auto simp: kahn_inv_def ready_def)

lemma np_keys: "kahn_inv pairs D np ch \<Longrightarrow> fst ` set np = nodes pairs - D"
  by (auto simp: kahn_inv_def dom_map_of_conv_image_fst [symmetric] dom_def split: if_splits)

lemma ready_list:
  assumes "kahn_inv pairs D np ch"
  shows "set (filter (\<lambda>x. map_of np x = Some 0) (dict_keys np)) = ready pairs D"
    and "distinct (filter (\<lambda>x. map_of np x = Some 0) (dict_keys np))"
proof -
  have "set (filter (\<lambda>x. map_of np x = Some 0) (dict_keys np)) = {x. map_of np x = Some 0}"
    by (auto dest: map_of_Some_key)
  then show "set (filter (\<lambda>x. map_of np x = Some 0) (dict_keys np)) = ready pairs D"
    using ready_in_np [OF assms] by blast
  show "distinct (filter (\<lambda>x. map_of np x = Some 0) (dict_keys np))"
    using assms by (simp add: kahn_inv_def dict_ok_def)
qed

section \<open>The sorted list\<close>

text \<open>Every item comes after all of its parents.\<close>

definition ordered :: "('k \<times> 'k) list \<Rightarrow> 'k list \<Rightarrow> bool" where
  "ordered pairs xs \<longleftrightarrow> (\<forall>i < length xs. \<forall>a. (a, xs ! i) \<in> set pairs \<longrightarrow> a \<in> set (take i xs))"

lemma ordered_snoc:
  assumes "ordered pairs xs" and "p \<in> ready pairs (set xs)"
  shows "ordered pairs (xs @ [p])"
  using assms by (auto simp: ordered_def ready_def open_pairs_0 nth_append less_Suc_eq)

lemma topsort_loop_run:
  assumes "kahn_inv pairs (set visited) np ch" and "distinct visited" and "ordered pairs visited"
    and "distinct todo" and "set todo = ready pairs (set visited)" and "set visited \<subseteq> nodes pairs"
  shows "\<exists>v np' ch'. topsort_loop visited todo np ch = Inr (v, np', ch') \<and> kahn_inv pairs (set v) np' ch'
    \<and> distinct v \<and> ordered pairs v \<and> ready pairs (set v) = {} \<and> set v \<subseteq> nodes pairs"
  using assms
proof (induction visited todo np ch rule: topsort_loop.induct)
  case (1 visited np ch)
  then show ?case by simp
next
  case (2 visited p todo np ch)
  have p: "p \<in> ready pairs (set visited)" using "2.prems"(5) by (metis list.set_intros(1))
  then have np: "map_of np p = Some 0" using ready_in_np [OF "2.prems"(1)] by simp
  have pn: "p \<notin> set visited" "p \<in> nodes pairs" using p by (auto simp: ready_def)
  have rest: "set todo = ready pairs (set visited) - {p}" using "2.prems"(4,5) by auto
  have v: "distinct (visited @ [p])" "ordered pairs (visited @ [p])" "set (visited @ [p]) \<subseteq> nodes pairs"
    using "2.prems"(2,3,6) pn ordered_snoc [OF _ p] by auto
  have ins: "insert p (set visited) = set (visited @ [p])" by simp
  show ?case
  proof (cases "map_of ch p")
    case None
    from visit_no_kids [OF "2.prems"(1) p None]
    have "kahn_inv pairs (set (visited @ [p])) (dict_del p np) ch" "set todo = ready pairs (set (visited @ [p]))"
      unfolding rest ins by simp_all
    from "2.IH"(1) [OF np None this(1) v(1,2) _ this(2) v(3)] "2.prems"(4) np None show ?thesis by simp
  next
    case (Some cs)
    from visit_kids [OF "2.prems"(1) p Some] have cs: "cs = kids pairs p" .
    from visit_ready [OF "2.prems"(1) p] obtain np' new where
      r: "run_steps knock (dict_del p np, []) cs = Inr (np', new)"
      and inv: "kahn_inv pairs (set (visited @ [p])) np' (dict_del p ch)" and d: "distinct new"
      and disj: "set new \<inter> ready pairs (set visited) = {}"
      and nxt: "ready pairs (set (visited @ [p])) = (ready pairs (set visited) - {p}) \<union> set new"
      unfolding cs ins by blast
    have todo: "set (todo @ new) = ready pairs (set (visited @ [p]))" "distinct (todo @ new)"
      using nxt rest d disj "2.prems"(4) by auto
    from "2.IH"(2) [OF np Some r refl inv v(1,2) todo(2,1) v(3)] np Some r show ?thesis by simp
  qed
qed

lemma stuck_cyclic:
  assumes "ready pairs D = {}" and "nodes pairs - D \<noteq> {}"
  shows "\<forall>x \<in> nodes pairs - D. \<exists>a \<in> nodes pairs - D. (a, x) \<in> set pairs" and "\<not> acyclic (set pairs)"
proof -
  show w: "\<forall>x \<in> nodes pairs - D. \<exists>a \<in> nodes pairs - D. (a, x) \<in> set pairs"
  proof
    fix x assume "x \<in> nodes pairs - D"
    with assms(1) obtain a where "(a, x) \<in> set pairs" "a \<notin> D" by (auto simp: ready_def open_pairs_0)
    moreover from this have "a \<in> nodes pairs" by (force simp: nodes_def)
    ultimately show "\<exists>a \<in> nodes pairs - D. (a, x) \<in> set pairs" by blast
  qed
  show "\<not> acyclic (set pairs)"
  proof
    assume "acyclic (set pairs)"
    then have "wf (set pairs)" by (intro finite_acyclic_wf) simp
    with assms(2) obtain z where "z \<in> nodes pairs - D" "\<forall>y. (y, z) \<in> set pairs \<longrightarrow> y \<notin> nodes pairs - D"
      unfolding wf_eq_minimal by (metis all_not_in_conv)
    with w show False by blast
  qed
qed

lemma ranked_acyclic:
  assumes "\<And>a b. (a, b) \<in> set pairs \<Longrightarrow> (f a :: nat) < f b"
  shows "acyclic (set pairs)"
proof (rule wf_acyclic)
  have "set pairs \<subseteq> measure f" using assms by auto
  then show "wf (set pairs)" by (rule wf_subset [OF wf_measure])
qed

lemma first_pos:
  "x \<in> set xs \<Longrightarrow> length (takeWhile (\<lambda>y. y \<noteq> x) xs) < length xs \<and> xs ! length (takeWhile (\<lambda>y. y \<noteq> x) xs) = x"
  by (induction xs) auto

lemma ordered_acyclic:
  assumes "ordered pairs xs" and "distinct xs" and "set xs = nodes pairs"
  shows "acyclic (set pairs)"
proof (rule ranked_acyclic)
  let ?f = "\<lambda>x. length (takeWhile (\<lambda>y. y \<noteq> x) xs)"
  fix a b assume ab: "(a, b) \<in> set pairs"
  then have "b \<in> set xs" using assms(3) by (force simp: nodes_def)
  then have b: "?f b < length xs" "xs ! ?f b = b" using first_pos [of b xs] by simp_all
  with assms(1) ab have "a \<in> set (take (?f b) xs)" by (auto simp: ordered_def)
  then obtain i where i: "i < ?f b" "xs ! i = a" by (auto simp: in_set_conv_nth)
  have "?f a \<le> i"
  proof (rule ccontr)
    assume "\<not> ?f a \<le> i"
    then have "takeWhile (\<lambda>y. y \<noteq> a) xs ! i \<in> set (takeWhile (\<lambda>y. y \<noteq> a) xs)" by simp
    moreover have "takeWhile (\<lambda>y. y \<noteq> a) xs ! i = a"
      using i(2) \<open>\<not> ?f a \<le> i\<close> by (simp add: takeWhile_nth)
    ultimately show False by (auto dest: set_takeWhileD)
  qed
  with i(1) show "?f a < ?f b" by simp
qed

lemma topsort_cases:
  "(\<exists>ans. topsort pairs = Inr ans \<and> distinct ans \<and> set ans = nodes pairs \<and> ordered pairs ans \<and> acyclic (set pairs)) \<or>
   (\<exists>ans np ch. topsort pairs = Inl (CycleError ans np ch) \<and> np \<noteq> [] \<and> \<not> acyclic (set pairs) \<and>
      (\<forall>x \<in> fst ` set np. \<exists>a \<in> fst ` set np. (a, x) \<in> set pairs))"
proof -
  obtain np ch where g: "build_graph pairs = (np, ch)" by (cases "build_graph pairs")
  have inv: "kahn_inv pairs (set []) np ch" using build_inv [of pairs] g by simp
  let ?todo = "filter (\<lambda>x. map_of np x = Some 0) (dict_keys np)"
  have "ordered pairs []" by (simp add: ordered_def)
  from topsort_loop_run [OF inv _ this ready_list(2) [OF inv] ready_list(1) [OF inv]]
  obtain v np' ch' where r: "topsort_loop [] ?todo np ch = Inr (v, np', ch')"
    and inv': "kahn_inv pairs (set v) np' ch'" and v: "distinct v" "ordered pairs v" "set v \<subseteq> nodes pairs"
    and stop: "ready pairs (set v) = {}" by auto
  have keys: "fst ` set np' = nodes pairs - set v" by (rule np_keys [OF inv'])
  have t: "topsort pairs = (if np' \<noteq> [] then Inl (CycleError v np' ch') else Inr v)"
    by (simp add: topsort_def g r Let_def)
  show ?thesis
  proof (cases "np' = []")
    case True
    with keys v(3) have "set v = nodes pairs" by auto
    with True t v ordered_acyclic show ?thesis by auto
  next
    case False
    then have "nodes pairs - set v \<noteq> {}" using keys by (cases np') auto
    from stuck_cyclic [OF stop this] have "\<not> acyclic (set pairs)"
      "\<forall>x \<in> fst ` set np'. \<exists>a \<in> fst ` set np'. (a, x) \<in> set pairs" unfolding keys by blast+
    moreover have "topsort pairs = Inl (CycleError v np' ch')" using t False by simp
    ultimately show ?thesis using False by blast
  qed
qed

section \<open>The levels\<close>

lemma level_step_run:
  assumes "kahn_inv pairs D np ch" and "p \<in> ready pairs D"
  shows "\<exists>np' ch'. level_step (np, ch) p = Inr (np', ch') \<and> kahn_inv pairs (insert p D) np' ch'
    \<and> ready pairs D - {p} \<subseteq> ready pairs (insert p D)"
proof -
  have np: "map_of np p = Some 0" using ready_in_np [OF assms(1)] assms(2) by simp
  show ?thesis
  proof (cases "map_of ch p")
    case None
    with visit_no_kids [OF assms None] np show ?thesis by (simp add: level_step_def)
  next
    case (Some cs)
    from visit_kids [OF assms Some] visit_ready [OF assms] obtain np' new where
      "run_steps knock (dict_del p np, []) cs = Inr (np', new)" "kahn_inv pairs (insert p D) np' (dict_del p ch)"
      "ready pairs (insert p D) = (ready pairs D - {p}) \<union> set new" by blast
    with np Some show ?thesis by (simp add: level_step_def)
  qed
qed

lemma level_steps_run:
  assumes "kahn_inv pairs D np ch" and "distinct ps" and "set ps \<subseteq> ready pairs D"
  shows "\<exists>np' ch'. run_steps level_step (np, ch) ps = Inr (np', ch') \<and> kahn_inv pairs (D \<union> set ps) np' ch'"
  using assms
proof (induction ps arbitrary: D np ch)
  case Nil
  then show ?case by simp
next
  case (Cons p ps)
  from level_step_run [OF Cons.prems(1), of p] Cons.prems(3) obtain np1 ch1 where
    s: "level_step (np, ch) p = Inr (np1, ch1)" "kahn_inv pairs (insert p D) np1 ch1"
    "ready pairs D - {p} \<subseteq> ready pairs (insert p D)" by auto
  have "set ps \<subseteq> ready pairs (insert p D)" using s(3) Cons.prems(2,3) by auto
  with Cons.IH [OF s(2)] Cons.prems(2) obtain np' ch' where
    r: "run_steps level_step (np1, ch1) ps = Inr (np', ch')" "kahn_inv pairs (insert p D \<union> set ps) np' ch'" by auto
  have "insert p D \<union> set ps = D \<union> set (p # ps)" by auto
  with r s(1) show ?case by auto
qed

text \<open>The levels are the items that wait for nothing outside \<open>D\<close>, then those that wait only for these, ...\<close>

fun levels_ok :: "('k \<times> 'k) list \<Rightarrow> 'k set \<Rightarrow> 'k list list \<Rightarrow> bool" where
  "levels_ok pairs D [] \<longleftrightarrow> ready pairs D = {}"
| "levels_ok pairs D (l # ls) \<longleftrightarrow>
     l \<noteq> [] \<and> distinct l \<and> set l = ready pairs D \<and> levels_ok pairs (D \<union> ready pairs D) ls"

lemma levels_core_run:
  "kahn_inv pairs D np ch \<Longrightarrow> \<exists>ls e. topsort_levels_core np ch = (ls, e) \<and> levels_ok pairs D ls \<and>
     (case e of None \<Rightarrow> nodes pairs \<subseteq> D \<union> set (concat ls)
      | Some err \<Rightarrow> \<not> nodes pairs \<subseteq> D \<union> set (concat ls) \<and> (\<exists>np ch. err = CycleError [] np ch))"
proof (induction np ch arbitrary: D rule: topsort_levels_core.induct)
  case (1 np ch)
  define l where "l = filter (\<lambda>x. map_of np x = Some 0) (dict_keys np)"
  have l: "set l = ready pairs D" "distinct l" unfolding l_def by (rule ready_list [OF "1.prems"])+
  show ?case
  proof (cases "l = []")
    case True
    then have "topsort_levels_core np ch = ([], if np \<noteq> [] then Some (CycleError [] np ch) else None)"
      unfolding topsort_levels_core.simps [of np ch] Let_def l_def [symmetric] by simp
    moreover have "ready pairs D = {}" using l(1) True by simp
    moreover have "np = [] \<longleftrightarrow> nodes pairs \<subseteq> D" using np_keys [OF "1.prems"] by (cases np) auto
    ultimately show ?thesis by simp
  next
    case False
    from level_steps_run [OF "1.prems" l(2)] l(1) obtain np' ch' where
      r: "run_steps level_step (np, ch) l = Inr (np', ch')" "kahn_inv pairs (D \<union> set l) np' ch'" by blast
    from "1.IH" [OF l_def False r(1) refl r(2)] obtain ls e where
      ls: "topsort_levels_core np' ch' = (ls, e)" "levels_ok pairs (D \<union> set l) ls"
      "case e of None \<Rightarrow> nodes pairs \<subseteq> (D \<union> set l) \<union> set (concat ls)
       | Some err \<Rightarrow> \<not> nodes pairs \<subseteq> (D \<union> set l) \<union> set (concat ls) \<and> (\<exists>np ch. err = CycleError [] np ch)" by blast
    have "topsort_levels_core np ch = (l # ls, e)"
      unfolding topsort_levels_core.simps [of np ch] Let_def l_def [symmetric] using False r(1) ls(1) by simp
    moreover have "levels_ok pairs D (l # ls)" using ls(2) l False by simp
    moreover have eq: "D \<union> set (concat (l # ls)) = (D \<union> set l) \<union> set (concat ls)" by (simp add: Un_assoc)
    have "case e of None \<Rightarrow> nodes pairs \<subseteq> D \<union> set (concat (l # ls))
       | Some err \<Rightarrow> \<not> nodes pairs \<subseteq> D \<union> set (concat (l # ls)) \<and> (\<exists>np ch. err = CycleError [] np ch)"
      unfolding eq by (rule ls(3))
    ultimately show ?thesis by blast
  qed
qed

text \<open>What \<^const>\<open>levels_ok\<close> says level by level.\<close>

lemma levels_ok_nodes: "levels_ok pairs D ls \<Longrightarrow> set (concat ls) \<subseteq> nodes pairs - D"
proof (induction ls arbitrary: D)
  case (Cons l ls)
  then have "set (concat ls) \<subseteq> nodes pairs - (D \<union> ready pairs D)" by simp
  moreover have "set l \<subseteq> nodes pairs - D" using Cons.prems by (auto simp: ready_def)
  ultimately show ?case by auto
qed simp

lemma levels_ok_distinct: "levels_ok pairs D ls \<Longrightarrow> distinct (concat ls)"
proof (induction ls arbitrary: D)
  case (Cons l ls)
  then have "levels_ok pairs (D \<union> ready pairs D) ls" by simp
  moreover from levels_ok_nodes [OF this] have "set l \<inter> set (concat ls) = {}" using Cons.prems by auto
  ultimately show ?case using Cons by simp
qed simp

lemma levels_ok_parents:
  "levels_ok pairs D ls \<Longrightarrow> j < length ls \<Longrightarrow> b \<in> set (ls ! j) \<Longrightarrow> (a, b) \<in> set pairs \<Longrightarrow>
    a \<in> D \<union> (\<Union>i<j. set (ls ! i))"
proof (induction pairs D ls arbitrary: j rule: levels_ok.induct)
  case (2 pairs D l ls)
  show ?case
  proof (cases j)
    case 0
    with 2 show ?thesis by (auto simp: ready_def open_pairs_0)
  next
    case (Suc k)
    have "a \<in> (D \<union> ready pairs D) \<union> (\<Union>i<k. set (ls ! i))"
      by (rule "2.IH") (use "2.prems" Suc in simp_all)
    moreover have "(\<Union>i<j. set ((l # ls) ! i)) = set l \<union> (\<Union>i<k. set (ls ! i))"
      unfolding Suc lessThan_Suc_eq_insert_0 by simp
    moreover have "set l = ready pairs D" using "2.prems" by simp
    ultimately show ?thesis by auto
  qed
qed simp

lemma levels_ok_tight:
  "levels_ok pairs D ls \<Longrightarrow> Suc j < length ls \<Longrightarrow> b \<in> set (ls ! Suc j) \<Longrightarrow> \<exists>a \<in> set (ls ! j). (a, b) \<in> set pairs"
proof (induction pairs D ls arbitrary: j rule: levels_ok.induct)
  case (2 pairs D l ls)
  show ?case
  proof (cases j)
    case 0
    with 2 obtain m ms where ls: "ls = m # ms" "b \<in> set m" by (cases ls) auto
    with 2 have "b \<in> ready pairs (D \<union> ready pairs D)" "b \<notin> ready pairs D" by (auto simp: ready_def)
    moreover have "set l = ready pairs D" using "2.prems" by simp
    ultimately show ?thesis using 0 by (auto simp: ready_def open_pairs_0)
  next
    case (Suc k)
    have "\<exists>a \<in> set (ls ! k). (a, b) \<in> set pairs"
      by (rule "2.IH") (use "2.prems" Suc in simp_all)
    with Suc show ?thesis by simp
  qed
qed simp

lemma levels_ok_stuck: "levels_ok pairs D ls \<Longrightarrow> ready pairs (D \<union> set (concat ls)) = {}"
  by (induction pairs D ls rule: levels_ok.induct) (auto simp: Un_assoc)

lemma levels_acyclic:
  assumes "levels_ok pairs {} ls" and "nodes pairs \<subseteq> set (concat ls)"
  shows "acyclic (set pairs)"
proof (rule ranked_acyclic)
  let ?f = "\<lambda>x. LEAST j. j < length ls \<and> x \<in> set (ls ! j)"
  have ex: "?f x < length ls \<and> x \<in> set (ls ! ?f x)" if "x \<in> nodes pairs" for x
  proof -
    from that assms(2) obtain l where "l \<in> set ls" "x \<in> set l" by auto
    then obtain j where "j < length ls \<and> x \<in> set (ls ! j)" by (metis in_set_conv_nth)
    then show ?thesis by (rule LeastI)
  qed
  fix a b assume ab: "(a, b) \<in> set pairs"
  then have "b \<in> nodes pairs" by (force simp: nodes_def)
  with levels_ok_parents [OF assms(1) _ _ ab] ex obtain i where i: "i < ?f b" "a \<in> set (ls ! i)" by fastforce
  have "i < length ls" using i(1) ex [OF \<open>b \<in> nodes pairs\<close>] by simp
  with i(2) have "?f a \<le> i" by (intro Least_le) simp
  with i(1) show "?f a < ?f b" by simp
qed

section \<open>Properties of the sorts\<close>

text \<open>C14. \<open>topsort\<close> always returns or raises \<open>CycleError\<close>, and it raises exactly when the pairs contain a cycle:
  otherwise its answer holds every item once, each after all of its parents.  The parent counts in
  the exception are a set of items each of which has a parent in that set.\<close>

theorem topsort_correct:
  "case topsort pairs of
     Inr ans \<Rightarrow> acyclic (set pairs) \<and> distinct ans \<and> set ans = nodes pairs \<and>
       (\<forall>i < length ans. \<forall>a. (a, ans ! i) \<in> set pairs \<longrightarrow> a \<in> set (take i ans))
   | Inl e \<Rightarrow> \<not> acyclic (set pairs) \<and>
       (\<exists>ans np ch. e = CycleError ans np ch \<and> np \<noteq> [] \<and>
          (\<forall>x \<in> fst ` set np. \<exists>a \<in> fst ` set np. (a, x) \<in> set pairs))"
  using topsort_cases [of pairs] by (auto simp: ordered_def)

theorem topsort_correct_witness:
  "topsort [(1, 2), (3, 4), (5, 6), (1, 3), (1, 5), (1, 6), (2, 5 :: int)] = Inr [1, 2, 3, 5, 4, 6]
   \<and> acyclic (set [(1, 2), (3, 4), (5, 6), (1, 3), (1, 5), (1, 6), (2, 5 :: int)])"
proof -
  let ?p = "[(1, 2), (3, 4), (5, 6), (1, 3), (1, 5), (1, 6), (2, 5 :: int)]"
  have t: "topsort ?p = Inr [1, 2, 3, 5, 4, 6]" by code_simp
  from topsort_correct [of ?p] have "acyclic (set ?p)" unfolding t by simp
  with t show ?thesis by blast
qed

text \<open>C15. \<open>topsort_levels\<close> yields disjoint levels in which every parent of an item lies in an earlier level
  and every item of a later level has a parent in the level just before it; it ends normally, with
  every item in a level, exactly when there is no cycle, and else with \<open>CycleError\<close>.\<close>

theorem topsort_levels_correct:
  "\<exists>ls e. topsort_levels pairs = (ls, e) \<and> distinct (concat ls) \<and>
     (\<forall>j < length ls. \<forall>b \<in> set (ls ! j). \<forall>a. (a, b) \<in> set pairs \<longrightarrow> (\<exists>i < j. a \<in> set (ls ! i))) \<and>
     (\<forall>j. Suc j < length ls \<longrightarrow> (\<forall>b \<in> set (ls ! Suc j). \<exists>a \<in> set (ls ! j). (a, b) \<in> set pairs)) \<and>
     (if acyclic (set pairs) then e = None \<and> set (concat ls) = nodes pairs
      else (\<exists>np ch. e = Some (CycleError [] np ch)))"
proof -
  obtain np ch where g: "build_graph pairs = (np, ch)" by (cases "build_graph pairs")
  have "kahn_inv pairs {} np ch" using build_inv [of pairs] g by simp
  from levels_core_run [OF this] obtain ls e where r: "topsort_levels_core np ch = (ls, e)"
    and ok: "levels_ok pairs {} ls"
    and e: "case e of None \<Rightarrow> nodes pairs \<subseteq> {} \<union> set (concat ls)
      | Some err \<Rightarrow> \<not> nodes pairs \<subseteq> {} \<union> set (concat ls) \<and> (\<exists>np ch. err = CycleError [] np ch)" by blast
  have run: "topsort_levels pairs = (ls, e)" using g r by (simp add: topsort_levels_def)
  have sub: "set (concat ls) \<subseteq> nodes pairs" using levels_ok_nodes [OF ok] by auto
  have acy: "acyclic (set pairs) \<longleftrightarrow> nodes pairs \<subseteq> set (concat ls)"
    using levels_acyclic [OF ok] stuck_cyclic(2) [OF levels_ok_stuck [OF ok]] by auto
  have last: "if acyclic (set pairs) then e = None \<and> set (concat ls) = nodes pairs
      else (\<exists>np ch. e = Some (CycleError [] np ch))"
    using e sub unfolding acy by (cases e) auto
  have early: "\<exists>i < j. a \<in> set (ls ! i)" if "j < length ls" "b \<in> set (ls ! j)" "(a, b) \<in> set pairs" for j a b
    using levels_ok_parents [OF ok that] by auto
  from run levels_ok_distinct [OF ok] early levels_ok_tight [OF ok] last show ?thesis by blast
qed

theorem topsort_levels_correct_witness:
  "topsort_levels [(1, 2), (1, 3), (2, 4), (3, 4), (5, 6), (4, 5 :: int)] = ([[1], [2, 3], [4], [5], [6]], None)
   \<and> distinct (concat [[1], [2, 3], [4], [5], [6 :: int]])"
proof -
  let ?p = "[(1, 2), (1, 3), (2, 4), (3, 4), (5, 6), (4, 5 :: int)]"
  have t: "topsort_levels ?p = ([[1], [2, 3], [4], [5], [6]], None)" by code_simp
  with topsort_levels_correct [of ?p] show ?thesis by auto
qed

end
