(* ===== verification/Find_Cycles.thy ===== *)
theory Find_Cycles
  imports Rad_Seq
begin

text \<open>
  \<open>find_cycles\<close> of \<open>bindings/python/topsort.py\<close>: the search over a stack of paths that yields every
  cycle of a graph given as a dictionary from parents to children, up to rotation.
\<close>

section \<open>The search\<close>

text \<open>One child of the popped path: a cycle that is not a rotation of one already found is yielded,
  a new node is pushed with its path.\<close>

record 'k search =
  cycles :: "'k list list"
  visited_nodes :: "'k set"
  paths :: "'k list list"

fun is_dup :: "'k list list \<Rightarrow> 'k list \<Rightarrow> bool res" where
  "is_dup [] cycle = Inr False"
| "is_dup (other # others) cycle =
     bind_res (is_rotated other cycle) (\<lambda>b. if b then Inr True else is_dup others cycle)"

definition visit_child :: "'k list \<Rightarrow> 'k search \<Rightarrow> 'k \<Rightarrow> 'k search res" where
  "visit_child path s child =
     (if child \<in> set path then
        (let cycle = dropWhile (\<lambda>x. x \<noteq> child) path
         in bind_res (is_dup (cycles s) cycle) (\<lambda>dup.
              Inr (if dup then s else s\<lparr>cycles := cycles s @ [cycle]\<rparr>)))
      else Inr (s\<lparr>paths := (path @ [child]) # paths s, visited_nodes := insert child (visited_nodes s)\<rparr>))"

text \<open>The stack has its top first; \<^const>\<open>None\<close> is a search that never ends.\<close>

partial_function (option) search_loop :: "('k, 'k list) dict \<Rightarrow> 'k search \<Rightarrow> 'k search res option" where
  "search_loop parent_children s =
     (case paths s of
        [] \<Rightarrow> Some (Inr s)
      | path # rest \<Rightarrow>
          (case map_of parent_children (last path) of
             None \<Rightarrow> search_loop parent_children (s\<lparr>paths := rest\<rparr>)
           | Some children \<Rightarrow>
               (case run_steps (visit_child path) (s\<lparr>paths := rest\<rparr>) children of
                  Inl e \<Rightarrow> Some (Inl e)
                | Inr s' \<Rightarrow> search_loop parent_children s')))"

declare search_loop.simps [code]

fun find_cycles_from :: "('k, 'k list) dict \<Rightarrow> 'k list \<Rightarrow> 'k search \<Rightarrow> 'k search res option" where
  "find_cycles_from pc [] s = Some (Inr s)"
| "find_cycles_from pc (parent # ps) s =
     (if parent \<in> visited_nodes s then find_cycles_from pc ps s
      else case search_loop pc (s\<lparr>paths := [[parent]]\<rparr>) of
             None \<Rightarrow> None
           | Some (Inl e) \<Rightarrow> Some (Inl e)
           | Some (Inr s') \<Rightarrow> find_cycles_from pc ps s')"

definition find_cycles :: "('k, 'k list) dict \<Rightarrow> 'k list list res option" where
  "find_cycles parent_children =
     map_option (\<lambda>r. bind_res r (\<lambda>s. Inr (cycles s)))
       (find_cycles_from parent_children (dict_keys parent_children) \<lparr>cycles = [], visited_nodes = {}, paths = []\<rparr>)"

section \<open>Paths and cycles of the graph\<close>

definition edge :: "('k, 'k list) dict \<Rightarrow> 'k \<Rightarrow> 'k \<Rightarrow> bool" where
  "edge pc a b \<longleftrightarrow> (\<exists>cs. map_of pc a = Some cs \<and> b \<in> set cs)"

definition simple_path :: "('k, 'k list) dict \<Rightarrow> 'k list \<Rightarrow> bool" where
  "simple_path pc p \<longleftrightarrow> p \<noteq> [] \<and> distinct p \<and> successively (edge pc) p"

definition simple_cycle :: "('k, 'k list) dict \<Rightarrow> 'k list \<Rightarrow> bool" where
  "simple_cycle pc c \<longleftrightarrow> simple_path pc c \<and> edge pc (last c) (hd c)"

definition rotation :: "'k list \<Rightarrow> 'k list \<Rightarrow> bool" where
  "rotation c d \<longleftrightarrow> (\<exists>n. d = rotate n c)"

definition closing :: "'k list \<Rightarrow> 'k \<Rightarrow> 'k list" where
  "closing path child = dropWhile (\<lambda>x. x \<noteq> child) path"

lemma is_rotated_rotation: "d \<noteq> [] \<Longrightarrow> is_rotated c d = Inr (rotation c d)"
proof (cases "length c = length d")
  case True
  assume "d \<noteq> []"
  then have "py_nth d 0 = Inr (d ! 0)" by (cases d) simp_all
  with True start_indexes_spec [OF True \<open>d \<noteq> []\<close>] show ?thesis
    by (simp add: is_rotated_def rotation_def Let_def)
next
  case False
  assume "d \<noteq> []"
  with False show ?thesis by (auto simp: is_rotated_def rotation_def)
qed

lemma is_dup_rotation: "d \<noteq> [] \<Longrightarrow> is_dup cs d = Inr (\<exists>c \<in> set cs. rotation c d)"
  by (induction cs) (auto simp: is_rotated_rotation)

lemma closing_split:
  assumes "child \<in> set path"
  obtains pre where "path = pre @ closing path child" and "closing path child \<noteq> []" and "hd (closing path child) = child"
proof -
  have "path = takeWhile (\<lambda>x. x \<noteq> child) path @ closing path child"
    by (simp add: closing_def)
  moreover have ne: "closing path child \<noteq> []" using assms by (auto simp: closing_def dropWhile_eq_Nil_conv)
  moreover have "hd (closing path child) = child"
    using ne hd_dropWhile [of "\<lambda>x. x \<noteq> child" path] by (simp add: closing_def)
  ultimately show ?thesis using that by blast
qed

lemma closing_cycle:
  assumes "simple_path pc path" and "edge pc (last path) child" and "child \<in> set path"
  shows "simple_cycle pc (closing path child)"
proof -
  from assms(3) obtain pre where c: "path = pre @ closing path child" "closing path child \<noteq> []"
    "hd (closing path child) = child" by (rule closing_split)
  have "last path = last (closing path child)" using c(1,2) by (metis last_appendR)
  moreover have "distinct (closing path child)" using assms(1) c(1) by (metis simple_path_def distinct_append)
  moreover have "successively (edge pc) (closing path child)"
    using assms(1) c(1) by (metis simple_path_def successively_append_iff)
  ultimately show ?thesis using c(2,3) assms(2) by (simp add: simple_cycle_def simple_path_def)
qed

lemma extend_path:
  "simple_path pc path \<Longrightarrow> edge pc (last path) child \<Longrightarrow> child \<notin> set path \<Longrightarrow> simple_path pc (path @ [child])"
  by (auto simp: simple_path_def successively_append_iff)

section \<open>One popped path\<close>

definition graph_nodes :: "('k, 'k list) dict \<Rightarrow> 'k set" where
  "graph_nodes pc = fst ` set pc \<union> (\<Union>e \<in> set pc. set (snd e))"

definition good_path :: "('k, 'k list) dict \<Rightarrow> 'k list \<Rightarrow> bool" where
  "good_path pc p \<longleftrightarrow> simple_path pc p \<and> set p \<subseteq> graph_nodes pc"

definition search_ok :: "('k, 'k list) dict \<Rightarrow> 'k search \<Rightarrow> bool" where
  "search_ok pc s \<longleftrightarrow> (\<forall>p \<in> set (paths s). good_path pc p) \<and> (\<forall>c \<in> set (cycles s). simple_cycle pc c) \<and>
     sorted_wrt (\<lambda>c d. \<not> rotation c d) (cycles s)"

lemma edge_nodes: "edge pc a b \<Longrightarrow> b \<in> graph_nodes pc"
  by (force simp: edge_def graph_nodes_def dest: map_of_SomeD)

lemma visit_child_ok:
  assumes "search_ok pc s" and "good_path pc path" and "edge pc (last path) child"
  shows "\<exists>s'. visit_child path s child = Inr s' \<and> search_ok pc s' \<and> set (cycles s) \<subseteq> set (cycles s')
    \<and> paths s' = (if child \<in> set path then [] else [path @ [child]]) @ paths s
    \<and> visited_nodes s' = visited_nodes s \<union> ({child} - set path)
    \<and> (child \<in> set path \<longrightarrow> (\<exists>d \<in> set (cycles s'). rotation d (closing path child)))"
proof (cases "child \<in> set path")
  case False
  have "good_path pc (path @ [child])"
    using extend_path [of pc path child] assms False edge_nodes by (auto simp: good_path_def)
  with False assms(1) show ?thesis by (auto simp: visit_child_def search_ok_def)
next
  case True
  let ?c = "closing path child"
  have cyc: "simple_cycle pc ?c" using assms True by (auto simp: good_path_def intro: closing_cycle)
  then have ne: "?c \<noteq> []" by (simp add: simple_cycle_def simple_path_def)
  have v: "visit_child path s child
      = Inr (if \<exists>c \<in> set (cycles s). rotation c ?c then s else s\<lparr>cycles := cycles s @ [?c]\<rparr>)"
    using True is_dup_rotation [OF ne, of "cycles s"]
    by (simp add: visit_child_def closing_def Let_def)
  have "rotation ?c ?c" unfolding rotation_def by (rule exI [of _ 0]) simp
  then show ?thesis using True v assms(1) cyc
    by (auto simp: search_ok_def sorted_wrt_append)
qed

lemma visit_children_ok:
  assumes "search_ok pc s" and "good_path pc path" and "\<forall>c \<in> set cs. edge pc (last path) c"
  shows "\<exists>s'. run_steps (visit_child path) s cs = Inr s' \<and> search_ok pc s' \<and> set (cycles s) \<subseteq> set (cycles s')
    \<and> paths s' = rev (map (\<lambda>c. path @ [c]) (filter (\<lambda>c. c \<notin> set path) cs)) @ paths s
    \<and> visited_nodes s' = visited_nodes s \<union> (set cs - set path)
    \<and> (\<forall>c \<in> set cs \<inter> set path. \<exists>d \<in> set (cycles s'). rotation d (closing path c))"
  using assms
proof (induction cs arbitrary: s)
  case Nil
  then show ?case by simp
next
  case (Cons c cs)
  from visit_child_ok [OF Cons.prems(1,2), of c] Cons.prems(3) obtain s1 where
    s1: "visit_child path s c = Inr s1" "search_ok pc s1" "set (cycles s) \<subseteq> set (cycles s1)"
    "paths s1 = (if c \<in> set path then [] else [path @ [c]]) @ paths s"
    "visited_nodes s1 = visited_nodes s \<union> ({c} - set path)"
    "c \<in> set path \<longrightarrow> (\<exists>d \<in> set (cycles s1). rotation d (closing path c))" by auto
  from Cons.IH [OF s1(2) Cons.prems(2)] Cons.prems(3) obtain s2 where
    s2: "run_steps (visit_child path) s1 cs = Inr s2" "search_ok pc s2" "set (cycles s1) \<subseteq> set (cycles s2)"
    "paths s2 = rev (map (\<lambda>c. path @ [c]) (filter (\<lambda>c. c \<notin> set path) cs)) @ paths s1"
    "visited_nodes s2 = visited_nodes s1 \<union> (set cs - set path)"
    "\<forall>c \<in> set cs \<inter> set path. \<exists>d \<in> set (cycles s2). rotation d (closing path c)" by auto
  have "\<forall>d \<in> set (c # cs) \<inter> set path. \<exists>e \<in> set (cycles s2). rotation e (closing path d)"
    using s1(6) s2(3,6) by auto
  moreover have "visited_nodes s2 = visited_nodes s \<union> (set (c # cs) - set path)" using s1(5) s2(5) by auto
  moreover have "paths s2 = rev (map (\<lambda>c. path @ [c]) (filter (\<lambda>c. c \<notin> set path) (c # cs))) @ paths s"
    using s1(4) s2(4) by simp
  moreover have "run_steps (visit_child path) s (c # cs) = Inr s2" using s1(1) s2(1) by simp
  moreover have "set (cycles s) \<subseteq> set (cycles s2)" using s1(3) s2(3) by blast
  ultimately show ?case using s2(2) by blast
qed

section \<open>The whole stack\<close>

text \<open>A popped path outweighs all paths pushed for it.\<close>

definition fanout :: "('k, 'k list) dict \<Rightarrow> nat" where
  "fanout pc = Suc (sum_list (map (\<lambda>e. length (snd e)) pc))"

definition weight :: "('k, 'k list) dict \<Rightarrow> 'k list list \<Rightarrow> nat" where
  "weight pc ps = sum_list (map (\<lambda>p. fanout pc ^ (card (graph_nodes pc) - length p)) ps)"

lemma finite_graph_nodes: "finite (graph_nodes pc)"
  by (simp add: graph_nodes_def)

lemma fanout_bound: "map_of pc a = Some cs \<Longrightarrow> length cs < fanout pc"
proof -
  assume "map_of pc a = Some cs"
  then have "(a, cs) \<in> set pc" by (rule map_of_SomeD)
  then have "length cs \<in> set (map (\<lambda>e. length (snd e)) pc)" by force
  from member_le_sum_list [OF this] show ?thesis by (simp add: fanout_def)
qed

lemma weight_pushed:
  assumes "good_path pc path" and "map_of pc (last path) = Some cs"
  shows "weight pc (map (\<lambda>c. path @ [c]) (filter (\<lambda>c. c \<notin> set path) cs))
    < fanout pc ^ (card (graph_nodes pc) - length path)"
proof -
  let ?F = "filter (\<lambda>c. c \<notin> set path) cs" and ?n = "card (graph_nodes pc)" and ?k = "length path"
  have pos: "0 < fanout pc" by (simp add: fanout_def)
  have w: "weight pc (map (\<lambda>c. path @ [c]) ?F) = length ?F * fanout pc ^ (?n - Suc ?k)"
    by (simp add: weight_def comp_def sum_list_triv)
  show ?thesis
  proof (cases "?F = []")
    case True
    with pos show ?thesis by (simp add: weight_def)
  next
    case False
    then obtain c where "c \<in> set cs" "c \<notin> set path" by (auto simp: filter_empty_conv)
    then have "edge pc (last path) c" using assms(2) by (auto simp: edge_def)
    then have "insert c (set path) \<subseteq> graph_nodes pc" using assms(1) edge_nodes by (auto simp: good_path_def)
    then have "card (insert c (set path)) \<le> ?n" by (intro card_mono finite_graph_nodes)
    moreover have "card (insert c (set path)) = Suc ?k"
      using assms(1) \<open>c \<notin> set path\<close> by (simp add: good_path_def simple_path_def distinct_card)
    ultimately have k: "?n - ?k = Suc (?n - Suc ?k)" by simp
    have "length ?F < fanout pc" using fanout_bound [OF assms(2)] length_filter_le [of _ cs] by (meson le_less_trans)
    then show ?thesis unfolding w k using pos by simp
  qed
qed

lemma weight_append: "weight pc (ps @ qs) = weight pc ps + weight pc qs"
  by (simp add: weight_def)

lemma weight_rev: "weight pc (rev ps) = weight pc ps"
  by (simp add: weight_def rev_map [symmetric] sum_list_rev)

definition covered :: "('k, 'k list) dict \<Rightarrow> 'k search \<Rightarrow> 'k list \<Rightarrow> bool" where
  "covered pc s q \<longleftrightarrow>
     (\<forall>child \<in> set q. edge pc (last q) child \<longrightarrow> (\<exists>d \<in> set (cycles s). rotation d (closing q child)))"

definition reach :: "('k, 'k list) dict \<Rightarrow> 'k list list \<Rightarrow> 'k set" where
  "reach pc ps = {x. \<exists>p \<in> set ps. (edge pc)\<^sup>*\<^sup>* (last p) x}"

lemma prefix_extend:
  assumes "prefix p q" and "simple_path pc q" and "p \<noteq> []"
  shows "q = p \<or> (\<exists>c. edge pc (last p) c \<and> c \<notin> set p \<and> prefix (p @ [c]) q)"
proof -
  from assms(1) obtain r where q: "q = p @ r" by (auto simp: prefix_def)
  show ?thesis
  proof (cases r)
    case Nil
    with q show ?thesis by simp
  next
    case (Cons c r')
    with q assms(2,3) have "edge pc (last p) c" "c \<notin> set p"
      by (auto simp: simple_path_def successively_append_iff)
    with Cons q show ?thesis by auto
  qed
qed

lemma covered_mono: "covered pc s q \<Longrightarrow> set (cycles s) \<subseteq> set (cycles s') \<Longrightarrow> covered pc s' q"
  unfolding covered_def by blast

text \<open>One turn of the search: the popped path is covered, and what is pushed extends it.\<close>

lemma search_turn:
  assumes ok: "search_ok pc s" and ps: "paths s = path # rest"
  shows "\<exists>s1 new. search_loop pc s = search_loop pc s1 \<and> search_ok pc s1 \<and> set (cycles s) \<subseteq> set (cycles s1)
    \<and> paths s1 = new @ rest \<and> weight pc new < fanout pc ^ (card (graph_nodes pc) - length path)
    \<and> covered pc s1 path \<and> (\<forall>c. edge pc (last path) c \<and> c \<notin> set path \<longrightarrow> path @ [c] \<in> set new)
    \<and> (\<forall>p \<in> set new. \<exists>c. edge pc (last path) c \<and> p = path @ [c])
    \<and> visited_nodes s \<subseteq> visited_nodes s1 \<and> visited_nodes s1 \<subseteq> visited_nodes s \<union> {c. edge pc (last path) c}"
proof (cases "map_of pc (last path)")
  case None
  then have "\<not> edge pc (last path) c" for c by (simp add: edge_def)
  moreover have "search_loop pc s = search_loop pc (s\<lparr>paths := rest\<rparr>)"
    using ps None by (simp add: search_loop.simps [of pc s])
  moreover have "search_ok pc (s\<lparr>paths := rest\<rparr>)" using ok ps by (simp add: search_ok_def)
  ultimately show ?thesis
    by (intro exI [of _ "s\<lparr>paths := rest\<rparr>"] exI [of _ "[]"]) (simp add: covered_def weight_def fanout_def)
next
  case (Some cs)
  have e: "edge pc (last path) c \<longleftrightarrow> c \<in> set cs" for c using Some by (simp add: edge_def)
  have gp: "good_path pc path" and ok': "search_ok pc (s\<lparr>paths := rest\<rparr>)" using ok ps by (simp_all add: search_ok_def)
  from visit_children_ok [OF ok' gp, of cs] e obtain s1 where
    s1: "run_steps (visit_child path) (s\<lparr>paths := rest\<rparr>) cs = Inr s1" "search_ok pc s1" "set (cycles s) \<subseteq> set (cycles s1)"
    "paths s1 = rev (map (\<lambda>c. path @ [c]) (filter (\<lambda>c. c \<notin> set path) cs)) @ rest"
    "visited_nodes s1 = visited_nodes s \<union> (set cs - set path)"
    "\<forall>c \<in> set cs \<inter> set path. \<exists>d \<in> set (cycles s1). rotation d (closing path c)" by auto
  let ?new = "rev (map (\<lambda>c. path @ [c]) (filter (\<lambda>c. c \<notin> set path) cs))"
  have "search_loop pc s = search_loop pc s1" using ps Some s1(1) by (simp add: search_loop.simps [of pc s])
  moreover have "weight pc ?new < fanout pc ^ (card (graph_nodes pc) - length path)"
    unfolding weight_rev by (rule weight_pushed [OF gp Some])
  moreover have "covered pc s1 path" using s1(6) e by (auto simp: covered_def)
  ultimately show ?thesis using s1(2-5) e by (intro exI [of _ s1] exI [of _ ?new]) auto
qed

lemma search_run:
  assumes "search_ok pc s"
  shows "\<exists>s'. search_loop pc s = Some (Inr s') \<and> search_ok pc s' \<and> paths s' = [] \<and> set (cycles s) \<subseteq> set (cycles s')
    \<and> (\<forall>p \<in> set (paths s). \<forall>q. prefix p q \<and> simple_path pc q \<longrightarrow> covered pc s' q)
    \<and> visited_nodes s \<subseteq> visited_nodes s' \<and> visited_nodes s' \<subseteq> visited_nodes s \<union> reach pc (paths s)"
  using assms
proof (induction "weight pc (paths s)" arbitrary: s rule: less_induct)
  case less
  show ?case
  proof (cases "paths s")
    case Nil
    then show ?thesis using less.prems by (simp add: search_loop.simps [of pc s])
  next
    case (Cons path rest)
    from search_turn [OF less.prems Cons] obtain s1 new where
      t: "search_loop pc s = search_loop pc s1" "search_ok pc s1" "set (cycles s) \<subseteq> set (cycles s1)"
      "paths s1 = new @ rest" "weight pc new < fanout pc ^ (card (graph_nodes pc) - length path)"
      "covered pc s1 path" "\<forall>c. edge pc (last path) c \<and> c \<notin> set path \<longrightarrow> path @ [c] \<in> set new"
      "\<forall>p \<in> set new. \<exists>c. edge pc (last path) c \<and> p = path @ [c]"
      "visited_nodes s \<subseteq> visited_nodes s1" "visited_nodes s1 \<subseteq> visited_nodes s \<union> {c. edge pc (last path) c}" by blast
    have "weight pc (paths s1) < weight pc (paths s)"
      using t(4,5) Cons by (simp add: weight_append) (simp add: weight_def)
    from less.hyps [OF this t(2)] obtain s' where
      r: "search_loop pc s1 = Some (Inr s')" "search_ok pc s'" "paths s' = []" "set (cycles s1) \<subseteq> set (cycles s')"
      "\<forall>p \<in> set (paths s1). \<forall>q. prefix p q \<and> simple_path pc q \<longrightarrow> covered pc s' q"
      "visited_nodes s1 \<subseteq> visited_nodes s'" "visited_nodes s' \<subseteq> visited_nodes s1 \<union> reach pc (paths s1)" by blast
    have ne: "path \<noteq> []" using less.prems Cons by (simp add: search_ok_def good_path_def simple_path_def)
    have cov: "covered pc s' q" if "p \<in> set (paths s)" "prefix p q" "simple_path pc q" for p q
    proof (cases "p \<in> set rest")
      case True
      with that r(5) t(4) show ?thesis by auto
    next
      case False
      with that(1) Cons have p: "p = path" by simp
      from prefix_extend [OF that(2,3)] ne p consider "q = path"
        | c where "edge pc (last path) c" "c \<notin> set path" "prefix (path @ [c]) q" by blast
      then show ?thesis
      proof cases
        case 1
        with t(6) r(4) covered_mono show ?thesis by blast
      next
        case 2
        with t(7) have "path @ [c] \<in> set (paths s1)" unfolding t(4) by simp
        with 2 that(3) r(5) show ?thesis by blast
      qed
    qed
    have "reach pc (paths s1) \<subseteq> reach pc (paths s)"
    proof
      fix x assume "x \<in> reach pc (paths s1)"
      then obtain p where p: "p \<in> set new \<union> set rest" "(edge pc)\<^sup>*\<^sup>* (last p) x" using t(4) by (auto simp: reach_def)
      show "x \<in> reach pc (paths s)"
      proof (cases "p \<in> set rest")
        case True
        with p Cons show ?thesis by (auto simp: reach_def)
      next
        case False
        with p(1) t(8) obtain c where "edge pc (last path) c" "p = path @ [c]" by blast
        with p(2) have "(edge pc)\<^sup>*\<^sup>* (last path) x" by (simp add: converse_rtranclp_into_rtranclp)
        with Cons show ?thesis by (auto simp: reach_def)
      qed
    qed
    moreover have "{c. edge pc (last path) c} \<subseteq> reach pc (paths s)" using Cons by (auto simp: reach_def)
    ultimately have "visited_nodes s' \<subseteq> visited_nodes s \<union> reach pc (paths s)" using r(7) t(10) by blast
    with t(1,3,9) r(1-4,6) cov show ?thesis by (intro exI [of _ s']) auto
  qed
qed

section \<open>All starting points\<close>

text \<open>All simple paths from \<open>r\<close> have been followed.\<close>

definition found :: "('k, 'k list) dict \<Rightarrow> 'k search \<Rightarrow> 'k \<Rightarrow> bool" where
  "found pc s r \<longleftrightarrow> (\<forall>q. simple_path pc q \<and> hd q = r \<longrightarrow> covered pc s q)"

definition known :: "('k, 'k list) dict \<Rightarrow> 'k search \<Rightarrow> 'k \<Rightarrow> bool" where
  "known pc s x \<longleftrightarrow> (\<exists>r. found pc s r \<and> (edge pc)\<^sup>*\<^sup>* r x)"

lemma known_mono: "known pc s x \<Longrightarrow> set (cycles s) \<subseteq> set (cycles s') \<Longrightarrow> known pc s' x"
  unfolding known_def found_def using covered_mono by metis

lemma find_from_run:
  assumes "search_ok pc s" and "paths s = []" and "set ps \<subseteq> fst ` set pc" and "\<forall>x \<in> visited_nodes s. known pc s x"
  shows "\<exists>s'. find_cycles_from pc ps s = Some (Inr s') \<and> search_ok pc s' \<and> set (cycles s) \<subseteq> set (cycles s')
    \<and> (\<forall>x \<in> set ps. known pc s' x)"
  using assms
proof (induction ps arbitrary: s)
  case Nil
  then show ?case by simp
next
  case (Cons p ps)
  show ?case
  proof (cases "p \<in> visited_nodes s")
    case True
    then have k: "known pc s p" using Cons.prems(4) by blast
    from Cons.IH [OF Cons.prems(1,2) _ Cons.prems(4)] Cons.prems(3) obtain s' where
      "find_cycles_from pc ps s = Some (Inr s')" "search_ok pc s'" "set (cycles s) \<subseteq> set (cycles s')"
      "\<forall>x \<in> set ps. known pc s' x" by auto
    with True k known_mono [OF k] show ?thesis by auto
  next
    case False
    have ok: "search_ok pc (s\<lparr>paths := [[p]]\<rparr>)"
      using Cons.prems(1,3) by (auto simp: search_ok_def good_path_def simple_path_def graph_nodes_def)
    from search_run [OF ok] obtain s1 where
      r: "search_loop pc (s\<lparr>paths := [[p]]\<rparr>) = Some (Inr s1)" "search_ok pc s1" "paths s1 = []"
      "set (cycles s) \<subseteq> set (cycles s1)" "\<forall>q. prefix [p] q \<and> simple_path pc q \<longrightarrow> covered pc s1 q"
      "visited_nodes s1 \<subseteq> visited_nodes s \<union> reach pc [[p]]" by auto
    have "found pc s1 p" unfolding found_def
    proof (intro allI impI)
      fix q assume q: "simple_path pc q \<and> hd q = p"
      then have "prefix [p] q" by (cases q) (auto simp: simple_path_def)
      with q r(5) show "covered pc s1 q" by blast
    qed
    then have k: "known pc s1 x" if "(edge pc)\<^sup>*\<^sup>* p x" for x using that by (auto simp: known_def)
    have "\<forall>x \<in> visited_nodes s1. known pc s1 x"
      using r(6) Cons.prems(4) k known_mono [OF _ r(4)] by (auto simp: reach_def)
    from Cons.IH [OF r(2,3) _ this] Cons.prems(3) obtain s' where
      s': "find_cycles_from pc ps s1 = Some (Inr s')" "search_ok pc s'" "set (cycles s1) \<subseteq> set (cycles s')"
      "\<forall>x \<in> set ps. known pc s' x" by auto
    have "known pc s' p" using known_mono [OF k s'(3)] by simp
    with s' r(1,4) False show ?thesis by auto
  qed
qed

section \<open>Every cycle is on a followed path\<close>

lemma rotation_trans: "rotation a b \<Longrightarrow> rotation b c \<Longrightarrow> rotation a c"
  unfolding rotation_def by (metis rotate_rotate)

lemma rotation_sym: "rotation a b \<Longrightarrow> rotation b a"
proof -
  assume "rotation a b"
  then obtain n where b: "b = rotate n a" by (auto simp: rotation_def)
  have "rotate (length a - n mod length a) b = a"
  proof (cases "a = []")
    case True
    then show ?thesis using b by simp
  next
    case False
    then have "n mod length a < length a" by simp
    then have "rotate (length a - n mod length a) (rotate (n mod length a) a) = rotate (length a) a"
      by (simp only: rotate_rotate) simp
    then show ?thesis using b rotate_conv_mod [of n a] by simp
  qed
  then show ?thesis unfolding rotation_def by metis
qed

lemma simple_cycle_rotate1: "simple_cycle pc c \<Longrightarrow> simple_cycle pc (rotate1 c)"
proof (cases c)
  case (Cons x xs)
  assume c: "simple_cycle pc c"
  show ?thesis
  proof (cases xs)
    case Nil
    with c Cons show ?thesis by simp
  next
    case (Cons y ys)
    with c \<open>c = x # xs\<close> have "successively (edge pc) (xs @ [x])"
      unfolding successively_append_iff by (auto simp: simple_cycle_def simple_path_def)
    with c Cons \<open>c = x # xs\<close> show ?thesis by (auto simp: simple_cycle_def simple_path_def)
  qed
qed simp

lemma simple_cycle_rotate: "simple_cycle pc c \<Longrightarrow> simple_cycle pc (rotate n c)"
  by (induction n) (simp_all add: simple_cycle_rotate1)

lemma path_to_cycle:
  assumes "(edge pc)\<^sup>*\<^sup>* r x" and "x \<in> C"
  shows "\<exists>q. simple_path pc q \<and> hd q = r \<and> last q \<in> C \<and> set (butlast q) \<inter> C = {}"
  using assms
proof (induction rule: converse_rtranclp_induct)
  case base
  then show ?case by (intro exI [of _ "[x]"]) (simp add: simple_path_def)
next
  case (step r y)
  then obtain q where q: "simple_path pc q" "hd q = y" "last q \<in> C" "set (butlast q) \<inter> C = {}" by blast
  have ne: "q \<noteq> []" using q(1) by (simp add: simple_path_def)
  consider "r \<in> C" | "r \<notin> C" "r \<in> set q" | "r \<notin> C" "r \<notin> set q" by blast
  then show ?case
  proof cases
    case 1
    then show ?thesis by (intro exI [of _ "[r]"]) (simp add: simple_path_def)
  next
    case 2
    then obtain pre post where s: "q = pre @ r # post" by (meson split_list)
    have "simple_path pc (r # post)" using q(1) s by (auto simp: simple_path_def successively_append_iff)
    moreover have "set (butlast (r # post)) \<subseteq> set (butlast q)" unfolding s by (simp add: butlast_append)
    moreover have "last (r # post) \<in> C" using q(3) s by simp
    ultimately show ?thesis using q(4) by (intro exI [of _ "r # post"]) auto
  next
    case 3
    have "simple_path pc (r # q)" using q(1,2) 3(2) step(1) ne by (cases q) (auto simp: simple_path_def)
    then show ?thesis using q(3,4) 3(1) ne by (intro exI [of _ "r # q"]) auto
  qed
qed

lemma known_cycle:
  assumes "simple_cycle pc c" and "known pc s (hd c)"
  shows "\<exists>d \<in> set (cycles s). rotation d c"
proof -
  have ne: "c \<noteq> []" using assms(1) by (simp add: simple_cycle_def simple_path_def)
  from assms(2) obtain r where r: "found pc s r" "(edge pc)\<^sup>*\<^sup>* r (hd c)" by (auto simp: known_def)
  from path_to_cycle [OF r(2)] ne obtain q where
    q: "simple_path pc q" "hd q = r" "last q \<in> set c" "set (butlast q) \<inter> set c = {}" by (metis list.set_sel(1))
  have qne: "q \<noteq> []" using q(1) by (simp add: simple_path_def)
  from q(3) obtain i where i: "i < length c" "c ! i = last q" by (auto simp: in_set_conv_nth)
  define e where "e = rotate i c"
  have e: "e \<noteq> []" "hd e = last q" "set e = set c" using ne i by (auto simp: e_def hd_rotate_conv_nth)
  have cyc: "simple_cycle pc e" unfolding e_def by (rule simple_cycle_rotate [OF assms(1)])
  let ?p = "butlast q @ e"
  have split: "q = butlast q @ [last q]" using qne by simp
  have succ: "successively (edge pc) (butlast q @ [last q])" using q(1) split by (simp add: simple_path_def)
  have parts: "successively (edge pc) (butlast q)" "butlast q \<noteq> [] \<longrightarrow> edge pc (last (butlast q)) (last q)"
    using succ unfolding successively_append_iff by auto
  have "successively (edge pc) ?p"
    unfolding successively_append_iff using parts cyc e by (auto simp: simple_cycle_def simple_path_def)
  moreover have "distinct ?p" using q(1,4) e cyc distinct_butlast [of q]
    by (auto simp: simple_path_def simple_cycle_def)
  ultimately have "simple_path pc ?p" using e(1) by (simp add: simple_path_def)
  moreover have "hd ?p = r"
  proof (cases "butlast q = []")
    case True
    then have "q = [last q]" using split by simp
    then have "hd q = last q" by (metis list.sel(1))
    with True show ?thesis using e(2) q(2) by simp
  next
    case False
    then show ?thesis using split q(2) by (metis hd_append2)
  qed
  ultimately have cov: "covered pc s ?p" using r(1) by (simp add: found_def)
  have last: "last ?p = last e" and y: "hd e \<in> set ?p" using e(1) by simp_all
  have "closing ?p (hd e) = e"
  proof -
    have "hd e \<notin> set (butlast q)" using q(3,4) e(2) by auto
    then have "dropWhile (\<lambda>x. x \<noteq> hd e) (butlast q @ e) = dropWhile (\<lambda>x. x \<noteq> hd e) e"
      by (intro dropWhile_append2) auto
    also have "\<dots> = e" using e(1) by (cases e) simp_all
    finally show ?thesis by (simp add: closing_def)
  qed
  moreover have "edge pc (last ?p) (hd e)" using cyc last by (simp add: simple_cycle_def)
  ultimately obtain d where "d \<in> set (cycles s)" "rotation d e" using cov y by (auto simp: covered_def)
  moreover have "rotation e c" using rotation_sym [of c e] by (auto simp: rotation_def e_def)
  ultimately show ?thesis using rotation_trans by blast
qed

section \<open>The property\<close>

text \<open>C16. \<open>find_cycles\<close> always ends without an exception, and what it yields is exact: every result is a
  simple cycle of the graph, no result is a rotation of an earlier one, and every simple cycle of
  the graph is a rotation of a result.\<close>

theorem find_cycles_exact:
  "\<exists>cs. find_cycles pc = Some (Inr cs) \<and> (\<forall>c \<in> set cs. simple_cycle pc c) \<and>
     sorted_wrt (\<lambda>c d. \<not> rotation c d) cs \<and>
     (\<forall>c. simple_cycle pc c \<longrightarrow> (\<exists>d \<in> set cs. rotation d c))"
proof -
  let ?s = "\<lparr>cycles = [], visited_nodes = {}, paths = []\<rparr>"
  have "search_ok pc ?s" by (simp add: search_ok_def)
  from find_from_run [OF this, of "dict_keys pc"] obtain s where
    s: "find_cycles_from pc (dict_keys pc) ?s = Some (Inr s)" "search_ok pc s" "\<forall>x \<in> fst ` set pc. known pc s x" by auto
  have "\<exists>d \<in> set (cycles s). rotation d c" if c: "simple_cycle pc c" for c
  proof -
    from c obtain x xs where x: "c = x # xs" by (cases c) (auto simp: simple_cycle_def simple_path_def)
    then have "\<exists>y. edge pc x y" using c by (cases xs) (auto simp: simple_cycle_def simple_path_def)
    then have "x \<in> fst ` set pc" by (auto simp: edge_def dest: map_of_Some_key)
    with s(3) have "known pc s x" by blast
    then show ?thesis using known_cycle [OF c] x by simp
  qed
  with s(1,2) show ?thesis by (intro exI [of _ "cycles s"]) (simp add: find_cycles_def search_ok_def)
qed

theorem find_cycles_exact_witness:
  "find_cycles [(''A'', [''B1'', ''B2'']), (''B1'', [''C'']), (''B2'', [''C'']), (''C'', [''A'', ''B1''])]
     = Some (Inr [[''A'', ''B2'', ''C''], [''C'', ''B1''], [''A'', ''B1'', ''C'']])
   \<and> simple_cycle [(''A'', [''B1'', ''B2'']), (''B1'', [''C'']), (''B2'', [''C'']), (''C'', [''A'', ''B1''])] [''C'', ''B1'']"
proof -
  let ?g = "[(''A'', [''B1'', ''B2'']), (''B1'', [''C'']), (''B2'', [''C'']), (''C'', [''A'', ''B1''])]"
  have f: "find_cycles ?g = Some (Inr [[''A'', ''B2'', ''C''], [''C'', ''B1''], [''A'', ''B1'', ''C'']])" by code_simp
  with find_cycles_exact [of ?g] show ?thesis by auto
qed

end
