(* ===== verification/Shell_Cmd.thy ===== *)
theory Shell_Cmd
  imports Py_Strings
begin

text \<open>
  \<open>waf-tools/shellcmd.py\<close>: the small shell of the build scripts.  \<open>Pipeline.parse\<close> turns the words of a
  command line into commands, directory changes and the operators between them, and
  \<open>Pipeline.run\<close> starts the processes, waits for them and decides what \<open>&&\<close> and \<open>||\<close> do.  The word
  splitting (\<open>shlex.split\<close>) is the caller's: the parser takes the words.  A file that does not open and a
  program that is not there raise with the files opened so far still open.
\<close>

section \<open>Nodes\<close>

text \<open>\<open>Command.PIPE\<close> and \<open>Command.STDOUT\<close> are the constants; a redirection to a file is its name.\<close>

datatype redirect = ToFile string | PIPE | STDOUT

record command =
  cmd_name :: string
  argv :: "string list"
  cmd_stdin :: "string option"
  cmd_stdout :: "redirect option"
  cmd_stderr :: "redirect option"
  env_vars :: "(string, string) dict option"

datatype node = Pipe | And | Or | Command command | Chdir "string option"

definition new_command :: "string \<Rightarrow> command" where
  "new_command name = \<lparr>cmd_name = name, argv = [name], cmd_stdin = None, cmd_stdout = None,
     cmd_stderr = None, env_vars = None\<rparr>"

section \<open>The parser\<close>

datatype parse_state = S_BEGIN | S_COMMAND | S_CHDIR | S_STDERR | S_STDOUT | S_STDIN

record parser =
  p_state :: parse_state
  current_command :: "node option"
  pipeline :: "node list"
  p_env :: "(string, string) dict"

definition is_word :: "char \<Rightarrow> bool" where
  "is_word c \<longleftrightarrow> is_digit c \<or> 65 \<le> code c \<and> code c \<le> 90 \<or> 97 \<le> code c \<and> code c \<le> 122 \<or> c = CHR ''_''"

text \<open>\<open>env_var_rx\<close>: a word, \<open>=\<close>, and a value without white space (one newline may follow it).\<close>

definition env_var_match :: "string \<Rightarrow> (string \<times> string) option" where
  "env_var_match token =
     (let name = takeWhile is_word token;
          rest = dropWhile is_word token;
          val = tl rest;
          val' = (if val \<noteq> [] \<and> last val = CHR ''\<newline>'' then butlast val else val)
      in if name \<noteq> [] \<and> rest \<noteq> [] \<and> hd rest = CHR ''='' \<and> val' \<noteq> [] \<and> list_all (\<lambda>c. \<not> is_ws c) val'
         then Some (name, val') else None)"

definition commit_command :: "parser \<Rightarrow> parser res" where
  "commit_command p =
     (case current_command p of
        None \<Rightarrow> Inl AssertionError
      | Some n \<Rightarrow> Inr (p\<lparr>pipeline := pipeline p @ [n], current_command := None\<rparr>))"

text \<open>The operator that ends a command: it is committed, the operator follows, a new command begins.\<close>

definition commit_op :: "node \<Rightarrow> parser \<Rightarrow> parser res" where
  "commit_op op p =
     bind_res (commit_command p) (\<lambda>p. Inr (p\<lparr>pipeline := pipeline p @ [op], p_state := S_BEGIN\<rparr>))"

definition in_begin :: "string \<Rightarrow> parser \<Rightarrow> parser res" where
  "in_begin token p =
     (case env_var_match token of
        Some (k, v) \<Rightarrow> Inr (p\<lparr>p_env := dict_set k v (p_env p)\<rparr>)
      | None \<Rightarrow>
          (if current_command p \<noteq> None then Inl AssertionError
           else if token = ''cd'' then
             (if p_env p \<noteq> [] then Inl AssertionError
              else Inr (p\<lparr>current_command := Some (Chdir None), p_state := S_CHDIR\<rparr>))
           else Inr (p\<lparr>current_command := Some (Command ((new_command token)
                         \<lparr>env_vars := if p_env p \<noteq> [] then Some (p_env p) else None\<rparr>)),
                       p_env := [], p_state := S_COMMAND\<rparr>)))"

definition in_command :: "string \<Rightarrow> command \<Rightarrow> parser \<Rightarrow> parser res" where
  "in_command token c p =
     (let keep = (\<lambda>c. p\<lparr>current_command := Some (Command c)\<rparr>) in
      if token = ''>'' then Inr (p\<lparr>p_state := S_STDOUT\<rparr>)
      else if token = ''2>'' then Inr (p\<lparr>p_state := S_STDERR\<rparr>)
      else if token = ''2>&1'' then
        (if cmd_stderr c \<noteq> None then Inl AssertionError else Inr (keep (c\<lparr>cmd_stderr := Some STDOUT\<rparr>)))
      else if token = ''<'' then Inr (p\<lparr>p_state := S_STDIN\<rparr>)
      else if token = ''|'' then
        (if cmd_stdout c \<noteq> None then Inl AssertionError
         else commit_op Pipe (keep (c\<lparr>cmd_stdout := Some PIPE\<rparr>)))
      else if token = ''&&'' then commit_op And p
      else if token = ''||'' then commit_op Or p
      else Inr (keep (c\<lparr>argv := argv c @ [token]\<rparr>)))"

definition in_chdir :: "string \<Rightarrow> string option \<Rightarrow> parser \<Rightarrow> parser res" where
  "in_chdir token dir p =
     (if token = ''&&'' then commit_op And p
      else if dir \<noteq> None then Inl AssertionError
      else Inr (p\<lparr>current_command := Some (Chdir (Some token))\<rparr>))"

definition in_redirect :: "string \<Rightarrow> command \<Rightarrow> parser \<Rightarrow> parser res" where
  "in_redirect token c p =
     (let keep = (\<lambda>c. p\<lparr>current_command := Some (Command c), p_state := S_COMMAND\<rparr>) in
      case p_state p of
        S_STDOUT \<Rightarrow> (if cmd_stdout c \<noteq> None then Inl AssertionError else Inr (keep (c\<lparr>cmd_stdout := Some (ToFile token)\<rparr>)))
      | S_STDERR \<Rightarrow> (if cmd_stderr c \<noteq> None then Inl AssertionError else Inr (keep (c\<lparr>cmd_stderr := Some (ToFile token)\<rparr>)))
      | _ \<Rightarrow> (if cmd_stdin c \<noteq> None then Inl AssertionError else Inr (keep (c\<lparr>cmd_stdin := Some token\<rparr>))))"

text \<open>
  One turn of the loop.  In the states after \<open>BEGIN\<close> the current command is set; where its class
  has not the attribute that is read, Python raises.
\<close>

definition parse_token :: "parser \<Rightarrow> string \<Rightarrow> parser res" where
  "parse_token p token =
     (case p_state p of
        S_BEGIN \<Rightarrow> in_begin token p
      | S_CHDIR \<Rightarrow> (case current_command p of Some (Chdir d) \<Rightarrow> in_chdir token d p | _ \<Rightarrow> Inl AttributeError)
      | S_COMMAND \<Rightarrow> (case current_command p of Some (Command c) \<Rightarrow> in_command token c p | _ \<Rightarrow> Inl AttributeError)
      | _ \<Rightarrow> (case current_command p of Some (Command c) \<Rightarrow> in_redirect token c p | _ \<Rightarrow> Inl AttributeError))"

definition parse :: "string list \<Rightarrow> node list res" where
  "parse tokens =
     bind_res (run_steps parse_token \<lparr>p_state = S_BEGIN, current_command = None, pipeline = [], p_env = []\<rparr> tokens)
       (\<lambda>p. bind_res (commit_command p) (\<lambda>p. Inr (pipeline p)))"

text \<open>The second test for \<open>And\<close> in the source never holds: \<open>Or\<close> prints as nothing.\<close>

definition abbreviate :: "node \<Rightarrow> string list" where
  "abbreviate n =
     (case n of
        Command c \<Rightarrow> [cmd_name c]
      | Chdir d \<Rightarrow> [''cd '' @ (case d of None \<Rightarrow> ''None'' | Some d \<Rightarrow> d)]
      | Pipe \<Rightarrow> [''|'']
      | And \<Rightarrow> [''&&'']
      | Or \<Rightarrow> [])"

definition get_abbreviated_command :: "node list \<Rightarrow> string" where
  "get_abbreviated_command p = join '' '' (concat (map abbreviate p))"

section \<open>Running\<close>

text \<open>
  What \<open>Popen\<close> gets.  The operating system is a parameter of the model: \<open>exit_code\<close> gives the exit code of
  a process, or \<^const>\<open>None\<close> where it cannot be started (no such program or directory) and \<open>Popen\<close> raises
  \<open>OSError\<close>; \<open>can_open\<close> says which files open, \<open>environ\<close> is the environment.  An exception comes with the
  state the runner is left in: no handler closes its files.
\<close>

datatype source = FromPipe | FromFile string

record launch =
  l_argv :: "string list"
  l_stdin :: "source option"
  l_stdout :: "redirect option"
  l_stderr :: "redirect option"
  l_env :: "(string, string) dict option"
  l_cwd :: "string option"

record runner =
  r_piped :: bool
  r_cwd :: string
  r_procs :: "launch list"
  r_display :: "string list"
  r_open :: "string list"
  r_started :: "launch list"
  r_opened :: "string list"
  r_closed :: "string list"
  r_printed :: "string list"

type_synonym 'a run_res = "(py_error \<times> runner) + 'a"

definition exec_piped_commands :: "(launch \<Rightarrow> int option) \<Rightarrow> launch list \<Rightarrow> int" where
  "exec_piped_commands exit_code commands =
     (let retvals = map (\<lambda>l. the (exit_code l)) commands in if list_ex (\<lambda>r. r \<noteq> 0) retvals then last retvals else 0)"

definition dev_null_name :: "string \<Rightarrow> bool" where
  "dev_null_name f \<longleftrightarrow> f = ''NUL:'' \<or> f = ''/dev/null''"

definition open_file :: "(string \<Rightarrow> bool) \<Rightarrow> string \<Rightarrow> runner \<Rightarrow> runner run_res" where
  "open_file can_open f s =
     (if can_open f then Inr (s\<lparr>r_open := r_open s @ [f], r_opened := r_opened s @ [f]\<rparr>) else Inl (IOError, s))"

text \<open>\<open>_open_out_file\<close>: the null device is opened once for all and never closed.\<close>

definition open_out :: "(string \<Rightarrow> bool) \<Rightarrow> string \<Rightarrow> runner \<Rightarrow> runner run_res" where
  "open_out can_open f s = (if dev_null_name f then Inr s else open_file can_open f s)"

definition show_word :: "bool \<Rightarrow> string \<Rightarrow> runner \<Rightarrow> runner" where
  "show_word verbose w s = (if verbose then s\<lparr>r_display := r_display s @ [w]\<rparr> else s)"

definition show_command :: "command \<Rightarrow> string" where
  "show_command c =
     (case env_vars c of
        Some (e # es) \<Rightarrow> join '' '' (map (\<lambda>(k, v). k @ ''='' @ v) (e # es)) @ '' '' @ join '' '' (argv c)
      | _ \<Rightarrow> join '' '' (argv c))"

definition open_stdin :: "(string \<Rightarrow> bool) \<Rightarrow> bool \<Rightarrow> command \<Rightarrow> runner \<Rightarrow> (runner \<times> source option) run_res" where
  "open_stdin can_open verbose c s =
     (if r_piped s then (if r_procs s = [] then Inl (IndexError, s) else Inr (s, Some FromPipe))
      else case cmd_stdin c of
             Some f \<Rightarrow> bind_res (open_file can_open f s) (\<lambda>s. Inr (show_word verbose (''< '' @ f) s, Some (FromFile f)))
           | None \<Rightarrow> Inr (s, None))"

definition open_stdout :: "(string \<Rightarrow> bool) \<Rightarrow> bool \<Rightarrow> command \<Rightarrow> runner \<Rightarrow> runner run_res" where
  "open_stdout can_open verbose c s =
     (case cmd_stdout c of
        Some (ToFile f) \<Rightarrow> bind_res (open_out can_open f s) (\<lambda>s. Inr (show_word verbose (''> '' @ f) s))
      | _ \<Rightarrow> Inr s)"

definition open_stderr :: "(string \<Rightarrow> bool) \<Rightarrow> bool \<Rightarrow> command \<Rightarrow> runner \<Rightarrow> runner run_res" where
  "open_stderr can_open verbose c s =
     (case cmd_stderr c of
        Some (ToFile f) \<Rightarrow> bind_res (open_out can_open f s) (\<lambda>s. Inr (show_word verbose (''2> '' @ f) s))
      | Some STDOUT \<Rightarrow> Inr (show_word verbose ''2>&1'' s)
      | _ \<Rightarrow> Inr s)"

definition start_command ::
  "(launch \<Rightarrow> int option) \<Rightarrow> (string \<Rightarrow> bool) \<Rightarrow> (string, string) dict \<Rightarrow> bool \<Rightarrow> command \<Rightarrow> runner
    \<Rightarrow> runner run_res" where
  "start_command exit_code can_open environ verbose c s0 =
     bind_res (open_stdin can_open verbose c (show_word verbose (show_command c) s0)) (\<lambda>(s1, inp).
     bind_res (open_stdout can_open verbose c s1) (\<lambda>s2.
     bind_res (open_stderr can_open verbose c s2) (\<lambda>s3.
       let env = (case env_vars c of
                    Some (e # es) \<Rightarrow> Some (fold (\<lambda>(k, v). dict_set k v) (e # es) environ)
                  | _ \<Rightarrow> None);
           proc = \<lparr>l_argv = argv c, l_stdin = inp, l_stdout = cmd_stdout c, l_stderr = cmd_stderr c,
                   l_env = env, l_cwd = if r_cwd s3 = ''.'' then None else Some (r_cwd s3)\<rparr>
       in if exit_code proc = None then Inl (OSError, s3)
          else Inr (s3\<lparr>r_procs := r_procs s3 @ [proc], r_started := r_started s3 @ [proc]\<rparr>))))"

definition close_files :: "runner \<Rightarrow> runner" where
  "close_files s = s\<lparr>r_closed := r_closed s @ r_open s, r_open := []\<rparr>"

definition next_group :: "runner \<Rightarrow> runner" where
  "next_group s = s\<lparr>r_piped := False, r_procs := [], r_display := []\<rparr>"

text \<open>
  The loop.  With \<open>verbose\<close> the messages after \<open>&&\<close> and \<open>||\<close> format the variable \<open>retval\<close>, which only the
  end of the pipeline assigns: reading it raises.  The result \<^const>\<open>None\<close> is the \<open>None\<close> that
  \<open>run\<close> returns when the loop ends by itself.
\<close>

fun run_nodes ::
  "(launch \<Rightarrow> int option) \<Rightarrow> (string \<Rightarrow> bool) \<Rightarrow> (string, string) dict \<Rightarrow> bool \<Rightarrow> node list \<Rightarrow> runner
    \<Rightarrow> (int option \<times> runner) run_res" where
  "run_nodes exit_code can_open environ verbose [] s = Inr (None, s)"
| "run_nodes exit_code can_open environ verbose [Chdir d] s = Inl (IndexError, s)"
| "run_nodes exit_code can_open environ verbose (Chdir d # op # ns) s =
     (if op \<noteq> And then Inl (AssertionError, s)
      else case d of
             None \<Rightarrow> Inl (AttributeError, s)
           | Some d \<Rightarrow> run_nodes exit_code can_open environ verbose ns
                         (show_word verbose (''cd '' @ d @ '' &&'') (s\<lparr>r_cwd := path_join (r_cwd s) d\<rparr>)))"
| "run_nodes exit_code can_open environ verbose [Command c] s =
     bind_res (start_command exit_code can_open environ verbose c s) (\<lambda>s.
       let retval = exec_piped_commands exit_code (r_procs s);
           s' = (if verbose then s\<lparr>r_printed := r_printed s @ [join '' '' (r_display s) @ '': exit code '' @ show_int retval]\<rparr>
                 else s)
       in Inr (Some retval, close_files s'))"
| "run_nodes exit_code can_open environ verbose (Command c # op # ns) s =
     bind_res (start_command exit_code can_open environ verbose c s) (\<lambda>s.
       case op of
         Pipe \<Rightarrow> run_nodes exit_code can_open environ verbose ns (s\<lparr>r_piped := True, r_display := r_display s @ [''|'']\<rparr>)
       | Or \<Rightarrow>
           (let this_retval = exec_piped_commands exit_code (r_procs s); s = close_files s in
            if verbose then Inl (UnboundLocalError, s)
            else if this_retval = 0 then Inr (Some this_retval, s)
            else run_nodes exit_code can_open environ verbose ns (next_group s))
       | And \<Rightarrow>
           (let this_retval = exec_piped_commands exit_code (r_procs s); s = close_files s in
            if verbose then Inl (UnboundLocalError, s)
            else if this_retval \<noteq> 0 then Inr (Some this_retval, s)
            else run_nodes exit_code can_open environ verbose ns (next_group s))
       | _ \<Rightarrow> run_nodes exit_code can_open environ verbose ns s)"
| "run_nodes exit_code can_open environ verbose (Pipe # ns) s = Inl (AssertionError, s)"
| "run_nodes exit_code can_open environ verbose (And # ns) s = Inl (AssertionError, s)"
| "run_nodes exit_code can_open environ verbose (Or # ns) s = Inl (AssertionError, s)"

definition run_start :: runner where
  "run_start = \<lparr>r_piped = False, r_cwd = ''.'', r_procs = [], r_display = [], r_open = [], r_started = [],
     r_opened = [], r_closed = [], r_printed = []\<rparr>"

definition run ::
  "(launch \<Rightarrow> int option) \<Rightarrow> (string \<Rightarrow> bool) \<Rightarrow> (string, string) dict \<Rightarrow> bool \<Rightarrow> node list
    \<Rightarrow> (int option \<times> runner) run_res" where
  "run exit_code can_open environ verbose p = run_nodes exit_code can_open environ verbose p run_start"

section \<open>Substitution in arguments (waf-tools/command.py)\<close>

text \<open>
  \<open>_subst_arg\<close>: \<open>$$\<close> is a dollar, \<open>${var exit_code}\<close> is what evaluating it gives (\<open>value\<close>, a parameter: the
  code evaluates Python text in waf's namespace); anything else stays.
\<close>

definition subst_match :: "string \<Rightarrow> (string \<times> string \<times> string) option" where
  "subst_match s =
     (let var = takeWhile is_word s;
          rest = dropWhile is_word s;
          cd = takeWhile (\<lambda>c. c \<noteq> CHR ''}'' \<and> c \<noteq> CHR ''\<newline>'') rest;
          tail = dropWhile (\<lambda>c. c \<noteq> CHR ''}'' \<and> c \<noteq> CHR ''\<newline>'') rest
      in if var \<noteq> [] \<and> tail \<noteq> [] \<and> hd tail = CHR ''}'' then Some (var, cd, tl tail) else None)"

lemma subst_match_shorter: "subst_match s = Some (v, c, r) \<Longrightarrow> length r < length s"
proof -
  assume m: "subst_match s = Some (v, c, r)"
  let ?rest = "dropWhile is_word s"
  let ?tail = "dropWhile (\<lambda>c. c \<noteq> CHR ''}'' \<and> c \<noteq> CHR ''\<newline>'') ?rest"
  have "r = tl ?tail" "?tail \<noteq> []" using m by (auto simp: subst_match_def Let_def split: if_splits)
  moreover have "length ?tail \<le> length s"
    using length_dropWhile_le [of _ ?rest] length_dropWhile_le [of is_word s] by (rule le_trans)
  ultimately show ?thesis by (cases ?tail) auto
qed

function subst_arg :: "(string \<Rightarrow> string \<Rightarrow> string res) \<Rightarrow> string \<Rightarrow> string res" where
  "subst_arg eval_var [] = Inr []"
| "subst_arg eval_var (c # s) =
     (if c = CHR ''$'' \<and> startswith s ''$'' then bind_res (subst_arg eval_var (drop 1 s)) (\<lambda>r. Inr (CHR ''$'' # r))
      else case (if c = CHR ''$'' \<and> startswith s ''{'' then subst_match (drop 1 s) else None) of
             Some (var, cd, rest) \<Rightarrow>
               bind_res (eval_var var cd) (\<lambda>v. bind_res (subst_arg eval_var rest) (\<lambda>r. Inr (v @ r)))
           | None \<Rightarrow> bind_res (subst_arg eval_var s) (\<lambda>r. Inr (c # r)))"
  by pat_completeness auto
termination
  by (relation "measure (\<lambda>(f, s). length s)") (auto dest!: subst_match_shorter split: if_splits)

definition subst_redirect :: "(string \<Rightarrow> string res) \<Rightarrow> redirect option \<Rightarrow> redirect option res" where
  "subst_redirect f r =
     (case r of Some (ToFile g) \<Rightarrow> bind_res (f g) (\<lambda>g'. Inr (Some (ToFile g'))) | _ \<Rightarrow> Inr r)"

definition subst_command :: "(string \<Rightarrow> string res) \<Rightarrow> command \<Rightarrow> command res" where
  "subst_command f c =
     bind_res (case cmd_stdin c of Some g \<Rightarrow> bind_res (f g) (\<lambda>g'. Inr (Some g')) | None \<Rightarrow> Inr None) (\<lambda>i.
     bind_res (subst_redirect f (cmd_stdout c)) (\<lambda>out.
     bind_res (subst_redirect f (cmd_stderr c)) (\<lambda>err.
     bind_res (map_res f (argv c)) (\<lambda>args.
     bind_res (case env_vars c of
                 None \<Rightarrow> Inr None
               | Some e \<Rightarrow> bind_res (map_res (\<lambda>(k, v). bind_res (f v) (\<lambda>v'. Inr (k, v'))) e) (\<lambda>e'. Inr (Some e')))
       (\<lambda>env.
       Inr (c\<lparr>cmd_stdin := i, cmd_stdout := out, cmd_stderr := err, argv := args, env_vars := env\<rparr>))))))"

definition subst_node :: "(string \<Rightarrow> string res) \<Rightarrow> node \<Rightarrow> node res" where
  "subst_node f n =
     (case n of
        Command c \<Rightarrow> bind_res (subst_command f c) (\<lambda>c'. Inr (Command c'))
      | Chdir (Some d) \<Rightarrow> bind_res (f d) (\<lambda>d'. Inr (Chdir (Some d')))
      | Chdir None \<Rightarrow> Inl TypeError
      | _ \<Rightarrow> Inr n)"

definition command_task_run ::
  "(string \<Rightarrow> string \<Rightarrow> string res) \<Rightarrow> (launch \<Rightarrow> int option) \<Rightarrow> (string \<Rightarrow> bool) \<Rightarrow> (string, string) dict \<Rightarrow> bool
    \<Rightarrow> string list \<Rightarrow> (int option \<times> runner) run_res" where
  "command_task_run eval_var exit_code can_open environ verbose tokens =
     (case bind_res (parse tokens) (map_res (subst_node (subst_arg eval_var))) of
        Inl e \<Rightarrow> Inl (e, run_start)
      | Inr p \<Rightarrow> run exit_code can_open environ verbose p)"

section \<open>What the parser produces\<close>

text \<open>A pipeline alternates commands and operators; exactly the commands before a pipe write to it, and
  after a directory change comes \<open>&&\<close> or the end.\<close>

definition sends :: "command \<Rightarrow> node \<Rightarrow> bool" where
  "sends c op \<longleftrightarrow> op = Pipe \<and> cmd_stdout c = Some PIPE \<or> (op = And \<or> op = Or) \<and> cmd_stdout c \<noteq> Some PIPE"

fun open_shape :: "node list \<Rightarrow> bool" where
  "open_shape [] = True"
| "open_shape (Command c # op # ns) \<longleftrightarrow> sends c op \<and> open_shape ns"
| "open_shape (Chdir d # op # ns) \<longleftrightarrow> op = And \<and> open_shape ns"
| "open_shape ns = False"

definition closes :: "node \<Rightarrow> bool" where
  "closes n = (case n of Command c \<Rightarrow> cmd_stdout c \<noteq> Some PIPE | Chdir d \<Rightarrow> True | _ \<Rightarrow> False)"

definition runnable :: "node list \<Rightarrow> bool" where
  "runnable p \<longleftrightarrow> (\<exists>ns n. p = ns @ [n] \<and> open_shape ns \<and> closes n)"

lemma open_shape_append: "open_shape ns \<Longrightarrow> open_shape (ns @ [n, op]) = open_shape [n, op]"
  by (induction ns rule: open_shape.induct) auto

definition parser_ok :: "parser \<Rightarrow> bool" where
  "parser_ok p \<longleftrightarrow> open_shape (pipeline p) \<and>
     (case p_state p of
        S_BEGIN \<Rightarrow> current_command p = None
      | S_CHDIR \<Rightarrow> (\<exists>d. current_command p = Some (Chdir d))
      | _ \<Rightarrow> (\<exists>c. current_command p = Some (Command c) \<and> cmd_stdout c \<noteq> Some PIPE))"

lemma parse_token_ok: "parser_ok p \<Longrightarrow> parse_token p t = Inr p' \<Longrightarrow> parser_ok p'"
  by (cases "p_state p")
    (auto simp: parser_ok_def parse_token_def in_begin_def in_command_def in_chdir_def in_redirect_def
      commit_op_def commit_command_def new_command_def Let_def open_shape_append sends_def
      split: if_splits option.splits node.splits)

interpretation parser: loop_invariant parse_token parser_ok
  by unfold_locales (rule parse_token_ok)

lemma parse_runnable:
  assumes "parse tokens = Inr p"
  shows "runnable p"
proof -
  let ?p0 = "\<lparr>p_state = S_BEGIN, current_command = None, pipeline = [], p_env = []\<rparr>"
  from assms obtain q where q: "run_steps parse_token ?p0 tokens = Inr q" and
    c: "bind_res (commit_command q) (\<lambda>p. Inr (pipeline p)) = Inr p"
    by (auto simp: parse_def bind_res_Inr_iff)
  have "parser_ok ?p0" by (simp add: parser_ok_def)
  then have "parser_ok q" using q by (rule parser.run_inv)
  then show ?thesis using c
    by (cases "p_state q") (auto simp: parser_ok_def commit_command_def runnable_def closes_def)
qed

section \<open>Printing a pipeline\<close>

definition operators :: "string list" where
  "operators = [''>'', ''2>'', ''2>&1'', ''<'', ''|'', ''&&'', ''||'']"

definition env_words :: "(string, string) dict \<Rightarrow> string list" where
  "env_words e = map (\<lambda>(k, v). k @ ''='' @ v) e"

definition words_of :: "command \<Rightarrow> string list" where
  "words_of c =
     (case env_vars c of None \<Rightarrow> [] | Some e \<Rightarrow> env_words e) @ argv c
     @ (case cmd_stdin c of None \<Rightarrow> [] | Some f \<Rightarrow> [''<'', f])
     @ (case cmd_stdout c of Some (ToFile f) \<Rightarrow> [''>'', f] | _ \<Rightarrow> [])
     @ (case cmd_stderr c of Some (ToFile f) \<Rightarrow> [''2>'', f] | Some STDOUT \<Rightarrow> [''2>&1''] | _ \<Rightarrow> [])"

fun unparse_node :: "node \<Rightarrow> string list" where
  "unparse_node Pipe = [''|'']"
| "unparse_node And = [''&&'']"
| "unparse_node Or = [''||'']"
| "unparse_node (Command c) = words_of c"
| "unparse_node (Chdir None) = [''cd'']"
| "unparse_node (Chdir (Some d)) = [''cd'', d]"

definition unparse :: "node list \<Rightarrow> string list" where
  "unparse p = concat (map unparse_node p)"

definition env_ok :: "(string, string) dict \<Rightarrow> bool" where
  "env_ok e \<longleftrightarrow> e \<noteq> [] \<and> dict_ok e \<and>
     list_all (\<lambda>(k, v). k \<noteq> [] \<and> list_all is_word k \<and> v \<noteq> [] \<and> list_all (\<lambda>c. \<not> is_ws c) v) e"

definition command_ok :: "command \<Rightarrow> bool" where
  "command_ok c \<longleftrightarrow> argv c \<noteq> [] \<and> hd (argv c) = cmd_name c \<and> cmd_name c \<noteq> ''cd'' \<and> env_var_match (cmd_name c) = None \<and>
     set (tl (argv c)) \<inter> set operators = {} \<and> cmd_stdout c \<noteq> Some STDOUT \<and> cmd_stderr c \<noteq> Some PIPE \<and>
     (case env_vars c of None \<Rightarrow> True | Some e \<Rightarrow> env_ok e)"

definition node_ok :: "node \<Rightarrow> bool" where
  "node_ok n = (case n of Command c \<Rightarrow> command_ok c | Chdir (Some d) \<Rightarrow> d \<noteq> ''&&'' | _ \<Rightarrow> True)"

lemma env_var_match_word:
  assumes "k \<noteq> []" "list_all is_word k" "v \<noteq> []" "list_all (\<lambda>c. \<not> is_ws c) v"
  shows "env_var_match (k @ ''='' @ v) = Some (k, v)"
proof -
  have eq: "\<not> is_word CHR ''=''" by (simp add: is_word_def is_digit_def code_def)
  have nl: "is_ws CHR ''\<newline>''" by (simp add: is_ws_def code_def)
  have "last v \<noteq> CHR ''\<newline>''" using assms(3,4) nl by (metis last_in_set list_all_iff)
  moreover have "takeWhile is_word (k @ ''='' @ v) = k" "dropWhile is_word (k @ ''='' @ v) = ''='' @ v"
    using assms(2) eq by (simp_all add: list_all_iff takeWhile_append dropWhile_append)
  ultimately show ?thesis using assms by (simp add: env_var_match_def Let_def)
qed

lemma dict_set_new: "k \<notin> fst ` set d \<Longrightarrow> dict_set k v d = d @ [(k, v)]"
  by (induction d) auto

abbreviation begin_parser :: "node list \<Rightarrow> (string, string) dict \<Rightarrow> parser" where
  "begin_parser pl e \<equiv> \<lparr>p_state = S_BEGIN, current_command = None, pipeline = pl, p_env = e\<rparr>"

abbreviation command_parser :: "node list \<Rightarrow> command \<Rightarrow> parser" where
  "command_parser pl c \<equiv> \<lparr>p_state = S_COMMAND, current_command = Some (Command c), pipeline = pl, p_env = []\<rparr>"

lemma parse_env:
  assumes "dict_ok (e0 @ e)"
    and "list_all (\<lambda>(k, v). k \<noteq> [] \<and> list_all is_word k \<and> v \<noteq> [] \<and> list_all (\<lambda>c. \<not> is_ws c) v) e"
  shows "run_steps parse_token (begin_parser pl e0) (env_words e) = Inr (begin_parser pl (e0 @ e))"
  using assms
proof (induction e arbitrary: e0)
  case Nil
  then show ?case by (simp add: env_words_def)
next
  case (Cons kv e)
  obtain k v where kv: "kv = (k, v)" by (cases kv)
  with Cons.prems have "parse_token (begin_parser pl e0) (k @ ''='' @ v) = Inr (begin_parser pl (e0 @ [(k, v)]))"
    using env_var_match_word [of k v] by (simp add: parse_token_def in_begin_def dict_ok_def dict_set_new)
  moreover have "run_steps parse_token (begin_parser pl (e0 @ [kv])) (env_words e) = Inr (begin_parser pl ((e0 @ [kv]) @ e))"
    using Cons.prems by (intro Cons.IH) simp_all
  ultimately show ?case using kv by (simp add: env_words_def)
qed

lemma parse_name:
  assumes "env_var_match name = None" and "name \<noteq> ''cd''"
  shows "parse_token (begin_parser pl e) name =
    Inr (command_parser pl ((new_command name)\<lparr>env_vars := if e \<noteq> [] then Some e else None\<rparr>))"
  using assms by (simp add: parse_token_def in_begin_def)

lemma parse_args:
  "set args \<inter> set operators = {} \<Longrightarrow>
    run_steps parse_token (command_parser pl c) args = Inr (command_parser pl (c\<lparr>argv := argv c @ args\<rparr>))"
proof (induction args arbitrary: c)
  case Nil
  then show ?case by simp
next
  case (Cons a args)
  have "a \<noteq> ''>''" "a \<noteq> ''2>''" "a \<noteq> ''2>&1''" "a \<noteq> ''<''" "a \<noteq> ''|''" "a \<noteq> ''&&''" "a \<noteq> ''||''"
    using Cons.prems by (auto simp: operators_def)
  then have "parse_token (command_parser pl c) a = Inr (command_parser pl (c\<lparr>argv := argv c @ [a]\<rparr>))"
    by (simp add: parse_token_def in_command_def Let_def)
  with Cons show ?case by simp
qed

lemma parse_redirects:
  assumes "cmd_stdin c = None" "cmd_stdout c = None" "cmd_stderr c = None" and "err \<noteq> Some PIPE"
  shows "run_steps parse_token (command_parser pl c)
      ((case inp of None \<Rightarrow> [] | Some f \<Rightarrow> [''<'', f])
       @ (case out of Some (ToFile f) \<Rightarrow> [''>'', f] | _ \<Rightarrow> [])
       @ (case err of Some (ToFile f) \<Rightarrow> [''2>'', f] | Some STDOUT \<Rightarrow> [''2>&1''] | _ \<Rightarrow> []))
    = Inr (command_parser pl (c\<lparr>cmd_stdin := inp,
        cmd_stdout := (case out of Some (ToFile f) \<Rightarrow> out | _ \<Rightarrow> None), cmd_stderr := err\<rparr>))"
proof -
  have i: "run_steps parse_token (command_parser pl c) (case inp of None \<Rightarrow> [] | Some f \<Rightarrow> [''<'', f])
      = Inr (command_parser pl (c\<lparr>cmd_stdin := inp\<rparr>))" if "cmd_stdin c = None" for c
    using that by (cases inp) (simp_all add: parse_token_def in_command_def in_redirect_def Let_def)
  have o: "run_steps parse_token (command_parser pl c) (case out of Some (ToFile f) \<Rightarrow> [''>'', f] | _ \<Rightarrow> [])
      = Inr (command_parser pl (c\<lparr>cmd_stdout := (case out of Some (ToFile f) \<Rightarrow> out | _ \<Rightarrow> None)\<rparr>))"
    if "cmd_stdout c = None" for c
    using that by (cases out; simp; cases "the out")
      (simp_all add: parse_token_def in_command_def in_redirect_def Let_def)
  have e: "run_steps parse_token (command_parser pl c)
      (case err of Some (ToFile f) \<Rightarrow> [''2>'', f] | Some STDOUT \<Rightarrow> [''2>&1''] | _ \<Rightarrow> [])
      = Inr (command_parser pl (c\<lparr>cmd_stderr := err\<rparr>))" if "cmd_stderr c = None" for c
    using that assms(4) by (cases err; simp; cases "the err")
      (simp_all add: parse_token_def in_command_def in_redirect_def Let_def)
  show ?thesis by (simp add: run_steps_append i o e assms)
qed

text \<open>The words of a command, read in state \<open>BEGIN\<close>, rebuild it but for the pipe it writes to.\<close>

definition unpiped :: "command \<Rightarrow> command" where
  "unpiped c = c\<lparr>cmd_stdout := (case cmd_stdout c of Some (ToFile f) \<Rightarrow> cmd_stdout c | _ \<Rightarrow> None)\<rparr>"

lemma parse_words:
  assumes ok: "command_ok c"
  shows "run_steps parse_token (begin_parser pl []) (words_of c) = Inr (command_parser pl (unpiped c))"
proof -
  let ?e = "case env_vars c of None \<Rightarrow> [] | Some e \<Rightarrow> e"
  obtain args where a: "argv c = cmd_name c # args" using ok by (cases "argv c") (auto simp: command_ok_def)
  have env: "run_steps parse_token (begin_parser pl []) (case env_vars c of None \<Rightarrow> [] | Some e \<Rightarrow> env_words e)
      = Inr (begin_parser pl ?e)"
    using ok parse_env [of "[]" ?e pl] by (cases "env_vars c") (simp_all add: command_ok_def env_ok_def)
  have ev: "(if ?e \<noteq> [] then Some ?e else None) = env_vars c"
    using ok by (cases "env_vars c") (auto simp: command_ok_def env_ok_def)
  let ?c1 = "(new_command (cmd_name c))\<lparr>env_vars := env_vars c\<rparr>"
  have name: "parse_token (begin_parser pl ?e) (cmd_name c) = Inr (command_parser pl ?c1)"
    using parse_name [of "cmd_name c" pl ?e] ok unfolding ev command_ok_def by simp
  have args: "run_steps parse_token (command_parser pl ?c1) args = Inr (command_parser pl (?c1\<lparr>argv := argv c\<rparr>))"
    using parse_args [of args ?c1 pl] ok a by (simp add: command_ok_def new_command_def)
  have red: "run_steps parse_token (command_parser pl (?c1\<lparr>argv := argv c\<rparr>))
      ((case cmd_stdin c of None \<Rightarrow> [] | Some f \<Rightarrow> [''<'', f])
       @ (case cmd_stdout c of Some (ToFile f) \<Rightarrow> [''>'', f] | _ \<Rightarrow> [])
       @ (case cmd_stderr c of Some (ToFile f) \<Rightarrow> [''2>'', f] | Some STDOUT \<Rightarrow> [''2>&1''] | _ \<Rightarrow> []))
    = Inr (command_parser pl (unpiped c))"
    using parse_redirects [of "?c1\<lparr>argv := argv c\<rparr>" "cmd_stderr c" pl "cmd_stdin c" "cmd_stdout c"] ok
    by (simp add: new_command_def unpiped_def command_ok_def)
  show ?thesis unfolding words_of_def run_steps_append [of _ _ "case env_vars c of None \<Rightarrow> [] | Some e \<Rightarrow> env_words e"] env bind_res_simps
    unfolding a append_Cons run_steps.simps name bind_res_simps
    unfolding run_steps_append [of _ _ args] args [unfolded a] bind_res_simps by (rule red [unfolded a])
qed

lemma unpiped_id: "cmd_stdout c \<noteq> Some PIPE \<Longrightarrow> cmd_stdout c \<noteq> Some STDOUT \<Longrightarrow> unpiped c = c"
  by (auto simp: unpiped_def split: option.splits redirect.splits)

lemma parse_op:
  assumes "sends c op" and "cmd_stdout c \<noteq> Some STDOUT"
  shows "run_steps parse_token (command_parser pl (unpiped c)) (unparse_node op) = Inr (begin_parser (pl @ [Command c, op]) [])"
proof -
  from assms consider "op = Pipe" "cmd_stdout c = Some PIPE" | "op = And \<or> op = Or" "unpiped c = c"
    by (auto simp: sends_def unpiped_id)
  then show ?thesis
  proof cases
    case 1
    then have "(unpiped c)\<lparr>cmd_stdout := Some PIPE\<rparr> = c" "cmd_stdout (unpiped c) = None"
      by (simp_all add: unpiped_def)
    with 1 show ?thesis by (simp add: parse_token_def in_command_def commit_op_def commit_command_def Let_def)
  next
    case 2
    then show ?thesis by (auto simp: parse_token_def in_command_def commit_op_def commit_command_def Let_def)
  qed
qed

abbreviation chdir_parser :: "node list \<Rightarrow> string option \<Rightarrow> parser" where
  "chdir_parser pl d \<equiv> \<lparr>p_state = S_CHDIR, current_command = Some (Chdir d), pipeline = pl, p_env = []\<rparr>"

lemma parse_cd:
  assumes "node_ok (Chdir d)"
  shows "run_steps parse_token (begin_parser pl []) (unparse_node (Chdir d)) = Inr (chdir_parser pl d)"
proof -
  have "env_var_match ''cd'' = None" by code_simp
  with assms show ?thesis
    by (cases d) (simp_all add: node_ok_def parse_token_def in_begin_def in_chdir_def)
qed

lemma parse_shape:
  assumes "open_shape ns" and "list_all node_ok ns"
  shows "run_steps parse_token (begin_parser pl []) (unparse ns) = Inr (begin_parser (pl @ ns) [])"
  using assms
proof (induction ns arbitrary: pl rule: open_shape.induct)
  case 1
  then show ?case by (simp add: unparse_def)
next
  case (2 c op ns)
  then have ok: "command_ok c" "sends c op" "cmd_stdout c \<noteq> Some STDOUT" by (auto simp: node_ok_def command_ok_def)
  have "unparse (Command c # op # ns) = words_of c @ unparse_node op @ unparse ns" by (simp add: unparse_def)
  then show ?case
    using 2 parse_words [OF ok(1), of pl] parse_op [OF ok(2,3), of pl] by (simp add: run_steps_append)
next
  case (3 d op ns)
  then have ok: "node_ok (Chdir d)" "op = And" by auto
  have "unparse (Chdir d # op # ns) = unparse_node (Chdir d) @ [''&&''] @ unparse ns" by (simp add: unparse_def ok)
  moreover have "parse_token (chdir_parser pl d) ''&&'' = Inr (begin_parser (pl @ [Chdir d, And]) [])"
    by (simp add: parse_token_def in_chdir_def commit_op_def commit_command_def)
  ultimately show ?case using 3 parse_cd [OF ok(1), of pl] by (simp add: run_steps_append ok(2))
qed simp_all

section \<open>Running: lemmas\<close>



text \<open>The exit code of a pipeline: that of its last process, and none when one of its programs cannot be
  started.  \<open>&&\<close> and \<open>||\<close> of a list of exit codes: the first operator that is not satisfied ends the line,
  and so does a pipeline without an exit code.\<close>

definition pipeline_code :: "(string list \<Rightarrow> int option) \<Rightarrow> command list \<Rightarrow> int option" where
  "pipeline_code rc cs = (if list_all (\<lambda>c. rc (argv c) \<noteq> None) cs then rc (argv (last cs)) else None)"



text \<open>The files that a pipeline opens (a command behind a pipe does not open its input file, and the null
  device is not opened), and those that are open when the pipeline comes to a program that is not there.\<close>

definition opens :: "bool \<Rightarrow> command \<Rightarrow> string list" where
  "opens piped c =
     (case cmd_stdin c of Some f \<Rightarrow> if piped then [] else [f] | None \<Rightarrow> [])
     @ (case cmd_stdout c of Some (ToFile f) \<Rightarrow> if dev_null_name f then [] else [f] | _ \<Rightarrow> [])
     @ (case cmd_stderr c of Some (ToFile f) \<Rightarrow> if dev_null_name f then [] else [f] | _ \<Rightarrow> [])"





definition present :: "(string list \<Rightarrow> int option) \<Rightarrow> command list \<Rightarrow> bool" where
  "present rc cs \<longleftrightarrow> list_all (\<lambda>c. rc (argv c) \<noteq> None) cs"



lemma pipeline_code_present: "present rc cs \<Longrightarrow> cs \<noteq> [] \<Longrightarrow> \<exists>q. pipeline_code rc cs = Some q \<and> rc (argv (last cs)) = Some q"
  by (auto simp: pipeline_code_def present_def list_all_iff)

text \<open>A command line without directory changes.\<close>

fun plain :: "node list \<Rightarrow> bool" where
  "plain [Command c] = True"
| "plain (Command c # op # ns) \<longleftrightarrow> (op = Pipe \<or> op = And \<or> op = Or) \<and> plain ns"
| "plain ns = False"




definition files_ok :: "runner \<Rightarrow> bool" where
  "files_ok s \<longleftrightarrow> r_opened s = r_closed s @ r_open s"

definition stands :: "runner \<Rightarrow> string list \<Rightarrow> runner \<Rightarrow> bool" where
  "stands s fs t \<longleftrightarrow> r_procs t = r_procs s \<and> r_piped t = r_piped s \<and> r_cwd t = r_cwd s \<and> files_ok t
     \<and> r_open t = r_open s @ fs"

lemma stands_show [simp]: "stands s fs (show_word verbose w t) = stands s fs t"
  by (simp add: stands_def show_word_def files_ok_def)

lemma open_stdin_stands:
  assumes "\<forall>f. can_open f" and "r_piped s \<longrightarrow> r_procs s \<noteq> []" and "stands s [] t"
  shows "\<exists>t' inp. open_stdin can_open verbose c t = Inr (t', inp)
    \<and> stands s (case cmd_stdin c of Some f \<Rightarrow> if r_piped s then [] else [f] | None \<Rightarrow> []) t'"
  using assms
  by (cases "cmd_stdin c") (auto simp: open_stdin_def open_file_def stands_def files_ok_def show_word_def)

lemma open_stdout_stands:
  assumes "\<forall>f. can_open f" and "stands s fs t"
  shows "\<exists>t'. open_stdout can_open verbose c t = Inr t'
    \<and> stands s (fs @ (case cmd_stdout c of Some (ToFile f) \<Rightarrow> if dev_null_name f then [] else [f] | _ \<Rightarrow> [])) t'"
  using assms
  by (auto simp: open_stdout_def open_out_def open_file_def stands_def files_ok_def show_word_def
      split: option.splits redirect.splits)

lemma open_stderr_stands:
  assumes "\<forall>f. can_open f" and "stands s fs t"
  shows "\<exists>t'. open_stderr can_open verbose c t = Inr t'
    \<and> stands s (fs @ (case cmd_stderr c of Some (ToFile f) \<Rightarrow> if dev_null_name f then [] else [f] | _ \<Rightarrow> [])) t'"
  using assms
  by (auto simp: open_stderr_def open_out_def open_file_def stands_def files_ok_def show_word_def
      split: option.splits redirect.splits)

text \<open>Starting a command opens its files; then it starts the process, or raises with the files open.\<close>

lemma start_command_ok:
  assumes "\<forall>f. can_open f" and "r_piped s \<longrightarrow> r_procs s \<noteq> []" and "files_ok s"
  shows "\<exists>s' l. l_argv l = argv c \<and> files_ok s' \<and> r_open s' = r_open s @ opens (r_piped s) c
    \<and> r_procs s' = r_procs s @ (if exit_code l = None then [] else [l]) \<and> r_piped s' = r_piped s
    \<and> start_command exit_code can_open environ verbose c s = (if exit_code l = None then Inl (OSError, s') else Inr s')"
proof -
  have "stands s [] (show_word verbose (show_command c) s)" unfolding stands_show using assms(3) by (simp add: stands_def)
  from open_stdin_stands [OF assms(1,2) this] obtain s1 inp where
    s1: "open_stdin can_open verbose c (show_word verbose (show_command c) s) = Inr (s1, inp)"
      "stands s (case cmd_stdin c of Some f \<Rightarrow> if r_piped s then [] else [f] | None \<Rightarrow> []) s1" by blast
  from open_stdout_stands [OF assms(1) s1(2)] obtain s2 where
    s2: "open_stdout can_open verbose c s1 = Inr s2"
      "stands s ((case cmd_stdin c of Some f \<Rightarrow> if r_piped s then [] else [f] | None \<Rightarrow> [])
         @ (case cmd_stdout c of Some (ToFile f) \<Rightarrow> if dev_null_name f then [] else [f] | _ \<Rightarrow> [])) s2" by blast
  from open_stderr_stands [OF assms(1) s2(2)] obtain s3 where
    s3: "open_stderr can_open verbose c s2 = Inr s3" "stands s (opens (r_piped s) c) s3"
    by (auto simp: opens_def)
  define env where "env = (case env_vars c of
      Some (e # es) \<Rightarrow> Some (fold (\<lambda>(k, v). dict_set k v) (e # es) environ) | _ \<Rightarrow> None)"
  define proc where "proc = \<lparr>l_argv = argv c, l_stdin = inp, l_stdout = cmd_stdout c, l_stderr = cmd_stderr c,
      l_env = env, l_cwd = if r_cwd s3 = ''.'' then None else Some (r_cwd s3)\<rparr>"
  have r: "start_command exit_code can_open environ verbose c s = (if exit_code proc = None then Inl (OSError, s3)
      else Inr (s3\<lparr>r_procs := r_procs s3 @ [proc], r_started := r_started s3 @ [proc]\<rparr>))"
    unfolding start_command_def s1(1) bind_res_simps prod.case s2(1) s3(1) Let_def env_def [symmetric] proc_def [symmetric] ..
  show ?thesis
    by (rule exI [of _ "if exit_code proc = None then s3
          else s3\<lparr>r_procs := r_procs s3 @ [proc], r_started := r_started s3 @ [proc]\<rparr>"], rule exI [of _ proc])
      (use s3(2) in \<open>simp add: r stands_def files_ok_def, simp add: proc_def\<close>)
qed




lemma run_plain_verbose:
  assumes "plain p" and "\<forall>f. can_open f" and "r_piped s \<longrightarrow> r_procs s \<noteq> []" and "files_ok s"
    and "And \<in> set p \<or> Or \<in> set p" and "\<forall>l. exit_code l \<noteq> None"
  shows "\<exists>s'. run_nodes exit_code can_open environ True p s = Inl (UnboundLocalError, s')"
  using assms
proof (induction p arbitrary: s rule: plain.induct)
  case (2 c op ns)
  from start_command_ok [OF "2.prems"(2,3,4), of c exit_code environ True] obtain s1 l where
    s1: "start_command exit_code can_open environ True c s = Inr s1" "r_procs s1 = r_procs s @ [l]" "files_ok s1"
    using "2.prems"(6) by auto
  have ns: "plain ns" and "op = Pipe \<or> op = And \<or> op = Or" using "2.prems"(1) by auto
  then consider "op = Pipe" | "op = And \<or> op = Or" by blast
  then show ?case
  proof cases
    case 1
    have "\<exists>s'. run_nodes exit_code can_open environ True ns (s1\<lparr>r_piped := True, r_display := r_display s1 @ [''|'']\<rparr>)
        = Inl (UnboundLocalError, s')"
      by (rule "2.IH" [OF ns "2.prems"(2)]) (use s1 "2.prems"(5,6) 1 in \<open>simp_all add: files_ok_def\<close>)
    with 1 s1(1) show ?thesis by simp
  next
    case 2
    with s1(1) show ?thesis by (auto simp: Let_def)
  qed
qed auto









section \<open>Properties\<close>

text \<open>C18. The parser undoes printing: the words of any well-formed pipeline parse to that pipeline, and
  conversely whatever parses has the shape the runner expects (a command or directory change, then
  operators each followed by another one, with exactly the commands before a pipe writing to it).\<close>

theorem parse_roundtrip:
  assumes "runnable p" and "list_all node_ok p"
  shows "parse (unparse p) = Inr p \<and> (\<forall>tokens q. parse tokens = Inr q \<longrightarrow> runnable q)"
proof -
  from assms(1) obtain ns n where p: "p = ns @ [n]" and ns: "open_shape ns" and n: "closes n"
    by (auto simp: runnable_def)
  have ok: "list_all node_ok ns" "node_ok n" using assms(2) p by auto
  have pre: "run_steps parse_token (begin_parser [] []) (unparse ns) = Inr (begin_parser ns [])"
    using parse_shape [OF ns ok(1), of "[]"] by simp
  have split: "unparse p = unparse ns @ unparse_node n" by (simp add: p unparse_def)
  have "parse (unparse p) = Inr p"
  proof (cases n)
    case (Command c)
    then have c: "command_ok c" "unpiped c = c" using n ok(2)
      by (auto simp: closes_def node_ok_def command_ok_def intro: unpiped_id)
    show ?thesis unfolding parse_def split run_steps_append pre
      using parse_words [OF c(1), of ns] Command c(2) p by (simp add: commit_command_def)
  next
    case (Chdir d)
    then show ?thesis unfolding parse_def split run_steps_append pre
      using parse_cd [of d ns] ok(2) p by (simp add: commit_command_def)
  qed (use n in \<open>simp_all add: closes_def\<close>)
  with parse_runnable show ?thesis by blast
qed

theorem parse_roundtrip_witness:
  "parse [''A=1'', ''./foo.py'', ''<'', ''xxx'', ''2>&1'', ''|'', ''cat'', ''&&'', ''ls'', ''-l'']
     = Inr [Command \<lparr>cmd_name = ''./foo.py'', argv = [''./foo.py''], cmd_stdin = Some ''xxx'', cmd_stdout = Some PIPE,
              cmd_stderr = Some STDOUT, env_vars = Some [(''A'', ''1'')]\<rparr>, Pipe, Command (new_command ''cat''), And,
            Command ((new_command ''ls'')\<lparr>argv := [''ls'', ''-l'']\<rparr>)]"
proof -
  let ?p = "[Command \<lparr>cmd_name = ''./foo.py'', argv = [''./foo.py''], cmd_stdin = Some ''xxx'', cmd_stdout = Some PIPE,
              cmd_stderr = Some STDOUT, env_vars = Some [(''A'', ''1'')]\<rparr>, Pipe, Command (new_command ''cat''), And]"
  let ?l = "Command ((new_command ''ls'')\<lparr>argv := [''ls'', ''-l'']\<rparr>)"
  have "open_shape ?p \<and> closes ?l" by code_simp
  then have r: "runnable (?p @ [?l])" unfolding runnable_def by blast
  have "list_all node_ok (?p @ [?l])" by code_simp
  from parse_roundtrip [OF r this] have "parse (unparse (?p @ [?l])) = Inr (?p @ [?l])" by blast
  moreover have "unparse (?p @ [?l]) = [''A=1'', ''./foo.py'', ''<'', ''xxx'', ''2>&1'', ''|'', ''cat'', ''&&'', ''ls'', ''-l'']"
    by code_simp
  ultimately show ?thesis by simp
qed



text \<open>With \<open>verbose\<close> every command line that contains \<open>&&\<close> or \<open>||\<close> raises \<open>UnboundLocalError\<close>, whatever the
  commands return: the message formats \<open>retval\<close>, which is not assigned yet.\<close>

theorem run_verbose_raises:
  assumes "plain p" and "\<forall>f. can_open f" and "And \<in> set p \<or> Or \<in> set p" and "\<forall>l. exit_code l \<noteq> None"
  shows "\<exists>s. run exit_code can_open environ True p = Inl (UnboundLocalError, s)"
  unfolding run_def
  by (rule run_plain_verbose [OF assms(1,2) _ _ assms(3,4)]) (simp_all add: run_start_def files_ok_def)

theorem run_verbose_raises_witness:
  "\<exists>s. run (\<lambda>_. Some 0) (\<lambda>_. True) [] True [Command (new_command ''make''), And, Command (new_command ''ls'')]
     = Inl (UnboundLocalError, s)"
  by (rule run_verbose_raises) simp_all

end
