(* ===== verification/Check_Style.thy ===== *)
theory Check_Style
  imports Py_Strings
begin

text \<open>
  \<open>utils/check-style.py\<close>: the patch objects, the parser of unified diffs, the removal of changes that
  only strip white space at the end of a line, and the driver that re-indents files.  The programs
  it calls (\<open>uncrustify\<close>, \<open>difflib\<close>, \<open>patch\<close>) are parameters.
\<close>

section \<open>Patches\<close>

datatype line_kind = SRC | DST | BOTH

record chunk_line =
  l_kind :: line_kind
  l_text :: string

record chunk =
  c_lines :: "chunk_line list"
  c_src_pos :: int
  c_dst_pos :: int

record patch =
  p_src :: string
  p_dst :: string
  p_chunks :: "chunk list"

definition is_src :: "chunk_line \<Rightarrow> bool" where
  "is_src l \<longleftrightarrow> l_kind l = SRC \<or> l_kind l = BOTH"

definition is_dst :: "chunk_line \<Rightarrow> bool" where
  "is_dst l \<longleftrightarrow> l_kind l = DST \<or> l_kind l = BOTH"

text \<open>\<open>src()\<close> and \<open>dst()\<close> return the line objects themselves: the positions of the lines in the chunk.\<close>

definition src_lines :: "chunk \<Rightarrow> nat list" where
  "src_lines c = filter (\<lambda>i. is_src (c_lines c ! i)) [0..<length (c_lines c)]"

definition dst_lines :: "chunk \<Rightarrow> nat list" where
  "dst_lines c = filter (\<lambda>i. is_dst (c_lines c ! i)) [0..<length (c_lines c)]"

definition mark :: "line_kind \<Rightarrow> char" where
  "mark k = (case k of SRC \<Rightarrow> CHR ''-'' | DST \<Rightarrow> CHR ''+'' | BOTH \<Rightarrow> CHR '' '')"

definition write_line :: "chunk_line \<Rightarrow> string" where
  "write_line l = mark (l_kind l) # l_text l @ ''\<newline>''"

definition chunk_header :: "int \<Rightarrow> nat \<Rightarrow> int \<Rightarrow> nat \<Rightarrow> string" where
  "chunk_header sp sl dp dl =
     ''@@ -'' @ show_int sp @ '','' @ show_nat sl @ '' +'' @ show_int dp @ '','' @ show_nat dl @ '' @@\<newline>''"

definition write_chunk :: "chunk \<Rightarrow> string list" where
  "write_chunk c =
     chunk_header (c_src_pos c) (length (src_lines c)) (c_dst_pos c) (length (dst_lines c))
     # map write_line (c_lines c)"

definition write_patch :: "patch \<Rightarrow> string list" where
  "write_patch p =
     (''--- '' @ p_src p @ ''\<newline>'') # (''+++ '' @ p_dst p @ ''\<newline>'') # concat (map write_chunk (p_chunks p))"

section \<open>The parser\<close>

text \<open>\<open>(.*)$\<close>: the rest of the line, one newline at its end left out; no other newline in it.\<close>

definition to_eol :: "string \<Rightarrow> string option" where
  "to_eol s =
     (let t = (if s \<noteq> [] \<and> last s = CHR ''\<newline>'' then butlast s else s)
      in if CHR ''\<newline>'' \<in> set t then None else Some t)"

definition after :: "string \<Rightarrow> string \<Rightarrow> string option" where
  "after pre line = (if startswith line pre then to_eol (drop (length pre) line) else None)"

text \<open>\<open>^@@ -([0-9]+),([0-9]+) \+([0-9]+),([0-9]+) @@\<close>: the two positions as digit strings.\<close>

definition digits_then :: "string \<Rightarrow> string \<Rightarrow> (string \<times> string) option" where
  "digits_then sep s =
     (let d = takeWhile is_digit s; r = dropWhile is_digit s
      in if d \<noteq> [] \<and> startswith r sep then Some (d, drop (length sep) r) else None)"

definition match_header :: "string \<Rightarrow> (string \<times> string) option" where
  "match_header line =
     (if startswith line ''@@ -'' then
        (case digits_then '','' (drop 4 line) of
           None \<Rightarrow> None
         | Some (sp, r1) \<Rightarrow>
             (case digits_then '' +'' r1 of
                None \<Rightarrow> None
              | Some (_, r2) \<Rightarrow>
                  (case digits_then '','' r2 of
                     None \<Rightarrow> None
                   | Some (dp, r3) \<Rightarrow> map_option (\<lambda>_. (sp, dp)) (digits_then '' @@'' r3))))
      else None)"

text \<open>The patchset read so far: the current patch is its last one, the current chunk the last one read,
  which belongs to the patch that was current then (\<open>ps_chunk\<close>).\<close>

record patchset =
  ps :: "patch list"
  ps_chunk :: "nat option"

definition update_last :: "('a \<Rightarrow> 'a) \<Rightarrow> 'a list \<Rightarrow> 'a list" where
  "update_last f xs = (if xs = [] then [] else butlast xs @ [f (last xs)])"

definition add_line :: "line_kind \<Rightarrow> string \<Rightarrow> patchset \<Rightarrow> patchset res" where
  "add_line k text s =
     (case ps_chunk s of
        None \<Rightarrow> Inl UnboundLocalError
      | Some i \<Rightarrow>
          Inr (s\<lparr>ps := (ps s)[i := (ps s ! i)\<lparr>p_chunks :=
                 update_last (\<lambda>c. c\<lparr>c_lines := c_lines c @ [\<lparr>l_kind = k, l_text = text\<rparr>]\<rparr>) (p_chunks (ps s ! i))\<rparr>]\<rparr>))"

definition patch_line :: "patchset \<Rightarrow> string \<Rightarrow> patchset res" where
  "patch_line s line =
     (case after ''--- '' line of
        Some f \<Rightarrow> Inr (s\<lparr>ps := ps s @ [\<lparr>p_src = f, p_dst = [], p_chunks = []\<rparr>]\<rparr>)
      | None \<Rightarrow>
     (case after ''+++ '' line of
        Some f \<Rightarrow> (if ps s = [] then Inl AttributeError else Inr (s\<lparr>ps := update_last (\<lambda>p. p\<lparr>p_dst := f\<rparr>) (ps s)\<rparr>))
      | None \<Rightarrow>
     (case match_header line of
        Some (sp, dp) \<Rightarrow>
          (if ps s = [] then Inl AttributeError
           else Inr (s\<lparr>ps := update_last (\<lambda>p. p\<lparr>p_chunks := p_chunks p @
                          [\<lparr>c_lines = [], c_src_pos = int (digits_val sp), c_dst_pos = int (digits_val dp)\<rparr>]\<rparr>) (ps s),
                       ps_chunk := Some (length (ps s) - 1)\<rparr>))
      | None \<Rightarrow>
     (case after ''-'' line of Some t \<Rightarrow> add_line SRC t s | None \<Rightarrow>
     (case after ''+'' line of Some t \<Rightarrow> add_line DST t s | None \<Rightarrow>
     (case after '' '' line of Some t \<Rightarrow> add_line BOTH t s | None \<Rightarrow> Inl Exception))))))"

definition parse_patchset :: "string list \<Rightarrow> patch list res" where
  "parse_patchset generator =
     bind_res (run_steps patch_line \<lparr>ps = [], ps_chunk = None\<rparr> generator) (\<lambda>s. Inr (ps s))"

section \<open>White space at the end of lines\<close>

text \<open>
  \<open>^(.*)([ \t]+)$\<close>: the first group is greedy, so the second one is a single blank or tab.
\<close>

definition trailing_ws :: "string \<Rightarrow> (string \<times> string) option" where
  "trailing_ws s =
     (if s \<noteq> [] \<and> (last s = CHR '' '' \<or> last s = CHR 0x09) then Some (butlast s, [last s]) else None)"

definition restore_ws :: "chunk_line list \<Rightarrow> nat \<Rightarrow> nat \<Rightarrow> chunk_line list" where
  "restore_ws ls s d =
     (case trailing_ws (l_text (ls ! s)) of
        Some (t, w) \<Rightarrow> (if t = l_text (ls ! d) then ls[d := (ls ! d)\<lparr>l_text := l_text (ls ! d) @ w\<rparr>] else ls)
      | None \<Rightarrow> ls)"

text \<open>The loop over a chunk; the flag says that \<open>dst[i]\<close> raised, which ends everything.\<close>

fun restore_chunk :: "chunk_line list \<Rightarrow> nat list \<Rightarrow> nat list \<Rightarrow> chunk_line list \<times> bool" where
  "restore_chunk ls [] ds = (ls, False)"
| "restore_chunk ls (s # ss) [] = (ls, True)"
| "restore_chunk ls (s # ss) (d # ds) = restore_chunk (restore_ws ls s d) ss ds"

fun restore_chunks :: "chunk list \<Rightarrow> chunk list \<times> bool" where
  "restore_chunks [] = ([], False)"
| "restore_chunks (c # cs) =
     (case restore_chunk (c_lines c) (src_lines c) (dst_lines c) of
        (ls, True) \<Rightarrow> (c\<lparr>c_lines := ls\<rparr> # cs, True)
      | (ls, False) \<Rightarrow> (case restore_chunks cs of (cs', e) \<Rightarrow> (c\<lparr>c_lines := ls\<rparr> # cs', e)))"

fun restore_patches :: "patch list \<Rightarrow> patch list" where
  "restore_patches [] = []"
| "restore_patches (p # rest) =
     (case restore_chunks (p_chunks p) of
        (cs, True) \<Rightarrow> p\<lparr>p_chunks := cs\<rparr> # rest
      | (cs, False) \<Rightarrow> p\<lparr>p_chunks := cs\<rparr> # restore_patches rest)"

definition remove_trailing_whitespace_changes :: "string list \<Rightarrow> patch list res" where
  "remove_trailing_whitespace_changes generator =
     bind_res (parse_patchset generator) (\<lambda>pset. Inr (restore_patches pset))"

section \<open>The uncrustify configuration\<close>

definition config_level2 :: "string list" where
  "config_level2 =
    [''nl_collapse_empty_body=False'', ''nl_if_brace=Add'', ''nl_brace_else=Add'',
      ''nl_elseif_brace=Add'', ''nl_else_brace=Add'', ''nl_while_brace=Add'', ''nl_do_brace=Add'',
      ''nl_for_brace=Add'', ''nl_brace_while=Add'', ''nl_switch_brace=Add'', ''nl_after_case=True'',
      ''nl_namespace_brace=Remove'', ''nl_after_brace_open=True'', ''nl_class_leave_one_liners=False'',
      ''nl_enum_leave_one_liners=False'', ''nl_func_leave_one_liners=False'',
      ''nl_if_leave_one_liners=False'', ''nl_class_colon=Ignore'', ''nl_after_access_spec=1'',
      ''nl_after_semicolon=True'', ''pos_class_colon=Lead'', ''pos_class_comma=Trail'',
      ''pos_bool=Lead'', ''nl_class_init_args=Add'', ''nl_template_class=Add'', ''nl_class_brace=Add'',
      ''# does not work very well'', ''nl_func_type_name=Ignore'', ''nl_func_scope_name=Ignore'',
      ''nl_func_type_name_class=Ignore'', ''nl_func_proto_type_name=Ignore'', ''# function'' @ [CHR 0x5C] @ ''n('',
      ''nl_func_paren=Remove'', ''nl_fdef_brace=Add'', ''nl_struct_brace=Add'', ''nl_enum_brace=Add'',
      ''nl_union_brace=Add'', ''mod_full_brace_do=Add'', ''mod_full_brace_for=Add'',
      ''mod_full_brace_if=Add'', ''mod_full_brace_while=Add'', ''mod_full_brace_for=Add'',
      ''mod_remove_extra_semicolon=True'', ''# max code width'', ''#code_width=128'',
      ''#ls_for_split_full=True'', ''#ls_func_split_full=True'']"

definition config_level1 :: "string list" where
  "config_level1 =
    [''# extra spaces here and there'', ''sp_brace_typedef=Add'', ''sp_enum_assign=Add'',
      ''sp_before_sparen=Add'', ''sp_after_semi_for=Add'', ''sp_arith=Add'', ''sp_assign=Add'',
      ''sp_compare=Add'', ''sp_func_class_paren=Add'', ''sp_after_type=Add'', ''sp_type_func=Add'',
      ''sp_angle_paren=Add'']"

definition config_level0 :: "string list" where
  "config_level0 =
    [''sp_func_proto_paren=Add'', ''sp_func_def_paren=Add'', ''sp_func_call_paren=Add'',
      ''sp_after_semi_for=Ignore'', ''sp_before_sparen=Ignore'', ''sp_type_func=Ignore'',
      ''sp_after_type=Ignore'', ''nl_class_leave_one_liners=True'', ''nl_enum_leave_one_liners=True'',
      ''nl_func_leave_one_liners=True'', ''nl_assign_leave_one_liners=True'',
      ''#nl_collapse_empty_body=False'', ''nl_getset_leave_one_liners=True'',
      ''nl_if_leave_one_liners=True'', ''nl_fdef_brace=Ignore'',
      ''# finally, indentation configuration'', ''indent_with_tabs=0'', ''indent_namespace=false'',
      ''indent_columns=2'', ''indent_brace=2'', ''indent_case_brace=2'', ''indent_class=true'',
      ''indent_class_colon=True'', ''# alignment'', ''indent_align_assign=False'',
      ''align_left_shift=True'', ''# comment reformating disabled'',
      ''cmt_reflow_mode=1 # do not touch comments at all'',
      ''cmt_indent_multi=False # really, do not touch them'']"

definition uncrustify_config_file :: "int \<Rightarrow> string list" where
  "uncrustify_config_file level =
     ([] # config_level0) @ (if level \<ge> 1 then [] # config_level1 else [])
     @ (if level \<ge> 2 then [] # config_level2 else [])"

section \<open>indent and indent\_files\<close>

text \<open>
  The tools: \<open>uncrust\<close> takes a configuration and a file, \<open>diff\<close> the two names and files and yields the
  lines of a unified diff, \<open>apply\<close> applies a patch file to a file.  Files are lists of lines.  A
  generator is read once: with \<open>debug\<close> the diff is written to a file first and is empty afterwards.
\<close>

record tools =
  uncrust :: "string list \<Rightarrow> string list \<Rightarrow> string list"
  diff :: "string \<Rightarrow> string list \<Rightarrow> string list \<Rightarrow> string list"
  apply_patch :: "string list \<Rightarrow> string list \<Rightarrow> string list"

definition final_diff :: "int \<Rightarrow> string list \<Rightarrow> string list res" where
  "final_diff level d =
     (if level < 3 then
        bind_res (remove_trailing_whitespace_changes d) (\<lambda>pset. Inr (if pset = [] then [] else write_patch (hd pset)))
      else Inr d)"

definition indent_file :: "tools \<Rightarrow> bool \<Rightarrow> int \<Rightarrow> string \<Rightarrow> string list \<Rightarrow> string list res" where
  "indent_file t debug level name content =
     (let out = uncrust t (uncrustify_config_file level) content;
          d = diff t name content out;
          rest = (if debug then [] else d)
      in bind_res (final_diff level rest) (\<lambda>fd. Inr (apply_patch t fd content)))"

type_synonym files = "(string, string list) dict"

definition indent_all :: "tools \<Rightarrow> bool \<Rightarrow> int \<Rightarrow> files \<Rightarrow> string list \<Rightarrow> (string \<times> string list) list res" where
  "indent_all t debug level fs names =
     map_res (\<lambda>f. bind_res (of_opt IOError (map_of fs f)) (\<lambda>c.
                bind_res (indent_file t debug level f c) (\<lambda>out. Inr (f, out)))) names"

text \<open>The result: whether all is well, the files afterwards, and the badly indented files.\<close>

definition indent_files ::
  "tools \<Rightarrow> bool \<Rightarrow> int \<Rightarrow> bool \<Rightarrow> files \<Rightarrow> string list \<Rightarrow> (bool \<times> files \<times> string list) res" where
  "indent_files t debug level inplace fs names =
     bind_res (indent_all t debug level fs names) (\<lambda>output.
       if inplace then Inr (True, fold (\<lambda>(f, out). dict_set f out) output fs, [])
       else let failed = filter (\<lambda>(f, out). map_of fs f \<noteq> Some out) output
            in Inr (failed = [], fs, map fst failed))"

record options =
  o_hg_hook :: bool
  o_hg :: bool
  o_file :: string
  o_debug :: bool
  o_level :: int
  o_in_place :: bool

text \<open>\<open>run_as_main\<close>: the exit status and the files afterwards; \<open>modified\<close> is what \<open>hg st -nma\<close> lists.\<close>

definition run_as_main :: "tools \<Rightarrow> string list \<Rightarrow> options \<Rightarrow> files \<Rightarrow> (int \<times> files) res" where
  "run_as_main t modified opts fs =
     (let call = (\<lambda>names inplace. indent_files t (o_debug opts) (o_level opts) inplace fs names) in
      if o_hg_hook opts then
        bind_res (call (map strip modified) False) (\<lambda>(ok, fs', _). Inr (if ok then 0 else 1, fs'))
      else if o_hg opts then
        bind_res (call (map strip modified) (o_in_place opts)) (\<lambda>(_, fs', _). Inr (0, fs'))
      else if o_file opts \<noteq> [] then
        (if map_of fs (o_file opts) = None then Inr (1, fs)
         else bind_res (call [o_file opts] (o_in_place opts)) (\<lambda>(_, fs', _). Inr (0, fs')))
      else Inr (0, fs))"

section \<open>Reading a written patch\<close>

definition text_ok :: "chunk_line \<Rightarrow> bool" where
  "text_ok l \<longleftrightarrow> CHR ''\<newline>'' \<notin> set (l_text l) \<and>
     (l_kind l = SRC \<longrightarrow> \<not> startswith (l_text l) ''-- '') \<and> (l_kind l = DST \<longrightarrow> \<not> startswith (l_text l) ''++ '')"

definition chunk_ok :: "chunk \<Rightarrow> bool" where
  "chunk_ok c \<longleftrightarrow> list_all text_ok (c_lines c) \<and> 0 \<le> c_src_pos c \<and> 0 \<le> c_dst_pos c"

definition patch_ok :: "patch \<Rightarrow> bool" where
  "patch_ok p \<longleftrightarrow> CHR ''\<newline>'' \<notin> set (p_src p) \<and> CHR ''\<newline>'' \<notin> set (p_dst p) \<and> list_all chunk_ok (p_chunks p)"

lemma to_eol_line [simp]: "CHR ''\<newline>'' \<notin> set t \<Longrightarrow> to_eol (t @ ''\<newline>'') = Some t"
  by (simp add: to_eol_def)

lemma after_append [simp]: "CHR ''\<newline>'' \<notin> set t \<Longrightarrow> after pre (pre @ t @ ''\<newline>'') = Some t"
  by (simp add: after_def)

lemma after_head: "pre \<noteq> [] \<Longrightarrow> line = [] \<or> hd line \<noteq> hd pre \<Longrightarrow> after pre line = None"
  by (cases pre; cases line) (auto simp: after_def)

lemma write_line_parts:
  assumes "text_ok l"
  shows "after ''--- '' (write_line l) = None" "after ''+++ '' (write_line l) = None" "match_header (write_line l) = None"
proof -
  obtain k t where l: "l = \<lparr>l_kind = k, l_text = t\<rparr>" by (cases l) simp
  have s: "take 3 (t @ ''\<newline>'') = u \<Longrightarrow> CHR ''\<newline>'' \<notin> set u \<Longrightarrow> length u = 3 \<Longrightarrow> take 3 t = u" for u
    by (cases "length t \<le> 2") (auto simp: take_append)
  have u: "CHR ''\<newline>'' \<notin> set ''-- ''" "CHR ''\<newline>'' \<notin> set ''++ ''" by simp_all
  have "take 3 (t @ ''\<newline>'') \<noteq> ''-- ''" if "k = SRC"
    using s [of "''-- ''"] u assms that by (auto simp: l text_ok_def numeral_3_eq_3)
  then show "after ''--- '' (write_line l) = None"
    by (cases k) (simp_all add: l write_line_def mark_def after_def numeral_3_eq_3)
  have "take 3 (t @ ''\<newline>'') \<noteq> ''++ ''" if "k = DST"
    using s [of "''++ ''"] u assms that by (auto simp: l text_ok_def numeral_3_eq_3)
  then show "after ''+++ '' (write_line l) = None"
    by (cases k) (simp_all add: l write_line_def mark_def after_def numeral_3_eq_3)
  show "match_header (write_line l) = None"
    by (cases k) (simp_all add: l write_line_def mark_def match_header_def)
qed

lemma add_text:
  assumes "text_ok l"
  shows "patch_line s (write_line l) = add_line (l_kind l) (l_text l) s"
proof -
  have t: "CHR ''\<newline>'' \<notin> set (l_text l)" using assms by (simp add: text_ok_def)
  have "write_line l = [mark (l_kind l)] @ l_text l @ ''\<newline>''" by (simp add: write_line_def)
  with t have "after [mark (l_kind l)] (write_line l) = Some (l_text l)"
    using after_append [of "l_text l" "[mark (l_kind l)]"] by (simp only: simp_thms)
  then show ?thesis using write_line_parts [OF assms]
    by (cases "l_kind l") (simp_all add: patch_line_def mark_def after_head write_line_def)
qed

lemma digits_then_show: "digits_then (c # sep) (show_nat n @ (c # sep) @ r) = Some (show_nat n, r)" if "\<not> is_digit c"
proof -
  have d: "\<forall>x \<in> set (show_nat n). is_digit x" by (auto dest: show_nat_digit)
  have "takeWhile is_digit (show_nat n @ (c # sep) @ r) = show_nat n"
    "dropWhile is_digit (show_nat n @ (c # sep) @ r) = (c # sep) @ r"
    using d that by (simp_all add: takeWhile_append dropWhile_append)
  then show ?thesis by (simp add: digits_then_def Let_def)
qed

lemma header_read:
  assumes "0 \<le> sp" and "0 \<le> dp"
  shows "match_header (chunk_header sp sl dp dl) = Some (show_nat (nat sp), show_nat (nat dp))"
proof -
  have n: "\<not> is_digit CHR '',''" "\<not> is_digit CHR '' ''" by (simp_all add: is_digit_def code_def)
  have h: "chunk_header sp sl dp dl = ''@@ -'' @ show_nat (nat sp) @ '','' @ show_nat sl @ '' +'' @ show_nat (nat dp) @ '',''
      @ show_nat dl @ '' @@'' @ ''\<newline>''"
    using assms by (simp add: chunk_header_def show_int_def)
  have "drop 4 (chunk_header sp sl dp dl) = show_nat (nat sp) @ '','' @ show_nat sl @ '' +'' @ show_nat (nat dp) @ '',''
      @ show_nat dl @ '' @@'' @ ''\<newline>''" by (simp add: h)
  moreover have "startswith (chunk_header sp sl dp dl) ''@@ -''" by (simp add: h)
  ultimately show ?thesis by (simp only: match_header_def digits_then_show n if_True option.case prod.case option.map simp_thms)
qed

lemma update_last_snoc [simp]: "update_last f (xs @ [x]) = xs @ [f x]"
  by (simp add: update_last_def)

abbreviation with_last :: "patch list \<Rightarrow> patch \<Rightarrow> chunk list \<Rightarrow> chunk \<Rightarrow> patchset" where
  "with_last done p cs c \<equiv> \<lparr>ps = done @ [p\<lparr>p_chunks := cs @ [c]\<rparr>], ps_chunk = Some (length done)\<rparr>"

lemma read_lines:
  "list_all text_ok ls \<Longrightarrow>
    run_steps patch_line (with_last before p cs c) (map write_line ls) = Inr (with_last before p cs (c\<lparr>c_lines := c_lines c @ ls\<rparr>))"
proof (induction ls arbitrary: c)
  case Nil
  then show ?case by simp
next
  case (Cons l ls)
  then have l: "text_ok l" by simp
  have "patch_line (with_last before p cs c) (write_line l)
      = Inr (with_last before p cs (c\<lparr>c_lines := c_lines c @ [\<lparr>l_kind = l_kind l, l_text = l_text l\<rparr>]\<rparr>))"
    unfolding add_text [OF l] by (simp add: add_line_def nth_append)
  also have "\<lparr>l_kind = l_kind l, l_text = l_text l\<rparr> = l" by (cases l) simp
  finally show ?case using Cons by simp
qed

lemma read_chunk:
  assumes "chunk_ok c"
  shows "run_steps patch_line \<lparr>ps = before @ [p\<lparr>p_chunks := cs\<rparr>], ps_chunk = i\<rparr> (write_chunk c)
    = Inr \<lparr>ps = before @ [p\<lparr>p_chunks := cs @ [c]\<rparr>], ps_chunk = Some (length before)\<rparr>"
proof -
  let ?h = "chunk_header (c_src_pos c) (length (src_lines c)) (c_dst_pos c) (length (dst_lines c))"
  let ?c0 = "\<lparr>c_lines = [], c_src_pos = c_src_pos c, c_dst_pos = c_dst_pos c\<rparr>"
  have m: "match_header ?h = Some (show_nat (nat (c_src_pos c)), show_nat (nat (c_dst_pos c)))"
    using assms by (intro header_read) (simp_all add: chunk_ok_def)
  have a: "after ''--- '' ?h = None" "after ''+++ '' ?h = None"
    by (rule after_head; simp add: chunk_header_def)+
  have "patch_line \<lparr>ps = before @ [p\<lparr>p_chunks := cs\<rparr>], ps_chunk = i\<rparr> ?h = Inr (with_last before p cs ?c0)"
    using assms unfolding patch_line_def m a by (simp add: chunk_ok_def)
  moreover have "list_all text_ok (c_lines c)" using assms by (simp add: chunk_ok_def)
  from read_lines [OF this, where ?before = before and ?p = p and ?cs = cs and ?c = ?c0]
  have "run_steps patch_line (with_last before p cs ?c0) (map write_line (c_lines c)) = Inr (with_last before p cs c)"
    by (simp only:) simp
  ultimately show ?thesis unfolding write_chunk_def by simp
qed

lemma read_chunks:
  assumes "list_all chunk_ok new"
  shows "\<exists>j. run_steps patch_line \<lparr>ps = before @ [p\<lparr>p_chunks := cs\<rparr>], ps_chunk = i\<rparr> (concat (map write_chunk new))
    = Inr \<lparr>ps = before @ [p\<lparr>p_chunks := cs @ new\<rparr>], ps_chunk = j\<rparr>"
  using assms
proof (induction new arbitrary: cs i)
  case Nil
  then show ?case by simp
next
  case (Cons c new)
  from Cons.IH [of "cs @ [c]" "Some (length before)"] Cons.prems read_chunk [where ?c = c and ?before = before and ?p = p and ?cs = cs and ?i = i]
  show ?case by (simp add: run_steps_append)
qed

lemma read_patch:
  assumes "patch_ok p"
  shows "\<exists>j. run_steps patch_line \<lparr>ps = before, ps_chunk = i\<rparr> (write_patch p) = Inr \<lparr>ps = before @ [p], ps_chunk = j\<rparr>"
proof -
  have nl: "CHR ''\<newline>'' \<notin> set (p_src p)" "CHR ''\<newline>'' \<notin> set (p_dst p)" and cs: "list_all chunk_ok (p_chunks p)"
    using assms by (simp_all add: patch_ok_def)
  let ?p1 = "\<lparr>p_src = p_src p, p_dst = [], p_chunks = []\<rparr>"
  have "patch_line \<lparr>ps = before, ps_chunk = i\<rparr> (''--- '' @ p_src p @ ''\<newline>'') = Inr \<lparr>ps = before @ [?p1], ps_chunk = i\<rparr>"
    unfolding patch_line_def after_append [OF nl(1)] by simp
  moreover have "after ''--- '' (''+++ '' @ p_dst p @ ''\<newline>'') = None" by (rule after_head) simp_all
  then have "patch_line \<lparr>ps = before @ [?p1], ps_chunk = i\<rparr> (''+++ '' @ p_dst p @ ''\<newline>'')
      = Inr \<lparr>ps = before @ [p\<lparr>p_chunks := []\<rparr>], ps_chunk = i\<rparr>"
    unfolding patch_line_def after_append [OF nl(2)] by (cases p) simp
  moreover from read_chunks [OF cs, where ?before = before and ?p = p and ?cs = "[]" and ?i = i] obtain j where
    "run_steps patch_line \<lparr>ps = before @ [p\<lparr>p_chunks := []\<rparr>], ps_chunk = i\<rparr> (concat (map write_chunk (p_chunks p)))
      = Inr \<lparr>ps = before @ [p\<lparr>p_chunks := p_chunks p\<rparr>], ps_chunk = j\<rparr>" by auto
  ultimately show ?thesis unfolding write_patch_def by (simp del: append.simps)
qed

lemma read_patches:
  assumes "list_all patch_ok new"
  shows "\<exists>j. run_steps patch_line \<lparr>ps = before, ps_chunk = i\<rparr> (concat (map write_patch new)) = Inr \<lparr>ps = before @ new, ps_chunk = j\<rparr>"
  using assms
proof (induction new arbitrary: before i)
  case Nil
  then show ?case by simp
next
  case (Cons p new)
  then obtain j where j: "run_steps patch_line \<lparr>ps = before, ps_chunk = i\<rparr> (write_patch p) = Inr \<lparr>ps = before @ [p], ps_chunk = j\<rparr>"
    using read_patch [of p before i] by auto
  from Cons.IH [of "before @ [p]" j] Cons.prems j show ?case by (simp add: run_steps_append)
qed

text \<open>C29. Writing a list of patches and parsing the lines again gives the patches back, for
  patches as the parser makes them: positions that are not negative, no newline in a text, and no
  removed line that looks like a file header.
\<close>

theorem patches_roundtrip: "list_all patch_ok pset \<Longrightarrow> parse_patchset (concat (map write_patch pset)) = Inr pset"
  using read_patches [of pset "[]" None] by (auto simp: parse_patchset_def)

definition sample_patch :: patch where
  "sample_patch = \<lparr>p_src = ''a.cc'', p_dst = ''b.cc'', p_chunks =
     [\<lparr>c_lines = [\<lparr>l_kind = BOTH, l_text = ''{''\<rparr>, \<lparr>l_kind = SRC, l_text = ''x ''\<rparr>, \<lparr>l_kind = DST, l_text = ''x''\<rparr>],
       c_src_pos = 1, c_dst_pos = 1\<rparr>]\<rparr>"

theorem patches_roundtrip_witness: "parse_patchset (concat (map write_patch [sample_patch])) = Inr [sample_patch]"
  by (rule patches_roundtrip) (simp add: sample_patch_def patch_ok_def chunk_ok_def text_ok_def)

section \<open>What the removal of white space changes can do to a patch\<close>

definition line_rel :: "chunk_line \<Rightarrow> chunk_line \<Rightarrow> bool" where
  "line_rel a b \<longleftrightarrow> b = a \<or> is_dst a \<and> (\<exists>w. (w = CHR '' '' \<or> w = CHR 0x09) \<and> b = a\<lparr>l_text := l_text a @ [w]\<rparr>)"

definition chunk_rel :: "chunk \<Rightarrow> chunk \<Rightarrow> bool" where
  "chunk_rel c d \<longleftrightarrow> list_all2 line_rel (c_lines c) (c_lines d) \<and> d = c\<lparr>c_lines := c_lines d\<rparr>"

definition patch_rel :: "patch \<Rightarrow> patch \<Rightarrow> bool" where
  "patch_rel p q \<longleftrightarrow> list_all2 chunk_rel (p_chunks p) (p_chunks q) \<and> q = p\<lparr>p_chunks := p_chunks q\<rparr>"

lemma line_rel_refl [simp]: "line_rel a a"
  by (simp add: line_rel_def)

lemma chunk_rel_refl [simp]: "chunk_rel c c"
  by (simp add: chunk_rel_def list_all2_refl)

lemma patch_rel_refl [simp]: "patch_rel p p"
  by (simp add: patch_rel_def list_all2_refl)

lemma restore_ws_length [simp]: "length (restore_ws ls s d) = length ls"
  by (simp add: restore_ws_def split: option.split)

lemma restore_ws_nth:
  "d < length ls \<Longrightarrow> j < length ls \<Longrightarrow> is_dst (ls ! d) \<Longrightarrow>
    (j \<noteq> d \<longrightarrow> restore_ws ls s d ! j = ls ! j) \<and> line_rel (ls ! j) (restore_ws ls s d ! j)"
  by (auto simp: restore_ws_def trailing_ws_def line_rel_def nth_list_update split: option.split if_splits)

lemma restore_chunk_nth:
  assumes "restore_chunk ls ss ds = (ls', e)" and "distinct ds"
    and "\<And>d. d \<in> set ds \<Longrightarrow> d < length ls \<and> is_dst (ls ! d)"
  shows "length ls' = length ls \<and> (\<forall>j < length ls. line_rel (ls ! j) (ls' ! j) \<and> (j \<notin> set ds \<longrightarrow> ls' ! j = ls ! j))"
  using assms
proof (induction ls ss ds rule: restore_chunk.induct)
  case (3 ls s ss d ds)
  let ?m = "restore_ws ls s d"
  have d: "d < length ls" "is_dst (ls ! d)" using 3(4) by auto
  have other: "?m ! j = ls ! j" if "j \<noteq> d" "j < length ls" for j
    using restore_ws_nth [OF d(1) that(2) d(2), of s] that by simp
  have "length ls' = length ?m \<and> (\<forall>j < length ?m. line_rel (?m ! j) (ls' ! j) \<and> (j \<notin> set ds \<longrightarrow> ls' ! j = ?m ! j))"
  proof (rule "3.IH")
    show "restore_chunk ?m ss ds = (ls', e)" "distinct ds" using 3(2,3) by simp_all
    show "k < length ?m \<and> is_dst (?m ! k)" if "k \<in> set ds" for k
      using 3(3) 3(4) [of k] other [of k] that by (cases "k = d") auto
  qed
  then have len: "length ls' = length ls" and rel: "\<And>j. j < length ls \<Longrightarrow> line_rel (?m ! j) (ls' ! j)"
    and keep: "\<And>j. j < length ls \<Longrightarrow> j \<notin> set ds \<Longrightarrow> ls' ! j = ?m ! j" by simp_all
  have "line_rel (ls ! d) (?m ! d)" using restore_ws_nth [OF d(1) d(1) d(2)] by simp
  with keep [OF d(1)] 3(3) have "line_rel (ls ! d) (ls' ! d)" by simp
  then have "line_rel (ls ! j) (ls' ! j)" if "j < length ls" for j
    using rel [OF that] other [OF _ that] by (cases "j = d") simp_all
  moreover have "ls' ! j = ls ! j" if "j < length ls" "j \<notin> set (d # ds)" for j
    using keep [OF that(1)] other [OF _ that(1)] that(2) by simp
  ultimately show ?case using len by blast
qed simp_all

lemma restore_chunks_rel: "restore_chunks cs = (cs', e) \<Longrightarrow> list_all2 chunk_rel cs cs'"
proof (induction cs arbitrary: cs' e)
  case (Cons c cs)
  obtain ls f where r: "restore_chunk (c_lines c) (src_lines c) (dst_lines c) = (ls, f)" by fastforce
  have dst: "\<And>d. d \<in> set (dst_lines c) \<Longrightarrow> d < length (c_lines c) \<and> is_dst (c_lines c ! d)" "distinct (dst_lines c)"
    by (simp_all add: dst_lines_def)
  have "chunk_rel c (c\<lparr>c_lines := ls\<rparr>)"
    using restore_chunk_nth [OF r dst(2,1)] by (simp add: chunk_rel_def list_all2_conv_all_nth)
  then show ?case using Cons.IH Cons.prems r
    by (cases f; cases "restore_chunks cs") (auto simp: list_all2_refl)
qed simp

lemma restore_patches_rel: "list_all2 patch_rel pset (restore_patches pset)"
proof (induction pset)
  case (Cons p rest)
  obtain cs f where r: "restore_chunks (p_chunks p) = (cs, f)" by fastforce
  then have "patch_rel p (p\<lparr>p_chunks := cs\<rparr>)" using restore_chunks_rel [OF r] by (simp add: patch_rel_def)
  with Cons r show ?case by (cases f) (simp_all add: list_all2_refl)
qed simp

text \<open>Removing the changes in trailing white space keeps the patches, chunks and positions; the only
  thing it does to a line is to append a single blank or tab to it, and only to a line of the new side.
\<close>

theorem restoring_white_space_is_conservative:
  assumes "remove_trailing_whitespace_changes generator = Inr pset'"
  shows "\<exists>pset. parse_patchset generator = Inr pset \<and> list_all2 patch_rel pset pset'"
  using assms restore_patches_rel
  by (cases "parse_patchset generator") (auto simp: remove_trailing_whitespace_changes_def)

theorem restoring_white_space_is_conservative_witness:
  "\<exists>pset. parse_patchset (write_patch sample_patch) = Inr pset \<and> list_all2 patch_rel pset
     [sample_patch\<lparr>p_chunks := [\<lparr>c_lines = [\<lparr>l_kind = BOTH, l_text = ''{''\<rparr>, \<lparr>l_kind = SRC, l_text = ''x ''\<rparr>,
        \<lparr>l_kind = DST, l_text = ''x ''\<rparr>], c_src_pos = 1, c_dst_pos = 1\<rparr>]\<rparr>]"
  by (rule restoring_white_space_is_conservative) code_simp

section \<open>The driver in debug mode\<close>

lemma indent_file_debug: "indent_file t True level name content = Inr (apply_patch t [] content)"
  by (simp add: indent_file_def final_diff_def remove_trailing_whitespace_changes_def parse_patchset_def)

lemma in_files: "f \<in> set (map fst fs) \<Longrightarrow> map_of fs f = Some (the (map_of fs f))"
  by (cases "map_of fs f") (simp_all add: map_of_eq_None_iff)

lemma indent_all_debug:
  assumes "\<And>c. apply_patch t [] c = c" and "set names \<subseteq> set (map fst fs)"
  shows "indent_all t True level fs names = Inr (map (\<lambda>f. (f, the (map_of fs f))) names)"
  using assms(2)
proof (induction names)
  case (Cons f names)
  then obtain c where "map_of fs f = Some c" using in_files [of f fs] by auto
  with Cons show ?case by (simp add: indent_all_def indent_file_debug assms(1))
qed (simp add: indent_all_def)

lemma fold_same:
  "\<forall>(f, c) \<in> set kvs. map_of fs f = Some c \<Longrightarrow> map_of (fold (\<lambda>(f, c). dict_set f c) kvs fs) = map_of fs"
  by (induction kvs arbitrary: fs) (auto simp: fun_upd_idem)

text \<open>In debug mode the diff has been consumed by the debug output when it is filtered and applied: if
  an empty patch changes nothing, \<open>--in-place\<close> rewrites every file with its own content.
\<close>

theorem debug_mode_indents_nothing:
  assumes "\<And>c. apply_patch t [] c = c" and "set names \<subseteq> set (map fst fs)"
  shows "\<exists>fs'. indent_files t True level True fs names = Inr (True, fs', []) \<and> map_of fs' = map_of fs"
proof -
  have "\<forall>(f, c) \<in> set (map (\<lambda>f. (f, the (map_of fs f))) names). map_of fs f = Some c"
    using assms(2) in_files [of _ fs] by auto
  from fold_same [OF this] show ?thesis
    by (simp add: indent_files_def indent_all_debug [OF assms])
qed

theorem debug_mode_indents_nothing_witness:
  "\<exists>fs'. indent_files \<lparr>uncrust = (\<lambda>_ c. map rstrip c), diff = (\<lambda>n a b. map (Cons CHR ''-'') a @ map (Cons CHR ''+'') b),
       apply_patch = (\<lambda>d c. if d = [] then c else drop (length c) d)\<rparr> True 3 True [(''a.cc'', [''x ''])] [''a.cc'']
     = Inr (True, fs', []) \<and> map_of fs' = map_of [(''a.cc'', [''x ''])]"
  by (rule debug_mode_indents_nothing) simp_all

end
