(* ===== verification/Ns3rc.thy ===== *)
theory Ns3rc
  imports Py_Strings
begin

text \<open>
  \<open>utils.py\<close>: reading a list or a boolean out of a Python file without importing it, and the
  \<open>.ns3rc\<close> configuration file.  A file is the list of its lines, an absent file is \<^const>\<open>None\<close>;
  Python's \<open>eval\<close> is a parameter.
\<close>

section \<open>get\_list\_from\_file\<close>

definition uncomment :: "string \<Rightarrow> string" where
  "uncomment line = (if CHR ''#'' \<in> set line then hd (split_once CHR ''#'' line) else line)"

text \<open>\<open>eval(text.split('=', 1)[1].strip())\<close>\<close>

definition eval_rhs :: "(string \<Rightarrow> 'a res) \<Rightarrow> string \<Rightarrow> 'a res" where
  "eval_rhs ev text = bind_res (py_nth (split_once CHR ''='' text) 1) (\<lambda>r. ev (strip r))"

fun find_list :: "(string \<Rightarrow> 'a list res) \<Rightarrow> string \<Rightarrow> string \<Rightarrow> bool \<Rightarrow> string list \<Rightarrow> 'a list res" where
  "find_list ev list_name list_string multi [] = Inr []"
| "find_list ev list_name list_string multi (l # ls) =
     (let line = uncomment l in
      if contains list_name line \<or> multi then
        (let list_string' = list_string @ line in
         if CHR '']'' \<notin> set list_string' then find_list ev list_name list_string' True ls
         else eval_rhs ev list_string')
      else find_list ev list_name list_string multi ls)"

definition get_list_from_file :: "(string \<Rightarrow> 'a list res) \<Rightarrow> string list option \<Rightarrow> string \<Rightarrow> 'a list res" where
  "get_list_from_file ev file list_name =
     (case file of None \<Rightarrow> Inr [] | Some ls \<Rightarrow> find_list ev list_name [] False ls)"

section \<open>get\_bool\_from\_file\<close>

fun find_bool :: "(string \<Rightarrow> bool res) \<Rightarrow> string \<Rightarrow> string list \<Rightarrow> bool option res" where
  "find_bool ev bool_name [] = Inr None"
| "find_bool ev bool_name (l # ls) =
     (let line = uncomment l in
      if contains bool_name line then bind_res (eval_rhs ev line) (\<lambda>b. Inr (Some b))
      else find_bool ev bool_name ls)"

text \<open>Without the file \<open>bool_found\<close> is never assigned.\<close>

definition get_bool_from_file :: "(string \<Rightarrow> bool res) \<Rightarrow> string list option \<Rightarrow> string \<Rightarrow> bool \<Rightarrow> bool res" where
  "get_bool_from_file ev file bool_name value_if_missing =
     (case file of
        None \<Rightarrow> Inl UnboundLocalError
      | Some ls \<Rightarrow> bind_res (find_bool ev bool_name ls) (\<lambda>b. Inr (case b of Some v \<Rightarrow> v | None \<Rightarrow> value_if_missing)))"

section \<open>read\_config\_file\<close>

record ns3rc =
  config_file_exists :: bool
  modules_enabled :: "string list"
  examples_enabled :: bool
  tests_enabled :: bool

text \<open>\<open>here\<close> is \<open>.ns3rc\<close> in the working directory, \<open>home\<close> the one in the home directory.\<close>

definition read_config_file ::
  "(string \<Rightarrow> string list res) \<Rightarrow> (string \<Rightarrow> bool res) \<Rightarrow> string list option \<Rightarrow> string list option \<Rightarrow> ns3rc res" where
  "read_config_file ev_list ev_bool here home =
     (if here = None \<and> home = None then
        Inr \<lparr>config_file_exists = False, modules_enabled = [''all_modules''], examples_enabled = False, tests_enabled = False\<rparr>
      else
        let file = (if here = None then home else here) in
        bind_res (get_list_from_file ev_list file ''modules_enabled'') (\<lambda>ms.
        bind_res (get_bool_from_file ev_bool file ''examples_enabled'' False) (\<lambda>es.
        bind_res (get_bool_from_file ev_bool file ''tests_enabled'' False) (\<lambda>ts.
        Inr \<lparr>config_file_exists = True, modules_enabled = (if ms = [] then [''all_modules''] else ms),
             examples_enabled = es, tests_enabled = ts\<rparr>))))"

section \<open>What is read\<close>

text \<open>The text of an assignment: from the first line that has the name to the first closing bracket.\<close>

fun upto_bracket :: "string \<Rightarrow> string list \<Rightarrow> string option" where
  "upto_bracket acc [] = None"
| "upto_bracket acc (l # ls) = (if CHR '']'' \<in> set (acc @ l) then Some (acc @ l) else upto_bracket (acc @ l) ls)"

definition assignment_text :: "string \<Rightarrow> string list \<Rightarrow> string option" where
  "assignment_text list_name ls =
     upto_bracket [] (dropWhile (\<lambda>l. \<not> contains list_name l) (map uncomment ls))"

lemma find_list_multi:
  "find_list ev list_name acc True ls = (case upto_bracket acc (map uncomment ls) of None \<Rightarrow> Inr [] | Some t \<Rightarrow> eval_rhs ev t)"
  by (induction ls arbitrary: acc) (simp_all add: Let_def)

lemma find_list_text:
  "find_list ev list_name [] False ls = (case assignment_text list_name ls of None \<Rightarrow> Inr [] | Some t \<Rightarrow> eval_rhs ev t)"
  unfolding assignment_text_def by (induction ls) (simp_all add: Let_def find_list_multi)

lemma upto_bracket_prefix: "upto_bracket acc ls = Some t \<Longrightarrow> \<exists>n. t = acc @ concat (take n ls) \<and> CHR '']'' \<in> set t"
proof (induction ls arbitrary: acc)
  case (Cons l ls)
  show ?case
  proof (cases "CHR '']'' \<in> set (acc @ l)")
    case True
    with Cons.prems have "t = acc @ concat (take 1 (l # ls)) \<and> CHR '']'' \<in> set t" by auto
    then show ?thesis ..
  next
    case False
    with Cons.prems have "upto_bracket (acc @ l) ls = Some t" by simp
    from Cons.IH [OF this] obtain n where "t = (acc @ l) @ concat (take n ls) \<and> CHR '']'' \<in> set t" by blast
    then have "t = acc @ concat (take (Suc n) (l # ls)) \<and> CHR '']'' \<in> set t" by auto
    then show ?thesis ..
  qed
qed simp

lemma get_list_empty_or_eval:
  "get_list_from_file ev file nm = Inr xs \<Longrightarrow> xs \<noteq> [] \<Longrightarrow>
    \<exists>ls t r. file = Some ls \<and> assignment_text nm ls = Some t \<and> py_nth (split_once CHR ''='' t) 1 = Inr r \<and> ev (strip r) = Inr xs"
  by (auto simp: get_list_from_file_def find_list_text eval_rhs_def bind_res_Inr_iff split: option.splits)

text \<open>The configuration that is read never has an empty list of modules, and the file in the working
  directory hides the one in the home directory; without any file the defaults are returned, and a
  list of modules other than the default is the value of the text from the first line that has the
  name \<open>modules_enabled\<close>, comments removed, to the first closing bracket.
\<close>

theorem read_config_file_complete:
  assumes "read_config_file ev_list ev_bool here home = Inr c"
  shows "modules_enabled c \<noteq> [] \<and>
    (if here = None \<and> home = None then \<not> config_file_exists c \<and> modules_enabled c = [''all_modules'']
     else config_file_exists c \<and> read_config_file ev_list ev_bool here home
         = read_config_file ev_list ev_bool (if here = None then home else here) None) \<and>
    (modules_enabled c = [''all_modules''] \<or>
     (\<exists>ls t r. (if here = None then home else here) = Some ls \<and> assignment_text ''modules_enabled'' ls = Some t \<and>
        py_nth (split_once CHR ''='' t) 1 = Inr r \<and> ev_list (strip r) = Inr (modules_enabled c)))"
proof (cases "here = None \<and> home = None")
  case True
  then show ?thesis using assms by (auto simp: read_config_file_def)
next
  case False
  let ?file = "if here = None then home else here"
  from assms False obtain ms es ts where g: "get_list_from_file ev_list ?file ''modules_enabled'' = Inr ms"
    and c: "c = \<lparr>config_file_exists = True, modules_enabled = (if ms = [] then [''all_modules''] else ms),
             examples_enabled = es, tests_enabled = ts\<rparr>"
    by (auto simp: read_config_file_def Let_def bind_res_Inr_iff)
  have "read_config_file ev_list ev_bool here home = read_config_file ev_list ev_bool ?file None"
    using False by (auto simp: read_config_file_def Let_def)
  moreover have "ms \<noteq> [] \<Longrightarrow> \<exists>ls t r. ?file = Some ls \<and> assignment_text ''modules_enabled'' ls = Some t \<and>
        py_nth (split_once CHR ''='' t) 1 = Inr r \<and> ev_list (strip r) = Inr ms"
    by (rule get_list_empty_or_eval [OF g])
  ultimately show ?thesis using False by (simp add: c)
qed

definition sample_list :: "string \<Rightarrow> string list res" where
  "sample_list s = Inr (split_on CHR '','' (butlast (tl s)))"

definition sample_bool :: "string \<Rightarrow> bool res" where
  "sample_bool s = Inr (s = ''True'')"

definition sample_file :: "string list option" where
  "sample_file = Some [''# none'', ''modules_enabled = [core, # x'', ''  wifi]'', ''tests_enabled = True'']"

lemma sample_read:
  "read_config_file sample_list sample_bool None sample_file = Inr \<lparr>config_file_exists = True,
     modules_enabled = [''core'', ''   wifi''], examples_enabled = False, tests_enabled = True\<rparr>"
  by code_simp

theorem read_config_file_complete_witness:
  "\<exists>ls t r. sample_file = Some ls \<and> assignment_text ''modules_enabled'' ls = Some t \<and>
     py_nth (split_once CHR ''='' t) 1 = Inr r \<and> sample_list (strip r) = Inr [''core'', ''   wifi'']"
  using read_config_file_complete [OF sample_read] by simp

end
