(* ===== verification/Test_Jobs.thy ===== *)
theory Test_Jobs
  imports Ns3rc
begin

text \<open>
  \<open>test.py\<close>: the configuration and options of a run, the environment of the test processes, the
  examples that can be run, and the jobs that are put in the input queue.  Processes, the file system
  and Python's \<open>eval\<close> are parameters; a job's elapsed time is kept as it is printed (\<open>%.3f\<close>).
\<close>

section \<open>Configuration and options\<close>

record config =
  basedir :: string
  builddir :: string
  python :: string
  appname :: string
  version :: string
  build_profile :: string
  nsc_enabled :: bool
  enable_examples :: bool
  enable_python_bindings :: bool
  example_directories :: "string list"
  enabled_modules :: "string list"
  module_path :: "string list"
  platform :: string

record topt =
  o_buildpath :: string
  o_constrain :: string
  o_example :: string
  o_update_data :: bool
  o_fullness :: string
  o_valgrind :: bool
  o_kinds :: bool
  o_list :: bool
  o_multiple :: bool
  o_nowaf :: bool
  o_pyexample :: string
  o_suite :: string

definition default_opts :: topt where
  "default_opts = \<lparr>o_buildpath = [], o_constrain = [], o_example = [], o_update_data = False, o_fullness = ''QUICK'',
     o_valgrind = False, o_kinds = False, o_list = False, o_multiple = False, o_nowaf = False, o_pyexample = [], o_suite = []\<rparr>"

definition profile_suffix :: "config \<Rightarrow> string" where
  "profile_suffix cfg = (if build_profile cfg = ''release'' then [] else ''-'' @ build_profile cfg)"

definition program_name :: "config \<Rightarrow> string \<Rightarrow> string" where
  "program_name cfg name = appname cfg @ version cfg @ ''-'' @ name @ profile_suffix cfg"

definition core_kinds :: "string list" where
  "core_kinds = [''bvt'', ''core'', ''performance'', ''system'', ''unit'']"

definition core_valgrind_skip_tests :: "string list" where
  "core_valgrind_skip_tests =
    [''ns3-tcp-cwnd'', ''nsc-tcp-loss'', ''ns3-tcp-interoperability'', ''routing-click'',
     ''lte-rr-ff-mac-scheduler'', ''lte-tdmt-ff-mac-scheduler'', ''lte-fdmt-ff-mac-scheduler'',
     ''lte-pf-ff-mac-scheduler'', ''lte-tta-ff-mac-scheduler'', ''lte-fdbet-ff-mac-scheduler'',
     ''lte-ttbet-ff-mac-scheduler'', ''lte-fdtbfq-ff-mac-scheduler'', ''lte-tdtbfq-ff-mac-scheduler'',
     ''lte-pss-ff-mac-scheduler'']"

definition core_nsc_missing_skip_tests :: "string list" where
  "core_nsc_missing_skip_tests = [''ns3-tcp-cwnd'', ''nsc-tcp-loss'', ''ns3-tcp-interoperability'']"

text \<open>The command that builds what the run needs.\<close>

definition waf_cmd :: "config \<Rightarrow> topt \<Rightarrow> string" where
  "waf_cmd cfg opts =
     (let waf = (if platform cfg = ''win32'' then ''waf'' else ''./waf'')
      in if o_kinds opts \<or> o_list opts \<or> o_constrain opts \<noteq> [] \<and> o_constrain opts \<in> set core_kinds
         then waf @ '' --target=test-runner''
         else if o_example opts \<noteq> [] then waf @ '' --target='' @ basename (o_example opts)
         else waf)"

section \<open>make\_paths\<close>

type_synonym environ = "(string, string) dict"

definition var_of :: "environ \<Rightarrow> string \<Rightarrow> string" where
  "var_of env v = (case map_of env v of None \<Rightarrow> [] | Some s \<Rightarrow> s)"

definition pypath :: "config \<Rightarrow> string" where
  "pypath cfg = path_join (path_join (builddir cfg) ''bindings'') ''python''"

text \<open>The variable is assigned before the user's value, found earlier, would be extended.\<close>

definition set_pythonpath :: "config \<Rightarrow> environ \<Rightarrow> environ" where
  "set_pythonpath cfg env =
     (let env1 = dict_set ''PYTHONPATH'' (pypath cfg) env
      in if map_of env ''PYTHONPATH'' = None then dict_set ''PYTHONPATH'' (pypath cfg) env1
         else dict_set ''PYTHONPATH'' (var_of env1 ''PYTHONPATH'' @ '':'' @ pypath cfg) env1)"

definition extend_path :: "string \<Rightarrow> string \<Rightarrow> string list \<Rightarrow> environ \<Rightarrow> environ" where
  "extend_path v sep paths env =
     fold (\<lambda>p e. dict_set v (var_of e v @ sep @ p) e) paths (if map_of env v = None then dict_set v [] env else env)"

definition library_var :: "string \<Rightarrow> string \<times> string" where
  "library_var pf =
     (if pf = ''darwin'' then (''DYLD_LIBRARY_PATH'', '':'')
      else if pf = ''win32'' then (''PATH'', '';'')
      else if pf = ''cygwin'' then (''PATH'', '':'')
      else (''LD_LIBRARY_PATH'', '':''))"

definition make_paths :: "config \<Rightarrow> environ \<Rightarrow> environ" where
  "make_paths cfg env =
     (case library_var (platform cfg) of (v, sep) \<Rightarrow> extend_path v sep (module_path cfg) (set_pythonpath cfg env))"

section \<open>Examples that were built\<close>

record examples =
  example_tests :: "(string \<times> string \<times> string) list"
  example_names_original :: "string list"
  python_tests :: "(string \<times> string) list"

definition with_arguments :: "string \<Rightarrow> string list \<Rightarrow> string" where
  "with_arguments path parts = (if length parts \<noteq> 1 then path @ '' '' @ parts ! 1 else path)"

definition add_cpp :: "config \<Rightarrow> (string \<Rightarrow> bool) \<Rightarrow> string \<Rightarrow> string \<times> string \<times> string \<Rightarrow> examples \<Rightarrow> examples" where
  "add_cpp cfg fexists cpp_executable_dir = (\<lambda>(name, do_run, do_valgrind_run) ex.
     let parts = split_once CHR '' '' name;
         path = path_join cpp_executable_dir (program_name cfg (hd parts))
     in if fexists path then
          ex\<lparr>example_tests := example_tests ex @ [(with_arguments path parts, do_run, do_valgrind_run)],
             example_names_original := example_names_original ex @ [name]\<rparr>
        else ex)"

definition add_python :: "(string \<Rightarrow> bool) \<Rightarrow> string \<Rightarrow> string \<times> string \<Rightarrow> examples \<Rightarrow> examples" where
  "add_python fexists python_script_dir = (\<lambda>(name, do_run) ex.
     let parts = split_once CHR '' '' name;
         path = path_join python_script_dir (hd parts)
     in if fexists path then ex\<lparr>python_tests := python_tests ex @ [(with_arguments path parts, do_run)]\<rparr> else ex)"

text \<open>What the files and \<open>eval\<close> give.\<close>

record world =
  file_exists :: "string \<Rightarrow> bool"
  file_lines :: "string \<Rightarrow> string list option"
  eval_cpp :: "string \<Rightarrow> (string \<times> string \<times> string) list res"
  eval_py :: "string \<Rightarrow> (string \<times> string) list res"
  eval_cond :: "string \<Rightarrow> bool res"

definition parse_examples_to_run_file ::
  "config \<Rightarrow> world \<Rightarrow> string \<Rightarrow> string \<Rightarrow> string \<Rightarrow> examples \<Rightarrow> examples res" where
  "parse_examples_to_run_file cfg w examples_to_run_path cpp_executable_dir python_script_dir ex =
     (if file_exists w examples_to_run_path then
        bind_res (get_list_from_file (eval_cpp w) (file_lines w examples_to_run_path) ''cpp_examples'') (\<lambda>cpp.
        bind_res (get_list_from_file (eval_py w) (file_lines w examples_to_run_path) ''python_examples'') (\<lambda>py.
        Inr (fold (add_python (file_exists w) python_script_dir) py
              (fold (add_cpp cfg (file_exists w) cpp_executable_dir) cpp ex))))
      else Inr ex)"

definition scan_directory :: "config \<Rightarrow> world \<Rightarrow> examples \<Rightarrow> string \<Rightarrow> examples res" where
  "scan_directory cfg w ex directory =
     (let example_directory = path_join ''examples'' directory
      in parse_examples_to_run_file cfg w (path_join example_directory ''examples-to-run.py'')
           (path_join (builddir cfg) example_directory) example_directory ex)"

definition scan_module :: "config \<Rightarrow> world \<Rightarrow> examples \<Rightarrow> string \<Rightarrow> examples res" where
  "scan_module cfg w ex module =
     (let module_directory = path_join ''src'' (drop (length ''ns3-'') module);
          example_directory = path_join module_directory ''examples''
      in parse_examples_to_run_file cfg w (path_join (path_join module_directory ''test'') ''examples-to-run.py'')
           (path_join (builddir cfg) example_directory) example_directory ex)"

definition find_examples :: "config \<Rightarrow> world \<Rightarrow> examples res" where
  "find_examples cfg w =
     bind_res (run_steps (scan_directory cfg w) \<lparr>example_tests = [], example_names_original = [], python_tests = []\<rparr>
                (example_directories cfg))
       (\<lambda>ex. run_steps (scan_module cfg w) ex (enabled_modules cfg))"

section \<open>Jobs\<close>

record job =
  is_break :: bool
  is_skip :: bool
  is_example :: bool
  is_pyexample :: bool
  shell_command :: string
  display_name :: string
  j_basedir :: string
  j_tempdir :: string
  j_cwd :: string
  tmp_file_name :: string
  returncode :: int
  elapsed_time :: string
  build_path :: string

definition new_job :: job where
  "new_job = \<lparr>is_break = False, is_skip = False, is_example = False, is_pyexample = False, shell_command = [],
     display_name = [], j_basedir = [], j_tempdir = [], j_cwd = [], tmp_file_name = [], returncode = 0,
     elapsed_time = ''0.000'', build_path = []\<rparr>"

definition break_job :: job where
  "break_job = new_job\<lparr>is_break := True\<rparr>"

text \<open>The working directory and the directory for the output of this run.\<close>

record dirs =
  d_cwd :: string
  d_output :: string

definition job_in :: "dirs \<Rightarrow> string \<Rightarrow> string \<Rightarrow> job" where
  "job_in d name command = new_job\<lparr>display_name := name, shell_command := command, j_basedir := d_cwd d,
     j_tempdir := d_output d, j_cwd := d_output d\<rparr>"

definition runner_command :: "config \<Rightarrow> string \<Rightarrow> string" where
  "runner_command cfg arguments = path_join ''utils'' (program_name cfg ''test-runner'' @ arguments)"

definition suite_job :: "config \<Rightarrow> topt \<Rightarrow> dirs \<Rightarrow> string \<Rightarrow> job" where
  "suite_job cfg opts d test =
     (let multiple = (if o_multiple opts then [] else '' --stop-on-failure'');
          fullness = (if o_fullness opts \<noteq> [] then '' --fullness='' @ upper (o_fullness opts) else '' --fullness=QUICK'')
      in (job_in d test (runner_command cfg ('' --test-name='' @ test @ multiple @ fullness)))
           \<lparr>j_cwd := d_cwd d, tmp_file_name := path_join (d_output d) (test @ ''.xml''),
            is_skip := (o_valgrind opts \<and> test \<in> set core_valgrind_skip_tests
                        \<or> \<not> nsc_enabled cfg \<and> test \<in> set core_nsc_missing_skip_tests)\<rparr>)"

definition suite_jobs :: "config \<Rightarrow> topt \<Rightarrow> dirs \<Rightarrow> string list \<Rightarrow> job list" where
  "suite_jobs cfg opts d suite_list = map (suite_job cfg opts d) (filter (\<lambda>t. t \<noteq> []) (map strip suite_list))"

definition example_job :: "topt \<Rightarrow> dirs \<Rightarrow> string \<Rightarrow> bool \<Rightarrow> job" where
  "example_job opts d test skip =
     (job_in d test test)\<lparr>is_example := True, build_path := o_buildpath opts, is_skip := skip\<rparr>"

definition pyexample_job :: "dirs \<Rightarrow> string \<Rightarrow> bool \<Rightarrow> job" where
  "pyexample_job d test skip = (job_in d test test)\<lparr>is_pyexample := True, is_skip := skip\<rparr>"

text \<open>The name of an example without its arguments and directories.\<close>

definition test_name :: "string \<Rightarrow> string" where
  "test_name test = basename (hd (split_once CHR '' '' test))"

definition queue_example ::
  "world \<Rightarrow> topt \<Rightarrow> dirs \<Rightarrow> environ \<Rightarrow> job list \<Rightarrow> string \<times> string \<times> string \<Rightarrow> job list res" where
  "queue_example w opts d programs jobs = (\<lambda>(test, do_run, do_valgrind_run).
     if map_of programs (test_name test) = None then Inr jobs
     else bind_res (eval_cond w do_run) (\<lambda>go.
       if \<not> go then Inr jobs
       else bind_res (if o_valgrind opts then bind_res (eval_cond w do_valgrind_run) (\<lambda>v. Inr (\<not> v)) else Inr False)
              (\<lambda>skip. Inr (jobs @ [example_job opts d test skip]))))"

definition queue_pyexample ::
  "world \<Rightarrow> config \<Rightarrow> topt \<Rightarrow> dirs \<Rightarrow> string list \<Rightarrow> job list \<Rightarrow> string \<times> string \<Rightarrow> job list res" where
  "queue_pyexample w cfg opts d scripts jobs = (\<lambda>(test, do_run).
     if test_name test \<notin> set scripts then Inr jobs
     else bind_res (eval_cond w do_run) (\<lambda>go.
       if \<not> go then Inr jobs
       else Inr (jobs @ [pyexample_job d test (o_valgrind opts \<or> \<not> enable_python_bindings cfg)])))"

definition no_single :: "topt \<Rightarrow> bool" where
  "no_single opts \<longleftrightarrow> o_suite opts = [] \<and> o_example opts = [] \<and> o_pyexample opts = []"

text \<open>\<open>programs\<close> maps the name of a built program to its path; \<open>abspath\<close> is \<open>os.path.abspath\<close>.\<close>

definition example_jobs ::
  "world \<Rightarrow> config \<Rightarrow> topt \<Rightarrow> dirs \<Rightarrow> (string \<Rightarrow> string) \<Rightarrow> environ \<Rightarrow> examples \<Rightarrow> job list res" where
  "example_jobs w cfg opts d abspath programs ex =
     (if no_single opts then
        (if (o_constrain opts = [] \<or> o_constrain opts = ''example'') \<and> enable_examples cfg
         then run_steps (queue_example w opts d programs) [] (example_tests ex) else Inr [])
      else if o_example opts \<noteq> [] then
        (case map_of programs (program_name cfg (o_example opts)) of
           None \<Rightarrow> Inr []
         | Some p \<Rightarrow> Inr [example_job opts d (abspath p) False])
      else Inr [])"

definition pyexample_jobs ::
  "world \<Rightarrow> config \<Rightarrow> topt \<Rightarrow> dirs \<Rightarrow> string list \<Rightarrow> examples \<Rightarrow> job list res" where
  "pyexample_jobs w cfg opts d scripts ex =
     (if no_single opts then
        (if (o_constrain opts = [] \<or> o_constrain opts = ''pyexample'') \<and> enable_examples cfg
         then run_steps (queue_pyexample w cfg opts d scripts) [] (python_tests ex) else Inr [])
      else if o_pyexample opts \<noteq> [] then
        (if basename (o_pyexample opts) \<notin> set scripts then Inr []
         else Inr [pyexample_job d (o_pyexample opts) False])
      else Inr [])"

section \<open>Running a command\<close>

record proc_result =
  p_returncode :: int
  p_stdout :: string
  p_stderr :: string
  p_elapsed :: string

definition job_command :: "config \<Rightarrow> string \<Rightarrow> bool \<Rightarrow> bool \<Rightarrow> string \<Rightarrow> string" where
  "job_command cfg command valgrind is_python bp =
     (let suppressions_path = path_join (basedir cfg) ''testpy.supp'';
          path_cmd = (if is_python then python cfg @ '' '' @ path_join (basedir cfg) command
                      else if bp \<noteq> [] then path_join bp command
                      else path_join (builddir cfg) command)
      in if valgrind then
           ''valgrind --suppressions='' @ suppressions_path
             @ '' --leak-check=full --show-reachable=yes --error-exitcode=2 '' @ path_cmd
         else path_cmd)"

text \<open>\<open>popen\<close> runs a command in a directory.\<close>

definition run_job_synchronously ::
  "config \<Rightarrow> (string \<Rightarrow> string \<Rightarrow> proc_result) \<Rightarrow> string \<Rightarrow> string \<Rightarrow> bool \<Rightarrow> bool \<Rightarrow> string \<Rightarrow> proc_result" where
  "run_job_synchronously cfg popen command directory valgrind is_python bp =
     (let r = popen (job_command cfg command valgrind is_python bp) directory
      in if valgrind \<and> p_returncode r = 0 \<and> contains ''== LEAK SUMMARY:'' (p_stderr r)
         then r\<lparr>p_returncode := 2\<rparr> else r)"

text \<open>What a worker does with a job that is neither a break nor skipped.\<close>

definition execute_job :: "config \<Rightarrow> topt \<Rightarrow> (string \<Rightarrow> string \<Rightarrow> proc_result) \<Rightarrow> job \<Rightarrow> job" where
  "execute_job cfg opts popen j =
     (let r = (if is_example j \<or> is_pyexample j then
                 run_job_synchronously cfg popen (shell_command j) (j_cwd j) (o_valgrind opts) (is_pyexample j) (build_path j)
               else
                 run_job_synchronously cfg popen
                   (shell_command j @ '' --xml --tempdir='' @ j_tempdir j @ '' --out='' @ tmp_file_name j @ '' ''
                      @ (if o_update_data opts then ''--update-data'' else []))
                   (j_cwd j) (o_valgrind opts) False [])
      in j\<lparr>returncode := p_returncode r, elapsed_time := p_elapsed r\<rparr>)"

section \<open>The suites to run\<close>

text \<open>What the test runner prints for some arguments.\<close>

definition ask_runner :: "config \<Rightarrow> (string \<Rightarrow> string \<Rightarrow> proc_result) \<Rightarrow> string \<Rightarrow> string \<Rightarrow> string" where
  "ask_runner cfg popen cwd arguments =
     p_stdout (run_job_synchronously cfg popen (runner_command cfg arguments) cwd False False [])"

text \<open>\<^const>\<open>None\<close> is the exit with status 2 for an unknown suite.\<close>

definition suites_text :: "config \<Rightarrow> topt \<Rightarrow> (string \<Rightarrow> string \<Rightarrow> proc_result) \<Rightarrow> string \<Rightarrow> string option" where
  "suites_text cfg opts popen cwd =
     (if o_suite opts \<noteq> [] then
        (if o_suite opts \<in> set (split_on CHR ''\<newline>'' (ask_runner cfg popen cwd '' --print-test-name-list''))
         then Some (o_suite opts @ ''\<newline>'') else None)
      else if o_example opts = [] \<and> o_pyexample opts = [] then
        (if o_constrain opts \<noteq> [] then
           Some (ask_runner cfg popen cwd ('' --print-test-name-list --test-type='' @ o_constrain opts))
         else Some (ask_runner cfg popen cwd '' --print-test-name-list''))
      else Some [])"

definition drop_performance :: "config \<Rightarrow> topt \<Rightarrow> (string \<Rightarrow> string \<Rightarrow> proc_result) \<Rightarrow> string \<Rightarrow> string list \<Rightarrow> string list" where
  "drop_performance cfg opts popen cwd suite_list =
     (if o_constrain opts \<noteq> ''performance'' then
        fold remove1 (split_on CHR ''\<newline>'' (ask_runner cfg popen cwd '' --print-test-name-list --test-type=performance'')) suite_list
      else suite_list)"

definition suite_list_of :: "config \<Rightarrow> topt \<Rightarrow> (string \<Rightarrow> string \<Rightarrow> proc_result) \<Rightarrow> string \<Rightarrow> string list option" where
  "suite_list_of cfg opts popen cwd =
     map_option (\<lambda>t. drop_performance cfg opts popen cwd (split_on CHR ''\<newline>'' t)) (suites_text cfg opts popen cwd)"

text \<open>All jobs of a run, in the order in which they are queued; \<^const>\<open>None\<close> as above.\<close>

definition all_jobs ::
  "config \<Rightarrow> topt \<Rightarrow> world \<Rightarrow> (string \<Rightarrow> string \<Rightarrow> proc_result) \<Rightarrow> (string \<Rightarrow> string) \<Rightarrow> dirs \<Rightarrow>
     string list \<Rightarrow> string list \<Rightarrow> examples \<Rightarrow> job list option res" where
  "all_jobs cfg opts w popen abspath d programs scripts ex =
     (case suite_list_of cfg opts popen (d_cwd d) of
        None \<Rightarrow> Inr None
      | Some suites \<Rightarrow>
          bind_res (example_jobs w cfg opts d abspath (fold (\<lambda>p. dict_set (basename p) p) programs []) ex) (\<lambda>es.
          bind_res (pyexample_jobs w cfg opts d scripts ex) (\<lambda>ps.
          Inr (Some (suite_jobs cfg opts d suites @ es @ ps)))))"

text \<open>
  What \<open>run_tests\<close> does before it starts threads: it exits with the status of \<open>waf\<close>, with 2 when there is
  no build status file or an unknown suite is asked for, or with 0 after printing a list (the listing
  itself is not modelled); otherwise it has the jobs.  \<open>build_status\<close> is the two lists of that file.
\<close>

datatype start = Exit int | Jobs "job list"

definition prepare ::
  "config \<Rightarrow> topt \<Rightarrow> world \<Rightarrow> (string \<Rightarrow> string \<Rightarrow> proc_result) \<Rightarrow> (string \<Rightarrow> string) \<Rightarrow> dirs \<Rightarrow>
     (string list \<times> string list) option \<Rightarrow> start res" where
  "prepare cfg opts w popen abspath d build_status =
     (let waf = p_returncode (popen (waf_cmd cfg opts) (d_cwd d)) in
      if \<not> o_nowaf opts \<and> waf \<noteq> 0 then Inr (Exit waf)
      else case build_status of
        None \<Rightarrow> Inr (Exit 2)
      | Some (programs, scripts) \<Rightarrow>
          bind_res (find_examples cfg w) (\<lambda>ex.
            if o_kinds opts \<or> o_list opts then Inr (Exit 0)
            else bind_res (all_jobs cfg opts w popen abspath d programs scripts ex) (\<lambda>js.
              case js of None \<Rightarrow> Inr (Exit 2) | Some js \<Rightarrow> Inr (Jobs js))))"

section \<open>The paths given to the tests\<close>

lemma var_of_set [simp]: "var_of (dict_set v x env) u = (if u = v then x else var_of env u)"
  by (simp add: var_of_def)

lemma extend_path_other: "u \<noteq> v \<Longrightarrow> map_of (extend_path v sep paths env) u = map_of env u"
proof -
  assume u: "u \<noteq> v"
  then have "map_of (fold (\<lambda>p e. dict_set v (var_of e v @ sep @ p) e) paths e) u = map_of e u" for e
    by (induction paths arbitrary: e) simp_all
  with u show ?thesis by (simp add: extend_path_def)
qed

lemma extend_path_same:
  "map_of (extend_path v sep paths env) v = Some (var_of env v @ concat (map ((@) sep) paths))"
proof -
  have "map_of e v \<noteq> None \<Longrightarrow>
      map_of (fold (\<lambda>p e. dict_set v (var_of e v @ sep @ p) e) paths e) v = Some (var_of e v @ concat (map ((@) sep) paths))" for e
    by (induction paths arbitrary: e) (auto simp: var_of_def)
  then show ?thesis by (auto simp: extend_path_def var_of_def)
qed

text \<open>The modules' paths are appended to the platform's library path, all other variables stay as
  they are, and \<open>PYTHONPATH\<close> is the path of the bindings: the user's value is lost, and if
  there was one the path of the bindings is there twice.
\<close>

theorem make_paths_result:
  assumes "library_var (platform cfg) = (v, sep)"
  shows "map_of (make_paths cfg env) = (map_of env)
    (''PYTHONPATH'' \<mapsto> (if map_of env ''PYTHONPATH'' = None then pypath cfg else pypath cfg @ '':'' @ pypath cfg),
     v \<mapsto> var_of env v @ concat (map ((@) sep) (module_path cfg)))"
proof -
  let ?env = "set_pythonpath cfg env"
  have v: "v \<noteq> ''PYTHONPATH''" using assms by (auto simp: library_var_def split: if_splits)
  have py: "map_of ?env = (map_of env)(''PYTHONPATH'' \<mapsto>
      (if map_of env ''PYTHONPATH'' = None then pypath cfg else pypath cfg @ '':'' @ pypath cfg))"
    by (simp add: set_pythonpath_def Let_def)
  from py v have same: "var_of ?env v = var_of env v" by (simp add: var_of_def)
  have "map_of (make_paths cfg env) = (map_of ?env)(v \<mapsto> var_of ?env v @ concat (map ((@) sep) (module_path cfg)))"
    using assms by (auto simp: make_paths_def extend_path_same extend_path_other)
  then show ?thesis unfolding py same .
qed

definition sample_config :: config where
  "sample_config = \<lparr>basedir = ''/ns3'', builddir = ''/ns3/build'', python = ''python'', appname = ''ns'', version = ''3'',
     build_profile = ''debug'', nsc_enabled = False, enable_examples = True, enable_python_bindings = True,
     example_directories = [], enabled_modules = [''ns3-core''], module_path = [''/lib''], platform = ''linux2''\<rparr>"

theorem make_paths_result_witness:
  "map_of (make_paths sample_config [(''PYTHONPATH'', ''/my/modules'')]) = (map_of [(''PYTHONPATH'', ''/my/modules'')])
    (''PYTHONPATH'' \<mapsto> (if map_of [(''PYTHONPATH'', ''/my/modules'')] ''PYTHONPATH'' = None then pypath sample_config
        else pypath sample_config @ '':'' @ pypath sample_config),
     ''LD_LIBRARY_PATH'' \<mapsto> var_of [(''PYTHONPATH'', ''/my/modules'')] ''LD_LIBRARY_PATH'' @ concat (map ((@) '':'') (module_path sample_config)))"
  by (rule make_paths_result) (simp add: sample_config_def library_var_def)

section \<open>Performance tests\<close>

lemma set_fold_remove1: "set (fold remove1 ps xs) \<subseteq> set xs"
  by (induction ps arbitrary: xs) (use set_remove1_subset in force)+

lemma fold_remove1_single: "x \<in> set ps \<Longrightarrow> distinct xs \<Longrightarrow> x \<notin> set (fold remove1 ps xs)"
proof (induction ps arbitrary: xs)
  case (Cons p ps)
  show ?case
  proof (cases "x = p")
    case True
    with Cons.prems set_fold_remove1 [of ps "remove1 p xs"] show ?thesis by auto
  next
    case False
    with Cons show ?thesis by (simp add: distinct_remove1)
  qed
qed simp

text \<open>A performance suite that is named with \<open>--suite\<close> is removed again: nothing is run.\<close>

theorem performance_suite_dropped:
  assumes "o_suite opts \<noteq> []" and "CHR ''\<newline>'' \<notin> set (o_suite opts)" and "o_constrain opts \<noteq> ''performance''"
    and "o_suite opts \<in> set (split_on CHR ''\<newline>'' (ask_runner cfg popen cwd '' --print-test-name-list --test-type=performance''))"
    and "suite_list_of cfg opts popen cwd = Some suites"
  shows "suite_jobs cfg opts d suites = []"
proof -
  let ?ps = "split_on CHR ''\<newline>'' (ask_runner cfg popen cwd '' --print-test-name-list --test-type=performance'')"
  have "suites_text cfg opts popen cwd = Some (o_suite opts @ ''\<newline>'')"
    using assms(1,5) by (auto simp: suite_list_of_def suites_text_def split: if_splits)
  then have s: "suites = fold remove1 ?ps [o_suite opts, []]"
    using assms(2,3,5) by (simp add: suite_list_of_def drop_performance_def split_on_append)
  from fold_remove1_single [OF assms(4), of "[o_suite opts, []]"] assms(1) set_fold_remove1 [of ?ps "[o_suite opts, []]"]
  have "set suites \<subseteq> {[]}" unfolding s by auto
  then have "filter (\<lambda>t. t \<noteq> []) (map strip suites) = []" by (auto simp: filter_empty_conv)
  then show ?thesis by (simp add: suite_jobs_def)
qed

end
