(* ===== verification/Worker_Pool.thy ===== *)
theory Worker_Pool
  imports Test_Jobs "HOL-Library.Multiset"
begin

text \<open>
  \<open>test.py\<close>: the worker threads and the main thread as a step relation over the two queues.  A step
  is one atomic action of a thread: a \<open>put\<close>, a \<open>get\<close>, the test of \<open>thread_exit\<close> that follows a
  \<open>get\<close>, the end of a process, the final \<open>join\<close>; the interrupt can come at any time.
\<close>

section \<open>States\<close>

datatype worker = Idle | Fetched job | Running job | Stopped

record pool =
  in_queue :: "job list"
  out_queue :: "job list"
  workers :: "worker list"
  thread_exit :: bool
  to_put :: "job list"
  to_get :: nat
  collected :: "job list"
  joined :: bool

text \<open>\<open>processors\<close> workers, the jobs and then one break job for each worker.\<close>

definition pool_start :: "nat \<Rightarrow> job list \<Rightarrow> pool" where
  "pool_start processors jobs =
     \<lparr>in_queue = [], out_queue = [], workers = replicate processors Idle, thread_exit = False,
      to_put = jobs @ replicate processors break_job, to_get = length jobs, collected = [], joined = False\<rparr>"

section \<open>Steps\<close>

text \<open>
  One step of \<open>worker_thread.run\<close>: the state before, the jobs taken from the input queue, the jobs put
  in the output queue, the state after.  \<open>run\<close> is what the processes make of a job
  (\<^const>\<open>execute_job\<close>).  A skipped job is handed back without being run; after an interrupt a job
  is handed back as a break.
\<close>

inductive worker_step :: "(job \<Rightarrow> job) \<Rightarrow> bool \<Rightarrow> worker \<Rightarrow> job list \<Rightarrow> job list \<Rightarrow> worker \<Rightarrow> bool"
  for run :: "job \<Rightarrow> job" and interrupted :: bool where
  Get: "\<not> is_break j \<Longrightarrow> worker_step run interrupted Idle [j] [] (Fetched j)"
| Break: "is_break j \<Longrightarrow> worker_step run interrupted Idle [j] [] Stopped"
| Interrupted: "interrupted \<Longrightarrow> worker_step run interrupted (Fetched j) [] [j\<lparr>is_break := True\<rparr>] Idle"
| Skip: "\<not> interrupted \<Longrightarrow> is_skip j \<Longrightarrow> worker_step run interrupted (Fetched j) [] [j] Idle"
| Launch: "\<not> interrupted \<Longrightarrow> \<not> is_skip j \<Longrightarrow> worker_step run interrupted (Fetched j) [] [] (Running j)"
| Finish: "worker_step run interrupted (Running j) [] [run j] Idle"

inductive_cases WorkerE: "worker_step run e w taken emitted w'"

text \<open>The main thread puts all jobs, collects as many results as it has put jobs, and joins the workers.\<close>

inductive pool_step :: "(job \<Rightarrow> job) \<Rightarrow> pool \<Rightarrow> pool \<Rightarrow> bool" for run :: "job \<Rightarrow> job" where
  Put: "to_put s = j # js \<Longrightarrow> pool_step run s (s\<lparr>to_put := js, in_queue := in_queue s @ [j]\<rparr>)"
| Work: "i < length (workers s) \<Longrightarrow> in_queue s = taken @ q \<Longrightarrow>
    worker_step run (thread_exit s) (workers s ! i) taken emitted w \<Longrightarrow>
    pool_step run s (s\<lparr>in_queue := q, workers := (workers s)[i := w], out_queue := out_queue s @ emitted\<rparr>)"
| Collect: "to_put s = [] \<Longrightarrow> to_get s = Suc n \<Longrightarrow> out_queue s = j # q \<Longrightarrow>
    pool_step run s (s\<lparr>out_queue := q, to_get := n, collected := collected s @ [j]\<rparr>)"
| Join: "to_put s = [] \<Longrightarrow> to_get s = 0 \<Longrightarrow> \<not> joined s \<Longrightarrow> list_all (\<lambda>w. w = Stopped) (workers s) \<Longrightarrow>
    pool_step run s (s\<lparr>joined := True\<rparr>)"
| Sigint: "\<not> thread_exit s \<Longrightarrow> pool_step run s (s\<lparr>thread_exit := True\<rparr>)"

inductive_cases StepE: "pool_step run s t"

text \<open>\<open>n\<close> steps.\<close>

inductive pool_run :: "(job \<Rightarrow> job) \<Rightarrow> nat \<Rightarrow> pool \<Rightarrow> pool \<Rightarrow> bool" for run :: "job \<Rightarrow> job" where
  refl: "pool_run run 0 s s"
| step: "pool_run run n s t \<Longrightarrow> pool_step run t u \<Longrightarrow> pool_run run (Suc n) s u"

section \<open>What a state still holds\<close>

text \<open>A job's identity: what neither its run nor an interrupt changes.\<close>

definition ident :: "job \<Rightarrow> job" where
  "ident j = j\<lparr>is_break := False, returncode := 0, elapsed_time := []\<rparr>"

text \<open>The job as it is reported when nothing interrupts the run.\<close>

definition finished :: "(job \<Rightarrow> job) \<Rightarrow> job \<Rightarrow> job" where
  "finished run j = (if is_skip j then j else run j)"

fun held :: "worker \<Rightarrow> job multiset" where
  "held (Fetched j) = {#j#}"
| "held (Running j) = {#j#}"
| "held _ = {#}"

definition reals :: "job list \<Rightarrow> job multiset" where
  "reals js = filter_mset (\<lambda>j. \<not> is_break j) (mset js)"

lemma reals_append [simp]: "reals (xs @ ys) = reals xs + reals ys"
  by (simp add: reals_def)

definition pending :: "pool \<Rightarrow> job multiset" where
  "pending s = reals (in_queue s @ to_put s) + (\<Sum>w \<in># mset (workers s). held w)"

definition breaks :: "pool \<Rightarrow> nat" where
  "breaks s = size (filter_mset is_break (mset (in_queue s @ to_put s)))"

definition live :: "pool \<Rightarrow> nat" where
  "live s = size (filter_mset (\<lambda>w. w \<noteq> Stopped) (mset (workers s)))"

definition reported :: "pool \<Rightarrow> job multiset" where
  "reported s = mset (out_queue s) + mset (collected s)"

fun breaks_last :: "job list \<Rightarrow> bool" where
  "breaks_last [] \<longleftrightarrow> True"
| "breaks_last (j # js) \<longleftrightarrow> (if is_break j then list_all is_break js else breaks_last js)"

fun worker_ok :: "worker \<Rightarrow> bool" where
  "worker_ok (Fetched j) \<longleftrightarrow> \<not> is_break j"
| "worker_ok (Running j) \<longleftrightarrow> \<not> is_break j \<and> \<not> is_skip j"
| "worker_ok _ \<longleftrightarrow> True"

text \<open>
  The invariant: no break job is before a real one, there is a break job for every live worker and only
  break jobs are left once a worker has stopped, every job is pending or reported, also after an
  interrupt, and the main thread waits for as many results as it has not collected.
\<close>

definition pool_inv :: "(job \<Rightarrow> job) \<Rightarrow> job list \<Rightarrow> pool \<Rightarrow> bool" where
  "pool_inv run jobs s \<longleftrightarrow>
     breaks_last (in_queue s @ to_put s) \<and> breaks s = live s \<and>
     (Stopped \<in># mset (workers s) \<longrightarrow> list_all is_break (in_queue s @ to_put s)) \<and>
     (\<forall>w \<in># mset (workers s). worker_ok w) \<and>
     image_mset ident (pending s + reported s) = image_mset ident (mset jobs) \<and>
     (\<not> thread_exit s \<longrightarrow> image_mset (finished run) (pending s) + reported s = image_mset (finished run) (mset jobs)) \<and>
     to_get s + length (collected s) = length jobs \<and>
     (joined s \<longrightarrow> to_get s = 0 \<and> to_put s = [])"

lemma worker_at:
  assumes "i < length ws"
  obtains M where "mset ws = add_mset (ws ! i) M" and "\<And>v. mset (ws[i := v]) = add_mset v M"
  using assms by (metis insert_DiffM mset_update nth_mem_mset)

lemma breaks_last_all: "list_all is_break js \<Longrightarrow> breaks_last js"
  by (induction js) (auto simp: list_all_iff)

lemma breaks_last_append: "(\<forall>j \<in> set js. \<not> is_break j) \<Longrightarrow> breaks_last (js @ bs) = breaks_last bs"
  by (induction js) auto

section \<open>The measure\<close>

fun worker_weight :: "worker \<Rightarrow> nat" where
  "worker_weight (Fetched j) = 3"
| "worker_weight (Running j) = 2"
| "worker_weight _ = 0"

definition pool_weight :: "pool \<Rightarrow> nat" where
  "pool_weight s = 5 * length (to_put s) + 4 * length (in_queue s) + (\<Sum>w \<in># mset (workers s). worker_weight w)
     + length (out_queue s) + (if joined s then 0 else 1) + (if thread_exit s then 0 else 1)"

lemma worker_step_weight:
  "worker_step run e w taken emitted w' \<Longrightarrow> worker_weight w' + length emitted < worker_weight w + 4 * length taken"
  by (erule WorkerE) simp_all

lemma step_weight: "pool_step run s t \<Longrightarrow> pool_weight t < pool_weight s"
proof (induction rule: pool_step.induct)
  case (Work i s taken q emitted w)
  from Work(1) obtain M where "mset (workers s) = add_mset (workers s ! i) M" "mset ((workers s)[i := w]) = add_mset w M"
    by (rule worker_at) blast
  with Work(2) worker_step_weight [OF Work(3)] show ?case by (simp add: pool_weight_def)
qed (simp_all add: pool_weight_def)

lemma run_weight: "pool_run run n s t \<Longrightarrow> n + pool_weight t \<le> pool_weight s"
  by (induction rule: pool_run.induct) (auto dest!: step_weight)

section \<open>The invariant is kept\<close>

lemma worker_step_facts:
  assumes "worker_step run e w taken emitted w'"
  shows "worker_ok w \<Longrightarrow> worker_ok w'"
    and "(w' = Stopped) = (w = Stopped \<or> list_ex is_break taken)"
    and "size (filter_mset is_break (mset taken)) + (if w' \<noteq> Stopped then 1 else 0) = (if w \<noteq> Stopped then 1 else (0 :: nat))"
    and "length taken \<le> 1"
  using assms by (auto elim: WorkerE)

lemma worker_step_jobs:
  assumes "worker_step run e w taken emitted w'" and "worker_ok w" and "\<And>j. ident (run j) = ident j"
  shows "image_mset ident (reals taken + held w) = image_mset ident (held w' + mset emitted)"
    and "\<not> e \<Longrightarrow> image_mset (finished run) (reals taken + held w) = image_mset (finished run) (held w') + mset emitted"
  using assms by (auto elim!: WorkerE simp: reals_def finished_def ident_def)

lemma breaks_last_tail: "breaks_last (xs @ ys) \<Longrightarrow> breaks_last ys"
proof (induction xs)
  case (Cons x xs)
  then show ?case by (cases "is_break x") (auto intro: breaks_last_all)
qed simp

lemma breaks_last_break: "breaks_last (taken @ js) \<Longrightarrow> list_ex is_break taken \<Longrightarrow> list_all is_break js"
  by (induction taken) (auto split: if_splits)

lemma work_inv:
  assumes inv: "pool_inv run jobs s" and i: "i < length (workers s)" and q: "in_queue s = taken @ q"
    and w: "worker_step run (thread_exit s) (workers s ! i) taken emitted w" and id: "\<And>j. ident (run j) = ident j"
  shows "pool_inv run jobs (s\<lparr>in_queue := q, workers := (workers s)[i := w], out_queue := out_queue s @ emitted\<rparr>)"
    (is "pool_inv run jobs ?t")
proof -
  from i obtain M where m: "mset (workers s) = add_mset (workers s ! i) M" and m': "mset ((workers s)[i := w]) = add_mset w M"
    by (rule worker_at) blast
  note f = worker_step_facts [OF w]
  have ok: "worker_ok (workers s ! i)" "\<forall>v \<in># M. worker_ok v" using inv by (simp_all add: pool_inv_def m)
  note jobs = worker_step_jobs [OF w ok(1) id]
  have "breaks_last (q @ to_put s)"
    using inv breaks_last_tail [of taken "q @ to_put s"] by (simp add: pool_inv_def q)
  moreover have "breaks ?t = live ?t"
  proof -
    have "breaks s = size (filter_mset is_break (mset taken)) + breaks ?t" by (simp add: breaks_def q)
    moreover have "live s = (if workers s ! i = Stopped then 0 else 1) + size (filter_mset (\<lambda>v. v \<noteq> Stopped) M)"
      by (simp add: live_def m)
    moreover have "live ?t = (if w = Stopped then 0 else 1) + size (filter_mset (\<lambda>v. v \<noteq> Stopped) M)"
      by (simp add: live_def m')
    moreover have "breaks s = live s" using inv by (simp add: pool_inv_def)
    ultimately show ?thesis using f(3) by (simp split: if_splits)
  qed
  moreover have "Stopped \<in># mset (workers ?t) \<longrightarrow> list_all is_break (q @ to_put s)"
    using inv f(2) breaks_last_break [of taken "q @ to_put s"] by (auto simp: pool_inv_def m m' q)
  moreover have "\<forall>v \<in># mset (workers ?t). worker_ok v"
    using f(1) [OF ok(1)] ok(2) by (simp add: m')
  moreover have "image_mset ident (pending ?t + reported ?t) = image_mset ident (mset jobs)"
  proof -
    let ?rest = "reals q + reals (to_put s) + (\<Sum>v \<in># M. held v) + reported s"
    have "pending s + reported s = (reals taken + held (workers s ! i)) + ?rest" by (simp add: pending_def m q ac_simps)
    moreover have "pending ?t + reported ?t = (held w + mset emitted) + ?rest"
      by (simp add: pending_def reported_def m' ac_simps)
    moreover have "image_mset ident (pending s + reported s) = image_mset ident (mset jobs)"
      using inv by (simp add: pool_inv_def)
    ultimately show ?thesis using jobs(1) by (metis image_mset_union)
  qed
  moreover have "image_mset (finished run) (pending ?t) + reported ?t = image_mset (finished run) (mset jobs)" if e: "\<not> thread_exit s"
  proof -
    let ?rest = "image_mset (finished run) (reals q + reals (to_put s) + (\<Sum>v \<in># M. held v)) + reported s"
    have "image_mset (finished run) (pending s) + reported s
        = image_mset (finished run) (reals taken + held (workers s ! i)) + ?rest" by (simp add: pending_def m q ac_simps)
    also have "\<dots> = (image_mset (finished run) (held w) + mset emitted) + ?rest" by (simp only: jobs(2) [OF e])
    also have "\<dots> = image_mset (finished run) (pending ?t) + reported ?t"
      by (simp add: pending_def reported_def m' ac_simps)
    finally show ?thesis using inv e by (simp add: pool_inv_def)
  qed
  ultimately show ?thesis using inv by (simp add: pool_inv_def)
qed

lemma collect_inv:
  assumes "pool_inv run jobs s" and "to_put s = []" and "to_get s = Suc n" and "out_queue s = j # q"
  shows "pool_inv run jobs (s\<lparr>out_queue := q, to_get := n, collected := collected s @ [j]\<rparr>)"
  using assms by (simp add: pool_inv_def breaks_def live_def pending_def reported_def)

lemma put_inv:
  assumes "pool_inv run jobs s" and "to_put s = j # js"
  shows "pool_inv run jobs (s\<lparr>to_put := js, in_queue := in_queue s @ [j]\<rparr>)"
proof -
  have a: "(in_queue s @ [j]) @ js = in_queue s @ j # js" by simp
  show ?thesis using assms by (simp add: pool_inv_def breaks_def live_def pending_def reported_def a del: append_assoc)
qed

lemma step_inv: "pool_step run s t \<Longrightarrow> (\<And>j. ident (run j) = ident j) \<Longrightarrow> pool_inv run jobs s \<Longrightarrow> pool_inv run jobs t"
proof (induction rule: pool_step.induct)
  case (Work i s taken q emitted w)
  from work_inv [OF Work(5,1,2,3,4)] show ?case .
next
  case (Sigint s)
  then show ?case by (simp add: pool_inv_def breaks_def live_def pending_def reported_def)
next
  case (Join s)
  then show ?case by (simp add: pool_inv_def breaks_def live_def pending_def reported_def)
qed (simp_all add: put_inv collect_inv)

lemma start_inv: "\<forall>j \<in> set jobs. \<not> is_break j \<Longrightarrow> pool_inv run jobs (pool_start processors jobs)"
proof -
  assume real: "\<forall>j \<in> set jobs. \<not> is_break j"
  have b: "is_break break_job" by (simp add: break_job_def)
  have "breaks_last (jobs @ replicate processors break_job)"
    using real b by (simp add: breaks_last_append breaks_last_all list_all_iff)
  moreover have "filter_mset is_break (mset jobs) = {#}" using real by simp
  moreover have "reals jobs = mset jobs" using real by (simp add: reals_def filter_mset_eq_conv)
  moreover have "reals (replicate processors break_job) = {#}" using b by (simp add: reals_def)
  moreover have "filter_mset is_break (mset (replicate n break_job)) = mset (replicate n break_job)" for n
    using b by (simp add: filter_mset_eq_conv)
  moreover have "filter_mset (\<lambda>w. w \<noteq> Stopped) (mset (replicate n Idle)) = mset (replicate n Idle)" for n
    by (simp add: filter_mset_eq_conv)
  moreover have "(\<Sum>w \<in># mset (replicate n Idle). held w) = {#}" for n by (induction n) simp_all
  ultimately show ?thesis
    by (simp add: pool_inv_def pool_start_def breaks_def live_def pending_def reported_def)
qed

section \<open>The pool as an interface\<close>

text \<open>
  What the collecting main thread relies on: a runner that keeps the identity of a job and does not
  mark it as a break, and at least one worker.
\<close>

locale job_runner =
  fixes run :: "job \<Rightarrow> job" and processors :: nat
  assumes ident_run: "ident (run j) = ident j"
    and some_processor: "0 < processors"
begin

lemma run_inv:
  "pool_run run n s t \<Longrightarrow> pool_inv run jobs s \<Longrightarrow> pool_inv run jobs t \<and> length (workers t) = length (workers s)"
proof (induction rule: pool_run.induct)
  case (step n s t u)
  have "length (workers u) = length (workers t)" using step(2) by (cases rule: pool_step.cases) simp_all
  with step show ?case using step_inv [OF step(2) ident_run] by simp
qed simp

lemma progress:
  assumes inv: "pool_inv run jobs s" and len: "0 < length (workers s)" and "\<not> joined s"
  shows "\<exists>t. pool_step run s t \<and> thread_exit t = thread_exit s"
proof (cases "to_put s")
  case (Cons j js)
  show ?thesis by (rule exI, rule conjI, rule pool_step.Put [OF Cons]) simp
next
  case put: Nil
  have work: ?thesis if "i < length (workers s)" "in_queue s = taken @ q"
    "worker_step run (thread_exit s) (workers s ! i) taken emitted w" for i taken q emitted w
    by (rule exI, rule conjI, rule pool_step.Work [OF that]) simp
  have busy: ?thesis if "i < length (workers s)" "workers s ! i = Fetched j \<or> workers s ! i = Running j" for i j
  proof -
    have "\<exists>emitted w. worker_step run (thread_exit s) (workers s ! i) [] emitted w"
      using that(2) by (cases "thread_exit s"; cases "is_skip j") (metis worker_step.intros(3,4,5,6))+
    then show ?thesis using work [OF that(1), of "[]" "in_queue s"] by auto
  qed
  have idle: ?thesis if i: "i < length (workers s)" "workers s ! i = Idle" for i
  proof (cases "in_queue s")
    case (Cons j q)
    then have "in_queue s = [j] @ q" by simp
    moreover have "\<exists>w. worker_step run (thread_exit s) (workers s ! i) [j] [] w"
      using i(2) by (metis worker_step.intros(1,2))
    ultimately show ?thesis using work [OF i(1)] by blast
  next
    case Nil
    then have "live s = 0" using inv put by (simp add: pool_inv_def breaks_def)
    with i have False using nth_mem_mset [OF i(1)] by (auto simp: live_def)
    then show ?thesis ..
  qed
  show ?thesis
  proof (cases "list_all (\<lambda>w. w = Stopped) (workers s)")
    case False
    then obtain i where "i < length (workers s)" "workers s ! i \<noteq> Stopped" by (auto simp: list_all_length)
    then show ?thesis using busy idle by (cases "workers s ! i") blast+
  next
    case True
    with len have "Stopped \<in> set (workers s)" by (cases "workers s") auto
    then have "list_all is_break (in_queue s)" using inv put by (simp add: pool_inv_def)
    then have "reals (in_queue s) = {#}" by (auto simp: reals_def list_all_iff)
    moreover have "(\<Sum>w \<in># mset (workers s). held w) = {#}" using True by (auto simp: list_all_iff)
    ultimately have "pending s = {#}" using put by (simp add: pending_def reals_def)
    then have "size (image_mset ident (reported s)) = size (image_mset ident (mset jobs))" using inv by (simp add: pool_inv_def)
    then have "length (out_queue s) + length (collected s) = length jobs" by (simp add: reported_def)
    then have "to_get s = length (out_queue s)" using inv by (simp add: pool_inv_def)
    then show ?thesis
    proof (cases "out_queue s")
      case Nil
      with \<open>to_get s = length (out_queue s)\<close> have z: "to_get s = 0" by simp
      show ?thesis by (rule exI, rule conjI, rule pool_step.Join [OF put z assms(3) True]) simp
    next
      case (Cons j q)
      with \<open>to_get s = length (out_queue s)\<close> have z: "to_get s = Suc (length q)" by simp
      show ?thesis by (rule exI, rule conjI, rule pool_step.Collect [OF put z Cons]) simp
    qed
  qed
qed

lemma joined_collected:
  assumes "pool_inv run jobs s" and "joined s"
  shows "image_mset ident (mset (collected s)) = image_mset ident (mset jobs)"
    and "\<not> thread_exit s \<Longrightarrow> mset (collected s) = image_mset (finished run) (mset jobs)"
proof -
  from assms have n: "length (collected s) = length jobs" by (simp add: pool_inv_def)
  from assms have "image_mset ident (pending s + reported s) = image_mset ident (mset jobs)" by (simp add: pool_inv_def)
  then have "size (pending s) + size (reported s) = length jobs"
    by (metis size_image_mset size_mset size_union)
  with n have e: "pending s = {#}" "out_queue s = []" by (simp_all add: reported_def)
  then show "image_mset ident (mset (collected s)) = image_mset ident (mset jobs)"
    using assms by (simp add: pool_inv_def reported_def)
  show "\<not> thread_exit s \<Longrightarrow> mset (collected s) = image_mset (finished run) (mset jobs)"
    using assms e by (simp add: pool_inv_def reported_def)
qed

end

lemma execute_job_ident: "ident (execute_job cfg opts popen j) = ident j"
  by (simp add: ident_def execute_job_def Let_def)

end
