(* ===== verification/Test_Runner.thy ===== *)
theory Test_Runner
  imports Worker_Pool
begin

text \<open>
  \<open>test.py\<close>: the loop of the main thread over the jobs that come back, the results file it writes, and
  the exit status, put together with the pool of worker threads.
\<close>

section \<open>The results of the jobs\<close>

datatype status = PASS | FAIL | VALGR | CRASH | SKIP

definition job_status :: "job \<Rightarrow> status" where
  "job_status j =
     (if is_skip j then SKIP
      else if returncode j = 0 then PASS
      else if returncode j = 1 then FAIL
      else if returncode j = 2 then VALGR
      else CRASH)"

record tally =
  passed :: nat
  skipped :: nat
  failed :: nat
  crashed :: nat
  valgrind_errors :: nat
  xml :: string

definition count_status :: "status \<Rightarrow> tally \<Rightarrow> tally" where
  "count_status st t =
     (case st of
        PASS \<Rightarrow> t\<lparr>passed := passed t + 1\<rparr>
      | FAIL \<Rightarrow> t\<lparr>failed := failed t + 1\<rparr>
      | VALGR \<Rightarrow> t\<lparr>valgrind_errors := valgrind_errors t + 1\<rparr>
      | CRASH \<Rightarrow> t\<lparr>crashed := crashed t + 1\<rparr>
      | SKIP \<Rightarrow> t\<lparr>skipped := skipped t + 1\<rparr>)"

definition status_name :: "status \<Rightarrow> string" where
  "status_name st = (case st of PASS \<Rightarrow> ''PASS'' | FAIL \<Rightarrow> ''FAIL'' | VALGR \<Rightarrow> ''VALGR'' | SKIP \<Rightarrow> ''SKIP'' | CRASH \<Rightarrow> ''CRASH'')"

section \<open>The entry of a job in the results file\<close>

definition example_xml :: "job \<Rightarrow> string" where
  "example_xml j =
     ''<Example>\<newline>'' @ ''  <Name>'' @ display_name j @ ''</Name>\<newline>''
     @ ''  <Result>'' @ status_name (job_status j) @ ''</Result>\<newline>''
     @ ''  <Time real=\"'' @ elapsed_time j @ ''\"/>\<newline>'' @ ''</Example>\<newline>''"

definition suite_xml :: "string \<Rightarrow> string \<Rightarrow> string" where
  "suite_xml name result = ''<Test>\<newline>'' @ ''  <Name>'' @ name @ ''</Name>\<newline>'' @ result @ ''</Test>\<newline>''"

text \<open>
  \<open>results\<close> is what the suites have written to their files.  The entry for an error found by
  valgrind stands in the branch of the crashes, where the return code is not 2.
\<close>

definition job_xml :: "(string \<Rightarrow> string option) \<Rightarrow> job \<Rightarrow> string res" where
  "job_xml results j =
     (if is_example j \<or> is_pyexample j then Inr (example_xml j)
      else if is_skip j then Inr (suite_xml (display_name j) ''  <Result>SKIP</Result>\<newline>'')
      else if returncode j = 0 \<or> returncode j = 1 \<or> returncode j = 2 then of_opt IOError (results (tmp_file_name j))
      else Inr (suite_xml (display_name j) ''  <Result>CRASH</Suite>\<newline>''
                @ (if returncode j = 2 then suite_xml (display_name j) ''  <Result>VALGR</Result>\<newline>'' else [])))"

definition collect :: "(string \<Rightarrow> string option) \<Rightarrow> tally \<Rightarrow> job \<Rightarrow> tally res" where
  "collect results t j =
     (if is_break j then Inr t
      else bind_res (job_xml results j) (\<lambda>x.
             let t' = count_status (job_status j) t in Inr (t'\<lparr>xml := xml t' @ x\<rparr>)))"

definition tally_start :: tally where
  "tally_start = \<lparr>passed = 0, skipped = 0, failed = 0, crashed = 0, valgrind_errors = 0,
     xml = ''<?xml version=\"1.0\"?>\<newline>'' @ ''<Results>\<newline>''\<rparr>"

definition collect_all :: "(string \<Rightarrow> string option) \<Rightarrow> job list \<Rightarrow> tally res" where
  "collect_all results js =
     bind_res (run_steps (collect results) tally_start js) (\<lambda>t. Inr (t\<lparr>xml := xml t @ ''</Results>\<newline>''\<rparr>))"

definition exit_status :: "nat \<Rightarrow> tally \<Rightarrow> int" where
  "exit_status total_tests t = (if passed t + skipped t = total_tests then 0 else 1)"

section \<open>Counts\<close>

abbreviation jobs_with :: "status \<Rightarrow> job list \<Rightarrow> nat" where
  "jobs_with st js \<equiv> length (filter (\<lambda>j. \<not> is_break j \<and> job_status j = st) js)"

lemma collect_counts:
  assumes "run_steps (collect results) t js = Inr t'"
  shows "passed t' = passed t + jobs_with PASS js" "skipped t' = skipped t + jobs_with SKIP js"
    "failed t' = failed t + jobs_with FAIL js" "crashed t' = crashed t + jobs_with CRASH js"
    "valgrind_errors t' = valgrind_errors t + jobs_with VALGR js"
proof (atomize (full), use assms in \<open>induction js arbitrary: t\<close>)
  case (Cons j js)
  from Cons.prems obtain u where u: "collect results t j = Inr u" and r: "run_steps (collect results) u js = Inr t'"
    by (auto simp: bind_res_Inr_iff)
  from u have "passed u = passed t + jobs_with PASS [j] \<and> skipped u = skipped t + jobs_with SKIP [j] \<and>
      failed u = failed t + jobs_with FAIL [j] \<and> crashed u = crashed t + jobs_with CRASH [j] \<and>
      valgrind_errors u = valgrind_errors t + jobs_with VALGR [j]"
    by (auto simp: collect_def bind_res_Inr_iff Let_def count_status_def split: status.splits if_splits)
  with Cons.IH [OF r] show ?case by simp
qed simp

lemma jobs_with_sum:
  "jobs_with PASS js + jobs_with SKIP js + jobs_with FAIL js + jobs_with CRASH js + jobs_with VALGR js
    = length (filter (\<lambda>j. \<not> is_break j) js)"
  by (induction js) (auto simp: job_status_def)

lemma ok_iff_all:
  "jobs_with PASS js + jobs_with SKIP js = length js \<longleftrightarrow>
    (\<forall>j \<in> set js. \<not> is_break j \<and> (job_status j = PASS \<or> job_status j = SKIP))"
proof -
  let ?P = "\<lambda>j. \<not> is_break j \<and> (job_status j = PASS \<or> job_status j = SKIP)"
  have "jobs_with PASS js + jobs_with SKIP js = length (filter ?P js)" by (induction js) auto
  moreover have "length (filter ?P js) = length js \<longleftrightarrow> (\<forall>j \<in> set js. ?P j)"
  proof -
    have "length (filter P js) = length js \<longleftrightarrow> (\<forall>j \<in> set js. P j)" for P :: "job \<Rightarrow> bool"
    proof -
      have "length (filter P js) = length js \<longleftrightarrow> length (filter (\<lambda>j. \<not> P j) js) = 0"
        using sum_length_filter_compl [of P js] by linarith
      then show ?thesis by (simp add: filter_empty_conv)
    qed
    then show ?thesis .
  qed
  ultimately show ?thesis by simp
qed

lemma collect_all_status:
  assumes "collect_all results js = Inr t"
  shows "exit_status (length js) t = 0 \<longleftrightarrow> (\<forall>j \<in> set js. \<not> is_break j \<and> (job_status j = PASS \<or> job_status j = SKIP))"
    and "passed t + skipped t + failed t + crashed t + valgrind_errors t = length (filter (\<lambda>j. \<not> is_break j) js)"
proof -
  from assms obtain u where u: "run_steps (collect results) tally_start js = Inr u" and t: "t = u\<lparr>xml := xml u @ ''</Results>\<newline>''\<rparr>"
    by (auto simp: collect_all_def bind_res_Inr_iff)
  note c = collect_counts [OF u]
  show "exit_status (length js) t = 0 \<longleftrightarrow> (\<forall>j \<in> set js. \<not> is_break j \<and> (job_status j = PASS \<or> job_status j = SKIP))"
    unfolding ok_iff_all [symmetric] by (simp add: exit_status_def t c tally_start_def)
  show "passed t + skipped t + failed t + crashed t + valgrind_errors t = length (filter (\<lambda>j. \<not> is_break j) js)"
    unfolding jobs_with_sum [symmetric] by (simp add: t c tally_start_def)
qed

section \<open>The run as a whole\<close>

text \<open>The pool with the processes of a configuration; \<open>sysconf\<close> reports at least one processor.\<close>

interpretation runner: job_runner "execute_job cfg opts popen" "Suc p" for cfg opts popen p
  by unfold_locales (simp_all add: execute_job_ident)

abbreviation run_pool :: "config \<Rightarrow> topt \<Rightarrow> (string \<Rightarrow> string \<Rightarrow> proc_result) \<Rightarrow> nat \<Rightarrow> pool \<Rightarrow> pool \<Rightarrow> bool" where
  "run_pool cfg opts popen \<equiv> pool_run (execute_job cfg opts popen)"

lemma start_weight: "pool_weight (pool_start p jobs) = 5 * (length jobs + p) + 2"
  by (simp add: pool_weight_def pool_start_def)

lemma reached_inv:
  assumes "run_pool cfg opts popen n (pool_start (Suc p) jobs) s" and "\<forall>j \<in> set jobs. \<not> is_break j"
  shows "pool_inv (execute_job cfg opts popen) jobs s" and "0 < length (workers s)"
  using runner.run_inv [OF assms(1) start_inv [OF assms(2)]] by (simp_all add: pool_start_def)

text \<open>C25. The threads come to an end: whatever the interleaving and whenever the interrupt comes, a run makes
  at most \<open>5 * (jobs + processors) + 2\<close> steps, and as long as the main thread has not joined all workers
  with each job collected exactly once, some thread can make a step (other than an interrupt).
\<close>

theorem threads_terminate:
  assumes "run_pool cfg opts popen n (pool_start (Suc p) jobs) s" and "\<forall>j \<in> set jobs. \<not> is_break j"
  shows "n \<le> 5 * (length jobs + Suc p) + 2 \<and>
    ((\<exists>t. pool_step (execute_job cfg opts popen) s t \<and> thread_exit t = thread_exit s) \<or>
       joined s \<and> image_mset ident (mset (collected s)) = image_mset ident (mset jobs))"
proof -
  note inv = reached_inv [OF assms]
  have "n \<le> 5 * (length jobs + Suc p) + 2" using run_weight [OF assms(1)] by (simp add: start_weight)
  moreover have "joined s \<or> (\<exists>t. pool_step (execute_job cfg opts popen) s t \<and> thread_exit t = thread_exit s)"
    using runner.progress [OF inv] by blast
  moreover have "joined s \<Longrightarrow> image_mset ident (mset (collected s)) = image_mset ident (mset jobs)"
    by (rule runner.joined_collected(1) [OF inv(1)])
  ultimately show ?thesis by blast
qed

definition sample_popen :: "string \<Rightarrow> string \<Rightarrow> proc_result" where
  "sample_popen cmd dir = \<lparr>p_returncode = (if contains ''wifi'' cmd then 1 else 0), p_stdout = [], p_stderr = [], p_elapsed = ''1.000''\<rparr>"

text \<open>C26. Every interleaving of the threads gives the same result: without an interrupt, when the main
  thread has joined the workers, the exit status is 0 exactly when each job of the run is skipped or
  its own process succeeds, and the counts of the summary add up to the number of jobs.
\<close>

theorem status_independent_of_threads:
  assumes "run_pool cfg opts popen n (pool_start (Suc p) jobs) s" and "\<forall>j \<in> set jobs. \<not> is_break j"
    and "joined s" and "\<not> thread_exit s" and "collect_all results (collected s) = Inr t"
  shows "(exit_status (length jobs) t = 0 \<longleftrightarrow>
      (\<forall>j \<in> set jobs. is_skip j \<or> returncode (execute_job cfg opts popen j) = 0)) \<and>
    passed t + skipped t + failed t + crashed t + valgrind_errors t = length jobs"
proof -
  let ?f = "finished (execute_job cfg opts popen)"
  note inv = reached_inv [OF assms(1,2)]
  have m: "mset (collected s) = mset (map ?f jobs)"
    using runner.joined_collected(2) [OF inv(1) assms(3,4)] by simp
  then have c: "set (collected s) = ?f ` set jobs" and l: "length (collected s) = length jobs"
    using mset_eq_setD [OF m] mset_eq_length [OF m] by simp_all
  have b: "\<not> is_break (?f j)" if "j \<in> set jobs" for j
    using assms(2) that by (simp add: finished_def execute_job_def Let_def)
  have s: "is_skip (execute_job cfg opts popen j) = is_skip j" for j by (simp add: execute_job_def Let_def)
  have ok: "job_status (?f j) = PASS \<or> job_status (?f j) = SKIP \<longleftrightarrow>
      is_skip j \<or> returncode (execute_job cfg opts popen j) = 0" for j
    using s [of j] by (simp add: finished_def job_status_def)
  have "filter (\<lambda>j. \<not> is_break j) (collected s) = collected s" using b by (auto simp: filter_id_conv c)
  with collect_all_status [OF assms(5)] show ?thesis by (simp add: l c b ok)
qed

text \<open>A run with one worker and one example.\<close>

definition one_job :: job where
  "one_job = pyexample_job \<lparr>d_cwd = ''/ns3'', d_output = ''out''\<rparr> ''wifi.py'' False"

abbreviation one_result :: job where
  "one_result \<equiv> execute_job sample_config default_opts sample_popen one_job"

definition one_state :: "job list \<Rightarrow> job list \<Rightarrow> worker \<Rightarrow> job list \<Rightarrow> job list \<Rightarrow> bool \<Rightarrow> pool" where
  "one_state i o' w put c jn = \<lparr>in_queue = i, out_queue = o', workers = [w], thread_exit = False, to_put = put,
     to_get = 1 - length c, collected = c, joined = jn\<rparr>"

lemma one_work:
  "worker_step run False w taken emitted w' \<Longrightarrow>
    pool_step run (one_state (taken @ i) o' w put c jn) (one_state i (o' @ emitted) w' put c jn)"
  using pool_step.Work [of 0 "one_state (taken @ i) o' w put c jn" taken i run emitted w'] by (simp add: one_state_def)

lemma one_run:
  "run_pool sample_config default_opts sample_popen 8 (pool_start (Suc 0) [one_job]) (one_state [] [] Stopped [] [one_result] True)"
proof -
  let ?run = "execute_job sample_config default_opts sample_popen"
  have real: "\<not> is_break one_job" "\<not> is_skip one_job" "is_break break_job"
    by (simp_all add: one_job_def pyexample_job_def job_in_def new_job_def break_job_def)
  have "pool_start (Suc 0) [one_job] = one_state [] [] Idle [one_job, break_job] [] False"
    by (simp add: pool_start_def one_state_def)
  then have "pool_run ?run 0 (pool_start (Suc 0) [one_job]) (one_state [] [] Idle [one_job, break_job] [] False)"
    by (simp add: pool_run.refl)
  moreover have "pool_step ?run (one_state [] [] Idle [one_job, break_job] [] False) (one_state [one_job] [] Idle [break_job] [] False)"
    using pool_step.Put [of "one_state [] [] Idle [one_job, break_job] [] False"] by (simp add: one_state_def)
  moreover have "pool_step ?run (one_state [one_job] [] Idle [break_job] [] False) (one_state [one_job, break_job] [] Idle [] [] False)"
    using pool_step.Put [of "one_state [one_job] [] Idle [break_job] [] False"] by (simp add: one_state_def)
  moreover have "pool_step ?run (one_state [one_job, break_job] [] Idle [] [] False) (one_state [break_job] [] (Fetched one_job) [] [] False)"
    using one_work [OF worker_step.Get [OF real(1)], where i = "[break_job]"] by simp
  moreover have "pool_step ?run (one_state [break_job] [] (Fetched one_job) [] [] False) (one_state [break_job] [] (Running one_job) [] [] False)"
    using one_work [OF worker_step.Launch [OF _ real(2)], where i = "[break_job]"] by simp
  moreover have "pool_step ?run (one_state [break_job] [] (Running one_job) [] [] False) (one_state [break_job] [one_result] Idle [] [] False)"
    using one_work [OF worker_step.Finish, where i = "[break_job]" and o' = "[]"] by simp
  moreover have "pool_step ?run (one_state [break_job] [one_result] Idle [] [] False) (one_state [break_job] [] Idle [] [one_result] False)"
    using pool_step.Collect [of "one_state [break_job] [one_result] Idle [] [] False" 0] by (simp add: one_state_def)
  moreover have "pool_step ?run (one_state [break_job] [] Idle [] [one_result] False) (one_state [] [] Stopped [] [one_result] False)"
    using one_work [OF worker_step.Break [OF real(3)], where i = "[]" and o' = "[]"] by simp
  moreover have "pool_step ?run (one_state [] [] Stopped [] [one_result] False) (one_state [] [] Stopped [] [one_result] True)"
    using pool_step.Join [of "one_state [] [] Stopped [] [one_result] False"] by (simp add: one_state_def)
  ultimately have "pool_run ?run (Suc (Suc (Suc (Suc (Suc (Suc (Suc (Suc 0)))))))) (pool_start (Suc 0) [one_job])
      (one_state [] [] Stopped [] [one_result] True)"
    by (blast intro: pool_run.step)
  then show ?thesis by (simp add: eval_nat_numeral)
qed

theorem threads_terminate_witness:
  "(8 :: nat) \<le> 5 * (length [one_job] + Suc 0) + 2 \<and> joined (one_state [] [] Stopped [] [one_result] True) \<and>
     image_mset ident (mset (collected (one_state [] [] Stopped [] [one_result] True))) = image_mset ident (mset [one_job])"
proof -
  let ?s = "one_state [] [] Stopped [] [one_result] True"
  have nb: "\<forall>j \<in> set [one_job]. \<not> is_break j" by (simp add: one_job_def pyexample_job_def job_in_def new_job_def)
  have "\<not> (\<exists>t. pool_step (execute_job sample_config default_opts sample_popen) ?s t \<and> thread_exit t = thread_exit ?s)"
    by (auto simp: one_state_def elim!: StepE elim: WorkerE)
  with threads_terminate [OF one_run nb] show ?thesis by blast
qed

theorem status_independent_of_threads_witness:
  "\<exists>t. collect_all (\<lambda>_. None) [one_result] = Inr t \<and> exit_status 1 t = 1"
proof -
  let ?s = "one_state [] [] Stopped [] [one_result] True"
  have f: "collected ?s = [one_result]" "joined ?s" "\<not> thread_exit ?s" by (simp_all add: one_state_def)
  have nb: "\<forall>j \<in> set [one_job]. \<not> is_break j" by (simp add: one_job_def pyexample_job_def job_in_def new_job_def)
  have r: "is_pyexample one_result" "\<not> is_skip one_job" "returncode one_result \<noteq> 0" "\<not> is_break one_result"
    by code_simp+
  then have "job_xml (\<lambda>_. None) one_result = Inr (example_xml one_result)" by (simp add: job_xml_def)
  with r(4) obtain t where t: "collect_all (\<lambda>_. None) (collected ?s) = Inr t"
    by (simp add: f collect_all_def collect_def Let_def)
  from status_independent_of_threads [OF one_run nb f(2,3) t] r t show ?thesis
    by (auto simp: f exit_status_def split: if_splits)
qed

text \<open>An interrupt that comes before a job has been fetched and checked makes the run fail.\<close>

theorem interrupted_run_fails:
  assumes "collect_all results js = Inr t" and "\<exists>j \<in> set js. is_break j"
  shows "exit_status (length js) t = 1"
  using collect_all_status(1) [OF assms(1)] assms(2) by (auto simp: exit_status_def split: if_splits)

section \<open>Is the results file well nested?\<close>

text \<open>The tags of a text, and whether they are nested below the open elements \<open>st\<close>.\<close>

fun tags :: "string option \<Rightarrow> string \<Rightarrow> string list" where
  "tags _ [] = []"
| "tags None (c # s) = (if c = CHR ''<'' then tags (Some []) s else tags None s)"
| "tags (Some t) (c # s) = (if c = CHR ''>'' then t # tags None s else tags (Some (t @ [c])) s)"

fun in_tag :: "string option \<Rightarrow> string \<Rightarrow> string option" where
  "in_tag m [] = m"
| "in_tag None (c # s) = (if c = CHR ''<'' then in_tag (Some []) s else in_tag None s)"
| "in_tag (Some t) (c # s) = (if c = CHR ''>'' then in_tag None s else in_tag (Some (t @ [c])) s)"

fun nested :: "string list \<Rightarrow> string list \<Rightarrow> string list option" where
  "nested st [] = Some st"
| "nested st (t # ts) =
     (if startswith t ''/'' then (case st of [] \<Rightarrow> None | x # xs \<Rightarrow> if x = tl t then nested xs ts else None)
      else if startswith t ''?'' \<or> t \<noteq> [] \<and> last t = CHR ''/'' then nested st ts
      else nested (takeWhile (\<lambda>c. c \<noteq> CHR '' '') t # st) ts)"

definition well_nested :: "string \<Rightarrow> bool" where
  "well_nested s \<longleftrightarrow> in_tag None s = None \<and> nested [] (tags None s) = Some []"

lemma tags_append: "tags m (s @ r) = tags m s @ tags (in_tag m s) r"
  by (induction m s rule: tags.induct) simp_all

lemma in_tag_append: "in_tag m (s @ r) = in_tag (in_tag m s) r"
  by (induction m s rule: in_tag.induct) simp_all

lemma nested_append: "nested st (ts @ us) = (case nested st ts of None \<Rightarrow> None | Some st' \<Rightarrow> nested st' us)"
  by (induction st ts rule: nested.induct) (auto split: list.splits)

lemma nested_frame: "nested st ts = Some st' \<Longrightarrow> nested (st @ below) ts = Some (st' @ below)"
  by (induction st ts rule: nested.induct) (auto split: list.splits if_splits)

lemma in_tag_plain: "CHR ''<'' \<notin> set s \<Longrightarrow> in_tag None s = None"
  by (induction s) auto

lemma tags_plain: "CHR ''<'' \<notin> set s \<Longrightarrow> tags None s = []"
  by (induction s) auto

text \<open>A piece of text that keeps the reader outside of tags, and what it does to the open elements.\<close>

lemma nested_piece:
  assumes "in_tag None s = None" and "nested [] (tags None s) = Some []"
  shows "nested st (tags None (s @ r)) = nested st (tags None r)"
  using assms nested_frame [of "[]" "tags None s" "[]" st] by (simp add: tags_append nested_append)

lemma suite_entry_ok:
  assumes "CHR ''<'' \<notin> set nm"
  shows "well_nested (suite_xml nm ''  <Result>SKIP</Result>\<newline>'')"
  using assms by (simp add: well_nested_def suite_xml_def tags_append in_tag_append tags_plain in_tag_plain)

lemma crash_entry_bad:
  assumes "CHR ''<'' \<notin> set nm"
  shows "in_tag None (suite_xml nm ''  <Result>CRASH</Suite>\<newline>'') = None"
    and "nested st (tags None (suite_xml nm ''  <Result>CRASH</Suite>\<newline>'')) = None"
  using assms by (simp_all add: suite_xml_def tags_append in_tag_append tags_plain in_tag_plain)

lemma status_plain: "CHR ''<'' \<notin> set (status_name st)"
  by (cases st) (simp_all add: status_name_def)

lemma elapsed_tags:
  assumes "CHR ''>'' \<notin> set e"
  shows "in_tag (Some t) e = Some (t @ e)" and "tags (Some t) e = []"
  using assms by (induction e arbitrary: t) auto

lemma example_entry_ok:
  assumes "CHR ''<'' \<notin> set (display_name j)" and "CHR ''>'' \<notin> set (elapsed_time j)"
  shows "well_nested (example_xml j)"
proof -
  have "startswith (''Time real=\"'' @ e @ ''\"/'') ''/'' = False" "startswith (''Time real=\"'' @ e @ ''\"/'') ''?'' = False" for e
    by simp_all
  then show ?thesis using assms status_plain [of "job_status j"]
    by (simp add: well_nested_def example_xml_def tags_append in_tag_append tags_plain in_tag_plain elapsed_tags)
qed

definition crashed_suite :: "job \<Rightarrow> bool" where
  "crashed_suite j \<longleftrightarrow> \<not> is_break j \<and> \<not> is_example j \<and> \<not> is_pyexample j \<and> job_status j = CRASH"

text \<open>The entry of a job keeps what is open, unless it is that of a crashed suite.\<close>

definition piece_of :: "bool \<Rightarrow> string \<Rightarrow> bool" where
  "piece_of bad s \<longleftrightarrow> in_tag None s = None \<and>
     (\<forall>st r. nested st (tags None (s @ r)) = (if bad then None else nested st (tags None r)))"

lemma piece_append: "piece_of b s \<Longrightarrow> piece_of c r \<Longrightarrow> piece_of (b \<or> c) (s @ r)"
  by (auto simp: piece_of_def in_tag_append)

lemma piece_nested: "well_nested s \<Longrightarrow> piece_of False s"
  by (simp add: piece_of_def well_nested_def nested_piece)

lemma job_piece:
  assumes "job_xml results j = Inr x" and "\<not> is_break j"
    and "CHR ''<'' \<notin> set (display_name j)" and "CHR ''>'' \<notin> set (elapsed_time j)"
    and "\<And>f c. results f = Some c \<Longrightarrow> well_nested c"
  shows "piece_of (crashed_suite j) x"
proof -
  consider (example) "is_example j \<or> is_pyexample j" | (skipped) "\<not> is_example j" "\<not> is_pyexample j" "is_skip j"
    | (own) "\<not> is_example j" "\<not> is_pyexample j" "\<not> is_skip j" "returncode j = 0 \<or> returncode j = 1 \<or> returncode j = 2"
    | (crash) "\<not> is_example j" "\<not> is_pyexample j" "\<not> is_skip j" "\<not> (returncode j = 0 \<or> returncode j = 1 \<or> returncode j = 2)"
    by blast
  then show ?thesis
  proof cases
    case example
    with assms(1) have "x = example_xml j" by (simp add: job_xml_def)
    with example_entry_ok [OF assms(3,4)] have "well_nested x" by simp
    with example show ?thesis using piece_nested by (auto simp: crashed_suite_def)
  next
    case skipped
    with assms(1) have "x = suite_xml (display_name j) ''  <Result>SKIP</Result>\<newline>''" by (simp add: job_xml_def)
    with suite_entry_ok [OF assms(3)] have "well_nested x" by simp
    with skipped show ?thesis using piece_nested by (simp add: crashed_suite_def job_status_def)
  next
    case own
    with assms(1) have "results (tmp_file_name j) = Some x" by (auto simp: job_xml_def of_opt_Inr_iff)
    with assms(5) have "well_nested x" by simp
    with own show ?thesis using piece_nested by (auto simp: crashed_suite_def job_status_def)
  next
    case crash
    with assms(1) have "x = suite_xml (display_name j) ''  <Result>CRASH</Suite>\<newline>''" by (simp add: job_xml_def)
    with crash_entry_bad [OF assms(3)] crash assms(2) show ?thesis
      by (auto simp: piece_of_def crashed_suite_def job_status_def tags_append nested_append)
  qed
qed

lemma collect_piece:
  assumes "run_steps (collect results) t js = Inr u"
    and "\<And>j. j \<in> set js \<Longrightarrow> CHR ''<'' \<notin> set (display_name j) \<and> CHR ''>'' \<notin> set (elapsed_time j)"
    and "\<And>f c. results f = Some c \<Longrightarrow> well_nested c"
  shows "\<exists>s. xml u = xml t @ s \<and> piece_of (list_ex crashed_suite js) s"
  using assms(1,2)
proof (induction js arbitrary: t)
  case Nil
  then show ?case by (simp add: piece_of_def)
next
  case (Cons j js)
  from Cons.prems(1) obtain v where v: "collect results t j = Inr v" and r: "run_steps (collect results) v js = Inr u"
    by (auto simp: bind_res_Inr_iff)
  have "\<exists>x. xml v = xml t @ x \<and> piece_of (crashed_suite j) x"
  proof (cases "is_break j")
    case True
    with v show ?thesis by (simp add: collect_def piece_of_def crashed_suite_def)
  next
    case False
    with v obtain x where x: "job_xml results j = Inr x" and "xml v = xml (count_status (job_status j) t) @ x"
      by (auto simp: collect_def bind_res_Inr_iff Let_def)
    moreover have "xml (count_status st t) = xml t" for st by (cases st) (simp_all add: count_status_def)
    moreover have "piece_of (crashed_suite j) x"
      using Cons.prems(2) [of j] by (intro job_piece [OF x False _ _ assms(3)]) simp_all
    ultimately show ?thesis by simp
  qed
  moreover from Cons.IH [OF r] Cons.prems(2) obtain s where "xml u = xml v @ s" "piece_of (list_ex crashed_suite js) s" by auto
  ultimately show ?case using piece_append by fastforce
qed

text \<open>C27. The results file is well nested, so that the reports can be made, exactly when no test suite
  has crashed: the entry of a crashed suite closes \<open>Result\<close> with \<open>Suite\<close>.
\<close>

theorem results_file_well_nested:
  assumes "collect_all results js = Inr t"
    and "\<And>j. j \<in> set js \<Longrightarrow> CHR ''<'' \<notin> set (display_name j) \<and> CHR ''>'' \<notin> set (elapsed_time j)"
    and "\<And>f c. results f = Some c \<Longrightarrow> well_nested c"
  shows "well_nested (xml t) \<longleftrightarrow> \<not> (\<exists>j \<in> set js. crashed_suite j)"
proof -
  from assms(1) obtain u where u: "run_steps (collect results) tally_start js = Inr u"
    and t: "xml t = xml u @ ''</Results>\<newline>''" by (auto simp: collect_all_def bind_res_Inr_iff)
  have "\<exists>s. xml u = xml tally_start @ s \<and> piece_of (list_ex crashed_suite js) s"
    by (rule collect_piece [OF u]) (use assms(2,3) in blast)+
  then obtain s where s: "xml u = xml tally_start @ s" "piece_of (list_ex crashed_suite js) s"
    by blast
  have h: "in_tag None (xml tally_start) = None" "tags None (xml tally_start) = [''?xml version=\"1.0\"?'', ''Results'']"
    by (simp_all add: tally_start_def)
  have e: "in_tag None ''</Results>\<newline>'' = None" "tags None ''</Results>\<newline>'' = [''/Results'']" by simp_all
  have "nested [] (tags None (xml t)) = nested [''Results''] (tags None (s @ ''</Results>\<newline>''))"
    unfolding t s(1) tags_append h in_tag_append by (simp add: tags_append)
  also have "\<dots> = (if list_ex crashed_suite js then None else Some [])"
    using s(2) by (simp add: piece_of_def e)
  finally have "nested [] (tags None (xml t)) = (if list_ex crashed_suite js then None else Some [])" .
  moreover have "in_tag None (xml t) = None" using s(2) h e by (simp add: t s(1) in_tag_append piece_of_def)
  ultimately show ?thesis by (auto simp: well_nested_def list_ex_iff)
qed

theorem results_file_well_nested_witness:
  "\<exists>t. collect_all (\<lambda>_. None) [one_result, new_job\<lparr>display_name := ''wifi'', returncode := 139\<rparr>] = Inr t \<and> \<not> well_nested (xml t)"
proof -
  let ?js = "[one_result, new_job\<lparr>display_name := ''wifi'', returncode := 139\<rparr>]"
  have "(case collect_all (\<lambda>_. None) ?js of Inl _ \<Rightarrow> False | Inr _ \<Rightarrow> True)" by code_simp
  then obtain t where t: "collect_all (\<lambda>_. None) ?js = Inr t" by (cases "collect_all (\<lambda>_. None) ?js") auto
  have n: "CHR ''<'' \<notin> set (display_name j) \<and> CHR ''>'' \<notin> set (elapsed_time j)" if "j \<in> set ?js" for j
  proof -
    have "list_all (\<lambda>j. CHR ''<'' \<notin> set (display_name j) \<and> CHR ''>'' \<notin> set (elapsed_time j)) ?js" by code_simp
    with that show ?thesis by (auto simp: list_all_iff)
  qed
  have "list_ex crashed_suite ?js" by code_simp
  then have "\<exists>j \<in> set ?js. crashed_suite j" by (simp only: list_ex_iff)
  with results_file_well_nested [OF t n] t show ?thesis by blast
qed

end
