(* ===== verification/Test_Report.thy ===== *)
theory Test_Report
  imports Py_Strings
begin

text \<open>
  \<open>test.py\<close>: the reports made from the XML results file, \<open>read_test\<close>, \<open>node_to_text\<close>,
  \<open>translate_to_text\<close> and \<open>translate_to_html\<close>.  The parsed document is a tree of elements
  as \<open>xml.etree.ElementTree\<close> gives it; a report is the list of the strings that are written.
\<close>

section \<open>Elements\<close>

datatype elem = Elem (tag: string) (attrs: "(string \<times> string) list") (e_text: "string option") (children: "elem list")

definition findall :: "string \<Rightarrow> elem \<Rightarrow> elem list" where
  "findall t e = filter (\<lambda>c. tag c = t) (children e)"

definition find_elem :: "string \<Rightarrow> elem \<Rightarrow> elem option" where
  "find_elem t e = find (\<lambda>c. tag c = t) (children e)"

text \<open>\<open>e.find(t).text\<close>: there is no attribute \<open>text\<close> on \<open>None\<close>.\<close>

definition find_text :: "string \<Rightarrow> elem \<Rightarrow> string option res" where
  "find_text t e = of_opt AttributeError (map_option e_text (find_elem t e))"

text \<open>\<open>%s\<close> of a text or attribute that is missing prints \<open>None\<close>.\<close>

definition show_text :: "string option \<Rightarrow> string" where
  "show_text t = (case t of None \<Rightarrow> ''None'' | Some s \<Rightarrow> s)"

definition read_test :: "elem \<Rightarrow> (string option \<times> string option \<times> string option) res" where
  "read_test test =
     bind_res (find_text ''Result'' test) (\<lambda>result.
     bind_res (find_text ''Name'' test) (\<lambda>name.
     Inr (result, name, (case find_elem ''Time'' test of None \<Rightarrow> Some [] | Some t \<Rightarrow> map_of (attrs t) ''real''))))"

section \<open>The text report\<close>

definition detail_names :: "string list" where
  "detail_names = [''Message'', ''Condition'', ''Actual'', ''Limit'', ''File'', ''Line'']"

definition detail_line :: "elem \<Rightarrow> string \<times> string \<Rightarrow> string res" where
  "detail_line d = (\<lambda>(nm, label). bind_res (find_text nm d) (\<lambda>t. Inr (''      '' @ label @ show_text t @ ''\<newline>'')))"

definition detail_labels :: "(string \<times> string) list" where
  "detail_labels = zip detail_names [''Message:   '', ''Condition: '', ''Actual:    '', ''Limit:     '', ''File:      '', ''Line:      '']"

definition details_text :: "elem \<Rightarrow> string list res" where
  "details_text d = bind_res (map_res (detail_line d) detail_labels) (\<lambda>ls. Inr (''    Details:\<newline>'' # ls))"

definition summary_line :: "string \<Rightarrow> string option \<times> string option \<times> string option \<Rightarrow> string" where
  "summary_line kind = (\<lambda>(result, name, time_real).
     show_text result @ '': '' @ kind @ '' \"'' @ show_text name @ ''\" ('' @ show_text time_real @ '')\<newline>'')"

definition test_text :: "elem \<Rightarrow> string list res" where
  "test_text test =
     bind_res (read_test test) (\<lambda>r.
     bind_res (map_res details_text (findall ''FailureDetails'' test)) (\<lambda>ds.
     Inr (summary_line ''Test Suite'' r # concat ds)))"

lemma size_child: "c \<in> set (findall t e) \<Longrightarrow> size c < size e"
  by (cases e) (auto simp: findall_def less_Suc_eq_le dest!: size_list_estimation' [where f = size and y = "size c", OF _ order_refl])

function node_to_text :: "elem \<Rightarrow> string list res" where
  "node_to_text test =
     bind_res (test_text test) (\<lambda>out.
     bind_res (map_res node_to_text (findall ''Test'' test)) (\<lambda>outs. Inr (out @ concat outs)))"
  by pat_completeness auto
termination
  by (relation "measure size") (auto intro: size_child)

declare node_to_text.simps [simp del]

definition example_text :: "elem \<Rightarrow> string list res" where
  "example_text example = bind_res (read_test example) (\<lambda>r. Inr [summary_line ''Example'' r])"

definition translate_to_text :: "elem \<Rightarrow> string list res" where
  "translate_to_text et =
     bind_res (map_res node_to_text (findall ''Test'' et)) (\<lambda>tests.
     bind_res (map_res example_text (findall ''Example'' et)) (\<lambda>examples.
     Inr (concat tests @ concat examples)))"

section \<open>The HTML report\<close>

definition coloured :: "string \<Rightarrow> string \<Rightarrow> string \<Rightarrow> string" where
  "coloured tg colour body = ''<'' @ tg @ '' style=\"color:'' @ colour @ ''\">'' @ body"

definition td :: "string option \<Rightarrow> string" where
  "td t = ''<td>'' @ show_text t @ ''</td>\<newline>''"

definition html_colour :: "string option \<Rightarrow> string" where
  "html_colour result = (if result = Some ''PASS'' then ''green'' else if result = Some ''SKIP'' then ''#ff6600'' else ''red'')"

definition html_heading :: "string option \<times> string option \<times> string option \<Rightarrow> string" where
  "html_heading = (\<lambda>(result, name, time).
     coloured ''h3'' (html_colour result) (show_text result @ '': '' @ show_text name @ '' ('' @ show_text time @ '')</h3>\<newline>''))"

definition bold_detail :: "elem \<Rightarrow> string \<Rightarrow> string res" where
  "bold_detail d nm =
     bind_res (find_text nm d) (\<lambda>t. Inr (''<b>'' @ nm @ '': </b>'' @ show_text t @ (if nm = ''Line'' then [] else '', '')))"

text \<open>A row for one failure; the row is opened with \<open><tr>\<close> and ended with \<open></td>\<close>.\<close>

definition failure_row :: "string option \<times> string option \<times> string option \<Rightarrow> bool \<Rightarrow> elem \<Rightarrow> string list res" where
  "failure_row = (\<lambda>(result, name, time) first_row d.
     bind_res (map_res (bold_detail d) detail_names) (\<lambda>bs.
     Inr ([''<tr>\<newline>''] @
          (if first_row then [coloured ''td'' ''red'' (show_text result @ ''</td>\<newline>''), td name, td time]
           else [''<td></td>\<newline>'', ''<td></td>\<newline>'', ''<td></td>\<newline>'']) @
          [''<td>''] @ bs @ [''</td>\<newline>'', ''</td>\<newline>''])))"

fun failure_rows :: "string option \<times> string option \<times> string option \<Rightarrow> bool \<Rightarrow> elem list \<Rightarrow> string list res" where
  "failure_rows r first_row [] = Inr []"
| "failure_rows r first_row (d # ds) =
     bind_res (failure_row r first_row d) (\<lambda>out. bind_res (failure_rows r False ds) (\<lambda>outs. Inr (out @ outs)))"

definition case_rows :: "elem \<Rightarrow> string list res" where
  "case_rows cs =
     bind_res (read_test cs) (\<lambda>(result, name, time).
       if result = Some ''FAIL'' then failure_rows (result, name, time) True (findall ''FailureDetails'' cs)
       else Inr [''<tr>\<newline>'', coloured ''td'' ''green'' (show_text result @ ''</td>\<newline>''), td name, td time,
                 ''<td></td>\<newline>'', ''</tr>\<newline>''])"

definition suite_html :: "elem \<Rightarrow> string list res" where
  "suite_html suite =
     bind_res (read_test suite) (\<lambda>(result, name, time).
       let start = [html_heading (result, name, time), ''<table border=\"1\">\<newline>'', ''<th> Result </th>\<newline>''] in
       if result = Some ''CRASH'' \<or> result = Some ''SKIP'' \<or> result = Some ''VALGR'' then
         Inr (start @ [''<tr>\<newline>'',
              coloured ''td'' (if result = Some ''SKIP'' then ''#ff6600'' else ''red'') (show_text result @ ''</td>\<newline>''),
              ''</tr>\<newline>'', ''</table>\<newline>''])
       else
         bind_res (map_res case_rows (findall ''Test'' suite)) (\<lambda>rows.
         Inr (start @ [''<th>Test Case Name</th>\<newline>'', ''<th> Time </th>\<newline>''] @
              (if result = Some ''FAIL'' then [''<th>Failure Details</th>\<newline>''] else []) @
              concat rows @ [''</table>\<newline>''])))"

definition example_row :: "elem \<Rightarrow> string list res" where
  "example_row example =
     bind_res (read_test example) (\<lambda>(result, name, time).
     Inr [''<tr>\<newline>'',
          coloured ''td'' (html_colour result) (show_text result @ (if result = Some ''SKIP'' then ''</fd>\<newline>'' else ''</td>\<newline>'')),
          td name, td time, ''</tr>\<newline>''])"

definition translate_to_html :: "elem \<Rightarrow> string list res" where
  "translate_to_html et =
     bind_res (map_res suite_html (findall ''Test'' et)) (\<lambda>suites.
     bind_res (map_res example_row (findall ''Example'' et)) (\<lambda>examples.
     Inr ([''<html>\<newline>'', ''<body>\<newline>'', ''<center><h1>ns-3 Test Results</h1></center>\<newline>'', ''<h2>Test Suites</h2>\<newline>'']
          @ concat suites @ [''<h2>Examples</h2>\<newline>'', ''<table border=\"1\">\<newline>'', ''<th> Result </th>\<newline>'',
             ''<th>Example Name</th>\<newline>'', ''<th>Elapsed Time</th>\<newline>'']
          @ concat examples @ [''</table>\<newline>'', ''</body>\<newline>'', ''</html>\<newline>''])))"

section \<open>The text report goes through the tests in document order\<close>

text \<open>All \<open>Test\<close> elements below an element, outer ones first.\<close>

function all_tests :: "elem \<Rightarrow> elem list" where
  "all_tests e = concat (map (\<lambda>t. t # all_tests t) (findall ''Test'' e))"
  by pat_completeness auto
termination
  by (relation "measure size") (auto intro: size_child)

declare all_tests.simps [simp del]

lemma map_res_append:
  "map_res f (xs @ ys) = bind_res (map_res f xs) (\<lambda>a. bind_res (map_res f ys) (\<lambda>b. Inr (a @ b)))"
  by (induction xs) (simp_all add: bind_res_assoc)

lemma map_res_concat_nested:
  assumes "\<And>x. x \<in> set xs \<Longrightarrow> f x = bind_res (map_res g (h x)) (\<lambda>ys. Inr (concat ys))"
  shows "bind_res (map_res f xs) (\<lambda>ys. Inr (concat ys)) = bind_res (map_res g (concat (map h xs))) (\<lambda>ys. Inr (concat ys))"
  using assms
proof (induction xs)
  case (Cons x xs)
  have "bind_res (map_res f (x # xs)) (\<lambda>ys. Inr (concat ys)) =
      bind_res (f x) (\<lambda>y. bind_res (bind_res (map_res f xs) (\<lambda>ys. Inr (concat ys))) (\<lambda>z. Inr (y @ z)))"
    by (simp add: bind_res_assoc)
  also have "\<dots> = bind_res (bind_res (map_res g (h x)) (\<lambda>ys. Inr (concat ys)))
      (\<lambda>y. bind_res (bind_res (map_res g (concat (map h xs))) (\<lambda>ys. Inr (concat ys))) (\<lambda>z. Inr (y @ z)))"
    using Cons by simp
  finally show ?case by (simp add: map_res_append bind_res_assoc)
qed simp

lemma node_to_text_flat:
  "node_to_text t = bind_res (map_res test_text (t # all_tests t)) (\<lambda>ls. Inr (concat ls))"
proof (induction t rule: node_to_text.induct)
  case (1 t)
  have "bind_res (map_res node_to_text (findall ''Test'' t)) (\<lambda>ys. Inr (concat ys))
      = bind_res (map_res test_text (concat (map (\<lambda>c. c # all_tests c) (findall ''Test'' t)))) (\<lambda>ys. Inr (concat ys))"
    by (rule map_res_concat_nested) (rule "1.IH")
  then have n: "bind_res (map_res node_to_text (findall ''Test'' t)) (\<lambda>ys. Inr (concat ys))
      = bind_res (map_res test_text (all_tests t)) (\<lambda>ys. Inr (concat ys))"
    by (simp add: all_tests.simps [of t])
  have "node_to_text t = bind_res (test_text t) (\<lambda>out.
      bind_res (bind_res (map_res node_to_text (findall ''Test'' t)) (\<lambda>ys. Inr (concat ys))) (\<lambda>o'. Inr (out @ o')))"
    by (simp add: node_to_text.simps [of t] bind_res_assoc)
  then show ?case unfolding n by (simp add: bind_res_assoc)
qed

text \<open>The text report is the report of each test suite and test case, in document order, however
  deeply they are nested, followed by a line for each example; it fails exactly when one of these does.
\<close>

theorem text_report_in_document_order:
  "translate_to_text et =
     bind_res (map_res test_text (all_tests et)) (\<lambda>tests.
     bind_res (map_res example_text (findall ''Example'' et)) (\<lambda>examples.
     Inr (concat tests @ concat examples)))"
proof -
  have n: "bind_res (map_res node_to_text (findall ''Test'' et)) (\<lambda>ys. Inr (concat ys))
      = bind_res (map_res test_text (all_tests et)) (\<lambda>ys. Inr (concat ys))"
    unfolding all_tests.simps [of et] by (rule map_res_concat_nested) (rule node_to_text_flat)
  have "translate_to_text et = bind_res (bind_res (map_res node_to_text (findall ''Test'' et)) (\<lambda>ys. Inr (concat ys))) (\<lambda>tests.
     bind_res (map_res example_text (findall ''Example'' et)) (\<lambda>examples. Inr (tests @ concat examples)))"
    by (simp add: translate_to_text_def bind_res_assoc)
  then show ?thesis unfolding n by (simp add: bind_res_assoc)
qed

section \<open>Rows of the HTML report\<close>

definition row_opens :: "string list \<Rightarrow> nat" where
  "row_opens out = count_list out ''<tr>\<newline>''"

definition row_closes :: "string list \<Rightarrow> nat" where
  "row_closes out = count_list out ''</tr>\<newline>''"

lemma count_list_append [simp]: "count_list (xs @ ys) a = count_list xs a + count_list ys a"
  by (induction xs) auto

lemma row_counts [simp]:
  "row_opens [] = 0" "row_closes [] = 0"
  "row_opens (s # out) = (if s = ''<tr>\<newline>'' then 1 else 0) + row_opens out"
  "row_closes (s # out) = (if s = ''</tr>\<newline>'' then 1 else 0) + row_closes out"
  "row_opens (out @ out') = row_opens out + row_opens out'"
  "row_closes (out @ out') = row_closes out + row_closes out'"
  by (simp_all add: row_opens_def row_closes_def)

lemma not_row [simp]:
  "coloured ''td'' c b \<noteq> ''<tr>\<newline>''" "coloured ''td'' c b \<noteq> ''</tr>\<newline>''"
  "html_heading r \<noteq> ''<tr>\<newline>''" "html_heading r \<noteq> ''</tr>\<newline>''"
  "td t \<noteq> ''<tr>\<newline>''" "td t \<noteq> ''</tr>\<newline>''"
  by (simp_all add: coloured_def td_def html_heading_def split: prod.split)

definition result_of :: "elem \<Rightarrow> string option" where
  "result_of e = (case find_text ''Result'' e of Inl _ \<Rightarrow> None | Inr r \<Rightarrow> r)"

text \<open>The rows for failures below a suite.\<close>

definition failures :: "elem \<Rightarrow> nat" where
  "failures suite =
     (if result_of suite \<in> {Some ''CRASH'', Some ''SKIP'', Some ''VALGR''} then 0
      else sum_list (map (\<lambda>cs. if result_of cs = Some ''FAIL'' then length (findall ''FailureDetails'' cs) else 0)
             (findall ''Test'' suite)))"

lemma read_test_result: "read_test e = Inr (result, name, time) \<Longrightarrow> result_of e = result"
  by (auto simp: read_test_def result_of_def bind_res_Inr_iff)

lemma bold_details_rows:
  "map_res (bold_detail d) ns = Inr bs \<Longrightarrow> row_opens bs = 0 \<and> row_closes bs = 0"
  by (induction ns arbitrary: bs) (auto simp: bind_res_Inr_iff bold_detail_def)

lemma failure_row_rows: "failure_row r b d = Inr out \<Longrightarrow> row_opens out = Suc (row_closes out)"
  by (cases r) (auto simp: failure_row_def bind_res_Inr_iff dest!: bold_details_rows)

lemma failure_rows_rows: "failure_rows r b ds = Inr out \<Longrightarrow> row_opens out = row_closes out + length ds"
  by (induction r b ds arbitrary: out rule: failure_rows.induct) (auto simp: bind_res_Inr_iff dest!: failure_row_rows)

lemma case_rows_rows:
  "case_rows cs = Inr out \<Longrightarrow>
    row_opens out = row_closes out + (if result_of cs = Some ''FAIL'' then length (findall ''FailureDetails'' cs) else 0)"
  by (auto simp: case_rows_def bind_res_Inr_iff dest!: read_test_result failure_rows_rows split: if_splits)

lemma map_res_rows:
  assumes "map_res f xs = Inr outs" and "\<And>x out. f x = Inr out \<Longrightarrow> row_opens out = row_closes out + n x"
  shows "row_opens (concat outs) = row_closes (concat outs) + sum_list (map n xs)"
  using assms(1)
proof (induction xs arbitrary: outs)
  case (Cons x xs)
  then show ?case by (auto simp: bind_res_Inr_iff dest!: assms(2))
qed simp

lemma suite_html_rows: "suite_html suite = Inr out \<Longrightarrow> row_opens out = row_closes out + failures suite"
proof -
  assume "suite_html suite = Inr out"
  then obtain result name time where r: "read_test suite = Inr (result, name, time)" and
    o: "(case (result, name, time) of (result, name, time) \<Rightarrow> suite_html suite) = Inr out"
    by (auto simp: suite_html_def bind_res_Inr_iff)
  note res = read_test_result [OF r]
  show "row_opens out = row_closes out + failures suite"
  proof (cases "result = Some ''CRASH'' \<or> result = Some ''SKIP'' \<or> result = Some ''VALGR''")
    case True
    then have "failures suite = 0" by (auto simp: failures_def res)
    with True o r show ?thesis by (auto simp: suite_html_def Let_def)
  next
    case False
    with o r obtain rows where m: "map_res case_rows (findall ''Test'' suite) = Inr rows"
      and out: "row_opens out = row_opens (concat rows)" "row_closes out = row_closes (concat rows)"
      by (auto simp: suite_html_def Let_def bind_res_Inr_iff)
    from map_res_rows [OF m case_rows_rows] False show ?thesis
      by (simp add: out failures_def res)
  qed
qed

lemma example_row_rows: "example_row e = Inr out \<Longrightarrow> row_opens out = row_closes out + 0"
  by (auto simp: example_row_def bind_res_Inr_iff)

text \<open>In the HTML report every table row is closed, except the rows of failures: exactly one row stays
  open for each failure detail of a failed test case.
\<close>

theorem html_rows_open:
  assumes "translate_to_html et = Inr out"
  shows "row_opens out = row_closes out + sum_list (map failures (findall ''Test'' et))"
proof -
  from assms obtain suites examples where s: "map_res suite_html (findall ''Test'' et) = Inr suites"
    and e: "map_res example_row (findall ''Example'' et) = Inr examples"
    and o: "row_opens out = row_opens (concat suites) + row_opens (concat examples)"
      "row_closes out = row_closes (concat suites) + row_closes (concat examples)"
    by (auto simp: translate_to_html_def bind_res_Inr_iff)
  show ?thesis
    using map_res_rows [OF s suite_html_rows] map_res_rows [OF e example_row_rows] by (simp add: o)
qed

definition leaf :: "string \<Rightarrow> string \<Rightarrow> elem" where
  "leaf t s = Elem t [] (Some s) []"

definition sample_results :: elem where
  "sample_results = Elem ''Results'' [] None
    [Elem ''Test'' [] None
      [leaf ''Name'' ''wifi'', leaf ''Result'' ''FAIL'', Elem ''Time'' [(''real'', ''0.1'')] None [],
       Elem ''Test'' [] None [leaf ''Name'' ''c1'', leaf ''Result'' ''FAIL'',
         Elem ''FailureDetails'' [] None (map (\<lambda>n. leaf n ''x'') detail_names)]],
     Elem ''Example'' [] None [leaf ''Name'' ''udp'', leaf ''Result'' ''SKIP'']]"

theorem html_rows_open_witness:
  "\<exists>out. translate_to_html sample_results = Inr out \<and> row_opens out = row_closes out + 1"
proof -
  have "(case translate_to_html sample_results of Inl _ \<Rightarrow> False | Inr _ \<Rightarrow> True)" by code_simp
  then obtain out where o: "translate_to_html sample_results = Inr out"
    by (cases "translate_to_html sample_results") auto
  have "sum_list (map failures (findall ''Test'' sample_results)) = 1" by code_simp
  with html_rows_open [OF o] o show ?thesis by simp
qed

end
