(* ===== verification/Timeline_Data.thy ===== *)
theory Timeline_Data
  imports Py_Strings
begin

text \<open>
  \<open>utils/grid.py\<close>: the time lines (ranges and events, the binary searches over them, bounds), the
  colours, and the reader of data files.
\<close>

section \<open>Binary search\<close>

text \<open>The loop both searches run: \<open>probe i\<close> is 0 at the key, negative left and positive right of it.\<close>

datatype place = At int | Gap int

function bsearch :: "(int \<Rightarrow> int) \<Rightarrow> int \<Rightarrow> int \<Rightarrow> place" where
  "bsearch probe l u =
     (if l \<le> u then
        (let i = (l + u) div 2 in
         if probe i = 0 then At i
         else if probe i < 0 then bsearch probe l (i - 1)
         else bsearch probe (i + 1) u)
      else Gap l)"
  by pat_completeness auto
termination
  by (relation "measure (\<lambda>(probe, l, u). nat (u - l + 1))") auto

declare bsearch.simps [simp del]

text \<open>What a search needs of a list: the entries before the key come before those after it.\<close>

locale ordered_probe =
  fixes probe :: "'a list \<Rightarrow> 'k \<Rightarrow> int \<Rightarrow> int"
    and ok :: "'a list \<Rightarrow> bool"
  assumes below: "ok xs \<Longrightarrow> 0 \<le> i \<Longrightarrow> i \<le> j \<Longrightarrow> j < int (length xs) \<Longrightarrow> probe xs k i < 0 \<Longrightarrow> probe xs k j < 0"
    and above: "ok xs \<Longrightarrow> 0 \<le> i \<Longrightarrow> i \<le> j \<Longrightarrow> j < int (length xs) \<Longrightarrow> 0 < probe xs k j \<Longrightarrow> 0 < probe xs k i"
begin

lemma bsearch_place:
  assumes "ok xs" and "0 \<le> l" and "u < int (length xs)" and "l \<le> u + 1"
    and "\<forall>j. 0 \<le> j \<and> j < l \<longrightarrow> 0 < probe xs k j" and "\<forall>j. u < j \<and> j < int (length xs) \<longrightarrow> probe xs k j < 0"
  shows "case bsearch (probe xs k) l u of
      At i \<Rightarrow> 0 \<le> i \<and> i < int (length xs) \<and> probe xs k i = 0
    | Gap m \<Rightarrow> 0 \<le> m \<and> m \<le> int (length xs) \<and> (\<forall>j. 0 \<le> j \<and> j < m \<longrightarrow> 0 < probe xs k j) \<and>
        (\<forall>j. m \<le> j \<and> j < int (length xs) \<longrightarrow> probe xs k j < 0)"
  using assms(2-)
proof (induction "probe xs k" l u rule: bsearch.induct)
  case (1 l u)
  show ?case
  proof (cases "l \<le> u")
    case False
    with 1 have "l = u + 1" by simp
    with 1 False show ?thesis by (simp add: bsearch.simps)
  next
    case True
    let ?i = "(l + u) div 2"
    have i: "l \<le> ?i" "?i \<le> u" using True by simp_all
    consider "probe xs k ?i = 0" | "probe xs k ?i < 0" | "0 < probe xs k ?i" by linarith
    then show ?thesis
    proof cases
      case 1
      with i "1.prems" True show ?thesis by (simp add: bsearch.simps)
    next
      case 2
      have "\<forall>j. ?i - 1 < j \<and> j < int (length xs) \<longrightarrow> probe xs k j < 0"
        using below [OF assms(1) _ _ _ 2] i "1.prems" by simp
      moreover have "bsearch (probe xs k) l u = bsearch (probe xs k) l (?i - 1)"
        using True 2 by (subst bsearch.simps) (simp add: Let_def)
      ultimately show ?thesis using "1.hyps"(1) [OF True refl] 2 i "1.prems" by simp
    next
      case 3
      have "\<forall>j. 0 \<le> j \<and> j < ?i + 1 \<longrightarrow> 0 < probe xs k j"
        using above [OF assms(1) _ _ _ 3] i "1.prems" by simp
      moreover have "bsearch (probe xs k) l u = bsearch (probe xs k) (?i + 1) u"
        using True 3 by (subst bsearch.simps) (simp add: Let_def)
      ultimately show ?thesis using "1.hyps"(2) [OF True refl] 3 i "1.prems" by simp
    qed
  qed
qed

lemma bsearch_all:
  assumes "ok xs"
  shows "case bsearch (probe xs k) 0 (int (length xs) - 1) of
      At i \<Rightarrow> 0 \<le> i \<and> i < int (length xs) \<and> probe xs k i = 0
    | Gap m \<Rightarrow> 0 \<le> m \<and> m \<le> int (length xs) \<and> (\<forall>j. 0 \<le> j \<and> j < m \<longrightarrow> 0 < probe xs k j) \<and>
        (\<forall>j. m \<le> j \<and> j < int (length xs) \<longrightarrow> probe xs k j < 0)"
  by (rule bsearch_place [OF assms]) auto

end

section \<open>TimelineDataRange\<close>

record range =
  r_from :: int
  r_to :: int
  r_value :: string

record range_line =
  rl_name :: string
  rl_ranges :: "range list"

definition range_probe :: "range list \<Rightarrow> int \<Rightarrow> int \<Rightarrow> int" where
  "range_probe rs key i =
     (let r = rs ! nat i in
      if r_from r \<le> key \<and> key \<le> r_to r then 0 else if key < r_from r then - 1 else 1)"

definition range_search :: "range list \<Rightarrow> int \<Rightarrow> int" where
  "range_search rs key = (case bsearch (range_probe rs key) 0 (int (length rs) - 1) of At i \<Rightarrow> i | Gap _ \<Rightarrow> - 1)"

definition add_range :: "range \<Rightarrow> range_line \<Rightarrow> range_line" where
  "add_range r t = t\<lparr>rl_ranges := rl_ranges t @ [r]\<rparr>"

definition get_ranges_bounds :: "range list \<Rightarrow> int \<Rightarrow> int \<Rightarrow> int \<times> int" where
  "get_ranges_bounds rs start stop =
     (let s = range_search rs start; e = range_search rs stop in
      if s = - 1 \<and> e = - 1 then (0, 0)
      else if s = - 1 then (0, e + 1)
      else if e = - 1 then (s, int (length rs))
      else (s, e + 1))"

definition get_ranges :: "range list \<Rightarrow> int \<Rightarrow> int \<Rightarrow> range list" where
  "get_ranges rs start stop =
     (let s = range_search rs start; e = range_search rs stop in
      if s = - 1 \<and> e = - 1 then []
      else if s = - 1 then py_slice rs 0 (e + 1)
      else if e = - 1 then py_slice rs s (int (length rs))
      else py_slice rs s (e + 1))"

definition sort_ranges :: "range_line \<Rightarrow> range_line" where
  "sort_ranges t = t\<lparr>rl_ranges := sort_key r_from (rl_ranges t)\<rparr>"

definition range_bounds :: "range_line \<Rightarrow> int \<times> int" where
  "range_bounds t =
     (if rl_ranges t \<noteq> [] then (r_from (hd (rl_ranges t)), r_to (last (rl_ranges t))) else (0, 0))"

section \<open>TimelineEvent\<close>

record 'v event =
  at :: int
  e_value :: 'v

record 'v event_line =
  el_name :: string
  el_events :: "'v event list"

definition event_probe :: "'v event list \<Rightarrow> int \<Rightarrow> int \<Rightarrow> int" where
  "event_probe es key i = key - at (es ! nat i)"

definition event_search :: "'v event list \<Rightarrow> int \<Rightarrow> int" where
  "event_search es key = (case bsearch (event_probe es key) 0 (int (length es) - 1) of At i \<Rightarrow> i | Gap l \<Rightarrow> l)"

definition add_event :: "'v event \<Rightarrow> 'v event_line \<Rightarrow> 'v event_line" where
  "add_event e t = t\<lparr>el_events := el_events t @ [e]\<rparr>"

definition get_events :: "'v event list \<Rightarrow> int \<Rightarrow> int \<Rightarrow> 'v event list" where
  "get_events es start stop = py_slice es (event_search es start) (event_search es stop + 1)"

definition get_events_bounds :: "'v event list \<Rightarrow> int \<Rightarrow> int \<Rightarrow> int \<times> int" where
  "get_events_bounds es start stop = (event_search es start, event_search es stop + 1)"

definition sort_events :: "'v event_line \<Rightarrow> 'v event_line" where
  "sort_events t = t\<lparr>el_events := sort_key at (el_events t)\<rparr>"

definition event_bounds :: "'v event_line \<Rightarrow> int \<times> int" where
  "event_bounds t = (if el_events t \<noteq> [] then (at (hd (el_events t)), at (last (el_events t))) else (0, 0))"

section \<open>Timeline and Timelines\<close>

record timeline =
  t_ranges :: "range_line list"
  t_strs :: "string event_line list"
  t_ints :: "int event_line list"
  t_name :: string

definition new_timeline :: "string \<Rightarrow> timeline" where
  "new_timeline n = \<lparr>t_ranges = [], t_strs = [], t_ints = [], t_name = n\<rparr>"

text \<open>
  Look up an object by name, append a new one when there is none, and change it: what the callers
  of \<open>get_range\<close>, \<open>get_event_str\<close>, \<open>get_event_int\<close> and \<open>Timelines.get\<close> do with the object returned.
\<close>

fun at_name :: "('a \<Rightarrow> string) \<Rightarrow> string \<Rightarrow> 'a \<Rightarrow> ('a \<Rightarrow> 'a) \<Rightarrow> 'a list \<Rightarrow> 'a list" where
  "at_name nm n new f [] = [f new]"
| "at_name nm n new f (x # xs) = (if nm x = n then f x # xs else x # at_name nm n new f xs)"

definition at_range :: "string \<Rightarrow> (range_line \<Rightarrow> range_line) \<Rightarrow> timeline \<Rightarrow> timeline" where
  "at_range n f t = t\<lparr>t_ranges := at_name rl_name n \<lparr>rl_name = n, rl_ranges = []\<rparr> f (t_ranges t)\<rparr>"

definition at_event_str :: "string \<Rightarrow> (string event_line \<Rightarrow> string event_line) \<Rightarrow> timeline \<Rightarrow> timeline" where
  "at_event_str n f t = t\<lparr>t_strs := at_name el_name n \<lparr>el_name = n, el_events = []\<rparr> f (t_strs t)\<rparr>"

definition at_event_int :: "string \<Rightarrow> (int event_line \<Rightarrow> int event_line) \<Rightarrow> timeline \<Rightarrow> timeline" where
  "at_event_int n f t = t\<lparr>t_ints := at_name el_name n \<lparr>el_name = n, el_events = []\<rparr> f (t_ints t)\<rparr>"

definition at_timeline :: "string \<Rightarrow> (timeline \<Rightarrow> timeline) \<Rightarrow> timeline list \<Rightarrow> timeline list" where
  "at_timeline n f ts = at_name t_name n (new_timeline n) f ts"

definition sort_timeline :: "timeline \<Rightarrow> timeline" where
  "sort_timeline t =
     t\<lparr>t_ranges := map sort_ranges (t_ranges t), t_ints := map sort_events (t_ints t), t_strs := map sort_events (t_strs t)\<rparr>"

definition widen :: "int \<times> int \<Rightarrow> int \<times> int \<Rightarrow> int \<times> int" where
  "widen b bounds =
     (if fst b < fst bounds then fst b else fst bounds, if snd b > snd bounds then snd b else snd bounds)"

definition timeline_bounds :: "timeline \<Rightarrow> int \<times> int" where
  "timeline_bounds t =
     fold (\<lambda>e. widen (event_bounds e)) (t_ints t)
       (fold (\<lambda>e. widen (event_bounds e)) (t_strs t) (fold (\<lambda>r. widen (range_bounds r)) (t_ranges t) (0, 0)))"

definition timelines_bounds :: "timeline list \<Rightarrow> int \<times> int" where
  "timelines_bounds ts = fold (\<lambda>t. widen (timeline_bounds t)) ts (0, 0)"

text \<open>The keys of a dictionary, here in the order of insertion.\<close>

definition all_range_values :: "timeline list \<Rightarrow> string list" where
  "all_range_values ts =
     remdups (concat (map (\<lambda>t. concat (map (\<lambda>rl. map r_value (rl_ranges rl)) (t_ranges t))) ts))"

section \<open>Colours\<close>

type_synonym color = "int \<times> int \<times> int"

definition default_colors :: "color list" where
  "default_colors = [(1, 0, 0), (0, 1, 0), (0, 0, 1), (1, 1, 0), (1, 0, 1), (0, 1, 1)]"

record colors =
  named :: "(string, color) dict"
  spare :: "color list"

definition add_color :: "string \<Rightarrow> color \<Rightarrow> colors \<Rightarrow> colors" where
  "add_color n c cs = cs\<lparr>named := dict_set n c (named cs)\<rparr>"

text \<open>A name without a colour takes the last default colour, as long as there is one.\<close>

definition lookup_color :: "string \<Rightarrow> colors \<Rightarrow> (color \<times> colors) res" where
  "lookup_color n cs =
     (case map_of (named cs) n of
        Some c \<Rightarrow> Inr (c, cs)
      | None \<Rightarrow>
          if spare cs = [] then Inl IndexError
          else Inr (last (spare cs), (add_color n (last (spare cs)) cs)\<lparr>spare := butlast (spare cs)\<rparr>))"

section \<open>Reading a data file\<close>

text \<open>\<open>([^ ]+) \<close> and \<open>([0-9]+)\<close> at the head of a line; a match need not reach the end of the line.\<close>

definition field :: "string \<Rightarrow> (string \<times> string) option" where
  "field s =
     (let w = takeWhile (\<lambda>c. c \<noteq> CHR '' '') s; r = dropWhile (\<lambda>c. c \<noteq> CHR '' '') s
      in if w \<noteq> [] \<and> r \<noteq> [] then Some (w, tl r) else None)"

definition number :: "string \<Rightarrow> (int \<times> string) option" where
  "number s =
     (let d = takeWhile is_digit s in if d \<noteq> [] then Some (int (digits_val d), dropWhile is_digit s) else None)"

definition number_blank :: "string \<Rightarrow> (int \<times> string) option" where
  "number_blank s =
     (case number s of Some (n, c # r) \<Rightarrow> (if c = CHR '' '' then Some (n, r) else None) | _ \<Rightarrow> None)"

definition keyword :: "string \<Rightarrow> string \<Rightarrow> string option" where
  "keyword k s = (if startswith s k then Some (drop (length k) s) else None)"

definition is_hex :: "char \<Rightarrow> bool" where
  "is_hex c \<longleftrightarrow> is_digit c \<or> 65 \<le> code c \<and> code c \<le> 70 \<or> 97 \<le> code c \<and> code c \<le> 102"

definition hex_val :: "char \<Rightarrow> int" where
  "hex_val c = (if is_digit c then int (code c) - 48 else if code c \<le> 70 then int (code c) - 55 else int (code c) - 87)"

definition hex_byte :: "char \<Rightarrow> char \<Rightarrow> int" where
  "hex_byte a b = 16 * hex_val a + hex_val b"

datatype entry =
    Range string string string int int
  | EventStr string string string int
  | EventInt string string int int
  | ColorLine string color

definition match_range :: "string \<Rightarrow> entry option" where
  "match_range line =
     Option.bind (keyword ''range '' line) (\<lambda>s0. Option.bind (field s0) (\<lambda>(a, s1). Option.bind (field s1) (\<lambda>(b, s2).
     Option.bind (field s2) (\<lambda>(v, s3). Option.bind (number_blank s3) (\<lambda>(x, s4).
     Option.bind (number s4) (\<lambda>(y, _). Some (Range a b v x y)))))))"

definition match_str :: "string \<Rightarrow> entry option" where
  "match_str line =
     Option.bind (keyword ''event-str '' line) (\<lambda>s0. Option.bind (field s0) (\<lambda>(a, s1). Option.bind (field s1) (\<lambda>(b, s2).
     Option.bind (field s2) (\<lambda>(v, s3). Option.bind (number s3) (\<lambda>(x, _). Some (EventStr a b v x))))))"

definition match_int :: "string \<Rightarrow> entry option" where
  "match_int line =
     Option.bind (keyword ''event-int '' line) (\<lambda>s0. Option.bind (field s0) (\<lambda>(a, s1). Option.bind (field s1) (\<lambda>(b, s2).
     Option.bind (number_blank s2) (\<lambda>(v, s3). Option.bind (number s3) (\<lambda>(x, _). Some (EventInt a b v x))))))"

text \<open>The components are divided by 255 as integers.\<close>

definition match_color :: "string \<Rightarrow> entry option" where
  "match_color line =
     Option.bind (keyword ''color '' line) (\<lambda>s0. Option.bind (field s0) (\<lambda>(a, s1).
       case s1 of
         h # r1 # r2 # g1 # g2 # b1 # b2 # _ \<Rightarrow>
           if h = CHR ''#'' \<and> list_all is_hex [r1, r2, g1, g2, b1, b2]
           then Some (ColorLine a (hex_byte r1 r2 div 255, hex_byte g1 g2 div 255, hex_byte b1 b2 div 255)) else None
       | _ \<Rightarrow> None))"

definition match_line :: "string \<Rightarrow> entry option" where
  "match_line line =
     (case match_range line of Some e \<Rightarrow> Some e | None \<Rightarrow>
     (case match_str line of Some e \<Rightarrow> Some e | None \<Rightarrow>
     (case match_int line of Some e \<Rightarrow> Some e | None \<Rightarrow> match_color line)))"

definition add_entry :: "entry \<Rightarrow> colors \<times> timeline list \<Rightarrow> colors \<times> timeline list" where
  "add_entry e st =
     (case e of
        Range a b v x y \<Rightarrow>
          (fst st, at_timeline a (at_range b (add_range \<lparr>r_from = x, r_to = y, r_value = v\<rparr>)) (snd st))
      | EventStr a b v x \<Rightarrow> (fst st, at_timeline a (at_event_str b (add_event \<lparr>at = x, e_value = v\<rparr>)) (snd st))
      | EventInt a b v x \<Rightarrow> (fst st, at_timeline a (at_event_int b (add_event \<lparr>at = x, e_value = v\<rparr>)) (snd st))
      | ColorLine n c \<Rightarrow> (add_color n c (fst st), snd st))"

definition read_line :: "string \<Rightarrow> colors \<times> timeline list \<Rightarrow> colors \<times> timeline list" where
  "read_line line st = (case match_line line of None \<Rightarrow> st | Some e \<Rightarrow> add_entry e st)"

definition read_data :: "string list \<Rightarrow> colors \<times> timeline list" where
  "read_data ls =
     (case fold read_line ls (\<lparr>named = [], spare = default_colors\<rparr>, []) of
        (cs, ts) \<Rightarrow> (cs, map sort_timeline ts))"

section \<open>What a search finds\<close>

definition ok_ranges :: "range list \<Rightarrow> bool" where
  "ok_ranges rs \<longleftrightarrow> sorted_wrt (\<lambda>a b. r_to a < r_from b) rs \<and> list_all (\<lambda>r. r_from r \<le> r_to r) rs"

definition ok_events :: "'v event list \<Rightarrow> bool" where
  "ok_events es \<longleftrightarrow> sorted_wrt (\<lambda>a b. at a < at b) es"

definition covers :: "int \<Rightarrow> range \<Rightarrow> bool" where
  "covers k r \<longleftrightarrow> r_from r \<le> k \<and> k \<le> r_to r"

lemma ok_ranges_nth:
  assumes "ok_ranges rs" and "i < length rs" and "j < length rs"
  shows "r_from (rs ! i) \<le> r_to (rs ! i)" and "i < j \<Longrightarrow> r_to (rs ! i) < r_from (rs ! j)"
  using assms by (auto simp: ok_ranges_def sorted_wrt_iff_nth_less list_all_length)

interpretation ranges: ordered_probe range_probe ok_ranges
proof
  fix rs :: "range list" and k i j :: int
  assume ok: "ok_ranges rs" and ij: "0 \<le> i" "i \<le> j" "j < int (length rs)"
  then have n: "nat i < length rs" "nat j < length rs" "nat i = nat j \<or> nat i < nat j" by auto
  note f = ok_ranges_nth [OF ok n(1,2)] ok_ranges_nth(1) [OF ok n(2,1)]
  show "range_probe rs k j < 0" if "range_probe rs k i < 0"
    using that f n(3) by (auto simp: range_probe_def Let_def split: if_splits)
  show "0 < range_probe rs k i" if "0 < range_probe rs k j"
    using that f n(3) by (auto simp: range_probe_def Let_def split: if_splits)
qed

interpretation events: ordered_probe event_probe ok_events
proof
  fix es :: "'v event list" and k i j :: int
  assume ok: "ok_events es" and ij: "0 \<le> i" "i \<le> j" "j < int (length es)"
  then have "nat i = nat j \<or> nat i < nat j" "nat j < length es" by auto
  with ok have "nat i = nat j \<or> at (es ! nat i) < at (es ! nat j)"
    by (auto simp: ok_events_def sorted_wrt_iff_nth_less)
  then show "event_probe es k i < 0 \<Longrightarrow> event_probe es k j < 0" and "0 < event_probe es k j \<Longrightarrow> 0 < event_probe es k i"
    by (auto simp: event_probe_def)
qed

lemma range_search_cases:
  assumes "ok_ranges rs"
  obtains (none) "range_search rs k = - 1" "\<forall>r \<in> set rs. \<not> covers k r"
    | (some) i where "range_search rs k = int i" "i < length rs" "covers k (rs ! i)"
proof -
  have probe: "range_probe rs k j = 0 \<longleftrightarrow> covers k (rs ! nat j)" for j
    by (auto simp: range_probe_def Let_def covers_def)
  show ?thesis
  proof (cases "bsearch (range_probe rs k) 0 (int (length rs) - 1)")
    case (At i)
    with ranges.bsearch_all [OF assms, of k] have "0 \<le> i" "i < int (length rs)" "covers k (rs ! nat i)" by (auto simp: probe)
    with At show ?thesis by (intro some [of "nat i"]) (simp_all add: range_search_def)
  next
    case (Gap m)
    with ranges.bsearch_all [OF assms, of k] have m: "\<forall>j. 0 \<le> j \<and> j < m \<longrightarrow> 0 < range_probe rs k j"
      "\<forall>j. m \<le> j \<and> j < int (length rs) \<longrightarrow> range_probe rs k j < 0" by simp_all
    have "range_probe rs k (int j) \<noteq> 0" if "j < length rs" for j
      using m(1) [rule_format, of "int j"] m(2) [rule_format, of "int j"] that by (cases "int j < m") simp_all
    then have "\<forall>r \<in> set rs. \<not> covers k r" by (auto simp: probe in_set_conv_nth)
    with Gap show ?thesis by (intro none) (simp_all add: range_search_def)
  qed
qed

lemma event_search_count:
  assumes "ok_events es"
  shows "event_search es k = int (length (filter (\<lambda>e. at e < k) es))"
proof -
  have count: "length (filter (\<lambda>e. at e < k) es) = m" if "m \<le> length es" "\<forall>j < m. at (es ! j) < k"
    "\<forall>j. m \<le> j \<and> j < length es \<longrightarrow> k \<le> at (es ! j)" for m
  proof -
    have "filter (\<lambda>e. at e < k) (take m es) = take m es" using that by (auto simp: filter_id_conv in_set_conv_nth)
    moreover have "filter (\<lambda>e. at e < k) (drop m es) = []"
      using that by (auto simp: filter_empty_conv in_set_conv_nth not_less)
    ultimately have "filter (\<lambda>e. at e < k) es = take m es" by (metis append_Nil2 append_take_drop_id filter_append)
    with that(1) show ?thesis by simp
  qed
  show ?thesis
  proof (cases "bsearch (event_probe es k) 0 (int (length es) - 1)")
    case (At i)
    with events.bsearch_all [OF assms, of k] have i: "0 \<le> i" "nat i < length es" "at (es ! nat i) = k"
      by (auto simp: event_probe_def)
    have "\<forall>j < nat i. at (es ! j) < k" "\<forall>j. nat i \<le> j \<and> j < length es \<longrightarrow> k \<le> at (es ! j)"
      using assms i by (auto simp: ok_events_def sorted_wrt_iff_nth_less nat_less_le dest: le_neq_implies_less intro: less_imp_le)
    with count [of "nat i"] i At show ?thesis by (simp add: event_search_def)
  next
    case (Gap m)
    with events.bsearch_all [OF assms, of k] have m: "0 \<le> m" "nat m \<le> length es"
      "\<forall>j. 0 \<le> j \<and> j < m \<longrightarrow> at (es ! nat j) < k" "\<forall>j. m \<le> j \<and> j < int (length es) \<longrightarrow> k < at (es ! nat j)"
      by (auto simp: event_probe_def)
    have "at (es ! j) < k" if "j < nat m" for j using m(3) [rule_format, of "int j"] that by simp
    moreover have "k \<le> at (es ! j)" if "nat m \<le> j" "j < length es" for j
      using m(4) [rule_format, of "int j"] that by (simp add: nat_le_iff)
    ultimately show ?thesis using count [of "nat m"] m Gap by (simp add: event_search_def)
  qed
qed

lemma filter_split:
  assumes "sorted_wrt R xs" and "\<And>a b. R a b \<Longrightarrow> P b \<Longrightarrow> P a"
  shows "xs = filter P xs @ filter (\<lambda>x. \<not> P x) xs"
  using assms(1)
proof (induction xs)
  case (Cons x xs)
  show ?case
  proof (cases "P x")
    case True
    with Cons show ?thesis by simp
  next
    case False
    with Cons.prems assms(2) have "\<forall>y \<in> set xs. \<not> P y" by auto
    then have "filter P xs = []" "filter (\<lambda>x. \<not> P x) xs = xs" by (simp_all add: filter_empty_conv filter_id_conv)
    with False show ?thesis by simp
  qed
qed simp

text \<open>A search that hits splits the ranges: those that start up to the key, those that end from it on.\<close>

lemma covered_split:
  assumes ok: "ok_ranges rs" and i: "i < length rs" and c: "covers k (rs ! i)"
  shows "take (Suc i) rs = filter (\<lambda>r. r_from r \<le> k) rs" and "drop i rs = filter (\<lambda>r. k \<le> r_to r) rs"
proof -
  have lo: "r_from (rs ! j) \<le> k" if "j \<le> i" for j
    using ok_ranges_nth [OF ok, of j i] i that c by (cases "j = i") (auto simp: covers_def)
  have hi: "\<not> r_from (rs ! j) \<le> k" if "i < j" "j < length rs" for j
    using ok_ranges_nth [OF ok i that(2)] that c by (auto simp: covers_def)
  have lo': "\<not> k \<le> r_to (rs ! j)" if "j < i" for j
    using ok_ranges_nth [OF ok _ i, of j] i that c by (auto simp: covers_def)
  have hi': "k \<le> r_to (rs ! j)" if "i \<le> j" "j < length rs" for j
    using ok_ranges_nth [OF ok i that(2)] ok_ranges_nth(1) [OF ok that(2) i] that c by (cases "j = i") (auto simp: covers_def)
  have "filter (\<lambda>r. r_from r \<le> k) (take (Suc i) rs) = take (Suc i) rs"
    using lo by (auto simp: filter_id_conv in_set_conv_nth)
  moreover have "filter (\<lambda>r. r_from r \<le> k) (drop (Suc i) rs) = []"
    using hi by (auto simp: filter_empty_conv in_set_conv_nth)
  ultimately show "take (Suc i) rs = filter (\<lambda>r. r_from r \<le> k) rs"
    by (metis append_Nil2 append_take_drop_id filter_append)
  have "filter (\<lambda>r. k \<le> r_to r) (take i rs) = []" using lo' by (auto simp: filter_empty_conv in_set_conv_nth)
  moreover have "filter (\<lambda>r. k \<le> r_to r) (drop i rs) = drop i rs"
    using hi' by (auto simp: filter_id_conv in_set_conv_nth)
  ultimately show "drop i rs = filter (\<lambda>r. k \<le> r_to r) rs"
    by (metis append_Nil append_take_drop_id filter_append)
qed

lemma py_slice_from: "i \<le> length xs \<Longrightarrow> py_slice xs (int i) (int (length xs)) = drop i xs"
  by (simp add: py_slice_nat)

lemma py_slice_Suc: "py_slice xs (int i) (int j + 1) = take (Suc j - i) (drop i xs)"
  using py_slice_nat [of xs i "Suc j"] by (simp add: add.commute)

text \<open>C28. On sorted, disjoint ranges \<open>get_ranges\<close> returns exactly the ranges that meet the interval when both
  its ends lie in a range.  When one end lies in a gap the interval is taken to reach to that end of
  the data, and when both ends lie in gaps nothing is returned, whatever lies between them.
\<close>

theorem get_ranges_exact:
  assumes ok: "ok_ranges rs"
  shows "get_ranges rs start stop =
    (if \<exists>r \<in> set rs. covers start r then
       (if \<exists>r \<in> set rs. covers stop r then filter (\<lambda>r. r_from r \<le> stop \<and> start \<le> r_to r) rs
        else filter (\<lambda>r. start \<le> r_to r) rs)
     else if \<exists>r \<in> set rs. covers stop r then filter (\<lambda>r. r_from r \<le> stop) rs
     else [])"
proof -
  have both: "take (Suc j - i) (drop i rs) = filter (\<lambda>r. r_from r \<le> stop \<and> start \<le> r_to r) rs"
    if "i < length rs" "covers start (rs ! i)" "j < length rs" "covers stop (rs ! j)" for i j
  proof (cases "i \<le> j")
    case True
    have "take (Suc j - i) (drop i rs) = drop i (take (Suc j) rs)" by (simp add: drop_take)
    moreover have "ok_ranges (take (Suc j) rs)" using ok
      by (auto simp: ok_ranges_def sorted_wrt_take list_all_iff dest: in_set_takeD)
    then have "drop i (take (Suc j) rs) = filter (\<lambda>r. start \<le> r_to r) (take (Suc j) rs)"
      using that True by (intro covered_split(2)) simp_all
    ultimately show ?thesis using covered_split(1) [OF ok that(3,4)] by (simp add: conj_commute)
  next
    case False
    then have lt: "r_to (rs ! j) < r_from (rs ! i)" using ok_ranges_nth(2) [OF ok that(3,1)] by simp
    have "\<not> (r_from r \<le> stop \<and> start \<le> r_to r)" if r: "r \<in> set rs" for r
    proof
      assume m: "r_from r \<le> stop \<and> start \<le> r_to r"
      from r obtain q where q: "q < length rs" "r = rs ! q" by (auto simp: in_set_conv_nth)
      have "q \<le> j" using m q ok_ranges_nth(2) [OF ok \<open>j < length rs\<close> q(1)] \<open>covers stop (rs ! j)\<close>
        by (auto simp: covers_def not_le [symmetric])
      moreover have "i \<le> q" using m q ok_ranges_nth(2) [OF ok q(1) \<open>i < length rs\<close>] \<open>covers start (rs ! i)\<close>
        by (auto simp: covers_def not_le [symmetric])
      ultimately show False using False by simp
    qed
    then have "filter (\<lambda>r. r_from r \<le> stop \<and> start \<le> r_to r) rs = []" by (simp add: filter_empty_conv)
    with False show ?thesis by simp
  qed
  show ?thesis
  proof (cases rule: range_search_cases [OF ok, of start])
    case 1
    note s = this
    show ?thesis
    proof (cases rule: range_search_cases [OF ok, of stop])
      case 1
      with s show ?thesis by (simp add: get_ranges_def)
    next
      case (2 j)
      with s covered_split(1) [OF ok 2(2,3)] show ?thesis
        using py_slice_Suc [of rs 0 j] by (auto simp: get_ranges_def Let_def)
    qed
  next
    case (2 i)
    note s = this
    show ?thesis
    proof (cases rule: range_search_cases [OF ok, of stop])
      case 1
      with s covered_split(2) [OF ok s(2,3)] show ?thesis
        using py_slice_from [of i rs] by (auto simp: get_ranges_def Let_def)
    next
      case (2 j)
      with s both [OF s(2,3) 2(2,3)] show ?thesis by (auto simp: get_ranges_def Let_def py_slice_Suc)
    qed
  qed
qed

theorem get_ranges_exact_witness:
  "get_ranges [\<lparr>r_from = 0, r_to = 2, r_value = ''a''\<rparr>, \<lparr>r_from = 4, r_to = 5, r_value = ''b''\<rparr>, \<lparr>r_from = 7, r_to = 9, r_value = ''c''\<rparr>] 3 6 = []"
  by (subst get_ranges_exact) (simp_all add: ok_ranges_def covers_def)

lemma take_drop_events:
  assumes "sorted_wrt (\<lambda>a b. at a < at b) es" and "start \<le> stop"
  shows "take (Suc (length (filter (\<lambda>e. at e < stop) es)) - length (filter (\<lambda>e. at e < start) es))
      (drop (length (filter (\<lambda>e. at e < start) es)) es) =
    filter (\<lambda>e. start \<le> at e \<and> at e \<le> stop) es @
    (if \<exists>e \<in> set es. at e = stop then [] else take 1 (filter (\<lambda>e. stop < at e) es))"
  using assms(1)
proof (induction es)
  case (Cons e es)
  then have after: "\<forall>x \<in> set es. at e < at x" and s: "sorted_wrt (\<lambda>a b. at a < at b) es" by simp_all
  note IH = Cons.IH [OF s]
  consider "at e < start" | "start \<le> at e" "at e < stop" | "at e = stop" | "stop < at e" by linarith
  then show ?case
  proof cases
    case 1
    with assms(2) IH show ?thesis by (simp add: not_le)
  next
    case 2
    have "filter (\<lambda>x. at x < start) es = []" using after 2 by (auto simp: filter_empty_conv)
    with 2 IH show ?thesis by simp
  next
    case 3
    have "filter (\<lambda>x. at x < start) es = []" "filter (\<lambda>x. at x < stop) es = []"
      "filter (\<lambda>x. start \<le> at x \<and> at x \<le> stop) es = []"
      using after 3 assms(2) by (auto simp: filter_empty_conv)
    with 3 assms(2) show ?thesis by simp
  next
    case 4
    have "filter (\<lambda>x. at x < start) es = []" "filter (\<lambda>x. at x < stop) es = []"
      "filter (\<lambda>x. start \<le> at x \<and> at x \<le> stop) es = []" "\<not> (\<exists>x \<in> set es. at x = stop)"
      using after 4 assms(2) by (auto simp: filter_empty_conv)
    with 4 assms(2) show ?thesis by simp
  qed
qed simp

text \<open>On events in order \<open>get_events\<close> returns the events of the interval, both ends included, and also
  the first event after it when no event lies at its end.
\<close>

theorem get_events_exact:
  assumes ok: "ok_events es" and le: "start \<le> stop"
  shows "get_events es start stop = filter (\<lambda>e. start \<le> at e \<and> at e \<le> stop) es @
    (if \<exists>e \<in> set es. at e = stop then [] else take 1 (filter (\<lambda>e. stop < at e) es))"
  using take_drop_events [OF ok [unfolded ok_events_def] le]
  by (simp add: get_events_def event_search_count [OF ok] py_slice_Suc)

theorem get_events_exact_witness:
  "get_events [\<lparr>at = 1, e_value = ''a''\<rparr>, \<lparr>at = 3, e_value = ''b''\<rparr>, \<lparr>at = 8, e_value = ''c''\<rparr>] 2 5
    = [\<lparr>at = 3, e_value = ''b''\<rparr>, \<lparr>at = 8, e_value = ''c''\<rparr>]"
  by (subst get_events_exact) (simp_all add: ok_events_def)

end
