(* ===== verification/Timeline_View.thy ===== *)
theory Timeline_View
  imports Timeline_Data Py_Float
begin

text \<open>
  \<open>utils/grid.py\<close>: the layout of the legend, the ticks of a scale with integer bounds, the
  visible range, and the mouse.  Text extents come from the drawing library and are parameters; \<open>rnd\<close>
  stands for the rounding of a number that is computed (to a float, or down where all operands
  are integers), and nothing is assumed of it.
\<close>

section \<open>The legend\<close>

record flow =
  line_height :: rat
  total_height :: rat
  line_used :: rat

definition flow_start :: "rat \<Rightarrow> flow" where
  "flow_start padding = \<lparr>line_height = 0, total_height = padding, line_used = padding\<rparr>"

definition item_width :: "rat \<Rightarrow> rat \<times> rat \<Rightarrow> rat" where
  "item_width padding extents = padding + padding + fst extents + padding"

definition place_item :: "rat \<Rightarrow> rat \<Rightarrow> flow \<Rightarrow> rat \<times> rat \<Rightarrow> flow" where
  "place_item padding width s extents =
     (let w = item_width padding extents;
          h = snd extents + padding;
          lh = (if h > line_height s then h else line_height s)
      in if line_used s + w > width then
           s\<lparr>line_height := lh, line_used := padding + w, total_height := total_height s + lh\<rparr>
         else s\<lparr>line_height := lh, line_used := line_used s + w\<rparr>)"

definition layout_height :: "rat \<Rightarrow> rat \<Rightarrow> (rat \<times> rat) list \<Rightarrow> rat" where
  "layout_height padding width items =
     (let s = foldl (place_item padding width) (flow_start padding) items in total_height s + line_height s)"

text \<open>The corner of the box drawn for each item.\<close>

fun legend_boxes :: "rat \<Rightarrow> rat \<Rightarrow> flow \<Rightarrow> (rat \<times> rat) list \<Rightarrow> (rat \<times> rat) list" where
  "legend_boxes padding width s [] = []"
| "legend_boxes padding width s (e # es) =
     (let s' = place_item padding width s e
      in (line_used s' - item_width padding e, total_height s') # legend_boxes padding width s' es)"

section \<open>A scale with integer bounds\<close>

text \<open>\<open>closest\<close> is \<open>10 ^ k\<close>.\<close>

function closest :: "nat \<Rightarrow> int \<Rightarrow> int" where
  "closest k data_delta = (if 10 ^ k * 10 < data_delta then closest (Suc k) data_delta else 10 ^ k)"
  by pat_completeness auto
termination
proof (relation "measure (\<lambda>(k, d). nat (d - 10 ^ k))", goal_cases)
  case (2 k d)
  have "(0 :: int) < 10 ^ k" by simp
  moreover from 2 this have "10 ^ k < d" by linarith
  ultimately show ?case by simp
qed simp

declare closest.simps [simp del]

definition scale_delta :: "int \<Rightarrow> int \<Rightarrow> int" where
  "scale_delta lo hi =
     (let d = hi - lo; c = closest 0 d
      in if d div c = 0 then c else if d div c = 1 then c div 10 else c)"

text \<open>\<open>layout\<close> takes \<open>lo % delta\<close> and \<open>hi % delta\<close>.\<close>

definition scale_layout :: "int \<Rightarrow> int \<Rightarrow> int res" where
  "scale_layout lo hi = (let delta = scale_delta lo hi in if delta = 0 then Inl ZeroDivisionError else Inr delta)"

text \<open>\<open>range(a, b, s)\<close> for a step above 0.\<close>

definition py_range :: "int \<Rightarrow> int \<Rightarrow> int \<Rightarrow> int list" where
  "py_range a b s = map (\<lambda>i. a + s * int i) [0..<nat ((b - a + s - 1) div s)]"

definition ticks :: "int \<Rightarrow> int \<Rightarrow> int \<Rightarrow> int list" where
  "ticks lo hi delta = py_range (lo - lo mod delta + delta) (hi - hi mod delta + delta) delta"

definition subticks :: "int \<Rightarrow> int \<Rightarrow> int \<Rightarrow> int list" where
  "subticks lo hi delta = (let d = delta div 10 in if d > 0 then ticks lo hi d else [])"

definition get_position :: "(rat \<Rightarrow> rat) \<Rightarrow> rat \<Rightarrow> rat \<Rightarrow> rat \<Rightarrow> rat \<Rightarrow> rat res" where
  "get_position rnd lo hi width x =
     (if hi - lo = 0 then Inl ZeroDivisionError else Inr (rnd (rnd (rnd (x - lo) * width) / rnd (hi - lo))))"

section \<open>A scale with float bounds\<close>

function closest_at :: "nat \<Rightarrow> rat \<Rightarrow> int" where
  "closest_at k data_delta = (if of_int (10 ^ k * 10) < data_delta then closest_at (Suc k) data_delta else 10 ^ k)"
  by pat_completeness auto
termination
proof (relation "measure (\<lambda>(k, d). nat (\<lceil>d\<rceil> - 10 ^ k))", goal_cases)
  case (2 k d)
  then have "(10 :: int) ^ k * 10 < \<lceil>d\<rceil>" by (simp add: less_ceiling_iff)
  moreover have "(0 :: int) < 10 ^ k" by simp
  ultimately have "(10 :: int) ^ k < \<lceil>d\<rceil>" by linarith
  with \<open>(0 :: int) < 10 ^ k\<close> show ?case by simp
qed simp

declare closest_at.simps [simp del]

text \<open>The quotient of floats is not rounded down; for two integers \<open>rnd\<close> is rounding down.\<close>

definition float_delta :: "(rat \<Rightarrow> rat) \<Rightarrow> rat \<Rightarrow> rat \<Rightarrow> int" where
  "float_delta rnd lo hi =
     (let d = rnd (hi - lo); c = closest_at 0 d; q = rnd (d / of_int c)
      in if q = 0 then c else if q = 1 then c div 10 else c)"

definition float_layout :: "(rat \<Rightarrow> rat) \<Rightarrow> rat \<Rightarrow> rat \<Rightarrow> int res" where
  "float_layout rnd lo hi = (let delta = float_delta rnd lo hi in if delta = 0 then Inl ZeroDivisionError else Inr delta)"

section \<open>The visible range\<close>

text \<open>The heights and the position of the data come from the layout for a width.\<close>

record geometry =
  top_legend_height :: rat
  data_height :: rat
  mid_scale_height :: rat
  bot_scale_height :: rat
  data_x_start :: rat

text \<open>\<open>bot_width\<close> is the width of the scale below the selection.  The bounds of the scale below the data, and those the data
  are rendered for, are always the visible range.\<close>

record view =
  g_start :: rat
  g_end :: rat
  r_start :: rat
  r_end :: rat
  g_width :: rat
  bot_width :: rat

text \<open>An action has an error, or none, and the state it leaves: what it did before the error stays done.\<close>

definition layout_graphic :: "(rat \<Rightarrow> rat) \<Rightarrow> rat \<Rightarrow> view \<Rightarrow> py_error option \<times> view" where
  "layout_graphic rnd w v =
     (let v = v\<lparr>g_width := w\<rparr>
      in case float_layout rnd (r_start v) (r_end v) of
           Inl e \<Rightarrow> (Some e, v)
         | Inr _ \<Rightarrow>
             (case scale_layout \<lfloor>g_start v\<rfloor> \<lfloor>g_end v\<rfloor> of
                Inl e \<Rightarrow> (Some e, v)
              | Inr _ \<Rightarrow> (None, v\<lparr>bot_width := w\<rparr>)))"

definition set_range :: "(rat \<Rightarrow> rat) \<Rightarrow> rat \<Rightarrow> rat \<Rightarrow> view \<Rightarrow> py_error option \<times> view" where
  "set_range rnd a b v =
     layout_graphic rnd (g_width v) (v\<lparr>r_start := max (g_start v) (min a b), r_end := min (g_end v) (max a b)\<rparr>)"

definition data_rectangle :: "(rat \<Rightarrow> rat) \<Rightarrow> geometry \<Rightarrow> view \<Rightarrow> rat \<times> rat \<times> rat \<times> rat" where
  "data_rectangle rnd g v = (data_x_start g, top_legend_height g, rnd (g_width v - data_x_start g), data_height g)"

definition selection_rectangle :: "(rat \<Rightarrow> rat) \<Rightarrow> geometry \<Rightarrow> view \<Rightarrow> (rat \<times> rat \<times> rat \<times> rat) res" where
  "selection_rectangle rnd g v =
     bind_res (get_position rnd (g_start v) (g_end v) (bot_width v) (r_start v)) (\<lambda>x0.
     bind_res (get_position rnd (g_start v) (g_end v) (bot_width v) (r_end v)) (\<lambda>x1.
     Inr (x0, rnd (rnd (rnd (top_legend_height g + data_height g) + mid_scale_height g) + 20), rnd (x1 - x0), rnd (bot_scale_height g + 20))))"

definition scale_selection :: "(rat \<Rightarrow> rat) \<Rightarrow> view \<Rightarrow> rat \<Rightarrow> rat res" where
  "scale_selection rnd v x =
     (if g_width v = 0 then Inl ZeroDivisionError else Inr (rnd (rnd (x / g_width v) * rnd (g_end v - g_start v))))"

definition scale_data :: "(rat \<Rightarrow> rat) \<Rightarrow> geometry \<Rightarrow> view \<Rightarrow> rat \<Rightarrow> rat res" where
  "scale_data rnd g v x =
     (let w = rnd (g_width v - data_x_start g)
      in if w = 0 then Inl ZeroDivisionError else Inr (rnd (rnd (x / w) * rnd (r_end v - r_start v))))"

text \<open>The default range of \<open>main\<close>, on integers.\<close>

definition default_range :: "int \<Rightarrow> int \<Rightarrow> int \<times> int" where
  "default_range lo hi =
     (let range_mid = (hi - lo) div 2; range_width = (hi - lo) div 10
      in (range_mid - range_width div 2, range_mid + range_width div 2))"

section \<open>The mouse\<close>

text \<open>
  The attributes of the widget.  Those that are first assigned by a handler are \<^const>\<open>None\<close> until then.
  \<open>__moving_right\<close> also gets a number, so it is one; what counts is whether it is 0.
\<close>

record mouse =
  moving_left :: bool
  moving_right :: rat
  moving_both :: bool
  moving_top :: bool
  left_cur :: "rat option"
  right_cur :: "rat option"
  both_start :: "rat option"
  both_cur :: "rat option"
  top_start :: "rat option"
  top_cur :: "rat option"

definition mouse_start :: mouse where
  "mouse_start = \<lparr>moving_left = False, moving_right = 0, moving_both = False, moving_top = False, left_cur = None,
     right_cur = None, both_start = None, both_cur = None, top_start = None, top_cur = None\<rparr>"

definition attribute :: "rat option \<Rightarrow> rat res" where
  "attribute a = of_opt AttributeError a"

type_synonym session = "view \<times> mouse"

type_synonym handled = "py_error option \<times> session"

text \<open>A statement that reads: its error ends the handler in the state so far.\<close>

definition reading :: "'a res \<Rightarrow> session \<Rightarrow> ('a \<Rightarrow> handled) \<Rightarrow> handled" where
  "reading r s k = (case r of Inl e \<Rightarrow> (Some e, s) | Inr x \<Rightarrow> k x)"

text \<open>The assignments after a \<open>set_range\<close> are only made when it returns.\<close>

definition ranging :: "(rat \<Rightarrow> rat) \<Rightarrow> rat \<Rightarrow> rat \<Rightarrow> (mouse \<Rightarrow> mouse) \<Rightarrow> session \<Rightarrow> handled" where
  "ranging rnd a b after s =
     (case set_range rnd a b (fst s) of (e, v) \<Rightarrow> (e, v, if e = None then after (snd s) else snd s))"

definition zoom_out :: "(rat \<Rightarrow> rat) \<Rightarrow> session \<Rightarrow> handled" where
  "zoom_out rnd s =
     (let v = fst s in ranging rnd (r_start v) (rnd (r_start v + rnd (rnd (r_end v - r_start v) * 2))) id s)"

definition zoom_in :: "(rat \<Rightarrow> rat) \<Rightarrow> session \<Rightarrow> handled" where
  "zoom_in rnd s =
     (let v = fst s in ranging rnd (r_start v) (rnd (r_start v + rnd (rnd (r_end v - r_start v) / 2))) id s)"

definition button_press :: "(rat \<Rightarrow> rat) \<Rightarrow> geometry \<Rightarrow> rat \<Rightarrow> rat \<Rightarrow> session \<Rightarrow> handled" where
  "button_press rnd g ex ey = (\<lambda>(v, m).
     reading (selection_rectangle rnd g v) (v, m) (\<lambda>(x, y, width, height).
       case data_rectangle rnd g v of (dx, dy, dw, dh) \<Rightarrow>
       let on_selection = (ey > y \<and> ey < rnd (y + height));
           on_data = (ey > dy \<and> ey < rnd (dy + dh) \<and> ex > dx \<and> ex < rnd (dx + dw)) in
       (None, v,
         if on_selection \<and> \<bar>rnd (ex - x)\<bar> < 5 then m\<lparr>moving_left := True\<rparr>
         else if on_selection \<and> \<bar>rnd (ex - rnd (x + width))\<bar> < 5 then m\<lparr>moving_right := 1\<rparr>
         else if on_selection \<and> ex > x \<and> ex < rnd (x + width) then
           m\<lparr>moving_both := True, both_start := Some ex, both_cur := Some ex\<rparr>
         else if on_data then m\<lparr>moving_top := True, top_start := Some ex, top_cur := Some ex\<rparr>
         else m)))"

definition button_release :: "(rat \<Rightarrow> rat) \<Rightarrow> session \<Rightarrow> handled" where
  "button_release rnd = (\<lambda>(v, m).
     if moving_left m then
       let s = (v, m\<lparr>moving_left := False\<rparr>) in
       reading (attribute (left_cur m)) s (\<lambda>c. reading (scale_selection rnd v c) s (\<lambda>left.
       ranging rnd left (r_end v) id s))
     else if moving_right m \<noteq> 0 then
       let s = (v, m\<lparr>moving_right := 0\<rparr>) in
       reading (attribute (right_cur m)) s (\<lambda>c. reading (scale_selection rnd v c) s (\<lambda>right.
       ranging rnd (r_start v) right id s))
     else if moving_both m then
       let s = (v, m\<lparr>moving_both := False\<rparr>) in
       reading (attribute (both_cur m)) s (\<lambda>c. reading (attribute (both_start m)) s (\<lambda>b.
       reading (scale_selection rnd v (rnd (c - b))) s (\<lambda>delta.
       ranging rnd (rnd (r_start v + delta)) (rnd (r_end v + delta)) id s)))
     else (None, v, m\<lparr>moving_top := False\<rparr>))"

definition motion_notify :: "(rat \<Rightarrow> rat) \<Rightarrow> geometry \<Rightarrow> rat \<Rightarrow> session \<Rightarrow> handled" where
  "motion_notify rnd g ex = (\<lambda>(v, m).
     reading (selection_rectangle rnd g v) (v, m) (\<lambda>(x, y, width, height).
       if moving_left m then
         (None, v, m\<lparr>left_cur := Some (if ex \<le> 0 then 0 else if ex \<ge> rnd (x + width) then rnd (x + width) else ex)\<rparr>)
       else if moving_right m \<noteq> 0 then
         (None, v, if ex \<ge> g_width v then m\<lparr>moving_right := g_width v\<rparr>
                   else m\<lparr>right_cur := Some (if ex < x then x else ex)\<rparr>)
       else if moving_both m then
         reading (attribute (both_start m)) (v, m) (\<lambda>s.
           let cur_e = rnd (g_width v - rnd (rnd (x + width) - s)); cur_s = rnd (s - x)
           in (None, v, m\<lparr>both_cur := Some (if ex < cur_s then cur_s else if ex > cur_e then cur_e else ex)\<rparr>))
       else if moving_top m then
         let st = (v, m\<lparr>top_cur := Some ex\<rparr>) in
         reading (attribute (top_start m)) st (\<lambda>s.
         reading (scale_data rnd g v (rnd (s - ex))) st (\<lambda>delta.
         ranging rnd (rnd (r_start v + delta)) (rnd (r_end v + delta)) (\<lambda>m. m\<lparr>top_start := Some ex\<rparr>) st))
       else (None, v, m)))"

definition size_allocate :: "(rat \<Rightarrow> rat) \<Rightarrow> rat \<Rightarrow> session \<Rightarrow> handled" where
  "size_allocate rnd w s = (case layout_graphic rnd w (fst s) of (e, v) \<Rightarrow> (e, v, snd s))"

text \<open>What the user does.\<close>

datatype action = Press rat rat | Release | Motion rat | ZoomOut | ZoomIn | Resize rat

definition act :: "(rat \<Rightarrow> rat) \<Rightarrow> (rat \<Rightarrow> geometry) \<Rightarrow> session \<Rightarrow> action \<Rightarrow> handled" where
  "act rnd geo s a =
     (let g = geo (g_width (fst s)) in
      case a of
        Press ex ey \<Rightarrow> button_press rnd g ex ey s
      | Release \<Rightarrow> button_release rnd s
      | Motion ex \<Rightarrow> motion_notify rnd g ex s
      | ZoomOut \<Rightarrow> zoom_out rnd s
      | ZoomIn \<Rightarrow> zoom_in rnd s
      | Resize w \<Rightarrow> size_allocate rnd w s)"

text \<open>The main loop prints the error of a handler and goes on.\<close>

definition run_actions :: "(rat \<Rightarrow> rat) \<Rightarrow> (rat \<Rightarrow> geometry) \<Rightarrow> session \<Rightarrow> action list \<Rightarrow> session" where
  "run_actions rnd geo s actions = foldl (\<lambda>s a. snd (act rnd geo s a)) s actions"

section \<open>Ticks\<close>

lemma closest_power: "\<exists>n. closest k d = 10 ^ n \<and> k \<le> n \<and> d \<le> 10 ^ Suc n \<and> (n = k \<or> 10 ^ n < d)"
proof (induction k d rule: closest.induct)
  case (1 k d)
  show ?case
  proof (cases "10 ^ k * 10 < d")
    case True
    with "1.IH" obtain n where n: "closest (Suc k) d = 10 ^ n" "Suc k \<le> n" "d \<le> 10 ^ Suc n" "n = Suc k \<or> 10 ^ n < d" by blast
    with True have "10 ^ n < d" by (auto simp: mult.commute)
    with n True show ?thesis by (intro exI [of _ n]) (simp add: closest.simps [of k])
  next
    case False
    then show ?thesis by (intro exI [of _ k]) (simp add: closest.simps [of k] mult.commute not_less)
  qed
qed

lemma set_py_range:
  assumes "0 < s" and "s dvd b - a"
  shows "set (py_range a b s) = {x. a \<le> x \<and> x < b \<and> s dvd x - a}"
proof -
  from assms(2) obtain m where m: "b = a + s * m" by (metis add_diff_cancel_left' add.commute diff_add_cancel dvd_def)
  have "(b - a + s - 1) div s = m"
  proof -
    have e: "b - a + s - 1 = (s - 1) + m * s" by (simp add: m algebra_simps)
    moreover have "((s - 1) + m * s) div s = m + (s - 1) div s" using assms(1) by (intro div_mult_self1) simp
    moreover have "(s - 1) div s = 0" using assms(1) by (intro div_pos_pos_trivial) simp_all
    ultimately show ?thesis unfolding e by linarith
  qed
  then have "set (py_range a b s) = (\<lambda>i. a + s * int i) ` {..<nat m}" by (auto simp: py_range_def)
  also have "\<dots> = {x. a \<le> x \<and> x < b \<and> s dvd x - a}"
  proof (intro set_eqI iffI)
    fix x assume "x \<in> (\<lambda>i. a + s * int i) ` {..<nat m}"
    then obtain i where "x = a + s * int i" "i < nat m" by auto
    moreover from this(2) have "int i < m" by simp
    ultimately show "x \<in> {x. a \<le> x \<and> x < b \<and> s dvd x - a}" using assms(1) m by auto
  next
    fix x assume "x \<in> {x. a \<le> x \<and> x < b \<and> s dvd x - a}"
    then obtain q where q: "x = a + s * q" "a \<le> x" "x < b" by (metis (no_types, lifting) add.commute diff_add_cancel dvdE mem_Collect_eq)
    with assms(1) m have "0 \<le> q" "q < m" by (auto simp: zero_le_mult_iff)
    with q show "x \<in> (\<lambda>i. a + s * int i) ` {..<nat m}" by (intro image_eqI [of _ _ "nat q"]) auto
  qed
  finally show ?thesis .
qed

lemma set_ticks:
  assumes "0 < delta"
  shows "set (ticks lo hi delta) = {x. lo < x \<and> x \<le> hi \<and> delta dvd x}"
proof -
  let ?a = "lo - lo mod delta + delta" and ?b = "hi - hi mod delta + delta"
  have lo: "?a = delta * (lo div delta + 1)" and hi: "?b = delta * (hi div delta + 1)"
    by (simp_all add: algebra_simps minus_mod_eq_mult_div)
  have "delta dvd ?b - ?a" unfolding lo hi by (simp add: right_diff_distrib [symmetric])
  then have "set (ticks lo hi delta) = {x. ?a \<le> x \<and> x < ?b \<and> delta dvd x - ?a}"
    unfolding ticks_def by (rule set_py_range [OF assms])
  also have "\<dots> = {x. lo < x \<and> x \<le> hi \<and> delta dvd x}"
  proof (intro Collect_cong)
    fix x
    have "delta dvd x - ?a \<longleftrightarrow> delta dvd x" unfolding lo by (metis dvd_diff_commute dvd_diff_left_iff dvd_triv_left)
    moreover have "(?a \<le> x) = (lo < x) \<and> (x < ?b) = (x \<le> hi)" if "delta dvd x"
    proof -
      from that obtain q where q: "x = delta * q" by blast
      have "delta * (lo div delta) \<le> lo" "lo < delta * (lo div delta + 1)" "delta * (hi div delta) \<le> hi" "hi < delta * (hi div delta + 1)"
        using assms by (simp_all add: algebra_simps minus_mod_eq_mult_div [symmetric])
      with assms show ?thesis unfolding lo hi q by (smt (verit) mult_le_cancel_left_pos mult_less_cancel_left_pos)
    qed
    ultimately show "(?a \<le> x \<and> x < ?b \<and> delta dvd x - ?a) = (lo < x \<and> x \<le> hi \<and> delta dvd x)" by blast
  qed
  finally show ?thesis .
qed

text \<open>For bounds in order the layout of a scale raises \<open>ZeroDivisionError\<close> exactly when the bounds are 1
  apart; otherwise its step is a power of ten, the ticks are the multiples of the step above the
  lower and up to the upper bound, and the bounds are at most 20 steps apart.
\<close>

theorem scale_ticks:
  assumes "lo \<le> hi"
  shows "(scale_layout lo hi = Inl ZeroDivisionError \<longleftrightarrow> hi = lo + 1) \<and>
    (\<forall>delta. scale_layout lo hi = Inr delta \<longrightarrow>
       (\<exists>n. delta = 10 ^ n) \<and> set (ticks lo hi delta) = {x. lo < x \<and> x \<le> hi \<and> delta dvd x} \<and> hi - lo \<le> 20 * delta)"
proof -
  let ?d = "hi - lo"
  obtain n where c: "closest 0 ?d = 10 ^ n" "?d \<le> 10 ^ Suc n" "n = 0 \<or> 10 ^ n < ?d" using closest_power [of 0 ?d] by blast
  have pos: "(0 :: int) < 10 ^ n" by simp
  have apart: "n = 0" if "hi = lo + 1" using c(3) pos that by linarith
  consider (zero) "?d div 10 ^ n = 0" | (one) "?d div 10 ^ n = 1" | (more) "2 \<le> ?d div 10 ^ n"
    using assms pos by (smt (verit) pos_imp_zdiv_nonneg_iff)
  then show ?thesis
  proof cases
    case zero
    then have s: "scale_layout lo hi = Inr (10 ^ n)" by (simp add: scale_layout_def scale_delta_def c Let_def)
    moreover have "hi \<noteq> lo + 1" using zero apart by auto
    moreover have "?d \<le> 20 * 10 ^ n" using c(2) pos unfolding power_Suc by linarith
    ultimately show ?thesis using set_ticks [OF pos, of lo hi] by auto
  next
    case more
    then have s: "scale_layout lo hi = Inr (10 ^ n)" by (simp add: scale_layout_def scale_delta_def c Let_def)
    moreover have "hi \<noteq> lo + 1" using more apart by auto
    moreover have "?d \<le> 20 * 10 ^ n" using c(2) pos unfolding power_Suc by linarith
    ultimately show ?thesis using set_ticks [OF pos, of lo hi] by auto
  next
    case one
    show ?thesis
    proof (cases n)
      case 0
      with one have "hi = lo + 1" by simp
      moreover from one 0 have "scale_layout lo hi = Inl ZeroDivisionError" by (simp add: scale_layout_def scale_delta_def closest.simps [of 0] Let_def)
      ultimately show ?thesis by simp
    next
      case (Suc k)
      with one have s: "scale_layout lo hi = Inr (10 ^ k)" by (simp add: scale_layout_def scale_delta_def c Let_def)
      have "?d = 10 ^ n * 1 + ?d mod 10 ^ n" using one by (metis mult_div_mod_eq)
      moreover have "?d mod 10 ^ n < 10 ^ n" using pos by simp
      ultimately have "?d \<le> 10 ^ n + 10 ^ n" by linarith
      then have "?d \<le> 20 * 10 ^ k" using Suc by simp
      moreover have "hi \<noteq> lo + 1" using Suc apart by auto
      ultimately show ?thesis using set_ticks [of "10 ^ k" lo hi] s by auto
    qed
  qed
qed

theorem scale_ticks_witness:
  "scale_layout 7 8 = Inl ZeroDivisionError \<and> set (ticks 3 100 10) = {x. 3 < x \<and> x \<le> 100 \<and> 10 dvd x}"
proof -
  have "scale_layout 3 100 = Inr 10" by code_simp
  with scale_ticks [of 7 8] scale_ticks [of 3 100] show ?thesis by simp
qed

section \<open>The range and the data\<close>

lemma scale_step_zero:
  assumes "lo \<le> hi"
  shows "scale_delta lo hi = 0 \<longleftrightarrow> hi - lo = 1"
proof -
  let ?d = "hi - lo"
  obtain n where c: "closest 0 ?d = 10 ^ n" "?d \<le> 10 ^ Suc n" "n = 0 \<or> 10 ^ n < ?d" using closest_power [of 0 ?d] by blast
  show ?thesis
  proof (cases n)
    case 0
    with c(1) have "closest 0 ?d = 1" by simp
    then have "scale_delta lo hi = (if ?d div 1 = 0 then 1 else if ?d div 1 = 1 then 1 div 10 else 1)"
      by (simp only: scale_delta_def Let_def)
    then show ?thesis by simp
  next
    case (Suc k)
    have "(10 :: int) \<le> 10 ^ n" using Suc by simp
    with c(3) Suc have "?d \<noteq> 1" by linarith
    moreover have "scale_delta lo hi \<noteq> 0" using Suc by (simp add: scale_delta_def c(1) Let_def)
    ultimately show ?thesis by simp
  qed
qed

lemma scale_layout_raises: "(\<exists>e. scale_layout lo hi = Inl e) \<longleftrightarrow> hi - lo = 1"
proof (cases "lo \<le> hi")
  case True
  with scale_step_zero [of lo hi] show ?thesis by (auto simp: scale_layout_def Let_def)
next
  case False
  then have "closest 0 (hi - lo) = 1" by (simp add: closest.simps)
  with False show ?thesis by (simp add: scale_layout_def scale_delta_def Let_def)
qed

lemma closest_at_pos: "closest_at k d = 1 \<or> 10 \<le> closest_at k d"
proof (induction k d rule: closest_at.induct)
  case (1 k d)
  have "(10 :: int) ^ k = 1 \<or> 10 \<le> (10 :: int) ^ k" by (cases k) simp_all
  with 1 show ?case by (simp add: closest_at.simps [of k])
qed

text \<open>The layout of the scale below the data raises exactly for a range of length 1.\<close>

lemma float_layout_raises:
  assumes "\<And>x. rnd (rnd x) = rnd x"
  shows "float_layout rnd lo hi = Inl e \<longleftrightarrow> e = ZeroDivisionError \<and> rnd (hi - lo) = 1"
proof -
  let ?d = "rnd (hi - lo)"
  have "float_delta rnd lo hi = 0 \<longleftrightarrow> ?d = 1"
  proof (cases "?d = 1")
    case True
    then have "closest_at 0 ?d = 1" "rnd 1 = 1" using assms [of "hi - lo"] by (simp_all add: closest_at.simps)
    with True show ?thesis by (simp add: float_delta_def Let_def)
  next
    case False
    have "10 \<le> closest_at 0 ?d \<Longrightarrow> closest_at 0 ?d div 10 \<noteq> 0" by linarith
    with False assms [of "hi - lo"] closest_at_pos [of 0 ?d] show ?thesis by (auto simp: float_delta_def Let_def)
  qed
  then show ?thesis by (auto simp: float_layout_def Let_def)
qed

text \<open>What an action does to the view: nothing, or it asks for a range, or the window gets a width.\<close>

definition asked :: "rat \<Rightarrow> rat \<Rightarrow> view \<Rightarrow> view" where
  "asked a b v = v\<lparr>r_start := max (g_start v) (min a b), r_end := min (g_end v) (max a b)\<rparr>"

definition laid_out :: "(rat \<Rightarrow> rat) \<Rightarrow> view \<Rightarrow> py_error option \<Rightarrow> view \<Rightarrow> bool" where
  "laid_out rnd v e u \<longleftrightarrow> (\<exists>a b. layout_graphic rnd (g_width v) (asked a b v) = (e, u)) \<or> (\<exists>w. layout_graphic rnd w v = (e, u))"

lemma reading_cases:
  "reading r s k = (e, u, m) \<Longrightarrow> (u = fst s \<Longrightarrow> P) \<Longrightarrow> (\<And>x. k x = (e, u, m) \<Longrightarrow> P) \<Longrightarrow> P"
  by (cases r) (auto simp: reading_def)

lemma ranging_laid_out: "ranging rnd a b f s = (e, u, m) \<Longrightarrow> laid_out rnd (fst s) e u"
  by (auto simp: ranging_def set_range_def laid_out_def asked_def split: prod.splits)

lemmas ranging_view = ranging_laid_out [of _ _ _ _ "(v, m)" for v m, unfolded fst_conv]

lemma press_view: "button_press rnd g ex ey s = (e, u, m) \<Longrightarrow> u = fst s"
  by (cases s) (auto simp: button_press_def Let_def data_rectangle_def elim!: reading_cases)

lemma release_view: "button_release rnd s = (e, u, m) \<Longrightarrow> u = fst s \<or> laid_out rnd (fst s) e u"
  by (cases s) (auto simp: button_release_def Let_def elim!: reading_cases dest: ranging_view split: if_splits)

lemma motion_view: "motion_notify rnd g ex s = (e, u, m) \<Longrightarrow> u = fst s \<or> laid_out rnd (fst s) e u"
  by (cases s) (auto simp: motion_notify_def Let_def elim!: reading_cases dest: ranging_view split: if_splits)

definition lays_out :: "action \<Rightarrow> bool" where
  "lays_out z \<longleftrightarrow> z = ZoomOut \<or> z = ZoomIn \<or> (\<exists>w. z = Resize w)"

lemma act_view: "act rnd geo s z = (e, u, m) \<Longrightarrow> u = fst s \<and> \<not> lays_out z \<or> laid_out rnd (fst s) e u"
  by (cases z)
    (auto simp: act_def Let_def lays_out_def zoom_out_def zoom_in_def size_allocate_def dest: press_view release_view motion_view
      ranging_laid_out split: prod.splits, auto simp: laid_out_def)

definition placed :: "view \<Rightarrow> view \<Rightarrow> bool" where
  "placed v u \<longleftrightarrow> g_start u = g_start v \<and> g_end u = g_end v \<and>
     (g_start v \<le> r_start u \<and> r_start u \<le> r_end u \<and> r_end u \<le> g_end v \<or>
      r_start u = g_start v \<and> r_end u < g_start v \<or> r_end u = g_end v \<and> g_end v < r_start u)"

lemma layout_fields:
  assumes "layout_graphic rnd w v = (e, u)"
  shows "g_start u = g_start v" "g_end u = g_end v" "r_start u = r_start v" "r_end u = r_end v"
  using assms by (auto simp: layout_graphic_def Let_def split: sum.splits)

lemma asked_placed: "g_start v \<le> g_end v \<Longrightarrow> placed v (asked a b v)"
  by (auto simp: placed_def asked_def max_def min_def)

lemma laid_out_placed:
  assumes "g_start v \<le> g_end v" and "placed v v" and "laid_out rnd v e u"
  shows "placed v u"
  using assms(3) unfolding laid_out_def
proof (elim disjE exE)
  fix a b assume "layout_graphic rnd (g_width v) (asked a b v) = (e, u)"
  from layout_fields [OF this] asked_placed [OF assms(1), of a b] show ?thesis by (simp add: placed_def)
next
  fix w assume "layout_graphic rnd w v = (e, u)"
  from layout_fields [OF this] assms(2) show ?thesis by (simp add: placed_def)
qed

lemma act_placed:
  assumes "g_start v \<le> g_end v" and "placed v (fst s)"
  shows "placed v (fst (snd (act rnd geo s z)))"
proof -
  obtain e u m where z: "act rnd geo s z = (e, u, m)" by (cases "act rnd geo s z") auto
  have self: "placed (fst s) (fst s)" "g_start (fst s) \<le> g_end (fst s)" using assms by (auto simp: placed_def)
  from act_view [OF z] have "placed (fst s) u" using laid_out_placed [OF self(2,1)] self(1) by auto
  with assms(2) show ?thesis by (simp add: z placed_def)
qed

lemma run_placed:
  assumes "g_start v \<le> g_end v" and "placed v (fst s)"
  shows "placed v (fst (run_actions rnd geo s actions))"
  using assms(2)
  by (induction actions arbitrary: s) (simp_all add: run_actions_def act_placed [OF assms(1)])

lemma layout_outcome:
  assumes "\<And>x. rnd (rnd x) = rnd x" and "\<lfloor>g_end v\<rfloor> - \<lfloor>g_start v\<rfloor> \<noteq> 1" and "layout_graphic rnd w v = (e, u)"
  shows "if rnd (r_end u - r_start u) = 1 then e = Some ZeroDivisionError \<and> bot_width u = bot_width v
    else e = None \<and> bot_width u = g_width u"
proof (cases "float_layout rnd (r_start v) (r_end v)")
  case (Inl x)
  with assms(1,3) show ?thesis by (auto simp: layout_graphic_def Let_def float_layout_raises)
next
  case (Inr d)
  then have d: "rnd (r_end v - r_start v) \<noteq> 1" using float_layout_raises [OF assms(1), of "r_start v" "r_end v"] by auto
  obtain d' where "scale_layout \<lfloor>g_start v\<rfloor> \<lfloor>g_end v\<rfloor> = Inr d'"
    using scale_layout_raises [of "\<lfloor>g_start v\<rfloor>" "\<lfloor>g_end v\<rfloor>"] assms(2) by (cases "scale_layout \<lfloor>g_start v\<rfloor> \<lfloor>g_end v\<rfloor>") auto
  with Inr d assms(3) show ?thesis by (auto simp: layout_graphic_def Let_def)
qed

lemma laid_out_outcome:
  assumes "\<And>x. rnd (rnd x) = rnd x" and "\<lfloor>g_end v\<rfloor> - \<lfloor>g_start v\<rfloor> \<noteq> 1" and "laid_out rnd v e u"
  shows "if rnd (r_end u - r_start u) = 1 then e = Some ZeroDivisionError \<and> bot_width u = bot_width v
    else e = None \<and> bot_width u = g_width u"
  using assms(3) layout_outcome [OF assms(1), of v] layout_outcome [OF assms(1), of "asked _ _ v"] assms(2)
  by (fastforce simp: laid_out_def asked_def)

lemma set_range_outcome:
  assumes "g_start v \<le> g_end v" and "set_range rnd a b v = (None, v0)"
  shows "placed v v0" and "\<lfloor>g_end v\<rfloor> - \<lfloor>g_start v\<rfloor> \<noteq> 1"
proof -
  have l: "layout_graphic rnd (g_width v) (asked a b v) = (None, v0)" using assms(2) by (simp add: set_range_def asked_def)
  from layout_fields [OF l] asked_placed [OF assms(1), of a b] show "placed v v0" by (simp add: placed_def)
  from l show "\<lfloor>g_end v\<rfloor> - \<lfloor>g_start v\<rfloor> \<noteq> 1"
    using scale_layout_raises [of "\<lfloor>g_start v\<rfloor>" "\<lfloor>g_end v\<rfloor>"] by (auto simp: layout_graphic_def asked_def Let_def split: sum.splits)
qed

text \<open>C30. Whatever the user does after \<open>main\<close> has set a range, with handlers that raise among what is done, the visible range is inside
  the data, or it lies outside of them and runs backwards to the end of the data next to it.  An action that changes the range or the
  width of the window, and every zoom and resize, raises \<open>ZeroDivisionError\<close> exactly when the visible range is then 1 long: the new
  range stays in force, but the scale below the selection keeps its old width.  Otherwise the action returns, and the scale is as wide
  as the window.\<close>

theorem range_in_bounds:
  assumes "g_start v \<le> g_end v" and "\<And>x. rnd (rnd x) = rnd x" and "set_range rnd a b v = (None, v0)"
    and "run_actions rnd geo (v0, mouse_start) actions = (v', m')" and "act rnd geo (v', m') z = (e, u, m)"
  shows "(g_start v \<le> r_start u \<and> r_start u \<le> r_end u \<and> r_end u \<le> g_end v \<or>
      r_start u = g_start v \<and> r_end u < g_start v \<or> r_end u = g_end v \<and> g_end v < r_start u) \<and>
    (u \<noteq> v' \<or> z = ZoomOut \<or> z = ZoomIn \<or> (\<exists>w. z = Resize w) \<longrightarrow>
      (if rnd (r_end u - r_start u) = 1 then e = Some ZeroDivisionError \<and> bot_width u = bot_width v'
       else e = None \<and> bot_width u = g_width u))"
proof -
  have p: "placed v v'" using run_placed [OF assms(1), of "(v0, mouse_start)"] set_range_outcome(1) [OF assms(1,3)] assms(4) by (metis fst_conv)
  then have "placed v u" using act_placed [OF assms(1), of "(v', m')" rnd geo z] assms(5) by simp
  moreover have "\<lfloor>g_end v'\<rfloor> - \<lfloor>g_start v'\<rfloor> \<noteq> 1" using p set_range_outcome(2) [OF assms(1,3)] by (simp add: placed_def)
  ultimately show ?thesis
    using act_view [OF assms(5)] laid_out_outcome [OF assms(2), of v' e u] by (auto simp: placed_def lays_out_def)
qed

definition sample_geometry :: geometry where
  "sample_geometry = \<lparr>top_legend_height = 10, data_height = 50, mid_scale_height = 10, bot_scale_height = 10, data_x_start = 20\<rparr>"

definition sample_view :: view where
  "sample_view = \<lparr>g_start = 0, g_end = 100, r_start = 0, r_end = 0, g_width = 200, bot_width = 200\<rparr>"

text \<open>The default range of \<open>main\<close> is not moved by the start of the data: for data from 1000 to 1100 it is outside of them.\<close>

lemma default_range_outside:
  "default_range 1000 1100 = (45, 55)"
  "(case set_range id 45 55 (sample_view\<lparr>g_start := 1000, g_end := 1100\<rparr>) of (e, u) \<Rightarrow> e = None \<and> r_start u = 1000 \<and> r_end u = 55)"
  by code_simp+

text \<open>The right end of the range is dragged until the range is 2 long; then a zoom raises.\<close>

theorem range_in_bounds_witness:
  "\<exists>u m. act id (\<lambda>_. sample_geometry) (run_actions id (\<lambda>_. sample_geometry) (snd (set_range id 40 44 sample_view), mouse_start)
       [Press 87 95, Motion 84, Release, Resize 300]) ZoomIn = (Some ZeroDivisionError, u, m) \<and>
     0 \<le> r_start u \<and> r_start u \<le> r_end u \<and> r_end u \<le> 100 \<and> r_end u - r_start u = 1"
proof -
  let ?s = "run_actions id (\<lambda>_. sample_geometry) (snd (set_range id 40 44 sample_view), mouse_start) [Press 87 95, Motion 84, Release, Resize 300]"
  have start: "set_range id 40 44 sample_view = (None, snd (set_range id 40 44 sample_view))" by code_simp
  have g: "g_start sample_view = 0" "g_end sample_view = 100" by (simp_all add: sample_view_def)
  obtain v' m' where s: "?s = (v', m')" by (cases ?s)
  obtain e u m where z: "act id (\<lambda>_. sample_geometry) ?s ZoomIn = (e, u, m)" by (cases "act id (\<lambda>_. sample_geometry) ?s ZoomIn") auto
  have "fst (act id (\<lambda>_. sample_geometry) ?s ZoomIn) = Some ZeroDivisionError" by code_simp
  then have e: "e = Some ZeroDivisionError" by (simp add: z)
  from range_in_bounds [OF _ _ start s, of ZoomIn e u m] z s g e show ?thesis by (auto split: if_splits)
qed

section \<open>Dragging the right end of the range to the edge\<close>

lemma drag_to_edge:
  assumes "moving_left m = False" and "moving_right m \<noteq> 0" and "right_cur m = None" and "0 < g_width v"
    and "g_start v \<noteq> g_end v" and "\<forall>x \<in> set xs. g_width v \<le> x"
  shows "act rnd geo (run_actions rnd geo (v, m) (map Motion xs)) Release = (Some AttributeError, v, m\<lparr>moving_right := 0\<rparr>)"
  using assms(1-3,6)
proof (induction xs arbitrary: m)
  case Nil
  then show ?case by (simp add: run_actions_def act_def button_release_def attribute_def reading_def)
next
  case (Cons x xs)
  have s: "act rnd geo (v, m) (Motion x) = (None, v, m\<lparr>moving_right := g_width v\<rparr>)"
    using Cons.prems assms(5) by (simp add: act_def motion_notify_def selection_rectangle_def get_position_def reading_def)
  have "act rnd geo (run_actions rnd geo (v, m\<lparr>moving_right := g_width v\<rparr>) (map Motion xs)) Release
      = (Some AttributeError, v, m\<lparr>moving_right := g_width v, moving_right := 0\<rparr>)"
    using Cons.prems assms(4) by (intro Cons.IH) simp_all
  with s show ?case by (simp add: run_actions_def)
qed

text \<open>The first drag of the right end of the range to the edge of the window, or a click on it without
  a drag, raises \<open>AttributeError\<close> when the button is released, and the range stays: the position is stored in the flag
  \<open>__moving_right\<close> instead of \<open>__moving_right_cur\<close>.
\<close>

theorem right_drag_raises:
  assumes "button_press rnd (geo (g_width v)) ex ey (v, m) = (None, v, m\<lparr>moving_right := 1\<rparr>)"
    and "moving_left m = False" and "right_cur m = None" and "0 < g_width v" and "g_start v \<noteq> g_end v"
    and "\<forall>x \<in> set xs. g_width v \<le> x"
  shows "act rnd geo (run_actions rnd geo (v, m) (Press ex ey # map Motion xs)) Release = (Some AttributeError, v, m\<lparr>moving_right := 0\<rparr>)"
  using drag_to_edge [of "m\<lparr>moving_right := 1\<rparr>" v xs rnd geo] assms by (simp add: run_actions_def act_def)

theorem right_drag_raises_witness:
  "fst (act id (\<lambda>_. sample_geometry) (run_actions id (\<lambda>_. sample_geometry) (snd (set_range id 40 60 sample_view), mouse_start)
     (Press 120 95 # map Motion [200, 210])) Release) = Some AttributeError"
proof -
  let ?v = "sample_view\<lparr>r_start := 40, r_end := 60\<rparr>"
  have v: "snd (set_range id 40 60 sample_view) = ?v" by code_simp
  have "button_press id sample_geometry 120 95 (?v, mouse_start) = (None, ?v, mouse_start\<lparr>moving_right := 1\<rparr>)" by code_simp
  with right_drag_raises [of id "\<lambda>_. sample_geometry" ?v 120 95 mouse_start "[200, 210]"] show ?thesis
    unfolding v by (simp add: mouse_start_def sample_view_def)
qed

end
