(* ===== verification/Trace_Analyzer.thy ===== *)
theory Trace_Analyzer
  imports Py_Strings Py_Float "HOL-Library.Word"
begin

text \<open>
  \<open>analyze/scripts/plot_trace.py\<close>: the reader of binary traces (\<open>SimSetting\<close>, \<open>TraceRecord\<close>), the statistics
  per port, and the tables of link utilization and queue length.  A file is a list of bytes; the
  rounding of floats is the parameter \<open>fl\<close>.
\<close>

section \<open>Little-endian numbers\<close>

type_synonym bytes = "8 word list"



section \<open>The settings of the simulation\<close>

record sim_setting =
  port_speed :: "(nat, (nat, nat) dict) dict"
  win :: nat




section \<open>Trace records\<close>

record trace_record =
  tr_time :: nat
  tr_node :: nat
  tr_intf :: nat
  tr_qidx :: nat
  tr_qlen :: nat
  tr_sip :: nat
  tr_dip :: nat
  tr_size :: nat
  tr_l3 :: nat
  tr_event :: nat
  tr_ecn :: nat
  tr_node_type :: nat
  tr_sport :: nat
  tr_dport :: nat
  tr_seq :: nat
  tr_ts :: nat
  tr_pg :: nat
  tr_payload :: nat







section \<open>Statistics per port\<close>

type_synonym port = "nat \<times> nat"
type_synonym series = "(nat \<times> nat) list"

record port_stats =
  tx_bytes :: series
  rx_bytes :: series
  queue_len :: series
  enqueue_events :: series
  dequeue_events :: series
  drop_events :: series

definition no_stats :: port_stats where
  "no_stats = \<lparr>tx_bytes = [], rx_bytes = [], queue_len = [], enqueue_events = [], dequeue_events = [], drop_events = []\<rparr>"

definition default_get :: "'v \<Rightarrow> ('k, 'v) dict \<Rightarrow> 'k \<Rightarrow> 'v" where
  "default_get z d k = (case map_of d k of None \<Rightarrow> z | Some v \<Rightarrow> v)"

record analysis =
  stats :: "(port, port_stats) dict"
  tx_cumulative :: "(port, nat) dict"
  rx_cumulative :: "(port, nat) dict"

definition analyze_record :: "trace_record \<Rightarrow> analysis \<Rightarrow> analysis" where
  "analyze_record r a =
     (let key = (tr_node r, tr_intf r);
          s0 = default_get no_stats (stats a) key;
          s = s0\<lparr>queue_len := queue_len s0 @ [(tr_time r, tr_qlen r)]\<rparr>;
          ev = (tr_time r, tr_size r)
      in if tr_event r = 1 then
           a\<lparr>stats := dict_set key (s\<lparr>enqueue_events := enqueue_events s @ [ev]\<rparr>) (stats a)\<rparr>
         else if tr_event r = 2 then
           (let c = default_get 0 (tx_cumulative a) key + tr_size r in
            a\<lparr>stats := dict_set key (s\<lparr>dequeue_events := dequeue_events s @ [ev], tx_bytes := tx_bytes s @ [(tr_time r, c)]\<rparr>) (stats a),
              tx_cumulative := dict_set key c (tx_cumulative a)\<rparr>)
         else if tr_event r = 0 then
           (let c = default_get 0 (rx_cumulative a) key + tr_size r in
            a\<lparr>stats := dict_set key (s\<lparr>rx_bytes := rx_bytes s @ [(tr_time r, c)]\<rparr>) (stats a),
              rx_cumulative := dict_set key c (rx_cumulative a)\<rparr>)
         else if tr_event r = 3 then
           a\<lparr>stats := dict_set key (s\<lparr>drop_events := drop_events s @ [ev]\<rparr>) (stats a)\<rparr>
         else a\<lparr>stats := dict_set key s (stats a)\<rparr>)"

definition analyze :: "trace_record list \<Rightarrow> analysis" where
  "analyze rs = fold analyze_record rs \<lparr>stats = [], tx_cumulative = [], rx_cumulative = []\<rparr>"

section \<open>Tables\<close>

record util_row =
  u_time_us :: rat
  u_node :: nat
  u_port :: nat
  throughput_gbps :: rat
  utilization_pct :: rat

definition util_row_of :: "(rat \<Rightarrow> rat) \<Rightarrow> port \<Rightarrow> nat \<Rightarrow> (nat \<times> nat) \<times> (nat \<times> nat) \<Rightarrow> util_row list" where
  "util_row_of fl key speed = (\<lambda>((t1, b1), (t2, b2)).
     if t2 = t1 then []
     else let tp = fl (of_int ((int b2 - int b1) * 8) / of_int (int t2 - int t1));
              util = fl (fl (fl (tp * 1000000000) / fl (of_nat speed)) * 100)
          in [\<lparr>u_time_us = fl (of_nat t2 / 1000), u_node = fst key, u_port = snd key, throughput_gbps = tp,
               utilization_pct = min util 100\<rparr>])"

definition speed_of :: "sim_setting \<Rightarrow> port \<Rightarrow> nat" where
  "speed_of s key = default_get 0 (default_get [] (port_speed s) (fst key)) (snd key)"

definition port_util :: "(rat \<Rightarrow> rat) \<Rightarrow> sim_setting \<Rightarrow> port \<times> port_stats \<Rightarrow> util_row list" where
  "port_util fl s = (\<lambda>(key, st).
     let tx = tx_bytes st in
     if length tx < 2 \<or> speed_of s key = 0 then []
     else concat (map (util_row_of fl key (speed_of s key)) (zip (butlast tx) (tl tx))))"

definition get_utilization :: "(rat \<Rightarrow> rat) \<Rightarrow> sim_setting \<Rightarrow> analysis \<Rightarrow> util_row list" where
  "get_utilization fl s a = concat (map (port_util fl s) (stats a))"

record qlen_row =
  q_time_us :: rat
  q_node :: nat
  q_port :: nat
  qlen_kb :: rat

definition get_qlen :: "(rat \<Rightarrow> rat) \<Rightarrow> analysis \<Rightarrow> qlen_row list" where
  "get_qlen fl a = concat (map (\<lambda>(key, st). map (\<lambda>(t, q).
     \<lparr>q_time_us = fl (of_nat t / 1000), q_node = fst key, q_port = snd key, qlen_kb = fl (of_nat q / 1000)\<rparr>) (queue_len st)) (stats a))"

text \<open>The window over which a port's series is smoothed.\<close>

definition window_size :: "nat \<Rightarrow> nat" where
  "window_size n = min 50 n"

section \<open>Reading what was written\<close>

fun le_bytes :: "nat \<Rightarrow> nat \<Rightarrow> bytes" where
  "le_bytes 0 v = []"
| "le_bytes (Suc w) v = word_of_nat v # le_bytes w (v div 256)"

lemma length_le_bytes [simp]: "length (le_bytes w v) = w"
  by (induction w arbitrary: v) simp_all





















section \<open>The series of a port\<close>

definition at_port :: "port \<Rightarrow> trace_record \<Rightarrow> bool" where
  "at_port key r \<longleftrightarrow> (tr_node r, tr_intf r) = key"

text \<open>What the sums have reached, record by record.\<close>

fun running :: "nat \<Rightarrow> trace_record list \<Rightarrow> series" where
  "running c [] = []"
| "running c (r # rs) = (tr_time r, c + tr_size r) # running (c + tr_size r) rs"

definition total_size :: "trace_record list \<Rightarrow> nat" where
  "total_size rs = sum_list (map tr_size rs)"

lemma total_size_simps [simp]: "total_size [] = 0" "total_size (r # rs) = tr_size r + total_size rs" "total_size (rs @ qs) = total_size rs + total_size qs"
  by (simp_all add: total_size_def)

lemma running_append [simp]: "running c (rs @ qs) = running c rs @ running (c + total_size rs) qs"
  by (induction rs arbitrary: c) (simp_all add: add.assoc)

lemma default_get_set [simp]: "default_get z (dict_set k v d) l = (if l = k then v else default_get z d l)"
  by (simp add: default_get_def)

definition events_at :: "nat \<Rightarrow> port \<Rightarrow> trace_record list \<Rightarrow> trace_record list" where
  "events_at e key rs = filter (\<lambda>r. at_port key r \<and> tr_event r = e) rs"

definition port_view :: "port \<Rightarrow> trace_record list \<Rightarrow> port_stats" where
  "port_view key rs =
     (let ev = map (\<lambda>r. (tr_time r, tr_size r)) in
      \<lparr>tx_bytes = running 0 (events_at 2 key rs), rx_bytes = running 0 (events_at 0 key rs),
       queue_len = map (\<lambda>r. (tr_time r, tr_qlen r)) (filter (at_port key) rs),
       enqueue_events = ev (events_at 1 key rs), dequeue_events = ev (events_at 2 key rs),
       drop_events = ev (events_at 3 key rs)\<rparr>)"

definition analysis_of :: "trace_record list \<Rightarrow> analysis \<Rightarrow> bool" where
  "analysis_of rs a \<longleftrightarrow>
     (\<forall>key. default_get no_stats (stats a) key = port_view key rs \<and>
        default_get 0 (tx_cumulative a) key = total_size (events_at 2 key rs) \<and>
        default_get 0 (rx_cumulative a) key = total_size (events_at 0 key rs))"

lemma analysis_step:
  assumes "analysis_of rs a"
  shows "analysis_of (rs @ [r]) (analyze_record r a)"
proof -
  have v: "default_get no_stats (stats a) k = port_view k rs"
      "default_get 0 (tx_cumulative a) k = total_size (events_at 2 k rs)"
      "default_get 0 (rx_cumulative a) k = total_size (events_at 0 k rs)" for k
    using assms unfolding analysis_of_def by metis+
  consider "tr_event r = 1" | "tr_event r = 2" | "tr_event r = 0" | "tr_event r = 3" | "tr_event r \<notin> {0, 1, 2, 3}" by auto
  then show ?thesis
    by cases (simp_all add: analysis_of_def analyze_record_def Let_def v port_view_def events_at_def at_port_def)
qed

lemma analyze_view: "analysis_of rs (analyze rs)"
proof (induction rs rule: rev_induct)
  case Nil
  show ?case by (simp add: analysis_of_def analyze_def default_get_def port_view_def events_at_def no_stats_def)
next
  case (snoc r rs)
  then show ?case using analysis_step by (simp add: analyze_def)
qed


lemma length_running [simp]: "length (running c rs) = length rs"
  by (induction rs arbitrary: c) simp_all

lemma running_eq_Nil [simp]: "running c rs = [] \<longleftrightarrow> rs = []"
  by (cases rs) simp_all

text \<open>The time between neighbours.\<close>

fun gaps :: "nat list \<Rightarrow> nat list" where
  "gaps (a # b # ts) = (b - a) # gaps (b # ts)"
| "gaps ts = []"

definition delivered :: "nat list \<Rightarrow> util_row list \<Rightarrow> rat" where
  "delivered ds rows = sum_list (map2 (\<lambda>d row. of_nat d * throughput_gbps row) ds rows)"

lemma delivered_simps [simp]:
  "delivered [] rows = 0" "delivered (d # ds) (row # rows) = of_nat d * throughput_gbps row + delivered ds rows"
  by (simp_all add: delivered_def)

definition util_rows :: "(rat \<Rightarrow> rat) \<Rightarrow> port \<Rightarrow> nat \<Rightarrow> series \<Rightarrow> util_row list" where
  "util_rows fl key speed tx = concat (map (util_row_of fl key speed) (zip (butlast tx) (tl tx)))"

lemma util_rows_simps [simp]:
  "util_rows fl key speed [p] = []"
  "util_rows fl key speed (p # q # tx) = util_row_of fl key speed (p, q) @ util_rows fl key speed (q # tx)"
  by (simp_all add: util_rows_def)

lemma util_rows_delivered:
  "sorted_wrt (<) (map tr_time (r # rs)) \<Longrightarrow>
   delivered (gaps (map tr_time (r # rs))) (util_rows exact key speed (running c (r # rs))) = 8 * of_nat (total_size rs)"
proof (induction rs arbitrary: r c)
  case (Cons q rs)
  have lt: "tr_time r < tr_time q" using Cons.prems by simp
  have "delivered (gaps (map tr_time (q # rs))) (util_rows exact key speed (running (c + tr_size r) (q # rs))) = 8 * of_nat (total_size rs)"
    by (rule Cons.IH) (use Cons.prems in simp)
  with lt show ?case by (simp add: util_row_of_def exact_eq of_nat_diff Let_def)
qed simp

section \<open>Properties\<close>


definition sample_record :: "nat \<Rightarrow> nat \<Rightarrow> nat \<Rightarrow> trace_record" where
  "sample_record t e sz =
     \<lparr>tr_time = t, tr_node = 6, tr_intf = 1, tr_qidx = 3, tr_qlen = 2096, tr_sip = 184549377, tr_dip = 184549633,
      tr_size = sz, tr_l3 = 17, tr_event = e, tr_ecn = 1, tr_node_type = 1, tr_sport = 10000, tr_dport = 100,
      tr_seq = 0, tr_ts = 0, tr_pg = 3, tr_payload = 1000\<rparr>"


text \<open>What the analysis keeps for a port is a function of that port's records alone, in the order of the
  file: every record's queue length, the events of each kind, and the running sums of the bytes received and
  dequeued; records of other ports leave no mark on it.\<close>

lemma analysis_by_port: "default_get no_stats (stats (analyze rs)) key = port_view key rs"
  using analyze_view unfolding analysis_of_def by blast

text \<open>The throughput that is plotted accounts for every byte: when a port's packets leave at increasing
  times, the throughputs of the rows, each over its time, add up to eight times the bytes dequeued after
  the first packet (with exact arithmetic).\<close>

theorem throughput_accounts_for_bytes:
  assumes "events_at 2 key rs = d # ds" and "sorted_wrt (<) (map tr_time (d # ds))" and "speed_of s key \<noteq> 0"
  shows "delivered (gaps (map tr_time (d # ds))) (port_util exact s (key, default_get no_stats (stats (analyze rs)) key)) =
         8 * of_nat (total_size ds)"
proof (cases ds)
  case Nil
  then show ?thesis by simp
next
  case (Cons q qs)
  have "default_get no_stats (stats (analyze rs)) key = port_view key rs" by (rule analysis_by_port)
  moreover have "tx_bytes (port_view key rs) = running 0 (d # ds)" by (simp add: port_view_def Let_def assms(1))
  ultimately show ?thesis
    using util_rows_delivered [OF assms(2), of key "speed_of s key" 0] assms(3)
    by (simp add: port_util_def util_rows_def Cons)
qed

lemma throughput_accounts_for_bytes_witness:
  "delivered [1000, 3000] (port_util exact \<lparr>port_speed = [(6, [(1, 100000000000)])], win = 7\<rparr>
     ((6, 1), default_get no_stats (stats (analyze [sample_record 1000 2 1048, sample_record 1500 1 1048,
        sample_record 2000 2 1048, sample_record 5000 2 500])) (6, 1))) = 12384"
  using throughput_accounts_for_bytes [where key = "(6, 1)" and d = "sample_record 1000 2 1048"
      and ds = "[sample_record 2000 2 1048, sample_record 5000 2 500]"
      and s = "\<lparr>port_speed = [(6, [(1, 100000000000)])], win = 7\<rparr>"
      and rs = "[sample_record 1000 2 1048, sample_record 1500 1 1048, sample_record 2000 2 1048, sample_record 5000 2 500]"]
  by (simp add: events_at_def at_port_def sample_record_def speed_of_def default_get_def)

end
