(* ===== verification/Port_Labels.thy ===== *)
theory Port_Labels
  imports Py_Strings
begin

text \<open>
  The analysis scripts under \<open>mix/*/analyze/scripts\<close>: the labels of ports.  Each script has its own
  \<open>canonical_label\<close>; the queue-length scripts read a label as a pair of numbers.
\<close>

section \<open>The normalisers\<close>

text \<open>The step they share: the numbers of node and port, with or without a \<open>P\<close>.\<close>

definition port_numbers :: "string \<Rightarrow> (nat \<times> nat) option" where
  "port_numbers body =
     (case split_on CHR ''-'' (py_replace ''-P'' ''-'' body) of
        [a, b] \<Rightarrow> if isdigit a \<and> isdigit b then Some (digits_val a, digits_val b) else None
      | _ \<Rightarrow> None)"

definition show_label :: "string \<Rightarrow> nat \<Rightarrow> nat \<Rightarrow> string" where
  "show_label pre n p = pre @ show_nat n @ ''-P'' @ show_nat p"

definition with_numbers :: "string \<Rightarrow> string \<Rightarrow> string \<Rightarrow> string" where
  "with_numbers pre body s = (case port_numbers body of Some (n, p) \<Rightarrow> show_label pre n p | None \<Rightarrow> s)"

definition canonical_pfc :: "string \<Rightarrow> string" where
  "canonical_pfc lbl =
     (let s = upper (strip lbl) in
      if s = [] then s
      else if startswith s ''SW'' then with_numbers ''SW'' (drop 2 s) s
      else if startswith s ''S'' then with_numbers ''SW'' (drop 1 s) s
      else if startswith s ''H'' then with_numbers ''H'' (drop 1 s) s
      else s)"

definition canonical_trace :: "string \<Rightarrow> string" where
  "canonical_trace lbl =
     (let s = upper (strip lbl) in
      if s = [] then s
      else if startswith s ''H'' then with_numbers ''H'' (drop 1 s) s
      else if startswith s ''SW'' \<or> startswith s ''S'' then
        with_numbers ''SW'' (drop (length (if startswith s ''SW'' then ''SW'' else ''S'')) s) s
      else s)"

definition canonical_ingress :: "string \<Rightarrow> string" where
  "canonical_ingress lbl =
     (let s = upper (strip lbl) in
      if s = [] then s
      else if startswith s ''SW'' then with_numbers ''SW'' (drop 2 s) s
      else if startswith s ''S'' then with_numbers ''SW'' (drop 1 s) s
      else s)"

definition canonical_link :: "string \<Rightarrow> string" where
  "canonical_link lbl =
     (let s = upper (strip lbl) in
      if startswith s ''SW'' then with_numbers ''SW'' (drop 2 s) s
      else if startswith s ''S'' then with_numbers ''SW'' (drop 1 s) s
      else if startswith s ''H'' then with_numbers ''H'' (drop 1 s) s
      else s)"

definition build_port_label :: "nat \<Rightarrow> nat \<Rightarrow> nat set \<Rightarrow> string" where
  "build_port_label node_id port_id switch_nodes = show_label (if node_id \<in> switch_nodes then ''SW'' else ''H'') node_id port_id"

definition parse_include_label :: "string \<Rightarrow> (nat \<times> nat) option" where
  "parse_include_label lbl =
     (let s = upper (strip lbl);
          pair = (\<lambda>body. case split_on CHR ''-'' body of
            [node_str, port] \<Rightarrow>
              let port_str = (if startswith port ''P'' then drop 1 port else port)
              in if isdigit node_str \<and> isdigit port_str then Some (digits_val node_str, digits_val port_str) else None
          | _ \<Rightarrow> None)
      in if s = [] then None
         else if startswith s ''SW'' then pair (drop 2 s)
         else if startswith s ''S'' then pair (drop 1 s)
         else None)"

text \<open>The ports kept by the ingress script: the number after \<open>-P\<close> of each label that has one.\<close>

fun after_dash_p :: "string \<Rightarrow> string option" where
  "after_dash_p [] = None"
| "after_dash_p (c # s) = (if startswith (c # s) ''-P'' then Some (tl s) else after_dash_p s)"

fun upto_dash_p :: "string \<Rightarrow> string" where
  "upto_dash_p [] = []"
| "upto_dash_p (c # s) = (if startswith (c # s) ''-P'' then [] else c # upto_dash_p s)"

definition ingress_ports :: "string list \<Rightarrow> int list res" where
  "ingress_ports labels =
     bind_res (map_res (\<lambda>lbl. case after_dash_p (canonical_ingress lbl) of
          None \<Rightarrow> Inr [] | Some r \<Rightarrow> bind_res (py_int (upto_dash_p r)) (\<lambda>p. Inr [p])) labels)
       (\<lambda>ps. Inr (concat ps))"

section \<open>Spellings of a port\<close>

text \<open>A spelling: white space around, a prefix, the node, a separator, the port.\<close>

definition spelling :: "string \<Rightarrow> string \<Rightarrow> nat \<Rightarrow> nat \<Rightarrow> string" where
  "spelling pre sep n p = pre @ show_nat n @ sep @ show_nat p"

lemma digits_no_dash: "CHR ''-'' \<notin> set (show_nat n)"
  by (auto dest: show_nat_digit simp: is_digit_def code_def)

lemma port_numbers_spelling:
  assumes "sep = ''-'' \<or> sep = ''-P''"
  shows "port_numbers (show_nat n @ sep @ show_nat p) = Some (n, p)"
proof -
  have no_p: "py_replace ''-P'' ''-'' (show_nat p) = show_nat p"
    by (rule py_replace_absent) (simp_all add: digits_no_dash)
  obtain c r where c: "show_nat p = c # r" by (cases "show_nat p") simp_all
  then have "is_digit c" using show_nat_digit [of c p] by simp
  then have "c \<noteq> CHR ''P''" by (rule digit_not_special)
  with c no_p have "py_replace ''-P'' ''-'' (sep @ show_nat p) = CHR ''-'' # show_nat p"
    using assms by auto
  moreover have "py_replace ''-P'' ''-'' (show_nat n @ sep @ show_nat p) = show_nat n @ py_replace ''-P'' ''-'' (sep @ show_nat p)"
    by (rule py_replace_skip) (simp_all add: digits_no_dash)
  ultimately have "split_on CHR ''-'' (py_replace ''-P'' ''-'' (show_nat n @ sep @ show_nat p)) = [show_nat n, show_nat p]"
    by (simp add: split_on_append split_on_none digits_no_dash)
  then show ?thesis by (simp add: port_numbers_def)
qed

lemma strip_spelling:
  assumes "pre \<noteq> []" and "\<not> is_ws (hd pre)"
  shows "strip (spelling pre sep n p) = spelling pre sep n p"
proof (rule strip_id)
  have "\<not> is_ws (last (show_nat p))" by (intro digit_not_ws show_nat_digit [of _ p] last_in_set) simp
  then show "spelling pre sep n p = [] \<or> \<not> is_ws (hd (spelling pre sep n p)) \<and> \<not> is_ws (last (spelling pre sep n p))"
    using assms by (simp add: spelling_def)
qed

lemma upper_append [simp]: "upper (s @ t) = upper s @ upper t"
  by (simp add: upper_def)

lemma upper_spelling: "upper (spelling pre sep n p) = spelling (upper pre) (upper sep) n p"
  by (simp add: spelling_def)

lemma show_nat_head: "show_nat n = c # r \<Longrightarrow> is_digit c"
  using show_nat_digit [of c n] by simp

lemma spelling_starts:
  "startswith (spelling ''SW'' sep n p) ''SW''" "startswith (spelling ''S'' sep n p) ''S''" "startswith (spelling ''H'' sep n p) ''H''"
  "\<not> startswith (spelling ''S'' sep n p) ''SW''" "\<not> startswith (spelling ''H'' sep n p) ''S''"
  "\<not> startswith (spelling ''SW'' sep n p) ''H''" "\<not> startswith (spelling ''S'' sep n p) ''H''" "\<not> startswith (spelling ''H'' sep n p) ''SW''"
proof -
  obtain c r where c: "show_nat n = c # r" by (cases "show_nat n") simp_all
  from show_nat_head [OF c] have "c \<noteq> CHR ''W''" by (rule digit_not_special)
  with c show "\<not> startswith (spelling ''S'' sep n p) ''SW''" by (simp add: spelling_def)
qed (simp_all add: spelling_def)

lemma with_numbers_spelling:
  "sep = ''-'' \<or> sep = ''-P'' \<Longrightarrow> with_numbers pre (show_nat n @ sep @ show_nat p) s = show_label pre n p"
  by (simp add: with_numbers_def port_numbers_spelling)

text \<open>
  What the users of labels rely on: every spelling of the port of a switch is brought to the form in
  which the label of that port is printed.
\<close>

definition switch_prefixes :: "string list" where
  "switch_prefixes = [''SW'', ''S'', ''sw'', ''s'', ''Sw'', ''sW'']"

definition host_prefixes :: "string list" where
  "host_prefixes = [''H'', ''h'']"

definition separators :: "string list" where
  "separators = [''-'', ''-P'', ''-p'']"

lemma upper_literals:
  "upper ''SW'' = ''SW''" "upper ''S'' = ''S''" "upper ''sw'' = ''SW''" "upper ''s'' = ''S''" "upper ''Sw'' = ''SW''"
  "upper ''sW'' = ''SW''" "upper ''H'' = ''H''" "upper ''h'' = ''H''" "upper ''-'' = ''-''" "upper ''-P'' = ''-P''" "upper ''-p'' = ''-P''"
  by code_simp+

lemma upper_prefixes:
  "pre \<in> set switch_prefixes \<Longrightarrow> upper pre = ''SW'' \<or> upper pre = ''S''"
  "pre \<in> set host_prefixes \<Longrightarrow> upper pre = ''H''"
  "sep \<in> set separators \<Longrightarrow> upper sep = ''-'' \<or> upper sep = ''-P''"
  "pre \<in> set (switch_prefixes @ host_prefixes) \<Longrightarrow> pre \<noteq> [] \<and> \<not> is_ws (hd pre)"
  by (auto simp: switch_prefixes_def host_prefixes_def separators_def upper_literals is_ws_def code_def)

lemma read_spelling:
  assumes "pre \<in> set (switch_prefixes @ host_prefixes)"
  shows "upper (strip (spelling pre sep n p)) = spelling (upper pre) (upper sep) n p"
  using upper_prefixes(4) [OF assms] by (simp add: strip_spelling upper_spelling)

lemma read_switch:
  assumes "pre \<in> set switch_prefixes" and "sep \<in> set separators"
  obtains x y where "upper (strip (spelling pre sep n p)) = spelling x y n p" "x = ''SW'' \<or> x = ''S''" "y = ''-'' \<or> y = ''-P''"
  using that [OF read_spelling upper_prefixes(1) upper_prefixes(3)] assms by simp

lemma read_host:
  assumes "pre \<in> set host_prefixes" and "sep \<in> set separators"
  obtains y where "upper (strip (spelling pre sep n p)) = spelling ''H'' y n p" "y = ''-'' \<or> y = ''-P''"
  using that [of "upper sep"] read_spelling [of pre sep n p] upper_prefixes(2,3) assms by simp

locale port_normaliser =
  fixes canon :: "string \<Rightarrow> string"
  assumes switch_spelling: "pre \<in> set switch_prefixes \<Longrightarrow> sep \<in> set separators \<Longrightarrow>
      canon (spelling pre sep n p) = show_label ''SW'' n p"
begin

lemma switch_label: "canon (show_label ''SW'' n p) = show_label ''SW'' n p"
  using switch_spelling [of "''SW''" "''-P''" n p]
  by (simp add: switch_prefixes_def separators_def spelling_def show_label_def)

lemma idem: "pre \<in> set switch_prefixes \<Longrightarrow> sep \<in> set separators \<Longrightarrow>
    canon (canon (spelling pre sep n p)) = canon (spelling pre sep n p)"
  by (simp add: switch_spelling switch_label)

lemma built_label: "node \<in> switches \<Longrightarrow> canon (build_port_label node port switches) = build_port_label node port switches"
  by (simp add: build_port_label_def switch_label)

end

locale host_port_normaliser = port_normaliser +
  assumes host_spelling: "pre \<in> set host_prefixes \<Longrightarrow> sep \<in> set separators \<Longrightarrow>
      canon (spelling pre sep n p) = show_label ''H'' n p"
begin

lemma host_label: "canon (show_label ''H'' n p) = show_label ''H'' n p"
  using host_spelling [of "''H''" "''-P''" n p]
  by (simp add: host_prefixes_def separators_def spelling_def show_label_def)

lemma every_built_label: "canon (build_port_label node port switches) = build_port_label node port switches"
  by (simp add: build_port_label_def switch_label host_label)

end

lemma body_of_spelling:
  "drop 2 (spelling ''SW'' sep n p) = show_nat n @ sep @ show_nat p" "drop 1 (spelling ''S'' sep n p) = show_nat n @ sep @ show_nat p"
  "drop 1 (spelling ''H'' sep n p) = show_nat n @ sep @ show_nat p"
  by (simp_all add: spelling_def)

lemmas spelling_facts = spelling_starts with_numbers_spelling body_of_spelling

lemma spelling_neq_Nil [simp]: "spelling pre sep n p \<noteq> []"
  by (simp add: spelling_def)

lemmas normalise = spelling_facts spelling_neq_Nil Let_def if_True if_False simp_thms

interpretation pfc_labels: host_port_normaliser canonical_pfc
proof
  fix pre sep :: string and n p
  assume sep: "sep \<in> set separators"
  show "canonical_pfc (spelling pre sep n p) = show_label ''SW'' n p" if "pre \<in> set switch_prefixes"
    by (rule read_switch [OF that sep, of n p]) (auto simp only: canonical_pfc_def normalise)
  show "canonical_pfc (spelling pre sep n p) = show_label ''H'' n p" if "pre \<in> set host_prefixes"
    by (rule read_host [OF that sep, of n p]) (auto simp only: canonical_pfc_def normalise)
qed

interpretation trace_labels: host_port_normaliser canonical_trace
proof
  fix pre sep :: string and n p
  assume sep: "sep \<in> set separators"
  have l: "drop (length ''SW'') (spelling ''SW'' y n p) = show_nat n @ y @ show_nat p"
    "drop (length ''S'') (spelling ''S'' y n p) = show_nat n @ y @ show_nat p" for y
    by (simp_all add: spelling_def)
  show "canonical_trace (spelling pre sep n p) = show_label ''SW'' n p" if "pre \<in> set switch_prefixes"
    by (rule read_switch [OF that sep, of n p]) (auto simp only: canonical_trace_def normalise l)
  show "canonical_trace (spelling pre sep n p) = show_label ''H'' n p" if "pre \<in> set host_prefixes"
    by (rule read_host [OF that sep, of n p]) (auto simp only: canonical_trace_def normalise)
qed

interpretation link_labels: host_port_normaliser canonical_link
proof
  fix pre sep :: string and n p
  assume sep: "sep \<in> set separators"
  show "canonical_link (spelling pre sep n p) = show_label ''SW'' n p" if "pre \<in> set switch_prefixes"
    by (rule read_switch [OF that sep, of n p]) (auto simp only: canonical_link_def normalise)
  show "canonical_link (spelling pre sep n p) = show_label ''H'' n p" if "pre \<in> set host_prefixes"
    by (rule read_host [OF that sep, of n p]) (auto simp only: canonical_link_def normalise)
qed

interpretation ingress_labels: port_normaliser canonical_ingress
proof
  fix pre sep :: string and n p
  assume sep: "sep \<in> set separators"
  show "canonical_ingress (spelling pre sep n p) = show_label ''SW'' n p" if "pre \<in> set switch_prefixes"
    by (rule read_switch [OF that sep, of n p]) (auto simp only: canonical_ingress_def normalise)
qed

lemma include_spelling:
  assumes "pre \<in> set switch_prefixes" and "sep \<in> set separators"
  shows "parse_include_label (spelling pre sep n p) = Some (n, p)"
proof -
  obtain c r where c: "show_nat p = c # r" by (cases "show_nat p") simp_all
  from show_nat_head [OF c] have np: "\<not> startswith (show_nat p) ''P''" by (auto simp: c dest: digit_not_special)
  have "split_on CHR ''-'' (show_nat n @ ''-P'' @ show_nat p) = [show_nat n, ''P'' @ show_nat p]"
    by (simp add: split_on_append split_on_none digits_no_dash)
  moreover have "split_on CHR ''-'' (show_nat n @ ''-'' @ show_nat p) = [show_nat n, show_nat p]"
    by (simp add: split_on_append split_on_none digits_no_dash)
  ultimately show ?thesis using np
    by (rule_tac read_switch [OF assms, of n p])
      (auto simp: parse_include_label_def Let_def spelling_facts [simplified] isdigit_def split: if_splits)
qed

text \<open>All scripts read every spelling of a switch port - prefix \<open>SW\<close> or \<open>S\<close>, in any case, with or without
  a \<open>P\<close> - as the same port, and print it in the form of the labels they build; so do the three that
  know hosts for host ports, whereas the ingress and queue-length scripts do not.
\<close>

theorem scripts_agree_on_labels:
  assumes "pre \<in> set switch_prefixes" and "hpre \<in> set host_prefixes" and "sep \<in> set separators" and "n \<in> switches"
  shows "canonical_pfc (spelling pre sep n p) = build_port_label n p switches \<and>
    canonical_trace (spelling pre sep n p) = build_port_label n p switches \<and>
    canonical_link (spelling pre sep n p) = build_port_label n p switches \<and>
    canonical_ingress (spelling pre sep n p) = build_port_label n p switches \<and>
    parse_include_label (spelling pre sep n p) = Some (n, p) \<and>
    canonical_pfc (spelling hpre sep n p) = build_port_label n p {} \<and>
    canonical_trace (spelling hpre sep n p) = build_port_label n p {} \<and>
    canonical_link (spelling hpre sep n p) = build_port_label n p {} \<and>
    canonical_ingress (spelling hpre sep n p) = upper (spelling hpre sep n p) \<and>
    parse_include_label (spelling hpre sep n p) = None"
proof -
  note sw = pfc_labels.switch_spelling [OF assms(1,3)] trace_labels.switch_spelling [OF assms(1,3)]
    link_labels.switch_spelling [OF assms(1,3)] ingress_labels.switch_spelling [OF assms(1,3)] include_spelling [OF assms(1,3)]
  note ho = pfc_labels.host_spelling [OF assms(2,3)] trace_labels.host_spelling [OF assms(2,3)] link_labels.host_spelling [OF assms(2,3)]
  obtain y where y: "upper (strip (spelling hpre sep n p)) = spelling ''H'' y n p" by (rule read_host [OF assms(2,3)])
  have u: "strip (spelling hpre sep n p) = spelling hpre sep n p"
    using upper_prefixes(4) [of hpre] assms(2) by (simp add: strip_spelling)
  have "canonical_ingress (spelling hpre sep n p) = upper (spelling hpre sep n p)"
    using y [unfolded u] by (simp only: canonical_ingress_def u normalise)
  moreover have "parse_include_label (spelling hpre sep n p) = None"
    using y by (simp only: parse_include_label_def normalise)
  ultimately show ?thesis using assms(4) by (simp add: build_port_label_def sw ho)
qed

theorem scripts_agree_on_labels_witness:
  "canonical_pfc (spelling ''s'' ''-p'' 6 1) = build_port_label 6 1 {6} \<and>
   canonical_ingress (spelling ''h'' ''-p'' 6 1) = upper (spelling ''h'' ''-p'' 6 1)"
  using scripts_agree_on_labels [of "''s''" "''h''" "''-p''" 6 "{6}" 1]
  by (simp add: switch_prefixes_def host_prefixes_def separators_def)

end
