(* ===== verification/Topo_File.thy ===== *)
theory Topo_File
  imports Port_Labels
begin

text \<open>
  The readers of topology files in \<open>analyze/scripts\<close>: the set of switches, the map of links with the
  port numbers the simulator gives (from 1, in the order of the file), and the names of nodes.  A file is
  its list of lines; \<open>None\<close> is a file that cannot be opened.
\<close>

section \<open>Lines\<close>

text \<open>\<open>plot_pfc\<close>, \<open>plot_trace\<close> and \<open>plot_ingress_qlen\<close> look for the \<open>#\<close> before white space is removed.\<close>

definition data_lines :: "string list \<Rightarrow> string list" where
  "data_lines ls = map strip (filter (\<lambda>l. strip l \<noteq> [] \<and> \<not> startswith l ''#'') ls)"

definition node_ids :: "string \<Rightarrow> int list res" where
  "node_ids l = map_res py_int (split_ws l)"

section \<open>Switches\<close>

definition trace_switches :: "string list option \<Rightarrow> int list" where
  "trace_switches file =
     (case file of None \<Rightarrow> []
      | Some ls \<Rightarrow> let lines = data_lines ls in
          if length lines < 2 then [] else case node_ids (lines ! 1) of Inl _ \<Rightarrow> [] | Inr ids \<Rightarrow> remdups ids)"

text \<open>\<open>plot_link_util.parse_switch_nodes\<close> raises instead, and removes the white space first.\<close>

definition parse_switch_nodes :: "string list \<Rightarrow> int list res" where
  "parse_switch_nodes ls =
     (let lines = filter (\<lambda>l. strip l \<noteq> [] \<and> \<not> startswith (strip l) ''#'') ls in
      if length lines < 2 then Inl ValueError
      else case node_ids (lines ! 1) of Inl _ \<Rightarrow> Inl ValueError | Inr ids \<Rightarrow> Inr (remdups ids))"

section \<open>Links\<close>

type_synonym node_port = "int \<times> nat"

record wiring =
  next_port :: "(int, nat) dict"
  links :: "(node_port, node_port) dict"

definition port_after :: "wiring \<Rightarrow> int \<Rightarrow> nat" where
  "port_after w n = (case map_of (next_port w) n of None \<Rightarrow> 1 | Some p \<Rightarrow> p)"

definition bump_port :: "int \<Rightarrow> wiring \<Rightarrow> wiring" where
  "bump_port n w = w\<lparr>next_port := dict_set n (Suc (port_after w n)) (next_port w)\<rparr>"

definition add_link :: "int \<Rightarrow> int \<Rightarrow> wiring \<Rightarrow> wiring" where
  "add_link u v w =
     (let u_port = port_after w u; v_port = port_after w v;
          w = w\<lparr>links := dict_set (v, v_port) (u, u_port) (dict_set (u, u_port) (v, v_port) (links w))\<rparr>
      in bump_port v (bump_port u w))"

text \<open>A line that does not give two numbers adds nothing.\<close>

definition link_of :: "string \<Rightarrow> (int \<times> int) option" where
  "link_of l =
     (case split_ws l of
        a # b # _ \<Rightarrow> (case (py_int a, py_int b) of (Inr u, Inr v) \<Rightarrow> Some (u, v) | _ \<Rightarrow> None)
      | _ \<Rightarrow> None)"

definition wire_line :: "string \<Rightarrow> wiring \<Rightarrow> wiring" where
  "wire_line l w = (case link_of l of None \<Rightarrow> w | Some (u, v) \<Rightarrow> add_link u v w)"

definition no_wiring :: wiring where
  "no_wiring = \<lparr>next_port = [], links = []\<rparr>"

definition wire :: "string list \<Rightarrow> wiring" where
  "wire ls = fold wire_line ls no_wiring"

text \<open>\<open>plot_pfc.parse_topology\<close>: an error leaves what was read before it.\<close>

definition parse_topology :: "string list option \<Rightarrow> int list \<times> (node_port, node_port) dict" where
  "parse_topology file =
     (case file of None \<Rightarrow> ([], [])
      | Some ls \<Rightarrow> let lines = data_lines ls in
          if length lines < 2 then ([], [])
          else case node_ids (lines ! 1) of
              Inl _ \<Rightarrow> ([], [])
            | Inr ids \<Rightarrow> (remdups ids, links (wire (drop 2 lines))))"

section \<open>Names\<close>

definition node_name :: "int list \<Rightarrow> nat \<Rightarrow> nat \<times> string" where
  "node_name switches i = (i, (if int i \<in> set switches then ''SW'' else ''H'') @ show_nat i)"

definition load_topology :: "string list option \<Rightarrow> (nat, string) dict" where
  "load_topology file =
     (case file of None \<Rightarrow> []
      | Some ls \<Rightarrow> let lines = data_lines ls in
          if length lines < 2 then []
          else case bind_res (py_nth (split_ws (lines ! 0)) 0) py_int of
              Inl _ \<Rightarrow> []
            | Inr node_num \<Rightarrow> (case node_ids (lines ! 1) of
                Inl _ \<Rightarrow> []
              | Inr ids \<Rightarrow> map (node_name ids) [0..<nat node_num]))"

section \<open>The wiring is symmetric and numbers the ports\<close>

definition wiring_ok :: "wiring \<Rightarrow> bool" where
  "wiring_ok w \<longleftrightarrow>
     (\<forall>a b. map_of (links w) a = Some b \<longrightarrow> map_of (links w) b = Some a \<and> 0 < snd a \<and> snd a < port_after w (fst a))"

lemma port_after_bump [simp]:
  "port_after (bump_port n w) m = (if m = n then Suc (port_after w n) else port_after w m)"
  by (simp add: port_after_def bump_port_def)

lemma links_bump [simp]: "links (bump_port n w) = links w"
  by (simp add: bump_port_def)

lemma port_after_links [simp]: "port_after (w\<lparr>links := l\<rparr>) n = port_after w n"
  by (simp add: port_after_def)

lemma links_add_link:
  "map_of (links (add_link u v w)) =
   (map_of (links w))((u, port_after w u) \<mapsto> (v, port_after w v), (v, port_after w v) \<mapsto> (u, port_after w u))"
  by (simp add: add_link_def Let_def)

lemma port_after_add_link:
  "port_after (add_link u v w) n = port_after w n + (if n = u then 1 else 0) + (if n = v then 1 else 0)"
  by (simp add: add_link_def Let_def)

lemma port_after_pos_add: "0 < port_after w n \<Longrightarrow> 0 < port_after (add_link u v w) n"
  by (simp add: port_after_add_link)

definition ports_ok :: "wiring \<Rightarrow> bool" where
  "ports_ok w \<longleftrightarrow> wiring_ok w \<and> (\<forall>n. 0 < port_after w n)"

lemma ports_ok_add_link:
  assumes ok: "ports_ok w"
  shows "ports_ok (add_link u v w)"
proof -
  let ?a = "(u, port_after w u)" and ?b = "(v, port_after w v)" and ?w = "add_link u v w"
  have pos: "0 < port_after w n" for n using ok by (simp add: ports_ok_def)
  have old: "map_of (links w) b = Some a" "0 < snd a" "snd a < port_after w (fst a)" if "map_of (links w) a = Some b" for a b
    using ok that unfolding ports_ok_def wiring_ok_def by blast+
  have fresh: "map_of (links w) (n, port_after w n) = None" for n
    using old(3) [of "(n, port_after w n)"] by (cases "map_of (links w) (n, port_after w n)") auto
  have val: "b \<noteq> (n, port_after w n)" if "map_of (links w) a = Some b" for a b n
    using old(1) [OF that] fresh by auto
  have "wiring_ok ?w" unfolding wiring_ok_def
  proof (intro allI impI)
    fix a b assume h: "map_of (links ?w) a = Some b"
    consider "a = ?b" "b = ?a" | "a = ?a" "b = ?b" | "map_of (links w) a = Some b" "a \<noteq> ?a" "a \<noteq> ?b"
      using h unfolding links_add_link by (cases "a = ?b"; cases "a = ?a") simp_all
    then show "map_of (links ?w) b = Some a \<and> 0 < snd a \<and> snd a < port_after ?w (fst a)"
    proof cases
      case 3
      have "map_of (links ?w) b = Some a"
        unfolding links_add_link using old(1) [OF 3(1)] val [OF 3(1)] by simp
      then show ?thesis using old(2,3) [OF 3(1)] by (simp add: port_after_add_link)
    qed (auto simp: links_add_link port_after_add_link pos)
  qed
  then show ?thesis using pos by (simp add: ports_ok_def port_after_pos_add)
qed

lemma ports_ok_wire: "ports_ok (wire ls)"
proof (induction ls rule: rev_induct)
  case Nil
  show ?case by (simp add: wire_def no_wiring_def ports_ok_def wiring_ok_def port_after_def)
next
  case (snoc l ls)
  then show ?case by (simp add: wire_def wire_line_def ports_ok_add_link split: option.split prod.split)
qed

text \<open>How many links of the list end at a node.\<close>

definition degree :: "int \<Rightarrow> (int \<times> int) list \<Rightarrow> nat" where
  "degree n ls = length (filter (\<lambda>(u, v). u = n \<or> v = n) ls)"

definition wire_links :: "(int \<times> int) list \<Rightarrow> wiring" where
  "wire_links ls = fold (\<lambda>(u, v). add_link u v) ls no_wiring"

lemma wire_eq_links: "wire ls = wire_links (List.map_filter link_of ls)"
proof -
  have "fold wire_line ls w = fold (\<lambda>(u, v). add_link u v) (List.map_filter link_of ls) w" for w
    by (induction ls arbitrary: w) (auto simp: wire_line_def List.map_filter_def split: option.splits)
  then show ?thesis by (simp add: wire_def wire_links_def)
qed

lemma wire_links_ports:
  "list_all (\<lambda>(u, v). u \<noteq> v) ls \<Longrightarrow>
   port_after (wire_links ls) n = Suc (degree n ls) \<and>
   (map_of (links (wire_links ls)) (n, p) \<noteq> None \<longleftrightarrow> 1 \<le> p \<and> p \<le> degree n ls)"
proof (induction ls arbitrary: n p rule: rev_induct)
  case Nil
  show ?case by (simp add: wire_links_def no_wiring_def port_after_def degree_def)
next
  case (snoc l ls)
  obtain u v where l: "l = (u, v)" by (cases l)
  have ne: "u \<noteq> v" and all: "list_all (\<lambda>(u, v). u \<noteq> v) ls" using snoc.prems l by auto
  note IH = snoc.IH [OF all]
  have w: "wire_links (ls @ [l]) = add_link u v (wire_links ls)" by (simp add: wire_links_def l)
  have d: "degree n (ls @ [l]) = degree n ls + (if n = u then 1 else 0) + (if n = v then 1 else 0)"
    using ne by (simp add: degree_def l)
  show ?case
    unfolding w d port_after_add_link links_add_link using IH [of n p] IH [of u] IH [of v] ne
    by (auto simp: le_Suc_eq)
qed

section \<open>Properties\<close>

text \<open>C9. Whatever the topology file holds, the map of links is symmetric: a port leads to another exactly when
  that one leads back (so the peer whose ingress queue is shown for a PFC event is the port's real peer).\<close>

theorem link_map_symmetric:
  "(map_of (snd (parse_topology file)) a = Some b) = (map_of (snd (parse_topology file)) b = Some a)"
proof -
  have "(map_of (links (wire ls)) a = Some b) = (map_of (links (wire ls)) b = Some a)" for ls
    using ports_ok_wire [of ls] unfolding ports_ok_def wiring_ok_def by blast
  then show ?thesis
    by (auto simp: parse_topology_def Let_def split: option.splits sum.splits)
qed

text \<open>The ports of a node are numbered from 1, without gaps, up to the number of link lines that name it, as
  the simulator numbers them; lines that are not links take no number.\<close>

theorem ports_numbered_in_order:
  assumes "data_lines ls = first # switches # rest" and "node_ids switches = Inr ids"
    and "list_all (\<lambda>(u, v). u \<noteq> v) (List.map_filter link_of rest)"
  shows "(map_of (snd (parse_topology (Some ls))) (n, p) \<noteq> None) = (1 \<le> p \<and> p \<le> degree n (List.map_filter link_of rest))"
  using wire_links_ports [OF assms(3), of n p] assms(1,2) by (simp add: parse_topology_def wire_eq_links)

lemma ports_numbered_in_order_witness:
  "map_of (snd (parse_topology (Some [''4 1 3'', ''2'', ''# links'', ''0 2 100Gbps'', ''link x'', '' 1  2'', ''3 2 1'']))) (2, 3) \<noteq> None"
  using ports_numbered_in_order [where ls = "[''4 1 3'', ''2'', ''# links'', ''0 2 100Gbps'', ''link x'', '' 1  2'', ''3 2 1'']"
      and first = "''4 1 3''" and switches = "''2''" and rest = "[''0 2 100Gbps'', ''link x'', ''1  2'', ''3 2 1'']"
      and ids = "[2]" and n = 2 and p = 3]
  by code_simp

end
