(* ===== verification/Qlen_Monitor.thy ===== *)
theory Qlen_Monitor
  imports Py_Strings Py_Float
begin

text \<open>
  \<open>analyze/scripts/plot_qlen.py\<close>: the reader of the queue monitor's file.  Each dump is a cumulative histogram per
  port; the reader turns neighbouring dumps into averages per window.  Lines are without their newline; the
  rounding of floats is \<open>fl\<close> (counts are taken to be below the overflow of \<open>float\<close>).
\<close>

section \<open>One dump of one port\<close>

type_synonym key = "int \<times> int"

record qlen_state =
  times_ns :: "int list"
  qlen :: "(key, rat list) dict"
  prev_counts :: "(key, int list) dict"

definition weighted :: "int list \<Rightarrow> int" where
  "weighted cs = sum_list (map2 (\<lambda>i c. int i * c) [0..<length cs] cs)"

text \<open>\<open>sum(i * c) / float(total)\<close>, or 0 without samples.\<close>

definition average :: "(rat \<Rightarrow> rat) \<Rightarrow> int list \<Rightarrow> rat" where
  "average fl cs = (if 0 < sum_list cs then fl (fl (of_int (weighted cs)) / fl (of_int (sum_list cs))) else 0)"

fun window_diffs :: "int list \<Rightarrow> int list \<Rightarrow> int list" where
  "window_diffs [] prev = []"
| "window_diffs (c # cs) [] = max c 0 # window_diffs cs []"
| "window_diffs (c # cs) (p # prev) = max (c - p) 0 # window_diffs cs prev"

definition add_counts :: "(rat \<Rightarrow> rat) \<Rightarrow> bool \<Rightarrow> key \<Rightarrow> int list \<Rightarrow> qlen_state \<Rightarrow> qlen_state" where
  "add_counts fl use_instantaneous key counts s =
     (let avg_kb = (if use_instantaneous then
            (case map_of (prev_counts s) key of
               Some prev \<Rightarrow> average fl (window_diffs counts prev)
             | None \<Rightarrow> average fl counts)
          else average fl counts);
          s = (if use_instantaneous then s\<lparr>prev_counts := dict_set key counts (prev_counts s)\<rparr> else s);
          series = (case map_of (qlen s) key of None \<Rightarrow> [] | Some xs \<Rightarrow> xs)
      in s\<lparr>qlen := dict_set key (series @ [fl (avg_kb * 1000)]) (qlen s)\<rparr>)"

section \<open>The file\<close>

text \<open>A line with fewer than three words is ignored.\<close>

definition entry_of :: "string \<Rightarrow> (key \<times> int list) option res" where
  "entry_of l =
     (case split_ws (strip l) of
        a # b # c # cs \<Rightarrow>
          bind_res (py_int a) (\<lambda>sw. bind_res (py_int b) (\<lambda>port. bind_res (map_res py_int (c # cs)) (\<lambda>counts.
            Inr (Some ((sw, port), counts)))))
      | _ \<Rightarrow> Inr None)"

definition time_of :: "string \<Rightarrow> int res" where
  "time_of line = bind_res (py_nth (split_ws line) 1) py_int"

text \<open>The outer loop, before the first \<open>time:\<close> and at each of them, and the inner loop over the lines of a dump,
  which looks at lines as they stand.\<close>

function outer_loop :: "(rat \<Rightarrow> rat) \<Rightarrow> bool \<Rightarrow> qlen_state \<Rightarrow> string list \<Rightarrow> qlen_state res"
  and inner_loop :: "(rat \<Rightarrow> rat) \<Rightarrow> bool \<Rightarrow> qlen_state \<Rightarrow> string list \<Rightarrow> qlen_state res" where
  "outer_loop fl ui s [] = Inr s"
| "outer_loop fl ui s (l # ls) =
     (if startswith (strip l) ''time:'' then
        bind_res (time_of (strip l)) (\<lambda>t. inner_loop fl ui (s\<lparr>times_ns := times_ns s @ [t]\<rparr>) ls)
      else outer_loop fl ui s ls)"
| "inner_loop fl ui s [] = Inr s"
| "inner_loop fl ui s (l # ls) =
     (if startswith l ''time:'' then outer_loop fl ui s (l # ls)
      else bind_res (entry_of l) (\<lambda>e. inner_loop fl ui
             (case e of None \<Rightarrow> s | Some (key, counts) \<Rightarrow> add_counts fl ui key counts s) ls))"
  by pat_completeness auto
termination
  by (relation "measure (\<lambda>x. case x of Inl (_, _, _, ls) \<Rightarrow> 2 * length ls | Inr (_, _, _, ls) \<Rightarrow> 2 * length ls + 1)") auto

definition parse_qlen :: "(rat \<Rightarrow> rat) \<Rightarrow> bool \<Rightarrow> string list \<Rightarrow> (int list \<times> (key, rat list) dict) res" where
  "parse_qlen fl use_instantaneous ls =
     bind_res (outer_loop fl use_instantaneous \<lparr>times_ns = [], qlen = [], prev_counts = []\<rparr> ls)
       (\<lambda>s. Inr (times_ns s, qlen s))"

section \<open>What is plotted\<close>

definition max_ports :: nat where
  "max_ports = 10"

text \<open>The keys kept: the included pairs that were understood; without any, at most ten.\<close>

definition plotted_keys :: "key list \<Rightarrow> key list \<Rightarrow> key list" where
  "plotted_keys sorted_keys include_pairs =
     (if include_pairs \<noteq> [] then filter (\<lambda>k. k \<in> set include_pairs) sorted_keys
      else if max_ports < length sorted_keys then take max_ports sorted_keys else sorted_keys)"

definition plotted_series :: "(rat \<Rightarrow> rat) \<Rightarrow> int list \<Rightarrow> rat list \<Rightarrow> (rat \<times> rat) list" where
  "plotted_series fl ts series = zip (map (\<lambda>t. fl (of_int t / 1000000)) ts) (map (\<lambda>x. fl (x / 1000)) series)"

section \<open>Windows add up to the histogram\<close>

definition series_of :: "qlen_state \<Rightarrow> key \<Rightarrow> rat list" where
  "series_of s k = (case map_of (qlen s) k of None \<Rightarrow> [] | Some xs \<Rightarrow> xs)"

text \<open>The histograms of a port, in the order of the file, once a first \<open>time:\<close> has been seen.\<close>

definition entries_for :: "key \<Rightarrow> string list \<Rightarrow> int list list" where
  "entries_for k ls = List.map_filter (\<lambda>l. if startswith l ''time:'' then None else
     case entry_of l of Inr (Some (k', counts)) \<Rightarrow> if k' = k then Some counts else None | _ \<Rightarrow> None) ls"

definition histograms :: "key \<Rightarrow> string list \<Rightarrow> int list list" where
  "histograms k ls = entries_for k (tl (dropWhile (\<lambda>l. \<not> startswith (strip l) ''time:'') ls))"

text \<open>The samples of each window.\<close>

fun window_samples :: "int list \<Rightarrow> int list list \<Rightarrow> int list" where
  "window_samples prev [] = []"
| "window_samples prev (h # hs) = sum_list (window_diffs h prev) # window_samples h hs"

definition dot :: "rat list \<Rightarrow> int list \<Rightarrow> rat" where
  "dot xs ns = sum_list (map2 (\<lambda>x n. x * of_int n) xs ns)"

lemma dot_simps [simp]: "dot [] ns = 0" "dot (x # xs) (n # ns) = x * of_int n + dot xs ns"
  by (simp_all add: dot_def)

text \<open>A histogram that only grew.\<close>

definition grows :: "int list \<Rightarrow> int list \<Rightarrow> bool" where
  "grows prev h \<longleftrightarrow> length prev \<le> length h \<and> (\<forall>i < length h. (if i < length prev then prev ! i else 0) \<le> h ! i)"

definition all_grow :: "int list list \<Rightarrow> bool" where
  "all_grow hs = list_all (\<lambda>(a, b). grows a b) (zip ([] # hs) hs)"

lemma grows_Nil: "grows [] h \<longleftrightarrow> list_all (\<lambda>c. 0 \<le> c) h"
  by (simp add: grows_def list_all_length)

lemma grows_Cons: "grows (p # prev) (c # h) \<longleftrightarrow> p \<le> c \<and> grows prev h"
  by (auto simp: grows_def All_less_Suc2)

fun weigh :: "int \<Rightarrow> int list \<Rightarrow> int" where
  "weigh i [] = 0"
| "weigh i (c # cs) = i * c + weigh (i + 1) cs"

lemma weighted_eq_weigh: "weighted cs = weigh 0 cs"
proof -
  have "sum_list (map2 (\<lambda>i c. int i * c) [k..<k + length cs] cs) = weigh (int k) cs" for k
  proof (induction cs arbitrary: k)
    case (Cons c cs)
    have "[k..<k + length (c # cs)] = k # [Suc k..<Suc k + length cs]" by (simp add: upt_rec [of k] Suc_le_eq)
    then show ?case using Cons.IH [of "Suc k"] by (simp add: add.commute)
  qed simp
  from this [of 0] show ?thesis by (simp add: weighted_def)
qed

lemma window_diffs_Nil: "grows [] h \<Longrightarrow> window_diffs h [] = h"
  by (induction h) (simp_all add: grows_Nil)

lemma weigh_diffs: "grows prev h \<Longrightarrow> weigh i (window_diffs h prev) = weigh i h - weigh i prev"
proof (induction h prev arbitrary: i rule: window_diffs.induct)
  case (2 c cs)
  then show ?case using window_diffs_Nil [of "c # cs"] by simp
next
  case (3 c cs p prev)
  then show ?case by (simp add: grows_Cons algebra_simps)
qed (simp add: grows_def)

lemma weigh_no_samples: "sum_list cs \<le> 0 \<Longrightarrow> list_all (\<lambda>c. 0 \<le> c) cs \<Longrightarrow> weigh i cs = 0 \<and> sum_list cs = 0"
proof (induction cs arbitrary: i)
  case (Cons c cs)
  have "0 \<le> sum_list cs" using Cons.prems(2) by (intro sum_list_nonneg) (simp add: list_all_iff)
  then show ?case using Cons.prems Cons.IH [of "i + 1"] by simp
qed simp

lemma window_diffs_nonneg: "list_all (\<lambda>c. 0 \<le> c) (window_diffs h prev)"
  by (induction h prev rule: window_diffs.induct) simp_all

lemma average_times_samples:
  "list_all (\<lambda>c. 0 \<le> c) cs \<Longrightarrow> average exact cs * of_int (sum_list cs) = of_int (weighted cs)"
  using weigh_no_samples [of cs 0] by (simp add: average_def exact_def weighted_eq_weigh)


fun window_averages :: "(rat \<Rightarrow> rat) \<Rightarrow> int list option \<Rightarrow> int list list \<Rightarrow> rat list" where
  "window_averages fl prev [] = []"
| "window_averages fl prev (h # hs) =
     fl (average fl (case prev of None \<Rightarrow> h | Some p \<Rightarrow> window_diffs h p) * 1000) # window_averages fl (Some h) hs"

lemma dropWhile_stop: "\<not> P y \<Longrightarrow> dropWhile P (xs @ y # ys) = dropWhile P xs @ y # ys"
  by (induction xs) simp_all

lemma rstrip_after: "\<not> is_ws c \<Longrightarrow> rstrip (a @ c # r) = a @ c # rstrip r"
  by (simp add: rstrip_def dropWhile_stop)

lemma time_stripped:
  assumes "startswith l ''time:''"
  shows "startswith (strip l) ''time:''"
proof -
  have l: "l = ''time:'' @ r" if "r = drop (length ''time:'') l" for r
    using assms that append_take_drop_id [of "length ''time:''" l] by simp
  then obtain r where l: "l = ''time:'' @ r" by blast
  have "strip l = rstrip (''time'' @ CHR '':'' # r)" by (simp add: l strip_def is_ws_def code_def)
  also have "\<dots> = ''time'' @ CHR '':'' # rstrip r" by (rule rstrip_after) (simp add: is_ws_def code_def)
  finally show ?thesis by simp
qed

lemma series_add_counts:
  "series_of (add_counts fl True k' counts s) k =
   series_of s k @ (if k' = k then window_averages fl (map_of (prev_counts s) k) [counts] else [])"
  "map_of (prev_counts (add_counts fl True k' counts s)) k = (if k' = k then Some counts else map_of (prev_counts s) k)"
  by (auto simp: series_of_def add_counts_def Let_def split: option.splits)

lemma entries_for_Nil [simp]: "entries_for k [] = []"
  by (simp add: entries_for_def List.map_filter_def)

lemma entries_for_time [simp]: "startswith l ''time:'' \<Longrightarrow> entries_for k (l # ls) = entries_for k ls"
  by (simp add: entries_for_def List.map_filter_def)

lemma entries_for_data:
  "\<not> startswith l ''time:'' \<Longrightarrow> entry_of l = Inr e \<Longrightarrow>
   entries_for k (l # ls) = (case e of Some (k', counts) \<Rightarrow> if k' = k then [counts] else [] | None \<Rightarrow> []) @ entries_for k ls"
  by (auto simp: entries_for_def List.map_filter_def split: option.splits)

lemma histograms_Nil [simp]: "histograms k [] = []"
  by (simp add: histograms_def)

lemma histograms_Cons:
  "histograms k (l # ls) = (if startswith (strip l) ''time:'' then entries_for k ls else histograms k ls)"
  by (simp add: histograms_def)

lemma loops_series:
  "outer_loop fl ui s ls = Inr s' \<Longrightarrow> ui \<Longrightarrow>
     series_of s' k = series_of s k @ window_averages fl (map_of (prev_counts s) k) (histograms k ls)"
  "inner_loop fl ui s ls = Inr s' \<Longrightarrow> ui \<Longrightarrow>
     series_of s' k = series_of s k @ window_averages fl (map_of (prev_counts s) k) (entries_for k ls)"
proof (induction fl ui s ls and fl ui s ls arbitrary: s' and s' rule: outer_loop_inner_loop.induct)
  case (2 fl ui s l ls)
  show ?case
  proof (cases "startswith (strip l) ''time:''")
    case True
    with 2(3) obtain t where t: "time_of (strip l) = Inr t" "inner_loop fl ui (s\<lparr>times_ns := times_ns s @ [t]\<rparr>) ls = Inr s'"
      by (auto simp: bind_res_Inr_iff)
    from 2(1) [OF True t(2) 2(4)] show ?thesis using True by (simp add: histograms_Cons series_of_def)
  next
    case False
    with 2(3) have "outer_loop fl ui s ls = Inr s'" by simp
    from 2(2) [OF False this 2(4)] show ?thesis using False by (simp add: histograms_Cons)
  qed
next
  case (4 fl ui s l ls)
  show ?case
  proof (cases "startswith l ''time:''")
    case True
    with 4(3) have o: "outer_loop fl ui s (l # ls) = Inr s'" by simp
    from 4(1) [OF True o 4(4)] show ?thesis using True time_stripped [OF True] by (simp add: histograms_Cons)
  next
    case False
    with 4(3) obtain e where e: "entry_of l = Inr e"
      "inner_loop fl ui (case e of None \<Rightarrow> s | Some (key, counts) \<Rightarrow> add_counts fl ui key counts s) ls = Inr s'"
      by (auto simp: bind_res_Inr_iff)
    from 4(2) [OF False e(2) 4(4)] show ?thesis using False e(1) 4(4)
      by (auto simp: entries_for_data series_add_counts split: option.splits prod.splits)
  qed
qed simp_all

lemma length_averages [simp]: "length (window_averages fl prev hs) = length hs"
  by (induction hs arbitrary: prev) simp_all

lemma length_samples [simp]: "length (window_samples prev hs) = length hs"
  by (induction hs arbitrary: prev) simp_all

lemma averages_dot_samples:
  "list_all (\<lambda>(a, b). grows a b) (zip (p # hs) hs) \<Longrightarrow>
   dot (window_averages exact (Some p) hs) (window_samples p hs) = 1000 * of_int (weighted (last (p # hs)) - weighted p)"
proof (induction hs arbitrary: p)
  case Nil
  show ?case by simp
next
  case (Cons h hs)
  have g: "grows p h" and rest: "list_all (\<lambda>(a, b). grows a b) (zip (h # hs) hs)" using Cons.prems by simp_all
  have "average exact (window_diffs h p) * of_int (sum_list (window_diffs h p)) = of_int (weighted h - weighted p)"
    using average_times_samples [OF window_diffs_nonneg] weigh_diffs [OF g, of 0] by (simp add: weighted_eq_weigh)
  then have "average exact (window_diffs h p) * 1000 * of_int (sum_list (window_diffs h p)) = 1000 * of_int (weighted h - weighted p)"
    by (simp add: mult.assoc mult.left_commute)
  then show ?case using Cons.IH [OF rest] by (simp add: exact_def [of "_ * 1000"])
qed

section \<open>Property\<close>

text \<open>C10. No sample of the monitor is lost or counted twice: with exact arithmetic, when the histograms of a port
  only grow, there is one number per dump, and the numbers, each times the samples of its window, add up to
  1000 times the weighted sum of the last cumulative histogram (bins are kilobytes, the series is in bytes).
  So each number is the average of its window; the docstring of \<open>parse_qlen\<close> says that it is the maximum
  non-zero bin.\<close>

theorem window_averages_account_for_samples:
  assumes "parse_qlen exact True ls = Inr (ts, series)" and "histograms k ls \<noteq> []" and "all_grow (histograms k ls)"
  shows "map_of series k \<noteq> None \<and> length (the (map_of series k)) = length (histograms k ls) \<and>
         dot (the (map_of series k)) (window_samples [] (histograms k ls)) = 1000 * of_int (weighted (last (histograms k ls)))"
proof -
  let ?s0 = "\<lparr>times_ns = [], qlen = [], prev_counts = []\<rparr>" and ?hs = "histograms k ls"
  obtain s where s: "outer_loop exact True ?s0 ls = Inr s" "series = qlen s"
    using assms(1) by (auto simp: parse_qlen_def bind_res_Inr_iff)
  have ser: "series_of s k = window_averages exact None ?hs"
    using loops_series(1) [OF s(1), of k] by (simp add: series_of_def)
  obtain h hs where hs: "?hs = h # hs" using assms(2) by (cases ?hs) simp_all
  have g: "grows [] h" and rest: "list_all (\<lambda>(a, b). grows a b) (zip (h # hs) hs)"
    using assms(3) by (simp_all add: all_grow_def hs)
  have "average exact h * of_int (sum_list (window_diffs h [])) = of_int (weighted h)"
    using average_times_samples [of h] g window_diffs_Nil [OF g] by (simp add: grows_Nil)
  then have "average exact h * 1000 * of_int (sum_list (window_diffs h [])) = 1000 * of_int (weighted h)"
    by (simp add: mult.assoc mult.left_commute)
  then have "dot (window_averages exact None ?hs) (window_samples [] ?hs) = 1000 * of_int (weighted (last ?hs))"
    using averages_dot_samples [OF rest] by (simp add: hs exact_def [of "_ * 1000"])
  then show ?thesis using ser s(2) hs by (auto simp: series_of_def split: option.splits)
qed

lemma window_averages_account_for_samples_witness:
  "(\<exists>ts series. parse_qlen exact True [''time: 100'', ''6 1 0 1 1 1 1'', ''time: 200'', ''6 1 0 1 1 3 1''] = Inr (ts, series)
      \<and> map_of series (6, 1) = Some [2500, 3000]
      \<and> dot (the (map_of series (6, 1))) (window_samples []
            (histograms (6, 1) [''time: 100'', ''6 1 0 1 1 1 1'', ''time: 200'', ''6 1 0 1 1 3 1'']))
        = 1000 * of_int (weighted [0, 1, 1, 3, 1]))"
proof -
  let ?ls = "[''time: 100'', ''6 1 0 1 1 1 1'', ''time: 200'', ''6 1 0 1 1 3 1'']"
  have p: "parse_qlen exact True ?ls = Inr ([100, 200], [((6, 1), [2500, 3000])])" by code_simp
  have h: "histograms (6, 1) ?ls = [[0, 1, 1, 1, 1], [0, 1, 1, 3, 1]]" by code_simp
  have g: "all_grow (histograms (6, 1) ?ls)" unfolding h by code_simp
  have n: "histograms (6, 1) ?ls \<noteq> []" by (simp add: h)
  have "dot (the (map_of [((6::int, 1::int), [2500, 3000])] (6, 1))) (window_samples [] (histograms (6, 1) ?ls))
      = 1000 * of_int (weighted (last (histograms (6, 1) ?ls)))"
    using window_averages_account_for_samples [OF p n g] by blast
  then show ?thesis using p by (intro exI conjI) (assumption, simp, simp add: h)
qed

end
