(* ===== verification/Pause_Monitor.thy ===== *)
theory Pause_Monitor
  imports Port_Labels Py_Float
begin

text \<open>
  The readers of PFC and ingress-queue monitors in \<open>analyze/scripts\<close>, the pause rates of \<open>plot_pfc.py\<close>
  and \<open>plot_pfc_exp2.py\<close>, and the timeline of the PFC state.  \<open>numpy\<close> is a parameter: \<open>arange\<close> and
  \<open>histogram\<close>, with their documented behaviour as hypotheses.  The rounding of floats is \<open>fl\<close>.
\<close>

section \<open>Ingress queues\<close>

record ingress_row =
  in_time_ns :: int
  switch_id :: int
  in_port_id :: int
  ingress_bytes :: int
  egress_bytes :: int
  hdrm_bytes :: int
  in_paused :: int

text \<open>A line of either reader: nothing, a new time, or a row.\<close>

datatype monitor_line = Skip | Time int | Row ingress_row

definition skipped :: "string \<Rightarrow> bool" where
  "skipped line \<longleftrightarrow> line = [] \<or> startswith line ''#''"

definition row_of :: "int \<Rightarrow> string list \<Rightarrow> ingress_row res" where
  "row_of current_time w =
     bind_res (map_res py_int (take 6 w)) (\<lambda>f. Inr \<lparr>in_time_ns = current_time, switch_id = f ! 0, in_port_id = f ! 1,
       ingress_bytes = f ! 2, egress_bytes = f ! 3, hdrm_bytes = f ! 4, in_paused = f ! 5\<rparr>)"

definition monitor_line_of :: "int \<Rightarrow> string \<Rightarrow> monitor_line res" where
  "monitor_line_of current_time raw =
     (let line = strip raw in
      if skipped line then Inr Skip
      else if startswith line ''time:'' then
        bind_res (py_nth (split_on CHR '':'' line) 1) (\<lambda>w. bind_res (py_int (strip w)) (\<lambda>t. Inr (Time t)))
      else if 6 \<le> length (split_ws line) then bind_res (row_of current_time (split_ws line)) (\<lambda>r. Inr (Row r))
      else Inr Skip)"

text \<open>\<open>plot_ingress_qlen.parse_ingress_file\<close>: an error stops the script.\<close>

fun ingress_rows :: "int \<Rightarrow> string list \<Rightarrow> ingress_row list res" where
  "ingress_rows t [] = Inr []"
| "ingress_rows t (l # ls) =
     bind_res (monitor_line_of t l) (\<lambda>m. case m of
         Skip \<Rightarrow> ingress_rows t ls
       | Time t' \<Rightarrow> ingress_rows t' ls
       | Row r \<Rightarrow> bind_res (ingress_rows t ls) (\<lambda>rs. Inr (r # rs)))"

definition parse_ingress_file :: "string list \<Rightarrow> ingress_row list res" where
  "parse_ingress_file = ingress_rows 0"

text \<open>\<open>plot_pfc.load_ingress_data\<close>: the rows before an error stay, in microseconds and kilobytes.\<close>

record ingress_kb_row =
  ik_time_us :: rat
  ik_node :: int
  ik_port :: int
  ingress_kb :: rat
  egress_kb :: rat
  hdrm_kb :: rat
  ik_paused :: int

definition in_kb :: "(rat \<Rightarrow> rat) \<Rightarrow> ingress_row \<Rightarrow> ingress_kb_row" where
  "in_kb fl r = \<lparr>ik_time_us = fl (of_int (in_time_ns r) / 1000), ik_node = switch_id r, ik_port = in_port_id r,
     ingress_kb = fl (of_int (ingress_bytes r) / 1024), egress_kb = fl (of_int (egress_bytes r) / 1024),
     hdrm_kb = fl (of_int (hdrm_bytes r) / 1024), ik_paused = in_paused r\<rparr>"

fun ingress_kb_rows :: "(rat \<Rightarrow> rat) \<Rightarrow> int \<Rightarrow> string list \<Rightarrow> ingress_kb_row list" where
  "ingress_kb_rows fl t [] = []"
| "ingress_kb_rows fl t (l # ls) =
     (case monitor_line_of t l of
        Inl _ \<Rightarrow> []
      | Inr Skip \<Rightarrow> ingress_kb_rows fl t ls
      | Inr (Time t') \<Rightarrow> ingress_kb_rows fl t' ls
      | Inr (Row r) \<Rightarrow> in_kb fl r # ingress_kb_rows fl t ls)"

definition load_ingress_data :: "(rat \<Rightarrow> rat) \<Rightarrow> string list option \<Rightarrow> ingress_kb_row list" where
  "load_ingress_data fl file = (case file of None \<Rightarrow> [] | Some ls \<Rightarrow> ingress_kb_rows fl 0 ls)"

text \<open>On a file without errors the two readers agree.\<close>

lemma readers_agree: "parse_ingress_file ls = Inr rs \<Longrightarrow> load_ingress_data fl (Some ls) = map (in_kb fl) rs"
proof -
  have "ingress_rows t ls = Inr rs \<Longrightarrow> ingress_kb_rows fl t ls = map (in_kb fl) rs" for t
  proof (induction ls arbitrary: t rs)
    case (Cons l ls)
    then obtain m where "monitor_line_of t l = Inr m" by (auto simp: bind_res_Inr_iff)
    with Cons show ?case by (cases m) (auto simp: bind_res_Inr_iff)
  qed simp
  then show "parse_ingress_file ls = Inr rs \<Longrightarrow> ?thesis" by (simp add: parse_ingress_file_def load_ingress_data_def)
qed

section \<open>PFC frames\<close>

record pfc_event =
  ev_time_ns :: int
  ev_time_us :: rat
  ev_node :: int
  ev_port :: int
  ev_node_type :: int
  ev_type :: string
  type_code :: int

text \<open>The five numbers of a line; a line that does not have them is passed over.\<close>

definition pfc_fields :: "string \<Rightarrow> int list option" where
  "pfc_fields line =
     (let w = split_ws line in
      if length w < 5 then None else case map_res py_int (take 5 w) of Inl _ \<Rightarrow> None | Inr f \<Rightarrow> Some f)"

definition pfc_event_of :: "(rat \<Rightarrow> rat) \<Rightarrow> string \<Rightarrow> pfc_event option" where
  "pfc_event_of fl raw =
     (let line = strip raw in
      if skipped line then None
      else map_option (\<lambda>f. \<lparr>ev_time_ns = f ! 0, ev_time_us = fl (of_int (f ! 0) / 1000), ev_node = f ! 1, ev_port = f ! 3,
        ev_node_type = f ! 2, ev_type = (if f ! 4 = 1 then ''Pause'' else ''Resume''), type_code = f ! 4\<rparr>) (pfc_fields line))"

definition load_pfc_events :: "(rat \<Rightarrow> rat) \<Rightarrow> string list option \<Rightarrow> pfc_event list" where
  "load_pfc_events fl file = (case file of None \<Rightarrow> [] | Some ls \<Rightarrow> List.map_filter (pfc_event_of fl) ls)"

text \<open>\<open>plot_pfc_exp2.parse_pfc\<close> keeps the times of the pauses of each port.\<close>

definition add_pause :: "string \<Rightarrow> (int \<times> int, int list) dict \<Rightarrow> (int \<times> int, int list) dict" where
  "add_pause raw d =
     (let line = strip raw in
      if line = [] then d
      else case pfc_fields line of
          None \<Rightarrow> d
        | Some f \<Rightarrow> if f ! 4 = 1 then
              (let key = (f ! 1, f ! 3) in dict_set key ((case map_of d key of None \<Rightarrow> [] | Some ts \<Rightarrow> ts) @ [f ! 0]) d)
            else d)"

definition parse_pfc :: "string list \<Rightarrow> (int \<times> int, int list) dict" where
  "parse_pfc ls = fold add_pause ls []"

section \<open>The pause rate of \<open>plot_pfc_exp2\<close>\<close>

definition bin_size_ns :: int where
  "bin_size_ns = 100000"

definition TIME_WINDOW_NS :: int where
  "TIME_WINDOW_NS = 1000000"

type_synonym arange = "int \<Rightarrow> int \<Rightarrow> int \<Rightarrow> int list"
type_synonym histogram = "int list \<Rightarrow> int list \<Rightarrow> nat list"

definition window_rate :: "(rat \<Rightarrow> rat) \<Rightarrow> int list \<Rightarrow> int \<Rightarrow> int \<Rightarrow> int \<Rightarrow> rat" where
  "window_rate fl pfc_events time_start time_window bin_end =
     (let bin_start = max (bin_end - time_window) time_start;
          pause_count = length (filter (\<lambda>t. bin_start \<le> t \<and> t < bin_end) pfc_events);
          window_duration_s = fl (of_int time_window / 1000000000)
      in fl (fl (of_nat pause_count / window_duration_s) / 1000000))"

definition calculate_pause_rate ::
    "(rat \<Rightarrow> rat) \<Rightarrow> arange \<Rightarrow> int list \<Rightarrow> int \<Rightarrow> int \<Rightarrow> int \<Rightarrow> rat list \<times> rat list" where
  "calculate_pause_rate fl arange pfc_events time_start time_end time_window =
     (let time_bins = arange time_start (time_end + bin_size_ns) bin_size_ns
      in (map (\<lambda>b. fl (of_int b / 1000000)) (tl time_bins),
          map (window_rate fl pfc_events time_start time_window) (tl time_bins)))"

definition exp2_ports :: "(string \<times> int \<times> int) list" where
  "exp2_ports = [(''P1'', 23, 2), (''P2'', 22, 6), (''P3'', 26, 1), (''P4'', 26, 3), (''P5'', 24, 17), (''P6'', 24, 2), (''P7'', 18, 1)]"

text \<open>The part of \<open>main\<close> that fills \<open>port_data\<close>; \<open>None\<close> when no port has events.\<close>

definition exp2_port_data ::
    "(rat \<Rightarrow> rat) \<Rightarrow> arange \<Rightarrow> (int \<times> int, int list) dict \<Rightarrow> (string, rat list \<times> rat list) dict option" where
  "exp2_port_data fl arange pfc_events =
     (let found = List.map_filter (\<lambda>(name, key). map_option (Pair name) (map_of pfc_events key)) exp2_ports;
          all_times = concat (map snd found)
      in if all_times = [] then None
         else Some (map (\<lambda>(name, events). (name,
           calculate_pause_rate fl arange events (Min (set all_times)) (Max (set all_times)) TIME_WINDOW_NS)) found))"

section \<open>The pause rate of \<open>plot_pfc\<close>\<close>

definition pfc_bins :: "arange \<Rightarrow> int list \<Rightarrow> int list" where
  "pfc_bins arange ts = arange (Min (set ts)) (Max (set ts) + bin_size_ns) bin_size_ns"

text \<open>The rates of one label's pauses; \<open>ts\<close> are the times of all frames kept.  Nothing is drawn for a single
  point in time.\<close>

definition pause_rates :: "(rat \<Rightarrow> rat) \<Rightarrow> arange \<Rightarrow> histogram \<Rightarrow> int list \<Rightarrow> int list \<Rightarrow> rat list" where
  "pause_rates fl arange histogram ts pauses =
     (if Min (set ts) < Max (set ts) then
        map (\<lambda>c. fl (fl (of_nat c / fl (of_int TIME_WINDOW_NS / 1000000000)) / 1000000)) (histogram pauses (pfc_bins arange ts))
      else [])"

section \<open>The timeline of the PFC state\<close>

text \<open>Frames in the order of their times; the state before the first is 0.\<close>

fun pfc_timeline :: "int \<Rightarrow> pfc_event list \<Rightarrow> (rat \<times> int) list" where
  "pfc_timeline state [] = []"
| "pfc_timeline state (ev # evs) = (ev_time_us ev, state) # (ev_time_us ev, type_code ev) # pfc_timeline (type_code ev) evs"

text \<open>The two points of a frame are at the same time, and between frames the state does not change.\<close>

lemma pfc_timeline_steps:
  "i < length evs \<Longrightarrow>
   pfc_timeline s evs ! (2 * i) = (ev_time_us (evs ! i), if i = 0 then s else type_code (evs ! (i - 1))) \<and>
   pfc_timeline s evs ! (2 * i + 1) = (ev_time_us (evs ! i), type_code (evs ! i))"
proof (induction evs arbitrary: s i)
  case (Cons ev evs)
  then show ?case by (cases i) (auto simp: nth_Cons' split: if_splits)
qed simp

section \<open>What \<open>numpy\<close> documents\<close>

definition int_range :: arange where
  "int_range a b s = map (\<lambda>k. a + int k * s) [0..<nat ((b - a + s - 1) div s)]"

definition arange_spec :: "arange \<Rightarrow> bool" where
  "arange_spec f \<longleftrightarrow> (\<forall>a b s. 0 < s \<longrightarrow> f a b s = int_range a b s)"

fun bin_counts :: histogram where
  "bin_counts xs [a, b] = [length (filter (\<lambda>x. a \<le> x \<and> x \<le> b) xs)]"
| "bin_counts xs (a # b # c # es) = length (filter (\<lambda>x. a \<le> x \<and> x < b) xs) # bin_counts xs (b # c # es)"
| "bin_counts xs es = []"

text \<open>Every bin is half-open, but the last, which is closed.\<close>

definition histogram_spec :: "histogram \<Rightarrow> bool" where
  "histogram_spec h \<longleftrightarrow> (\<forall>xs es. 2 \<le> length es \<and> sorted es \<longrightarrow> h xs es = bin_counts xs es)"

lemma filter_adjacent:
  "a \<le> b \<Longrightarrow> b \<le> c \<Longrightarrow>
   length (filter (\<lambda>x. a \<le> x \<and> x < b) xs) + length (filter (\<lambda>x. b \<le> x \<and> x \<le> c) xs) =
   length (filter (\<lambda>x. a \<le> x \<and> x \<le> (c::int)) xs)"
  by (induction xs) auto

lemma bin_counts_total:
  "sorted (a # b # es) \<Longrightarrow>
   sum_list (bin_counts xs (a # b # es)) = length (filter (\<lambda>x. a \<le> x \<and> x \<le> last (b # es)) xs)"
proof (induction es arbitrary: a b)
  case (Cons c es)
  have "sum_list (bin_counts xs (b # c # es)) = length (filter (\<lambda>x. b \<le> x \<and> x \<le> last (c # es)) xs)"
    by (rule Cons.IH) (use Cons.prems in simp)
  moreover have "a \<le> b" "b \<le> last (c # es)" using Cons.prems last_in_set [of "c # es"] by auto
  ultimately show ?case using filter_adjacent [of a b "last (c # es)" xs] by simp
qed simp

text \<open>The edges over a span of time.\<close>

definition steps_over :: "int \<Rightarrow> int \<Rightarrow> nat" where
  "steps_over a b = nat ((b - a + bin_size_ns - 1) div bin_size_ns)"

lemma steps_over_bounds:
  assumes "a \<le> b"
  shows "b \<le> a + int (steps_over a b) * bin_size_ns" and "a + int (steps_over a b) * bin_size_ns < b + bin_size_ns"
    and "bin_size_ns dvd (b - a) \<longleftrightarrow> a + int (steps_over a b) * bin_size_ns = b"
proof -
  define q where "q = (b - a + 99999) div 100000"
  have q: "int (steps_over a b) * bin_size_ns = q * 100000"
    using assms by (simp add: steps_over_def bin_size_ns_def q_def pos_imp_zdiv_nonneg_iff)
  define r where "r = (b - a + 99999) mod 100000"
  have r: "b - a + 99999 = q * 100000 + r" "0 \<le> r" "r < 100000"
    by (simp_all add: q_def r_def)
  show "b \<le> a + int (steps_over a b) * bin_size_ns" and "a + int (steps_over a b) * bin_size_ns < b + bin_size_ns"
    unfolding q using r by (simp_all add: bin_size_ns_def)
  show "bin_size_ns dvd (b - a) \<longleftrightarrow> a + int (steps_over a b) * bin_size_ns = b"
  proof
    assume "bin_size_ns dvd (b - a)"
    then obtain k where "b - a = 100000 * k" by (auto simp: bin_size_ns_def dvd_def)
    with r have "q = k" by linarith
    with \<open>b - a = 100000 * k\<close> show "a + int (steps_over a b) * bin_size_ns = b" unfolding q by simp
  next
    assume "a + int (steps_over a b) * bin_size_ns = b"
    then have "b - a = int (steps_over a b) * bin_size_ns" by linarith
    then show "bin_size_ns dvd (b - a)" by simp
  qed
qed

lemma bin_size_pos: "0 < bin_size_ns"
  by (simp add: bin_size_ns_def)

definition edge :: "int \<Rightarrow> nat \<Rightarrow> int" where
  "edge a k = a + int k * bin_size_ns"

lemma range_edges:
  assumes "a \<le> b"
  shows "int_range a (b + bin_size_ns) bin_size_ns = map (edge a) [0..<Suc (steps_over a b)]"
proof -
  have "(b + bin_size_ns - a + bin_size_ns - 1) div bin_size_ns = (b - a + bin_size_ns - 1) div bin_size_ns + 1"
    unfolding bin_size_ns_def by simp
  moreover have "0 \<le> (b - a + bin_size_ns - 1) div bin_size_ns"
    using assms by (simp add: bin_size_ns_def pos_imp_zdiv_nonneg_iff)
  ultimately show ?thesis by (simp add: int_range_def steps_over_def edge_def nat_add_distrib)
qed


lemma sorted_edges: "sorted (map (edge a) [0..<n])"
  by (simp add: sorted_iff_nth_mono edge_def bin_size_ns_def)

lemma tl_edges: "tl (map (edge a) [0..<Suc n]) = map (\<lambda>k. edge a (Suc k)) [0..<n]"
  by (simp add: map_upt_Suc del: upt_Suc)

lemma histogram_over_span:
  assumes "a < b"
  shows "sum_list (bin_counts xs (int_range a (b + bin_size_ns) bin_size_ns)) =
         length (filter (\<lambda>x. a \<le> x \<and> x \<le> edge a (steps_over a b)) xs)"
    and "2 \<le> length (int_range a (b + bin_size_ns) bin_size_ns)" and "sorted (int_range a (b + bin_size_ns) bin_size_ns)"
proof -
  have r: "int_range a (b + bin_size_ns) bin_size_ns = map (edge a) [0..<Suc (steps_over a b)]"
    using assms by (intro range_edges) simp
  have "b \<le> edge a (steps_over a b)" using steps_over_bounds(1) [of a b] assms by (simp add: edge_def)
  then have "steps_over a b \<noteq> 0" using assms by (intro notI) (simp add: edge_def)
  then obtain n where n: "steps_over a b = Suc n" by (cases "steps_over a b") simp_all
  show s: "sorted (int_range a (b + bin_size_ns) bin_size_ns)" unfolding r by (rule sorted_edges)
  show "2 \<le> length (int_range a (b + bin_size_ns) bin_size_ns)" unfolding r n by simp
  obtain c es where "map (edge a) [Suc 0..<Suc (Suc n)] = c # es" by (cases "map (edge a) [Suc 0..<Suc (Suc n)]") simp_all
  then have ce: "map (edge a) [0..<Suc (steps_over a b)] = edge a 0 # c # es"
    unfolding n by (simp add: upt_rec [of 0] del: upt_Suc)
  have "last (c # es) = edge a (steps_over a b)" using arg_cong [OF ce, of last] by simp
  then show "sum_list (bin_counts xs (int_range a (b + bin_size_ns) bin_size_ns)) =
        length (filter (\<lambda>x. a \<le> x \<and> x \<le> edge a (steps_over a b)) xs)"
    using bin_counts_total [of "edge a 0" c es xs] s unfolding r ce by (simp add: edge_def)
qed

lemma all_counted:
  "list_all (\<lambda>x. a \<le> x \<and> x \<le> c) xs \<Longrightarrow> length (filter (\<lambda>x. a \<le> x \<and> x \<le> (c::int)) xs) = length xs"
  by (induction xs) simp_all

section \<open>Properties\<close>

text \<open>The rates that \<open>plot_pfc\<close> draws are a tenth of the pause rate: it counts the pauses in bins of 0.1 ms and
  divides by 1 ms.  Each rate (per microsecond) times the 100 microseconds of its bin, summed over the bins,
  gives a tenth of the pauses, although every pause is counted exactly once (exact arithmetic).\<close>

theorem pause_rates_are_a_tenth:
  assumes "arange_spec arange" and "histogram_spec histogram"
    and "Min (set ts) < Max (set ts)" and "set pauses \<subseteq> set ts"
  shows "sum_list (pause_rates exact arange histogram ts pauses) * 100 = of_nat (length pauses) / 10"
proof -
  let ?a = "Min (set ts)" and ?b = "Max (set ts)"
  let ?es = "int_range ?a (?b + bin_size_ns) bin_size_ns"
  have "pfc_bins arange ts = ?es" using assms(1) by (simp add: pfc_bins_def arange_spec_def bin_size_ns_def)
  then have rates: "pause_rates exact arange histogram ts pauses = map (\<lambda>c. of_nat c / 1000) (bin_counts pauses ?es)"
    using histogram_over_span(2,3) [OF assms(3)] assms(2,3)
    by (simp add: pause_rates_def histogram_spec_def exact_def TIME_WINDOW_NS_def)
  have "?b \<le> edge ?a (steps_over ?a ?b)" using steps_over_bounds(1) [of ?a ?b] assms(3) by (simp add: edge_def)
  then have "list_all (\<lambda>x. ?a \<le> x \<and> x \<le> edge ?a (steps_over ?a ?b)) pauses"
    using assms(4) by (fastforce simp: list_all_iff dest: Min_le [rotated] Max_ge [rotated])
  then have "sum_list (bin_counts pauses ?es) = length pauses"
    using histogram_over_span(1) [OF assms(3)] by (simp add: all_counted)
  moreover have "sum_list (map (\<lambda>c. of_nat c / 1000) cs) = (of_nat (sum_list cs) / 1000 :: rat)" for cs
    by (induction cs) (simp_all add: add_divide_distrib)
  ultimately have "sum_list (pause_rates exact arange histogram ts pauses) = of_nat (length pauses) / 1000"
    unfolding rates by presburger
  then show ?thesis by simp
qed

lemma pause_rates_are_a_tenth_witness:
  "sum_list (pause_rates exact int_range bin_counts [1000, 250000, 901000] [1000, 901000]) * 100 = 1 / 5"
  using pause_rates_are_a_tenth [where arange = int_range and histogram = bin_counts
      and ts = "[1000, 250000, 901000]" and pauses = "[1000, 901000]"]
  by (simp add: arange_spec_def histogram_spec_def)

text \<open>The rates of \<open>plot_pfc_exp2\<close> lose the last pause exactly when the time from the first to the last is a
  multiple of the bin: a pause at the end of the range shows in some rate in every other case.\<close>

theorem last_pause_lost_iff:
  assumes "arange_spec arange" and "time_start \<le> time_end"
  shows "(sum_list (snd (calculate_pause_rate exact arange [time_end] time_start time_end TIME_WINDOW_NS)) = 0) =
         (bin_size_ns dvd (time_end - time_start))"
proof -
  let ?n = "steps_over time_start time_end"
  let ?rate = "\<lambda>k. window_rate exact [time_end] time_start TIME_WINDOW_NS (edge time_start (Suc k))"
  have bins: "arange time_start (time_end + bin_size_ns) bin_size_ns = map (edge time_start) [0..<Suc ?n]"
    using assms(1) range_edges [OF assms(2)] bin_size_pos by (simp add: arange_spec_def del: upt_Suc)
  have r: "snd (calculate_pause_rate exact arange [time_end] time_start time_end TIME_WINDOW_NS) = map ?rate [0..<?n]"
    unfolding calculate_pause_rate_def bins Let_def tl_edges by simp
  have b: "time_end \<le> edge time_start ?n" "edge time_start ?n < time_end + bin_size_ns"
    using steps_over_bounds [OF assms(2)] by (simp_all add: edge_def)
  have zero: "?rate k = 0 \<longleftrightarrow> edge time_start (Suc k) \<le> time_end" if "k < ?n" for k
  proof -
    have "edge time_start (Suc k) \<le> edge time_start ?n" using that by (simp add: edge_def bin_size_ns_def)
    then have "edge time_start (Suc k) - TIME_WINDOW_NS \<le> time_end" using b(2) by (simp add: bin_size_ns_def TIME_WINDOW_NS_def)
    then show ?thesis using assms(2) by (auto simp: window_rate_def exact_def TIME_WINDOW_NS_def Let_def)
  qed
  have "(sum_list (map ?rate [0..<?n]) = 0) \<longleftrightarrow> (\<forall>k < ?n. ?rate k = 0)"
    by (subst sum_list_nonneg_eq_0_iff) (auto simp: window_rate_def exact_def TIME_WINDOW_NS_def Let_def)
  also have "\<dots> \<longleftrightarrow> (\<forall>k < ?n. edge time_start (Suc k) \<le> time_end)" using zero by auto
  also have "\<dots> \<longleftrightarrow> edge time_start ?n \<le> time_end"
  proof (cases ?n)
    case 0
    then show ?thesis using assms(2) by (simp add: edge_def)
  next
    case (Suc m)
    have "edge time_start (Suc k) \<le> edge time_start (Suc m)" if "k < Suc m" for k
      using that by (simp add: edge_def bin_size_ns_def)
    then show ?thesis using Suc order_trans by auto
  qed
  also have "\<dots> \<longleftrightarrow> bin_size_ns dvd (time_end - time_start)"
    using steps_over_bounds(3) [OF assms(2)] b(1) by (auto simp: edge_def)
  finally show ?thesis unfolding r .
qed

lemma last_pause_lost_iff_witness:
  "sum_list (snd (calculate_pause_rate exact int_range [300000] 100000 300000 TIME_WINDOW_NS)) = 0"
  using last_pause_lost_iff [where arange = int_range and time_start = 100000 and time_end = 300000]
  by (simp add: arange_spec_def bin_size_ns_def)

end
