(* ===== verification/Viz_Thread.thy ===== *)
theory Viz_Thread
  imports Py_Float
begin

text \<open>
  \<open>visualizer/core.py\<close>: the thread that runs the simulation and the thread of the view, which share a lock
  that is not reentrant, an event \<open>go\<close> and the flag \<open>quit\<close>.  A step is one statement of a thread between two
  points where the other one can see the difference.  IPython shells run code with the lock or without it.  Times
  are seconds; running the simulator is the parameter
  \<open>ru\<close>: where it may stop, and with which pause messages, when it is at one time and told to run to another.
\<close>

section \<open>States\<close>

text \<open>The statements of \<open>SimulationThread.run\<close>: the loop test, \<open>go.wait\<close>, \<open>go.clear\<close>, the test of \<open>quit\<close>,
  \<open>lock.acquire\<close>, the run, \<open>lock.release\<close>, the end.\<close>

datatype sim_pc = Test | Wait | Clear | Test_Quit | Get_Lock | Run | Put_Lock | Ended

datatype owner = Simulation | View

text \<open>What the view does, statement by statement.  \<open>Poll\<close> is the loop around \<open>lock.acquire(False)\<close> that
  handles events meanwhile; \<open>Use_Model\<close> is any work on the model that needs the lock, \<open>Run_Code\<close> code of a shell
  that does not take it.\<close>

datatype act =
    Poll | Acquire | Release | Use_Model
  | Take_Messages | Update_View | Set_Target | Show_Messages | Pause_Or_Go
  | Stop_Timer | Set_Quit | Set_Go | Join_Sim | Main_Quit
  | Toggle_Play bool | Set_Speed rat
  | Lose_Messages | Select "int option" | Set_Mode bool | Make_Shell | Run_Code

text \<open>\<open>handled\<close> are the lists of pause messages that \<open>update_view_timeout\<close> has taken and done with, and whether it
  showed them in a dialog.  \<open>selected\<close> is the selected node, \<open>only_selected\<close> whether only its transmissions are
  shown, \<open>ipython\<close> whether there is a name \<open>__IPYTHON__\<close>, \<open>patched\<close> whether there was one when the program
  started, so that its code runs with the lock.\<close>

record viz =
  sim :: sim_pc
  lock :: "owner option"
  go :: bool
  quit :: bool
  now :: rat
  target_time :: rat
  pause_messages :: "string list"
  playing :: bool
  timer :: bool
  model_updates :: nat
  sample_period :: rat
  main_loop :: bool
  todo :: "act list"
  shown_time :: rat
  taken :: "string list"
  handled :: "(bool \<times> string list) list"
  selected :: "int option"
  only_selected :: bool
  ipython :: bool
  patched :: bool

definition SAMPLE_PERIOD :: rat where
  "SAMPLE_PERIOD = 1 / 10"

definition viz_start :: "bool \<Rightarrow> viz" where
  "viz_start p =
     \<lparr>sim = Test, lock = None, go = False, quit = False, now = 0, target_time = 0, pause_messages = [], playing = False,
      timer = True, model_updates = 0, sample_period = SAMPLE_PERIOD, main_loop = True, todo = [], shown_time = 0,
      taken = [], handled = [], selected = None, only_selected = False, ipython = p, patched = p\<rparr>"

section \<open>The handlers of the view\<close>

definition update_view_timeout :: "act list" where
  "update_view_timeout = [Poll, Take_Messages, Update_View, Set_Target, Release, Show_Messages, Pause_Or_Go]"

text \<open>When \<open>update_view\<close> raises, the lock is released, the messages in hand are gone with the call, and the timer is
  removed because the handler did not return \<open>True\<close>.\<close>

definition update_view_raises :: "act list" where
  "update_view_raises = [Poll, Take_Messages, Release, Lose_Messages]"

definition quit_handler :: "act list" where
  "quit_handler = [Stop_Timer, Set_Quit, Set_Go, Join_Sim, Main_Quit]"

text \<open>\<open>tooltip_query\<close>, \<open>set_nodes_of_interest\<close>, \<open>update_model\<close>, \<open>add_information_window\<close>, the handlers of a
  drag, and code entered in the shell.\<close>

definition locked_handler :: "act list" where
  "locked_handler = [Acquire, Use_Model, Release]"

text \<open>\<open>select_node\<close>, for a node that there is or none; what it does depends on what is selected.  A click calls it,
  and so does code in a shell.\<close>

definition ipython_selected :: "bool \<Rightarrow> int option \<Rightarrow> act list" where
  "ipython_selected ip n = (if ip \<and> n \<noteq> None then locked_handler else [])"

definition select_acts :: "int option \<Rightarrow> viz \<Rightarrow> act list" where
  "select_acts n s =
     (if n = selected s then []
      else Select n # (if only_selected s then locked_handler else []) @ ipython_selected (ipython s) n)"

text \<open>Code that calls \<open>viz.select_node\<close> and is entered in the IPython that the program was started from: that
  shell takes the lock around the code.  The shell of the window that \<open>_start_shell\<close> opens does not: it is
  not there yet when \<open>start\<close> patches.\<close>

definition shell_select :: "int option \<Rightarrow> viz \<Rightarrow> act list" where
  "shell_select n s = [Acquire] @ select_acts n s @ [Release]"

definition start_shell :: "viz \<Rightarrow> act list" where
  "start_shell s = Make_Shell # ipython_selected True (selected s)"

text \<open>The event that can come next, and the state after it was taken from the queue.  The spin button for the
  speed goes from 0.01 to 10.\<close>

inductive event :: "viz \<Rightarrow> act list \<Rightarrow> viz \<Rightarrow> bool" where
  Timeout: "timer s \<Longrightarrow> event s update_view_timeout s"
| Model: "0 < model_updates s \<Longrightarrow> event s locked_handler (s\<lparr>model_updates := model_updates s - 1\<rparr>)"
| Locked: "event s locked_handler s"
| Raise: "timer s \<Longrightarrow> event s update_view_raises s"
| Shell: "patched s \<Longrightarrow> event s (shell_select n s) s"
| Click: "event s (select_acts n s) s"
| Mode: "event s (Set_Mode b # locked_handler) s"
| Window: "event s (start_shell s) s"
| Code: "ipython s \<Longrightarrow> event s [Run_Code] s"
| Play: "event s [Toggle_Play b] s"
| Speed: "1 / 100 \<le> v \<Longrightarrow> v \<le> 10 \<Longrightarrow> event s [Set_Speed v] s"
| Close: "event s quit_handler s"

inductive_cases EventE: "event s h t"

section \<open>Steps\<close>

text \<open>One statement of the view; \<^const>\<open>None\<close> when it has to wait.\<close>

fun act_step :: "act \<Rightarrow> viz \<Rightarrow> viz option" where
  "act_step Poll s = (if lock s = None then Some (s\<lparr>lock := Some View\<rparr>) else None)"
| "act_step Acquire s = (if lock s = None then Some (s\<lparr>lock := Some View\<rparr>) else None)"
| "act_step Release s = Some (s\<lparr>lock := None\<rparr>)"
| "act_step Use_Model s = Some s"
| "act_step Take_Messages s = Some (s\<lparr>taken := pause_messages s, pause_messages := []\<rparr>)"
| "act_step Update_View s = Some (s\<lparr>shown_time := now s\<rparr>)"
| "act_step Set_Target s = Some (s\<lparr>target_time := now s + sample_period s\<rparr>)"
| "act_step Show_Messages s =
     Some (if taken s = [] then s
           else s\<lparr>handled := handled s @ [(True, taken s)], taken := [], timer := timer s \<and> \<not> playing s, playing := False\<rparr>)"
| "act_step Pause_Or_Go s = Some (if playing s then s\<lparr>go := True\<rparr> else s\<lparr>timer := False\<rparr>)"
| "act_step Stop_Timer s = Some (s\<lparr>timer := False\<rparr>)"
| "act_step Set_Quit s = Some (s\<lparr>quit := True\<rparr>)"
| "act_step Set_Go s = Some (s\<lparr>go := True\<rparr>)"
| "act_step Join_Sim s = (if sim s = Ended then Some s else None)"
| "act_step Main_Quit s = Some (s\<lparr>main_loop := False\<rparr>)"
| "act_step (Toggle_Play b) s = Some (s\<lparr>playing := b, timer := b\<rparr>)"
| "act_step Lose_Messages s =
     Some (s\<lparr>handled := (if taken s = [] then handled s else handled s @ [(False, taken s)]), taken := [], timer := False\<rparr>)"
| "act_step (Select n) s = Some (s\<lparr>selected := n\<rparr>)"
| "act_step (Set_Mode b) s = Some (s\<lparr>only_selected := b\<rparr>)"
| "act_step Make_Shell s = Some (s\<lparr>ipython := True\<rparr>)"
| "act_step Run_Code s = Some s"
| "act_step (Set_Speed v) s = Some (s\<lparr>sample_period := SAMPLE_PERIOD * v, timer := True\<rparr>)"

inductive view_step :: "viz \<Rightarrow> viz \<Rightarrow> bool" where
  Act: "todo s = a # rest \<Longrightarrow> act_step a s = Some t \<Longrightarrow> view_step s (t\<lparr>todo := rest\<rparr>)"
| Event: "todo s = [] \<Longrightarrow> main_loop s \<Longrightarrow> event s h t \<Longrightarrow> view_step s (t\<lparr>todo := h\<rparr>)"
| Nested: "todo s = Poll # rest \<Longrightarrow> lock s \<noteq> None \<Longrightarrow> event s h t \<Longrightarrow> view_step s (t\<lparr>todo := h @ Poll # rest\<rparr>)"

inductive_cases ViewE: "view_step s t"

type_synonym simulator = "rat \<Rightarrow> rat \<Rightarrow> (rat \<times> string list) set"

text \<open>A step of the simulation thread with the pause messages it brings.\<close>

inductive sim_step :: "simulator \<Rightarrow> string list \<Rightarrow> viz \<Rightarrow> viz \<Rightarrow> bool" for ru :: simulator where
  Loop: "sim s = Test \<Longrightarrow> sim_step ru [] s (s\<lparr>sim := (if quit s then Ended else Wait)\<rparr>)"
| Wake: "sim s = Wait \<Longrightarrow> go s \<Longrightarrow> sim_step ru [] s (s\<lparr>sim := Clear\<rparr>)"
| Cleared: "sim s = Clear \<Longrightarrow> sim_step ru [] s (s\<lparr>sim := Test_Quit, go := False\<rparr>)"
| Quit: "sim s = Test_Quit \<Longrightarrow> sim_step ru [] s (s\<lparr>sim := (if quit s then Ended else Get_Lock)\<rparr>)"
| Get: "sim s = Get_Lock \<Longrightarrow> lock s = None \<Longrightarrow> sim_step ru [] s (s\<lparr>sim := Run, lock := Some Simulation\<rparr>)"
| Run: "sim s = Run \<Longrightarrow> (t, ms) \<in> ru (now s) (target_time s) \<Longrightarrow>
    sim_step ru ms s (s\<lparr>sim := Put_Lock, now := t, pause_messages := pause_messages s @ ms,
      model_updates := Suc (model_updates s)\<rparr>)"
| Put: "sim s = Put_Lock \<Longrightarrow> sim_step ru [] s (s\<lparr>sim := Test, lock := None\<rparr>)"

inductive_cases SimE: "sim_step ru ms s t"

inductive viz_step :: "simulator \<Rightarrow> string list \<Rightarrow> viz \<Rightarrow> viz \<Rightarrow> bool" for ru :: simulator where
  By_Sim: "sim_step ru ms s t \<Longrightarrow> viz_step ru ms s t"
| By_View: "view_step s t \<Longrightarrow> viz_step ru [] s t"

text \<open>The states that can be reached, with all pause messages of the simulator so far.\<close>

inductive viz_run :: "simulator \<Rightarrow> string list \<Rightarrow> viz \<Rightarrow> bool" for ru :: simulator where
  start: "viz_run ru [] (viz_start p)"
| step: "viz_run ru ms s \<Longrightarrow> viz_step ru new s t \<Longrightarrow> viz_run ru (ms @ new) t"

text \<open>A simulator stops between where it was and where it was told to run to, unless it is already past that.\<close>

definition simulator_ok :: "simulator \<Rightarrow> bool" where
  "simulator_ok ru \<longleftrightarrow> (\<forall>t target. ru t target \<noteq> {} \<and> (\<forall>(t', ms) \<in> ru t target. t \<le> t' \<and> t' \<le> max t target))"

section \<open>What the view still has to do\<close>

text \<open>Whether it holds the lock and has messages in hand: the lock is taken and released in turn, and messages
  are shown before others are taken.  A second \<open>Acquire\<close> is never passed.\<close>

fun balanced :: "bool \<Rightarrow> bool \<Rightarrow> act list \<Rightarrow> bool" where
  "balanced h m [] \<longleftrightarrow> \<not> h \<and> \<not> m"
| "balanced h m (Poll # r) \<longleftrightarrow> \<not> h \<and> \<not> m \<and> balanced True m r"
| "balanced h m (Acquire # r) \<longleftrightarrow> h \<or> balanced True m r"
| "balanced h m (Release # r) \<longleftrightarrow> h \<and> balanced False m r"
| "balanced h m (Take_Messages # r) \<longleftrightarrow> h \<and> \<not> m \<and> balanced h True r"
| "balanced h m (Update_View # r) \<longleftrightarrow> h \<and> balanced h m r"
| "balanced h m (Set_Target # r) \<longleftrightarrow> h \<and> balanced h m r"
| "balanced h m (Use_Model # r) \<longleftrightarrow> h \<and> balanced h m r"
| "balanced h m (Show_Messages # r) \<longleftrightarrow> balanced h False r"
| "balanced h m (Lose_Messages # r) \<longleftrightarrow> balanced h False r"
| "balanced h m (Join_Sim # r) \<longleftrightarrow> \<not> h \<and> balanced h m r"
| "balanced h m (_ # r) \<longleftrightarrow> balanced h m r"

text \<open>Before it waits for the other thread it has set \<open>quit\<close> and then \<open>go\<close>.\<close>

fun chained :: "bool \<Rightarrow> bool \<Rightarrow> act list \<Rightarrow> bool" where
  "chained q g [] \<longleftrightarrow> True"
| "chained q g (Set_Quit # r) \<longleftrightarrow> chained True False r"
| "chained q g (Set_Go # r) \<longleftrightarrow> chained q True r"
| "chained q g (Join_Sim # r) \<longleftrightarrow> q \<and> g \<and> chained q g r"
| "chained q g (_ # r) \<longleftrightarrow> chained q g r"

lemma chained_mono: "chained q g as \<Longrightarrow> chained True True as"
  by (induction q g as rule: chained.induct) (auto elim: chained.elims)

lemmas handler_defs = update_view_timeout_def update_view_raises_def quit_handler_def locked_handler_def
  shell_select_def select_acts_def ipython_selected_def start_shell_def

lemma event_balanced: "event s h t \<Longrightarrow> balanced False False r \<Longrightarrow> balanced False False (h @ r)"
  by (auto elim!: EventE simp: handler_defs)

lemma event_chained: "event s h t \<Longrightarrow> chained q g r \<Longrightarrow> chained q g (h @ r)"
  by (auto elim!: EventE simp: handler_defs chained_mono)

lemma event_frame: "event s h t \<Longrightarrow> t = s \<or> t = s\<lparr>model_updates := model_updates s - 1\<rparr>"
  by (auto elim!: EventE)

text \<open>Once \<open>quit\<close> is set and the other thread will see it, that stays so.\<close>

definition woken :: "viz \<Rightarrow> bool" where
  "woken s \<longleftrightarrow> quit s \<and> (go s \<or> sim s \<notin> {Wait, Clear})"

definition lock_inv :: "viz \<Rightarrow> bool" where
  "lock_inv s \<longleftrightarrow> (lock s = Some Simulation \<longleftrightarrow> sim s \<in> {Run, Put_Lock})"

definition script_inv :: "viz \<Rightarrow> bool" where
  "script_inv s \<longleftrightarrow> (\<exists>m. balanced (lock s = Some View) m (todo s) \<and> (m \<or> taken s = []))"

definition quit_inv :: "viz \<Rightarrow> bool" where
  "quit_inv s \<longleftrightarrow> (\<exists>q g. chained q g (todo s) \<and> (q \<longrightarrow> quit s) \<and> (q \<and> g \<longrightarrow> woken s))"

definition time_inv :: "viz \<Rightarrow> bool" where
  "time_inv s \<longleftrightarrow> 0 < sample_period s \<and> sample_period s \<le> 1 \<and>
     shown_time s \<le> now s \<and> now s \<le> max (shown_time s) (target_time s) \<and> target_time s \<le> shown_time s + 1"

definition message_inv :: "string list \<Rightarrow> viz \<Rightarrow> bool" where
  "message_inv ms s \<longleftrightarrow> concat (map snd (handled s)) @ taken s @ pause_messages s = ms"

lemma wokenI: "quit s \<Longrightarrow> go s \<Longrightarrow> woken s"
  by (simp add: woken_def)

section \<open>The steps of the view keep the invariants\<close>

lemma act_todo: "act_step a s = Some t \<Longrightarrow> todo t = todo s"
  by (cases a) (auto split: if_splits)

lemma act_sim: "act_step a s = Some t \<Longrightarrow> sim t = sim s \<and> now t = now s"
  by (cases a) (auto split: if_splits)

lemma act_woken: "act_step a s = Some t \<Longrightarrow> (quit s \<longrightarrow> quit t) \<and> (woken s \<longrightarrow> woken t)"
  by (cases a) (auto simp: woken_def split: if_splits)

lemma script_act:
  assumes "act_step a s = Some t" and "todo s = a # rest" and "script_inv s"
  shows "script_inv (t\<lparr>todo := rest\<rparr>)"
proof -
  obtain m where "balanced (lock s = Some View) m (a # rest)" "m \<or> taken s = []" using assms(2,3) by (auto simp: script_inv_def)
  with assms(1) have "\<exists>m. balanced (lock t = Some View) m rest \<and> (m \<or> taken t = [])"
    by (cases a) (auto split: if_splits)
  then show ?thesis by (simp add: script_inv_def)
qed

lemma lock_act:
  assumes "act_step a s = Some t" and "todo s = a # rest" and "script_inv s" and "lock_inv s"
  shows "lock_inv (t\<lparr>todo := rest\<rparr>)"
proof -
  have "a = Release \<Longrightarrow> lock s = Some View" using assms(2,3) by (auto simp: script_inv_def)
  with assms(1,4) have "lock_inv t" by (cases a) (auto simp: lock_inv_def split: if_splits)
  then show ?thesis by (simp add: lock_inv_def)
qed

lemma quit_act:
  assumes "act_step a s = Some t" and "todo s = a # rest" and "quit_inv s"
  shows "quit_inv (t\<lparr>todo := rest\<rparr>)"
proof -
  obtain q g where c: "chained q g (a # rest)" "q \<longrightarrow> quit s" "q \<and> g \<longrightarrow> woken s" using assms(2,3) by (auto simp: quit_inv_def)
  have "\<exists>q g. chained q g rest \<and> (q \<longrightarrow> quit t) \<and> (q \<and> g \<longrightarrow> woken t)"
  proof (cases "a = Set_Quit \<or> a = Set_Go")
    case True
    then have "a = Set_Quit \<and> chained True False rest \<and> quit t \<or> a = Set_Go \<and> chained q True rest \<and> (q \<longrightarrow> woken t \<and> quit t)"
      using c assms(1) by (auto simp: woken_def)
    then show ?thesis by blast
  next
    case False
    then have "chained q g rest" using c(1) by (cases a) auto
    then show ?thesis using c(2,3) act_woken [OF assms(1)] by blast
  qed
  then show ?thesis by (simp add: quit_inv_def woken_def)
qed

lemma time_act:
  assumes "act_step a s = Some t" and "time_inv s" and "a = Set_Target \<Longrightarrow> shown_time s = now s"
    and "\<And>v. a = Set_Speed v \<Longrightarrow> 1 / 100 \<le> v \<and> v \<le> 10"
  shows "time_inv t"
  using assms by (cases a) (auto simp: time_inv_def SAMPLE_PERIOD_def split: if_splits)

lemma message_act:
  assumes "act_step a s = Some t" and "todo s = a # rest" and "script_inv s" and "message_inv ms s"
  shows "message_inv ms t"
proof -
  have "a = Take_Messages \<Longrightarrow> taken s = []" using assms(2,3) by (auto simp: script_inv_def)
  with assms(1,4) show ?thesis by (cases a) (auto simp: message_inv_def split: if_splits)
qed

text \<open>The two facts the times rest on: the target is set right after the view was brought up to date, and the
  speed comes from the spin button.\<close>

fun targets_ok :: "bool \<Rightarrow> act list \<Rightarrow> bool" where
  "targets_ok u [] \<longleftrightarrow> True"
| "targets_ok u (Update_View # r) \<longleftrightarrow> targets_ok True r"
| "targets_ok u (Set_Target # r) \<longleftrightarrow> u \<and> targets_ok False r"
| "targets_ok u (Set_Speed v # r) \<longleftrightarrow> 1 / 100 \<le> v \<and> v \<le> 10 \<and> targets_ok False r"
| "targets_ok u (_ # r) \<longleftrightarrow> targets_ok False r"

definition target_inv :: "viz \<Rightarrow> bool" where
  "target_inv s \<longleftrightarrow> (\<exists>u. targets_ok u (todo s) \<and> (u \<longrightarrow> lock s = Some View \<and> shown_time s = now s))"

lemma event_targets: "event s h t \<Longrightarrow> targets_ok False r \<Longrightarrow> targets_ok False (h @ r)"
  by (auto elim!: EventE simp: handler_defs)

lemma target_act:
  assumes "act_step a s = Some t" and "todo s = a # rest" and "target_inv s" and "script_inv s"
  shows "target_inv (t\<lparr>todo := rest\<rparr>)" and "a = Set_Target \<Longrightarrow> shown_time s = now s"
    and "\<And>v. a = Set_Speed v \<Longrightarrow> 1 / 100 \<le> v \<and> v \<le> 10"
proof -
  obtain u where u: "targets_ok u (a # rest)" "u \<longrightarrow> lock s = Some View \<and> shown_time s = now s"
    using assms(2,3) by (auto simp: target_inv_def)
  show "a = Set_Target \<Longrightarrow> shown_time s = now s" and "\<And>v. a = Set_Speed v \<Longrightarrow> 1 / 100 \<le> v \<and> v \<le> 10" using u by auto
  have "a = Update_View \<Longrightarrow> lock s = Some View" using assms(2,4) by (auto simp: script_inv_def)
  then have "targets_ok (a = Update_View) rest \<and> (a = Update_View \<longrightarrow> lock t = Some View \<and> shown_time t = now t)"
    using u assms(1) by (cases a) auto
  then show "target_inv (t\<lparr>todo := rest\<rparr>)" by (auto simp: target_inv_def)
qed

definition viz_inv :: "string list \<Rightarrow> viz \<Rightarrow> bool" where
  "viz_inv ms s \<longleftrightarrow> lock_inv s \<and> script_inv s \<and> quit_inv s \<and> target_inv s \<and> time_inv s \<and> message_inv ms s"

lemmas invs = viz_inv_def lock_inv_def script_inv_def quit_inv_def target_inv_def time_inv_def message_inv_def

lemma inv_start: "viz_inv [] (viz_start p)"
  unfolding invs viz_start_def SAMPLE_PERIOD_def by (auto intro: exI [of _ False])

lemma inv_act:
  assumes "act_step a s = Some t" and "todo s = a # rest" and "viz_inv ms s"
  shows "viz_inv ms (t\<lparr>todo := rest\<rparr>)"
proof -
  have i: "lock_inv s" "script_inv s" "quit_inv s" "target_inv s" "time_inv s" "message_inv ms s"
    using assms(3) by (simp_all add: viz_inv_def)
  note t = target_act [OF assms(1,2) i(4,2)]
  show ?thesis
    using lock_act [OF assms(1,2) i(2,1)] script_act [OF assms(1,2) i(2)] quit_act [OF assms(1,2) i(3)] t(1)
      time_act [OF assms(1) i(5) t(2,3)] message_act [OF assms(1,2) i(2,6)]
    by (simp add: viz_inv_def time_inv_def message_inv_def)
qed

text \<open>A handler that starts, with nothing else under way or while the view polls.\<close>

lemma inv_event:
  assumes e: "event s h t" and i: "viz_inv ms s" and r: "todo s = [] \<and> rest = [] \<or> todo s = Poll # r \<and> rest = todo s"
  shows "viz_inv ms (t\<lparr>todo := h @ rest\<rparr>)"
proof -
  have i: "lock_inv s" "script_inv s" "quit_inv s" "target_inv s" "time_inv s" "message_inv ms s"
    using i by (simp_all add: viz_inv_def)
  have tr: "todo s = rest" using r by auto
  obtain m where "balanced (lock s = Some View) m rest" "m \<or> taken s = []" using i(2) tr by (auto simp: script_inv_def)
  then have b: "lock s \<noteq> Some View" "balanced False False rest" "taken s = []" using r by auto
  obtain q g where c: "chained q g rest" "q \<longrightarrow> quit s" "q \<and> g \<longrightarrow> woken s" using i(3) tr by (auto simp: quit_inv_def)
  have "targets_ok False rest" using i(4) tr r by (auto simp: target_inv_def)
  then have tg: "targets_ok False (h @ rest)" by (rule event_targets [OF e])
  have s: "lock t = lock s" "sim t = sim s" "taken t = taken s" "quit t = quit s" "woken t = woken s" "time_inv t = time_inv s"
      "message_inv ms t = message_inv ms s"
    using event_frame [OF e] by (auto simp: woken_def time_inv_def message_inv_def)
  have "script_inv (t\<lparr>todo := h @ rest\<rparr>)" using event_balanced [OF e b(2)] b s by (auto simp: script_inv_def)
  moreover have "quit_inv (t\<lparr>todo := h @ rest\<rparr>)"
    using event_chained [OF e c(1)] c s by (auto simp: quit_inv_def woken_def)
  moreover have "target_inv (t\<lparr>todo := h @ rest\<rparr>)" using tg by (auto simp: target_inv_def)
  ultimately show ?thesis using i s by (simp add: viz_inv_def lock_inv_def time_inv_def message_inv_def)
qed

lemma inv_view: "view_step s t \<Longrightarrow> viz_inv ms s \<Longrightarrow> viz_inv ms t"
proof (erule ViewE)
  fix a rest u assume "t = u\<lparr>todo := rest\<rparr>" "todo s = a # rest" "act_step a s = Some u" "viz_inv ms s"
  then show ?thesis using inv_act by simp
next
  fix h u assume "viz_inv ms s" "t = u\<lparr>todo := h\<rparr>" "todo s = []" "event s h u"
  then show ?thesis using inv_event [of s h u ms "[]" "[]"] by simp
next
  fix rest h u assume "viz_inv ms s" "t = u\<lparr>todo := h @ Poll # rest\<rparr>" "todo s = Poll # rest" "event s h u"
  then show ?thesis using inv_event [of s h u ms "Poll # rest" rest] by simp
qed


lemma sim_step_frame:
  assumes "sim_step ru ms s t" and "lock_inv s"
  shows "lock_inv t" and "(lock t = Some View) = (lock s = Some View)" and "todo t = todo s" and "taken t = taken s"
    and "quit t = quit s" and "woken s \<Longrightarrow> woken t"
  using assms by (auto elim!: SimE simp: lock_inv_def woken_def split: if_splits)

lemma inv_sim:
  assumes "sim_step ru new s t" and ru: "simulator_ok ru" and i: "viz_inv ms s"
  shows "viz_inv (ms @ new) t"
proof -
  have i: "lock_inv s" "script_inv s" "quit_inv s" "target_inv s" "time_inv s" "message_inv ms s"
    using i by (simp_all add: viz_inv_def)
  note f = sim_step_frame [OF assms(1) i(1)]
  have "script_inv t" using i(2) by (simp add: script_inv_def f(2-4))
  moreover have "quit_inv t" using i(3) f(5,6) unfolding quit_inv_def f(3) by blast
  moreover have "target_inv t \<and> time_inv t \<and> message_inv (ms @ new) t"
    using assms(1)
  proof cases
    case (Run t')
    have "now s \<le> t'" and "t' \<le> max (now s) (target_time s)" using Run(3) ru unfolding simulator_ok_def by blast+
    moreover have "lock s \<noteq> Some View" using i(1) Run(2) by (auto simp: lock_inv_def)
    ultimately show ?thesis
      using i(4-6) Run(1) by (auto simp: target_inv_def time_inv_def message_inv_def)
  qed (use i(1,4-6) in \<open>auto simp: target_inv_def time_inv_def message_inv_def lock_inv_def\<close>)
  ultimately show ?thesis using f(1) by (simp add: viz_inv_def)
qed

lemma inv_run: "viz_run ru ms s \<Longrightarrow> simulator_ok ru \<Longrightarrow> viz_inv ms s"
proof (induction rule: viz_run.induct)
  case start
  show ?case by (rule inv_start)
next
  case (step ms s new t)
  then have i: "viz_inv ms s" by simp
  from step(2) show ?case
  proof cases
    case By_Sim
    then show ?thesis using inv_sim [OF _ step.prems i] by simp
  next
    case By_View
    then show ?thesis using inv_view [OF _ i] by simp
  qed
qed

section \<open>The simulation thread ends\<close>

text \<open>However the thread goes on, it ends.\<close>

inductive sim_ends :: "simulator \<Rightarrow> viz \<Rightarrow> bool" for ru :: simulator where
  Done: "sim s = Ended \<Longrightarrow> sim_ends ru s"
| More: "\<exists>ms t. sim_step ru ms s t \<Longrightarrow> (\<And>ms t. sim_step ru ms s t \<Longrightarrow> sim_ends ru t) \<Longrightarrow> sim_ends ru s"

text \<open>The statements left once it will see \<open>quit\<close>.\<close>

fun statements_left :: "sim_pc \<Rightarrow> nat" where
  "statements_left Ended = 0"
| "statements_left Test = 1"
| "statements_left Test_Quit = 1"
| "statements_left Put_Lock = 2"
| "statements_left Clear = 2"
| "statements_left Wait = 3"
| "statements_left Run = 3"
| "statements_left Get_Lock = 4"

lemma sim_ends_woken:
  assumes "simulator_ok ru"
  shows "woken s \<Longrightarrow> lock s \<noteq> Some View \<Longrightarrow> lock_inv s \<Longrightarrow> sim_ends ru s"
proof (induction "statements_left (sim s)" arbitrary: s rule: less_induct)
  case less
  show ?case
  proof (cases "sim s = Ended")
    case True
    then show ?thesis by (rule sim_ends.Done)
  next
    case False
    have free: "sim s = Get_Lock \<Longrightarrow> lock s = None" using less.prems(2,3) by (cases "lock s") (auto simp: lock_inv_def intro: owner.exhaust)
    obtain t' ms' where run: "(t', ms') \<in> ru (now s) (target_time s)" using assms unfolding simulator_ok_def by fast
    have "sim s = Wait \<Longrightarrow> go s" using less.prems(1) by (auto simp: woken_def)
    then have "\<exists>ms t. sim_step ru ms s t"
      using False free run by (cases "sim s") (blast intro: sim_step.intros)+
    moreover have "sim_ends ru t" if st: "sim_step ru ms s t" for ms t
    proof (rule less.hyps)
      show "statements_left (sim t) < statements_left (sim s)" using st less.prems(1) by (auto elim!: SimE simp: woken_def)
      show "woken t" and "lock t \<noteq> Some View" and "lock_inv t" using sim_step_frame [OF st less.prems(3)] less.prems(1,2) by simp_all
    qed
    ultimately show ?thesis by (rule sim_ends.More)
  qed
qed

section \<open>The view goes on\<close>

text \<open>Both threads go on, and the user does nothing meanwhile.\<close>

inductive quiet_step :: "simulator \<Rightarrow> viz \<Rightarrow> viz \<Rightarrow> bool" for ru :: simulator where
  Sim: "sim_step ru ms s t \<Longrightarrow> quiet_step ru s t"
| Go_On: "todo s = a # rest \<Longrightarrow> act_step a s = Some t \<Longrightarrow> quiet_step ru s (t\<lparr>todo := rest\<rparr>)"

inductive_cases QuietE: "quiet_step ru s t"

text \<open>However they go on, they come to a state with \<open>P\<close>.\<close>

inductive comes_to :: "simulator \<Rightarrow> (viz \<Rightarrow> bool) \<Rightarrow> viz \<Rightarrow> bool" for ru :: simulator and P :: "viz \<Rightarrow> bool" where
  Here: "P s \<Longrightarrow> comes_to ru P s"
| Later: "\<exists>t. quiet_step ru s t \<Longrightarrow> (\<And>t. quiet_step ru s t \<Longrightarrow> comes_to ru P t) \<Longrightarrow> comes_to ru P s"

lemma quiet_viz: "quiet_step ru s t \<Longrightarrow> \<exists>ms. viz_step ru ms s t"
  by (auto elim!: QuietE intro: By_Sim By_View view_step.Act)

text \<open>The steps the simulation thread has left before it waits for the next \<open>go\<close>, or ends.\<close>

definition steps_left :: "viz \<Rightarrow> nat" where
  "steps_left s =
     (case sim s of
        Ended \<Rightarrow> 0 | Wait \<Rightarrow> if go s then 9 else 0 | Test \<Rightarrow> if go s then 10 else 1 | Put_Lock \<Rightarrow> if go s then 11 else 2
      | Run \<Rightarrow> if go s then 12 else 3 | Get_Lock \<Rightarrow> if go s then 13 else 4 | Test_Quit \<Rightarrow> if go s then 14 else 5 | Clear \<Rightarrow> 8)"

lemma quiet_decreases:
  assumes "quiet_step ru s t"
  shows "length (todo t) * 20 + steps_left t < length (todo s) * 20 + steps_left s"
  using assms
proof (rule QuietE)
  fix ms assume "sim_step ru ms s t"
  then show ?thesis by (auto elim!: SimE simp: steps_left_def)
next
  fix a rest u assume t: "t = u\<lparr>todo := rest\<rparr>" "todo s = a # rest"
  have "steps_left t < 20" by (simp add: steps_left_def split: sim_pc.split)
  with t show ?thesis by simp
qed

text \<open>What the view does next can be done, or waits for a lock that the simulation thread has and gives back.\<close>

definition can_go :: "viz \<Rightarrow> bool" where
  "can_go s \<longleftrightarrow> todo s \<noteq> [] \<and> (act_step (hd (todo s)) s \<noteq> None \<or> lock s = Some Simulation)"

lemma comes_to_by:
  assumes ru: "simulator_ok ru" and go: "\<And>s. Q s \<Longrightarrow> lock_inv s \<and> can_go s" and keep: "\<And>s t. Q s \<Longrightarrow> quiet_step ru s t \<Longrightarrow> Q t \<or> P t"
  shows "Q s \<Longrightarrow> comes_to ru P s"
proof (induction "length (todo s) * 20 + steps_left s" arbitrary: s rule: less_induct)
  case less
  have "\<exists>t. quiet_step ru s t"
  proof (cases "act_step (hd (todo s)) s")
    case None
    with go [OF less.prems] have "sim s = Run \<or> sim s = Put_Lock" by (auto simp: lock_inv_def can_go_def)
    moreover obtain t ms where "(t, ms) \<in> ru (now s) (target_time s)" using ru unfolding simulator_ok_def by fast
    ultimately show ?thesis by (blast intro: quiet_step.Sim sim_step.Run sim_step.Put)
  next
    case (Some u)
    moreover have "todo s = hd (todo s) # tl (todo s)" using go [OF less.prems] by (simp add: can_go_def)
    ultimately show ?thesis by (blast intro: quiet_step.Go_On)
  qed
  then show ?case using keep [OF less.prems] less.hyps quiet_decreases by (blast intro: comes_to.intros)
qed

text \<open>The messages that were shown.\<close>

definition shown_messages :: "viz \<Rightarrow> string list" where
  "shown_messages s = concat (map snd (filter fst (handled s)))"

text \<open>Where \<open>update_view_timeout\<close> is with the messages that were waiting when it began.\<close>

definition showing :: "simulator \<Rightarrow> string list \<Rightarrow> string list \<Rightarrow> viz \<Rightarrow> bool" where
  "showing ru old new s \<longleftrightarrow> (\<exists>ms. viz_run ru ms s) \<and>
     (\<exists>k < 7. todo s = drop k update_view_timeout \<and>
        (if k \<le> 1 then shown_messages s = old \<and> (\<exists>more. pause_messages s = new @ more)
         else if k \<le> 5 then shown_messages s = old \<and> (\<exists>more. taken s = new @ more)
         else (\<exists>more. shown_messages s = old @ new @ more)))"

definition all_shown :: "string list \<Rightarrow> string list \<Rightarrow> viz \<Rightarrow> bool" where
  "all_shown old new s \<longleftrightarrow> todo s = [] \<and> (\<exists>more. shown_messages s = old @ new @ more)"

lemma run_quiet: "viz_run ru ms s \<Longrightarrow> quiet_step ru s t \<Longrightarrow> \<exists>ms. viz_run ru ms t"
  using quiet_viz viz_run.step by blast

lemma less_7: "k < 7 \<longleftrightarrow> k = 0 \<or> k = 1 \<or> k = 2 \<or> k = 3 \<or> k = 4 \<or> k = 5 \<or> k = (6::nat)"
  by arith

lemma showing_keeps:
  assumes "showing ru old new s" and "quiet_step ru s t"
  shows "showing ru old new t \<or> all_shown old new t"
proof -
  obtain ms k where run: "viz_run ru ms s" and k: "k < 7" "todo s = drop k update_view_timeout"
    and p: "if k \<le> 1 then shown_messages s = old \<and> (\<exists>more. pause_messages s = new @ more)
         else if k \<le> 5 then shown_messages s = old \<and> (\<exists>more. taken s = new @ more)
         else (\<exists>more. shown_messages s = old @ new @ more)"
    using assms(1) unfolding showing_def by blast
  from run_quiet [OF run assms(2)] have r: "\<exists>ms. viz_run ru ms t" .
  from assms(2) show ?thesis
  proof (rule QuietE)
    fix ms' assume "sim_step ru ms' s t"
    then have "todo t = todo s" "taken t = taken s" "handled t = handled s" "\<exists>more. pause_messages t = pause_messages s @ more"
      by (auto elim!: SimE)
    then have "showing ru old new t" unfolding showing_def using r k p
      by (intro conjI exI [of _ k]) (auto simp: shown_messages_def)
    then show ?thesis ..
  next
    fix a rest u assume u: "t = u\<lparr>todo := rest\<rparr>" "todo s = a # rest" "act_step a s = Some u"
    have rest: "rest = drop (Suc k) update_view_timeout" using u(2) k(2) by (metis drop_Suc list.sel(3) tl_drop)
    have a: "a = update_view_timeout ! k" using u(2) k by (metis Cons_nth_drop_Suc drop_all list.discI list.inject not_le)
    show ?thesis
    proof (cases "k = 6")
      case True
      with u p a rest show ?thesis by (auto simp: all_shown_def update_view_timeout_def shown_messages_def split: if_splits)
    next
      case False
      with k(1) have "Suc k < 7" by simp
      moreover have "if Suc k \<le> 1 then shown_messages t = old \<and> (\<exists>more. pause_messages t = new @ more)
         else if Suc k \<le> 5 then shown_messages t = old \<and> (\<exists>more. taken t = new @ more)
         else (\<exists>more. shown_messages t = old @ new @ more)"
        using k(1) u p a unfolding less_7
        by (elim disjE) (auto simp: update_view_timeout_def shown_messages_def split: if_splits)
      ultimately have "showing ru old new t" unfolding showing_def using r u(1) rest by (intro conjI exI [of _ "Suc k"]) auto
      then show ?thesis ..
    qed
  qed
qed

lemma showing_goes:
  assumes "simulator_ok ru" and "showing ru old new s"
  shows "lock_inv s \<and> can_go s"
proof -
  obtain ms k where run: "viz_run ru ms s" and k: "k < 7" "todo s = drop k update_view_timeout"
    using assms(2) unfolding showing_def by blast
  have i: "lock_inv s" "script_inv s" using inv_run [OF run assms(1)] by (simp_all add: viz_inv_def)
  have v: "lock s \<noteq> Some View" if "k = 0" using i(2) k(2) that by (auto simp: script_inv_def update_view_timeout_def)
  have "lock s = None \<or> lock s = Some Simulation \<or> lock s = Some View" by (metis option.exhaust owner.exhaust)
  then have "can_go s" using k v unfolding less_7 by (elim disjE) (simp_all add: can_go_def update_view_timeout_def)
  with i(1) show ?thesis ..
qed

section \<open>The lock is not reentrant\<close>

definition viz_steps :: "simulator \<Rightarrow> viz \<Rightarrow> viz \<Rightarrow> bool" where
  "viz_steps ru = (\<lambda>s t. \<exists>ms. viz_step ru ms s t)\<^sup>*\<^sup>*"

text \<open>Whether \<open>select_node\<close> asks for the lock.\<close>

definition takes_lock :: "int option \<Rightarrow> viz \<Rightarrow> bool" where
  "takes_lock n s \<longleftrightarrow> n \<noteq> selected s \<and> (only_selected s \<or> ipython s \<and> n \<noteq> None)"

lemma takes_lock_acts: "takes_lock n s \<Longrightarrow> \<exists>as. shell_select n s = Acquire # Select n # Acquire # as"
  by (auto simp: takes_lock_def shell_select_def select_acts_def ipython_selected_def locked_handler_def)

lemma takes_no_lock_acts: "\<not> takes_lock n s \<Longrightarrow> shell_select n s = [Acquire] @ (if n = selected s then [] else [Select n]) @ [Release]"
  by (auto simp: takes_lock_def shell_select_def select_acts_def ipython_selected_def)

text \<open>Stuck at the second \<open>Acquire\<close>, or on the way to it.\<close>

definition selecting :: "act list \<Rightarrow> int option \<Rightarrow> viz \<Rightarrow> bool" where
  "selecting as n s \<longleftrightarrow> lock_inv s \<and>
     (todo s = Acquire # Select n # Acquire # as \<or> todo s = Select n # Acquire # as \<and> lock s = Some View
      \<or> todo s = Acquire # as \<and> lock s = Some View)"

lemma selecting_step:
  assumes "viz_step ru ms s t" and "selecting as n s"
  shows "selecting as n t"
  using assms(1)
proof cases
  case By_Sim
  then show ?thesis using assms(2) sim_step_frame [OF By_Sim] unfolding selecting_def by metis
next
  case By_View
  then show ?thesis using assms(2) unfolding selecting_def
    by (auto elim!: ViewE simp: lock_inv_def split: if_splits)
qed

lemma selecting_steps:
  assumes "viz_steps ru s t" and "selecting as n s"
  shows "selecting as n t"
  using assms(1) unfolding viz_steps_def
  by (induction rule: rtranclp_induct) (use assms(2) selecting_step in blast)+

text \<open>Without a second \<open>Acquire\<close> the shell comes back.\<close>

definition coming_back :: "act list \<Rightarrow> int option \<Rightarrow> viz \<Rightarrow> bool" where
  "coming_back r n s \<longleftrightarrow> lock_inv s \<and>
     (lock s \<noteq> Some View \<and> (todo s = Acquire # Select n # Release # r \<or> todo s = Acquire # Release # r \<and> selected s = n)
      \<or> lock s = Some View \<and> (todo s = Select n # Release # r \<or> todo s = Release # r \<and> selected s = n))"

lemma coming_back_keeps:
  assumes "coming_back r n s" and "quiet_step ru s t"
  shows "coming_back r n t \<or> todo t = r \<and> selected t = n"
  using assms(2)
proof (rule QuietE)
  fix ms assume st: "sim_step ru ms s t"
  have i: "lock_inv s" using assms(1) by (simp add: coming_back_def)
  have "selected t = selected s" using st by (auto elim!: SimE)
  then show ?thesis using assms(1) sim_step_frame [OF st i] unfolding coming_back_def by metis
next
  fix a rest u assume "t = u\<lparr>todo := rest\<rparr>" "todo s = a # rest" "act_step a s = Some u"
  then show ?thesis using assms(1) unfolding coming_back_def
    by (elim disjE conjE; clarsimp simp: lock_inv_def split: if_splits)
qed

lemma not_view: "lock s \<noteq> Some View \<Longrightarrow> lock s = None \<or> lock s = Some Simulation"
  by (metis option.exhaust owner.exhaust)

lemma coming_back_goes: "coming_back r n s \<Longrightarrow> lock_inv s \<and> can_go s"
  using not_view [of s] by (auto simp: coming_back_def can_go_def)


section \<open>Properties\<close>

text \<open>C21. The simulation never runs while the view holds the lock to look at it, and is never behind what the view
  shows nor more than a second of simulated time ahead of it, the longest sample period.\<close>

theorem simulation_in_step_with_view:
  assumes "simulator_ok ru" and "viz_run ru ms s"
  shows "\<not> (lock s = Some View \<and> sim s \<in> {Run, Put_Lock}) \<and> shown_time s \<le> now s \<and> now s \<le> shown_time s + 1"
  using inv_run [OF assms(2,1)] by (auto simp: viz_inv_def lock_inv_def time_inv_def)

text \<open>C22. Pause messages are taken from the simulator in order and each exactly once: the lists that
  \<open>update_view_timeout\<close> is done with, the messages in hand and those waiting are together all that were sent.  And they
  are shown: when \<open>update_view_timeout\<close> begins in an idle view, its update of the view does not raise and the user does
  nothing meanwhile, both threads come, however they take turns, to the end of it with everything that was waiting shown in a
  dialog, after what was shown before.  (When the update of the view raises, the messages in hand are lost.)\<close>

theorem pause_messages_shown_once:
  assumes "simulator_ok ru" and "viz_run ru ms s"
  shows "concat (map snd (handled s)) @ taken s @ pause_messages s = ms \<and>
    (todo s = update_view_timeout \<longrightarrow>
       comes_to ru (\<lambda>t. todo t = [] \<and> (\<exists>more. shown_messages t = shown_messages s @ pause_messages s @ more)) s)"
proof (intro conjI impI)
  show "concat (map snd (handled s)) @ taken s @ pause_messages s = ms"
    using inv_run [OF assms(2,1)] by (simp add: viz_inv_def message_inv_def)
next
  assume u: "todo s = update_view_timeout"
  let ?Q = "showing ru (shown_messages s) (pause_messages s)"
  have "?Q s" unfolding showing_def using assms(2) u by (intro conjI exI [of _ 0]) auto
  then have "comes_to ru (all_shown (shown_messages s) (pause_messages s)) s"
    using showing_goes [OF assms(1)] showing_keeps by (rule comes_to_by [OF assms(1), rotated 2])
  moreover have "all_shown (shown_messages s) (pause_messages s) =
      (\<lambda>t. todo t = [] \<and> (\<exists>more. shown_messages t = shown_messages s @ pause_messages s @ more))"
    by (simp add: all_shown_def fun_eq_iff)
  ultimately show "comes_to ru (\<lambda>t. todo t = [] \<and> (\<exists>more. shown_messages t = shown_messages s @ pause_messages s @ more)) s" by simp
qed

text \<open>C20. Closing the window always ends the program: whenever the view has come to wait for the simulation
  thread, that thread can go on, and however it goes on it ends; the signal to quit is never lost.\<close>

theorem closing_ends_simulation:
  assumes "simulator_ok ru" and "viz_run ru ms s" and "todo s = Join_Sim # r"
  shows "sim_ends ru s"
proof -
  have i: "lock_inv s" "script_inv s" "quit_inv s" using inv_run [OF assms(2,1)] by (simp_all add: viz_inv_def)
  have "lock s \<noteq> Some View" using i(2) assms(3) by (auto simp: script_inv_def)
  moreover have "woken s" using i(3) assms(3) by (auto simp: quit_inv_def)
  ultimately show ?thesis using sim_ends_woken [OF assms(1)] i(1) by blast
qed

text \<open>C23. When selecting a node from the shell hangs the program.  The IPython that the program was started from holds the
  lock around the code it runs, and the lock is not reentrant.  So \<open>viz.select_node(n)\<close> in it, for another node than
  the selected one, is never left when \<open>select_node\<close> asks for the lock: when only the transmissions of the selected
  node are shown, or when n is a node, whose ns-3 node it looks up.  In every other case (n is selected already, or nothing
  is to be selected in another mode) the call comes back with n selected, however the threads take turns.\<close>

theorem shell_select_hangs:
  assumes "simulator_ok ru" and "viz_run ru ms s" and "patched s"
    and "todo s = [] \<and> main_loop s \<or> (\<exists>r. todo s = Poll # r) \<and> lock s \<noteq> None"
    and "s1 = s\<lparr>todo := shell_select n s @ todo s\<rparr>"
  shows "viz_run ru ms s1 \<and>
    (if takes_lock n s then (\<forall>t. viz_steps ru s1 t \<longrightarrow> (\<exists>k \<le> 2. todo t = drop k (shell_select n s) @ todo s \<and> drop k (shell_select n s) \<noteq> []))
     else comes_to ru (\<lambda>t. todo t = todo s \<and> selected t = n) s1)"
proof
  have e: "event s (shell_select n s) s" using assms(3) by (rule event.Shell)
  have "view_step s s1" using assms(4) unfolding assms(5) using view_step.Event [OF _ _ e] view_step.Nested [OF _ _ e] by auto
  then show "viz_run ru ms s1" using viz_run.step [OF assms(2) By_View] by simp
  have i: "lock_inv s" "script_inv s" using inv_run [OF assms(2,1)] by (simp_all add: viz_inv_def)
  then have l: "lock_inv s1" "lock s1 \<noteq> Some View" using assms(4) by (auto simp: assms(5) lock_inv_def script_inv_def)
  show "if takes_lock n s then (\<forall>t. viz_steps ru s1 t \<longrightarrow> (\<exists>k \<le> 2. todo t = drop k (shell_select n s) @ todo s \<and> drop k (shell_select n s) \<noteq> []))
     else comes_to ru (\<lambda>t. todo t = todo s \<and> selected t = n) s1"
  proof (cases "takes_lock n s")
    case True
    then obtain as where as: "shell_select n s = Acquire # Select n # Acquire # as" using takes_lock_acts by blast
    have b: "selecting (as @ todo s) n s1" using l(1) by (simp add: selecting_def assms(5) as)
    have "\<exists>k \<le> 2. todo t = drop k (shell_select n s) @ todo s \<and> drop k (shell_select n s) \<noteq> []" if "viz_steps ru s1 t" for t
    proof -
      from selecting_steps [OF that b] consider "todo t = drop 0 (shell_select n s) @ todo s" | "todo t = drop 1 (shell_select n s) @ todo s"
        | "todo t = drop 2 (shell_select n s) @ todo s" by (auto simp: selecting_def as)
      then show ?thesis
      proof cases
        case 1
        then show ?thesis by (intro exI [of _ 0]) (simp add: as)
      next
        case 2
        then show ?thesis by (intro exI [of _ 1]) (simp add: as)
      next
        case 3
        then show ?thesis by (intro exI [of _ 2]) (simp add: as)
      qed
    qed
    with True show ?thesis by simp
  next
    case False
    have "coming_back (todo s) n s1" using l by (auto simp: coming_back_def assms(5) takes_no_lock_acts [OF False])
    then have "comes_to ru (\<lambda>t. todo t = todo s \<and> selected t = n) s1"
      using coming_back_goes coming_back_keeps by (rule comes_to_by [OF assms(1), rotated 2])
    with False show ?thesis by simp
  qed
qed

subsection \<open>At a run\<close>

definition straight :: simulator where
  "straight t target = {(max t target, [''pause''])}"

lemma straight_ok: "simulator_ok straight"
  by (simp add: simulator_ok_def straight_def)

lemma run_event: "viz_run ru ms s \<Longrightarrow> todo s = [] \<Longrightarrow> main_loop s \<Longrightarrow> event s h s \<Longrightarrow> viz_run ru ms (s\<lparr>todo := h\<rparr>)"
  using viz_run.step [OF _ By_View [OF view_step.Event]] by fastforce

text \<open>The view goes on by one statement.\<close>

definition view_acts :: "viz \<Rightarrow> viz" where
  "view_acts s = (case todo s of [] \<Rightarrow> s | a # r \<Rightarrow> (case act_step a s of None \<Rightarrow> s | Some t \<Rightarrow> t\<lparr>todo := r\<rparr>))"

lemma run_act: "viz_run ru ms s \<Longrightarrow> viz_run ru ms (view_acts s)"
  using viz_run.step [OF _ By_View [OF view_step.Act]] by (fastforce simp: view_acts_def split: list.splits option.splits)

definition closing :: viz where
  "closing = view_acts (view_acts (view_acts (viz_start False\<lparr>todo := quit_handler\<rparr>)))"

lemma run_closing: "viz_run ru [] closing"
  unfolding closing_def
  by (intro run_act run_event [OF viz_run.start]) (simp_all add: viz_start_def event.Close)

lemma closing_ends_simulation_witness: "sim_ends straight closing"
  by (rule closing_ends_simulation [OF straight_ok run_closing, of "[Main_Quit]"]) (simp add: closing_def view_acts_def quit_handler_def)

definition waiting :: viz where
  "waiting = viz_start False\<lparr>sim := Wait\<rparr>"

lemma run_waiting: "viz_run ru [] waiting"
  using viz_run.step [OF viz_run.start By_Sim [OF sim_step.Loop]] by (simp add: waiting_def viz_start_def)

lemma simulation_in_step_with_view_witness: "shown_time waiting \<le> now waiting \<and> now waiting \<le> shown_time waiting + 1"
  using simulation_in_step_with_view [OF straight_ok run_waiting] by simp

text \<open>The simulation thread goes on by one statement.\<close>

definition sim_acts :: "string list \<times> viz \<Rightarrow> string list \<times> viz" where
  "sim_acts = (\<lambda>(ms, s).
     case sim s of
       Test \<Rightarrow> (ms, s\<lparr>sim := (if quit s then Ended else Wait)\<rparr>)
     | Wait \<Rightarrow> (ms, if go s then s\<lparr>sim := Clear\<rparr> else s)
     | Clear \<Rightarrow> (ms, s\<lparr>sim := Test_Quit, go := False\<rparr>)
     | Test_Quit \<Rightarrow> (ms, s\<lparr>sim := (if quit s then Ended else Get_Lock)\<rparr>)
     | Get_Lock \<Rightarrow> (ms, if lock s = None then s\<lparr>sim := Run, lock := Some Simulation\<rparr> else s)
     | Run \<Rightarrow> (ms @ [''pause''], s\<lparr>sim := Put_Lock, now := max (now s) (target_time s), pause_messages := pause_messages s @ [''pause''],
         model_updates := Suc (model_updates s)\<rparr>)
     | Put_Lock \<Rightarrow> (ms, s\<lparr>sim := Test, lock := None\<rparr>)
     | Ended \<Rightarrow> (ms, s))"

lemma run_sim: "viz_run straight (fst x) (snd x) \<Longrightarrow> viz_run straight (fst (sim_acts x)) (snd (sim_acts x))"
proof -
  obtain ms s where x: "x = (ms, s)" by (cases x)
  have "sim_acts x = x \<or> (\<exists>new. sim_step straight new s (snd (sim_acts x)) \<and> fst (sim_acts x) = ms @ new)"
    using sim_step.Run [of s "max (now s) (target_time s)" "[''pause'']" straight] sim_step.Loop [of s straight] sim_step.Quit [of s straight] sim_step.Loop [of s straight] sim_step.Quit [of s straight]
    by (cases "sim s") (auto simp: x sim_acts_def straight_def intro: sim_step.Wake sim_step.Cleared sim_step.Get sim_step.Put)
  then show "viz_run straight (fst x) (snd x) \<Longrightarrow> viz_run straight (fst (sim_acts x)) (snd (sim_acts x))"
    using viz_run.step [OF _ By_Sim] x by fastforce
qed

lemma run_sims: "viz_run straight (fst x) (snd x) \<Longrightarrow> viz_run straight (fst ((sim_acts ^^ k) x)) (snd ((sim_acts ^^ k) x))"
  by (induction k) (simp_all add: run_sim)

lemma run_acts: "viz_run ru ms s \<Longrightarrow> viz_run ru ms ((view_acts ^^ k) s)"
  by (induction k) (simp_all add: run_act)

text \<open>The play button is pressed and the timer goes off; the simulator runs, and sends a message; the timer goes off again.\<close>

definition played :: viz where
  "played = (view_acts ^^ 7) ((view_acts ((viz_start False)\<lparr>todo := [Toggle_Play True]\<rparr>))\<lparr>todo := update_view_timeout\<rparr>)"

definition paused :: "string list \<times> viz" where
  "paused = (sim_acts ^^ 7) ([], played)"

lemma paused_is: "fst paused = [''pause''] \<and> pause_messages (snd paused) = [''pause''] \<and> shown_messages (snd paused) = [] \<and>
    todo (snd paused) = [] \<and> main_loop (snd paused) \<and> timer (snd paused) \<and> todo played = []"
  by code_simp

lemma run_paused: "viz_run straight [''pause''] ((snd paused)\<lparr>todo := update_view_timeout\<rparr>)"
proof -
  have 1: "viz_run straight [] ((viz_start False)\<lparr>todo := [Toggle_Play True]\<rparr>)"
    by (rule run_event [OF viz_run.start]) (simp_all add: viz_start_def event.Play)
  have "viz_run straight [] ((view_acts ((viz_start False)\<lparr>todo := [Toggle_Play True]\<rparr>))\<lparr>todo := update_view_timeout\<rparr>)"
    by (rule run_event [OF run_act [OF 1]]) (simp_all add: view_acts_def viz_start_def event.Timeout)
  then have "viz_run straight [] played" unfolding played_def by (rule run_acts)
  then have "viz_run straight (fst paused) (snd paused)" unfolding paused_def by (intro run_sims) simp
  then show ?thesis by (intro run_event) (use paused_is in \<open>simp_all add: event.Timeout\<close>)
qed

lemma pause_messages_shown_once_witness:
  "comes_to straight (\<lambda>t. todo t = [] \<and> (\<exists>more. shown_messages t = ''pause'' # more)) ((snd paused)\<lparr>todo := update_view_timeout\<rparr>) \<and>
   pause_messages ((snd paused)\<lparr>todo := update_view_timeout\<rparr>) = [''pause'']"
proof -
  have "shown_messages ((snd paused)\<lparr>todo := update_view_timeout\<rparr>) = []" "pause_messages ((snd paused)\<lparr>todo := update_view_timeout\<rparr>) = [''pause'']"
    using paused_is by (simp_all add: shown_messages_def)
  with pause_messages_shown_once [OF straight_ok run_paused] show ?thesis by simp
qed

lemma shell_select_hangs_witness:
  "\<not> (\<exists>t. viz_steps straight ((viz_start True)\<lparr>todo := shell_select (Some 3) (viz_start True)\<rparr>) t \<and> todo t = []) \<and>
   comes_to straight (\<lambda>t. todo t = [] \<and> selected t = None) ((viz_start True)\<lparr>todo := shell_select None (viz_start True)\<rparr>)"
proof -
  let ?s = "viz_start True"
  have p: "patched ?s" "todo ?s = [] \<and> main_loop ?s \<or> (\<exists>r. todo ?s = Poll # r) \<and> lock ?s \<noteq> None" "todo ?s = []"
    by (simp_all add: viz_start_def)
  have "takes_lock (Some 3) ?s" "\<not> takes_lock None ?s" by (simp_all add: takes_lock_def viz_start_def)
  with shell_select_hangs [OF straight_ok viz_run.start p(1,2) refl, of "Some 3"]
    shell_select_hangs [OF straight_ok viz_run.start p(1,2) refl, of None]
  show ?thesis by (auto simp: p(3))
qed


end
