(* ===== verification/Viz_Model.thy ===== *)
theory Viz_Model
  imports Py_Strings Py_Float
begin

text \<open>
  \<open>visualizer/core.py\<close> and \<open>plugins/interface_statistics.py\<close>: the selected node and the nodes whose
  transmissions are asked for, the window of samples and its averages, the pool of arrows, the links found
  in the topology, and the rates of the interfaces.  The rounding of floats is \<open>fl\<close>; the canvas is not modelled.
\<close>

section \<open>Nodes and selection\<close>

datatype show_mode = Show_All | Show_None | Show_Selected

text \<open>What may be handed to \<open>select_node\<close>.\<close>

datatype node_arg = Ns3_Node int | Index int | Node_View int | No_Node | Other_Value

record viz_state =
  node_selected :: "(int, bool) dict"
  selected_node :: "int option"
  show_mode :: show_mode
  nodes_of_interest :: "int list"

definition all_nodes :: "nat \<Rightarrow> int list" where
  "all_nodes n = map int [0..<n]"

text \<open>\<open>set_show_transmissions_mode\<close>; \<open>n\<close> is \<open>NodeList.GetNNodes()\<close>.\<close>

definition interest :: "nat \<Rightarrow> show_mode \<Rightarrow> int option \<Rightarrow> int list" where
  "interest n mode sel =
     (case mode of Show_All \<Rightarrow> all_nodes n | Show_None \<Rightarrow> []
      | Show_Selected \<Rightarrow> (case sel of None \<Rightarrow> [] | Some i \<Rightarrow> [i]))"

definition set_show_transmissions_mode :: "nat \<Rightarrow> show_mode \<Rightarrow> viz_state \<Rightarrow> viz_state" where
  "set_show_transmissions_mode n mode s =
     s\<lparr>show_mode := mode, nodes_of_interest := interest n mode (selected_node s)\<rparr>"

text \<open>\<open>get_node\<close> makes the node when it is first asked for; \<open>valid\<close> are the nodes the simulator has.\<close>

definition get_node :: "int \<Rightarrow> viz_state \<Rightarrow> viz_state" where
  "get_node i s = (case map_of (node_selected s) i of Some _ \<Rightarrow> s | None \<Rightarrow> s\<lparr>node_selected := dict_set i False (node_selected s)\<rparr>)"

definition node_of_arg :: "node_arg \<Rightarrow> viz_state \<Rightarrow> int option res" where
  "node_of_arg a s =
     (case a of
        Ns3_Node i \<Rightarrow> bind_res (dict_get (node_selected s) i) (\<lambda>_. Inr (Some i))
      | Index i \<Rightarrow> bind_res (dict_get (node_selected s) i) (\<lambda>_. Inr (Some i))
      | Node_View i \<Rightarrow> Inr (Some i)
      | No_Node \<Rightarrow> Inr None
      | Other_Value \<Rightarrow> Inl TypeError)"

definition set_selected :: "bool \<Rightarrow> int option \<Rightarrow> viz_state \<Rightarrow> viz_state" where
  "set_selected b sel s = (case sel of None \<Rightarrow> s | Some i \<Rightarrow> s\<lparr>node_selected := dict_set i b (node_selected s)\<rparr>)"

definition select_node :: "node_arg \<Rightarrow> viz_state \<Rightarrow> viz_state res" where
  "select_node a s =
     bind_res (node_of_arg a s) (\<lambda>node. Inr (
       if node = selected_node s then s
       else
         let s = (set_selected False (selected_node s) s)\<lparr>selected_node := node\<rparr>;
             s = set_selected True node s
         in if show_mode s = Show_Selected then s\<lparr>nodes_of_interest := (case node of None \<Rightarrow> [] | Some i \<Rightarrow> [i])\<rparr> else s))"

definition first_state :: "nat \<Rightarrow> viz_state" where
  "first_state n = set_show_transmissions_mode n Show_All \<lparr>node_selected = [], selected_node = None, show_mode = Show_All, nodes_of_interest = []\<rparr>"

text \<open>What the user and the scan of the topology do to this state.  A view object of a node is one that
  \<open>get_node\<close> made.\<close>

datatype viz_op = Get_Node int | Select node_arg | Set_Mode show_mode

definition viz_op :: "nat \<Rightarrow> viz_op \<Rightarrow> viz_state \<Rightarrow> viz_state" where
  "viz_op n x s =
     (case x of
        Get_Node i \<Rightarrow> get_node i s
      | Set_Mode mode \<Rightarrow> set_show_transmissions_mode n mode s
      | Select a \<Rightarrow>
          (case a of Node_View i \<Rightarrow> if map_of (node_selected s) i = None then s
               else (case select_node a s of Inl _ \<Rightarrow> s | Inr t \<Rightarrow> t)
           | _ \<Rightarrow> (case select_node a s of Inl _ \<Rightarrow> s | Inr t \<Rightarrow> t)))"

section \<open>The window of samples\<close>

text \<open>\<open>do_simulation_periodic_update\<close>: append, then drop from the front.\<close>

function trim :: "nat \<Rightarrow> 'a list \<Rightarrow> 'a list" where
  "trim n xs = (if n < length xs then trim n (tl xs) else xs)"
  by pat_completeness auto
termination
  by (relation "measure (length \<circ> snd)") auto

declare trim.simps [simp del]

definition remember :: "nat \<Rightarrow> 'a \<Rightarrow> 'a list \<Rightarrow> 'a list" where
  "remember smooth_factor x xs = trim smooth_factor (xs @ [x])"

definition last_n :: "nat \<Rightarrow> 'a list \<Rightarrow> 'a list" where
  "last_n n xs = drop (length xs - n) xs"

lemma trim_eq: "trim n xs = last_n n xs"
proof (induction n xs rule: trim.induct)
  case (1 n xs)
  show ?case
  proof (cases "n < length xs")
    case True
    then obtain a r where "xs = a # r" by (cases xs) simp_all
    with True 1 show ?thesis by (simp add: trim.simps [of n "a # r"] last_n_def Suc_diff_le)
  qed (simp add: trim.simps [of n xs] last_n_def)
qed

lemma last_n_snoc: "last_n n (last_n n xs @ [x]) = last_n n (xs @ [x])"
proof (cases "n \<le> length xs")
  case True
  then have "length xs - n + 1 = length xs + 1 - n" by simp
  then show ?thesis using True by (cases n) (simp_all add: last_n_def Suc_diff_le)
qed (simp add: last_n_def)

lemma last_n_id: "length xs \<le> n \<Longrightarrow> last_n n xs = xs"
  by (simp add: last_n_def)

lemma remember_all: "length ys \<le> n \<Longrightarrow> fold (remember n) xs ys = last_n n (ys @ xs)"
proof (induction xs rule: rev_induct)
  case (snoc x xs)
  then show ?case using last_n_snoc [of n "ys @ xs" x] by (simp add: remember_def trim_eq)
qed (simp add: last_n_id)

section \<open>Averages\<close>

text \<open>\<open>pyviz.h\<close> allows a sample without a receiver, for a broadcast, but \<open>pyviz.cc\<close> makes a sample only when a node receives, with that
  node as its receiver; so a sample always has one here.\<close>

record sample =
  transmitter :: int
  receiver :: int
  sample_bytes :: nat

type_synonym 'k totals = "('k, nat \<times> nat) dict"

definition add_sample :: "(sample \<Rightarrow> 'k) \<Rightarrow> sample \<Rightarrow> 'k totals \<Rightarrow> 'k totals" where
  "add_sample key x d =
     (case (case map_of d (key x) of None \<Rightarrow> (0, 0) | Some p \<Rightarrow> p) of
        (rx_bytes, n) \<Rightarrow> dict_set (key x) (rx_bytes + sample_bytes x, n + 1) d)"

definition transmissions_average :: "sample list list \<Rightarrow> (int \<times> int) totals" where
  "transmissions_average sets = fold (fold (add_sample (\<lambda>x. (transmitter x, receiver x)))) sets []"

definition drops_average :: "sample list list \<Rightarrow> int totals" where
  "drops_average sets = fold (fold (add_sample transmitter)) sets []"

definition kbps :: "(rat \<Rightarrow> rat) \<Rightarrow> rat \<Rightarrow> nat \<times> nat \<Rightarrow> rat" where
  "kbps fl period = (\<lambda>(rx_bytes, n). fl (fl (fl (fl (of_nat (rx_bytes * 8)) / 1000) / fl (of_nat n)) / period))"

lemma add_samples_lookup:
  "map_of (fold (add_sample key) xs d) k =
     (case filter (\<lambda>x. key x = k) xs of
        [] \<Rightarrow> map_of d k
      | ys \<Rightarrow> (case (case map_of d k of None \<Rightarrow> (0, 0) | Some p \<Rightarrow> p) of
                (b, n) \<Rightarrow> Some (b + sum_list (map sample_bytes ys), n + length ys)))"
  by (induction xs arbitrary: d) (auto simp: add_sample_def split: option.splits list.splits)

lemma fold_fold_concat: "fold (fold f) xss = fold f (concat xss)"
  by (induction xss) (simp_all add: fun_eq_iff)

section \<open>The pool of arrows\<close>

text \<open>An arrow with its label: its number and whether it is visible.  Where it is drawn and how wide (a logarithm
  of the rate, which raises for samples without bytes) is not modelled.\<close>

record arrow =
  arrow_id :: nat
  visible :: bool

record pool_state =
  old_arrows :: "arrow list"
  new_arrows :: "arrow list"
  next_id :: nat

text \<open>The arrow for one key: the last of the old ones, or one made now.\<close>

definition take_arrow :: "pool_state \<Rightarrow> pool_state" where
  "take_arrow s =
     (case rev (old_arrows s) of
        a # r \<Rightarrow> s\<lparr>old_arrows := rev r, new_arrows := new_arrows s @ [a\<lparr>visible := True\<rparr>]\<rparr>
      | [] \<Rightarrow> s\<lparr>next_id := Suc (next_id s), new_arrows := new_arrows s @ [\<lparr>arrow_id = next_id s, visible = True\<rparr>]\<rparr>)"

text \<open>One update of the view with that many keys.\<close>

definition update_arrows :: "nat \<Rightarrow> nat \<times> arrow list \<Rightarrow> nat \<times> arrow list" where
  "update_arrows keys = (\<lambda>(fresh, arrows).
     (let s = (take_arrow ^^ keys) \<lparr>old_arrows = map (\<lambda>a. a\<lparr>visible := False\<rparr>) arrows, new_arrows = [], next_id = fresh\<rparr>
      in (next_id s, new_arrows s @ old_arrows s)))"

definition pool_ok :: "pool_state \<Rightarrow> nat \<Rightarrow> bool" where
  "pool_ok s k \<longleftrightarrow>
     length (new_arrows s) = k \<and> list_all visible (new_arrows s) \<and> list_all (\<lambda>a. \<not> visible a) (old_arrows s) \<and>
     distinct (map arrow_id (new_arrows s @ old_arrows s)) \<and> set (map arrow_id (new_arrows s @ old_arrows s)) = {..<next_id s}"

lemma pool_ok_take: "pool_ok s k \<Longrightarrow> pool_ok (take_arrow s) (Suc k)"
proof (cases "old_arrows s" rule: rev_cases)
  case Nil
  assume "pool_ok s k"
  with Nil show ?thesis by (auto simp: pool_ok_def take_arrow_def lessThan_Suc)
next
  case (snoc r a)
  assume "pool_ok s k"
  with snoc show ?thesis by (auto simp: pool_ok_def take_arrow_def)
qed

lemma pool_ok_takes: "pool_ok s k \<Longrightarrow> pool_ok ((take_arrow ^^ n) s) (n + k)"
  by (induction n) (simp_all add: pool_ok_take)


section \<open>Interface statistics\<close>

record iface =
  tx_packets :: nat
  tx_octets :: nat
  rx_packets :: nat
  rx_octets :: nat

definition NODE_STATISTICS_MEMORY :: nat where
  "NODE_STATISTICS_MEMORY = 10"

type_synonym statistics = "(nat, iface list list) dict"

definition raw_stats :: "statistics \<Rightarrow> nat \<Rightarrow> iface list list" where
  "raw_stats d node = (case map_of d node of None \<Rightarrow> [] | Some l \<Rightarrow> l)"

definition add_node_stats :: "nat \<times> iface list \<Rightarrow> statistics \<Rightarrow> statistics" where
  "add_node_stats = (\<lambda>(node, st) d. dict_set node (remember NODE_STATISTICS_MEMORY st (raw_stats d node)) d)"

definition periodic_update :: "(nat \<times> iface list) list \<Rightarrow> statistics \<Rightarrow> statistics" where
  "periodic_update nodes_statistics d = fold add_node_stats nodes_statistics d"

record net_dev_stats =
  stats_now :: iface
  tx_packet_rate :: rat
  rx_packet_rate :: rat
  tx_bit_rate :: rat
  rx_bit_rate :: rat

definition difference :: "(rat \<Rightarrow> rat) \<Rightarrow> rat \<Rightarrow> nat \<Rightarrow> nat \<Rightarrow> nat \<Rightarrow> rat" where
  "difference fl k unit b a = fl (fl (of_int ((int b - int a) * int unit)) / k)"

definition rates_of :: "(rat \<Rightarrow> rat) \<Rightarrow> rat \<Rightarrow> iface \<Rightarrow> iface \<Rightarrow> net_dev_stats" where
  "rates_of fl k a b =
     \<lparr>stats_now = b, tx_packet_rate = difference fl k 1 (tx_packets b) (tx_packets a),
      rx_packet_rate = difference fl k 1 (rx_packets b) (rx_packets a),
      tx_bit_rate = difference fl k 8 (tx_octets b) (tx_octets a),
      rx_bit_rate = difference fl k 8 (rx_octets b) (rx_octets a)\<rparr>"

text \<open>An interface that the oldest snapshot does not have is an \<open>IndexError\<close>.\<close>

fun interface_rates :: "(rat \<Rightarrow> rat) \<Rightarrow> rat \<Rightarrow> iface list \<Rightarrow> iface list \<Rightarrow> net_dev_stats list res" where
  "interface_rates fl k as [] = Inr []"
| "interface_rates fl k [] (b # bs) = Inl IndexError"
| "interface_rates fl k (a # as) (b # bs) = bind_res (interface_rates fl k as bs) (\<lambda>rs. Inr (rates_of fl k a b # rs))"

definition get_interface_statistics :: "(rat \<Rightarrow> rat) \<Rightarrow> rat \<Rightarrow> statistics \<Rightarrow> nat \<Rightarrow> net_dev_stats list res" where
  "get_interface_statistics fl sample_period d node =
     (let l = raw_stats d node in
      if length l < NODE_STATISTICS_MEMORY then Inr []
      else interface_rates fl (fl (sample_period * of_nat (NODE_STATISTICS_MEMORY - 1))) (hd l) (last l))"

text \<open>All snapshots of a node.\<close>

definition snapshots :: "nat \<Rightarrow> (nat \<times> iface list) list list \<Rightarrow> iface list list" where
  "snapshots node updates = map snd (filter (\<lambda>x. fst x = node) (concat updates))"

lemma raw_stats_add:
  "raw_stats (add_node_stats x d) node =
   (if fst x = node then remember NODE_STATISTICS_MEMORY (snd x) (raw_stats d node) else raw_stats d node)"
  by (cases x) (simp add: add_node_stats_def raw_stats_def)

lemma raw_stats_adds:
  "raw_stats (fold add_node_stats xs d) node =
   fold (remember NODE_STATISTICS_MEMORY) (map snd (filter (\<lambda>x. fst x = node) xs)) (raw_stats d node)"
  by (induction xs arbitrary: d) (simp_all add: raw_stats_add)

lemma raw_stats_updates:
  "raw_stats (fold periodic_update us []) node = last_n NODE_STATISTICS_MEMORY (snapshots node us)"
proof -
  have pu: "periodic_update = fold add_node_stats" by (intro ext) (simp add: periodic_update_def)
  have "raw_stats (fold periodic_update us []) node =
      fold (remember NODE_STATISTICS_MEMORY) (snapshots node us) (raw_stats [] node)"
    by (simp only: pu fold_fold_concat raw_stats_adds snapshots_def)
  moreover have "raw_stats [] node = []" by (simp add: raw_stats_def)
  ultimately show ?thesis by (simp add: remember_all)
qed

section \<open>Properties\<close>

text \<open>Nodes marked as selected, and the nodes of interest, are those of the selection and the mode.\<close>

definition viz_ok :: "nat \<Rightarrow> viz_state \<Rightarrow> bool" where
  "viz_ok n s \<longleftrightarrow>
     (\<forall>i. map_of (node_selected s) i = Some True \<longleftrightarrow> selected_node s = Some i) \<and>
     nodes_of_interest s = interest n (show_mode s) (selected_node s)"

lemma viz_ok_select:
  assumes "viz_ok n s" and "node = None \<or> map_of (node_selected s) (the node) \<noteq> None" and "node_of_arg a s = Inr node"
    and "select_node a s = Inr t"
  shows "viz_ok n t"
proof (cases "node = selected_node s")
  case True
  then show ?thesis using assms by (simp add: select_node_def)
next
  case False
  have "map_of (node_selected s) i = Some True \<longleftrightarrow> selected_node s = Some i" for i using assms(1) by (simp add: viz_ok_def)
  then show ?thesis
    using assms(1,3,4) False
    by (cases node; cases "selected_node s")
      (auto simp: select_node_def viz_ok_def set_selected_def interest_def Let_def split: show_mode.splits if_splits)
qed

lemma viz_ok_op: "viz_ok n s \<Longrightarrow> viz_ok n (viz_op n x s)"
proof (cases x)
  case (Get_Node i)
  assume "viz_ok n s"
  moreover from this have "map_of (node_selected s) i = None \<Longrightarrow> selected_node s \<noteq> Some i"
    unfolding viz_ok_def by (metis option.distinct(1))
  ultimately show ?thesis using Get_Node by (auto simp: viz_op_def get_node_def viz_ok_def split: option.splits)
next
  case (Set_Mode mode)
  assume "viz_ok n s"
  with Set_Mode show ?thesis by (simp add: viz_op_def set_show_transmissions_mode_def viz_ok_def)
next
  case (Select a)
  assume ok: "viz_ok n s"
  show ?thesis
  proof (cases "select_node a s")
    case (Inl e)
    then show ?thesis using ok Select by (auto simp: viz_op_def split: node_arg.splits)
  next
    case (Inr t)
    then obtain node where node: "node_of_arg a s = Inr node" by (auto simp: select_node_def bind_res_Inr_iff)
    show ?thesis
    proof (cases "\<exists>i. a = Node_View i \<and> map_of (node_selected s) i = None")
      case True
      then show ?thesis using ok Select by (auto simp: viz_op_def)
    next
      case False
      then have "node = None \<or> map_of (node_selected s) (the node) \<noteq> None"
        using node by (cases a) (auto simp: node_of_arg_def bind_res_Inr_iff dict_get_Inr_iff)
      from viz_ok_select [OF ok this node Inr] show ?thesis
        using Inr Select False by (auto simp: viz_op_def split: node_arg.splits)
    qed
  qed
qed

text \<open>Whatever is selected, looked up or switched, in any order and with any arguments, exactly the selected
  node is marked as selected, and the simulator is asked for the transmissions of exactly the nodes the mode
  stands for: all, none, or the selected one.\<close>

theorem selection_and_interest_agree:
  "(map_of (node_selected (fold (viz_op n) ops (first_state n))) i = Some True) =
     (selected_node (fold (viz_op n) ops (first_state n)) = Some i) \<and>
   nodes_of_interest (fold (viz_op n) ops (first_state n)) =
     interest n (show_mode (fold (viz_op n) ops (first_state n))) (selected_node (fold (viz_op n) ops (first_state n)))"
proof -
  have "viz_ok n (fold (viz_op n) ops (first_state n))"
  proof (rule fold_invariant [where Q = "\<lambda>_. True"])
    show "viz_ok n (first_state n)" by (simp add: viz_ok_def first_state_def set_show_transmissions_mode_def)
  qed (simp_all add: viz_ok_op)
  then show ?thesis by (simp add: viz_ok_def)
qed

text \<open>The numbers on the arrows are those of the last samples only: after any number of updates the bytes and
  the count for a transmitter and receiver are the sum and the number of their samples in the last
  \<open>smooth_factor\<close> sets, and a pair without samples there has no arrow.\<close>

theorem transmissions_average_of_window:
  "map_of (transmissions_average (fold (remember smooth_factor) sets [])) (t, r) =
     (let xs = filter (\<lambda>x. transmitter x = t \<and> receiver x = r) (concat (last_n smooth_factor sets)) in
      if xs = [] then None else Some (sum_list (map sample_bytes xs), length xs))"
  by (simp add: remember_all transmissions_average_def fold_fold_concat add_samples_lookup Let_def split: list.split)

text \<open>Arrows are reused and never lost: after any number of updates of the view, every arrow ever made is in the
  list exactly once, and those visible are exactly the first ones, as many as the last update had keys.\<close>

theorem arrows_reused:
  "(case fold update_arrows (ks @ [k]) (0, []) of (fresh, arrows) \<Rightarrow>
     distinct (map arrow_id arrows) \<and> set (map arrow_id arrows) = {..<fresh} \<and> k \<le> length arrows \<and>
     list_all visible (take k arrows) \<and> list_all (\<lambda>a. \<not> visible a) (drop k arrows))"
proof -
  have all: "distinct (map arrow_id arrows) \<and> set (map arrow_id arrows) = {..<fresh} \<Longrightarrow>
      (case update_arrows n (fresh, arrows) of (f, as) \<Rightarrow>
        distinct (map arrow_id as) \<and> set (map arrow_id as) = {..<f} \<and> n \<le> length as \<and>
        list_all visible (take n as) \<and> list_all (\<lambda>a. \<not> visible a) (drop n as))" for n fresh arrows
  proof -
    assume d: "distinct (map arrow_id arrows) \<and> set (map arrow_id arrows) = {..<fresh}"
    have ids: "map arrow_id (map (\<lambda>a. a\<lparr>visible := False\<rparr>) arrows) = map arrow_id arrows" by simp
    have "pool_ok \<lparr>old_arrows = map (\<lambda>a. a\<lparr>visible := False\<rparr>) arrows, new_arrows = [], next_id = fresh\<rparr> 0"
      unfolding pool_ok_def using d by (simp add: ids list_all_iff del: map_map)
    from pool_ok_takes [OF this, of n] show ?thesis
      by (simp add: update_arrows_def Let_def pool_ok_def image_Un)
  qed
  have "case fold update_arrows ks (0, []) of (fresh, arrows) \<Rightarrow>
      distinct (map arrow_id arrows) \<and> set (map arrow_id arrows) = {..<fresh}"
  proof (rule fold_invariant [where Q = "\<lambda>_. True"])
    fix x :: nat and s :: "nat \<times> arrow list"
    assume "case s of (fresh, arrows) \<Rightarrow> distinct (map arrow_id arrows) \<and> set (map arrow_id arrows) = {..<fresh}"
    then show "case update_arrows x s of (fresh, arrows) \<Rightarrow> distinct (map arrow_id arrows) \<and> set (map arrow_id arrows) = {..<fresh}"
      using all [of "snd s" "fst s" x] by (simp add: case_prod_beta)
  qed simp_all
  then show ?thesis using all [of "snd (fold update_arrows ks (0, []))" "fst (fold update_arrows ks (0, []))" k]
    by (simp add: case_prod_beta)
qed

text \<open>The rates of a node's interfaces are taken over the last ten snapshots of that node and no others:
  nothing until there are ten, then the difference of the last and the tenth last over nine sample periods,
  or an \<open>IndexError\<close> when an interface was added in between.\<close>

theorem interface_rates_over_window:
  "get_interface_statistics fl period (fold periodic_update us []) node =
     (let l = snapshots node us in
      if length l < 10 then Inr []
      else interface_rates fl (fl (period * 9)) (l ! (length l - 10)) (last l))"
proof -
  have "hd (last_n 10 l) = l ! (length l - 10) \<and> last (last_n 10 l) = last l" if "10 \<le> length l" for l :: "iface list list"
    using that by (simp add: last_n_def hd_drop_conv_nth)
  moreover have "length (last_n 10 l) = min 10 (length l)" for l :: "iface list list" by (simp add: last_n_def)
  ultimately show ?thesis
    by (simp add: get_interface_statistics_def raw_stats_updates NODE_STATISTICS_MEMORY_def Let_def)
qed

end
