(* ===== verification/Viz_Scene.thy ===== *)
theory Viz_Scene
  imports Py_Strings Py_Float
begin

unbundle bit_operations_syntax

text \<open>
  The objects of \<open>visualizer/core.py\<close> on the canvas: \<open>Node\<close>, \<open>Channel\<close>, \<open>WiredLink\<close>, with the icons of
  \<open>svgitem.py\<close> and the scale of \<open>base.py\<close>.  A node keeps what it is (size, colour, label, selected or not) and
  what it has told its canvas items; a line is drawn when one of its ends is given a position.  Shown: what is
  drawn is always what the objects say.  The rounding of floats is \<open>fl\<close>; how the canvas paints is not modelled.
\<close>

section \<open>Scale\<close>

type_synonym point = "rat \<times> rat"

definition PIXELS_PER_METER :: rat where
  "PIXELS_PER_METER = 3"

definition distance_to_canvas :: "(rat \<Rightarrow> rat) \<Rightarrow> rat \<Rightarrow> rat" where
  "distance_to_canvas fl d = fl (d * PIXELS_PER_METER)"

definition point_to_canvas :: "(rat \<Rightarrow> rat) \<Rightarrow> point \<Rightarrow> point" where
  "point_to_canvas fl p = (fl (fst p * PIXELS_PER_METER), fl (snd p * PIXELS_PER_METER))"

definition distance_to_simulation :: "(rat \<Rightarrow> rat) \<Rightarrow> rat \<Rightarrow> rat" where
  "distance_to_simulation fl d = fl (d / PIXELS_PER_METER)"

section \<open>Icons\<close>

text \<open>\<open>SvgItem\<close>: the size of the picture, the size asked for, and the size it is drawn with.\<close>

record svg_item =
  svg_pos :: point
  svg_sx :: rat
  svg_sy :: rat
  handle_width :: rat
  handle_height :: rat
  svg_width :: rat
  svg_height :: rat
  custom_width :: "rat option"
  custom_height :: "rat option"

definition new_svg :: "point \<Rightarrow> rat \<times> rat \<Rightarrow> svg_item" where
  "new_svg p h = \<lparr>svg_pos = p, svg_sx = 1, svg_sy = 1, handle_width = fst h, handle_height = snd h,
     svg_width = fst h, svg_height = snd h, custom_width = None, custom_height = None\<rparr>"

definition size_changed :: "(rat \<Rightarrow> rat) \<Rightarrow> svg_item \<Rightarrow> svg_item" where
  "size_changed fl s =
     (case (custom_width s, custom_height s) of
        (None, None) \<Rightarrow> s\<lparr>svg_width := handle_width s, svg_height := handle_height s, svg_sx := 1, svg_sy := 1\<rparr>
      | (Some w, None) \<Rightarrow>
          (let k = fl (w / handle_width s)
           in s\<lparr>svg_width := w, svg_sx := k, svg_sy := k, svg_height := fl (handle_height s * k)\<rparr>)
      | (None, Some h) \<Rightarrow>
          (let k = fl (h / handle_height s)
           in s\<lparr>svg_height := h, svg_sy := k, svg_sx := k, svg_width := fl (handle_width s * k)\<rparr>)
      | (Some w, Some h) \<Rightarrow>
          s\<lparr>svg_width := w, svg_height := h, svg_sx := fl (w / handle_width s), svg_sy := fl (h / handle_height s)\<rparr>)"

text \<open>\<open>do_set_property\<close> and \<open>do_get_property\<close>.  Reading the width sets both sizes back to those of the picture.\<close>

datatype svg_property = Svg_X rat | Svg_Y rat | Svg_Width rat | Svg_Height rat

definition set_property :: "(rat \<Rightarrow> rat) \<Rightarrow> svg_property \<Rightarrow> svg_item \<Rightarrow> svg_item" where
  "set_property fl p s =
     (case p of
        Svg_X v \<Rightarrow> s\<lparr>svg_pos := (v, snd (svg_pos s))\<rparr>
      | Svg_Y v \<Rightarrow> s\<lparr>svg_pos := (fst (svg_pos s), v)\<rparr>
      | Svg_Width v \<Rightarrow> size_changed fl (s\<lparr>custom_width := Some v\<rparr>)
      | Svg_Height v \<Rightarrow> size_changed fl (s\<lparr>custom_height := Some v\<rparr>))"

definition get_width :: "svg_item \<Rightarrow> rat \<times> svg_item" where
  "get_width s = (handle_width s, s\<lparr>svg_width := handle_width s, svg_height := handle_height s\<rparr>)"

definition svg_is_item_at :: "point \<Rightarrow> svg_item \<Rightarrow> bool" where
  "svg_is_item_at p s = (\<not> (fst p < fst (svg_pos s) \<or> fst p > fst (svg_pos s) + svg_width s \<or>
     snd p < snd (svg_pos s) \<or> snd p > snd (svg_pos s) + svg_height s))"

text \<open>With one size given the picture keeps its shape, and the size drawn is the scaled size of the picture.\<close>

lemma icon_keeps_shape:
  assumes "0 < fst h" and "0 < snd h"
  shows "case set_property exact (Svg_Width w) (new_svg p h) of s \<Rightarrow>
      svg_width s = w \<and> svg_width s * snd h = svg_height s * fst h \<and> svg_width s = svg_sx s * fst h \<and> svg_height s = svg_sy s * snd h"
    and "case set_property exact (Svg_Height w) (new_svg p h) of s \<Rightarrow>
      svg_height s = w \<and> svg_width s * snd h = svg_height s * fst h \<and> svg_width s = svg_sx s * fst h \<and> svg_height s = svg_sy s * snd h"
  using assms by (simp_all add: set_property_def size_changed_def new_svg_def exact_def Let_def)

section \<open>Nodes, channels, links\<close>

text \<open>What the ellipse of a node is told.  \<open>old_icons\<close> are the pictures of a node that were replaced: nothing takes
  them off the canvas.\<close>

record appearance =
  radius :: rat
  fill :: int
  border :: rat
  stroke :: string

record node_view =
  center :: point
  node_links :: "nat list"
  has_mobility :: "bool option"
  selected :: bool
  highlighted :: bool
  color :: int
  node_size :: rat
  node_svg :: "(svg_item \<times> rat \<times> rat) option"
  old_icons :: "svg_item list"
  node_label :: "string option"
  drawn :: appearance
  label_item :: "(string \<times> point) option"

record channel_view =
  chan_center :: point
  chan_links :: "nat list"

text \<open>An end of a link is a node, or a channel with its identity.\<close>

datatype end_point = At_Node int | At_Channel int

record wired_link =
  end1 :: end_point
  end2 :: end_point
  link_data :: "(point \<times> point) option"

record scene =
  sc_nodes :: "(int, node_view) dict"
  sc_channels :: "(int, channel_view) dict"
  sc_links :: "wired_link list"

definition empty_scene :: scene where
  "empty_scene = \<lparr>sc_nodes = [], sc_channels = [], sc_links = []\<rparr>"

definition position :: "scene \<Rightarrow> end_point \<Rightarrow> point" where
  "position sc e =
     (case e of
        At_Node i \<Rightarrow> (case map_of (sc_nodes sc) i of Some n \<Rightarrow> center n | None \<Rightarrow> (0, 0))
      | At_Channel c \<Rightarrow> (case map_of (sc_channels sc) c of Some n \<Rightarrow> chan_center n | None \<Rightarrow> (0, 0)))"

definition links_at :: "scene \<Rightarrow> end_point \<Rightarrow> nat list" where
  "links_at sc e =
     (case e of
        At_Node i \<Rightarrow> (case map_of (sc_nodes sc) i of Some n \<Rightarrow> node_links n | None \<Rightarrow> [])
      | At_Channel c \<Rightarrow> (case map_of (sc_channels sc) c of Some n \<Rightarrow> chan_links n | None \<Rightarrow> []))"

definition on_node :: "int \<Rightarrow> (node_view \<Rightarrow> node_view) \<Rightarrow> scene \<Rightarrow> scene" where
  "on_node i f sc = (case map_of (sc_nodes sc) i of None \<Rightarrow> sc | Some n \<Rightarrow> sc\<lparr>sc_nodes := dict_set i (f n) (sc_nodes sc)\<rparr>)"

definition on_channel :: "int \<Rightarrow> (channel_view \<Rightarrow> channel_view) \<Rightarrow> scene \<Rightarrow> scene" where
  "on_channel c f sc =
     (case map_of (sc_channels sc) c of None \<Rightarrow> sc | Some n \<Rightarrow> sc\<lparr>sc_channels := dict_set c (f n) (sc_channels sc)\<rparr>)"

section \<open>Positions\<close>

text \<open>\<open>WiredLink.update_points\<close>\<close>

definition update_points :: "nat \<Rightarrow> scene \<Rightarrow> scene" where
  "update_points k sc =
     (let l = sc_links sc ! k
      in sc\<lparr>sc_links := (sc_links sc)[k := l\<lparr>link_data := Some (position sc (end1 l), position sc (end2 l))\<rparr>]\<rparr>)"

definition update_svg_position :: "(rat \<Rightarrow> rat) \<Rightarrow> point \<Rightarrow> svg_item \<times> rat \<times> rat \<Rightarrow> svg_item \<times> rat \<times> rat" where
  "update_svg_position fl p = (\<lambda>(s, ax, ay).
     (s\<lparr>svg_pos := (fl (fst p - fl (fl (1 - ax) * svg_width s)), fl (snd p - fl (fl (1 - ay) * svg_height s)))\<rparr>, ax, ay))"

definition label_point :: "(rat \<Rightarrow> rat) \<Rightarrow> point \<Rightarrow> rat \<Rightarrow> point" where
  "label_point fl p sz = (fst p, fl (snd p + fl (sz * 3)))"

definition move_node :: "(rat \<Rightarrow> rat) \<Rightarrow> point \<Rightarrow> node_view \<Rightarrow> node_view" where
  "move_node fl p n = n\<lparr>center := p, node_svg := map_option (update_svg_position fl p) (node_svg n)\<rparr>"

definition move_label :: "(rat \<Rightarrow> rat) \<Rightarrow> point \<Rightarrow> node_view \<Rightarrow> node_view" where
  "move_label fl p n = n\<lparr>label_item := map_option (\<lambda>(t, _). (t, label_point fl p (node_size n))) (label_item n)\<rparr>"

text \<open>\<open>Node.set_position\<close> and \<open>Channel.set_position\<close>\<close>

definition set_position :: "(rat \<Rightarrow> rat) \<Rightarrow> end_point \<Rightarrow> point \<Rightarrow> scene \<Rightarrow> scene" where
  "set_position fl e p sc =
     (case e of
        At_Node i \<Rightarrow>
          (let sc = on_node i (move_node fl p) sc;
               sc = fold update_points (links_at sc e) sc
           in on_node i (move_label fl p) sc)
      | At_Channel c \<Rightarrow>
          (let sc = on_channel c (\<lambda>n. n\<lparr>chan_center := p\<rparr>) sc
           in fold update_points (links_at sc e) sc))"

section \<open>Appearance\<close>

definition appearance_of :: "(rat \<Rightarrow> rat) \<Rightarrow> node_view \<Rightarrow> appearance" where
  "appearance_of fl n =
     (let sz = distance_to_canvas fl (node_size n)
      in \<lparr>radius = sz,
          fill = (color n AND 0xffffff00) OR (if node_svg n = None then 0xff else 0x80),
          border = fl (sz * fl (if selected n then 3 / 10 else 15 / 100)),
          stroke = (if highlighted n then ''yellow'' else ''black'')\<rparr>)"

text \<open>\<open>_update_appearance\<close>: the item of the label is made when there is first a label; then the node is set
  to where it is.\<close>

definition show_appearance :: "(rat \<Rightarrow> rat) \<Rightarrow> node_view \<Rightarrow> node_view" where
  "show_appearance fl n =
     (let n = n\<lparr>drawn := appearance_of fl n\<rparr>
      in case node_label n of
           None \<Rightarrow> n
         | Some t \<Rightarrow> n\<lparr>label_item := Some (t, case label_item n of None \<Rightarrow> (0, 0) | Some (_, p) \<Rightarrow> p)\<rparr>)"

definition update_appearance :: "(rat \<Rightarrow> rat) \<Rightarrow> int \<Rightarrow> scene \<Rightarrow> scene" where
  "update_appearance fl i sc =
     (let sc = on_node i (show_appearance fl) sc
      in case map_of (sc_nodes sc) i of
           None \<Rightarrow> sc
         | Some n \<Rightarrow> (if node_label n = None then sc else set_position fl (At_Node i) (center n) sc))"

definition DEFAULT_NODE_SIZE :: rat where
  "DEFAULT_NODE_SIZE = 3"

definition blank_node :: node_view where
  "blank_node = \<lparr>center = (0, 0), node_links = [], has_mobility = None, selected = False, highlighted = False,
     color = 0x808080ff, node_size = DEFAULT_NODE_SIZE, node_svg = None, old_icons = [], node_label = None,
     drawn = \<lparr>radius = 0, fill = 0, border = 0, stroke = []\<rparr>, label_item = None\<rparr>"

text \<open>\<open>Visualizer.get_node\<close>, \<open>get_channel\<close>, \<open>create_link\<close>\<close>

definition get_node_view :: "(rat \<Rightarrow> rat) \<Rightarrow> int \<Rightarrow> scene \<Rightarrow> scene" where
  "get_node_view fl i sc =
     (case map_of (sc_nodes sc) i of
        Some _ \<Rightarrow> sc
      | None \<Rightarrow> update_appearance fl i (sc\<lparr>sc_nodes := dict_set i blank_node (sc_nodes sc)\<rparr>))"

definition get_channel_view :: "int \<Rightarrow> scene \<Rightarrow> scene" where
  "get_channel_view c sc =
     (case map_of (sc_channels sc) c of
        Some _ \<Rightarrow> sc
      | None \<Rightarrow> sc\<lparr>sc_channels := dict_set c \<lparr>chan_center = (0, 0), chan_links = []\<rparr> (sc_channels sc)\<rparr>)"

definition get_end :: "(rat \<Rightarrow> rat) \<Rightarrow> end_point \<Rightarrow> scene \<Rightarrow> scene" where
  "get_end fl e sc = (case e of At_Node i \<Rightarrow> get_node_view fl i sc | At_Channel c \<Rightarrow> get_channel_view c sc)"

definition attach :: "nat \<Rightarrow> end_point \<Rightarrow> scene \<Rightarrow> scene" where
  "attach k e sc =
     (case e of
        At_Node i \<Rightarrow> on_node i (\<lambda>n. n\<lparr>node_links := node_links n @ [k]\<rparr>) sc
      | At_Channel c \<Rightarrow> on_channel c (\<lambda>n. n\<lparr>chan_links := chan_links n @ [k]\<rparr>) sc)"

definition create_link :: "(rat \<Rightarrow> rat) \<Rightarrow> int \<Rightarrow> end_point \<Rightarrow> scene \<Rightarrow> scene" where
  "create_link fl i e sc =
     (let sc = get_end fl e (get_node_view fl i sc); k = length (sc_links sc);
          sc = sc\<lparr>sc_links := sc_links sc @ [\<lparr>end1 = At_Node i, end2 = e, link_data = None\<rparr>]\<rparr>
      in attach k e (attach k (At_Node i) sc))"

section \<open>What is done to a node\<close>

text \<open>\<open>gtk.gdk.color_parse\<close> gives three channels of 16 bits.\<close>

definition rgba :: "int \<times> int \<times> int \<Rightarrow> int" where
  "rgba c = (case c of (r, g, b) \<Rightarrow>
     push_bit 24 (drop_bit 8 r) OR push_bit 16 (drop_bit 8 g) OR push_bit 8 (drop_bit 8 b) OR 0xff)"

datatype node_op =
    Set_Selected bool | Set_Highlighted bool | Set_Size rat | Set_Label string
  | Set_Color int | Set_Color_Name "int \<times> int \<times> int"
  | Set_Svg_Icon "rat \<times> rat" "rat option" "rat option" rat rat

definition set_size :: "(rat \<Rightarrow> rat) \<Rightarrow> (rat \<Rightarrow> svg_property) \<Rightarrow> rat option \<Rightarrow> svg_item \<Rightarrow> svg_item" where
  "set_size fl prop v s = (case v of None \<Rightarrow> s | Some x \<Rightarrow> set_property fl (prop (distance_to_canvas fl x)) s)"

text \<open>The new picture takes the place of the former one in \<open>svg_item\<close>; the former one stays on the canvas.\<close>

definition icons_on_canvas :: "node_view \<Rightarrow> svg_item list" where
  "icons_on_canvas n = old_icons n @ (case node_svg n of None \<Rightarrow> [] | Some (s, _, _) \<Rightarrow> [s])"

definition svg_icon :: "(rat \<Rightarrow> rat) \<Rightarrow> rat \<times> rat \<Rightarrow> rat option \<Rightarrow> rat option \<Rightarrow> rat \<Rightarrow> rat \<Rightarrow> node_view \<Rightarrow> node_view" where
  "svg_icon fl h w ht ax ay n =
     n\<lparr>node_svg := Some (update_svg_position fl (center n)
        (set_size fl Svg_Height ht (set_size fl Svg_Width w (new_svg (center n) h)), ax, ay)),
       old_icons := icons_on_canvas n\<rparr>"

definition node_op :: "(rat \<Rightarrow> rat) \<Rightarrow> node_op \<Rightarrow> node_view \<Rightarrow> node_view" where
  "node_op fl x n =
     (case x of
        Set_Selected b \<Rightarrow> n\<lparr>selected := b\<rparr>
      | Set_Highlighted b \<Rightarrow> n\<lparr>highlighted := b\<rparr>
      | Set_Size v \<Rightarrow> n\<lparr>node_size := v\<rparr>
      | Set_Label t \<Rightarrow> n\<lparr>node_label := Some t\<rparr>
      | Set_Color c \<Rightarrow> n\<lparr>color := c\<rparr>
      | Set_Color_Name c \<Rightarrow> n\<lparr>color := rgba c\<rparr>
      | Set_Svg_Icon h w ht ax ay \<Rightarrow> svg_icon fl h w ht ax ay n)"

text \<open>A picture without a size is refused before anything is changed.\<close>

definition refused :: "node_op \<Rightarrow> bool" where
  "refused x = (case x of Set_Svg_Icon _ None None _ _ \<Rightarrow> True | _ \<Rightarrow> False)"

definition apply_node_op :: "(rat \<Rightarrow> rat) \<Rightarrow> int \<Rightarrow> node_op \<Rightarrow> scene \<Rightarrow> scene res" where
  "apply_node_op fl i x sc =
     (if refused x then Inl ValueError else Inr (update_appearance fl i (on_node i (node_op fl x) sc)))"

section \<open>What is drawn\<close>

definition svg_placed :: "(rat \<Rightarrow> rat) \<Rightarrow> node_view \<Rightarrow> bool" where
  "svg_placed fl n = (case node_svg n of None \<Rightarrow> True | Some v \<Rightarrow> update_svg_position fl (center n) v = v)"

definition node_ok :: "(rat \<Rightarrow> rat) \<Rightarrow> node_view \<Rightarrow> bool" where
  "node_ok fl n \<longleftrightarrow> drawn n = appearance_of fl n \<and>
     label_item n = map_option (\<lambda>t. (t, label_point fl (center n) (node_size n))) (node_label n) \<and>
     svg_placed fl n"

definition nodes_ok :: "(rat \<Rightarrow> rat) \<Rightarrow> scene \<Rightarrow> bool" where
  "nodes_ok fl sc \<longleftrightarrow> (\<forall>i n. map_of (sc_nodes sc) i = Some n \<longrightarrow> node_ok fl n)"

definition wired :: "scene \<Rightarrow> bool" where
  "wired sc \<longleftrightarrow> (\<forall>e k. k \<in> set (links_at sc e) \<longleftrightarrow>
     k < length (sc_links sc) \<and> (end1 (sc_links sc ! k) = e \<or> end2 (sc_links sc ! k) = e))"

definition line_of :: "scene \<Rightarrow> wired_link \<Rightarrow> point \<times> point" where
  "line_of sc l = (position sc (end1 l), position sc (end2 l))"

definition lines_ok :: "scene \<Rightarrow> bool" where
  "lines_ok sc \<longleftrightarrow> (\<forall>k<length (sc_links sc). link_data (sc_links sc ! k) = None \<or>
     link_data (sc_links sc ! k) = Some (line_of sc (sc_links sc ! k)))"

definition scene_ok :: "(rat \<Rightarrow> rat) \<Rightarrow> scene \<Rightarrow> bool" where
  "scene_ok fl sc \<longleftrightarrow> nodes_ok fl sc \<and> wired sc \<and> lines_ok sc"

lemma on_node_simps [simp]:
  "map_of (sc_nodes (on_node i f sc)) = (map_of (sc_nodes sc))(i := map_option f (map_of (sc_nodes sc) i))"
  "sc_channels (on_node i f sc) = sc_channels sc" "sc_links (on_node i f sc) = sc_links sc"
  by (auto simp: on_node_def fun_eq_iff split: option.split)

lemma on_channel_simps [simp]:
  "map_of (sc_channels (on_channel c f sc)) = (map_of (sc_channels sc))(c := map_option f (map_of (sc_channels sc) c))"
  "sc_nodes (on_channel c f sc) = sc_nodes sc" "sc_links (on_channel c f sc) = sc_links sc"
  by (auto simp: on_channel_def fun_eq_iff split: option.split)

lemma update_points_simps [simp]:
  "sc_nodes (fold update_points ks sc) = sc_nodes sc" "sc_channels (fold update_points ks sc) = sc_channels sc"
  "length (sc_links (fold update_points ks sc)) = length (sc_links sc)"
  by (induction ks arbitrary: sc) (simp_all add: update_points_def Let_def)

lemma position_cong: "sc_nodes a = sc_nodes b \<Longrightarrow> sc_channels a = sc_channels b \<Longrightarrow> position a = position b"
  by (simp add: position_def fun_eq_iff split: end_point.split)

lemma links_at_cong: "sc_nodes a = sc_nodes b \<Longrightarrow> sc_channels a = sc_channels b \<Longrightarrow> links_at a = links_at b"
  by (simp add: links_at_def fun_eq_iff split: end_point.split)

lemma update_points_nth:
  "j < length (sc_links sc) \<Longrightarrow> sc_links (fold update_points ks sc) ! j =
     (if j \<in> set ks then (sc_links sc ! j)\<lparr>link_data := Some (line_of sc (sc_links sc ! j))\<rparr> else sc_links sc ! j)"
proof (induction ks arbitrary: sc)
  case (Cons k ks)
  let ?s = "update_points k sc"
  have p: "line_of ?s = line_of sc"
    using position_cong [of ?s sc] by (simp add: update_points_def Let_def line_of_def fun_eq_iff)
  have j: "sc_links ?s ! j = (if j = k then (sc_links sc ! j)\<lparr>link_data := Some (line_of sc (sc_links sc ! j))\<rparr> else sc_links sc ! j)"
    using Cons.prems by (simp add: update_points_def Let_def line_of_def)
  have "j < length (sc_links ?s)" using Cons.prems by (simp add: update_points_def Let_def)
  from Cons.IH [OF this, unfolded j p] show ?case by (simp add: line_of_def)
qed simp

lemma refreshed_lines:
  assumes "wired sc"
    and "links_at sc' = links_at sc" and "sc_links sc' = sc_links sc"
    and "\<And>e'. e' \<noteq> e \<Longrightarrow> position sc' e' = position sc e'"
    and "lines_ok sc"
  shows "lines_ok (fold update_points (links_at sc' e) sc')"
  unfolding lines_ok_def
proof (intro allI impI)
  fix k
  let ?f = "fold update_points (links_at sc' e) sc'"
  let ?l = "sc_links sc ! k"
  assume "k < length (sc_links ?f)"
  then have k: "k < length (sc_links sc)" using assms(3) by simp
  have nth: "sc_links ?f ! k = (if k \<in> set (links_at sc e) then ?l\<lparr>link_data := Some (line_of sc' ?l)\<rparr> else ?l)"
    using update_points_nth [of k sc' "links_at sc' e"] k assms(2,3) by simp
  have pos: "line_of ?f = line_of sc'" using position_cong [of ?f sc'] by (simp add: line_of_def fun_eq_iff)
  show "link_data (sc_links ?f ! k) = None \<or> link_data (sc_links ?f ! k) = Some (line_of ?f (sc_links ?f ! k))"
  proof (cases "k \<in> set (links_at sc e)")
    case True
    then show ?thesis unfolding pos nth by (simp add: line_of_def)
  next
    case False
    then have "end1 ?l \<noteq> e" "end2 ?l \<noteq> e" using assms(1) k by (auto simp: wired_def)
    then have "line_of sc' ?l = line_of sc ?l" using assms(4) by (simp add: line_of_def)
    then show ?thesis unfolding pos nth using False assms(5) k by (simp add: lines_ok_def)
  qed
qed

lemma refreshed_wired:
  assumes "wired sc" and "links_at sc' = links_at sc" and "sc_links sc' = sc_links sc"
  shows "wired (fold update_points ks sc')"
proof -
  let ?f = "fold update_points ks sc'"
  have l: "links_at ?f = links_at sc" using links_at_cong [of ?f sc'] assms(2) by simp
  have "end1 (sc_links ?f ! k) = end1 (sc_links sc ! k) \<and> end2 (sc_links ?f ! k) = end2 (sc_links sc ! k)"
    if "k < length (sc_links sc)" for k
    using update_points_nth [of k sc' ks] that assms(3) by simp
  then show ?thesis using assms(1,3) unfolding wired_def l by auto
qed

section \<open>Moving\<close>

lemma position_on_node: "(\<And>n. center (f n) = center n) \<Longrightarrow> position (on_node i f sc) = position sc"
  by (auto simp: position_def fun_eq_iff split: end_point.split option.splits)

lemma links_on_node: "(\<And>n. node_links (f n) = node_links n) \<Longrightarrow> links_at (on_node i f sc) = links_at sc"
  by (auto simp: links_at_def fun_eq_iff split: end_point.split option.splits)

lemma on_node_lines:
  assumes "\<And>n. center (f n) = center n" and "\<And>n. node_links (f n) = node_links n"
  shows "lines_ok (on_node i f sc) = lines_ok sc" "wired (on_node i f sc) = wired sc"
  by (simp_all add: lines_ok_def wired_def line_of_def position_on_node assms links_on_node)

text \<open>A node that shows its appearance and its label, but maybe not in the right place.\<close>

definition shown :: "(rat \<Rightarrow> rat) \<Rightarrow> node_view \<Rightarrow> bool" where
  "shown fl n \<longleftrightarrow> drawn n = appearance_of fl n \<and> map_option fst (label_item n) = node_label n"

lemma node_ok_shown: "node_ok fl n \<Longrightarrow> shown fl n"
  by (cases "node_label n") (simp_all add: node_ok_def shown_def)

lemma appearance_moved: "appearance_of fl (move_node fl p n) = appearance_of fl n"
  by (simp add: appearance_of_def move_node_def Let_def)

lemma update_svg_position_idem: "update_svg_position fl p (update_svg_position fl p v) = update_svg_position fl p v"
  by (cases v) (simp add: update_svg_position_def)

lemma moved_ok: "shown fl n \<Longrightarrow> node_ok fl (move_label fl p (move_node fl p n))"
  by (cases "node_label n"; cases "label_item n")
    (auto simp: node_ok_def shown_def move_label_def move_node_def appearance_of_def Let_def svg_placed_def update_svg_position_idem split: option.splits)

lemma set_position_ok:
  assumes "wired sc" and "lines_ok sc"
    and "\<And>j n. map_of (sc_nodes sc) j = Some n \<Longrightarrow> (if e = At_Node j then shown fl n else node_ok fl n)"
  shows "scene_ok fl (set_position fl e p sc)"
proof (cases e)
  case (At_Node i)
  let ?a = "on_node i (move_node fl p) sc"
  let ?b = "fold update_points (links_at ?a e) ?a"
  have l: "links_at ?a = links_at sc" by (rule links_on_node) (simp add: move_node_def)
  have ends: "position ?a e' = position sc e'" if "e' \<noteq> e" for e'
    using that At_Node by (auto simp: position_def split: end_point.split)
  have b: "lines_ok ?b" "wired ?b"
    using refreshed_lines [OF assms(1) l _ ends assms(2)] refreshed_wired [OF assms(1) l] by simp_all
  have r: "set_position fl e p sc = on_node i (move_label fl p) ?b" by (simp add: set_position_def At_Node Let_def)
  have "lines_ok (set_position fl e p sc) \<and> wired (set_position fl e p sc)"
    unfolding r using b by (simp add: on_node_lines move_label_def)
  moreover have "nodes_ok fl (set_position fl e p sc)"
    unfolding r nodes_ok_def using assms(3) At_Node by (auto intro: moved_ok split: if_splits)
  ultimately show ?thesis by (simp add: scene_ok_def)
next
  case (At_Channel c)
  let ?a = "on_channel c (\<lambda>n. n\<lparr>chan_center := p\<rparr>) sc"
  let ?b = "fold update_points (links_at ?a e) ?a"
  have l: "links_at ?a = links_at sc" by (auto simp: links_at_def fun_eq_iff split: end_point.split option.splits)
  have ends: "position ?a e' = position sc e'" if "e' \<noteq> e" for e'
    using that At_Channel by (auto simp: position_def split: end_point.split)
  have b: "lines_ok ?b" "wired ?b"
    using refreshed_lines [OF assms(1) l _ ends assms(2)] refreshed_wired [OF assms(1) l] by simp_all
  have r: "set_position fl e p sc = ?b" by (simp add: set_position_def At_Channel Let_def)
  have "nodes_ok fl ?b" unfolding nodes_ok_def using assms(3) At_Channel by auto
  with b show ?thesis unfolding r by (simp add: scene_ok_def)
qed

lemma scene_ok_node: "scene_ok fl sc \<Longrightarrow> map_of (sc_nodes sc) i = Some n \<Longrightarrow> node_ok fl n"
  by (auto simp only: scene_ok_def nodes_ok_def)

lemma scene_ok_position:
  assumes "scene_ok fl sc"
  shows "scene_ok fl (set_position fl e p sc)"
proof (rule set_position_ok)
  show "wired sc" "lines_ok sc" using assms by (simp_all only: scene_ok_def)
  show "if e = At_Node j then shown fl n else node_ok fl n" if "map_of (sc_nodes sc) j = Some n" for j n
    using scene_ok_node [OF assms that] by (simp add: node_ok_shown)
qed

lemma show_appearance_simps [simp]:
  "center (show_appearance fl n) = center n" "node_links (show_appearance fl n) = node_links n"
  "node_label (show_appearance fl n) = node_label n" "node_size (show_appearance fl n) = node_size n"
  "node_svg (show_appearance fl n) = node_svg n" "selected (show_appearance fl n) = selected n"
  "highlighted (show_appearance fl n) = highlighted n" "color (show_appearance fl n) = color n"
  by (simp_all add: show_appearance_def Let_def split: option.split)

lemma appearance_shown: "appearance_of fl (show_appearance fl n) = appearance_of fl n"
  by (simp add: appearance_of_def)

lemma svg_placed_shown: "svg_placed fl (show_appearance fl n) = svg_placed fl n"
  by (simp add: svg_placed_def split: option.split)

lemma drawn_shown: "drawn (show_appearance fl n) = appearance_of fl n"
  by (simp add: show_appearance_def Let_def split: option.split)

text \<open>A node whose fields were changed, but neither its place nor its links, is shown again.\<close>

lemma update_appearance_ok:
  assumes "wired sc" and "lines_ok sc"
    and "\<And>j n. map_of (sc_nodes sc) j = Some n \<Longrightarrow> j \<noteq> i \<Longrightarrow> node_ok fl n"
    and "\<And>n. map_of (sc_nodes sc) i = Some n \<Longrightarrow>
       svg_placed fl n \<and> (node_label n = None \<longrightarrow> label_item n = None)"
  shows "scene_ok fl (update_appearance fl i sc)"
proof -
  let ?a = "on_node i (show_appearance fl) sc"
  have a: "wired ?a" "lines_ok ?a" using assms(1,2) by (simp_all add: on_node_lines)
  show ?thesis
  proof (cases "map_of (sc_nodes sc) i")
    case None
    then have "nodes_ok fl ?a" using assms(3) by (auto simp: nodes_ok_def)
    with a None show ?thesis by (simp add: update_appearance_def Let_def scene_ok_def)
  next
    case node: (Some n)
    let ?n = "show_appearance fl n"
    have n: "map_of (sc_nodes ?a) i = Some ?n" using node by simp
    show ?thesis
    proof (cases "node_label n")
      case None
      have "label_item ?n = None" using None assms(4) [OF node] by (simp add: show_appearance_def Let_def)
      then have "node_ok fl ?n"
        using None assms(4) [OF node] by (simp add: node_ok_def drawn_shown appearance_shown svg_placed_shown)
      then have "nodes_ok fl ?a" using assms(3) node by (auto simp: nodes_ok_def)
      with a node None show ?thesis by (simp add: update_appearance_def Let_def scene_ok_def)
    next
      case (Some t)
      have "label_item ?n \<noteq> None \<and> fst (the (label_item ?n)) = t" by (simp add: show_appearance_def Let_def Some)
      then have sh: "shown fl ?n" using Some by (auto simp: shown_def drawn_shown appearance_shown)
      have "scene_ok fl (set_position fl (At_Node i) (center ?n) ?a)"
        by (rule set_position_ok [OF a]) (use assms(3) node sh in \<open>auto split: if_splits\<close>)
      with node Some show ?thesis by (simp add: update_appearance_def Let_def)
    qed
  qed
qed

section \<open>Every operation keeps the picture true\<close>

lemma node_op_fields:
  "center (node_op fl x n) = center n" "node_links (node_op fl x n) = node_links n"
  "label_item (node_op fl x n) = label_item n" "node_label (node_op fl x n) = None \<Longrightarrow> node_label n = None"
  by (auto simp: node_op_def svg_icon_def split: node_op.splits)

lemma node_op_svg: "svg_placed fl n \<Longrightarrow> svg_placed fl (node_op fl x n)"
  by (cases x) (auto simp: node_op_def svg_placed_def svg_icon_def update_svg_position_idem split: option.splits)

lemma apply_node_op_ok:
  assumes "scene_ok fl sc" and "apply_node_op fl i x sc = Inr sc'"
  shows "scene_ok fl sc'"
proof -
  let ?a = "on_node i (node_op fl x) sc"
  have sc': "sc' = update_appearance fl i ?a" using assms(2) by (simp add: apply_node_op_def split: if_splits)
  show ?thesis unfolding sc'
  proof (rule update_appearance_ok)
    show "wired ?a" "lines_ok ?a" using assms(1) by (simp_all add: on_node_lines node_op_fields scene_ok_def)
    show "node_ok fl n" if "map_of (sc_nodes ?a) j = Some n" "j \<noteq> i" for j n
      using that scene_ok_node [OF assms(1)] by simp
    fix n assume "map_of (sc_nodes ?a) i = Some n"
    then obtain m where m: "map_of (sc_nodes sc) i = Some m" and n: "n = node_op fl x m" by auto
    have ok: "node_ok fl m" by (rule scene_ok_node [OF assms(1) m])
    show "svg_placed fl n \<and> (node_label n = None \<longrightarrow> label_item n = None)"
      unfolding n node_op_fields using node_op_svg [of fl m x] ok node_op_fields(4) [of fl x m] by (auto simp: node_ok_def)
  qed
qed

text \<open>What is not there has neither a place nor links, so a new object changes neither.\<close>

lemma position_new_node: "map_of (sc_nodes sc) i = None \<Longrightarrow> center n = (0, 0) \<Longrightarrow>
    position (sc\<lparr>sc_nodes := dict_set i n (sc_nodes sc)\<rparr>) = position sc"
  by (auto simp: position_def fun_eq_iff split: end_point.split)

lemma links_new_node: "map_of (sc_nodes sc) i = None \<Longrightarrow> node_links n = [] \<Longrightarrow>
    links_at (sc\<lparr>sc_nodes := dict_set i n (sc_nodes sc)\<rparr>) = links_at sc"
  by (auto simp: links_at_def fun_eq_iff split: end_point.split)

lemma get_node_ok:
  assumes "scene_ok fl sc"
  shows "scene_ok fl (get_node_view fl i sc)"
proof (cases "map_of (sc_nodes sc) i")
  case None
  let ?a = "sc\<lparr>sc_nodes := dict_set i blank_node (sc_nodes sc)\<rparr>"
  have "position ?a = position sc" "links_at ?a = links_at sc"
    using None by (simp_all add: position_new_node links_new_node blank_node_def)
  then have a: "wired ?a" "lines_ok ?a" using assms by (simp_all add: scene_ok_def wired_def lines_ok_def line_of_def)
  have "scene_ok fl (update_appearance fl i ?a)"
  proof (rule update_appearance_ok [OF a])
    show "node_ok fl n" if "map_of (sc_nodes ?a) j = Some n" "j \<noteq> i" for j n
      using that scene_ok_node [OF assms] by simp
  qed (auto simp: blank_node_def svg_placed_def)
  with None show ?thesis by (simp add: get_node_view_def)
qed (simp add: get_node_view_def assms)

lemma get_channel_ok:
  assumes "scene_ok fl sc"
  shows "scene_ok fl (get_channel_view c sc)"
proof (cases "map_of (sc_channels sc) c")
  case None
  let ?a = "sc\<lparr>sc_channels := dict_set c \<lparr>chan_center = (0, 0), chan_links = []\<rparr> (sc_channels sc)\<rparr>"
  have "position ?a = position sc" "links_at ?a = links_at sc"
    using None by (auto simp: position_def links_at_def fun_eq_iff split: end_point.split)
  then have "scene_ok fl ?a" using assms by (simp add: scene_ok_def wired_def lines_ok_def line_of_def nodes_ok_def)
  with None show ?thesis by (simp add: get_channel_view_def)
qed (simp add: get_channel_view_def assms)

lemma get_end_ok: "scene_ok fl sc \<Longrightarrow> scene_ok fl (get_end fl e sc)"
  by (simp add: get_end_def get_node_ok get_channel_ok split: end_point.split)

definition present :: "scene \<Rightarrow> end_point \<Rightarrow> bool" where
  "present sc e = (case e of At_Node i \<Rightarrow> map_of (sc_nodes sc) i \<noteq> None | At_Channel c \<Rightarrow> map_of (sc_channels sc) c \<noteq> None)"

lemma set_position_nodes: "map_of (sc_nodes (set_position fl e p sc)) i = None \<longleftrightarrow> map_of (sc_nodes sc) i = None"
  by (auto simp: set_position_def Let_def split: end_point.split)

lemma set_position_channels: "map_of (sc_channels (set_position fl e p sc)) c = None \<longleftrightarrow> map_of (sc_channels sc) c = None"
  by (auto simp: set_position_def Let_def split: end_point.split)

lemma update_appearance_present: "present (update_appearance fl i sc) = present sc"
  by (auto simp: present_def fun_eq_iff update_appearance_def Let_def set_position_nodes set_position_channels
      split: end_point.split option.split simp del: not_None_eq)

lemma get_end_present: "present (get_end fl e sc) e'  \<longleftrightarrow> present sc e' \<or> e' = e"
proof -
  have "present (get_node_view fl i sc) e' \<longleftrightarrow> present sc e' \<or> e' = At_Node i" for i
    by (cases "map_of (sc_nodes sc) i")
      (auto simp: get_node_view_def update_appearance_present present_def split: end_point.split)
  moreover have "present (get_channel_view c sc) e' \<longleftrightarrow> present sc e' \<or> e' = At_Channel c" for c
    by (cases "map_of (sc_channels sc) c") (auto simp: get_channel_view_def present_def split: end_point.split)
  ultimately show ?thesis by (cases e) (simp_all add: get_end_def)
qed

lemma attach_simps [simp]:
  "sc_links (attach k e sc) = sc_links sc" "position (attach k e sc) = position sc"
  "present (attach k e sc) = present sc"
  by (auto simp: attach_def present_def position_def fun_eq_iff split: end_point.split option.splits)

lemma links_attach: "present sc e \<Longrightarrow> links_at (attach k e sc) e' = links_at sc e' @ (if e' = e then [k] else [])"
  by (auto simp: attach_def present_def links_at_def split: end_point.splits option.splits)

lemma node_ok_links: "node_ok fl (n\<lparr>node_links := ks\<rparr>) = node_ok fl n"
  by (simp add: node_ok_def appearance_of_def svg_placed_def split: option.split)

lemma nodes_attach: "nodes_ok fl sc \<Longrightarrow> nodes_ok fl (attach k e sc)"
  by (auto simp: attach_def nodes_ok_def node_ok_links split: end_point.split)

lemma create_link_ok:
  assumes "scene_ok fl sc"
  shows "scene_ok fl (create_link fl i e sc)"
proof -
  define s where "s = get_end fl e (get_node_view fl i sc)"
  define k where "k = length (sc_links s)"
  define l where "l = \<lparr>end1 = At_Node i, end2 = e, link_data = None\<rparr>"
  define t where "t = s\<lparr>sc_links := sc_links s @ [l]\<rparr>"
  have ok: "scene_ok fl s" unfolding s_def by (intro get_end_ok get_node_ok assms)
  have "get_node_view fl i sc = get_end fl (At_Node i) sc" by (simp add: get_end_def)
  then have "present s e" "present s (At_Node i)" unfolding s_def by (simp_all only: get_end_present) simp_all
  then have pr: "present t e" "present t (At_Node i)" by (simp_all add: t_def present_def split: end_point.splits)
  have r: "create_link fl i e sc = attach k e (attach k (At_Node i) t)"
    by (simp add: create_link_def s_def k_def l_def t_def Let_def)
  have st: "position t = position s" "links_at t = links_at s" "sc_links t = sc_links s @ [l]"
    by (simp_all add: t_def position_def links_at_def fun_eq_iff split: end_point.split)
  have ls: "links_at (create_link fl i e sc) e' = links_at s e' @ (if e' = At_Node i then [k] else []) @ (if e' = e then [k] else [])" for e'
    unfolding r using pr by (simp add: links_attach st)
  have "wired (create_link fl i e sc)"
    unfolding wired_def ls
  proof (intro allI)
    fix e' j
    show "j \<in> set (links_at s e' @ (if e' = At_Node i then [k] else []) @ (if e' = e then [k] else [])) \<longleftrightarrow>
      j < length (sc_links (create_link fl i e sc)) \<and>
      (end1 (sc_links (create_link fl i e sc) ! j) = e' \<or> end2 (sc_links (create_link fl i e sc) ! j) = e')"
      using ok unfolding r by (auto simp: st scene_ok_def wired_def k_def l_def nth_append less_Suc_eq)
  qed
  moreover have "lines_ok (create_link fl i e sc)"
    using ok unfolding r by (auto simp: lines_ok_def line_of_def st scene_ok_def l_def nth_append less_Suc_eq)
  moreover have "nodes_ok fl t" using ok by (simp add: t_def scene_ok_def nodes_ok_def)
  then have "nodes_ok fl (create_link fl i e sc)" unfolding r by (intro nodes_attach)
  ultimately show ?thesis by (simp add: scene_ok_def)
qed

text \<open>What plugins, the scan of the topology and the updates of the view do with these objects.\<close>

datatype scene_op = Ask end_point | Node_Op int node_op | Place end_point point | Link int end_point

definition scene_op :: "(rat \<Rightarrow> rat) \<Rightarrow> scene_op \<Rightarrow> scene \<Rightarrow> scene" where
  "scene_op fl x sc =
     (case x of
        Ask e \<Rightarrow> get_end fl e sc
      | Node_Op i y \<Rightarrow> (let sc = get_node_view fl i sc in case apply_node_op fl i y sc of Inl _ \<Rightarrow> sc | Inr t \<Rightarrow> t)
      | Place e p \<Rightarrow> set_position fl e p (get_end fl e sc)
      | Link i e \<Rightarrow> create_link fl i e sc)"

lemma scene_op_ok: "scene_ok fl sc \<Longrightarrow> scene_ok fl (scene_op fl x sc)"
  by (cases x)
    (auto simp: scene_op_def Let_def get_end_ok get_node_ok create_link_ok scene_ok_position
      split: sum.split intro: apply_node_op_ok [OF get_node_ok])

lemma scene_ok_empty: "scene_ok fl empty_scene"
  by (simp add: scene_ok_def empty_scene_def nodes_ok_def wired_def lines_ok_def links_at_def split: end_point.split)

section \<open>Icons that were replaced\<close>

text \<open>The icons of a node on the canvas, those that were replaced, and whether it has one now.\<close>

definition icons_of :: "scene \<Rightarrow> int \<Rightarrow> svg_item list" where
  "icons_of sc i = (case map_of (sc_nodes sc) i of None \<Rightarrow> [] | Some n \<Rightarrow> icons_on_canvas n)"

definition former_icons :: "scene \<Rightarrow> int \<Rightarrow> svg_item list" where
  "former_icons sc i = (case map_of (sc_nodes sc) i of None \<Rightarrow> [] | Some n \<Rightarrow> old_icons n)"

definition has_icon :: "node_view \<Rightarrow> bool" where
  "has_icon n = (case node_svg n of None \<Rightarrow> False | Some _ \<Rightarrow> True)"

definition marks :: "scene \<Rightarrow> int \<Rightarrow> svg_item list \<times> bool" where
  "marks sc i = (case map_of (sc_nodes sc) i of None \<Rightarrow> ([], False) | Some n \<Rightarrow> (old_icons n, has_icon n))"

definition sets_icon :: "int \<Rightarrow> scene_op \<Rightarrow> bool" where
  "sets_icon i x = (case x of Node_Op j (Set_Svg_Icon h w ht ax ay) \<Rightarrow> j = i \<and> (w \<noteq> None \<or> ht \<noteq> None) | _ \<Rightarrow> False)"

lemma marks_of: "former_icons sc i = fst (marks sc i)" "length (icons_of sc i) = length (fst (marks sc i)) + (if snd (marks sc i) then 1 else 0)"
  by (auto simp: former_icons_def icons_of_def marks_def icons_on_canvas_def has_icon_def split: option.split)

lemma marks_on_node: "(\<And>n. old_icons (f n) = old_icons n \<and> has_icon (f n) = has_icon n) \<Longrightarrow> marks (on_node i f sc) = marks sc"
  by (auto simp: marks_def fun_eq_iff split: option.splits)

lemma marks_cong: "sc_nodes a = sc_nodes b \<Longrightarrow> marks a = marks b"
  by (simp add: marks_def fun_eq_iff)

lemma marks_set_position [simp]: "marks (set_position fl e p sc) = marks sc"
proof (cases e)
  case (At_Node i)
  let ?a = "on_node i (move_node fl p) sc"
  let ?b = "fold update_points (links_at ?a e) ?a"
  have "marks (set_position fl e p sc) = marks ?b" by (simp add: set_position_def At_Node Let_def marks_on_node move_label_def has_icon_def)
  also have "marks ?b = marks ?a" by (rule marks_cong) simp
  also have "marks ?a = marks sc" by (rule marks_on_node) (simp add: move_node_def has_icon_def split: option.split)
  finally show ?thesis .
qed (simp add: set_position_def Let_def marks_def fun_eq_iff)

lemma marks_update_appearance [simp]: "marks (update_appearance fl i sc) = marks sc"
proof -
  have "marks (on_node i (show_appearance fl) sc) = marks sc"
    by (rule marks_on_node) (simp add: show_appearance_def Let_def has_icon_def split: option.split)
  then show ?thesis by (simp add: update_appearance_def Let_def split: option.split)
qed

lemma marks_get_end [simp]: "marks (get_end fl e sc) = marks sc"
proof -
  have "marks (sc\<lparr>sc_nodes := dict_set i blank_node (sc_nodes sc)\<rparr>) = marks sc" if "map_of (sc_nodes sc) i = None" for i
    using that by (auto simp: marks_def fun_eq_iff blank_node_def has_icon_def)
  then show ?thesis
    by (auto simp: get_end_def get_node_view_def get_channel_view_def marks_def split: end_point.split option.split)
qed

lemma marks_get_node [simp]: "marks (get_node_view fl i sc) = marks sc"
  using marks_get_end [of fl "At_Node i"] by (simp add: get_end_def)

lemma marks_create_link [simp]: "marks (create_link fl i e sc) = marks sc"
proof -
  have "marks (s\<lparr>sc_links := ls\<rparr>) = marks s" for s :: scene and ls by (rule marks_cong) simp
  moreover have "marks (attach k e' s) = marks s" for k e' s
  proof (cases e')
    case (At_Channel c)
    show ?thesis by (rule marks_cong) (simp add: attach_def At_Channel)
  qed (simp add: attach_def marks_on_node has_icon_def)
  ultimately show ?thesis by (simp add: create_link_def Let_def)
qed

text \<open>Only setting an icon changes them; one that was there before is kept.\<close>

lemma marks_step:
  "\<exists>more. marks (scene_op fl x sc) i = (fst (marks sc i) @ more, snd (marks sc i) \<or> sets_icon i x) \<and>
     length more = (if sets_icon i x \<and> snd (marks sc i) then 1 else 0)"
proof (cases x)
  case (Node_Op j y)
  have get: "map_of (sc_nodes (get_node_view fl j sc)) j \<noteq> None"
    using get_end_present [of fl "At_Node j" sc "At_Node j"] by (simp add: get_end_def present_def)
  show ?thesis
  proof (cases "\<exists>h w ht ax ay. y = Set_Svg_Icon h w ht ax ay")
    case True
    then obtain h w ht ax ay where y: "y = Set_Svg_Icon h w ht ax ay" by blast
    have r: "refused y = (w = None \<and> ht = None)" by (cases w; cases ht) (simp_all add: refused_def y)
    show ?thesis
    proof (cases "refused y")
      case True
      then show ?thesis using r by (simp add: Node_Op scene_op_def Let_def apply_node_op_def sets_icon_def y)
    next
      case False
      let ?s = "get_node_view fl j sc"
      have m: "marks (scene_op fl x sc) i = marks (on_node j (node_op fl y) ?s) i"
        using False by (simp add: Node_Op scene_op_def Let_def apply_node_op_def)
      have g: "marks sc = marks ?s" by simp
      show ?thesis
      proof (cases "i = j")
        case True
        obtain n where n: "map_of (sc_nodes ?s) j = Some n" using get by blast
        have "marks (on_node j (node_op fl y) ?s) i = (icons_on_canvas n, True)" using n True by (simp add: marks_def node_op_def y svg_icon_def has_icon_def)
        moreover have "marks ?s i = (old_icons n, has_icon n)" unfolding marks_def using n True by simp
        moreover have "sets_icon i x" using False r True by (auto simp: sets_icon_def Node_Op y)
        ultimately show ?thesis unfolding m g by (auto simp: icons_on_canvas_def has_icon_def split: option.split)
      next
        case False
        then have "marks (on_node j (node_op fl y) ?s) i = marks ?s i" unfolding marks_def by simp
        with False show ?thesis unfolding m g by (simp add: sets_icon_def Node_Op y)
      qed
    qed
  next
    case False
    then have "\<not> refused y" and n: "\<not> sets_icon i x" by (cases y; auto simp: refused_def sets_icon_def Node_Op)+
    then have "marks (scene_op fl x sc) = marks (on_node j (node_op fl y) (get_node_view fl j sc))"
      by (simp add: Node_Op scene_op_def Let_def apply_node_op_def)
    also have "\<dots> = marks (get_node_view fl j sc)" by (rule marks_on_node) (use False in \<open>cases y; auto simp: node_op_def has_icon_def\<close>)
    finally show ?thesis using n by simp
  qed
qed (simp_all add: scene_op_def sets_icon_def)

lemma former_icons_grow: "\<exists>more. former_icons (fold (scene_op fl) ops sc) i = former_icons sc i @ more"
proof (induction ops arbitrary: sc)
  case (Cons x ops)
  obtain a where "former_icons (scene_op fl x sc) i = former_icons sc i @ a" using marks_step [of fl x sc i] by (auto simp: marks_of)
  moreover obtain b where "former_icons (fold (scene_op fl) ops (scene_op fl x sc)) i = former_icons (scene_op fl x sc) i @ b"
    using Cons.IH by blast
  ultimately show ?case by simp
qed simp

lemma icons_counted: "length (icons_of (fold (scene_op fl) ops empty_scene) i) = length (filter (sets_icon i) ops)"
proof (induction ops rule: rev_induct)
  case (snoc x ops)
  let ?sc = "fold (scene_op fl) ops empty_scene"
  from marks_step [of fl x ?sc i] obtain more where "marks (scene_op fl x ?sc) i = (fst (marks ?sc i) @ more, snd (marks ?sc i) \<or> sets_icon i x)"
    "length more = (if sets_icon i x \<and> snd (marks ?sc i) then 1 else 0)" by blast
  then have "length (icons_of (scene_op fl x ?sc) i) = length (icons_of ?sc i) + (if sets_icon i x then 1 else 0)" by (auto simp: marks_of(2))
  with snoc show ?case by simp
qed (simp add: icons_of_def empty_scene_def)

section \<open>Properties\<close>

text \<open>C32. Whatever is done to nodes, channels and links, in any order: every node looks as its size, colour, selection,
  highlighting, icon and label say, its label and its icon are where it is, every end knows exactly its links, and
  a line that is drawn joins the present places of its ends.  But of a node there are as many icons on the canvas as were ever
  set for it: each one that was replaced stays there, for good and where it then was.  So the picture shows what the objects say
  exactly as far as no node was given an icon twice.\<close>

theorem picture_is_true:
  "scene_ok fl (fold (scene_op fl) ops empty_scene) \<and>
   (\<forall>i. length (icons_of (fold (scene_op fl) ops empty_scene) i) = length (filter (sets_icon i) ops) \<and>
     (\<exists>more. former_icons (fold (scene_op fl) ops empty_scene) i = former_icons (fold (scene_op fl) (take k ops) empty_scene) i @ more))"
proof (intro conjI allI)
  show "scene_ok fl (fold (scene_op fl) ops empty_scene)"
    by (induction ops rule: rev_induct) (simp_all add: scene_op_ok scene_ok_empty)
  show "length (icons_of (fold (scene_op fl) ops empty_scene) i) = length (filter (sets_icon i) ops)" for i by (rule icons_counted)
  have "fold (scene_op fl) ops empty_scene = fold (scene_op fl) (drop k ops) (fold (scene_op fl) (take k ops) empty_scene)"
    by (metis append_take_drop_id fold_append comp_apply)
  then show "\<exists>more. former_icons (fold (scene_op fl) ops empty_scene) i = former_icons (fold (scene_op fl) (take k ops) empty_scene) i @ more" for i
    using former_icons_grow by metis
qed

text \<open>A node gets an icon, then another one, and is moved: the first icon is still drawn where the node was.\<close>

lemma former_icon_stays:
  "map svg_pos (icons_of (fold (scene_op exact)
      [Node_Op 0 (Set_Svg_Icon (10, 10) (Some 2) None (1 / 2) (1 / 2)), Node_Op 0 (Set_Svg_Icon (10, 10) (Some 2) None (1 / 2) (1 / 2)),
       Place (At_Node 0) (50, 60)] empty_scene) 0) = [(- 3, - 3), (47, 57)]"
  by code_simp

end
