(* ===== verification/Viz_Topology.thy ===== *)
theory Viz_Topology
  imports Viz_Scene
begin

text \<open>
  \<open>visualizer/core.py\<close>: the scan of the topology, the places taken from mobility models, and the dragging of
  nodes; \<open>visualizer/base.py\<close>: what is known of the types of devices.  The layout of the graph (graphviz) is
  a parameter: it gives the nodes of the graph, by name, with the numbers of their \<open>pos\<close>.
\<close>

section \<open>Types of devices\<close>

record traits =
  is_wireless :: "bool option"
  is_virtual :: bool

type_synonym registry = "(string, traits) dict"

definition netdevice_traits :: registry where
  "netdevice_traits =
     [(''PointToPointNetDevice'', \<lparr>is_wireless = Some False, is_virtual = False\<rparr>),
      (''CsmaNetDevice'', \<lparr>is_wireless = Some False, is_virtual = False\<rparr>),
      (''WifiNetDevice'', \<lparr>is_wireless = Some True, is_virtual = False\<rparr>),
      (''BridgeNetDevice'', \<lparr>is_wireless = None, is_virtual = True\<rparr>),
      (''LoopbackNetDevice'', \<lparr>is_wireless = Some False, is_virtual = True\<rparr>),
      (''MeshPointDevice'', \<lparr>is_wireless = None, is_virtual = True\<rparr>),
      (''SubscriberStationNetDevice'', \<lparr>is_wireless = Some True, is_virtual = False\<rparr>),
      (''BaseStationNetDevice'', \<lparr>is_wireless = Some True, is_virtual = False\<rparr>),
      (''LteUeNetDevice'', \<lparr>is_wireless = Some True, is_virtual = False\<rparr>),
      (''LteEnbNetDevice'', \<lparr>is_wireless = Some True, is_virtual = False\<rparr>)]"

text \<open>An unknown type is taken for wireless, and remembered, after a warning.\<close>

definition lookup_traits :: "string \<Rightarrow> registry \<Rightarrow> traits \<times> registry" where
  "lookup_traits ty reg =
     (case map_of reg ty of
        Some t \<Rightarrow> (t, reg)
      | None \<Rightarrow> (let t = \<lparr>is_wireless = Some True, is_virtual = False\<rparr> in (t, dict_set ty t reg)))"

definition skipped :: "traits \<Rightarrow> bool" where
  "skipped t = (is_wireless t = Some True \<or> is_virtual t)"

section \<open>The network\<close>

text \<open>\<open>GetChannel\<close> of a device may be null, \<open>None\<close> in Python.\<close>

record net_device =
  dev_type :: string
  dev_channel :: "int option"

record net_node =
  mobility :: "point option"
  devices :: "net_device list"

text \<open>\<open>members\<close> gives the node of every device of a channel.\<close>

record network =
  net_nodes :: "net_node list"
  members :: "int \<Rightarrow> int list"

definition mobility_of :: "network \<Rightarrow> int \<Rightarrow> point option" where
  "mobility_of net i = (if 0 \<le> i \<and> nat i < length (net_nodes net) then mobility (net_nodes net ! nat i) else None)"

section \<open>The scan\<close>

datatype graph_call = Add_Node string | Add_Edge string string

record scan_state =
  scan_scene :: scene
  graph :: "graph_call list"
  registry :: registry

definition node_name :: "int \<Rightarrow> string" where
  "node_name i = ''Node '' @ show_int i"

definition channel_name :: "int \<Rightarrow> string" where
  "channel_name c = ''Channel '' @ show_int c"

text \<open>\<open>Node.has_mobility\<close> asks once.\<close>

definition ask_mobility :: "network \<Rightarrow> int \<Rightarrow> scene \<Rightarrow> bool \<times> scene" where
  "ask_mobility net i sc =
     (case map_of (sc_nodes sc) i of
        Some n \<Rightarrow>
          (case has_mobility n of
             Some b \<Rightarrow> (b, sc)
           | None \<Rightarrow> (let b = (mobility_of net i \<noteq> None) in (b, on_node i (\<lambda>n. n\<lparr>has_mobility := Some b\<rparr>) sc)))
      | None \<Rightarrow> (False, sc))"

definition add_call :: "graph_call \<Rightarrow> scan_state \<Rightarrow> scan_state" where
  "add_call c st = st\<lparr>graph := graph st @ [c]\<rparr>"

definition on_scene :: "(scene \<Rightarrow> scene) \<Rightarrow> scan_state \<Rightarrow> scan_state" where
  "on_scene f st = st\<lparr>scan_scene := f (scan_scene st)\<rparr>"

definition scan_other :: "(rat \<Rightarrow> rat) \<Rightarrow> network \<Rightarrow> int \<Rightarrow> int \<Rightarrow> scan_state \<Rightarrow> scan_state" where
  "scan_other fl net i j st =
     (let st = on_scene (get_node_view fl j) st
      in if j = i then st
         else
           let st = (if mobility_of net i = None
                     then case ask_mobility net j (scan_scene st) of (b, sc) \<Rightarrow>
                            (let st = st\<lparr>scan_scene := sc\<rparr>
                             in if b then st else add_call (Add_Edge (node_name i) (node_name j)) st)
                     else st)
           in on_scene (create_link fl i (At_Node j)) st)"

definition REPRESENT_CHANNELS_AS_NODES :: bool where
  "REPRESENT_CHANNELS_AS_NODES = True"

definition scan_wired :: "(rat \<Rightarrow> rat) \<Rightarrow> network \<Rightarrow> int \<Rightarrow> int \<Rightarrow> scan_state \<Rightarrow> scan_state" where
  "scan_wired fl net i c st =
     (if 2 < length (members net c) \<and> REPRESENT_CHANNELS_AS_NODES
      then
        let st = (if mobility_of net i = None then add_call (Add_Edge (node_name i) (channel_name c)) st else st);
            st = on_scene (get_channel_view c) st
        in on_scene (create_link fl i (At_Channel c)) st
      else fold (scan_other fl net i) (members net c) st)"

text \<open>A device that is not skipped is asked for its channel, and the channel for its devices without a test.\<close>

definition scan_device :: "(rat \<Rightarrow> rat) \<Rightarrow> network \<Rightarrow> int \<Rightarrow> scan_state \<Rightarrow> net_device \<Rightarrow> scan_state res" where
  "scan_device fl net i st d =
     (case lookup_traits (dev_type d) (registry st) of (t, reg) \<Rightarrow>
        let st = st\<lparr>registry := reg\<rparr>
        in if skipped t then Inr st
           else case dev_channel d of None \<Rightarrow> Inl AttributeError | Some c \<Rightarrow> Inr (scan_wired fl net i c st))"

text \<open>Red is \<open>(65535, 0, 0)\<close>.\<close>

definition red :: "int \<times> int \<times> int" where
  "red = (65535, 0, 0)"

definition color_node :: "(rat \<Rightarrow> rat) \<Rightarrow> int \<Rightarrow> int \<times> int \<times> int \<Rightarrow> scene \<Rightarrow> scene" where
  "color_node fl i c sc = update_appearance fl i (on_node i (node_op fl (Set_Color_Name c)) sc)"

definition begin_node :: "(rat \<Rightarrow> rat) \<Rightarrow> network \<Rightarrow> int \<Rightarrow> scan_state \<Rightarrow> scan_state" where
  "begin_node fl net i st =
     (let st = on_scene (get_node_view fl i) st
      in case mobility_of net i of
           Some p \<Rightarrow> on_scene (\<lambda>sc. set_position fl (At_Node i) (point_to_canvas fl p) (color_node fl i red sc)) st
         | None \<Rightarrow> add_call (Add_Node (node_name i)) st)"

definition scan_node :: "(rat \<Rightarrow> rat) \<Rightarrow> network \<Rightarrow> scan_state \<Rightarrow> int \<Rightarrow> scan_state res" where
  "scan_node fl net st i = run_steps (scan_device fl net i) (begin_node fl net i st) (devices (net_nodes net ! nat i))"

definition scan_nodes :: "(rat \<Rightarrow> rat) \<Rightarrow> network \<Rightarrow> scan_state \<Rightarrow> scan_state res" where
  "scan_nodes fl net st = run_steps (scan_node fl net) st (map int [0..<length (net_nodes net)])"

text \<open>The objects of the graph, by name.  A name of another kind moves the object of the name before.\<close>

definition named_object :: "string \<Rightarrow> end_point option \<Rightarrow> scene \<Rightarrow> end_point res" where
  "named_object name before sc =
     (case split_on CHR '' '' name of
        [ty, ident] \<Rightarrow>
          if ty = ''Node'' then bind_res (py_int ident) (\<lambda>i. bind_res (dict_get (sc_nodes sc) i) (\<lambda>_. Inr (At_Node i)))
          else if ty = ''Channel'' then bind_res (py_int ident) (\<lambda>c. bind_res (dict_get (sc_channels sc) c) (\<lambda>_. Inr (At_Channel c)))
          else of_opt UnboundLocalError before
      | _ \<Rightarrow> Inl ValueError)"

definition place :: "(rat \<Rightarrow> rat) \<Rightarrow> end_point option \<times> scene \<Rightarrow> string \<times> point \<Rightarrow> (end_point option \<times> scene) res" where
  "place fl s x = bind_res (named_object (fst x) (fst s) (snd s)) (\<lambda>e. Inr (Some e, set_position fl e (snd x) (snd s)))"

definition scan_topology ::
  "(rat \<Rightarrow> rat) \<Rightarrow> (graph_call list \<Rightarrow> (string \<times> point) list) \<Rightarrow> network \<Rightarrow> scene \<times> registry \<Rightarrow> (scene \<times> registry) res" where
  "scan_topology fl layout net s =
     bind_res (scan_nodes fl net \<lparr>scan_scene = fst s, graph = [], registry = snd s\<rparr>) (\<lambda>st.
     bind_res (run_steps (place fl) (None, scan_scene st) (layout (graph st))) (\<lambda>r. Inr (snd r, registry st)))"

text \<open>\<open>_update_node_positions\<close>\<close>

definition update_node :: "(rat \<Rightarrow> rat) \<Rightarrow> network \<Rightarrow> int \<Rightarrow> scene \<Rightarrow> scene" where
  "update_node fl net i sc =
     (case ask_mobility net i sc of (b, sc) \<Rightarrow>
        if b then (case mobility_of net i of
            Some p \<Rightarrow> set_position fl (At_Node i) (point_to_canvas fl p) sc | None \<Rightarrow> sc)
        else sc)"

definition update_node_positions :: "(rat \<Rightarrow> rat) \<Rightarrow> network \<Rightarrow> scene \<Rightarrow> scene" where
  "update_node_positions fl net sc = fold (update_node fl net) (dict_keys (sc_nodes sc)) sc"

section \<open>When the scan ends\<close>

definition traits_in :: "registry \<Rightarrow> string \<Rightarrow> traits" where
  "traits_in reg ty = (case map_of reg ty of Some t \<Rightarrow> t | None \<Rightarrow> \<lparr>is_wireless = Some True, is_virtual = False\<rparr>)"

lemma lookup_traits_in:
  "fst (lookup_traits ty reg) = traits_in reg ty" "traits_in (snd (lookup_traits ty reg)) = traits_in reg"
  by (auto simp: lookup_traits_def traits_in_def Let_def fun_eq_iff split: option.split)

text \<open>What the scan does with a device when it does not raise.\<close>

definition device_done :: "(rat \<Rightarrow> rat) \<Rightarrow> network \<Rightarrow> int \<Rightarrow> net_device \<Rightarrow> scan_state \<Rightarrow> scan_state" where
  "device_done fl net i d st =
     (case lookup_traits (dev_type d) (registry st) of (t, reg) \<Rightarrow>
        let st = st\<lparr>registry := reg\<rparr>
        in if skipped t then st else case dev_channel d of None \<Rightarrow> st | Some c \<Rightarrow> scan_wired fl net i c st)"

definition node_done :: "(rat \<Rightarrow> rat) \<Rightarrow> network \<Rightarrow> int \<Rightarrow> scan_state \<Rightarrow> scan_state" where
  "node_done fl net i st = fold (device_done fl net i) (devices (net_nodes net ! nat i)) (begin_node fl net i st)"

definition nodes_done :: "(rat \<Rightarrow> rat) \<Rightarrow> network \<Rightarrow> scan_state \<Rightarrow> scan_state" where
  "nodes_done fl net st = fold (node_done fl net) (map int [0..<length (net_nodes net)]) st"

definition no_channel :: "registry \<Rightarrow> net_device \<Rightarrow> bool" where
  "no_channel reg d \<longleftrightarrow> \<not> skipped (traits_in reg (dev_type d)) \<and> dev_channel d = None"

lemma registry_other: "registry (scan_other fl net i j st) = registry st"
  by (simp add: scan_other_def Let_def on_scene_def add_call_def split_beta)

lemma registry_wired: "registry (scan_wired fl net i c st) = registry st"
proof -
  have "registry (fold (scan_other fl net i) js st) = registry st" for js st by (induction js arbitrary: st) (simp_all add: registry_other)
  then show ?thesis by (simp add: scan_wired_def Let_def on_scene_def add_call_def)
qed

lemma scan_device_eq:
  "scan_device fl net i st d = (if no_channel (registry st) d then Inl AttributeError else Inr (device_done fl net i d st))"
  "no_channel (registry (device_done fl net i d st)) = no_channel (registry st)"
proof -
  obtain t reg where l: "lookup_traits (dev_type d) (registry st) = (t, reg)" by fastforce
  have t: "t = traits_in (registry st) (dev_type d)" and r: "traits_in reg = traits_in (registry st)"
    using lookup_traits_in [of "dev_type d" "registry st"] by (simp_all add: l)
  show "scan_device fl net i st d = (if no_channel (registry st) d then Inl AttributeError else Inr (device_done fl net i d st))"
    by (auto simp: scan_device_def device_done_def l no_channel_def t Let_def split: option.split)
  have "registry (device_done fl net i d st) = reg" by (simp add: device_done_def l Let_def registry_wired split: option.split)
  then show "no_channel (registry (device_done fl net i d st)) = no_channel (registry st)" by (simp add: no_channel_def fun_eq_iff r)
qed

lemma devices_done_registry: "no_channel (registry (fold (device_done fl net i) ds st)) = no_channel (registry st)"
  by (induction ds arbitrary: st) (simp_all add: scan_device_eq(2))

lemma scan_devices_eq:
  "run_steps (scan_device fl net i) st ds =
    (if list_ex (no_channel (registry st)) ds then Inl AttributeError else Inr (fold (device_done fl net i) ds st))"
  by (induction ds arbitrary: st) (simp_all add: scan_device_eq)

lemma begin_node_registry [simp]: "registry (begin_node fl net i st) = registry st"
  by (simp add: begin_node_def Let_def on_scene_def add_call_def split: option.split)

lemma scan_node_eq:
  "scan_node fl net st i =
    (if list_ex (no_channel (registry st)) (devices (net_nodes net ! nat i)) then Inl AttributeError else Inr (node_done fl net i st))"
  "no_channel (registry (node_done fl net i st)) = no_channel (registry st)"
  by (simp_all add: scan_node_def scan_devices_eq node_done_def devices_done_registry)

lemma scan_run_eq:
  "run_steps (scan_node fl net) st is =
    (if list_ex (\<lambda>i. list_ex (no_channel (registry st)) (devices (net_nodes net ! nat i))) is then Inl AttributeError
     else Inr (fold (node_done fl net) is st))"
  by (induction "is" arbitrary: st) (simp_all add: scan_node_eq)

lemma scan_nodes_eq:
  "scan_nodes fl net st =
    (if list_ex (\<lambda>n. list_ex (no_channel (registry st)) (devices n)) (net_nodes net) then Inl AttributeError
     else Inr (nodes_done fl net st))"
proof -
  have "list_ex (\<lambda>i. list_ex (no_channel (registry st)) (devices (net_nodes net ! nat i))) (map int [0..<length (net_nodes net)])
      = list_ex (\<lambda>n. list_ex (no_channel (registry st)) (devices n)) (net_nodes net)"
    unfolding list_ex_iff [of _ "map _ _"] list_ex_length [of _ "net_nodes net"] by auto
  then show ?thesis by (simp add: scan_nodes_def nodes_done_def scan_run_eq)
qed

section \<open>Nothing but a place moves an object\<close>

lemma position_set:
  "position (set_position fl e p sc) e' = (if e' = e \<and> present sc e then p else position sc e')"
proof (cases e)
  case (At_Node i)
  let ?a = "on_node i (move_node fl p) sc"
  let ?b = "fold update_points (links_at ?a e) ?a"
  have "position (set_position fl e p sc) = position ?b"
    by (simp add: set_position_def At_Node Let_def position_on_node move_label_def)
  also have "position ?b = position ?a" by (rule position_cong) simp_all
  finally show ?thesis using At_Node by (auto simp: position_def present_def move_node_def split: end_point.split)
next
  case (At_Channel c)
  let ?a = "on_channel c (\<lambda>n. n\<lparr>chan_center := p\<rparr>) sc"
  let ?b = "fold update_points (links_at ?a e) ?a"
  have "position (set_position fl e p sc) = position ?b" by (simp add: set_position_def At_Channel Let_def)
  also have "position ?b = position ?a" by (rule position_cong) simp_all
  finally show ?thesis using At_Channel by (auto simp: position_def present_def split: end_point.split)
qed

lemma present_set [simp]: "present (set_position fl e p sc) = present sc"
proof
  show "present (set_position fl e p sc) e' = present sc e'" for e'
    by (cases e') (simp_all add: present_def set_position_nodes set_position_channels del: not_None_eq)
qed

lemma position_update_appearance [simp]: "position (update_appearance fl i sc) = position sc"
proof -
  have a: "position (on_node i (show_appearance fl) sc) = position sc" by (rule position_on_node) simp
  show ?thesis
  proof (cases "map_of (sc_nodes sc) i")
    case (Some n)
    then have "position sc (At_Node i) = center n" by (simp add: position_def)
    then have "position (set_position fl (At_Node i) (center n) (on_node i (show_appearance fl) sc)) = position sc"
      by (simp add: fun_eq_iff position_set a)
    then show ?thesis using Some by (simp add: update_appearance_def Let_def a)
  qed (simp add: update_appearance_def Let_def a)
qed

lemma position_get_node [simp]: "position (get_node_view fl i sc) = position sc"
  by (cases "map_of (sc_nodes sc) i") (simp_all add: get_node_view_def position_new_node blank_node_def)

lemma position_get_end [simp]: "position (get_end fl e sc) = position sc"
proof -
  have "position (get_channel_view c sc) = position sc" for c
    by (cases "map_of (sc_channels sc) c") (auto simp: get_channel_view_def position_def fun_eq_iff split: end_point.split)
  then show ?thesis by (cases e) (simp_all add: get_end_def)
qed

lemma position_create_link [simp]: "position (create_link fl i e sc) = position sc"
proof -
  have "position (s\<lparr>sc_links := ls\<rparr>) = position s" for s :: scene and ls by (rule position_cong) simp_all
  then show ?thesis by (simp add: create_link_def Let_def)
qed

lemma present_create_link: "present (create_link fl i e sc) e' \<longleftrightarrow> present sc e' \<or> e' = At_Node i \<or> e' = e"
proof -
  have "present (s\<lparr>sc_links := ls\<rparr>) = present s" for s :: scene and ls by (simp add: present_def fun_eq_iff split: end_point.split)
  moreover have "get_node_view fl i sc = get_end fl (At_Node i) sc" by (simp add: get_end_def)
  ultimately show ?thesis by (auto simp: create_link_def Let_def get_end_present)
qed

lemma ask_mobility_simps:
  "position (snd (ask_mobility net i sc)) = position sc" "present (snd (ask_mobility net i sc)) = present sc"
  "sc_links (snd (ask_mobility net i sc)) = sc_links sc"
  by (auto simp: ask_mobility_def Let_def present_def position_on_node fun_eq_iff split: option.split end_point.split)

lemma node_ok_mobility: "node_ok fl (n\<lparr>has_mobility := b\<rparr>) = node_ok fl n"
  by (simp add: node_ok_def appearance_of_def svg_placed_def split: option.split)

lemma ask_mobility_ok:
  assumes "scene_ok fl sc"
  shows "scene_ok fl (snd (ask_mobility net i sc))"
proof -
  have "scene_ok fl (on_node i (\<lambda>n. n\<lparr>has_mobility := b\<rparr>) sc)" for b
    using assms by (auto simp: scene_ok_def on_node_lines nodes_ok_def node_ok_mobility)
  then show ?thesis using assms by (auto simp: ask_mobility_def Let_def split: option.split)
qed

lemma color_node_ok: "scene_ok fl sc \<Longrightarrow> scene_ok fl (color_node fl i c sc)"
  using apply_node_op_ok [of fl sc i "Set_Color_Name c"] by (simp add: color_node_def apply_node_op_def refused_def)

section \<open>What the scan keeps\<close>

text \<open>The remembered answer; like a place, it does not change when an object is made.\<close>

definition asked :: "scene \<Rightarrow> int \<Rightarrow> bool option" where
  "asked sc i = (case map_of (sc_nodes sc) i of None \<Rightarrow> None | Some n \<Rightarrow> has_mobility n)"

lemma asked_on_node: "(\<And>n. has_mobility (f n) = has_mobility n) \<Longrightarrow> asked (on_node i f sc) = asked sc"
  by (auto simp: asked_def fun_eq_iff split: option.splits)

lemma asked_cong: "sc_nodes a = sc_nodes b \<Longrightarrow> asked a = asked b"
  by (simp add: asked_def fun_eq_iff)

lemma asked_set_position [simp]: "asked (set_position fl e p sc) = asked sc"
proof (cases e)
  case (At_Node i)
  let ?a = "on_node i (move_node fl p) sc"
  let ?b = "fold update_points (links_at ?a e) ?a"
  have "asked (set_position fl e p sc) = asked ?b" by (simp add: set_position_def At_Node Let_def asked_on_node move_label_def)
  also have "asked ?b = asked ?a" by (rule asked_cong) simp
  also have "asked ?a = asked sc" by (rule asked_on_node) (simp add: move_node_def)
  finally show ?thesis .
qed (simp add: set_position_def Let_def asked_def fun_eq_iff)

lemma asked_update_appearance [simp]: "asked (update_appearance fl i sc) = asked sc"
proof -
  have "asked (on_node i (show_appearance fl) sc) = asked sc"
    by (rule asked_on_node) (simp add: show_appearance_def Let_def split: option.split)
  then show ?thesis by (simp add: update_appearance_def Let_def split: option.split)
qed

lemma asked_get_end [simp]: "asked (get_end fl e sc) = asked sc"
proof -
  have "asked (sc\<lparr>sc_nodes := dict_set i blank_node (sc_nodes sc)\<rparr>) = asked sc" if "map_of (sc_nodes sc) i = None" for i
    using that by (auto simp: asked_def fun_eq_iff blank_node_def)
  then show ?thesis
    by (auto simp: get_end_def get_node_view_def get_channel_view_def asked_def split: end_point.split option.split)
qed

lemma asked_get_node [simp]: "asked (get_node_view fl i sc) = asked sc"
  using asked_get_end [of fl "At_Node i"] by (simp add: get_end_def)

lemma asked_create_link [simp]: "asked (create_link fl i e sc) = asked sc"
proof -
  have "asked (s\<lparr>sc_links := ls\<rparr>) = asked s" for s :: scene and ls by (rule asked_cong) simp
  moreover have "asked (attach k e' s) = asked s" for k e' s
  proof (cases e')
    case (At_Channel c)
    show ?thesis by (rule asked_cong) (simp add: attach_def At_Channel)
  qed (simp add: attach_def asked_on_node)
  ultimately show ?thesis by (simp add: create_link_def Let_def)
qed

lemma asked_color_node [simp]: "asked (color_node fl i c sc) = asked sc"
proof -
  have "asked (on_node i (node_op fl (Set_Color_Name c)) sc) = asked sc" by (rule asked_on_node) (simp add: node_op_def)
  then show ?thesis by (simp add: color_node_def)
qed

lemma color_node_simps [simp]: "position (color_node fl i c sc) = position sc" "present (color_node fl i c sc) = present sc"
proof -
  have "position (on_node i (node_op fl (Set_Color_Name c)) sc) = position sc"
    by (rule position_on_node) (simp add: node_op_fields)
  then show "position (color_node fl i c sc) = position sc" by (simp add: color_node_def)
  show "present (color_node fl i c sc) = present sc"
    unfolding color_node_def update_appearance_present by (auto simp: present_def fun_eq_iff split: end_point.split)
qed

definition cached :: "network \<Rightarrow> scene \<Rightarrow> bool" where
  "cached net sc \<longleftrightarrow> (\<forall>i. asked sc i = None \<or> asked sc i = Some (mobility_of net i \<noteq> None))"

lemma ask_mobility_cached:
  assumes "cached net sc"
  shows "cached net (snd (ask_mobility net i sc))"
    and "present sc (At_Node i) \<Longrightarrow> fst (ask_mobility net i sc) = (mobility_of net i \<noteq> None)"
proof -
  have a: "asked sc i = None \<or> asked sc i = Some (mobility_of net i \<noteq> None)" using assms by (auto simp: cached_def)
  show "present sc (At_Node i) \<Longrightarrow> fst (ask_mobility net i sc) = (mobility_of net i \<noteq> None)"
    using a by (auto simp: ask_mobility_def present_def asked_def Let_def split: option.splits)
  have "asked (on_node i (\<lambda>n. n\<lparr>has_mobility := b\<rparr>) sc) j = (if j = i \<and> present sc (At_Node i) then b else asked sc j)" for b j
    by (auto simp: asked_def present_def split: option.splits)
  then show "cached net (snd (ask_mobility net i sc))"
    using assms by (auto simp: cached_def ask_mobility_def Let_def split: option.split)
qed

text \<open>The names that the layout is asked about belong to objects that exist, and to no node with a mobility model.\<close>

fun call_names :: "graph_call \<Rightarrow> string list" where
  "call_names (Add_Node a) = [a]"
| "call_names (Add_Edge a b) = [a, b]"

definition graph_names :: "graph_call list \<Rightarrow> string list" where
  "graph_names g = concat (map call_names g)"

definition object_name :: "end_point \<Rightarrow> string" where
  "object_name e = (case e of At_Node i \<Rightarrow> node_name i | At_Channel c \<Rightarrow> channel_name c)"

definition laid_out :: "network \<Rightarrow> scene \<Rightarrow> end_point \<Rightarrow> bool" where
  "laid_out net sc e \<longleftrightarrow> present sc e \<and> (case e of At_Node i \<Rightarrow> mobility_of net i = None | At_Channel _ \<Rightarrow> True)"

definition scan_ok :: "(rat \<Rightarrow> rat) \<Rightarrow> network \<Rightarrow> scan_state \<Rightarrow> bool" where
  "scan_ok fl net st \<longleftrightarrow> scene_ok fl (scan_scene st) \<and> cached net (scan_scene st) \<and>
     set (graph_names (graph st)) \<subseteq> object_name ` Collect (laid_out net (scan_scene st))"

text \<open>A step that makes objects and adds names of those that are there.\<close>

lemma scan_ok_step:
  assumes "scan_ok fl net st" and "scene_ok fl sc" and "cached net sc"
    and "\<And>e. present (scan_scene st) e \<Longrightarrow> present sc e"
    and "set (graph_names g) \<subseteq> object_name ` Collect (laid_out net sc)"
  shows "scan_ok fl net (st\<lparr>scan_scene := sc, graph := graph st @ g\<rparr>)"
proof -
  have "laid_out net (scan_scene st) e \<Longrightarrow> laid_out net sc e" for e using assms(4) by (auto simp: laid_out_def)
  then have m: "object_name ` Collect (laid_out net (scan_scene st)) \<subseteq> object_name ` Collect (laid_out net sc)" by auto
  have "set (graph_names (graph st)) \<subseteq> object_name ` Collect (laid_out net (scan_scene st))"
    using assms(1) by (simp add: scan_ok_def)
  then have "set (graph_names (graph st)) \<subseteq> object_name ` Collect (laid_out net sc)" using m by (rule subset_trans)
  moreover have "set (graph_names (graph st @ g)) = set (graph_names (graph st)) \<union> set (graph_names g)"
    by (simp add: graph_names_def)
  ultimately show ?thesis using assms(2,3,5) by (simp add: scan_ok_def)
qed

lemma scan_ok_scene:
  assumes "scan_ok fl net st" and "scene_ok fl sc" and "cached net sc" and "\<And>e. present (scan_scene st) e \<Longrightarrow> present sc e"
  shows "scan_ok fl net (st\<lparr>scan_scene := sc\<rparr>)"
  using scan_ok_step [OF assms, of "[]"] by (simp add: graph_names_def)

lemma scan_ok_registry [simp]: "scan_ok fl net (st\<lparr>registry := r\<rparr>) = scan_ok fl net st"
  by (simp add: scan_ok_def)

lemma cached_cong: "asked a = asked b \<Longrightarrow> cached net a = cached net b"
  by (simp add: cached_def)

lemma present_get_node: "present (get_node_view fl i sc) e \<longleftrightarrow> present sc e \<or> e = At_Node i"
  using get_end_present [of fl "At_Node i"] by (simp add: get_end_def)

lemma scan_ok_get_node: "scan_ok fl net st \<Longrightarrow> scan_ok fl net (on_scene (get_node_view fl i) st)"
  unfolding on_scene_def
  by (rule scan_ok_scene) (simp_all add: scan_ok_def get_node_ok cached_def present_get_node)

lemma scan_ok_link: "scan_ok fl net st \<Longrightarrow> scan_ok fl net (on_scene (create_link fl i e) st)"
  unfolding on_scene_def
  by (rule scan_ok_scene) (simp_all add: scan_ok_def create_link_ok cached_def present_create_link)

lemma scan_ok_call:
  assumes "scan_ok fl net st" and "set (call_names c) \<subseteq> object_name ` Collect (laid_out net (scan_scene st))"
  shows "scan_ok fl net (add_call c st)"
  using assms by (simp add: scan_ok_def add_call_def graph_names_def)

lemma named_node: "present sc (At_Node i) \<Longrightarrow> mobility_of net i = None \<Longrightarrow> node_name i \<in> object_name ` Collect (laid_out net sc)"
  by (rule image_eqI [of _ _ "At_Node i"]) (simp_all add: object_name_def laid_out_def)

lemma named_channel: "present sc (At_Channel c) \<Longrightarrow> channel_name c \<in> object_name ` Collect (laid_out net sc)"
  by (rule image_eqI [of _ _ "At_Channel c"]) (simp_all add: object_name_def laid_out_def)

lemma scan_other_ok:
  assumes ok: "scan_ok fl net st" and i: "present (scan_scene st) (At_Node i)"
  shows "scan_ok fl net (scan_other fl net i j st) \<and> present (scan_scene (scan_other fl net i j st)) (At_Node i)"
proof -
  define a where "a = on_scene (get_node_view fl j) st"
  define b where "b = ask_mobility net j (scan_scene a)"
  have a: "scan_ok fl net a" "present (scan_scene a) (At_Node i)" "present (scan_scene a) (At_Node j)"
    using scan_ok_get_node [OF ok] i by (simp_all add: a_def on_scene_def present_get_node)
  have c: "cached net (scan_scene a)" using a(1) by (simp add: scan_ok_def)
  have b: "scan_ok fl net (a\<lparr>scan_scene := snd b\<rparr>)" unfolding b_def
    by (rule scan_ok_scene [OF a(1)])
      (use a(1) ask_mobility_cached(1) [OF c] in \<open>simp_all add: scan_ok_def ask_mobility_ok ask_mobility_simps\<close>)
  have fb: "fst b = (mobility_of net j \<noteq> None)" unfolding b_def by (rule ask_mobility_cached(2) [OF c a(3)])
  have pb: "present (snd b) = present (scan_scene a)" by (simp add: b_def ask_mobility_simps)
  have call: "scan_ok fl net (add_call (Add_Edge (node_name i) (node_name j)) (a\<lparr>scan_scene := snd b\<rparr>))"
    if m: "mobility_of net i = None" "\<not> fst b"
  proof (rule scan_ok_call [OF b])
    have "mobility_of net j = None" using m(2) fb by blast
    then show "set (call_names (Add_Edge (node_name i) (node_name j))) \<subseteq> object_name ` Collect (laid_out net (scan_scene (a\<lparr>scan_scene := snd b\<rparr>)))"
      using named_node [OF _ m(1), of "snd b"] named_node [of "snd b" j net] a(2,3) pb by simp
  qed
  define d where "d = (if mobility_of net i = None
      then if fst b then a\<lparr>scan_scene := snd b\<rparr> else add_call (Add_Edge (node_name i) (node_name j)) (a\<lparr>scan_scene := snd b\<rparr>) else a)"
  have d: "scan_ok fl net d" "present (scan_scene d) (At_Node i)"
    using a b call pb by (simp_all add: d_def add_call_def)
  have "scan_other fl net i j st = (if j = i then a else on_scene (create_link fl i (At_Node j)) d)"
    by (simp add: scan_other_def a_def b_def d_def Let_def split_beta)
  then show ?thesis using a d scan_ok_link [OF d(1)] by (simp add: on_scene_def present_create_link)
qed

lemma scan_others_ok:
  "scan_ok fl net st \<Longrightarrow> present (scan_scene st) (At_Node i) \<Longrightarrow>
    scan_ok fl net (fold (scan_other fl net i) js st) \<and> present (scan_scene (fold (scan_other fl net i) js st)) (At_Node i)"
  by (induction js arbitrary: st) (simp_all add: scan_other_ok)

lemma scan_wired_ok:
  assumes ok: "scan_ok fl net st" and i: "present (scan_scene st) (At_Node i)"
  shows "scan_ok fl net (scan_wired fl net i c st) \<and> present (scan_scene (scan_wired fl net i c st)) (At_Node i)"
proof -
  define sc where "sc = get_channel_view c (scan_scene st)"
  have sc: "sc = get_end fl (At_Channel c) (scan_scene st)" by (simp add: sc_def get_end_def)
  define g where "g = (if mobility_of net i = None then [Add_Edge (node_name i) (channel_name c)] else [])"
  define u where "u = st\<lparr>scan_scene := sc, graph := graph st @ g\<rparr>"
  have p: "present sc (At_Node i)" "present sc (At_Channel c)" using i by (simp_all add: sc get_end_present)
  have u: "scan_ok fl net u" unfolding u_def
  proof (rule scan_ok_step [OF ok])
    show "scene_ok fl sc" "cached net sc" using ok by (simp_all add: scan_ok_def sc get_end_ok cached_def)
    show "present (scan_scene st) e \<Longrightarrow> present sc e" for e by (simp add: sc get_end_present)
    show "set (graph_names g) \<subseteq> object_name ` Collect (laid_out net sc)"
      using named_node [OF p(1), of net] named_channel [OF p(2), of net] by (cases "mobility_of net i") (simp_all add: g_def graph_names_def)
  qed
  have "scan_wired fl net i c st =
      (if 2 < length (members net c) then on_scene (create_link fl i (At_Channel c)) u else fold (scan_other fl net i) (members net c) st)"
    by (simp add: scan_wired_def REPRESENT_CHANNELS_AS_NODES_def u_def g_def sc_def Let_def on_scene_def add_call_def)
  then show ?thesis
    using ok i scan_ok_link [OF u] scan_others_ok [OF ok i] p(1) by (simp add: on_scene_def present_create_link u_def)
qed

lemma scan_device_ok:
  assumes "scan_ok fl net st" and "present (scan_scene st) (At_Node i)"
  shows "scan_ok fl net (device_done fl net i d st) \<and> present (scan_scene (device_done fl net i d st)) (At_Node i)"
  using assms scan_wired_ok by (simp add: device_done_def split_beta Let_def split: option.split)

lemma scan_devices_ok:
  "scan_ok fl net st \<Longrightarrow> present (scan_scene st) (At_Node i) \<Longrightarrow>
    scan_ok fl net (fold (device_done fl net i) ds st) \<and> present (scan_scene (fold (device_done fl net i) ds st)) (At_Node i)"
  by (induction ds arbitrary: st) (simp_all add: scan_device_ok)

lemma scan_node_ok:
  assumes "scan_ok fl net st"
  shows "scan_ok fl net (node_done fl net i st) \<and> present (scan_scene (node_done fl net i st)) (At_Node i)"
proof -
  let ?a = "on_scene (get_node_view fl i) st"
  have a: "scan_ok fl net ?a" "present (scan_scene ?a) (At_Node i)"
    using scan_ok_get_node [OF assms] by (simp_all add: on_scene_def present_get_node)
  define b where "b = (case mobility_of net i of
      Some p \<Rightarrow> on_scene (\<lambda>sc. set_position fl (At_Node i) (point_to_canvas fl p) (color_node fl i red sc)) ?a
    | None \<Rightarrow> add_call (Add_Node (node_name i)) ?a)"
  have "scan_ok fl net b \<and> present (scan_scene b) (At_Node i)"
  proof (cases "mobility_of net i")
    case None
    then show ?thesis using a scan_ok_call [OF a(1)] named_node [OF a(2) None] by (simp add: b_def add_call_def)
  next
    case (Some p)
    have "scan_ok fl net (?a\<lparr>scan_scene := set_position fl (At_Node i) (point_to_canvas fl p) (color_node fl i red (scan_scene ?a))\<rparr>)"
      by (rule scan_ok_scene [OF a(1)]) (use a(1) in \<open>simp_all add: scan_ok_def scene_ok_position color_node_ok cached_def\<close>)
    then show ?thesis using Some a by (simp add: b_def on_scene_def)
  qed
  then show ?thesis using scan_devices_ok [of fl net b i] by (simp add: node_done_def begin_node_def b_def Let_def)
qed

section \<open>Where things are after the scan\<close>

lemma position_other [simp]: "position (scan_scene (scan_other fl net i j st)) = position (scan_scene st)"
  by (auto simp: scan_other_def Let_def on_scene_def add_call_def split_beta ask_mobility_simps)

lemma position_others [simp]: "position (scan_scene (fold (scan_other fl net i) js st)) = position (scan_scene st)"
  by (induction js arbitrary: st) simp_all

lemma position_device [simp]: "position (scan_scene (device_done fl net i d st)) = position (scan_scene st)"
proof -
  have "position (get_channel_view c sc) = position sc" for c sc
    using position_get_end [of fl "At_Channel c"] by (simp add: get_end_def)
  then show ?thesis
    by (simp add: device_done_def scan_wired_def REPRESENT_CHANNELS_AS_NODES_def Let_def on_scene_def add_call_def split_beta split: option.split)
qed

lemma position_devices: "position (scan_scene (fold (device_done fl net i) ds st)) = position (scan_scene st)"
  by (induction ds arbitrary: st) simp_all

lemma position_node:
  "position (scan_scene (node_done fl net i st)) = (case mobility_of net i of
     None \<Rightarrow> position (scan_scene st)
   | Some p \<Rightarrow> (position (scan_scene st))(At_Node i := point_to_canvas fl p))"
  by (auto simp: node_done_def begin_node_def Let_def position_devices on_scene_def add_call_def fun_eq_iff position_set present_get_node
      split: option.split)

definition grown :: "scan_state \<Rightarrow> scan_state \<Rightarrow> bool" where
  "grown a b \<longleftrightarrow> (\<forall>e. present (scan_scene a) e \<longrightarrow> present (scan_scene b) e) \<and> set (graph a) \<subseteq> set (graph b)"

lemma grown_fold: "(\<And>x st. grown st (f x st)) \<Longrightarrow> grown st (fold f xs st)"
proof (induction xs arbitrary: st)
  case (Cons x xs)
  have "grown st (f x st)" "grown (f x st) (fold f xs (f x st))" using Cons by simp_all
  then show ?case by (auto simp: grown_def)
qed (simp add: grown_def)

lemma grown_other: "grown st (scan_other fl net i j st)"
  by (auto simp: grown_def scan_other_def Let_def on_scene_def add_call_def split_beta ask_mobility_simps present_create_link present_get_node)

lemma grown_device: "grown st (device_done fl net i d st)"
proof -
  obtain t reg where l: "lookup_traits (dev_type d) (registry st) = (t, reg)" by fastforce
  have chan: "present (get_channel_view c sc) e \<longleftrightarrow> present sc e \<or> e = At_Channel c" for c sc e
    using get_end_present [of fl "At_Channel c" sc e] by (simp add: get_end_def)
  have "grown (st\<lparr>registry := reg\<rparr>) (fold (scan_other fl net i) js (st\<lparr>registry := reg\<rparr>))" for js
    by (rule grown_fold) (rule grown_other)
  then show ?thesis
    by (auto simp: grown_def device_done_def scan_wired_def REPRESENT_CHANNELS_AS_NODES_def l Let_def on_scene_def add_call_def present_create_link chan
      split: option.split)
qed

lemma grown_node: "grown st (node_done fl net i st)"
    "mobility_of net i = None \<Longrightarrow> Add_Node (node_name i) \<in> set (graph (node_done fl net i st))"
proof -
  have d: "grown s (fold (device_done fl net i) ds s)" for s ds by (rule grown_fold) (rule grown_device)
  let ?a = "on_scene (get_node_view fl i) st"
  have a: "grown st ?a" by (simp add: grown_def on_scene_def present_get_node)
  define b where "b = (case mobility_of net i of
      Some p \<Rightarrow> on_scene (\<lambda>sc. set_position fl (At_Node i) (point_to_canvas fl p) (color_node fl i red sc)) ?a
    | None \<Rightarrow> add_call (Add_Node (node_name i)) ?a)"
  have b: "grown ?a b" by (auto simp: grown_def b_def on_scene_def add_call_def split: option.split)
  have r: "node_done fl net i st = fold (device_done fl net i) (devices (net_nodes net ! nat i)) b"
    by (simp add: node_done_def begin_node_def b_def Let_def)
  show "grown st (node_done fl net i st)"
    unfolding r using a b d [of b "devices (net_nodes net ! nat i)"] by (auto simp: grown_def)
  assume "mobility_of net i = None"
  then have "Add_Node (node_name i) \<in> set (graph b)" by (simp add: b_def add_call_def)
  then show "Add_Node (node_name i) \<in> set (graph (node_done fl net i st))"
    unfolding r using d [of b "devices (net_nodes net ! nat i)"] by (auto simp: grown_def)
qed

text \<open>All nodes of the network exist; those with a mobility model are where it says, all others at the origin.\<close>

lemma scan_nodes_result:
  fixes net :: network and reg :: registry and fl :: "rat \<Rightarrow> rat"
  defines "st \<equiv> nodes_done fl net \<lparr>scan_scene = empty_scene, graph = [], registry = reg\<rparr>"
  shows "scan_ok fl net st"
    and "i < length (net_nodes net) \<Longrightarrow> present (scan_scene st) (At_Node (int i))"
    and "position (scan_scene st) (At_Node i') = (case mobility_of net i' of None \<Rightarrow> (0, 0) | Some p \<Rightarrow> point_to_canvas fl p)"
    and "i < length (net_nodes net) \<Longrightarrow> mobility_of net (int i) = None \<Longrightarrow> node_name (int i) \<in> set (graph_names (graph st))"
proof -
  let ?s = "\<lparr>scan_scene = empty_scene, graph = [], registry = reg\<rparr>"
  let ?run = "\<lambda>n. fold (node_done fl net) (map int [0..<n]) ?s"
  have st: "st = ?run (length (net_nodes net))" by (simp add: st_def nodes_done_def)
  have step: "?run (Suc n) = node_done fl net (int n) (?run n)" for n by simp
  have "scan_ok fl net ?s"
    using scene_ok_empty [of fl] by (simp add: scan_ok_def cached_def asked_def empty_scene_def graph_names_def)
  then have ok: "scan_ok fl net (?run n)" for n
    by (induction n) (simp_all add: scan_node_ok)
  then show "scan_ok fl net st" unfolding st .
  have pres: "i < n \<Longrightarrow> present (scan_scene (?run n)) (At_Node (int i)) \<and>
      (mobility_of net (int i) = None \<longrightarrow> Add_Node (node_name (int i)) \<in> set (graph (?run n)))" for i n
  proof (induction n)
    case (Suc n)
    have g: "grown (?run n) (?run (Suc n))" by (simp add: grown_node)
    show ?case
    proof (cases "i = n")
      case True
      then show ?thesis using scan_node_ok [OF ok] grown_node(2) by simp
    next
      case False
      then have "i < n" using Suc.prems by simp
      from Suc.IH [OF this] g show ?thesis by (auto simp: grown_def)
    qed
  qed simp
  then show "i < length (net_nodes net) \<Longrightarrow> present (scan_scene st) (At_Node (int i))" unfolding st by blast
  show "i < length (net_nodes net) \<Longrightarrow> mobility_of net (int i) = None \<Longrightarrow> node_name (int i) \<in> set (graph_names (graph st))"
    using pres [of i "length (net_nodes net)"] unfolding st by (force simp: graph_names_def)
  have pos: "position (scan_scene (?run n)) (At_Node i) = (if 0 \<le> i \<and> i < int n
         then case mobility_of net i of None \<Rightarrow> (0, 0) | Some p \<Rightarrow> point_to_canvas fl p else (0, 0))" for n i
  proof (induction n)
    case (Suc n)
    then show ?case
      unfolding step position_node by (cases "i = int n") (auto simp del: upt_Suc split: option.splits)
  qed (auto simp: position_def empty_scene_def)
  show "position (scan_scene st) (At_Node i') = (case mobility_of net i' of None \<Rightarrow> (0, 0) | Some p \<Rightarrow> point_to_canvas fl p)"
    unfolding st pos by (auto simp: mobility_of_def)
qed

section \<open>The layout\<close>

lemma show_int_no_space: "CHR '' '' \<notin> set (show_int i)"
  using show_nat_digit [of "CHR '' ''"] by (auto simp: show_int_def is_digit_def code_def)

lemma named_object_name:
  assumes "present sc e"
  shows "named_object (object_name e) before sc = Inr e"
proof -
  have "split_on CHR '' '' (''Node '' @ show_int i) = [''Node'', show_int i]" for i
    using split_on_append [of "CHR '' ''" "''Node''" "show_int i"] by (simp add: split_on_none show_int_no_space)
  moreover have "split_on CHR '' '' (''Channel '' @ show_int i) = [''Channel'', show_int i]" for i
    using split_on_append [of "CHR '' ''" "''Channel''" "show_int i"] by (simp add: split_on_none show_int_no_space)
  ultimately show ?thesis using assms
    by (auto simp: object_name_def named_object_def node_name_def channel_name_def present_def dict_get_def
        simp del: append_Cons split: end_point.splits)
qed

lemma object_name_inj: "object_name a = object_name b \<Longrightarrow> a = b"
proof -
  have "show_int i = show_int j \<Longrightarrow> i = j" for i j by (metis py_int_show_int Inr_inject)
  then show "object_name a = object_name b \<Longrightarrow> a = b"
    by (auto simp: object_name_def node_name_def channel_name_def split: end_point.splits)
qed

lemma place_all:
  assumes "distinct (map fst eps)" and "\<And>e. e \<in> fst ` set eps \<Longrightarrow> present sc e"
  shows "\<exists>b sc'. run_steps (place fl) (before, sc) (map (\<lambda>(e, p). (object_name e, p)) eps) = Inr (b, sc') \<and>
    present sc' = present sc \<and> (\<forall>e. position sc' e = (case map_of eps e of None \<Rightarrow> position sc e | Some p \<Rightarrow> p))"
  using assms
proof (induction eps arbitrary: before sc)
  case (Cons x eps)
  obtain e p where x: "x = (e, p)" by (cases x)
  let ?s = "set_position fl e p sc"
  have pe: "present sc e" using Cons.prems(2) x by simp
  have "\<exists>b sc'. run_steps (place fl) (Some e, ?s) (map (\<lambda>(e, p). (object_name e, p)) eps) = Inr (b, sc') \<and>
    present sc' = present ?s \<and> (\<forall>e. position sc' e = (case map_of eps e of None \<Rightarrow> position ?s e | Some p \<Rightarrow> p))"
    using Cons.prems by (intro Cons.IH) simp_all
  then obtain b sc' where r: "run_steps (place fl) (Some e, ?s) (map (\<lambda>(e, p). (object_name e, p)) eps) = Inr (b, sc')"
    and sc': "present sc' = present ?s" "\<And>e. position sc' e = (case map_of eps e of None \<Rightarrow> position ?s e | Some p \<Rightarrow> p)" by blast
  have n: "map_of eps e = None" using Cons.prems(1) x by (simp add: map_of_eq_None_iff)
  have "run_steps (place fl) (before, sc) (map (\<lambda>(e, p). (object_name e, p)) (x # eps)) = Inr (b, sc')"
    using r by (simp add: x place_def named_object_name [OF pe])
  moreover have "position sc' e' = (case map_of (x # eps) e' of None \<Rightarrow> position sc e' | Some p \<Rightarrow> p)" for e'
    using n pe by (auto simp: sc' x position_set split: option.split)
  ultimately show ?case using sc'(1) by auto
qed simp

interpretation placing: loop_invariant "place fl" "\<lambda>s. scene_ok fl (snd s)"
  by unfold_locales (auto simp: place_def bind_res_Inr_iff intro: scene_ok_position)

text \<open>The graph that is laid out.\<close>

definition scan_graph :: "(rat \<Rightarrow> rat) \<Rightarrow> network \<Rightarrow> graph_call list" where
  "scan_graph fl net = (case scan_nodes fl net \<lparr>scan_scene = empty_scene, graph = [], registry = netdevice_traits\<rparr> of
     Inl _ \<Rightarrow> [] | Inr st \<Rightarrow> graph st)"

text \<open>C33. The scan of a topology raises exactly when a device that is neither wireless nor virtual has no channel:
  \<open>GetChannel\<close> may be null, and the scan asks it for its devices without a test.  Otherwise the scan shows a true
  picture and puts every node in its place: a node with a mobility model is never part of the graph that is laid out and is where
  the model says, every other node is where the layout put it.  The layout gives each node of its graph once.\<close>

theorem scan_places_nodes:
  assumes "distinct (map fst (layout (scan_graph fl net)))"
    and "fst ` set (layout (scan_graph fl net)) = set (graph_names (scan_graph fl net))"
    and "i < length (net_nodes net)"
  shows "case scan_topology fl layout net (empty_scene, netdevice_traits) of
      Inl e \<Rightarrow> e = AttributeError \<and> (\<exists>n \<in> set (net_nodes net). \<exists>d \<in> set (devices n). no_channel netdevice_traits d)
    | Inr (sc, _) \<Rightarrow> \<not> (\<exists>n \<in> set (net_nodes net). \<exists>d \<in> set (devices n). no_channel netdevice_traits d) \<and>
        scene_ok fl sc \<and> present sc (At_Node (int i)) \<and>
        Some (position sc (At_Node (int i))) =
          (case mobility (net_nodes net ! i) of
             Some p \<Rightarrow> Some (point_to_canvas fl p)
           | None \<Rightarrow> map_of (layout (scan_graph fl net)) (node_name (int i)))"
proof (cases "\<exists>n \<in> set (net_nodes net). \<exists>d \<in> set (devices n). no_channel netdevice_traits d")
  case True
  then show ?thesis by (simp add: scan_topology_def scan_nodes_eq list_ex_iff)
next
  case False
  then have there: "\<not> list_ex (\<lambda>n. list_ex (no_channel netdevice_traits) (devices n)) (net_nodes net)" by (simp add: list_ex_iff)
  define st where "st = nodes_done fl net \<lparr>scan_scene = empty_scene, graph = [], registry = netdevice_traits\<rparr>"
  note res = scan_nodes_result [where fl = fl and net = net and reg = netdevice_traits, folded st_def]
  have n: "scan_nodes fl net \<lparr>scan_scene = empty_scene, graph = [], registry = netdevice_traits\<rparr> = Inr st"
    using there by (simp add: scan_nodes_eq st_def)
  have g: "scan_graph fl net = graph st" by (simp add: scan_graph_def n)
  have mob: "mobility_of net (int i) = mobility (net_nodes net ! i)" using assms(3) by (simp add: mobility_of_def)
  define end_of where "end_of = inv object_name"
  have inv: "end_of (object_name e) = e" for e unfolding end_of_def by (simp add: inv_f_f inj_def object_name_inj)
  define eps where "eps = map (\<lambda>(nm, p). (end_of nm, p)) (layout (graph st))"
  have named: "\<exists>e. nm = object_name e \<and> laid_out net (scan_scene st) e" if "nm \<in> fst ` set (layout (graph st))" for nm
    using that assms(2) res(1) unfolding g scan_ok_def by auto
  then have known: "nm \<in> fst ` set (layout (graph st)) \<Longrightarrow> object_name (end_of nm) = nm \<and> laid_out net (scan_scene st) (end_of nm)" for nm
    using inv by fastforce
  have "map (\<lambda>(e, p). (object_name e, p)) eps = map (\<lambda>x. x) (layout (graph st))"
    unfolding eps_def map_map by (rule map_cong) (use known in \<open>force+\<close>)
  then have names: "map (\<lambda>(e, p). (object_name e, p)) eps = layout (graph st)" by simp
  have "map fst (layout (graph st)) = map object_name (map fst eps)" unfolding names [symmetric] by (simp add: split_beta comp_def)
  with assms(1) have dist: "distinct (map fst eps)" unfolding g by (simp only: distinct_map)
  have pres: "laid_out net (scan_scene st) e" if "e \<in> fst ` set eps" for e
    using that known by (fastforce simp: eps_def)
  obtain b sc where r: "run_steps (place fl) (None, scan_scene st) (layout (graph st)) = Inr (b, sc)"
    and sc: "present sc = present (scan_scene st)"
      "\<And>e. position sc e = (case map_of eps e of None \<Rightarrow> position (scan_scene st) e | Some p \<Rightarrow> p)"
    using place_all [OF dist, of "scan_scene st" fl None] pres unfolding names laid_out_def by blast
  have ok: "scene_ok fl sc" using placing.run_inv [OF _ r] res(1) by (simp add: scan_ok_def)
  have look: "map_of eps e = map_of (layout (graph st)) (object_name e)" for e
    unfolding names [symmetric] by (induction eps) (auto dest: object_name_inj)
  have "Some (position sc (At_Node (int i))) = (case mobility (net_nodes net ! i) of
      Some p \<Rightarrow> Some (point_to_canvas fl p) | None \<Rightarrow> map_of (layout (graph st)) (node_name (int i)))"
  proof (cases "mobility (net_nodes net ! i)")
    case (Some p)
    then have "At_Node (int i) \<notin> fst ` set eps" using pres [of "At_Node (int i)"] mob by (simp add: laid_out_def) blast
    then have "map_of eps (At_Node (int i)) = None" by (simp add: map_of_eq_None_iff)
    then show ?thesis using Some by (simp add: sc res(3) mob)
  next
    case None
    then have "node_name (int i) \<in> fst ` set (layout (graph st))" using res(4) [OF assms(3)] mob assms(2) g by simp
    then have "map_of (layout (graph st)) (node_name (int i)) \<noteq> None" by (simp add: map_of_eq_None_iff)
    then show ?thesis using None look [of "At_Node (int i)"] by (auto simp: sc object_name_def)
  qed
  then show ?thesis using ok r sc(1) res(2) [OF assms(3)] unfolding g
    using False by (simp add: scan_topology_def n)
qed

text \<open>Two nodes on a wired channel, one of them with a mobility model, and three nodes on a shared channel.\<close>

definition sample_net :: network where
  "sample_net =
     \<lparr>net_nodes =
        [\<lparr>mobility = Some (10, 20), devices = [\<lparr>dev_type = ''PointToPointNetDevice'', dev_channel = Some 7\<rparr>]\<rparr>,
         \<lparr>mobility = None, devices = [\<lparr>dev_type = ''PointToPointNetDevice'', dev_channel = Some 7\<rparr>, \<lparr>dev_type = ''CsmaNetDevice'', dev_channel = Some 9\<rparr>]\<rparr>,
         \<lparr>mobility = None, devices = [\<lparr>dev_type = ''CsmaNetDevice'', dev_channel = Some 9\<rparr>]\<rparr>,
         \<lparr>mobility = None, devices = [\<lparr>dev_type = ''CsmaNetDevice'', dev_channel = Some 9\<rparr>, \<lparr>dev_type = ''WifiNetDevice'', dev_channel = Some 1\<rparr>]\<rparr>],
      members = (\<lambda>c. if c = 7 then [0, 1] else if c = 9 then [1, 2, 3] else [3])\<rparr>"

definition sample_layout :: "graph_call list \<Rightarrow> (string \<times> point) list" where
  "sample_layout g = map (\<lambda>nm. (nm, (of_nat (length nm), 1))) (remdups (graph_names g))"

lemma scan_places_nodes_witness:
  "(case scan_topology exact sample_layout sample_net (empty_scene, netdevice_traits) of
     Inl _ \<Rightarrow> False
   | Inr (sc, _) \<Rightarrow> scene_ok exact sc \<and> present sc (At_Node 0) \<and> position sc (At_Node 0) = (30, 60)) \<and>
   scan_topology exact sample_layout
     \<lparr>net_nodes = [\<lparr>mobility = None, devices = [\<lparr>dev_type = ''CsmaNetDevice'', dev_channel = None\<rparr>]\<rparr>], members = (\<lambda>_. [])\<rparr>
     (empty_scene, netdevice_traits) = Inl AttributeError"
proof
  have l: "distinct (map fst (sample_layout g))" "fst ` set (sample_layout g) = set (graph_names g)" for g
    by (simp_all add: sample_layout_def comp_def image_image)
  have "mobility (net_nodes sample_net ! 0) = Some (10, 20)" "0 < length (net_nodes sample_net)"
    by (simp_all add: sample_net_def)
  moreover have "\<not> (\<exists>n \<in> set (net_nodes sample_net). \<exists>d \<in> set (devices n). no_channel netdevice_traits d)"
    by (simp add: sample_net_def no_channel_def traits_in_def netdevice_traits_def skipped_def)
  ultimately show "case scan_topology exact sample_layout sample_net (empty_scene, netdevice_traits) of
     Inl _ \<Rightarrow> False
   | Inr (sc, _) \<Rightarrow> scene_ok exact sc \<and> present sc (At_Node 0) \<and> position sc (At_Node 0) = (30, 60)"
    using scan_places_nodes [of sample_layout exact sample_net 0] l
    by (cases "scan_topology exact sample_layout sample_net (empty_scene, netdevice_traits)")
      (auto simp: point_to_canvas_def PIXELS_PER_METER_def exact_def)
  let ?net = "\<lparr>net_nodes = [\<lparr>mobility = None, devices = [\<lparr>dev_type = ''CsmaNetDevice'', dev_channel = None\<rparr>]\<rparr>], members = (\<lambda>_. [])\<rparr>"
  have "\<exists>n \<in> set (net_nodes ?net). \<exists>d \<in> set (devices n). no_channel netdevice_traits d"
    by (simp add: no_channel_def traits_in_def netdevice_traits_def skipped_def)
  then show "scan_topology exact sample_layout ?net (empty_scene, netdevice_traits) = Inl AttributeError"
    using scan_places_nodes [of sample_layout exact ?net 0] l
    by (cases "scan_topology exact sample_layout ?net (empty_scene, netdevice_traits)") auto
qed

section \<open>The lines\<close>

definition line_ends :: "wired_link \<Rightarrow> end_point \<times> end_point" where
  "line_ends l = (end1 l, end2 l)"

text \<open>The far ends of the lines of a device.\<close>

definition far_ends :: "network \<Rightarrow> registry \<Rightarrow> int \<Rightarrow> net_device \<Rightarrow> end_point list" where
  "far_ends net reg i d =
     (if skipped (traits_in reg (dev_type d)) then []
      else case dev_channel d of
             None \<Rightarrow> []
           | Some c \<Rightarrow> if 2 < length (members net c) then [At_Channel c] else map At_Node (filter (\<lambda>j. j \<noteq> i) (members net c)))"

definition topology_lines :: "network \<Rightarrow> registry \<Rightarrow> (end_point \<times> end_point) list" where
  "topology_lines net reg =
     concat (map (\<lambda>i. concat (map (\<lambda>d. map (Pair (At_Node (int i))) (far_ends net reg (int i) d)) (devices (net_nodes net ! i))))
       [0..<length (net_nodes net)])"

abbreviation ends_in :: "scene \<Rightarrow> (end_point \<times> end_point) list" where
  "ends_in sc \<equiv> map line_ends (sc_links sc)"

lemma ends_points: "ends_in (fold update_points ks sc) = ends_in sc"
proof (induction ks arbitrary: sc)
  case (Cons k ks)
  have "ends_in (update_points k sc) = ends_in sc"
    by (cases "k < length (sc_links sc)") (simp_all add: update_points_def Let_def map_update line_ends_def list_update_same_conv list_update_beyond)
  then show ?case using Cons by simp
qed simp

lemma ends_set_position [simp]: "ends_in (set_position fl e p sc) = ends_in sc"
  by (simp add: set_position_def Let_def ends_points split: end_point.split)

lemma ends_appearance [simp]: "ends_in (update_appearance fl i sc) = ends_in sc"
  by (simp add: update_appearance_def Let_def split: option.split)

lemma ends_get_end [simp]: "ends_in (get_end fl e sc) = ends_in sc"
  by (simp add: get_end_def get_node_view_def get_channel_view_def split: end_point.split option.split)

lemma ends_get_node [simp]: "ends_in (get_node_view fl i sc) = ends_in sc"
  by (simp add: get_node_view_def split: option.split)

lemma ends_create_link [simp]: "ends_in (create_link fl i e sc) = ends_in sc @ [(At_Node i, e)]"
  by (simp add: create_link_def Let_def line_ends_def)

lemma ends_other:
  "ends_in (scan_scene (scan_other fl net i j st)) = ends_in (scan_scene st) @ (if j = i then [] else [(At_Node i, At_Node j)])"
  "registry (scan_other fl net i j st) = registry st"
  by (simp_all add: scan_other_def Let_def on_scene_def add_call_def split_beta ask_mobility_simps)

lemma ends_others:
  "ends_in (scan_scene (fold (scan_other fl net i) js st)) =
     ends_in (scan_scene st) @ map (Pair (At_Node i)) (map At_Node (filter (\<lambda>j. j \<noteq> i) js))"
  "registry (fold (scan_other fl net i) js st) = registry st"
  by (induction js arbitrary: st) (simp_all add: ends_other)

lemma far_ends_cong: "traits_in a = traits_in b \<Longrightarrow> far_ends net a = far_ends net b"
  by (simp add: far_ends_def fun_eq_iff)

lemma ends_device:
  "ends_in (scan_scene (device_done fl net i d st)) = ends_in (scan_scene st) @ map (Pair (At_Node i)) (far_ends net (registry st) i d)"
  "traits_in (registry (device_done fl net i d st)) = traits_in (registry st)"
proof -
  have c: "sc_links (get_channel_view c sc) = sc_links sc" for c sc by (simp add: get_channel_view_def split: option.split)
  show "ends_in (scan_scene (device_done fl net i d st)) = ends_in (scan_scene st) @ map (Pair (At_Node i)) (far_ends net (registry st) i d)"
    "traits_in (registry (device_done fl net i d st)) = traits_in (registry st)"
    by (simp_all add: device_done_def scan_wired_def REPRESENT_CHANNELS_AS_NODES_def split_beta Let_def on_scene_def add_call_def lookup_traits_in
      far_ends_def ends_others c split: option.split)
qed

lemma ends_devices:
  "ends_in (scan_scene (fold (device_done fl net i) ds st)) =
     ends_in (scan_scene st) @ concat (map (\<lambda>d. map (Pair (At_Node i)) (far_ends net (registry st) i d)) ds)"
  "traits_in (registry (fold (device_done fl net i) ds st)) = traits_in (registry st)"
proof (induction ds arbitrary: st)
  case (Cons d ds)
  {
    case 1
    show ?case using Cons by (simp add: ends_device far_ends_cong [OF ends_device(2)])
  next
    case 2
    show ?case using Cons by (simp add: ends_device)
  }
qed simp_all

lemma ends_node:
  "ends_in (scan_scene (node_done fl net i st)) =
     ends_in (scan_scene st) @ concat (map (\<lambda>d. map (Pair (At_Node i)) (far_ends net (registry st) i d)) (devices (net_nodes net ! nat i)))"
  "traits_in (registry (node_done fl net i st)) = traits_in (registry st)"
  by (simp_all add: node_done_def begin_node_def Let_def ends_devices on_scene_def add_call_def color_node_def split: option.split)

lemma ends_nodes:
  "traits_in (registry (fold (node_done fl net) (map int ns) st)) = traits_in (registry st) \<and>
   ends_in (scan_scene (fold (node_done fl net) (map int ns) st)) = ends_in (scan_scene st) @
     concat (map (\<lambda>i. concat (map (\<lambda>d. map (Pair (At_Node (int i))) (far_ends net (registry st) (int i) d)) (devices (net_nodes net ! i)))) ns)"
proof (induction ns arbitrary: st)
  case (Cons n ns)
  have "far_ends net (registry (node_done fl net (int n) st)) = far_ends net (registry st)"
    by (rule far_ends_cong) (rule ends_node(2))
  then show ?case using Cons [of "node_done fl net (int n) st"] by (simp add: ends_node)
qed simp

interpretation placing_lines: loop_invariant "place fl" "\<lambda>s. ends_in (snd s) = es"
  by unfold_locales (auto simp: place_def bind_res_Inr_iff)

text \<open>The lines of a scanned topology: for every device that is neither wireless nor virtual, in the order of nodes and
  devices, one line to its channel if more than two devices share it, else one to each other node on it.  A
  channel of two devices is drawn from both of its ends, so twice.\<close>

theorem lines_of_topology:
  assumes "scan_topology fl layout net (empty_scene, netdevice_traits) = Inr (sc, reg)"
  shows "map line_ends (sc_links sc) = topology_lines net netdevice_traits"
proof -
  define st where "st = nodes_done fl net \<lparr>scan_scene = empty_scene, graph = [], registry = netdevice_traits\<rparr>"
  obtain b where r: "run_steps (place fl) (None, scan_scene st) (layout (graph st)) = Inr (b, sc)"
    using assms by (auto simp: scan_topology_def scan_nodes_eq st_def bind_res_Inr_iff split: if_splits)
  have "ends_in (scan_scene st) = topology_lines net netdevice_traits"
    using ends_nodes [of fl net "[0..<length (net_nodes net)]"]
    by (simp add: st_def nodes_done_def topology_lines_def empty_scene_def)
  then show ?thesis using placing_lines.run_inv [OF _ r] by simp
qed

lemma lines_of_topology_witness:
  "map line_ends (sc_links (scan_scene (nodes_done exact sample_net \<lparr>scan_scene = empty_scene, graph = [], registry = netdevice_traits\<rparr>))) =
     [(At_Node 0, At_Node 1), (At_Node 1, At_Node 0), (At_Node 1, At_Channel 9), (At_Node 2, At_Channel 9), (At_Node 3, At_Channel 9)]"
proof -
  let ?st = "nodes_done exact sample_net \<lparr>scan_scene = empty_scene, graph = [], registry = netdevice_traits\<rparr>"
  have "\<not> list_ex (\<lambda>n. list_ex (no_channel netdevice_traits) (devices n)) (net_nodes sample_net)"
    by (simp add: sample_net_def no_channel_def traits_in_def netdevice_traits_def skipped_def)
  then have "scan_topology exact (\<lambda>_. []) sample_net (empty_scene, netdevice_traits) = Inr (scan_scene ?st, registry ?st)"
    by (simp add: scan_topology_def scan_nodes_eq)
  from lines_of_topology [OF this] show ?thesis
    by (simp add: topology_lines_def sample_net_def far_ends_def traits_in_def netdevice_traits_def skipped_def)
qed

section \<open>Following the models\<close>

lemma update_node_simps:
  assumes "cached net sc"
  shows "cached net (update_node fl net i sc)" "present (update_node fl net i sc) = present sc"
    "position (update_node fl net i sc) e =
       (case mobility_of net i of
          Some p \<Rightarrow> if e = At_Node i \<and> present sc (At_Node i) then point_to_canvas fl p else position sc e
        | None \<Rightarrow> position sc e)"
proof -
  obtain b s where a: "ask_mobility net i sc = (b, s)" by fastforce
  note c = ask_mobility_cached [OF assms, of i, unfolded a] and p = ask_mobility_simps [of net i sc, unfolded a]
  show "cached net (update_node fl net i sc)" using c by (simp add: update_node_def a cached_def split: option.split)
  show "present (update_node fl net i sc) = present sc" using p by (simp add: update_node_def a split: option.split)
  have "\<not> present sc (At_Node i) \<Longrightarrow> \<not> b" using a by (auto simp: ask_mobility_def present_def)
  then show "position (update_node fl net i sc) e =
       (case mobility_of net i of
          Some p \<Rightarrow> if e = At_Node i \<and> present sc (At_Node i) then point_to_canvas fl p else position sc e
        | None \<Rightarrow> position sc e)"
    using c(2) p by (cases "present sc (At_Node i)") (auto simp: update_node_def a position_set split: option.split)
qed

text \<open>After an update of the view every node with a mobility model is where the model says; nothing else moved.\<close>

lemma update_node_positions_result:
  assumes "cached net sc"
  shows "position (update_node_positions fl net sc) e =
     (case e of
        At_Channel _ \<Rightarrow> position sc e
      | At_Node i \<Rightarrow> if present sc e then (case mobility_of net i of Some p \<Rightarrow> point_to_canvas fl p | None \<Rightarrow> position sc e)
                     else position sc e)"
proof -
  have run: "cached net s \<Longrightarrow> position (fold (update_node fl net) is s) e =
     (case e of
        At_Channel _ \<Rightarrow> position s e
      | At_Node i \<Rightarrow> if i \<in> set is \<and> present s e then (case mobility_of net i of Some p \<Rightarrow> point_to_canvas fl p | None \<Rightarrow> position s e)
                     else position s e)" for "is" s
    by (induction "is" arbitrary: s) (auto simp: update_node_simps split: end_point.split option.split)
  have "present sc (At_Node i) \<Longrightarrow> i \<in> set (dict_keys (sc_nodes sc))" for i
    by (force simp: present_def dest: map_of_Some_key)
  then show ?thesis using run [OF assms] by (auto simp: update_node_positions_def split: end_point.split)
qed

section \<open>Dragging\<close>

record drag_state =
  canvas_0 :: point
  sim_0 :: point
  drag_node :: int

text \<open>The positions that the simulator keeps are in \<open>dw_mobility\<close>; the handler of motions is connected to the node
  with which the drag began.\<close>

record drag_world =
  dw_scene :: scene
  dw_mobility :: "int \<Rightarrow> point option"
  dw_drag :: "drag_state option"

definition begin_node_drag :: "int \<Rightarrow> point \<Rightarrow> drag_world \<Rightarrow> drag_world" where
  "begin_node_drag i pointer w =
     (case dw_mobility w i of
        None \<Rightarrow> w
      | Some p \<Rightarrow> if dw_drag w \<noteq> None then w
                  else w\<lparr>dw_drag := Some \<lparr>canvas_0 = pointer, sim_0 = p, drag_node = i\<rparr>\<rparr>)"

definition dragged :: "(rat \<Rightarrow> rat) \<Rightarrow> drag_state \<Rightarrow> point \<Rightarrow> point" where
  "dragged fl d pointer =
     (fl (fst (sim_0 d) + distance_to_simulation fl (fl (fst pointer - fst (canvas_0 d)))),
      fl (snd (sim_0 d) + distance_to_simulation fl (fl (snd pointer - snd (canvas_0 d)))))"

definition node_drag_motion :: "(rat \<Rightarrow> rat) \<Rightarrow> int \<Rightarrow> point \<Rightarrow> drag_world \<Rightarrow> bool \<times> drag_world" where
  "node_drag_motion fl i pointer w =
     (case (dw_mobility w i, dw_drag w) of
        (Some _, Some d) \<Rightarrow>
          (let p = dragged fl d pointer
           in (True, w\<lparr>dw_mobility := (dw_mobility w)(i \<mapsto> p),
                dw_scene := set_position fl (At_Node i) (point_to_canvas fl p) (dw_scene w)\<rparr>))
      | _ \<Rightarrow> (False, w))"

definition end_node_drag :: "drag_world \<Rightarrow> drag_world" where
  "end_node_drag w = (case dw_drag w of None \<Rightarrow> w | Some _ \<Rightarrow> w\<lparr>dw_drag := None\<rparr>)"

text \<open>What can happen while a node is dragged; the simulator may move nodes, too.\<close>

datatype drag_event = Begin_Drag int point | Motion int point | End_Drag | Sim_Moves int point

definition drag_event :: "(rat \<Rightarrow> rat) \<Rightarrow> drag_event \<Rightarrow> drag_world \<Rightarrow> drag_world" where
  "drag_event fl ev w =
     (case ev of
        Begin_Drag i q \<Rightarrow> begin_node_drag i q w
      | Motion i q \<Rightarrow>
          (case dw_drag w of
             Some d \<Rightarrow> if drag_node d = i then snd (node_drag_motion fl i q w) else w
           | None \<Rightarrow> w)
      | End_Drag \<Rightarrow> end_node_drag w
      | Sim_Moves i p \<Rightarrow> (case dw_mobility w i of None \<Rightarrow> w | Some _ \<Rightarrow> w\<lparr>dw_mobility := (dw_mobility w)(i \<mapsto> p)\<rparr>))"

definition dragging :: "int \<Rightarrow> point \<Rightarrow> point \<Rightarrow> drag_world \<Rightarrow> bool" where
  "dragging i q0 s0 w \<longleftrightarrow> dw_drag w = Some \<lparr>canvas_0 = q0, sim_0 = s0, drag_node = i\<rparr> \<and>
     dw_mobility w i \<noteq> None \<and> present (dw_scene w) (At_Node i)"

lemma dragging_event: "dragging i q0 s0 w \<Longrightarrow> ev \<noteq> End_Drag \<Longrightarrow> dragging i q0 s0 (drag_event fl ev w)"
  by (auto simp: dragging_def drag_event_def begin_node_drag_def node_drag_motion_def Let_def split: drag_event.split option.split)

lemma dragging_events: "dragging i q0 s0 w \<Longrightarrow> End_Drag \<notin> set evs \<Longrightarrow> dragging i q0 s0 (fold (drag_event fl) evs w)"
proof (induction evs arbitrary: w)
  case (Cons ev evs)
  have "dragging i q0 s0 (drag_event fl ev w)" by (rule dragging_event) (use Cons.prems in auto)
  then show ?case using Cons by simp
qed simp

text \<open>A dragged node follows the pointer: whatever else happens during the drag (motions, the simulator moving this or other
  nodes, attempts to drag another), after the last motion the model and the picture have moved by exactly as much
  as the pointer since the drag began, and the drag is over.\<close>

theorem drag_follows_pointer:
  assumes "dw_drag w = None" and "dw_mobility w i = Some s0" and "present (dw_scene w) (At_Node i)"
    and "End_Drag \<notin> set evs"
  shows "case fold (drag_event exact) (Begin_Drag i q0 # evs @ [Motion i q, End_Drag]) w of w' \<Rightarrow>
     dw_mobility w' i = Some (fst s0 + (fst q - fst q0) / 3, snd s0 + (snd q - snd q0) / 3) \<and>
     position (dw_scene w') (At_Node i) = (3 * fst s0 + (fst q - fst q0), 3 * snd s0 + (snd q - snd q0)) \<and>
     dw_drag w' = None"
proof -
  have "dragging i q0 s0 (drag_event exact (Begin_Drag i q0) w)"
    using assms(1-3) by (simp add: dragging_def drag_event_def begin_node_drag_def)
  from dragging_events [OF this assms(4), of exact] show ?thesis
    by (auto simp: dragging_def drag_event_def node_drag_motion_def end_node_drag_def Let_def dragged_def position_set
        distance_to_simulation_def point_to_canvas_def PIXELS_PER_METER_def exact_def)
qed

definition sample_world :: drag_world where
  "sample_world = \<lparr>dw_scene = get_node_view exact 4 empty_scene, dw_mobility = (\<lambda>i. if i = 4 then Some (1, 2) else None), dw_drag = None\<rparr>"

lemma drag_follows_pointer_witness:
  "dw_mobility (fold (drag_event exact)
      (Begin_Drag 4 (10, 10) # [Motion 4 (11, 12), Sim_Moves 4 (0, 0)] @ [Motion 4 (16, 13), End_Drag]) sample_world) 4 = Some (3, 3)"
proof -
  have "dw_drag sample_world = None" "dw_mobility sample_world 4 = Some (1, 2)" "present (dw_scene sample_world) (At_Node 4)"
    by (simp_all add: sample_world_def present_get_node)
  from drag_follows_pointer [OF this, of "[Motion 4 (11, 12), Sim_Moves 4 (0, 0)]" "(10, 10)" "(16, 13)"]
  show ?thesis by simp
qed

end
