(* ===== verification/Viz_Axes.thy ===== *)
theory Viz_Axes
  imports Py_Strings Py_Float
begin

text \<open>
  \<open>visualizer/hud.py\<close>: the axes at the edges of the view: the distance of the ticks, the ticks, and the labels
  that are reused from one update to the next.  Floats are rounded by \<open>fl\<close>; \<open>math.log10\<close> and \<open>pow\<close> are taken
  to be right.  How goocanvas paints, and the text of a label (\<open>"%G" % x\<close>), are not modelled: a label keeps
  its number.
\<close>

section \<open>The nearest power of ten\<close>

text \<open>\<open>10 ^ ilog10 x \<le> x < 10 ^ (ilog10 x + 1)\<close>\<close>

definition ilog10 :: "rat \<Rightarrow> int" where
  "ilog10 x =
     (if 1 \<le> x then int (floorlog 10 (nat \<lfloor>x\<rfloor>)) - 1
      else let k = int (floorlog 10 (nat \<lfloor>1 / x\<rfloor>)) - 1
           in if x * 10 powi k = 1 then - k else - k - 1)"

text \<open>\<open>floor(log10(x) + 0.5)\<close>, the exponent \<open>m\<close> with \<open>10 ^ (2 m - 1) \<le> x ^ 2 < 10 ^ (2 m + 1)\<close>.\<close>

definition rint_log10 :: "rat \<Rightarrow> int" where
  "rint_log10 x = ilog10 (10 * x\<^sup>2) div 2"

section \<open>Divisions\<close>

definition nearest_division :: "(rat \<Rightarrow> rat) \<Rightarrow> rat \<Rightarrow> rat" where
  "nearest_division fl q =
     (let d = fl (10 powi rint_log10 q)
      in if \<bar>fl (fl (d / 2) - q)\<bar> < \<bar>fl (d - q)\<bar> then fl (d / 2)
         else if \<bar>fl (fl (d * 2) - q)\<bar> < \<bar>fl (d - q)\<bar> then fl (d * 2)
         else d)"

text \<open>The five rounds of the loop compute the same: what they change is not used again.\<close>

definition division_round :: "(rat \<Rightarrow> rat) \<Rightarrow> rat \<Rightarrow> rat \<Rightarrow> rat \<times> rat" where
  "division_round fl xi q =
     (let d = nearest_division fl q in (fl (fl (d * of_int \<lceil>fl (xi / d)\<rceil>) - d), d))"

fun division_rounds :: "(rat \<Rightarrow> rat) \<Rightarrow> rat \<Rightarrow> rat \<Rightarrow> nat \<Rightarrow> rat \<times> rat \<Rightarrow> rat \<times> rat" where
  "division_rounds fl xi q 0 r = r"
| "division_rounds fl xi q (Suc n) r = division_rounds fl xi q n (division_round fl xi q)"

definition compute_divisions :: "(rat \<Rightarrow> rat) \<Rightarrow> rat \<Rightarrow> rat \<Rightarrow> (rat \<times> rat) res" where
  "compute_divisions fl xi xf =
     (if \<not> xi < xf then Inl AssertionError
      else Inr (division_rounds fl xi (fl (fl (xf - xi) / 5)) 5 (0, 0)))"

text \<open>\<open>while x < hi: \<dots>; x += div\<close>, which ends unless a step is lost in rounding.\<close>

partial_function (option) ticks :: "(rat \<Rightarrow> rat) \<Rightarrow> rat \<Rightarrow> rat \<Rightarrow> rat \<Rightarrow> rat list option" where
  "ticks fl hi d x =
     (if x < hi then Option.bind (ticks fl hi d (fl (x + d))) (\<lambda>xs. Some (x # xs)) else Some [])"

section \<open>Labels\<close>

record label =
  label_id :: nat
  shown :: bool
  number :: rat
  spot :: "rat \<times> rat"
  at_bottom :: bool

record label_state =
  labels :: "label list"
  unused :: "label list"
  made :: nat

text \<open>\<open>get_label\<close>, and the properties set on the label; a new label is visible.\<close>

definition put_label :: "rat \<Rightarrow> rat \<times> rat \<Rightarrow> bool \<Rightarrow> label_state \<Rightarrow> label_state" where
  "put_label x p b s =
     (case unused s of
        [] \<Rightarrow> s\<lparr>labels := labels s @ [\<lparr>label_id = made s, shown = True, number = x, spot = p, at_bottom = b\<rparr>], made := Suc (made s)\<rparr>
      | l # r \<Rightarrow> s\<lparr>labels := labels s @ [l\<lparr>shown := True, number := x, spot := p, at_bottom := b\<rparr>], unused := r\<rparr>)"

section \<open>The axes\<close>

type_synonym segment = "(rat \<times> rat) \<times> (rat \<times> rat)"

record axes =
  visible :: bool
  lines_visible :: bool
  hlines :: "segment list"
  vlines :: "segment list"
  ax_labels :: "label list"
  ax_made :: nat

record viewport =
  vx1 :: rat
  vy1 :: rat
  vx2 :: rat
  vy2 :: rat
  zoom :: rat

definition PIXELS :: rat where
  "PIXELS = 3"

text \<open>The tick for \<open>x\<close> at the lower edge and the tick for \<open>y\<close> at the left edge, with where the label goes.\<close>

definition bottom_tick :: "(rat \<Rightarrow> rat) \<Rightarrow> viewport \<Rightarrow> rat \<Rightarrow> segment" where
  "bottom_tick fl v x =
     (let yc = fl (vy2 v - fl (fl (5 / zoom v) / 2)); offset = fl (10 / zoom v)
      in ((fl (PIXELS * x), fl (yc - offset)), (fl (PIXELS * x), yc)))"

definition left_tick :: "(rat \<Rightarrow> rat) \<Rightarrow> viewport \<Rightarrow> rat \<Rightarrow> segment" where
  "left_tick fl v y =
     (let xc = fl (vx1 v + fl (fl (5 / zoom v) / 2)); offset = fl (10 / zoom v)
      in ((xc, fl (PIXELS * y)), (fl (xc + offset), fl (PIXELS * y))))"

definition bottom_axis :: "(rat \<Rightarrow> rat) \<Rightarrow> viewport \<Rightarrow> segment" where
  "bottom_axis fl v = (let yc = fl (vy2 v - fl (fl (5 / zoom v) / 2)) in ((vx1 v, yc), (vx2 v, yc)))"

definition left_axis :: "(rat \<Rightarrow> rat) \<Rightarrow> viewport \<Rightarrow> segment" where
  "left_axis fl v = (let xc = fl (vx1 v + fl (fl (5 / zoom v) / 2)) in ((xc, vy1 v), (xc, vy2 v)))"

definition axis_ticks :: "(rat \<Rightarrow> rat) \<Rightarrow> rat \<Rightarrow> rat \<Rightarrow> rat list option res" where
  "axis_ticks fl lo hi =
     (let xi = fl (lo / PIXELS); xf = fl (hi / PIXELS)
      in bind_res (compute_divisions fl xi xf) (\<lambda>(x0, d). Inr (ticks fl xf d x0)))"

text \<open>\<open>Axes.update_view\<close>; without a zoom nothing happens; \<open>Inr None\<close> is a loop that does not end.\<close>

definition update_view :: "(rat \<Rightarrow> rat) \<Rightarrow> viewport option \<Rightarrow> axes \<Rightarrow> axes option res" where
  "update_view fl view a =
     (case view of
        None \<Rightarrow> Inr (Some a)
      | Some v \<Rightarrow>
          bind_res (axis_ticks fl (vx1 v) (vx2 v)) (\<lambda>xs. bind_res (axis_ticks fl (vy1 v) (vy2 v)) (\<lambda>ys.
          Inr (Option.bind xs (\<lambda>xs. Option.bind ys (\<lambda>ys.
            let s = \<lparr>labels = [], unused = map (\<lambda>l. l\<lparr>shown := False\<rparr>) (ax_labels a), made = ax_made a\<rparr>;
                s = fold (\<lambda>x. put_label x (fst (bottom_tick fl v x)) True) xs s;
                s = fold (\<lambda>y. put_label y (snd (left_tick fl v y)) False) ys s
            in Some (a\<lparr>hlines := bottom_axis fl v # map (bottom_tick fl v) xs,
                 vlines := left_axis fl v # map (left_tick fl v) ys,
                 ax_labels := labels s @ unused s, ax_made := made s\<rparr>)))))))"

definition set_visible :: "bool \<Rightarrow> axes \<Rightarrow> axes" where
  "set_visible b a =
     (let a = a\<lparr>visible := b, lines_visible := b\<rparr>
      in if b then a else a\<lparr>ax_labels := map (\<lambda>l. l\<lparr>shown := False\<rparr>) (ax_labels a)\<rparr>)"

text \<open>The handler of the scroll bars.\<close>

definition adjusted :: "(rat \<Rightarrow> rat) \<Rightarrow> viewport option \<Rightarrow> axes \<Rightarrow> axes option res" where
  "adjusted fl view a = (if visible a then update_view fl view a else Inr (Some a))"

section \<open>Powers of ten\<close>

lemma floorlog10_rat:
  assumes "1 \<le> (x::rat)"
  shows "10 powi (int (floorlog 10 (nat \<lfloor>x\<rfloor>)) - 1) \<le> x" "x < 10 powi int (floorlog 10 (nat \<lfloor>x\<rfloor>))"
proof -
  let ?n = "nat \<lfloor>x\<rfloor>"
  let ?k = "floorlog 10 ?n"
  from assms have f: "1 \<le> \<lfloor>x\<rfloor>" by simp
  then have n: "0 < ?n" by simp
  have b: "10 ^ (?k - 1) \<le> ?n" "?n < 10 ^ ?k" using floorlog_bounds [OF n, of 10] by simp_all
  have k: "0 < ?k" using n by (simp add: floorlog_def)
  have "(of_nat (10 ^ (?k - 1)) :: rat) \<le> of_nat ?n" using b(1) by (simp only: of_nat_le_iff)
  also have "(of_nat ?n :: rat) \<le> x" using f by simp
  finally have "10 ^ (?k - 1) \<le> x" by simp
  moreover have "int ?k - 1 = int (?k - 1)" using k by simp
  ultimately show "10 powi (int ?k - 1) \<le> x" by (simp only: power_int_of_nat)
  have "int (?n + 1) \<le> int (10 ^ ?k)" using Suc_leI [OF b(2)] by (simp only: Suc_eq_plus1 of_nat_le_iff)
  then have "(of_int (\<lfloor>x\<rfloor> + 1) :: rat) \<le> of_int (10 ^ ?k)" using f by (simp only: of_int_le_iff) simp
  moreover have "x < of_int (\<lfloor>x\<rfloor> + 1)" by linarith
  ultimately show "x < 10 powi int ?k" by simp
qed

lemma powi_cancel10: "(10::rat) powi (- k) * 10 powi k = 1"
  by (simp flip: power_int_add)

lemma ilog10_bounds:
  assumes "0 < (x::rat)"
  shows "10 powi ilog10 x \<le> x" "x < 10 powi (ilog10 x + 1)"
proof (atomize (full), cases "1 \<le> x")
  case True
  then show "10 powi ilog10 x \<le> x \<and> x < 10 powi (ilog10 x + 1)" using floorlog10_rat [OF True] by (simp add: ilog10_def)
next
  case False
  define k where "k = int (floorlog 10 (nat \<lfloor>1 / x\<rfloor>)) - 1"
  from False assms have "1 \<le> 1 / x" by simp
  from floorlog10_rat [OF this] have b: "10 powi k \<le> 1 / x" "1 / x < 10 powi (k + 1)" by (simp_all add: k_def)
  have u: "10 powi (- (k + 1)) < x"
  proof (rule mult_right_less_imp_less)
    show "10 powi (- (k + 1)) * 10 powi (k + 1) < x * 10 powi (k + 1)"
      unfolding powi_cancel10 using b(2) assms by (simp add: field_simps)
  qed simp
  have l: "x * 10 powi k \<le> 1" using b(1) assms by (simp add: field_simps)
  show "10 powi ilog10 x \<le> x \<and> x < 10 powi (ilog10 x + 1)"
  proof (cases "x * 10 powi k = 1")
    case True
    then have "x = 10 powi (- k)" using powi_cancel10 [of k] by (metis mult_right_cancel power_int_eq_0_iff zero_neq_numeral)
    moreover have "ilog10 x = - k" using False True by (simp add: ilog10_def k_def [symmetric])
    ultimately show ?thesis by (simp add: power_int_strict_increasing)
  next
    case nk: False
    have i: "ilog10 x = - (k + 1)" using False nk by (simp add: ilog10_def k_def [symmetric])
    have "x * 10 powi k < 10 powi (- k) * 10 powi k" using l nk unfolding powi_cancel10 by simp
    then have "x < 10 powi (- k)" by (rule mult_right_less_imp_less) simp
    moreover have "- (k + 1) + 1 = - k" by simp
    ultimately show ?thesis unfolding i using u by simp
  qed
qed

lemma rint_log10_bounds:
  assumes "0 < (q::rat)"
  shows "(10 powi rint_log10 q)\<^sup>2 \<le> 10 * q\<^sup>2" "q\<^sup>2 < 10 * (10 powi rint_log10 q)\<^sup>2"
proof -
  let ?k = "ilog10 (10 * q\<^sup>2)"
  let ?m = "rint_log10 q"
  have "0 < 10 * q\<^sup>2" using assms by simp
  note b = ilog10_bounds [OF this]
  have sq: "(10 powi ?m :: rat)\<^sup>2 = 10 powi (2 * ?m)" by (simp add: power_int_mult power_int_power mult.commute)
  have "2 * ?m \<le> ?k" by (simp add: rint_log10_def)
  then have "(10::rat) powi (2 * ?m) \<le> 10 powi ?k" by (intro power_int_increasing) simp_all
  then show "(10 powi ?m)\<^sup>2 \<le> 10 * q\<^sup>2" using b(1) sq by simp
  have "?k + 1 \<le> 2 * ?m + 2" unfolding rint_log10_def by presburger
  then have "(10::rat) powi (?k + 1) \<le> 10 powi (2 * ?m + 2)" by (intro power_int_increasing) simp_all
  also have "(10::rat) powi (2 * ?m + 2) = 100 * (10 powi ?m)\<^sup>2" unfolding sq by (simp add: power_int_add)
  finally show "q\<^sup>2 < 10 * (10 powi ?m)\<^sup>2" using b(2) by simp
qed

text \<open>The division is never far from a fifth of the range.\<close>

lemma nearest_division_bounds:
  assumes "0 < q"
  shows "63 / 100 * q < nearest_division exact q" "nearest_division exact q < 16 / 10 * q"
proof -
  define d :: rat where "d = 10 powi rint_log10 q"
  have d: "0 < d" by (simp add: d_def)
  note b = rint_log10_bounds [OF assms, folded d_def]
  have lt: "x < y" if "x\<^sup>2 < y\<^sup>2" "0 \<le> y" for x y :: rat using that by (rule power2_less_imp_less)
  have e: "nearest_division exact q = (if \<bar>d / 2 - q\<bar> < \<bar>d - q\<bar> then d / 2 else if \<bar>d * 2 - q\<bar> < \<bar>d - q\<bar> then d * 2 else d)"
    by (simp add: nearest_division_def exact_def d_def)
  have "0 < q\<^sup>2" using assms by simp
  then have "d\<^sup>2 * 25 < 256 * q\<^sup>2" using b(1) by linarith
  then have half: "d / 2 < 16 / 10 * q"
    by - (rule lt, use assms in \<open>simp_all add: power_mult_distrib power_divide\<close>)
  have "0 < d\<^sup>2" using d by simp
  then have "3969 * q\<^sup>2 < 40000 * d\<^sup>2" using b(2) by linarith
  then have twice: "63 / 100 * q < d * 2"
    by - (rule lt, use d in \<open>simp_all add: power_mult_distrib power_divide\<close>)
  show "63 / 100 * q < nearest_division exact q" "nearest_division exact q < 16 / 10 * q"
    unfolding e using assms d half twice by (auto simp: abs_if split: if_splits)
qed

lemma compute_divisions_exact:
  assumes "xi < xf"
  shows "compute_divisions exact xi xf =
     (let d = nearest_division exact ((xf - xi) / 5) in Inr (d * of_int \<lceil>xi / d\<rceil> - d, d))"
  using assms by (simp add: compute_divisions_def division_round_def exact_def Let_def eval_nat_numeral)

lemma ticks_exact:
  assumes "0 < d"
  shows "ticks exact hi d x = Some (map (\<lambda>k. x + of_nat k * d) [0..<nat \<lceil>(hi - x) / d\<rceil>])"
proof (induction "nat \<lceil>(hi - x) / d\<rceil>" arbitrary: x)
  case 0
  then have "\<lceil>(hi - x) / d\<rceil> \<le> 0" by simp
  then have "(hi - x) / d \<le> 0" by simp
  then have "\<not> x < hi" using assms by (simp add: field_simps)
  with 0 show ?case by (subst ticks.simps) simp
next
  case (Suc n)
  then have "0 < \<lceil>(hi - x) / d\<rceil>" by linarith
  then have "0 < (hi - x) / d" by simp
  then have x: "x < hi" using assms by (simp add: field_simps)
  have "(hi - (x + d)) / d = (hi - x) / d - 1" using assms by (simp add: field_simps)
  then have n: "nat \<lceil>(hi - (x + d)) / d\<rceil> = n" using Suc(2) by (simp add: ceiling_diff_one)
  have "ticks exact hi d (x + d) = Some (map (\<lambda>k. x + d + of_nat k * d) [0..<n])" using Suc(1) [of "x + d"] n by simp
  then have "ticks exact hi d x = Some (x # map (\<lambda>k. x + d + of_nat k * d) [0..<n])"
    using x by (subst ticks.simps) (simp add: exact_def)
  also have "x # map (\<lambda>k. x + d + of_nat k * d) [0..<n] = map (\<lambda>k. x + of_nat k * d) [0..<Suc n]"
    by (simp only: upt_conv_Cons [of 0 "Suc n"] list.map map_Suc_upt [symmetric] map_map zero_less_Suc) (simp add: comp_def algebra_simps)
  finally show ?case using Suc(2) by simp
qed

section \<open>The labels in use\<close>

definition pool_ok :: "label_state \<Rightarrow> (rat \<times> bool) list \<Rightarrow> bool" where
  "pool_ok s xs \<longleftrightarrow>
     map (\<lambda>l. (number l, at_bottom l)) (labels s) = xs \<and> list_all shown (labels s) \<and> list_all (\<lambda>l. \<not> shown l) (unused s) \<and>
     distinct (map label_id (labels s @ unused s)) \<and> set (map label_id (labels s @ unused s)) = {..<made s}"

lemma pool_ok_put: "pool_ok s xs \<Longrightarrow> pool_ok (put_label x p b s) (xs @ [(x, b)])"
  by (cases "unused s") (auto simp: pool_ok_def put_label_def lessThan_Suc)

lemma pool_ok_fold: "pool_ok s xs \<Longrightarrow> pool_ok (fold (\<lambda>x. put_label x (f x) b) ys s) (xs @ map (\<lambda>y. (y, b)) ys)"
proof (induction ys arbitrary: s xs)
  case (Cons y ys)
  from Cons.IH [OF pool_ok_put [OF Cons.prems, of y "f y" b]] show ?case by simp
qed simp

lemma made_fold: "made s \<le> made (fold (\<lambda>x. put_label x (f x) b) ys s)"
proof (induction ys arbitrary: s)
  case (Cons y ys)
  have "made s \<le> made (put_label y (f y) b s)" by (simp add: put_label_def split: list.split)
  then show ?case using Cons [of "put_label y (f y) b s"] by simp
qed simp

definition axes_ok :: "axes \<Rightarrow> bool" where
  "axes_ok a \<longleftrightarrow> distinct (map label_id (ax_labels a)) \<and> set (map label_id (ax_labels a)) = {..<ax_made a}"

lemma pool_ok_start:
  "axes_ok a \<Longrightarrow> pool_ok \<lparr>labels = [], unused = map (\<lambda>l. l\<lparr>shown := False\<rparr>) (ax_labels a), made = ax_made a\<rparr> []"
  by (simp add: pool_ok_def axes_ok_def list_all_iff comp_def image_image)

text \<open>Switching the axes off and on again shows the lines but none of the labels, until the view changes.\<close>

lemma labels_stay_hidden:
  "lines_visible (set_visible True (set_visible False a)) \<and> list_all (\<lambda>l. \<not> shown l) (ax_labels (set_visible True (set_visible False a)))"
  by (simp add: set_visible_def list_all_iff)

section \<open>Properties\<close>

lemma axis_ticks_exact:
  assumes "lo < hi"
  defines "d \<equiv> nearest_division exact ((hi - lo) / 15)"
  defines "x0 \<equiv> d * of_int \<lceil>lo / 3 / d\<rceil> - d"
  shows "axis_ticks exact lo hi = Inr (Some (map (\<lambda>k. x0 + of_nat k * d) [0..<nat \<lceil>(hi / 3 - x0) / d\<rceil>]))" and "0 < d"
proof -
  have q: "0 < (hi - lo) / 15" using assms(1) by simp
  then have "0 < 63 / 100 * ((hi - lo) / 15)" by simp
  also have "\<dots> < d" unfolding d_def by (rule nearest_division_bounds(1) [OF q])
  finally show d: "0 < d" .
  have e: "(hi / 3 - lo / 3) / 5 = (hi - lo) / 15" by (simp add: field_simps)
  have "compute_divisions exact (lo / 3) (hi / 3) = Inr (x0, d)"
    using assms(1) by (subst compute_divisions_exact) (simp_all add: e d_def [symmetric] x0_def Let_def)
  then show "axis_ticks exact lo hi = Inr (Some (map (\<lambda>k. x0 + of_nat k * d) [0..<nat \<lceil>(hi / 3 - x0) / d\<rceil>]))"
    by (simp add: axis_ticks_def PIXELS_def exact_def ticks_exact [OF d])
qed

text \<open>C35. However large or small the part of the canvas in view, an axis gets between four and nine ticks: the loop
  ends, the first tick is the last multiple of the division before the edge, and the last one is less than
  a division before the other edge, in ideal arithmetic.\<close>

theorem ticks_bounded:
  assumes "lo < hi"
  shows "case axis_ticks exact lo hi of
      Inr (Some xs) \<Rightarrow>
        4 \<le> length xs \<and> length xs \<le> 9 \<and>
        (let d = nearest_division exact ((hi - lo) / 15)
         in hd xs < lo / 3 \<and> lo / 3 \<le> hd xs + d \<and> last xs < hi / 3 \<and> hi / 3 \<le> last xs + d \<and>
            xs = map (\<lambda>k. (of_int (\<lceil>lo / 3 / d\<rceil> - 1) + of_nat k) * d) [0..<length xs])
    | _ \<Rightarrow> False"
proof -
  define d where "d = nearest_division exact ((hi - lo) / 15)"
  define c where "c = \<lceil>lo / 3 / d\<rceil>"
  define x0 where "x0 = d * of_int c - d"
  define n where "n = nat \<lceil>(hi / 3 - x0) / d\<rceil>"
  have r: "axis_ticks exact lo hi = Inr (Some (map (\<lambda>k. x0 + of_nat k * d) [0..<n]))" and d: "0 < d"
    using axis_ticks_exact [OF assms] unfolding d_def [symmetric] by (simp_all only: c_def [symmetric] x0_def [symmetric] n_def [symmetric])
  have b: "63 / 100 * ((hi - lo) / 15) < d" "d < 16 / 10 * ((hi - lo) / 15)"
    using nearest_division_bounds [of "(hi - lo) / 15"] assms by (simp_all add: d_def)
  have "of_int c - 1 < lo / 3 / d" "lo / 3 / d \<le> of_int c" unfolding c_def by linarith+
  then have x0: "x0 < lo / 3" "lo / 3 \<le> x0 + d" using d by (simp_all add: x0_def field_simps)
  have up: "(hi / 3 - x0) / d < 9" using x0 b(1) d by (simp add: field_simps)
  have lo: "3 < (hi / 3 - x0) / d" using x0 b(2) d by (simp add: field_simps)
  have n: "of_nat n < (hi / 3 - x0) / d + 1" "(hi / 3 - x0) / d \<le> of_nat n" "4 \<le> n" "n \<le> 9"
    using up lo unfolding n_def by linarith+
  have hd: "hd (map (\<lambda>k. x0 + of_nat k * d) [0..<n]) = x0" using n(3) by (simp add: hd_map)
  have last: "last (map (\<lambda>k. x0 + of_nat k * d) [0..<n]) = x0 + of_nat (n - 1) * d" using n(3) by (simp add: last_map)
  have e: "of_nat (n - 1) = (of_nat n :: rat) - 1" using n(3) by (simp add: of_nat_diff)
  have l: "x0 + of_nat (n - 1) * d < hi / 3" "hi / 3 \<le> x0 + of_nat (n - 1) * d + d"
    unfolding e using n(1,2) d by (simp_all add: field_simps)
  have m: "map (\<lambda>k. x0 + of_nat k * d) [0..<n] = map (\<lambda>k. (of_int (c - 1) + of_nat k) * d) [0..<n]"
    by (simp add: x0_def algebra_simps)
  show ?thesis
    unfolding r using n(3,4) x0 l m by (simp add: hd last d_def [symmetric] c_def Let_def)
qed

lemma ticks_bounded_witness:
  "case axis_ticks exact 0 600 of Inr (Some xs) \<Rightarrow> 4 \<le> length xs \<and> length xs \<le> 9 \<and> hd xs < 0 \<and> last xs < 200 | _ \<Rightarrow> False"
  using ticks_bounded [of 0 600] by (simp add: Let_def split: sum.splits option.splits)

text \<open>After an update of the axes the visible labels are exactly those of the ticks, first the lower edge, then the left
  one, in order; no label is lost, and a new one is made only when all are in use.\<close>

theorem labels_of_ticks:
  assumes "axes_ok a" and "vx1 v < vx2 v" and "vy1 v < vy2 v"
  shows "case (axis_ticks exact (vx1 v) (vx2 v), axis_ticks exact (vy1 v) (vy2 v), update_view exact (Some v) a) of
      (Inr (Some xs), Inr (Some ys), Inr (Some a')) \<Rightarrow>
        map (\<lambda>l. (number l, at_bottom l)) (filter shown (ax_labels a')) = map (\<lambda>x. (x, True)) xs @ map (\<lambda>y. (y, False)) ys \<and>
        axes_ok a' \<and> ax_made a \<le> ax_made a'
    | _ \<Rightarrow> False"
proof -
  obtain xs ys where t: "axis_ticks exact (vx1 v) (vx2 v) = Inr (Some xs)" "axis_ticks exact (vy1 v) (vy2 v) = Inr (Some ys)"
    using axis_ticks_exact(1) [OF assms(2)] axis_ticks_exact(1) [OF assms(3)] by blast
  let ?s0 = "\<lparr>labels = [], unused = map (\<lambda>l. l\<lparr>shown := False\<rparr>) (ax_labels a), made = ax_made a\<rparr>"
  define s1 where "s1 = fold (\<lambda>x. put_label x (fst (bottom_tick exact v x)) True) xs ?s0"
  define s2 where "s2 = fold (\<lambda>y. put_label y (snd (left_tick exact v y)) False) ys s1"
  have "pool_ok s1 ([] @ map (\<lambda>x. (x, True)) xs)" unfolding s1_def by (rule pool_ok_fold [OF pool_ok_start [OF assms(1)]])
  then have "pool_ok s2 (([] @ map (\<lambda>x. (x, True)) xs) @ map (\<lambda>y. (y, False)) ys)" unfolding s2_def by (rule pool_ok_fold)
  then have p: "pool_ok s2 (map (\<lambda>x. (x, True)) xs @ map (\<lambda>y. (y, False)) ys)" by simp
  have "made ?s0 \<le> made s1" "made s1 \<le> made s2" unfolding s1_def s2_def by (rule made_fold)+
  then have m: "ax_made a \<le> made s2" by simp
  have "filter shown (labels s2 @ unused s2) = labels s2" using p by (simp add: pool_ok_def list_all_iff filter_id_conv)
  moreover have "update_view exact (Some v) a =
      Inr (Some (a\<lparr>hlines := bottom_axis exact v # map (bottom_tick exact v) xs, vlines := left_axis exact v # map (left_tick exact v) ys,
        ax_labels := labels s2 @ unused s2, ax_made := made s2\<rparr>))"
    by (simp add: update_view_def t Let_def s1_def s2_def)
  ultimately show ?thesis using p m by (simp add: t axes_ok_def pool_ok_def)
qed

definition sample_axes :: axes where
  "sample_axes = \<lparr>visible = True, lines_visible = True, hlines = [], vlines = [], ax_labels = [], ax_made = 0\<rparr>"

lemma sample_ticks: "axis_ticks exact 0 600 = Inr (Some [- 50, 0, 50, 100, 150])"
  by (simp add: axis_ticks_exact nearest_division_def rint_log10_def ilog10_def compute_floorlog exact_def upt_conv_Cons)

lemma labels_of_ticks_witness:
  "case update_view exact (Some \<lparr>vx1 = 0, vy1 = 0, vx2 = 600, vy2 = 600, zoom = 1\<rparr>) sample_axes of
     Inr (Some a) \<Rightarrow> map number (filter shown (ax_labels a)) = [- 50, 0, 50, 100, 150, - 50, 0, 50, 100, 150]
   | _ \<Rightarrow> False"
proof -
  have "axes_ok sample_axes" by (simp add: axes_ok_def sample_axes_def)
  from labels_of_ticks [OF this, of "\<lparr>vx1 = 0, vy1 = 0, vx2 = 600, vy2 = 600, zoom = 1\<rparr>"]
  obtain a where a: "update_view exact (Some \<lparr>vx1 = 0, vy1 = 0, vx2 = 600, vy2 = 600, zoom = 1\<rparr>) sample_axes = Inr (Some a)"
    and l: "map (\<lambda>l. (number l, at_bottom l)) (filter shown (ax_labels a)) =
      map (\<lambda>x. (x, True)) [- 50, 0, 50, 100, 150] @ map (\<lambda>y. (y, False)) [- 50, 0, 50, 100, 150]"
    by (simp add: sample_ticks split: sum.splits option.splits)
  have "map number (filter shown (ax_labels a)) = map fst (map (\<lambda>l. (number l, at_bottom l)) (filter shown (ax_labels a)))" by (simp add: comp_def)
  then show ?thesis unfolding l by (simp add: a)
qed

end
