(* ===== verification/Flow_Results.thy ===== *)
theory Flow_Results
  imports Test_Report Py_Float
begin

text \<open>
  \<open>flow-monitor/examples/flowmon-parse-results.py\<close> (Python 2 with true division): the flows and probes read
  from the XML file of the flow monitor, and the lines printed for each flow.  The document is a tree of
  elements; the rounding of floats is \<open>fl\<close>; integers are taken to be below the overflow of \<open>float\<close>.
\<close>

section \<open>Numbers\<close>

text \<open>\<open>int(s)\<close> and \<open>long(s)\<close> of Python 2: white space may follow the sign; \<open>long\<close> takes an \<open>L\<close> at the end.\<close>

definition py2_digits :: "string \<Rightarrow> nat res" where
  "py2_digits s = (if isdigit s then Inr (digits_val s) else Inl ValueError)"

definition py2_int :: "string \<Rightarrow> int res" where
  "py2_int s =
     (case strip s of
        [] \<Rightarrow> Inl ValueError
      | c # r \<Rightarrow>
          if c = CHR ''-'' then bind_res (py2_digits (dropWhile is_ws r)) (\<lambda>n. Inr (- int n))
          else if c = CHR ''+'' then bind_res (py2_digits (dropWhile is_ws r)) (\<lambda>n. Inr (int n))
          else bind_res (py2_digits (c # r)) (\<lambda>n. Inr (int n)))"

definition py2_long :: "string \<Rightarrow> int res" where
  "py2_long s =
     (let t = strip s in
      py2_int (if t \<noteq> [] \<and> (last t = CHR ''L'' \<or> last t = CHR ''l'') then butlast t else t))"

text \<open>Floats with the values that are not numbers.\<close>

datatype pyfloat = Fin rat | Infinite bool | NaN

definition fin :: "(rat \<Rightarrow> rat) \<Rightarrow> rat \<Rightarrow> pyfloat" where
  "fin fl x = (if 2 ^ 1024 - 2 ^ 970 \<le> \<bar>x\<bar> then Infinite (x < 0) else Fin (fl x))"

fun fmul :: "(rat \<Rightarrow> rat) \<Rightarrow> pyfloat \<Rightarrow> pyfloat \<Rightarrow> pyfloat" where
  "fmul fl (Fin x) (Fin y) = fin fl (x * y)"
| "fmul fl (Fin x) (Infinite s) = (if x = 0 then NaN else Infinite ((x < 0) \<noteq> s))"
| "fmul fl (Infinite s) (Fin y) = (if y = 0 then NaN else Infinite (s \<noteq> (y < 0)))"
| "fmul fl (Infinite s) (Infinite t) = Infinite (s \<noteq> t)"
| "fmul fl _ _ = NaN"

fun fadd :: "(rat \<Rightarrow> rat) \<Rightarrow> pyfloat \<Rightarrow> pyfloat \<Rightarrow> pyfloat" where
  "fadd fl (Fin x) (Fin y) = fin fl (x + y)"
| "fadd fl (Fin x) (Infinite s) = Infinite s"
| "fadd fl (Infinite s) (Fin y) = Infinite s"
| "fadd fl (Infinite s) (Infinite t) = (if s = t then Infinite s else NaN)"
| "fadd fl _ _ = NaN"

fun fdiv :: "(rat \<Rightarrow> rat) \<Rightarrow> pyfloat \<Rightarrow> pyfloat \<Rightarrow> pyfloat res" where
  "fdiv fl (Fin x) (Fin y) = (if y = 0 then Inl ZeroDivisionError else Inr (fin fl (x / y)))"
| "fdiv fl (Fin x) (Infinite s) = Inr (Fin 0)"
| "fdiv fl (Infinite s) (Fin y) = (if y = 0 then Inl ZeroDivisionError else Inr (Infinite (s \<noteq> (y < 0))))"
| "fdiv fl NaN (Fin y) = (if y = 0 then Inl ZeroDivisionError else Inr NaN)"
| "fdiv fl _ _ = Inr NaN"

definition positive :: "pyfloat \<Rightarrow> bool" where
  "positive x = (case x of Fin y \<Rightarrow> 0 < y | Infinite s \<Rightarrow> \<not> s | NaN \<Rightarrow> False)"

text \<open>\<open>float(s)\<close>: an optional sign, digits with an optional point and exponent, or one of the names.\<close>

definition exponent_of :: "string \<Rightarrow> int res" where
  "exponent_of r =
     (case r of
        [] \<Rightarrow> Inr 0
      | c # r \<Rightarrow>
          if upper [c] \<noteq> ''E'' then Inl ValueError
          else (case r of
              CHR ''-'' # r \<Rightarrow> bind_res (py2_digits r) (\<lambda>n. Inr (- int n))
            | CHR ''+'' # r \<Rightarrow> bind_res (py2_digits r) (\<lambda>n. Inr (int n))
            | _ \<Rightarrow> bind_res (py2_digits r) (\<lambda>n. Inr (int n))))"

definition unsigned_float :: "string \<Rightarrow> rat res" where
  "unsigned_float s =
     (let whole = takeWhile is_digit s; r = dropWhile is_digit s;
          point = (r \<noteq> [] \<and> hd r = CHR ''.'');
          frac = (if point then takeWhile is_digit (tl r) else []);
          r = (if point then dropWhile is_digit (tl r) else r)
      in if whole @ frac = [] then Inl ValueError
         else bind_res (exponent_of r) (\<lambda>e. Inr (of_nat (digits_val (whole @ frac)) * 10 powi (e - int (length frac)))))"

definition py2_float :: "(rat \<Rightarrow> rat) \<Rightarrow> string \<Rightarrow> pyfloat res" where
  "py2_float fl s =
     (let t = strip s; neg = (t \<noteq> [] \<and> hd t = CHR ''-'');
          r = (if t \<noteq> [] \<and> (hd t = CHR ''-'' \<or> hd t = CHR ''+'') then tl t else t)
      in if upper r = ''INF'' \<or> upper r = ''INFINITY'' then Inr (Infinite neg)
         else if upper r = ''NAN'' then Inr NaN
         else bind_res (unsigned_float r) (\<lambda>x. Inr (fin fl (if neg then - x else x))))"

definition of_integer :: "(rat \<Rightarrow> rat) \<Rightarrow> int \<Rightarrow> pyfloat" where
  "of_integer fl n = fin fl (of_int n)"

section \<open>Attributes\<close>

text \<open>A missing attribute is \<open>None\<close>, which \<open>int\<close>, \<open>float\<close> and slices refuse.\<close>

definition attr :: "elem \<Rightarrow> string \<Rightarrow> string res" where
  "attr e k = of_opt TypeError (map_of (attrs e) k)"

definition int_attr :: "elem \<Rightarrow> string \<Rightarrow> int res" where
  "int_attr e k = bind_res (attr e k) py2_int"

definition long_attr :: "elem \<Rightarrow> string \<Rightarrow> int res" where
  "long_attr e k = bind_res (attr e k) py2_long"

definition float_attr :: "(rat \<Rightarrow> rat) \<Rightarrow> elem \<Rightarrow> string \<Rightarrow> pyfloat res" where
  "float_attr fl e k = bind_res (attr e k) (py2_float fl)"

text \<open>\<open>s[:-2]\<close>: the unit is dropped unseen.\<close>

definition drop_unit :: "string \<Rightarrow> string" where
  "drop_unit s = take (length s - 2) s"

definition time_attr :: "elem \<Rightarrow> string \<Rightarrow> int res" where
  "time_attr e k = bind_res (attr e k) (\<lambda>s. py2_long (drop_unit s))"

definition parse_time_ns :: "string \<Rightarrow> int res" where
  "parse_time_ns tm = (if drop (length tm - 2) tm = ''ns'' then py2_long (drop_unit tm) else Inl ValueError)"

definition findpath :: "string \<Rightarrow> string \<Rightarrow> elem \<Rightarrow> elem list" where
  "findpath a b e = concat (map (findall b) (findall a e))"

section \<open>Flows\<close>

record five_tuple =
  sourceAddress :: "string option"
  destinationAddress :: "string option"
  protocol :: int
  sourcePort :: int
  destinationPort :: int

definition read_five_tuple :: "elem \<Rightarrow> five_tuple res" where
  "read_five_tuple el =
     bind_res (int_attr el ''sourcePort'') (\<lambda>sp. bind_res (int_attr el ''destinationPort'') (\<lambda>dp.
     bind_res (int_attr el ''protocol'') (\<lambda>pr. Inr
       \<lparr>sourceAddress = map_of (attrs el) ''sourceAddress'', destinationAddress = map_of (attrs el) ''destinationAddress'',
        protocol = pr, sourcePort = sp, destinationPort = dp\<rparr>)))"

definition read_bin :: "(rat \<Rightarrow> rat) \<Rightarrow> elem \<Rightarrow> (pyfloat \<times> pyfloat \<times> int) res" where
  "read_bin fl b =
     bind_res (float_attr fl b ''start'') (\<lambda>s. bind_res (float_attr fl b ''width'') (\<lambda>w.
     bind_res (int_attr b ''count'') (\<lambda>c. Inr (s, w, c))))"

definition read_histogram :: "(rat \<Rightarrow> rat) \<Rightarrow> elem \<Rightarrow> (pyfloat \<times> pyfloat \<times> int) list res" where
  "read_histogram fl el = map_res (read_bin fl) (findall ''bin'' el)"

record probe_flow_stats =
  probeId :: int
  p_packets :: int
  p_bytes :: int
  delayFromFirstProbe :: pyfloat

record flow =
  flowId :: int
  rx_duration :: pyfloat
  hopCount :: pyfloat
  delayMean :: "pyfloat option"
  packetSizeMean :: "pyfloat option"
  rxBitrate :: "pyfloat option"
  txBitrate :: "pyfloat option"
  packetLossRatio :: "pyfloat option"
  flowInterruptionsHistogram :: "(pyfloat \<times> pyfloat \<times> int) list option"
  fiveTuple :: "five_tuple option"
  probe_stats_unsorted :: "probe_flow_stats list"

definition seconds :: "(rat \<Rightarrow> rat) \<Rightarrow> int \<Rightarrow> pyfloat" where
  "seconds fl ns = fmul fl (of_integer fl ns) (fin fl (1 / 1000000000))"

text \<open>\<open>a / b if test else None\<close>\<close>

definition quotient_if :: "(rat \<Rightarrow> rat) \<Rightarrow> bool \<Rightarrow> pyfloat res \<Rightarrow> pyfloat \<Rightarrow> pyfloat option res" where
  "quotient_if fl test a b = (if test then bind_res a (\<lambda>x. bind_res (fdiv fl x b) (\<lambda>q. Inr (Some q))) else Inr None)"

definition bit_count :: "(rat \<Rightarrow> rat) \<Rightarrow> elem \<Rightarrow> string \<Rightarrow> pyfloat res" where
  "bit_count fl el k = bind_res (long_attr el k) (\<lambda>n. Inr (of_integer fl (n * 8)))"

definition duration :: "(rat \<Rightarrow> rat) \<Rightarrow> elem \<Rightarrow> string \<Rightarrow> string \<Rightarrow> pyfloat res" where
  "duration fl el l f = bind_res (time_attr el l) (\<lambda>a. bind_res (time_attr el f) (\<lambda>b. Inr (seconds fl (a - b))))"

definition read_flow :: "(rat \<Rightarrow> rat) \<Rightarrow> elem \<Rightarrow> flow res" where
  "read_flow fl el =
     bind_res (int_attr el ''flowId'') (\<lambda>i.
     bind_res (long_attr el ''rxPackets'') (\<lambda>rxPackets.
     bind_res (long_attr el ''txPackets'') (\<lambda>txPackets.
     bind_res (duration fl el ''timeLastTxPacket'' ''timeFirstTxPacket'') (\<lambda>tx_duration.
     bind_res (duration fl el ''timeLastRxPacket'' ''timeFirstRxPacket'') (\<lambda>rx_duration.
     bind_res (quotient_if fl (rxPackets \<noteq> 0) (float_attr fl el ''timesForwarded'') (of_integer fl rxPackets)) (\<lambda>hops.
     bind_res (quotient_if fl (rxPackets \<noteq> 0) (bind_res (attr el ''delaySum'') (\<lambda>s. py2_float fl (drop_unit s))) (of_integer fl rxPackets)) (\<lambda>delay.
     bind_res (quotient_if fl (rxPackets \<noteq> 0) (float_attr fl el ''rxBytes'') (of_integer fl rxPackets)) (\<lambda>size_mean.
     bind_res (quotient_if fl (positive rx_duration) (bit_count fl el ''rxBytes'') rx_duration) (\<lambda>rx_rate.
     bind_res (quotient_if fl (positive tx_duration) (bit_count fl el ''txBytes'') tx_duration) (\<lambda>tx_rate.
     bind_res (float_attr fl el ''lostPackets'') (\<lambda>lost.
     bind_res (quotient_if fl (rxPackets \<noteq> 0) (Inr lost) (fadd fl (of_integer fl rxPackets) lost)) (\<lambda>loss.
     bind_res (case find_elem ''flowInterruptionsHistogram'' el of
                 None \<Rightarrow> Inr None | Some h \<Rightarrow> bind_res (read_histogram fl h) (\<lambda>b. Inr (Some b))) (\<lambda>hist.
     Inr \<lparr>flowId = i, rx_duration = rx_duration,
       hopCount = (case hops of None \<Rightarrow> Fin (- 1000) | Some h \<Rightarrow> fadd fl h (Fin 1)),
       delayMean = map_option (\<lambda>d. fmul fl d (fin fl (1 / 1000000000))) delay, packetSizeMean = size_mean,
       rxBitrate = rx_rate, txBitrate = tx_rate, packetLossRatio = loss, flowInterruptionsHistogram = hist,
       fiveTuple = None, probe_stats_unsorted = []\<rparr>)))))))))))))"


section \<open>Simulations\<close>

text \<open>The flows in the order of the file; \<open>flow_map\<close> holds the position of the last flow with an id, so that
  what is stored through it shows in the list, too.\<close>

record simulation =
  flows :: "flow list"
  flow_map :: "(int, nat) dict"

definition add_flow :: "(rat \<Rightarrow> rat) \<Rightarrow> simulation \<Rightarrow> elem \<Rightarrow> simulation res" where
  "add_flow fl s el =
     bind_res (read_flow fl el) (\<lambda>f. Inr
       (s\<lparr>flow_map := dict_set (flowId f) (length (flows s)) (flow_map s), flows := flows s @ [f]\<rparr>))"

definition update_flow :: "int \<Rightarrow> (flow \<Rightarrow> flow) \<Rightarrow> simulation \<Rightarrow> simulation res" where
  "update_flow i upd s = bind_res (dict_get (flow_map s) i) (\<lambda>k. Inr (s\<lparr>flows := (flows s)[k := upd (flows s ! k)]\<rparr>))"

text \<open>The right side of the assignment is evaluated first.\<close>

definition classify :: "simulation \<Rightarrow> elem \<Rightarrow> simulation res" where
  "classify s el =
     bind_res (int_attr el ''flowId'') (\<lambda>i. bind_res (read_five_tuple el) (\<lambda>t.
     update_flow i (\<lambda>f. f\<lparr>fiveTuple := Some t\<rparr>) s))"

definition add_stats :: "(rat \<Rightarrow> rat) \<Rightarrow> int \<Rightarrow> simulation \<Rightarrow> elem \<Rightarrow> simulation res" where
  "add_stats fl probe s el =
     bind_res (int_attr el ''flowId'') (\<lambda>i. bind_res (int_attr el ''packets'') (\<lambda>n. bind_res (long_attr el ''bytes'') (\<lambda>b.
     bind_res (if 0 < n then bind_res (attr el ''delayFromFirstProbeSum'') (\<lambda>tm. bind_res (parse_time_ns tm) (\<lambda>t.
                 fdiv fl (of_integer fl t) (of_integer fl n)))
               else Inr (Fin 0)) (\<lambda>d.
     update_flow i (\<lambda>f. f\<lparr>probe_stats_unsorted := probe_stats_unsorted f @
       [\<lparr>probeId = probe, p_packets = n, p_bytes = b, delayFromFirstProbe = d\<rparr>]\<rparr>) s))))"

definition add_probe :: "(rat \<Rightarrow> rat) \<Rightarrow> simulation \<Rightarrow> elem \<Rightarrow> simulation res" where
  "add_probe fl s el =
     bind_res (int_attr el ''index'') (\<lambda>probe. run_steps (add_stats fl probe) s (findall ''FlowStats'' el))"

definition read_simulation :: "(rat \<Rightarrow> rat) \<Rightarrow> elem \<Rightarrow> simulation res" where
  "read_simulation fl el =
     (case findall ''Ipv4FlowClassifier'' el of
        [classifier] \<Rightarrow>
          bind_res (run_steps (add_flow fl) \<lparr>flows = [], flow_map = []\<rparr> (findpath ''FlowStats'' ''Flow'' el)) (\<lambda>s.
          bind_res (run_steps classify s (findall ''Flow'' classifier)) (\<lambda>s.
          run_steps (add_probe fl) s (findpath ''FlowProbes'' ''FlowProbe'' el)))
      | _ \<Rightarrow> Inl ValueError)"

section \<open>What is printed\<close>

datatype line =
    Flow_Line int string "string option" int "string option" int
  | Tx_Bitrate pyfloat | Rx_Bitrate pyfloat | Mean_Delay pyfloat | Loss_Ratio pyfloat

text \<open>A number that is \<open>None\<close> cannot be multiplied.\<close>

definition scaled :: "(rat \<Rightarrow> rat) \<Rightarrow> rat \<Rightarrow> pyfloat option \<Rightarrow> pyfloat res" where
  "scaled fl k x = (case x of None \<Rightarrow> Inl TypeError | Some v \<Rightarrow> Inr (fmul fl v (fin fl k)))"

definition proto_name :: "int \<Rightarrow> string res" where
  "proto_name p = dict_get [(6, ''TCP''), (17, ''UDP'')] p"

text \<open>The lines up to the first exception, and the exception.\<close>

fun print_lines :: "line res list \<Rightarrow> line list \<times> py_error option" where
  "print_lines [] = ([], None)"
| "print_lines (Inl e # ls) = ([], Some e)"
| "print_lines (Inr l # ls) = (case print_lines ls of (out, e) \<Rightarrow> (l # out, e))"

definition flow_lines :: "(rat \<Rightarrow> rat) \<Rightarrow> flow \<Rightarrow> line res list" where
  "flow_lines fl f =
     [bind_res (of_opt AttributeError (fiveTuple f)) (\<lambda>t. bind_res (proto_name (protocol t)) (\<lambda>p. Inr
        (Flow_Line (flowId f) p (sourceAddress t) (sourcePort t) (destinationAddress t) (destinationPort t)))),
      bind_res (scaled fl (1 / 1000) (txBitrate f)) (\<lambda>x. Inr (Tx_Bitrate x)),
      bind_res (scaled fl (1 / 1000) (rxBitrate f)) (\<lambda>x. Inr (Rx_Bitrate x)),
      bind_res (scaled fl 1000 (delayMean f)) (\<lambda>x. Inr (Mean_Delay x)),
      bind_res (scaled fl 100 (packetLossRatio f)) (\<lambda>x. Inr (Loss_Ratio x))]"

text \<open>The parser reports the end of the root last.\<close>

definition flowmon_main :: "(rat \<Rightarrow> rat) \<Rightarrow> elem \<Rightarrow> line list \<times> py_error option" where
  "flowmon_main fl doc =
     (if tag doc \<noteq> ''FlowMonitor'' then ([], None)
      else case read_simulation fl doc of
          Inl e \<Rightarrow> ([], Some e)
        | Inr s \<Rightarrow> print_lines (concat (map (flow_lines fl) (flows s))))"

section \<open>The file as the flow monitor writes it\<close>

text \<open>What \<open>FlowMonitor::SerializeToXmlStream\<close> writes for a flow, with the form of times as a parameter.\<close>

record flow_stats =
  st_id :: nat
  st_first_tx :: nat
  st_last_tx :: nat
  st_first_rx :: nat
  st_last_rx :: nat
  st_delay :: nat
  st_tx_bytes :: nat
  st_rx_bytes :: nat
  st_tx_packets :: nat
  st_rx_packets :: nat
  st_lost :: nat
  st_forwarded :: nat

definition write_flow :: "(nat \<Rightarrow> string) \<Rightarrow> flow_stats \<Rightarrow> elem" where
  "write_flow tm st = Elem ''Flow''
     [(''flowId'', show_nat (st_id st)), (''timeFirstTxPacket'', tm (st_first_tx st)), (''timeFirstRxPacket'', tm (st_first_rx st)),
      (''timeLastTxPacket'', tm (st_last_tx st)), (''timeLastRxPacket'', tm (st_last_rx st)), (''delaySum'', tm (st_delay st)),
      (''txBytes'', show_nat (st_tx_bytes st)), (''rxBytes'', show_nat (st_rx_bytes st)),
      (''txPackets'', show_nat (st_tx_packets st)), (''rxPackets'', show_nat (st_rx_packets st)),
      (''lostPackets'', show_nat (st_lost st)), (''timesForwarded'', show_nat (st_forwarded st))] None []"

text \<open>The time the C++ code writes, and the one the script expects.\<close>

definition written_time :: "nat \<Rightarrow> string" where
  "written_time n = ''+'' @ show_nat n @ ''.0ns''"

definition plain_time :: "nat \<Rightarrow> string" where
  "plain_time n = show_nat n @ ''ns''"

lemma py2_int_digits: "s \<noteq> [] \<Longrightarrow> list_all is_digit s \<Longrightarrow> py2_int s = Inr (int (digits_val s))"
proof -
  assume s: "s \<noteq> []" "list_all is_digit s"
  then obtain c r where c: "s = c # r" by (cases s) simp_all
  with s(2) have "c \<noteq> CHR ''-''" "c \<noteq> CHR ''+''" by (auto dest: digit_not_special)
  with c s show ?thesis by (simp add: py2_int_def strip_digits py2_digits_def isdigit_def)
qed

lemma py2_int_show [simp]: "py2_int (show_nat n) = Inr (int n)"
  by (simp add: py2_int_digits)

lemma last_digit: "is_digit (last (show_nat n))"
  by (intro show_nat_digit [of _ n] last_in_set) simp

lemma py2_long_show [simp]: "py2_long (show_nat n) = Inr (int n)"
proof -
  have "last (show_nat n) \<noteq> CHR ''L'' \<and> last (show_nat n) \<noteq> CHR ''l''"
    using last_digit [of n] by (auto simp: is_digit_def code_def)
  then show ?thesis by (simp add: py2_long_def strip_digits)
qed

lemma drop_unit_ns [simp]: "drop_unit (s @ ''ns'') = s"
  by (simp add: drop_unit_def)

lemma written_time_rejected: "py2_long (drop_unit (written_time n)) = Inl ValueError"
proof -
  let ?t = "CHR ''+'' # show_nat n @ ''.0''"
  have u: "drop_unit (written_time n) = ?t" using drop_unit_ns [of "?t"] by (simp add: written_time_def)
  have st: "strip ?t = ?t" by (intro strip_id) (simp add: is_ws_def code_def)
  have "last ?t = CHR ''0''" by simp
  moreover have "dropWhile is_ws (show_nat n @ ''.0'') = show_nat n @ ''.0''"
    using show_nat_digit [of "hd (show_nat n)" n] by (cases "show_nat n") (auto dest: digit_not_ws)
  ultimately show ?thesis unfolding u
    by (simp add: py2_long_def st py2_int_def py2_digits_def isdigit_def is_digit_def code_def)
qed


lemma attrs_write_flow:
  "attr (write_flow tm st) ''flowId'' = Inr (show_nat (st_id st))"
  "attr (write_flow tm st) ''timeFirstTxPacket'' = Inr (tm (st_first_tx st))"
  "attr (write_flow tm st) ''timeFirstRxPacket'' = Inr (tm (st_first_rx st))"
  "attr (write_flow tm st) ''timeLastTxPacket'' = Inr (tm (st_last_tx st))"
  "attr (write_flow tm st) ''timeLastRxPacket'' = Inr (tm (st_last_rx st))"
  "attr (write_flow tm st) ''delaySum'' = Inr (tm (st_delay st))"
  "attr (write_flow tm st) ''txBytes'' = Inr (show_nat (st_tx_bytes st))"
  "attr (write_flow tm st) ''rxBytes'' = Inr (show_nat (st_rx_bytes st))"
  "attr (write_flow tm st) ''txPackets'' = Inr (show_nat (st_tx_packets st))"
  "attr (write_flow tm st) ''rxPackets'' = Inr (show_nat (st_rx_packets st))"
  "attr (write_flow tm st) ''lostPackets'' = Inr (show_nat (st_lost st))"
  "attr (write_flow tm st) ''timesForwarded'' = Inr (show_nat (st_forwarded st))"
  by (simp_all add: attr_def write_flow_def)

lemma py2_float_show: "py2_float fl (show_nat n) = Inr (fin fl (of_nat n))"
proof -
  have d: "list_all is_digit (show_nat n)" by simp
  then have tw: "takeWhile is_digit (show_nat n) = show_nat n" and dw: "dropWhile is_digit (show_nat n) = []"
    unfolding list_all_iff takeWhile_eq_all_conv dropWhile_eq_Nil_conv by auto
  have u: "unsigned_float (show_nat n) = Inr (of_nat n)"
    by (simp add: unsigned_float_def tw dw exponent_of_def digits_val_show_nat)
  obtain c r where c: "show_nat n = c # r" by (cases "show_nat n") simp_all
  then have "is_digit c" using show_nat_digit [of c n] by simp
  then have "c \<noteq> CHR ''-''" "c \<noteq> CHR ''+''" and nm: "c \<noteq> CHR ''I''" "c \<noteq> CHR ''N''" by (auto simp: is_digit_def code_def)
  moreover have "upper (c # r) = c # r" and "strip (c # r) = c # r" and "unsigned_float (c # r) = Inr (of_nat n)"
    using upper_show_nat [of n] strip_digits [OF d] u by (simp_all add: c)
  ultimately show ?thesis by (simp add: py2_float_def c Let_def)
qed

lemma fin_exact: "\<bar>x\<bar> < 2 ^ 200 \<Longrightarrow> fin exact x = Fin x"
proof -
  assume "\<bar>x\<bar> < 2 ^ 200"
  also have "(2::rat) ^ 200 \<le> 2 ^ 1024 - 2 ^ 970" by simp
  finally show ?thesis by (simp add: fin_def exact_eq)
qed


lemma fin_small: "n < 2 ^ 70 \<Longrightarrow> fin exact (of_nat n) = Fin (of_nat n)"
proof (rule fin_exact)
  assume "n < 2 ^ 70"
  then have "(of_nat n :: rat) < of_nat (2 ^ 70)" by (simp only: of_nat_less_iff)
  also have "\<dots> \<le> 2 ^ 200" by simp
  finally show "\<bar>of_nat n :: rat\<bar> < 2 ^ 200" by simp
qed

lemma drop_unit_plain: "drop_unit (plain_time n) = show_nat n"
  using drop_unit_ns [of "show_nat n"] by (simp add: plain_time_def)

lemma time_attr_plain:
  "time_attr (write_flow plain_time st) ''timeFirstTxPacket'' = Inr (int (st_first_tx st))"
  "time_attr (write_flow plain_time st) ''timeFirstRxPacket'' = Inr (int (st_first_rx st))"
  "time_attr (write_flow plain_time st) ''timeLastTxPacket'' = Inr (int (st_last_tx st))"
  "time_attr (write_flow plain_time st) ''timeLastRxPacket'' = Inr (int (st_last_rx st))"
  by (simp_all add: time_attr_def attrs_write_flow drop_unit_plain)

lemma nano: "fin exact (1 / 1000000000) = Fin (1 / 1000000000)"
  by (rule fin_exact) simp

lemma small_quotient:
  assumes "n < 2 ^ 70" and "0 < (d :: rat)" and "1 \<le> d * 1000000000"
  shows "fin exact (of_nat n / d) = Fin (of_nat n / d)"
proof (rule fin_exact)
  have "(of_nat n :: rat) < of_nat (2 ^ 70)" using assms(1) by (simp only: of_nat_less_iff)
  moreover have "1 / d \<le> 1000000000" using assms(2,3) by (simp add: field_simps)
  ultimately have "of_nat n * (1 / d) \<le> of_nat (2 ^ 70) * (1000000000 :: rat)"
    using assms(2) by (intro mult_mono) simp_all
  also have "\<dots> < 2 ^ 200" by simp
  finally show "\<bar>of_nat n / d\<bar> < 2 ^ 200" using assms(2) by simp
qed

lemma duration_plain:
  assumes "a < b" and "b < 2 ^ 64"
  shows "seconds exact (int b - int a) = Fin (of_nat (b - a) / 1000000000)"
proof -
  have "of_integer exact (int b - int a) = Fin (of_nat (b - a))"
    using fin_small [of "b - a"] assms by (simp add: of_integer_def of_nat_diff)
  then show ?thesis
    using small_quotient [of "b - a" 1000000000] assms by (simp add: seconds_def nano)
qed

section \<open>Properties\<close>

text \<open>The script cannot read what the flow monitor of this repository writes: times are written with a sign and
  a fraction (\<open>+1000.0ns\<close>), and \<open>long\<close> refuses the fraction, so that every file with a flow ends in a
  \<open>ValueError\<close> before anything is printed.\<close>

theorem monitor_output_rejected:
  assumes "tag doc = ''FlowMonitor''" and "findpath ''FlowStats'' ''Flow'' doc = write_flow written_time st # fs"
  shows "flowmon_main fl doc = ([], Some ValueError)"
proof -
  have "read_flow fl (write_flow written_time st) = Inl ValueError"
    by (simp add: read_flow_def int_attr_def long_attr_def duration_def time_attr_def attrs_write_flow written_time_rejected)
  then have "run_steps (add_flow fl) s (write_flow written_time st # fs) = Inl ValueError" for s by (simp add: add_flow_def)
  then have "read_simulation fl doc = Inl ValueError"
    using assms(2) by (simp add: read_simulation_def split: list.split)
  then show ?thesis using assms(1) by (simp add: flowmon_main_def)
qed

definition sample_stats :: flow_stats where
  "sample_stats = \<lparr>st_id = 1, st_first_tx = 1000, st_last_tx = 3000, st_first_rx = 2000, st_last_rx = 5000, st_delay = 600,
     st_tx_bytes = 3000, st_rx_bytes = 2000, st_tx_packets = 3, st_rx_packets = 2, st_lost = 1, st_forwarded = 4\<rparr>"

definition sample_doc :: elem where
  "sample_doc = Elem ''FlowMonitor'' [] None
     [Elem ''FlowStats'' [] None [write_flow written_time sample_stats], Elem ''Ipv4FlowClassifier'' [] None []]"

lemma monitor_output_rejected_witness: "flowmon_main dbl sample_doc = ([], Some ValueError)"
  by (rule monitor_output_rejected) (simp_all add: sample_doc_def findpath_def findall_def write_flow_def)

text \<open>On times as the script expects them it computes what it says: for a flow that received packets, over more
  than an instant on both sides, the loss ratio is lost over received and lost, the delay and size are means per
  packet, the hop count is one more than the mean of forwardings, and the bit rates are eight times the bytes
  over the time between first and last packet (exact arithmetic).\<close>

theorem flow_figures:
  assumes "st_first_tx st < st_last_tx st" and "st_first_rx st < st_last_rx st" and "st_rx_packets st \<noteq> 0"
    and "list_all (\<lambda>n. n < 2 ^ 64) [st_last_tx st, st_last_rx st, st_delay st, st_tx_bytes st, st_rx_bytes st,
           st_rx_packets st, st_lost st, st_forwarded st]"
  shows "read_flow exact (write_flow plain_time st) = Inr
    \<lparr>flowId = int (st_id st), rx_duration = Fin (of_nat (st_last_rx st - st_first_rx st) / 1000000000),
     hopCount = Fin (of_nat (st_forwarded st) / of_nat (st_rx_packets st) + 1),
     delayMean = Some (Fin (of_nat (st_delay st) / of_nat (st_rx_packets st) / 1000000000)),
     packetSizeMean = Some (Fin (of_nat (st_rx_bytes st) / of_nat (st_rx_packets st))),
     rxBitrate = Some (Fin (of_nat (st_rx_bytes st * 8) / (of_nat (st_last_rx st - st_first_rx st) / 1000000000))),
     txBitrate = Some (Fin (of_nat (st_tx_bytes st * 8) / (of_nat (st_last_tx st - st_first_tx st) / 1000000000))),
     packetLossRatio = Some (Fin (of_nat (st_lost st) / of_nat (st_rx_packets st + st_lost st))),
     flowInterruptionsHistogram = None, fiveTuple = None, probe_stats_unsorted = []\<rparr>"
proof -
  let ?e = "write_flow plain_time st"
  have b: "st_last_tx st < 2 ^ 64" "st_last_rx st < 2 ^ 64" "st_delay st < 2 ^ 64" "st_tx_bytes st < 2 ^ 64"
    "st_rx_bytes st < 2 ^ 64" "st_rx_packets st < 2 ^ 64" "st_lost st < 2 ^ 64" "st_forwarded st < 2 ^ 64"
    using assms(4) by simp_all
  have rx: "of_integer exact (int (st_rx_packets st)) = Fin (of_nat (st_rx_packets st))"
    using fin_small [of "st_rx_packets st"] b(6) by (simp add: of_integer_def)
  have dur: "duration exact ?e ''timeLastTxPacket'' ''timeFirstTxPacket'' = Inr (Fin (of_nat (st_last_tx st - st_first_tx st) / 1000000000))"
    "duration exact ?e ''timeLastRxPacket'' ''timeFirstRxPacket'' = Inr (Fin (of_nat (st_last_rx st - st_first_rx st) / 1000000000))"
    by (simp_all add: duration_def time_attr_plain duration_plain [OF assms(1) b(1)] duration_plain [OF assms(2) b(2)])
  have num: "float_attr exact ?e ''timesForwarded'' = Inr (Fin (of_nat (st_forwarded st)))"
    "bind_res (attr ?e ''delaySum'') (\<lambda>s. py2_float exact (drop_unit s)) = Inr (Fin (of_nat (st_delay st)))"
    "float_attr exact ?e ''rxBytes'' = Inr (Fin (of_nat (st_rx_bytes st)))"
    "float_attr exact ?e ''lostPackets'' = Inr (Fin (of_nat (st_lost st)))"
    using b by (simp_all add: float_attr_def attrs_write_flow drop_unit_plain py2_float_show fin_small)
  have sum: "py2_float exact (drop_unit (plain_time (st_delay st))) = Inr (Fin (of_nat (st_delay st)))"
    using b(3) by (simp add: drop_unit_plain py2_float_show fin_small)
  have mean: "quotient_if exact True (Inr (Fin (of_nat n))) (Fin (of_nat d)) = Inr (Some (Fin (of_nat n / of_nat d)))"
    if "n < 2 ^ 64" "0 < d" for n d
    using small_quotient [of n "of_nat d"] that by (simp add: quotient_if_def)
  have mean_small: "(of_nat n :: rat) / of_nat (st_rx_packets st) \<ge> 0 \<and> of_nat n / of_nat (st_rx_packets st) < (2 :: rat) ^ 64"
    if "n < 2 ^ 64" for n
  proof -
    have "(of_nat n :: rat) * 1 \<le> of_nat n * of_nat (st_rx_packets st)"
      using assms(3) by (intro mult_left_mono) simp_all
    then have "(of_nat n :: rat) / of_nat (st_rx_packets st) \<le> of_nat n" using assms(3) by (simp add: field_simps)
    moreover have "(of_nat n :: rat) < of_nat (2 ^ 64)" using that by (simp only: of_nat_less_iff)
    ultimately show ?thesis by simp
  qed
  have pos: "positive (Fin (of_nat (y - x) / 1000000000))" if "x < y" for x y using that by (simp add: positive_def)
  have rate: "quotient_if exact True (bit_count exact ?e k) (Fin (of_nat (y - x) / 1000000000)) =
      Inr (Some (Fin (of_nat (n * 8) / (of_nat (y - x) / 1000000000))))"
    if "x < y" "n < 2 ^ 64" "attr ?e k = Inr (show_nat n)" for x y n k
  proof -
    have "int (n * 8) = int n * 8" by simp
    then have "bit_count exact ?e k = Inr (Fin (of_nat (n * 8)))"
      using fin_small [of "n * 8"] that(2,3) by (simp add: bit_count_def long_attr_def of_integer_def)
    then show ?thesis
      using small_quotient [of "n * 8" "of_nat (y - x) / 1000000000"] that(1,2) by (simp add: quotient_if_def)
  qed
  have lost: "fadd exact (Fin (of_nat (st_rx_packets st))) (Fin (of_nat (st_lost st))) = Fin (of_nat (st_rx_packets st + st_lost st))"
    using fin_small [of "st_rx_packets st + st_lost st"] b by simp
  have loss: "quotient_if exact True (Inr (Fin (of_nat (st_lost st)))) (fadd exact (Fin (of_nat (st_rx_packets st))) (Fin (of_nat (st_lost st)))) =
      Inr (Some (Fin (of_nat (st_lost st) / of_nat (st_rx_packets st + st_lost st))))"
    unfolding lost using assms(3) by (intro mean b(7)) simp
  have hop: "fadd exact (Fin (of_nat (st_forwarded st) / of_nat (st_rx_packets st))) (Fin 1) =
      Fin (of_nat (st_forwarded st) / of_nat (st_rx_packets st) + 1)"
    using mean_small [OF b(8)] by (simp add: fin_exact)
  have delay: "fmul exact (Fin (of_nat (st_delay st) / of_nat (st_rx_packets st))) (Fin (1 / 1000000000)) =
      Fin (of_nat (st_delay st) / of_nat (st_rx_packets st) / 1000000000)"
    using mean_small [OF b(3)] by (simp add: fin_exact)
  have hist: "find_elem ''flowInterruptionsHistogram'' ?e = None" by (simp add: find_elem_def write_flow_def)
  show ?thesis
    using assms(3) b
    by (simp add: hist read_flow_def int_attr_def long_attr_def attrs_write_flow dur num sum rx mean loss hop delay nano
        pos [OF assms(1)] pos [OF assms(2)] rate [OF assms(1)] rate [OF assms(2)] del: fadd.simps fmul.simps)
qed

lemma flow_figures_witness:
  "read_flow exact (write_flow plain_time sample_stats) = Inr
    \<lparr>flowId = 1, rx_duration = Fin (3 / 1000000), hopCount = Fin 3, delayMean = Some (Fin (3 / 10000000)),
     packetSizeMean = Some (Fin 1000), rxBitrate = Some (Fin (16000 / (3 / 1000000))), txBitrate = Some (Fin 12000000000),
     packetLossRatio = Some (Fin (1 / 3)), flowInterruptionsHistogram = None, fiveTuple = None, probe_stats_unsorted = []\<rparr>"
  using flow_figures [of sample_stats] by (simp add: sample_stats_def)

end
