(* ===== verification/Build_Env.thy ===== *)
theory Build_Env
  imports Py_Strings
begin

text \<open>
  \<open>wutils.py\<close>: how \<open>waf\<close> finds a program of the build, makes the environment of a process and runs it.
  Processes are a parameter: what a run with given arguments, environment and directory writes to its error
  output and the code it exits with.  \<open>shlex.split\<close> is modelled, of the \<open>%\<close> operator only \<open>%s\<close> and \<open>%%\<close>.
\<close>

section \<open>shlex.split\<close>

text \<open>The states of the lexer: between words, in a word, in quotes, after a backslash.\<close>

datatype lex_state = Between | In_Word | In_Quotes char | Escaped lex_state

definition lex_ws :: "char \<Rightarrow> bool" where
  "lex_ws c \<longleftrightarrow> c \<in> {CHR '' '', CHR 0x09, CHR 0x0D, CHR 0x0A}"

definition lex_quote :: "char \<Rightarrow> bool" where
  "lex_quote c \<longleftrightarrow> c = CHR 0x22 \<or> c = CHR 0x27"

definition backslash :: char where
  "backslash = CHR 0x5C"

text \<open>\<open>quoted\<close> is whether the word so far has a quoted part, so that it counts although it may be empty.\<close>

fun lex :: "lex_state \<Rightarrow> string \<Rightarrow> bool \<Rightarrow> string \<Rightarrow> string list res" where
  "lex st tok quoted [] =
     (case st of
        In_Quotes _ \<Rightarrow> Inl ValueError
      | Escaped _ \<Rightarrow> Inl ValueError
      | _ \<Rightarrow> Inr (if tok \<noteq> [] \<or> quoted then [tok] else []))"
| "lex st tok quoted (c # s) =
     (case st of
        Between \<Rightarrow>
          if lex_ws c then lex Between tok quoted s
          else if c = backslash then lex (Escaped In_Word) tok quoted s
          else if lex_quote c then lex (In_Quotes c) tok True s
          else lex In_Word [c] quoted s
      | In_Word \<Rightarrow>
          if lex_ws c then
            (if tok \<noteq> [] \<or> quoted then bind_res (lex Between [] False s) (\<lambda>ws. Inr (tok # ws)) else lex Between tok quoted s)
          else if c = backslash then lex (Escaped In_Word) tok quoted s
          else if lex_quote c then lex (In_Quotes c) tok True s
          else lex In_Word (tok @ [c]) quoted s
      | In_Quotes q \<Rightarrow>
          if c = q then lex In_Word tok True s
          else if c = backslash \<and> q = CHR 0x22 then lex (Escaped (In_Quotes q)) tok True s
          else lex (In_Quotes q) (tok @ [c]) True s
      | Escaped back \<Rightarrow>
          (case back of
             In_Quotes q \<Rightarrow> lex back (if c \<noteq> backslash \<and> c \<noteq> q then tok @ [backslash, c] else tok @ [c]) quoted s
           | _ \<Rightarrow> lex back (tok @ [c]) quoted s))"

definition shlex_split :: "string \<Rightarrow> string list res" where
  "shlex_split s = lex Between [] False s"

definition plain :: "char \<Rightarrow> bool" where
  "plain c \<longleftrightarrow> \<not> lex_ws c \<and> \<not> lex_quote c \<and> c \<noteq> backslash"

text \<open>\<open>s.replace('\', '\\')\<close>: every backslash is doubled.\<close>

definition double_backslashes :: "string \<Rightarrow> string" where
  "double_backslashes s = concat (map (\<lambda>c. if c = backslash then [c, c] else [c]) s)"

section \<open>The \<open>%\<close> operator\<close>

fun fmt_s :: "string \<Rightarrow> string list \<Rightarrow> string res" where
  "fmt_s [] args = (if args = [] then Inr [] else Inl TypeError)"
| "fmt_s (c # s) args =
     (if c \<noteq> CHR ''%'' then bind_res (fmt_s s args) (\<lambda>r. Inr (c # r))
      else (case s of
          [] \<Rightarrow> Inl ValueError
        | d # s' \<Rightarrow>
            if d = CHR ''%'' then bind_res (fmt_s s' args) (\<lambda>r. Inr (CHR ''%'' # r))
            else if d = CHR ''s'' then (case args of [] \<Rightarrow> Inl TypeError | a # as \<Rightarrow> bind_res (fmt_s s' as) (\<lambda>r. Inr (a @ r)))
            else Inl ValueError))"

section \<open>Programs\<close>

text \<open>A task generator of the build: its name, its directories in the source and build tree, the file that is built.\<close>

record program =
  prog_name :: string
  is_ns3_program :: bool
  src_path :: string
  bld_path :: string
  exe_path :: string

definition parts :: "string \<Rightarrow> string list" where
  "parts p = filter (\<lambda>w. w \<noteq> []) (split_on CHR ''/'' p)"

fun common_prefix :: "'a list \<Rightarrow> 'a list \<Rightarrow> nat" where
  "common_prefix (x # xs) (y # ys) = (if x = y then Suc (common_prefix xs ys) else 0)"
| "common_prefix _ _ = 0"

text \<open>\<open>relpath\<close> of two absolute, normalised paths.\<close>

definition relpath :: "string \<Rightarrow> string \<Rightarrow> string" where
  "relpath path start =
     (let i = common_prefix (parts start) (parts path);
          rel = replicate (length (parts start) - i) ''..'' @ drop i (parts path)
      in if rel = [] then ''.'' else join ''/'' rel)"

definition names_of :: "string \<Rightarrow> program \<Rightarrow> string list" where
  "names_of launch_dir p = [prog_name p, path_join (relpath (src_path p) launch_dir) (prog_name p)]"

definition in_subtree :: "string \<Rightarrow> program \<Rightarrow> bool" where
  "in_subtree launch_dir p \<longleftrightarrow> startswith (src_path p) launch_dir \<or> startswith (bld_path p) launch_dir"

datatype run_error =
    Conflicting_Options | No_Valgrind | Signalled string | Exit_Code int | No_Program "string list" | Raised py_error

fun find_from :: "string \<Rightarrow> string \<Rightarrow> string list \<Rightarrow> program list \<Rightarrow> run_error + program" where
  "find_from launch_dir name found [] = Inl (No_Program found)"
| "find_from launch_dir name found (p # ps) =
     (if \<not> is_ns3_program p then find_from launch_dir name found ps
      else if \<not> in_subtree launch_dir p then find_from launch_dir name found ps
      else let names = names_of launch_dir p
           in if name \<in> set names then Inr p else find_from launch_dir name (found @ names) ps)"

definition find_program :: "string \<Rightarrow> program list \<Rightarrow> string \<Rightarrow> run_error + program" where
  "find_program launch_dir progs name = find_from launch_dir name [] progs"

section \<open>The environment of a process\<close>

type_synonym environ = "(string, string) dict"

record build =
  platform :: string
  module_path :: "string list"
  executable_path :: "string list"
  pymoddir :: string
  pyvizdir :: string
  os_environ :: environ

definition pathvar :: "string \<Rightarrow> string" where
  "pathvar pf =
     (if pf = ''linux2'' then ''LD_LIBRARY_PATH''
      else if pf = ''darwin'' then ''DYLD_LIBRARY_PATH''
      else if pf = ''win32'' then ''PATH''
      else if pf = ''cygwin'' then ''PATH''
      else ''LD_LIBRARY_PATH'')"

definition pathsep :: "string \<Rightarrow> string" where
  "pathsep pf = (if pf = ''win32'' then '';'' else '':'')"

definition prepend :: "string \<Rightarrow> string \<Rightarrow> string list \<Rightarrow> environ \<Rightarrow> environ" where
  "prepend sep var dirs env =
     (case map_of env var of
        Some v \<Rightarrow> dict_set var (join sep (dirs @ [v])) env
      | None \<Rightarrow> dict_set var (join sep dirs) env)"

definition get_proc_env :: "build \<Rightarrow> environ option \<Rightarrow> environ" where
  "get_proc_env b os_env =
     (let sep = pathsep (platform b);
          env = (case os_env of None \<Rightarrow> os_environ b | Some e \<Rightarrow> fold (\<lambda>(k, v). dict_set k v) e (os_environ b));
          env = prepend sep (pathvar (platform b)) (module_path b) env;
          env = prepend sep ''PYTHONPATH'' [pymoddir b, pyvizdir b] env
      in prepend sep ''PATH'' (executable_path b) env)"

section \<open>Running\<close>

record options =
  opt_valgrind :: bool
  opt_template :: string
  opt_cwd_launch :: string
  cwd_launch :: string
  valgrind_path :: string
  python_path :: string

type_synonym process = "string list \<Rightarrow> environ \<Rightarrow> string option \<Rightarrow> string list \<times> int"

text \<open>The names of the module \<open>signal\<close> with their values; the first that fits.\<close>

definition signal_name :: "(string \<times> int) list \<Rightarrow> int \<Rightarrow> string option" where
  "signal_name sigs retval =
     map_option fst (find (\<lambda>(name, val). 3 < length name \<and> take 3 name = ''SIG'' \<and> name ! 3 \<noteq> CHR ''_'' \<and> val = - retval) sigs)"

definition check_retval :: "(string \<times> int) list \<Rightarrow> int \<Rightarrow> run_error + int" where
  "check_retval sigs retval =
     (if retval = 0 then Inr 0
      else case (if retval < 0 then signal_name sigs retval else None) of
          Some s \<Rightarrow> if s \<noteq> [] then Inl (Signalled s) else Inl (Exit_Code retval)
        | None \<Rightarrow> Inl (Exit_Code retval))"

definition run_argv ::
  "(string \<times> int) list \<Rightarrow> process \<Rightarrow> build \<Rightarrow> options \<Rightarrow> string list \<Rightarrow> environ option \<Rightarrow> string option \<Rightarrow> bool \<Rightarrow> run_error + int" where
  "run_argv sigs run b opts argv os_env cwd force_no_valgrind =
     (let env = get_proc_env b os_env
      in if opt_valgrind opts \<and> \<not> force_no_valgrind then
           (if opt_template opts \<noteq> [] then Inl Conflicting_Options
            else if valgrind_path opts = [] then Inl No_Valgrind
            else
              case run ([valgrind_path opts, ''--leak-check=full'', ''--show-reachable=yes'', ''--error-exitcode=1''] @ argv) env cwd of
                (err, retval) \<Rightarrow>
                  check_retval sigs (if retval = 0 \<and> list_ex (contains ''== LEAK SUMMARY'') err then 1 else retval))
         else check_retval sigs (snd (run argv env cwd)))"

definition raised :: "'a res \<Rightarrow> run_error + 'a" where
  "raised r = (case r of Inl e \<Rightarrow> Inl (Raised e) | Inr x \<Rightarrow> Inr x)"

text \<open>Without a template the words of the string are the arguments; with one the string is the name.\<close>

definition get_run_program :: "string \<Rightarrow> program list \<Rightarrow> string \<Rightarrow> string option \<Rightarrow> run_error + (string \<times> string list)" where
  "get_run_program launch_dir progs program_string template =
     (case template of
        Some t \<Rightarrow>
          if t \<noteq> ''%s'' then
            bind_res (find_program launch_dir progs program_string) (\<lambda>p.
            bind_res (raised (fmt_s t [exe_path p])) (\<lambda>cmd.
            bind_res (raised (shlex_split (double_backslashes cmd))) (\<lambda>argv. Inr (program_string, argv))))
          else
            bind_res (raised (shlex_split program_string)) (\<lambda>argv.
            bind_res (raised (py_nth argv 0)) (\<lambda>name.
            bind_res (find_program launch_dir progs name) (\<lambda>p. Inr (name, exe_path p # tl argv))))
      | None \<Rightarrow>
          bind_res (raised (shlex_split program_string)) (\<lambda>argv.
          bind_res (raised (py_nth argv 0)) (\<lambda>name.
          bind_res (find_program launch_dir progs name) (\<lambda>p. Inr (name, exe_path p # tl argv)))))"

definition visual :: string where
  "visual = ''--SimulatorImplementationType=ns3::VisualSimulatorImpl''"

definition directory :: "options \<Rightarrow> string option \<Rightarrow> string" where
  "directory opts cwd =
     (case cwd of Some d \<Rightarrow> d | None \<Rightarrow> if opt_cwd_launch opts \<noteq> [] then opt_cwd_launch opts else cwd_launch opts)"

definition run_program ::
  "(string \<times> int) list \<Rightarrow> process \<Rightarrow> build \<Rightarrow> options \<Rightarrow> string \<Rightarrow> program list \<Rightarrow> string \<Rightarrow> string option \<Rightarrow> string option \<Rightarrow> bool \<Rightarrow> run_error + int" where
  "run_program sigs run b opts launch_dir progs program_string template cwd visualize =
     bind_res (get_run_program launch_dir progs program_string template) (\<lambda>(_, argv).
     run_argv sigs run b opts (if visualize then argv @ [visual] else argv) None (Some (directory opts cwd)) False)"

definition run_python_program ::
  "(string \<times> int) list \<Rightarrow> process \<Rightarrow> build \<Rightarrow> options \<Rightarrow> string \<Rightarrow> bool \<Rightarrow> run_error + int" where
  "run_python_program sigs run b opts program_string visualize =
     bind_res (raised (shlex_split program_string)) (\<lambda>argv.
     run_argv sigs run b opts (python_path opts # (if visualize then argv @ [visual] else argv)) None (Some (directory opts None)) False)"

text \<open>\<open>get_command_template\<close>\<close>

definition get_command_template :: "options \<Rightarrow> string list \<Rightarrow> string" where
  "get_command_template opts args =
     fold (\<lambda>arg cmd. cmd @ '' '' @ arg) args (if opt_template opts \<noteq> [] then opt_template opts else ''%s'')"

section \<open>Words\<close>

text \<open>Words without white space and quotes survive the doubling of their backslashes and the splitting.\<close>

lemma lex_word:
  assumes "list_all (\<lambda>c. \<not> lex_ws c \<and> \<not> lex_quote c) w" and "st = In_Word \<or> st = Between \<and> tok = []"
  shows "lex st tok quoted (double_backslashes w @ s) = lex (if w = [] then st else In_Word) (tok @ w) quoted s"
  using assms
proof (induction w arbitrary: st tok)
  case (Cons c w)
  have "\<not> lex_ws backslash" by (simp add: lex_ws_def backslash_def)
  moreover have "lex In_Word (tok @ [c]) quoted (double_backslashes w @ s) = lex In_Word (tok @ [c] @ w) quoted s"
    using Cons.IH [of In_Word "tok @ [c]"] Cons.prems(1) by simp
  ultimately show ?case using Cons.prems by (auto simp: double_backslashes_def)
qed (simp add: double_backslashes_def)

lemma double_append: "double_backslashes (a @ b) = double_backslashes a @ double_backslashes b"
  by (simp add: double_backslashes_def)

lemma split_doubled:
  assumes "list_all (\<lambda>w. w \<noteq> [] \<and> list_all (\<lambda>c. \<not> lex_ws c \<and> \<not> lex_quote c) w) ws"
  shows "shlex_split (double_backslashes (join '' '' ws)) = Inr ws"
  using assms
proof (induction ws)
  case Nil
  show ?case by (simp add: shlex_split_def double_backslashes_def)
next
  case (Cons w ws)
  have w: "w \<noteq> []" "list_all (\<lambda>c. \<not> lex_ws c \<and> \<not> lex_quote c) w" using Cons.prems by simp_all
  have IH: "lex Between [] False (double_backslashes (join '' '' ws)) = Inr ws" using Cons by (simp add: shlex_split_def)
  have sp: "double_backslashes (CHR '' '' # s) = CHR '' '' # double_backslashes s" "lex_ws (CHR '' '')" for s by (simp_all add: double_backslashes_def backslash_def lex_ws_def)
  show ?case
  proof (cases ws)
    case Nil
    then show ?thesis using lex_word [OF w(2), of Between "[]" False "[]"] w(1) by (simp add: shlex_split_def)
  next
    case (Cons v vs)
    have "join '' '' (w # ws) = w @ '' '' @ join '' '' ws" by (simp add: Cons)
    then show ?thesis
      using lex_word [OF w(2), of Between "[]" False "'' '' @ double_backslashes (join '' '' ws)"] w(1) IH
      by (simp add: shlex_split_def double_append sp)
  qed
qed

section \<open>Environment\<close>

lemma map_of_prepend: "map_of (prepend sep var dirs env) k =
    (if k = var then Some (case map_of env var of Some v \<Rightarrow> join sep (dirs @ [v]) | None \<Rightarrow> join sep dirs) else map_of env k)"
  by (simp add: prepend_def split: option.split)

text \<open>Only the three variables of paths are changed; on Linux each gets the directories of the build in front.\<close>

lemma proc_env_others:
  "k \<notin> {pathvar (platform b), ''PYTHONPATH'', ''PATH''} \<Longrightarrow>
    map_of (get_proc_env b (Some e)) k = map_of (fold (\<lambda>(k, v). dict_set k v) e (os_environ b)) k"
  by (simp add: get_proc_env_def Let_def map_of_prepend)

lemma proc_env_linux:
  assumes "platform b = ''linux2''" and "map_of (os_environ b) ''PATH'' = Some path"
  shows "map_of (get_proc_env b None) ''PATH'' = Some (join '':'' (executable_path b @ [path]))"
    and "map_of (get_proc_env b None) ''LD_LIBRARY_PATH'' = Some (join '':'' (module_path b @
      (case map_of (os_environ b) ''LD_LIBRARY_PATH'' of None \<Rightarrow> [] | Some v \<Rightarrow> [v])))"
  using assms by (simp_all add: get_proc_env_def Let_def map_of_prepend pathvar_def pathsep_def split: option.split)

section \<open>Properties\<close>

lemma check_retval_Inr: "check_retval sigs r = Inr x \<longleftrightarrow> r = 0 \<and> x = 0"
  by (auto simp: check_retval_def split: option.split if_splits)

text \<open>A run returns only the code 0, and only if the process exited with 0 and, under valgrind, reported no leak (with
  valgrind found and no command template); every other outcome is an error.\<close>

theorem run_returns_iff:
  "run_argv sigs run b opts argv os_env cwd force = Inr r \<longleftrightarrow>
     r = 0 \<and>
     (if opt_valgrind opts \<and> \<not> force
      then opt_template opts = [] \<and> valgrind_path opts \<noteq> [] \<and>
        (case run ([valgrind_path opts, ''--leak-check=full'', ''--show-reachable=yes'', ''--error-exitcode=1''] @ argv) (get_proc_env b os_env) cwd of
           (err, st) \<Rightarrow> st = 0 \<and> \<not> list_ex (contains ''== LEAK SUMMARY'') err)
      else snd (run argv (get_proc_env b os_env) cwd) = 0)"
  by (auto simp: run_argv_def Let_def check_retval_Inr split: prod.split)

text \<open>The filter that is to leave only the programs in the subtree of the directory \<open>waf\<close> was started in compares
  strings: a program of a directory beside it whose name begins like its own is found, too.\<close>

definition inside :: "string \<Rightarrow> string \<Rightarrow> bool" where
  "inside dir path \<longleftrightarrow> path = dir \<or> startswith path (dir @ ''/'')"

theorem program_outside_found:
  assumes "is_ns3_program p" and "src_path p = launch_dir @ c # rest" and "c \<noteq> CHR ''/''"
    and "\<not> startswith (bld_path p) launch_dir"
  shows "find_program launch_dir (p # ps) (prog_name p) = Inr p \<and> \<not> inside launch_dir (src_path p) \<and> \<not> inside launch_dir (bld_path p)"
proof -
  have "startswith x d" if "inside d x" for d x
  proof (cases "x = d")
    case False
    with that have "take (length d) (take (length (d @ ''/'')) x) = d" by (simp add: inside_def)
    then show ?thesis by simp
  qed simp
  then show ?thesis using assms by (auto simp: find_program_def in_subtree_def names_of_def inside_def)
qed

lemma program_outside_found_witness:
  "find_program ''/ns3/src/lte''
     [\<lparr>prog_name = ''test'', is_ns3_program = True, src_path = ''/ns3/src/lte-epc'', bld_path = ''/ns3/build/src/lte-epc'', exe_path = ''/ns3/build/src/lte-epc/test''\<rparr>] ''test'' =
   Inr \<lparr>prog_name = ''test'', is_ns3_program = True, src_path = ''/ns3/src/lte-epc'', bld_path = ''/ns3/build/src/lte-epc'', exe_path = ''/ns3/build/src/lte-epc/test''\<rparr>"
  using program_outside_found [of "\<lparr>prog_name = ''test'', is_ns3_program = True, src_path = ''/ns3/src/lte-epc'', bld_path = ''/ns3/build/src/lte-epc'', exe_path = ''/ns3/build/src/lte-epc/test''\<rparr>"
    "''/ns3/src/lte''" "CHR ''-''" "''epc''" "[]"] by simp

end
