(* ===== verification/Build_Flags.thy ===== *)
theory Build_Flags
  imports Py_Strings
begin

text \<open>
  \<open>waf-tools/cflags.py\<close>: the flags of a build profile for each compiler, and how \<open>configure\<close> puts them into the
  environment of \<open>waf\<close>, where every variable is a list of strings.
\<close>

section \<open>Compilers\<close>

datatype compiler = Gcc_Traits | Icc_Traits | Msvc_Traits

definition warnings_flags :: "compiler \<Rightarrow> string list list" where
  "warnings_flags c =
     (case c of
        Gcc_Traits \<Rightarrow> []
      | Icc_Traits \<Rightarrow> [[], [], [''-Wall'']]
      | Msvc_Traits \<Rightarrow> [[''/W2''], [''/WX''], [''/Wall'']])"

text \<open>\<open>for l in range(level)\<close>, left when the lists are used up.\<close>

fun warnings_loop :: "string list list \<Rightarrow> nat list \<Rightarrow> string list \<Rightarrow> string list" where
  "warnings_loop flags [] warnings = warnings"
| "warnings_loop flags (l # ls) warnings =
     (if l < length flags then warnings_loop flags ls (warnings @ flags ! l) else warnings)"

definition get_warnings_flags :: "compiler \<Rightarrow> nat \<Rightarrow> string list" where
  "get_warnings_flags c level = warnings_loop (warnings_flags c) [0..<level] []"

text \<open>A level without flags gives \<open>None\<close>.\<close>

definition get_optimization_flags :: "compiler \<Rightarrow> nat \<Rightarrow> string list option" where
  "get_optimization_flags c level =
     (case c of
        Msvc_Traits \<Rightarrow>
          (if level = 0 then Some [''/Od''] else if level = 1 then Some [] else if level = 2 then Some [''/O2'']
           else if level = 3 then Some [''/Ox''] else None)
      | _ \<Rightarrow>
          (if level = 0 then Some [''-O0''] else if level = 1 then Some [''-O''] else if level = 2 then Some [''-O2'']
           else if level = 3 then Some [''-O3''] else None))"

definition get_debug_flags :: "compiler \<Rightarrow> nat \<Rightarrow> string list \<times> string list" where
  "get_debug_flags c level =
     (case c of
        Msvc_Traits \<Rightarrow>
          (if level = 0 then ([], [''NDEBUG'']) else if level = 1 then ([''/ZI'', ''/RTC1''], [])
           else ([''/ZI'', ''/RTC1''], [''_DEBUG'']))
      | _ \<Rightarrow>
          (if level = 0 then ([''-g0''], [''NDEBUG'']) else if level = 1 then ([''-g''], [])
           else ([''-ggdb'', ''-g3''], [''_DEBUG''])))"

text \<open>Only \<open>GccTraits\<close> has the method.\<close>

definition get_cxx_version_flags :: "compiler \<Rightarrow> string list res" where
  "get_cxx_version_flags c = (case c of Gcc_Traits \<Rightarrow> Inr [''-std=gnu++11''] | _ \<Rightarrow> Inl AttributeError)"

definition compiler_mapping :: "(string, compiler) dict" where
  "compiler_mapping =
     [(''gcc'', Gcc_Traits), (''g++'', Gcc_Traits), (''msvc'', Msvc_Traits), (''icc'', Icc_Traits), (''icpc'', Icc_Traits)]"

definition profiles :: "(string, nat \<times> nat \<times> nat) dict" where
  "profiles = [(''default'', (2, 1, 1)), (''debug'', (0, 2, 3)), (''release'', (3, 1, 0))]"

section \<open>configure\<close>

type_synonym waf_env = "(string, string list) dict"

datatype flag_error = Waf_Error | Py_Error py_error

definition get_var :: "waf_env \<Rightarrow> string \<Rightarrow> string list" where
  "get_var env k = (case map_of env k of None \<Rightarrow> [] | Some v \<Rightarrow> v)"

definition append_value :: "string \<Rightarrow> string list \<Rightarrow> waf_env \<Rightarrow> waf_env" where
  "append_value k v env = dict_set k (get_var env k @ v) env"

text \<open>\<open>compiler_mapping[cc]\<close>, else \<open>compiler_mapping[cxx]\<close>.\<close>

definition choose_compiler :: "string option \<Rightarrow> string option \<Rightarrow> compiler option" where
  "choose_compiler cc cxx =
     (case Option.bind cc (map_of compiler_mapping) of
        Some c \<Rightarrow> Some c
      | None \<Rightarrow> Option.bind cxx (map_of compiler_mapping))"

definition py :: "'a res \<Rightarrow> flag_error + 'a" where
  "py r = (case r of Inl e \<Rightarrow> Inl (Py_Error e) | Inr x \<Rightarrow> Inr x)"

definition set_cc_flags :: "string list \<Rightarrow> string list \<Rightarrow> string list \<Rightarrow> string list \<Rightarrow> waf_env \<Rightarrow> waf_env" where
  "set_cc_flags opt dbg warn defs env =
     append_value ''CCDEFINES'' defs (append_value ''CCFLAGS'' warn (append_value ''CCFLAGS'' dbg (append_value ''CCFLAGS'' opt env)))"

definition set_cxx_flags :: "string list \<Rightarrow> string list \<Rightarrow> string list \<Rightarrow> string list \<Rightarrow> string list \<Rightarrow> waf_env \<Rightarrow> waf_env" where
  "set_cxx_flags opt dbg warn ver defs env =
     append_value ''CXXDEFINES'' defs (append_value ''CXXFLAGS'' ver (append_value ''CXXFLAGS'' warn
       (append_value ''CXXFLAGS'' dbg (append_value ''CXXFLAGS'' opt env))))"

text \<open>\<open>cc\<close> and \<open>cxx\<close> are the compilers found, if any.\<close>

definition configure :: "string option \<Rightarrow> string option \<Rightarrow> string \<Rightarrow> waf_env \<Rightarrow> flag_error + waf_env" where
  "configure cc cxx profile env =
     (if cc = None \<and> cxx = None then Inl Waf_Error
      else case choose_compiler cc cxx of
          None \<Rightarrow> Inr env
        | Some c \<Rightarrow>
            bind_res (py (dict_get profiles profile)) (\<lambda>(opt_level, warn_level, dbg_level).
            bind_res (py (of_opt TypeError (get_optimization_flags c opt_level))) (\<lambda>optimizations.
            case get_debug_flags c dbg_level of (debug, debug_defs) \<Rightarrow>
            bind_res (py (get_cxx_version_flags c)) (\<lambda>cxx_version.
            let warnings = get_warnings_flags c warn_level;
                env = (if cc \<noteq> None \<and> get_var env ''CCFLAGS'' = [] then set_cc_flags optimizations debug warnings debug_defs env else env)
            in Inr (if cxx \<noteq> None \<and> get_var env ''CXXFLAGS'' = []
                    then set_cxx_flags optimizations debug warnings cxx_version debug_defs env else env)))))"

section \<open>What every compiler promises\<close>

text \<open>Level 0 turns assertions off, higher levels do not, and warnings grow with the level.\<close>

locale compiler_traits =
  fixes warnings :: "nat \<Rightarrow> string list"
    and debug :: "nat \<Rightarrow> string list \<times> string list"
  assumes ndebug: "''NDEBUG'' \<in> set (snd (debug l)) \<longleftrightarrow> l = 0"
    and warnings_grow: "k \<le> l \<Longrightarrow> prefix (warnings k) (warnings l)"
begin

lemma warnings_subset: "k \<le> l \<Longrightarrow> set (warnings k) \<subseteq> set (warnings l)"
  using warnings_grow [of k l] by (auto simp: prefix_def)

lemma same_defines: "0 < k \<Longrightarrow> ''NDEBUG'' \<notin> set (snd (debug k))"
  by (simp add: ndebug)

end

lemma warnings_loop_eq:
  "m \<le> length flags \<Longrightarrow> warnings_loop flags [m..<n] acc = acc @ concat (drop m (take n flags))"
proof (induction "n - m" arbitrary: m acc)
  case (Suc d)
  then have m: "m < n" by simp
  show ?case
  proof (cases "m < length flags")
    case True
    then have "drop m (take n flags) = flags ! m # drop (Suc m) (take n flags)"
      using m by (simp add: Cons_nth_drop_Suc [symmetric])
    then show ?thesis using Suc True m by (simp add: upt_conv_Cons)
  next
    case False
    then show ?thesis using Suc.prems m by (simp add: upt_conv_Cons)
  qed
qed simp

lemma get_warnings_flags_eq: "get_warnings_flags c level = concat (take level (warnings_flags c))"
  using warnings_loop_eq [of 0 "warnings_flags c" level "[]"] by (simp add: get_warnings_flags_def)

lemma warnings_prefix: "k \<le> l \<Longrightarrow> prefix (get_warnings_flags c k) (get_warnings_flags c l)"
proof -
  assume "k \<le> l"
  then have "take l (warnings_flags c) = take k (warnings_flags c) @ drop k (take l (warnings_flags c))"
    by (metis append_take_drop_id min.absorb1 take_take)
  then have "concat (take l (warnings_flags c)) = concat (take k (warnings_flags c)) @ concat (drop k (take l (warnings_flags c)))"
    by (metis concat_append)
  then show ?thesis by (auto simp: get_warnings_flags_eq prefix_def)
qed

interpretation gcc: compiler_traits "get_warnings_flags Gcc_Traits" "get_debug_flags Gcc_Traits"
  by unfold_locales (simp_all add: get_debug_flags_def warnings_prefix)

interpretation icc: compiler_traits "get_warnings_flags Icc_Traits" "get_debug_flags Icc_Traits"
  by unfold_locales (simp_all add: get_debug_flags_def warnings_prefix)

interpretation msvc: compiler_traits "get_warnings_flags Msvc_Traits" "get_debug_flags Msvc_Traits"
  by unfold_locales (simp_all add: get_debug_flags_def warnings_prefix)

section \<open>Properties\<close>

lemma get_var_append: "get_var (append_value k v env) j = (if j = k then get_var env k @ v else get_var env j)"
  by (simp add: append_value_def get_var_def)

text \<open>With gcc the flags of the profile are appended only where the user set none, and the user's own flags
  are never touched; with icc or msvc, which the tables know, configuration ends in an \<open>AttributeError\<close>.\<close>

theorem configure_outcome:
  assumes "cc \<noteq> None \<or> cxx \<noteq> None" and "map_of profiles profile = Some (opt, warn, dbg)"
  shows "case choose_compiler cc cxx of
      None \<Rightarrow> configure cc cxx profile env = Inr env
    | Some Gcc_Traits \<Rightarrow>
        (case configure cc cxx profile env of
           Inl _ \<Rightarrow> False
         | Inr env' \<Rightarrow>
             get_var env' ''CXXFLAGS'' =
               (if cxx = None \<or> get_var env ''CXXFLAGS'' \<noteq> [] then get_var env ''CXXFLAGS''
                else the (get_optimization_flags Gcc_Traits opt) @ fst (get_debug_flags Gcc_Traits dbg) @ [''-std=gnu++11'']) \<and>
             get_var env' ''CCFLAGS'' =
               (if cc = None \<or> get_var env ''CCFLAGS'' \<noteq> [] then get_var env ''CCFLAGS''
                else the (get_optimization_flags Gcc_Traits opt) @ fst (get_debug_flags Gcc_Traits dbg)))
    | Some _ \<Rightarrow> configure cc cxx profile env = Inl (Py_Error AttributeError)"
proof -
  have p: "dict_get profiles profile = Inr (opt, warn, dbg)" using assms(2) by (simp add: dict_get_Inr_iff)
  have o: "get_optimization_flags c opt \<noteq> None" for c
    using assms(2) by (cases c) (auto simp: profiles_def get_optimization_flags_def split: if_splits)
  have w: "get_warnings_flags Gcc_Traits warn = []" by (simp add: get_warnings_flags_eq warnings_flags_def)
  show ?thesis
  proof (cases "choose_compiler cc cxx")
    case None
    then show ?thesis using assms(1) by (auto simp: configure_def)
  next
    case (Some c)
    obtain f where f: "get_optimization_flags c opt = Some f" using o [of c] by blast
    show ?thesis
      using assms(1) Some f p w
      by (cases c) (auto simp: configure_def py_def get_cxx_version_flags_def split_beta Let_def set_cc_flags_def set_cxx_flags_def get_var_append)
  qed
qed

lemma configure_outcome_witness:
  "configure (Some ''icc'') (Some ''icpc'') ''default'' [] = Inl (Py_Error AttributeError)"
  using configure_outcome [of "Some ''icc''" "Some ''icpc''" "''default''" 2 1 1 "[]"]
  by (simp add: choose_compiler_def compiler_mapping_def profiles_def)

end
