(* ===== verification/Command_Output.thy ===== *)
theory Command_Output
  imports Build_Env
begin

text \<open>
  \<open>waf-tools/misc.py\<close>, the feature \<open>command-output\<close>: from the description of a command to the task and from the task to the
  process that is started.  The tree of nodes of \<open>waf\<close> is a parameter: the functions that find a node by name.
  Signatures of files and the order of tasks are \<open>waf\<close>'s own.
\<close>

section \<open>Nodes and arguments\<close>

record node =
  abspath :: string
  srcpath :: string
  bldpath :: string

record tree =
  find_resource :: "string \<Rightarrow> node option"
  find_or_declare :: "string \<Rightarrow> node option"
  find_dir :: "string \<Rightarrow> node option"

datatype arg_kind = Input_File | Output_File | Input_Dir | Output_Dir

record cmd_arg =
  kind :: arg_kind
  arg_name :: string
  template :: string
  arg_node :: "node option"

text \<open>The message of a missing node has one \<open>%s\<close> for two values, so that the \<open>WafError\<close> is never made.\<close>

datatype waf_error = Waf_Error | Py_Raised py_error

definition find_node :: "tree \<Rightarrow> cmd_arg \<Rightarrow> waf_error + cmd_arg" where
  "find_node t a =
     (case (case kind a of
              Input_File \<Rightarrow> find_resource t (arg_name a)
            | Output_File \<Rightarrow> find_or_declare t (arg_name a)
            | _ \<Rightarrow> find_dir t (arg_name a)) of
        None \<Rightarrow> Inl (Py_Raised TypeError)
      | Some n \<Rightarrow> Inr (a\<lparr>arg_node := Some n\<rparr>))"

definition get_path :: "cmd_arg \<Rightarrow> bool \<Rightarrow> string res" where
  "get_path a absolute =
     bind_res (of_opt AttributeError (arg_node a)) (\<lambda>n.
     fmt_s (template a)
       [case kind a of
          Input_File \<Rightarrow> if absolute then abspath n else srcpath n
        | Output_File \<Rightarrow> if absolute then abspath n else bldpath n
        | _ \<Rightarrow> abspath n])"

section \<open>The task\<close>

datatype command = External string | Of_Node node

datatype argument = Literal string | File_Arg cmd_arg

record command_task =
  command :: command
  command_node :: "node option"
  command_args :: "argument list"
  task_stdin :: "node option"
  task_stdout :: "node option"
  task_stderr :: "node option"
  task_cwd :: "string option"
  task_env :: "environ option"
  inputs :: "node list"
  outputs :: "node list"
  always_run :: bool

text \<open>What the user wrote.\<close>

record command_gen =
  gen_command :: "string option"
  command_is_external :: bool
  gen_argv :: "argument list"
  gen_stdin :: "string option"
  gen_stdout :: "string option"
  gen_stderr :: "string option"
  hidden_inputs :: "string list"
  hidden_outputs :: "string list"
  no_inputs :: bool
  no_outputs :: bool
  gen_cwd :: "string option"
  gen_env :: "environ option"

definition opt_node :: "(string \<Rightarrow> node option) \<Rightarrow> string option \<Rightarrow> waf_error + node option" where
  "opt_node look name = (case name of None \<Rightarrow> Inr None | Some s \<Rightarrow> (case look s of None \<Rightarrow> Inl Waf_Error | Some n \<Rightarrow> Inr (Some n)))"

definition hidden_nodes :: "(string \<Rightarrow> node option) \<Rightarrow> string list \<Rightarrow> waf_error + node list" where
  "hidden_nodes look names = map_res (\<lambda>s. case look s of None \<Rightarrow> Inl Waf_Error | Some n \<Rightarrow> Inr n) names"

definition find_arg :: "tree \<Rightarrow> argument \<Rightarrow> waf_error + argument" where
  "find_arg t a = (case a of Literal s \<Rightarrow> Inr (Literal s) | File_Arg c \<Rightarrow> bind_res (find_node t c) (\<lambda>c. Inr (File_Arg c)))"

definition nodes_of_kind :: "arg_kind \<Rightarrow> argument list \<Rightarrow> node list" where
  "nodes_of_kind k as = concat (map (\<lambda>a. case a of Literal _ \<Rightarrow> [] | File_Arg c \<Rightarrow> if kind c = k then (case arg_node c of None \<Rightarrow> [] | Some n \<Rightarrow> [n]) else []) as)"

definition find_command :: "tree \<Rightarrow> command_gen \<Rightarrow> waf_error + (command \<times> node option)" where
  "find_command t g =
     (case gen_command g of
        None \<Rightarrow> Inl Waf_Error
      | Some s \<Rightarrow>
          if command_is_external g then Inr (External s, None)
          else (case find_resource t s of None \<Rightarrow> Inl (Py_Raised AssertionError) | Some n \<Rightarrow> Inr (Of_Node n, Some n)))"

definition list_of :: "'a option \<Rightarrow> 'a list" where
  "list_of x = (case x of None \<Rightarrow> [] | Some a \<Rightarrow> [a])"

text \<open>\<open>apply_cmd_output\<close>; the directory the user asked for is replaced by that of the build.\<close>

definition apply_cmd_output :: "tree \<Rightarrow> string \<Rightarrow> command_gen \<Rightarrow> waf_error + command_task" where
  "apply_cmd_output t variant_dir g =
     bind_res (find_command t g) (\<lambda>(cmd, cmd_node).
     bind_res (map_res (find_arg t) (gen_argv g)) (\<lambda>args.
     bind_res (opt_node (find_or_declare t) (gen_stdout g)) (\<lambda>out.
     bind_res (opt_node (find_or_declare t) (gen_stderr g)) (\<lambda>err.
     bind_res (opt_node (find_resource t) (gen_stdin g)) (\<lambda>inp.
     bind_res (hidden_nodes (find_resource t) (hidden_inputs g)) (\<lambda>hidden_in.
     bind_res (hidden_nodes (find_or_declare t) (hidden_outputs g)) (\<lambda>hidden_out.
     let ins = nodes_of_kind Input_File args @ list_of inp @ hidden_in;
         outs = nodes_of_kind Output_File args @ list_of out @ list_of err @ hidden_out
     in if ins = [] \<and> \<not> no_inputs g then Inl Waf_Error
        else if outs = [] \<and> \<not> no_outputs g then Inl Waf_Error
        else Inr \<lparr>command = cmd, command_node = cmd_node, command_args = args, task_stdin = inp, task_stdout = out,
               task_stderr = err, task_cwd = Some variant_dir, task_env = gen_env g, inputs = ins, outputs = outs,
               always_run = (ins = [])\<rparr>)))))))"

section \<open>The process\<close>

record process_call =
  call_argv :: "string list"
  call_stdin :: "string option"
  call_stdout :: "string option"
  call_stderr :: "string option"
  call_cwd :: "string option"
  call_env :: environ

definition node_path :: "command_task \<Rightarrow> node \<Rightarrow> string" where
  "node_path task n = (if task_cwd task = None then bldpath n else abspath n)"

definition argument_path :: "command_task \<Rightarrow> argument \<Rightarrow> string res" where
  "argument_path task a = (case a of Literal s \<Rightarrow> Inr s | File_Arg c \<Rightarrow> get_path c (task_cwd task \<noteq> None))"

text \<open>\<open>command_output.run\<close>, up to the start of the process.\<close>

definition run_call :: "environ \<Rightarrow> command_task \<Rightarrow> process_call res" where
  "run_call os task =
     bind_res (map_res (argument_path task) (command_args task)) (\<lambda>args. Inr
       \<lparr>call_argv = (case command task of External s \<Rightarrow> s | Of_Node n \<Rightarrow> node_path task n) # args,
        call_stdin = map_option (node_path task) (task_stdin task),
        call_stdout = map_option (node_path task) (task_stdout task),
        call_stderr = map_option (node_path task) (task_stderr task),
        call_cwd = task_cwd task,
        call_env = (case task_env task of None \<Rightarrow> os | Some e \<Rightarrow> e)\<rparr>)"

section \<open>Declared files\<close>

text \<open>The nodes of the files that a task reads and writes, apart from the command and from whole directories.\<close>

definition read_nodes :: "command_task \<Rightarrow> node list" where
  "read_nodes task = nodes_of_kind Input_File (command_args task) @ list_of (task_stdin task)"

definition written_nodes :: "command_task \<Rightarrow> node list" where
  "written_nodes task = nodes_of_kind Output_File (command_args task) @ list_of (task_stdout task) @ list_of (task_stderr task)"

lemma applied_fields:
  assumes "apply_cmd_output t d g = Inr task"
  shows "task_cwd task = Some d" and "set (read_nodes task) \<subseteq> set (inputs task)" and "set (written_nodes task) \<subseteq> set (outputs task)"
    and "always_run task \<longleftrightarrow> inputs task = []" and "inputs task = [] \<Longrightarrow> no_inputs g" and "outputs task = [] \<Longrightarrow> no_outputs g"
  using assms
  by (auto simp: apply_cmd_output_def bind_res_Inr_iff Let_def read_nodes_def written_nodes_def split: if_splits)

lemma found_argument:
  assumes "find_arg t a = Inr b"
  shows "case b of Literal s \<Rightarrow> a = Literal s | File_Arg c \<Rightarrow> arg_node c \<noteq> None"
  using assms by (auto simp: find_arg_def find_node_def bind_res_Inr_iff split: argument.splits option.splits)

text \<open>Every argument of an applied task has its node, so that the paths are those of the nodes.\<close>

definition absolute_argument :: "argument \<Rightarrow> string res" where
  "absolute_argument a = (case a of Literal s \<Rightarrow> Inr s | File_Arg c \<Rightarrow> fmt_s (template c) [abspath (the (arg_node c))])"

lemma argument_absolute:
  assumes "find_arg t a = Inr b" and "task_cwd task = Some d"
  shows "argument_path task b = absolute_argument b"
  using found_argument [OF assms(1)] assms(2)
  by (auto simp: argument_path_def absolute_argument_def get_path_def split: argument.split arg_kind.split)

lemma map_res_from: "map_res f xs = Inr ys \<Longrightarrow> y \<in> set ys \<Longrightarrow> \<exists>x. f x = Inr y"
  by (induction xs arbitrary: ys) (auto simp: bind_res_Inr_iff)

section \<open>Properties\<close>

text \<open>A command is run in the directory of the build, whatever directory the user asked for, with absolute paths for the
  command, the files among its arguments and its redirections.\<close>

theorem runs_in_build_directory:
  assumes "apply_cmd_output t d g = Inr task"
  shows "run_call os task =
    bind_res (map_res absolute_argument (command_args task)) (\<lambda>args. Inr
      \<lparr>call_argv = (case command task of External s \<Rightarrow> s | Of_Node n \<Rightarrow> abspath n) # args,
       call_stdin = map_option abspath (task_stdin task), call_stdout = map_option abspath (task_stdout task),
       call_stderr = map_option abspath (task_stderr task), call_cwd = Some d,
       call_env = (case gen_env g of None \<Rightarrow> os | Some e \<Rightarrow> e)\<rparr>)"
proof -
  note c = applied_fields(1) [OF assms]
  have e: "task_env task = gen_env g" and a: "map_res (find_arg t) (gen_argv g) = Inr (command_args task)"
    using assms by (auto simp: apply_cmd_output_def bind_res_Inr_iff Let_def split: if_splits)
  have "map_res (argument_path task) (command_args task) = map_res absolute_argument (command_args task)"
    by (rule map_res_cong [OF refl]) (use map_res_from [OF a] argument_absolute c in blast)
  moreover have "node_path task = abspath" by (simp add: node_path_def c fun_eq_iff)
  ultimately show ?thesis by (simp add: run_call_def c e cong: command.case_cong)
qed

text \<open>A tree in which every name but \<open>missing\<close> is a node.\<close>

definition sample_node :: "string \<Rightarrow> node option" where
  "sample_node s = (if s = ''missing'' then None else Some \<lparr>abspath = ''/top/'' @ s, srcpath = ''../'' @ s, bldpath = s\<rparr>)"

definition sample_tree :: tree where
  "sample_tree = \<lparr>find_resource = sample_node, find_or_declare = sample_node, find_dir = sample_node\<rparr>"

definition sample_gen :: "string \<Rightarrow> command_gen" where
  "sample_gen input = \<lparr>gen_command = Some ''gen.sh'', command_is_external = False,
     gen_argv = [File_Arg \<lparr>kind = Input_File, arg_name = input, template = ''--in=%s'', arg_node = None\<rparr>, Literal ''-q''],
     gen_stdin = None, gen_stdout = Some ''out.txt'', gen_stderr = None, hidden_inputs = [], hidden_outputs = [],
     no_inputs = False, no_outputs = False, gen_cwd = Some ''/elsewhere'', gen_env = Some []\<rparr>"

definition sample_task :: command_task where
  "sample_task =
     (case apply_cmd_output sample_tree ''/top/build'' (sample_gen ''a.in'') of Inr task \<Rightarrow> task
      | Inl _ \<Rightarrow> \<lparr>command = External [], command_node = None, command_args = [], task_stdin = None, task_stdout = None,
           task_stderr = None, task_cwd = None, task_env = None, inputs = [], outputs = [], always_run = True\<rparr>)"

lemmas sample_defs = sample_task_def sample_gen_def sample_tree_def sample_node_def apply_cmd_output_def find_command_def
  find_arg_def find_node_def opt_node_def hidden_nodes_def nodes_of_kind_def list_of_def

lemma sample_applied: "apply_cmd_output sample_tree ''/top/build'' (sample_gen ''a.in'') = Inr sample_task"
  by (simp add: sample_defs)

lemma runs_in_build_directory_witness:
  "run_call [] sample_task = Inr
     \<lparr>call_argv = [''/top/gen.sh'', ''--in=/top/a.in'', ''-q''], call_stdin = None, call_stdout = Some ''/top/out.txt'',
      call_stderr = None, call_cwd = Some ''/top/build'', call_env = []\<rparr>"
  using runs_in_build_directory [OF sample_applied, of "[]"] by (simp add: sample_defs absolute_argument_def)

text \<open>Every file that a command gets as an input file, an output file or a redirection is among the inputs or outputs of
  its task, and a task without inputs runs every time.\<close>

theorem files_are_declared:
  assumes "apply_cmd_output t d g = Inr task"
  shows "set (read_nodes task) \<subseteq> set (inputs task) \<and> set (written_nodes task) \<subseteq> set (outputs task) \<and>
    (always_run task \<longleftrightarrow> inputs task = [])"
  using applied_fields [OF assms] by simp

lemma files_are_declared_witness:
  "set (read_nodes sample_task) \<subseteq> set (inputs sample_task) \<and> \<not> always_run sample_task"
  using files_are_declared [OF sample_applied] by (simp add: sample_defs)

text \<open>A missing input file among the arguments is reported by a \<open>TypeError\<close>, since the message cannot be
  formatted, and not by the \<open>WafError\<close> that was meant.\<close>

theorem missing_file_type_error:
  assumes "find_command t g = Inr c" and "gen_argv g = File_Arg a # rest" and "kind a = Input_File" and "find_resource t (arg_name a) = None"
  shows "apply_cmd_output t d g = Inl (Py_Raised TypeError)"
  using assms by (cases c) (simp add: apply_cmd_output_def find_arg_def find_node_def)

lemma missing_file_type_error_witness:
  "apply_cmd_output sample_tree ''/top/build'' (sample_gen ''missing'') = Inl (Py_Raised TypeError)"
proof -
  have "find_command sample_tree (sample_gen ''missing'') =
      Inr (Of_Node (the (sample_node ''gen.sh'')), sample_node ''gen.sh'')"
    by (simp add: sample_defs)
  from missing_file_type_error [OF this] show ?thesis by (simp add: sample_gen_def sample_tree_def sample_node_def)
qed

end
