(* ===== verification/Subst_Task.thy ===== *)
theory Subst_Task
  imports Py_Strings
begin

text \<open>
  \<open>waf-tools/misc.py\<close>, the feature \<open>subst\<close>: every \<open>@name@\<close> of a file is replaced by a value.  The code does it through a
  format string: percent signs are doubled, the variables become \<open>%(name)s\<close>, and the \<open>%\<close> operator is applied with
  a dictionary.  The tasks of one generator share that dictionary.  \<open>get_flat\<close> of the environment is a parameter.
\<close>

section \<open>The regular expression\<close>

definition is_word :: "char \<Rightarrow> bool" where
  "is_word c \<longleftrightarrow> is_digit c \<or> c = CHR ''_'' \<or> (65 \<le> code c \<and> code c \<le> 90) \<or> (97 \<le> code c \<and> code c \<le> 122)"

text \<open>The match of \<open>@(\w+)@\<close> after its first character: the name and what follows.\<close>

definition variable :: "string \<Rightarrow> (string \<times> string) option" where
  "variable s =
     (let w = takeWhile is_word s; r = dropWhile is_word s
      in if w \<noteq> [] \<and> r \<noteq> [] \<and> hd r = CHR ''@'' then Some (w, tl r) else None)"

lemma variable_shorter [termination_simp]: "variable s = Some (w, r) \<Longrightarrow> length r < Suc (length s)"
  by (auto simp: variable_def Let_def split: if_splits)
    (metis length_dropWhile_le length_tl less_Suc_eq_le le_diff_conv trans_le_add1 le_trans diff_le_self)

text \<open>\<open>m4_re.sub(r'%(\1)s', s)\<close> and \<open>m4_re.findall(s)\<close>\<close>

fun m4_sub :: "string \<Rightarrow> string" where
  "m4_sub [] = []"
| "m4_sub (c # s) =
     (if c = CHR ''@'' then
        (case variable s of
           Some (w, r) \<Rightarrow> ''%('' @ w @ '')s'' @ m4_sub r
         | None \<Rightarrow> c # m4_sub s)
      else c # m4_sub s)"

fun m4_names :: "string \<Rightarrow> string list" where
  "m4_names [] = []"
| "m4_names (c # s) =
     (if c = CHR ''@'' then (case variable s of Some (w, r) \<Rightarrow> w # m4_names r | None \<Rightarrow> m4_names s)
      else m4_names s)"

definition double_percent :: "string \<Rightarrow> string" where
  "double_percent s = concat (map (\<lambda>c. if c = CHR ''%'' then ''%%'' else [c]) s)"

section \<open>Formatting with a dictionary\<close>

type_synonym vars = "(string, string) dict"

text \<open>\<open>s % d\<close> with \<open>%(name)s\<close> and \<open>%%\<close>.\<close>

function fmt_dict :: "string \<Rightarrow> vars \<Rightarrow> string res" where
  "fmt_dict [] d = Inr []"
| "fmt_dict (c # s) d =
     (if c \<noteq> CHR ''%'' then bind_res (fmt_dict s d) (\<lambda>r. Inr (c # r))
      else case s of
          [] \<Rightarrow> Inl ValueError
        | e # s' \<Rightarrow>
            if e = CHR ''%'' then bind_res (fmt_dict s' d) (\<lambda>r. Inr (e # r))
            else if e = CHR ''('' then
              (let name = takeWhile (\<lambda>x. x \<noteq> CHR '')'') s'; rest = dropWhile (\<lambda>x. x \<noteq> CHR '')'') s'
               in if 2 \<le> length rest \<and> rest ! 1 = CHR ''s''
                  then bind_res (dict_get d name) (\<lambda>v. bind_res (fmt_dict (drop 2 rest) d) (\<lambda>r. Inr (v @ r)))
                  else Inl ValueError)
            else Inl ValueError)"
  by pat_completeness auto
termination
proof (relation "measure (\<lambda>(s, d). length s)", goal_cases)
  case (4 c s d e s' name rest v)
  have "length rest \<le> length s'" using 4 by (simp add: length_dropWhile_le)
  then show ?case using 4 by simp
qed simp_all

section \<open>The task\<close>

text \<open>The dictionary, filled with the names of the text when it is empty.\<close>

definition fill_dict :: "(string \<Rightarrow> string) \<Rightarrow> vars \<Rightarrow> string list \<Rightarrow> vars" where
  "fill_dict get_flat di names =
     (if di = [] then fold (\<lambda>i. dict_set i (if get_flat i \<noteq> [] then get_flat i else get_flat (upper i))) names [] else di)"

definition subst_func :: "(string \<Rightarrow> string) \<Rightarrow> vars \<Rightarrow> string \<Rightarrow> string res \<times> vars" where
  "subst_func get_flat di text0 =
     (let txt = double_percent text0;
          s = m4_sub txt;
          di = fill_dict get_flat di (m4_names txt)
      in (fmt_dict s di, di))"

text \<open>The files of one generator, one task after the other, with the dictionary they share; a task that raises ends
  the build.\<close>

fun subst_files :: "(string \<Rightarrow> string) \<Rightarrow> vars \<Rightarrow> string list \<Rightarrow> string list res" where
  "subst_files get_flat di [] = Inr []"
| "subst_files get_flat di (f # fs) =
     (case subst_func get_flat di f of (r, di) \<Rightarrow>
        bind_res r (\<lambda>out. bind_res (subst_files get_flat di fs) (\<lambda>outs. Inr (out # outs))))"

section \<open>What it means\<close>

text \<open>The replacement itself.\<close>

fun replace_vars :: "(string \<Rightarrow> string) \<Rightarrow> string \<Rightarrow> string" where
  "replace_vars f [] = []"
| "replace_vars f (c # s) =
     (if c = CHR ''@'' then (case variable s of Some (w, r) \<Rightarrow> f w @ replace_vars f r | None \<Rightarrow> c # replace_vars f s)
      else c # replace_vars f s)"

lemma word_chars: "is_word c \<Longrightarrow> c \<noteq> CHR ''%'' \<and> c \<noteq> CHR '')'' \<and> c \<noteq> CHR ''@''"
  by (auto simp: is_word_def is_digit_def code_def)

lemma double_simps [simp]:
  "double_percent [] = []" "double_percent (c # s) = (if c = CHR ''%'' then ''%%'' else [c]) @ double_percent s"
  "double_percent (a @ b) = double_percent a @ double_percent b"
  by (simp_all add: double_percent_def)

lemma double_word: "list_all is_word w \<Longrightarrow> double_percent w = w"
  by (induction w) (auto dest: word_chars)

lemma while_parts:
  "list_all P w \<Longrightarrow> y = [] \<or> \<not> P (hd y) \<Longrightarrow> takeWhile P (w @ y) = w \<and> dropWhile P (w @ y) = y"
  by (induction w) (auto simp: takeWhile_eq_Nil_iff dropWhile_eq_self_iff)

lemma variable_double: "variable (double_percent s) = map_option (\<lambda>(w, r). (w, double_percent r)) (variable s)"
proof -
  let ?w = "takeWhile is_word s"
  let ?r = "dropWhile is_word s"
  have w: "list_all is_word ?w" by (induction s) simp_all
  have "double_percent s = double_percent (?w @ ?r)" by simp
  also have "\<dots> = ?w @ double_percent ?r" by (simp only: double_simps double_word [OF w])
  finally have d: "double_percent s = ?w @ double_percent ?r" .
  have h: "double_percent ?r = [] \<or> \<not> is_word (hd (double_percent ?r))"
  proof (cases ?r)
    case (Cons x r)
    then have "\<not> is_word x" using hd_dropWhile [of is_word s] by simp
    then show ?thesis by (auto simp: Cons)
  next
    case Nil
    show ?thesis unfolding Nil by simp
  qed
  have t: "takeWhile is_word (double_percent s) = ?w" "dropWhile is_word (double_percent s) = double_percent ?r"
    unfolding d using while_parts [OF w h] by simp_all
  show ?thesis
  proof (cases ?r)
    case Nil
    show ?thesis unfolding variable_def t Nil Let_def by simp
  next
    case (Cons x r)
    then show ?thesis by (auto simp: variable_def t Let_def)
  qed
qed

lemma variable_word: "variable s = Some (w, r) \<Longrightarrow> w \<noteq> [] \<and> list_all is_word w"
  by (auto simp: variable_def Let_def list_all_iff split: if_splits dest: set_takeWhileD)

lemma fmt_variable:
  assumes "list_all is_word w"
  shows "fmt_dict (''%('' @ w @ '')s'' @ x) d = bind_res (dict_get d w) (\<lambda>v. bind_res (fmt_dict x d) (\<lambda>r. Inr (v @ r)))"
proof -
  have "list_all (\<lambda>c. c \<noteq> CHR '')'') w" using assms by (auto simp: list_all_iff dest: word_chars)
  from while_parts [OF this, of "'')s'' @ x"] show ?thesis by simp
qed

lemma names_double: "m4_names (double_percent s) = m4_names s"
  by (induction s rule: m4_names.induct) (auto simp: variable_double split: option.split)

text \<open>Doubling, substituting and formatting together replace the variables; the first one that the dictionary does not
  have is a \<open>KeyError\<close>.\<close>

lemma fmt_sub_double:
  "fmt_dict (m4_sub (double_percent s)) d =
     (if set (m4_names s) \<subseteq> fst ` set d then Inr (replace_vars (\<lambda>n. the (map_of d n)) s) else Inl KeyError)"
proof (induction s rule: m4_names.induct)
  case (2 c s)
  show ?case
  proof (cases "c = CHR ''@''")
    case True
    show ?thesis
    proof (cases "variable s")
      case None
      then show ?thesis using 2(1) [OF True None] True by (simp add: variable_double)
    next
      case (Some a)
      obtain w r where a: "a = (w, r)" by fastforce
      note v = Some [unfolded a]
      have w: "list_all is_word w" using variable_word [OF v] by simp
      have "m4_sub (double_percent (c # s)) = ''%('' @ w @ '')s'' @ m4_sub (double_percent r)"
        using True v by (simp add: variable_double)
      then have e: "fmt_dict (m4_sub (double_percent (c # s))) d =
          bind_res (dict_get d w) (\<lambda>x. bind_res (fmt_dict (m4_sub (double_percent r)) d) (\<lambda>y. Inr (x @ y)))"
        by (simp only: fmt_variable [OF w])
      have g: "dict_get d w = (if w \<in> fst ` set d then Inr (the (map_of d w)) else Inl KeyError)"
        using map_of_None_keys [of d w] by (auto simp: dict_get_def)
      show ?thesis unfolding e g using 2(2) [OF True v refl] True v by auto
    qed
  next
    case False
    then show ?thesis using 2(3) by auto
  qed
qed simp

lemma fold_dict_set_keys: "fst ` set (fold (\<lambda>i. dict_set i (f i)) names d) = set names \<union> fst ` set d"
  by (induction names arbitrary: d) auto

lemma fold_dict_set_lookup: "n \<in> set names \<Longrightarrow> map_of (fold (\<lambda>i. dict_set i (f i)) names d) n = Some (f n)"
proof (induction names rule: rev_induct)
  case (snoc x xs)
  then show ?case by (cases "n = x") simp_all
qed simp

lemma replace_cong: "(\<And>n. n \<in> set (m4_names s) \<Longrightarrow> f n = g n) \<Longrightarrow> replace_vars f s = replace_vars g s"
  by (induction s rule: m4_names.induct) (auto split: option.splits)

text \<open>What the task writes when the dictionary is still empty.\<close>

lemma substitution:
  "fst (subst_func get_flat [] s) = Inr (replace_vars (\<lambda>n. if get_flat n \<noteq> [] then get_flat n else get_flat (upper n)) s)"
proof -
  let ?f = "\<lambda>n. if get_flat n \<noteq> [] then get_flat n else get_flat (upper n)"
  let ?d = "fold (\<lambda>i. dict_set i (?f i)) (m4_names s) []"
  have "fst (subst_func get_flat [] s) = fmt_dict (m4_sub (double_percent s)) ?d"
    by (simp add: subst_func_def fill_dict_def Let_def names_double)
  also have "\<dots> = Inr (replace_vars (\<lambda>n. the (map_of ?d n)) s)"
    using fold_dict_set_keys [of ?f "m4_names s" "[]"] by (simp add: fmt_sub_double)
  also have "replace_vars (\<lambda>n. the (map_of ?d n)) s = replace_vars ?f s"
    using fold_dict_set_lookup [of _ "m4_names s" ?f "[]"] by (intro replace_cong) simp
  finally show ?thesis .
qed

section \<open>Properties\<close>

text \<open>C24. With an empty dictionary a file is written with every \<open>@name@\<close> replaced by the variable of the environment (or
  by that of the name in capitals when it is empty) and with nothing else changed, percent signs included.\<close>

theorem substitution_exact:
  "fst (subst_func get_flat [] s) = Inr (replace_vars (\<lambda>n. if get_flat n \<noteq> [] then get_flat n else get_flat (upper n)) s)"
  by (rule substitution)

text \<open>The dictionary is filled from the first file only, as the tasks of a generator share it: a later file with a
  variable that the first one does not have ends in a \<open>KeyError\<close>.\<close>

theorem later_file_key_error:
  assumes "m4_names f1 \<noteq> []" and "\<not> set (m4_names f2) \<subseteq> set (m4_names f1)"
  shows "subst_files get_flat [] (f1 # f2 # fs) = Inl KeyError"
proof -
  let ?f = "\<lambda>n. if get_flat n \<noteq> [] then get_flat n else get_flat (upper n)"
  let ?d = "fold (\<lambda>i. dict_set i (?f i)) (m4_names f1) []"
  have k: "fst ` set ?d = set (m4_names f1)" using fold_dict_set_keys [of ?f "m4_names f1" "[]"] by simp
  then have "?d \<noteq> []" using assms(1) by (metis image_empty list.set(1) set_empty)
  moreover have "snd (subst_func get_flat [] f1) = ?d" by (simp add: subst_func_def fill_dict_def Let_def names_double)
  ultimately have "fst (subst_func get_flat (snd (subst_func get_flat [] f1)) f2) = Inl KeyError"
    using assms(2) k by (simp add: subst_func_def fill_dict_def Let_def fmt_sub_double)
  then show ?thesis using substitution [of get_flat f1] by (simp add: split_beta)
qed

lemma later_file_key_error_witness:
  "subst_files (\<lambda>n. ''v'') [] [''a = @A@'', ''b = @B@''] = Inl KeyError"
  by (rule later_file_key_error) (simp_all add: variable_def is_word_def is_digit_def code_def)

end
