(* ===== verification/Module_Path.thy ===== *)
theory Module_Path
  imports Py_Strings
begin

text \<open>
  How the scanners of the bindings name a header: \<open>get_ns3_relative_path\<close> of \<open>ns3modulescan.py\<close> and of
  \<open>ns3modulescan-modular.py\<close> walk up a path until they find the directory \<open>ns3\<close>.  The first does not stop at
  the root of the file system, so it is a partial function, with \<^const>\<open>None\<close> for a loop that never ends.
\<close>

section \<open>os.path\<close>

abbreviation slash :: char where
  "slash \<equiv> CHR ''/''"

abbreviation all_slashes :: "string \<Rightarrow> bool" where
  "all_slashes p \<equiv> list_all (\<lambda>c. c = slash) p"

definition rstrip_slashes :: "string \<Rightarrow> string" where
  "rstrip_slashes p = rev (dropWhile (\<lambda>c. c = slash) (rev p))"

text \<open>\<open>os.path.split\<close>: the directory loses its trailing slashes, unless it has nothing else.\<close>

definition path_split :: "string \<Rightarrow> string \<times> string" where
  "path_split p =
     (let tail = basename p; head = take (length p - length tail) p
      in (if all_slashes head then head else rstrip_slashes head, tail))"

text \<open>\<open>os.path.join(*l)\<close> needs at least one argument.\<close>

fun path_join_all :: "string list \<Rightarrow> string res" where
  "path_join_all [] = Inl TypeError"
| "path_join_all (w # ws) = Inr (foldl path_join w ws)"

lemma basename_split: "\<exists>h. p = h @ basename p \<and> (h = [] \<or> last h = slash)"
proof -
  let ?P = "\<lambda>c. c \<noteq> slash"
  have p: "p = rev (dropWhile ?P (rev p)) @ basename p"
    by (metis basename_def rev_append rev_rev_ident takeWhile_dropWhile_id)
  moreover have "dropWhile ?P (rev p) = [] \<or> hd (dropWhile ?P (rev p)) = slash"
    using hd_dropWhile [of ?P "rev p"] by blast
  then have "rev (dropWhile ?P (rev p)) = [] \<or> last (rev (dropWhile ?P (rev p))) = slash"
    by (auto simp: last_rev)
  ultimately show ?thesis by blast
qed

lemma basename_no_slash: "slash \<notin> set (basename p)"
  by (auto simp: basename_def dest: set_takeWhileD)

lemma basename_append:
  assumes "slash \<notin> set t" and "h = [] \<or> last h = slash"
  shows "basename (h @ t) = t"
proof -
  have "takeWhile (\<lambda>c. c \<noteq> slash) (rev t @ rev h) = rev t @ takeWhile (\<lambda>c. c \<noteq> slash) (rev h)"
    by (rule takeWhile_append2) (use assms(1) in auto)
  moreover have "takeWhile (\<lambda>c. c \<noteq> slash) (rev h) = []"
    using assms(2) by (cases h rule: rev_cases) auto
  ultimately show ?thesis by (simp add: basename_def)
qed

lemma path_split_append:
  assumes "slash \<notin> set t" and "h = [] \<or> last h = slash"
  shows "path_split (h @ t) = (if all_slashes h then h else rstrip_slashes h, t)"
  by (simp add: path_split_def basename_append [OF assms])

lemma rstrip_slashes_split: "\<exists>n. h = rstrip_slashes h @ replicate n slash"
proof -
  let ?P = "\<lambda>c. c = slash"
  have "h = rstrip_slashes h @ rev (takeWhile ?P (rev h))"
    by (metis rstrip_slashes_def rev_append rev_rev_ident takeWhile_dropWhile_id)
  moreover have "takeWhile ?P (rev h) = replicate (length (takeWhile ?P (rev h))) slash"
    by (rule replicate_eqI) (auto dest: set_takeWhileD)
  ultimately show ?thesis by (metis rev_replicate)
qed

lemma rstrip_slashes_last: "\<not> all_slashes h \<Longrightarrow> rstrip_slashes h \<noteq> [] \<and> last (rstrip_slashes h) \<noteq> slash"
proof -
  assume "\<not> all_slashes h"
  then have "dropWhile (\<lambda>c. c = slash) (rev h) \<noteq> []" by (auto simp: dropWhile_eq_Nil_conv list_all_iff)
  with hd_dropWhile [of "\<lambda>c. c = slash" "rev h"] show ?thesis by (simp add: rstrip_slashes_def last_rev)
qed

lemma rstrip_slashes_one: "u \<noteq> [] \<Longrightarrow> last u \<noteq> slash \<Longrightarrow> rstrip_slashes (u @ [slash]) = u"
  by (cases u rule: rev_cases) (auto simp: rstrip_slashes_def)

text \<open>The parts of a path: the directory, the slashes it lost and the last component.\<close>

lemma path_split_parts:
  assumes "path_split p = (h, t)"
  obtains n where "p = h @ replicate n slash @ t" and "slash \<notin> set t"
    and "all_slashes h \<and> n = 0 \<or> h \<noteq> [] \<and> last h \<noteq> slash \<and> 0 < n"
proof -
  from basename_split [of p] obtain d where d: "p = d @ basename p" "d = [] \<or> last d = slash" by blast
  with path_split_append [OF basename_no_slash d(2)] have s: "path_split p = (if all_slashes d then d else rstrip_slashes d, basename p)"
    by metis
  show thesis
  proof (cases "all_slashes d")
    case True
    with s d basename_no_slash [of p] assms that [of 0] show ?thesis by auto
  next
    case False
    from rstrip_slashes_split [of d] obtain n where n: "d = rstrip_slashes d @ replicate n slash" by blast
    have l: "rstrip_slashes d \<noteq> []" "last (rstrip_slashes d) \<noteq> slash" using rstrip_slashes_last [OF False] by auto
    have "0 < n"
    proof (rule ccontr)
      assume "\<not> 0 < n"
      with n have "d = rstrip_slashes d" by simp
      with d(2) l False show False by auto
    qed
    moreover have "p = rstrip_slashes d @ replicate n slash @ basename p" using d(1) n by (metis append.assoc)
    ultimately show ?thesis using that [of n] s False assms l basename_no_slash by simp
  qed
qed

lemma path_split_shorter: "path_split p = (h, t) \<Longrightarrow> h \<noteq> p \<Longrightarrow> length h < length p"
  by (erule path_split_parts) auto

lemma path_split_fixed:
  assumes "path_split p = (p, t)"
  shows "all_slashes p \<and> t = []"
  using assms by (rule path_split_parts) auto

lemma path_split_slashes: "all_slashes p \<Longrightarrow> path_split p = (p, [])"
  using path_split_append [of "[]" p] by (cases p rule: rev_cases) auto

section \<open>get\_ns3\_relative\_path\<close>

text \<open>The version of \<open>ns3modulescan.py\<close>.\<close>

partial_function (option) scan_path :: "string list \<Rightarrow> string \<Rightarrow> string res option" where
  "scan_path l head =
     (if head = [] then Some (Inl AssertionError)
      else case path_split head of (head', tail) \<Rightarrow>
        if tail = ''ns3'' then Some (path_join_all l) else scan_path (tail # l) head')"

definition get_ns3_relative_path :: "string \<Rightarrow> string res option" where
  "get_ns3_relative_path path = scan_path [] path"

text \<open>The version of \<open>ns3modulescan-modular.py\<close>.\<close>

function modular_path :: "string list \<Rightarrow> string \<Rightarrow> string res" where
  "modular_path l head =
     (if head = [] then Inl AssertionError
      else case path_split head of (new_head, tail) \<Rightarrow>
        if new_head = head then Inl ValueError
        else if tail = ''ns3'' then path_join_all l else modular_path (tail # l) new_head)"
  by pat_completeness auto
termination
  by (relation "measure (\<lambda>(l, head). length head)") (auto dest!: sym [THEN path_split_shorter])

declare modular_path.simps [simp del]

definition get_ns3_relative_path_modular :: "string \<Rightarrow> string res" where
  "get_ns3_relative_path_modular path = modular_path [] path"

lemma scan_path_stuck: "scan_path l head = Some r \<Longrightarrow> all_slashes head \<longrightarrow> head = []"
  by (rule scan_path.raw_induct [where P = "\<lambda>l head r. all_slashes head \<longrightarrow> head = []"])
    (auto simp: path_split_slashes split: if_splits prod.splits)

lemma scan_path_root: "all_slashes head \<Longrightarrow> head \<noteq> [] \<Longrightarrow> scan_path l head = None"
  using scan_path_stuck [of l head] by (cases "scan_path l head") auto

lemma scan_path_modular:
  "scan_path l head = (if modular_path l head = Inl ValueError then None else Some (modular_path l head))"
proof (induction l head rule: modular_path.induct)
  case (1 l head)
  obtain h t where s: "path_split head = (h, t)" by (cases "path_split head")
  show ?case
  proof (cases "head = [] \<or> h = head")
    case True
    then show ?thesis
    proof
      assume "head = []"
      then show ?thesis by (simp add: scan_path.simps [of l "[]"] modular_path.simps [of l "[]"])
    next
      assume h: "h = head"
      with s have "all_slashes head" using path_split_fixed by blast
      with h s show ?thesis
        by (cases "head = []") (simp_all add: scan_path.simps [of l "[]"] modular_path.simps [of l "[]"] scan_path_root modular_path.simps [of l head])
    qed
  next
    case False
    have j: "path_join_all l \<noteq> Inl ValueError" by (cases l) auto
    with False s "1.IH" [OF _ s [symmetric]] show ?thesis
      by (simp add: scan_path.simps [of l head] modular_path.simps [of l head])
  qed
qed

section \<open>Components\<close>

lemma split_on_mid: "split_on c (u @ c # v) = split_on c u @ split_on c v"
  by (induction u) (auto split: list.splits)

lemma set_split_slashes:
  "set (split_on slash (h @ replicate (Suc n) slash @ t)) = set (split_on slash h) \<union> (if 0 < n then {[]} else {}) \<union> set (split_on slash t)"
proof (induction n arbitrary: h)
  case 0
  show ?case by (simp add: split_on_mid)
next
  case (Suc n)
  have "h @ replicate (Suc (Suc n)) slash @ t = h @ slash # ([] @ replicate (Suc n) slash @ t)" by simp
  then have "set (split_on slash (h @ replicate (Suc (Suc n)) slash @ t)) =
      set (split_on slash h) \<union> set (split_on slash ([] @ replicate (Suc n) slash @ t))"
    by (simp only: split_on_mid set_append)
  then show ?case unfolding Suc.IH by auto
qed

abbreviation components :: "string \<Rightarrow> string set" where
  "components p \<equiv> set (split_on slash p)"

lemma components_slashes: "all_slashes p \<Longrightarrow> components p = {[]}"
  by (induction p) auto

lemma components_split:
  assumes "path_split p = (h, t)" and "w \<noteq> []"
  shows "w \<in> components p \<longleftrightarrow> w = t \<or> w \<in> components h"
proof (rule path_split_parts [OF assms(1)])
  fix n
  assume p: "p = h @ replicate n slash @ t" and t: "slash \<notin> set t"
    and c: "all_slashes h \<and> n = 0 \<or> h \<noteq> [] \<and> last h \<noteq> slash \<and> 0 < n"
  from c show ?thesis
  proof
    assume a: "all_slashes h \<and> n = 0"
    show ?thesis
    proof (cases h rule: rev_cases)
      case Nil
      with a p t assms(2) show ?thesis by (simp add: split_on_none)
    next
      case (snoc h' x)
      with a p have "p = h' @ slash # t" "h = h' @ slash # []" by auto
      with t assms(2) show ?thesis by (auto simp: split_on_mid split_on_none)
    qed
  next
    assume "h \<noteq> [] \<and> last h \<noteq> slash \<and> 0 < n"
    then obtain m where "n = Suc m" by (cases n) auto
    with p have "components p = components h \<union> (if 0 < m then {[]} else {}) \<union> components t"
      by (simp only: set_split_slashes)
    with t assms(2) show ?thesis by (auto simp: split_on_none)
  qed
qed

lemma absolute_split:
  assumes "path_split p = (h, t)" and "h \<noteq> []"
  shows "startswith h ''/'' \<longleftrightarrow> startswith p ''/''"
  using assms by (elim path_split_parts) (cases h; auto)

lemma relative_tail: "path_split p = ([], t) \<Longrightarrow> \<not> startswith p ''/''"
  by (erule path_split_parts) (cases t; auto)

lemma modular_path_outside:
  "''ns3'' \<notin> components head \<Longrightarrow> modular_path l head = Inl (if startswith head ''/'' then ValueError else AssertionError)"
proof (induction l head rule: modular_path.induct)
  case (1 l head)
  obtain h t where s: "path_split head = (h, t)" by (cases "path_split head")
  show ?case
  proof (cases "head = [] \<or> h = head")
    case True
    then show ?thesis
      using s path_split_fixed [of head t] modular_path.simps [of l head] by (cases head) auto
  next
    case False
    have n: "t \<noteq> ''ns3''" "''ns3'' \<notin> components h" using components_split [OF s, of "''ns3''"] "1.prems" by auto
    with False s "1.IH" [OF _ s [symmetric]] have "modular_path l head = Inl (if startswith h ''/'' then ValueError else AssertionError)"
      by (simp add: modular_path.simps [of l head])
    with absolute_split [OF s] relative_tail [of head t] s show ?thesis by (cases "h = []") auto
  qed
qed

lemma modular_path_inside:
  "''ns3'' \<in> components head \<Longrightarrow> modular_path l head \<noteq> Inl ValueError \<and> modular_path l head \<noteq> Inl AssertionError"
proof (induction l head rule: modular_path.induct)
  case (1 l head)
  obtain h t where s: "path_split head = (h, t)" by (cases "path_split head")
  have ne: "head \<noteq> []" using "1.prems" by auto
  have "h \<noteq> head" using s path_split_fixed [of head t] components_slashes "1.prems" by fastforce
  moreover have "path_join_all l \<noteq> Inl ValueError \<and> path_join_all l \<noteq> Inl AssertionError" by (cases l) auto
  ultimately show ?case
    using components_split [OF s, of "''ns3''"] "1.prems" "1.IH" [OF _ s [symmetric]] ne s
    by (cases "t = ''ns3''") (simp_all add: modular_path.simps [of l head])
qed

lemma modular_path_component:
  assumes "u \<noteq> []" and "last u \<noteq> slash" and "slash \<notin> set w" and "w \<noteq> ''ns3''"
  shows "modular_path l (u @ slash # w) = modular_path (w # l) u"
proof -
  have "\<not> all_slashes (u @ [slash])" using assms(1,2) by (cases u rule: rev_cases) auto
  with path_split_append [OF assms(3), of "u @ [slash]"] rstrip_slashes_one [OF assms(1,2)]
  have "path_split (u @ slash # w) = (u, w)" by simp
  with assms show ?thesis by (simp add: modular_path.simps [of l "u @ slash # w"])
qed

lemma modular_path_ns3: "modular_path l (d @ ''/ns3'') = path_join_all l"
proof -
  have "path_split ((d @ ''/'') @ ''ns3'') = (if all_slashes (d @ ''/'') then d @ ''/'' else rstrip_slashes (d @ ''/''), ''ns3'')"
    by (rule path_split_append) auto
  moreover have "rstrip_slashes (d @ ''/'') \<noteq> d @ ''/ns3''"
  proof
    assume "rstrip_slashes (d @ ''/'') = d @ ''/ns3''"
    moreover obtain n where "d @ ''/'' = rstrip_slashes (d @ ''/'') @ replicate n slash"
      using rstrip_slashes_split by blast
    ultimately have "length (d @ ''/'') = length (d @ ''/ns3'') + n" by (metis length_append length_replicate)
    then show False by simp
  qed
  ultimately show ?thesis by (simp add: modular_path.simps [of l "d @ ''/ns3''"])
qed

text \<open>A name in a path: not empty and without a slash.\<close>

definition path_name :: "string \<Rightarrow> bool" where
  "path_name w \<longleftrightarrow> w \<noteq> [] \<and> slash \<notin> set w"

lemma join_names_last: "ws \<noteq> [] \<Longrightarrow> \<forall>w \<in> set ws. path_name w \<Longrightarrow> join ''/'' ws \<noteq> [] \<and> last (join ''/'' ws) \<noteq> slash"
proof (induction ws)
  case (Cons w ws)
  then show ?case
    by (cases "ws = []") (auto simp: path_name_def join_Cons_ne dest: last_in_set)
qed simp

lemma foldl_path_join:
  "\<forall>w \<in> set ws. path_name w \<Longrightarrow> u \<noteq> [] \<Longrightarrow> last u \<noteq> slash \<Longrightarrow> foldl path_join u ws = join ''/'' (u # ws)"
proof (induction ws arbitrary: u)
  case (Cons w ws)
  have w: "w \<noteq> []" "slash \<notin> set w" using Cons.prems by (auto simp: path_name_def)
  then have "last w \<noteq> slash" using last_in_set by metis
  with w have w: "w \<noteq> []" "slash \<notin> set w" "last w \<noteq> slash" by auto
  then have "path_join u w = u @ ''/'' @ w" using Cons.prems by (cases w) (auto simp: path_join_def)
  with Cons w show ?case by (cases ws) auto
qed simp

lemma path_join_all_names: "ws \<noteq> [] \<Longrightarrow> \<forall>w \<in> set ws. path_name w \<Longrightarrow> path_join_all ws = Inr (join ''/'' ws)"
proof (cases ws)
  case (Cons v vs)
  assume "\<forall>w \<in> set ws. path_name w"
  with Cons have v: "v \<noteq> []" "slash \<notin> set v" "\<forall>w \<in> set vs. path_name w" by (auto simp: path_name_def)
  then have "last v \<noteq> slash" using last_in_set by metis
  with v Cons foldl_path_join show ?thesis by simp
qed simp

lemma join_snoc: "ws \<noteq> [] \<Longrightarrow> join sep (ws @ [w]) = join sep ws @ sep @ w"
proof (induction ws)
  case (Cons v ws)
  then show ?case by (cases "ws = []") (auto simp: join_Cons_ne)
qed simp

lemma modular_path_names:
  "ws \<noteq> [] \<Longrightarrow> \<forall>w \<in> set ws. path_name w \<and> w \<noteq> ''ns3'' \<Longrightarrow>
    modular_path l (d @ ''/ns3/'' @ join ''/'' ws) = path_join_all (ws @ l)"
proof (induction ws arbitrary: l rule: rev_induct)
  case (snoc w ws)
  have w: "slash \<notin> set w" "w \<noteq> ''ns3''" using snoc.prems by (auto simp: path_name_def)
  show ?case
  proof (cases "ws = []")
    case True
    with modular_path_component [of "d @ ''/ns3''" w l] w modular_path_ns3 [of "w # l" d] show ?thesis by simp
  next
    case False
    let ?u = "d @ ''/ns3/'' @ join ''/'' ws"
    have "last ?u \<noteq> slash" using join_names_last [OF False] snoc.prems(2) by auto
    with modular_path_component [of ?u w l] w snoc.IH [OF False, of "w # l"] snoc.prems(2) False show ?thesis
      by (simp add: join_snoc)
  qed
qed simp

section \<open>Properties\<close>

lemma path_inside_or_outside:
  "get_ns3_relative_path path =
     (if startswith path ''/'' \<and> ''ns3'' \<notin> set (split_on CHR ''/'' path) then None
      else Some (get_ns3_relative_path_modular path))"
  "get_ns3_relative_path_modular path = Inl ValueError \<longleftrightarrow> startswith path ''/'' \<and> ''ns3'' \<notin> set (split_on CHR ''/'' path)"
  by (cases "''ns3'' \<in> set (split_on CHR ''/'' path)"; cases "startswith path ''/''";
      insert modular_path_outside [of path "[]"] modular_path_inside [of path "[]"];
      simp add: scan_path_modular get_ns3_relative_path_def get_ns3_relative_path_modular_def)+

text \<open>C17. \<open>get_ns3_relative_path\<close> of \<open>ns3modulescan.py\<close> never returns for an absolute path without a component
  \<open>ns3\<close>, where the comparison with the former directory in \<open>ns3modulescan-modular.py\<close> makes it raise
  \<open>ValueError\<close>; on every other path both give the same result.\<close>

theorem relative_paths_agree:
  "get_ns3_relative_path path =
     (case get_ns3_relative_path_modular path of
        Inl e \<Rightarrow> (if e = ValueError then None else Some (Inl e))
      | Inr name \<Rightarrow> Some (Inr name)) \<and>
   (get_ns3_relative_path_modular path = Inl ValueError) = (startswith path ''/'' \<and> ''ns3'' \<notin> set (split_on CHR ''/'' path))"
  using path_inside_or_outside [of path] by (cases "get_ns3_relative_path_modular path") (auto split: if_splits)

text \<open>The name of a header is its path below the last directory \<open>ns3\<close>: for any directory and any names
  that are not \<open>ns3\<close> it is got back from the path they form.\<close>

theorem header_name_recovered:
  assumes "ws \<noteq> []" and "\<forall>w \<in> set ws. path_name w \<and> w \<noteq> ''ns3''"
  shows "get_ns3_relative_path (d @ ''/ns3/'' @ join ''/'' ws) = Some (Inr (join ''/'' ws))"
  using assms modular_path_names [OF assms, of "[]" d] path_join_all_names [OF assms(1)]
  by (simp add: get_ns3_relative_path_def scan_path_modular)

theorem header_name_recovered_witness:
  "get_ns3_relative_path ''/build/ns3/ns3/packet.h'' = Some (Inr ''packet.h'')"
  using header_name_recovered [of "[''packet.h'']" "''/build/ns3''"] by (simp add: path_name_def)

end
