(* ===== verification/Module_Scan.thy ===== *)
theory Module_Scan
  imports Module_Path Topsort "HOL-Library.List_Lexorder" "HOL-Library.Char_ord"
begin

text \<open>
  \<open>ns3modulescan.py\<close> and \<open>ns3modulescan-modular.py\<close>: the hook that annotates a declaration before pybindgen wraps it,
  and the sections the wrappers of a module are written to.  A declaration of \<open>pygccxml\<close> is a record of what the
  hook reads of it; what \<open>templates.args\<close> and \<open>find_declaration_from_name\<close> say of a template is part of it.
\<close>

section \<open>Declarations and annotations\<close>

datatype decl_kind = Member_Function | Free_Function | Constructor | Other_Call | Class_Decl | Enumeration | Other_Decl

record cpp_decl =
  kind :: decl_kind
  decl_name :: string
  parent_name :: string
  decl_string :: string
  shown :: string
  template_args :: "string list"
  default_values :: "string option list"
  file_name :: string
  template_files :: "string option list option"

datatype annotation = None_Value | True_Value | Text string

type_synonym annotations = "(string, annotation) dict"
type_synonym param_annotations = "(string, (string, string) dict) dict"

text \<open>An entry of \<open>type_annotations\<close>: the key \<open>params\<close>, if it is there, and the others.\<close>

record table_entry =
  plain :: annotations
  params :: "param_annotations option"

type_synonym table = "(string, table_entry) dict"

definition type_annotations :: table where
  "type_annotations =
   [
    (''::ns3::AttributeChecker'',
     \<lparr>plain = [(''automatic_type_narrowing'', Text ''true''), (''allow_subclassing'', Text ''false'')],
      params = None\<rparr>),
    (''::ns3::AttributeValue'',
     \<lparr>plain = [(''automatic_type_narrowing'', Text ''true''), (''allow_subclassing'', Text ''false'')],
      params = None\<rparr>),
    (''::ns3::CommandLine'',
     \<lparr>plain = [(''allow_subclassing'', Text ''true'')],
      params = None\<rparr>),
    (''::ns3::NscTcpL4Protocol'',
     \<lparr>plain = [(''ignore'', Text ''true'')],
      params = None\<rparr>),
    (''ns3::RandomVariable::RandomVariable(ns3::RandomVariableBase const & variable) [constructor]'',
     \<lparr>plain = [(''ignore'', None_Value)],
      params = None\<rparr>),
    (''ns3::RandomVariableBase * ns3::RandomVariable::Peek() const [member function]'',
     \<lparr>plain = [(''ignore'', None_Value)],
      params = None\<rparr>),
    (''void ns3::RandomVariable::GetSeed(uint32_t * seed) const [member function]'',
     \<lparr>plain = [],
      params = Some [(''seed'', [(''direction'', ''out''), (''array_length'', ''6'')])]\<rparr>),
    (''bool ns3::TypeId::LookupAttributeByName(std::string name, ns3::TypeId::AttributeInformation * info) const [member function]'',
     \<lparr>plain = [],
      params = Some [(''info'', [(''transfer_ownership'', ''false'')])]\<rparr>),
    (''static bool ns3::TypeId::LookupByNameFailSafe(std::string name, ns3::TypeId * tid) [member function]'',
     \<lparr>plain = [(''ignore'', None_Value)],
      params = None\<rparr>),
    (''bool ns3::TraceSourceAccessor::ConnectWithoutContext(ns3::ObjectBase * obj, ns3::CallbackBase const & cb) const [member function]'',
     \<lparr>plain = [],
      params = Some [(''obj'', [(''transfer_ownership'', ''false'')])]\<rparr>),
    (''bool ns3::TraceSourceAccessor::Connect(ns3::ObjectBase * obj, std::string context, ns3::CallbackBase const & cb) const [member function]'',
     \<lparr>plain = [],
      params = Some [(''obj'', [(''transfer_ownership'', ''false'')])]\<rparr>),
    (''bool ns3::TraceSourceAccessor::DisconnectWithoutContext(ns3::ObjectBase * obj, ns3::CallbackBase const & cb) const [member function]'',
     \<lparr>plain = [],
      params = Some [(''obj'', [(''transfer_ownership'', ''false'')])]\<rparr>),
    (''bool ns3::TraceSourceAccessor::Disconnect(ns3::ObjectBase * obj, std::string context, ns3::CallbackBase const & cb) const [member function]'',
     \<lparr>plain = [],
      params = Some [(''obj'', [(''transfer_ownership'', ''false'')])]\<rparr>),
    (''bool ns3::AttributeAccessor::Set(ns3::ObjectBase * object, ns3::AttributeValue const & value) const [member function]'',
     \<lparr>plain = [],
      params = Some [(''object'', [(''transfer_ownership'', ''false'')])]\<rparr>),
    (''ns3::EmpiricalVariable::EmpiricalVariable(ns3::RandomVariableBase const & variable) [constructor]'',
     \<lparr>plain = [(''ignore'', None_Value)],
      params = None\<rparr>),
    (''static ns3::AttributeList * ns3::AttributeList::GetGlobal() [member function]'',
     \<lparr>plain = [(''caller_owns_return'', Text ''false'')],
      params = None\<rparr>),
    (''void ns3::CommandLine::Parse(int argc, char * * argv) const [member function]'',
     \<lparr>plain = [(''ignore'', None_Value)],
      params = None\<rparr>),
    (''extern void ns3::PythonCompleteConstruct(ns3::Ptr<ns3::Object> object, ns3::TypeId typeId, ns3::AttributeList const & attributes) [free function]'',
     \<lparr>plain = [(''ignore'', None_Value)],
      params = None\<rparr>),
    (''ns3::Ptr<ns3::Ipv4RoutingProtocol> ns3::Ipv4ListRouting::GetRoutingProtocol(uint32_t index, int16_t & priority) const [member function]'',
     \<lparr>plain = [],
      params = Some [(''priority'', [(''direction'', ''out'')])]\<rparr>),
    (''ns3::Ipv4RoutingTableEntry * ns3::GlobalRouter::GetInjectedRoute(uint32_t i) [member function]'',
     \<lparr>plain = [],
      params = Some [(''return'', [(''caller_owns_return'', ''false'')])]\<rparr>),
    (''ns3::Ipv4RoutingTableEntry * ns3::Ipv4GlobalRouting::GetRoute(uint32_t i) const [member function]'',
     \<lparr>plain = [],
      params = Some [(''return'', [(''caller_owns_return'', ''false'')])]\<rparr>),
    (''::ns3::TestCase'',
     \<lparr>plain = [(''ignore'', Text ''true'')],
      params = None\<rparr>),
    (''::ns3::TestRunner'',
     \<lparr>plain = [(''ignore'', Text ''true'')],
      params = None\<rparr>),
    (''::ns3::TestSuite'',
     \<lparr>plain = [(''ignore'', Text ''true'')],
      params = None\<rparr>)
   ]"

text \<open>\<open>d.update(e)\<close>.\<close>

definition dict_update :: "('k, 'v) dict \<Rightarrow> ('k, 'v) dict \<Rightarrow> ('k, 'v) dict" where
  "dict_update e d = fold (\<lambda>(k, v). dict_set k v) e d"

section \<open>pre\_scan\_hook\<close>

definition mark_get_object :: "cpp_decl \<Rightarrow> annotations \<Rightarrow> annotations" where
  "mark_get_object d g =
     (if kind d = Member_Function \<and> parent_name d = ''Object'' \<and> decl_name d = ''GetObject'' \<and> template_args d = [''ns3::Object'']
      then dict_set ''template_instance_names'' (Text ''ns3::Object=>GetObject'') g else g)"

definition mark_simulator :: "cpp_decl \<Rightarrow> annotations \<Rightarrow> annotations" where
  "mark_simulator d g =
     (let m = (kind d = Member_Function \<and> parent_name d = ''Simulator'');
          g1 = (if m \<and> startswith (decl_name d) ''Schedule'' then dict_set ''ignore'' None_Value g else g)
      in if m \<and> decl_name d = ''Run'' then dict_set ''ignore'' True_Value g1 else g1)"

definition fix_default :: "string option \<Rightarrow> string option" where
  "fix_default v =
     (if v = Some ''ns3::MilliSeconds( )'' then Some ''ns3::MilliSeconds(0)''
      else if v = Some ''ns3::Seconds( )'' then Some ''ns3::Seconds(0)'' else v)"

definition fix_default_values :: "cpp_decl \<Rightarrow> cpp_decl" where
  "fix_default_values d =
     (if kind d \<in> {Member_Function, Free_Function, Constructor, Other_Call}
      then d\<lparr>default_values := map fix_default (default_values d)\<rparr> else d)"

definition mark_class :: "table \<Rightarrow> cpp_decl \<Rightarrow> annotations \<Rightarrow> annotations" where
  "mark_class t d g =
     (if startswith (decl_string d) ''::ns3::SimpleRefCount<'' then
        dict_set ''automatic_type_narrowing'' (Text ''true'')
          (dict_set ''peekref_method'' (Text ''GetReferenceCount'')
            (dict_set ''decref_method'' (Text ''Unref'') (dict_set ''incref_method'' (Text ''Ref'') g)))
      else if startswith (decl_string d) ''::ns3::Callback<'' then dict_set ''ignore'' None_Value g
      else if startswith (decl_string d) ''::ns3::TracedCallback<'' then dict_set ''ignore'' None_Value g
      else if startswith (decl_string d) ''::ns3::Ptr<'' then dict_set ''ignore'' None_Value g
      else (case map_of t (decl_string d) of None \<Rightarrow> g | Some a \<Rightarrow> dict_update (plain a) g))"

text \<open>The annotations of the table for a function; \<open>del annotations['params']\<close> changes the table.\<close>

definition mark_call :: "table \<Rightarrow> cpp_decl \<Rightarrow> annotations \<Rightarrow> param_annotations \<Rightarrow> table \<times> annotations \<times> param_annotations" where
  "mark_call t d g ps =
     (case map_of t (shown d) of
        None \<Rightarrow> (t, g, ps)
      | Some a \<Rightarrow>
          (dict_set (shown d) (a\<lparr>params := None\<rparr>) t, dict_update (plain a) g,
           case params a of None \<Rightarrow> ps | Some qs \<Rightarrow> dict_update qs ps))"

definition mark_function :: "table \<Rightarrow> cpp_decl \<Rightarrow> annotations \<Rightarrow> param_annotations \<Rightarrow> table \<times> annotations \<times> param_annotations" where
  "mark_function t d g ps =
     (if kind d = Free_Function \<and> decl_name d = ''PeekPointer'' then (t, dict_set ''ignore'' None_Value g, ps)
      else if kind d \<in> {Free_Function, Member_Function, Constructor} then mark_call t d g ps else (t, g, ps))"

text \<open>What one call of the hook leaves: the table and the annotations of the declaration, whose default values it may change.\<close>

record hook_result =
  annotations_table :: table
  global_annotations :: annotations
  parameter_annotations :: param_annotations
  declared :: cpp_decl

definition annotate :: "table \<Rightarrow> cpp_decl \<Rightarrow> annotations \<Rightarrow> param_annotations \<Rightarrow> hook_result" where
  "annotate t d g ps =
     (let d' = fix_default_values d; g1 = mark_simulator d (mark_get_object d g)
      in if kind d = Class_Decl then \<lparr>annotations_table = t, global_annotations = mark_class t d g1, parameter_annotations = ps, declared = d'\<rparr>
         else case mark_function t d g1 ps of (t', g', ps') \<Rightarrow>
           \<lparr>annotations_table = t', global_annotations = g', parameter_annotations = ps', declared = d'\<rparr>)"

definition pre_scan_hook :: "table \<Rightarrow> cpp_decl \<Rightarrow> annotations \<Rightarrow> param_annotations \<Rightarrow> hook_result res option" where
  "pre_scan_hook t d g ps =
     map_option (\<lambda>r. bind_res r (\<lambda>ns3_header.
       Inr (annotate t d (dict_set ''pygen_comment'' (Text (ns3_header @ '': '' @ shown d)) g) ps)))
       (get_ns3_relative_path (file_name d))"

section \<open>PreScanHook of the modular scanner\<close>

text \<open>The modules of the files that declare the arguments of a template.\<close>

fun template_modules :: "(string, string) dict \<Rightarrow> string option list \<Rightarrow> string list res" where
  "template_modules headers_map [] = Inr []"
| "template_modules headers_map (None # fs) = template_modules headers_map fs"
| "template_modules headers_map (Some f # fs) =
     (case get_ns3_relative_path_modular f of
        Inl e \<Rightarrow> if e = ValueError then template_modules headers_map fs else Inl e
      | Inr h \<Rightarrow> bind_res (dict_get headers_map h) (\<lambda>m. bind_res (template_modules headers_map fs) (\<lambda>ms. Inr (m # ms))))"

definition dashes_to_underscores :: "string \<Rightarrow> string" where
  "dashes_to_underscores s = map (\<lambda>c. if c = CHR ''-'' then CHR ''_'' else c) s"

definition class_module :: "(string, string) dict \<Rightarrow> string \<Rightarrow> string \<Rightarrow> cpp_decl \<Rightarrow> string res" where
  "class_module headers_map this_module definition_module d =
     (case template_files d of
        None \<Rightarrow> Inr definition_module
      | Some fs \<Rightarrow> bind_res (template_modules headers_map fs) (\<lambda>ms.
          Inr (if this_module \<in> set ms then this_module else definition_module)))"

definition modular_class :: "table \<Rightarrow> cpp_decl \<Rightarrow> string \<Rightarrow> string \<Rightarrow> annotations \<Rightarrow> annotations" where
  "modular_class t d this_module definition_module g =
     mark_class t d (if definition_module \<noteq> this_module
       then dict_set ''import_from_module'' (Text (''ns.'' @ dashes_to_underscores definition_module)) g else g)"

definition modular_rest ::
  "table \<Rightarrow> cpp_decl \<Rightarrow> string \<Rightarrow> string \<Rightarrow> annotations \<Rightarrow> param_annotations \<Rightarrow> table \<times> annotations \<times> param_annotations" where
  "modular_rest t d this_module definition_module g ps =
     (if kind d = Enumeration then
        (t, if definition_module \<noteq> this_module then dict_set ''import_from_module'' (Text (''ns.'' @ definition_module)) g else g, ps)
      else if kind d = Free_Function \<and> definition_module \<noteq> this_module then (t, dict_set ''ignore'' None_Value g, ps)
      else mark_function t d g ps)"

text \<open>\<open>module_repr\<close> is the module's name as \<open>%r\<close> shows it in the comment.\<close>

definition modular_hook ::
  "(string \<Rightarrow> string) \<Rightarrow> (string, string) dict \<Rightarrow> string \<Rightarrow> table \<Rightarrow> cpp_decl \<Rightarrow> annotations \<Rightarrow> param_annotations \<Rightarrow> hook_result res" where
  "modular_hook module_repr headers_map this_module t d g ps =
     (case get_ns3_relative_path_modular (file_name d) of
        Inl e \<Rightarrow> if e = ValueError
          then Inr \<lparr>annotations_table = t, global_annotations = g, parameter_annotations = ps, declared = d\<rparr> else Inl e
      | Inr ns3_header \<Rightarrow>
          bind_res (dict_get headers_map ns3_header) (\<lambda>definition_module.
            let g1 = dict_set ''pygen_comment'' (Text (ns3_header @ '' (module '' @ module_repr definition_module @ ''): '' @ shown d)) g;
                g2 = mark_simulator d (mark_get_object d g1); d' = fix_default_values d
            in if kind d = Class_Decl then
                 bind_res (class_module headers_map this_module definition_module d) (\<lambda>m.
                   Inr \<lparr>annotations_table = t, global_annotations = modular_class t d this_module m g2, parameter_annotations = ps, declared = d'\<rparr>)
               else case modular_rest t d this_module definition_module g2 ps of (t', g', ps') \<Rightarrow>
                 Inr \<lparr>annotations_table = t', global_annotations = g', parameter_annotations = ps', declared = d'\<rparr>))"

section \<open>Sections\<close>

type_synonym modules = "(string, string list \<times> string list) dict"

record scan =
  sections :: "string list"
  headers_map :: "(string, string) dict"
  precedences :: "(string, nat) dict"

definition section_name :: "string \<Rightarrow> string" where
  "section_name m = ''ns3_module_'' @ dashes_to_underscores m"

text \<open>The pairs (dependency, module) in the order of the sorted names.\<close>

definition module_pairs :: "modules \<Rightarrow> (string \<times> string) list" where
  "module_pairs ms = concat (map (\<lambda>m. map (\<lambda>dep. (dep, m)) (sort (fst (the (map_of ms m))))) (sort (dict_keys ms)))"

definition add_section :: "modules \<Rightarrow> scan \<Rightarrow> nat \<times> string \<Rightarrow> string topsort_error + scan" where
  "add_section ms s pm =
     (case pm of (prec, m) \<Rightarrow>
        (case map_of ms m of
           None \<Rightarrow> Inl (PyError KeyError)
         | Some (deps, headers) \<Rightarrow>
             Inr (s\<lparr>sections := sections s @ [section_name m],
                    headers_map := fold (\<lambda>h. dict_set h (section_name m)) headers (headers_map s),
                    precedences := dict_set (section_name m) prec (precedences s)\<rparr>)))"

definition scan_sections :: "modules \<Rightarrow> string topsort_error + scan" where
  "scan_sections ms =
     bind_res (topsort (module_pairs ms)) (\<lambda>sorted.
       run_steps (add_section ms) \<lparr>sections = [''__main__''], headers_map = [], precedences = []\<rparr> (enumerate 0 sorted))"

definition classify :: "scan \<Rightarrow> cpp_decl \<Rightarrow> string" where
  "classify s d = (case map_of (headers_map s) (basename (file_name d)) of Some n \<Rightarrow> n | None \<Rightarrow> ''__main__'')"

definition get_section_precedence :: "scan \<Rightarrow> string \<Rightarrow> int res" where
  "get_section_precedence s n =
     (if n = ''__main__'' then Inr (- 1) else bind_res (dict_get (precedences s) n) (\<lambda>p. Inr (int p)))"

section \<open>Lemmas\<close>

lemma map_of_fold_set: "map_of (fold (\<lambda>(k, v). dict_set k v) e d) k = (if k \<in> fst ` set e then map_of (rev e) k else map_of d k)"
proof (induction e arbitrary: d)
  case (Cons x e)
  obtain a b where x: "x = (a, b)" by (cases x)
  have "map_of (rev e) k = None \<longleftrightarrow> k \<notin> fst ` set e" by (simp add: map_of_eq_None_iff)
  then show ?case
    unfolding x using Cons.IH [of "dict_set a b d"] by (auto simp: map_add_def split: option.splits)
qed simp

lemma dict_update_keys [simp]: "fst ` set (dict_update e d) = fst ` set e \<union> fst ` set d"
proof -
  have "fst ` set (fold (\<lambda>(k, v). dict_set k v) e d) = fst ` set e \<union> fst ` set d"
    by (induction e arbitrary: d) (simp_all add: case_prod_beta)
  then show ?thesis by (simp add: dict_update_def)
qed

lemma map_of_rev_ok: "dict_ok e \<Longrightarrow> map_of (rev e) = map_of e"
proof (induction e)
  case (Cons x e)
  then have "map_of e (fst x) = None" by (simp add: dict_ok_def map_of_eq_None_iff)
  with Cons show ?case by (cases x) (auto simp: dict_ok_def map_add_def fun_eq_iff split: option.splits)
qed simp

lemma dict_update_distinct:
  "dict_ok e \<Longrightarrow> map_of (dict_update e []) = map_of e"
  by (rule ext) (simp add: dict_update_def map_of_fold_set map_of_rev_ok map_of_eq_None_iff [THEN iffD2])

definition table_ignores :: "table \<Rightarrow> string \<Rightarrow> bool" where
  "table_ignores t k = (case map_of t k of None \<Rightarrow> False | Some a \<Rightarrow> ''ignore'' \<in> set (dict_keys (plain a)))"

lemma mark_get_object_ignore [simp]: "''ignore'' \<in> fst ` set (mark_get_object d g) \<longleftrightarrow> ''ignore'' \<in> fst ` set g"
  by (simp add: mark_get_object_def)

lemma mark_simulator_ignore [simp]:
  "''ignore'' \<in> fst ` set (mark_simulator d g) \<longleftrightarrow>
    ''ignore'' \<in> fst ` set g \<or>
    kind d = Member_Function \<and> parent_name d = ''Simulator'' \<and> (startswith (decl_name d) ''Schedule'' \<or> decl_name d = ''Run'')"
  by (auto simp: mark_simulator_def Let_def)

lemma mark_class_ignore:
  "''ignore'' \<in> fst ` set (mark_class t d g) \<longleftrightarrow>
    ''ignore'' \<in> fst ` set g \<or>
    \<not> startswith (decl_string d) ''::ns3::SimpleRefCount<'' \<and>
    (startswith (decl_string d) ''::ns3::Callback<'' \<or> startswith (decl_string d) ''::ns3::TracedCallback<'' \<or>
     startswith (decl_string d) ''::ns3::Ptr<'' \<or> table_ignores t (decl_string d))"
  by (simp add: mark_class_def table_ignores_def split: option.splits) blast

lemma mark_call_ignore:
  assumes "mark_call t d g ps = (t', g', ps')"
  shows "''ignore'' \<in> fst ` set g' \<longleftrightarrow> ''ignore'' \<in> fst ` set g \<or> table_ignores t (shown d)"
proof (cases "map_of t (shown d)")
  case None
  with assms show ?thesis by (simp add: mark_call_def table_ignores_def)
next
  case (Some a)
  with assms have "g' = dict_update (plain a) g" by (simp add: mark_call_def)
  then show ?thesis by (simp add: table_ignores_def Some disj_commute)
qed

lemma mark_function_ignore: "mark_function t d g ps = (t', g', ps') \<Longrightarrow>
    ''ignore'' \<in> fst ` set g' \<longleftrightarrow> ''ignore'' \<in> fst ` set g \<or>
      kind d = Free_Function \<and> decl_name d = ''PeekPointer'' \<or>
      kind d \<in> {Free_Function, Member_Function, Constructor} \<and> table_ignores t (shown d)"
  by (simp add: mark_function_def split: if_splits) (auto dest: mark_call_ignore simp del: insert_iff)

lemma pre_scan_hook_result:
  "pre_scan_hook t d g ps = Some (Inr r) \<Longrightarrow>
    \<exists>h. get_ns3_relative_path (file_name d) = Some (Inr h) \<and>
      r = annotate t d (dict_set ''pygen_comment'' (Text (h @ '': '' @ shown d)) g) ps"
  by (auto simp: pre_scan_hook_def bind_res_Inr_iff)

lemma annotate_ignore:
  "''ignore'' \<in> fst ` set (global_annotations (annotate t d g ps)) \<longleftrightarrow>
    ''ignore'' \<in> fst ` set (mark_simulator d g) \<or>
    (if kind d = Class_Decl then ''ignore'' \<in> fst ` set (mark_class t d [])
     else kind d = Free_Function \<and> decl_name d = ''PeekPointer'' \<or>
       kind d \<in> {Free_Function, Member_Function, Constructor} \<and> table_ignores t (shown d))"
proof (cases "kind d = Class_Decl")
  case True
  then show ?thesis by (simp add: annotate_def Let_def mark_class_ignore)
next
  case False
  obtain t' g' ps' where m: "mark_function t d (mark_simulator d (mark_get_object d g)) ps = (t', g', ps')"
    by (metis prod_cases3)
  from mark_function_ignore [OF m] False m show ?thesis by (simp add: annotate_def Let_def)
qed

lemma annotate_function:
  assumes "kind d \<in> {Free_Function, Member_Function, Constructor}" and "\<not> (kind d = Free_Function \<and> decl_name d = ''PeekPointer'')"
  shows "annotations_table (annotate t d g ps) = (case map_of t (shown d) of None \<Rightarrow> t | Some a \<Rightarrow> dict_set (shown d) (a\<lparr>params := None\<rparr>) t)"
    and "parameter_annotations (annotate t d g ps) =
      (case map_of t (shown d) of None \<Rightarrow> ps | Some a \<Rightarrow> (case params a of None \<Rightarrow> ps | Some qs \<Rightarrow> dict_update qs ps))"
  using assms by (auto simp: annotate_def Let_def mark_function_def mark_call_def split: option.splits)

text \<open>The loop over the sorted modules.\<close>

definition owner :: "modules \<Rightarrow> string list \<Rightarrow> string \<Rightarrow> string set" where
  "owner ms ns h = {m \<in> set ns. h \<in> set (snd (the (map_of ms m)))}"

lemma map_of_fold_const: "map_of (fold (\<lambda>h. dict_set h v) hs d) k = (if k \<in> set hs then Some v else map_of d k)"
  by (induction hs arbitrary: d) auto

abbreviation set_precedences :: "nat \<Rightarrow> string list \<Rightarrow> (string, nat) dict \<Rightarrow> (string, nat) dict" where
  "set_precedences k ns \<equiv> fold (\<lambda>(p, n). dict_set (section_name n) p) (enumerate k ns)"

abbreviation set_headers :: "modules \<Rightarrow> string list \<Rightarrow> (string, string) dict \<Rightarrow> (string, string) dict" where
  "set_headers ms ns \<equiv> fold (\<lambda>n. fold (\<lambda>h. dict_set h (section_name n)) (snd (the (map_of ms n)))) ns"

lemma add_sections_run:
  "run_steps (add_section ms) s (enumerate k ns) = Inr s' \<Longrightarrow>
    s' = \<lparr>sections = sections s @ map section_name ns, headers_map = set_headers ms ns (headers_map s),
          precedences = set_precedences k ns (precedences s)\<rparr>"
proof (induction ns arbitrary: k s)
  case (Cons n ns)
  then obtain s1 where step: "add_section ms s (k, n) = Inr s1" and rest: "run_steps (add_section ms) s1 (enumerate (Suc k) ns) = Inr s'"
    by (auto simp: bind_res_Inr_iff)
  from step have "s1 = s\<lparr>sections := sections s @ [section_name n],
      headers_map := fold (\<lambda>h. dict_set h (section_name n)) (snd (the (map_of ms n))) (headers_map s),
      precedences := dict_set (section_name n) k (precedences s)\<rparr>"
    by (auto simp: add_section_def split: option.splits)
  with Cons.IH [OF rest] show ?case by simp
qed simp

lemma add_sections_keys: "run_steps (add_section ms) s (enumerate k ns) = Inr s' \<Longrightarrow> set ns \<subseteq> fst ` set ms"
proof (induction ns arbitrary: k s)
  case (Cons n ns)
  then obtain s1 where step: "add_section ms s (k, n) = Inr s1" and rest: "run_steps (add_section ms) s1 (enumerate (Suc k) ns) = Inr s'"
    by (auto simp: bind_res_Inr_iff)
  from step have "map_of ms n \<noteq> None" by (auto simp: add_section_def split: option.splits)
  then have "n \<in> fst ` set ms" by (metis map_of_eq_None_iff)
  with Cons.IH [OF rest] show ?case by simp
qed simp

lemma set_precedences_other: "x \<notin> section_name ` set ns \<Longrightarrow> map_of (set_precedences k ns d) x = map_of d x"
  by (induction ns arbitrary: k d) auto

lemma set_precedences_nth:
  "inj_on section_name (set ns) \<Longrightarrow> distinct ns \<Longrightarrow> i < length ns \<Longrightarrow>
    map_of (set_precedences k ns d) (section_name (ns ! i)) = Some (k + i)"
proof (induction ns arbitrary: k d i)
  case (Cons n ns)
  show ?case
  proof (cases i)
    case 0
    have "section_name n \<notin> section_name ` set ns" using Cons.prems(1,2) by auto
    with 0 show ?thesis by (simp add: set_precedences_other)
  next
    case (Suc j)
    with Cons.IH [of j "Suc k"] Cons.prems show ?thesis by simp
  qed
qed simp

lemma owner_Cons: "owner ms (n # ns) h = (if h \<in> set (snd (the (map_of ms n))) then {n} else {}) \<union> owner ms ns h"
  by (auto simp: owner_def)

lemma set_headers_other: "owner ms ns h = {} \<Longrightarrow> map_of (set_headers ms ns d) h = map_of d h"
proof (induction ns arbitrary: d)
  case (Cons n ns)
  then have "owner ms ns h = {}" "h \<notin> set (snd (the (map_of ms n)))" by (auto simp: owner_def)
  with Cons.IH show ?case by (simp add: map_of_fold_const)
qed simp

lemma set_headers_owner: "owner ms ns h = {m} \<Longrightarrow> map_of (set_headers ms ns d) h = Some (section_name m)"
proof (induction ns arbitrary: d)
  case Nil
  then show ?case by (simp add: owner_def)
next
  case (Cons n ns)
  show ?case
  proof (cases "owner ms ns h = {m}")
    case True
    with Cons.IH show ?thesis by simp
  next
    case False
    with Cons.prems have "owner ms ns h = {}" "n = m" "h \<in> set (snd (the (map_of ms n)))"
      unfolding owner_Cons by (cases "h \<in> set (snd (the (map_of ms n)))"; simp add: subset_singleton_iff Un_singleton_iff; fail)+
    then show ?thesis by (simp add: set_headers_other map_of_fold_const)
  qed
qed

lemma module_pairs_iff:
  "(dep, m) \<in> set (module_pairs ms) \<longleftrightarrow> m \<in> fst ` set ms \<and> dep \<in> set (fst (the (map_of ms m)))"
proof -
  let ?f = "\<lambda>m. map (\<lambda>dep. (dep, m)) (sort (fst (the (map_of ms m))))"
  have one: "(dep, m) \<in> set (?f x) \<longleftrightarrow> x = m \<and> dep \<in> set (fst (the (map_of ms m)))" for x
    unfolding set_map set_sort by blast
  have "(dep, m) \<in> set (concat (map ?f xs)) \<longleftrightarrow> m \<in> set xs \<and> dep \<in> set (fst (the (map_of ms m)))" for xs
  proof (induction xs)
    case (Cons x xs)
    show ?case unfolding concat.simps list.map set_append Un_iff one Cons.IH by auto
  qed simp
  then have "(dep, m) \<in> set (module_pairs ms) \<longleftrightarrow> m \<in> set (sort (dict_keys ms)) \<and> dep \<in> set (fst (the (map_of ms m)))"
    unfolding module_pairs_def by blast
  then show ?thesis unfolding set_sort set_map .
qed

text \<open>A scan that succeeds has sorted the modules.\<close>

lemma scan_sections_result:
  assumes "scan_sections ms = Inr s"
  obtains ns where "distinct ns" "set ns = nodes (module_pairs ms)" "ordered (module_pairs ms) ns"
    and "sections s = ''__main__'' # map section_name ns" and "headers_map s = set_headers ms ns []"
    and "precedences s = set_precedences 0 ns []" and "set ns \<subseteq> fst ` set ms"
proof -
  from assms obtain ns where t: "topsort (module_pairs ms) = Inr ns"
    and r: "run_steps (add_section ms) \<lparr>sections = [''__main__''], headers_map = [], precedences = []\<rparr> (enumerate 0 ns) = Inr s"
    by (auto simp: scan_sections_def bind_res_Inr_iff)
  from topsort_cases [of "module_pairs ms"] t
  have n: "distinct ns" "set ns = nodes (module_pairs ms)" "ordered (module_pairs ms) ns" by auto
  show thesis by (rule that [OF n]) (use add_sections_run [OF r] add_sections_keys [OF r] in simp_all)
qed

lemma owner_single:
  assumes "set ns \<subseteq> fst ` set ms" and "\<forall>n h. map_of ms n = Some h \<longrightarrow> b \<in> set (snd h) \<longleftrightarrow> n = m"
  shows "owner ms ns b = (if m \<in> set ns then {m} else {})"
proof -
  have "b \<in> set (snd (the (map_of ms n))) \<longleftrightarrow> n = m" if "n \<in> set ns" for n
  proof -
    from that assms(1) have "map_of ms n \<noteq> None" by (auto simp: map_of_eq_None_iff)
    then obtain h where "map_of ms n = Some h" by blast
    with assms(2) [rule_format, OF this] show ?thesis by simp
  qed
  then show ?thesis by (auto simp: owner_def)
qed

lemma section_not_main: "section_name m \<noteq> ''__main__''"
  by (simp add: section_name_def)

lemma precedence_of_header:
  assumes "precedences s = set_precedences 0 ns []" and "headers_map s = set_headers ms ns []"
    and "owner ms ns (basename (file_name d)) = {ns ! i}" and "inj_on section_name (set ns)" and "distinct ns" and "i < length ns"
  shows "get_section_precedence s (classify s d) = Inr (int i)"
proof -
  have c: "classify s d = section_name (ns ! i)"
    using set_headers_owner [OF assms(3), of "[]"] by (simp add: assms(2) classify_def)
  have "map_of (precedences s) (section_name (ns ! i)) = Some i"
    using set_precedences_nth [OF assms(4-6), of 0 "[]"] by (simp add: assms(1))
  then show ?thesis by (simp add: c get_section_precedence_def section_not_main dict_get_def)
qed

lemma template_modules_set:
  "template_modules hm fs = Inr ms \<Longrightarrow>
    m \<in> set ms \<longleftrightarrow> (\<exists>f h. Some f \<in> set fs \<and> get_ns3_relative_path_modular f = Inr h \<and> map_of hm h = Some m)"
proof (induction hm fs arbitrary: ms rule: template_modules.induct)
  case (3 hm f fs)
  show ?case
  proof (cases "get_ns3_relative_path_modular f")
    case (Inl e)
    with "3.prems" have "template_modules hm fs = Inr ms" "e = ValueError" by (auto split: if_splits)
    with "3.IH"(1) [OF Inl] Inl show ?thesis by auto
  next
    case (Inr h)
    with "3.prems" obtain n ns where n: "map_of hm h = Some n" and ns: "template_modules hm fs = Inr ns" "ms = n # ns"
      by (auto simp: bind_res_Inr_iff dict_get_Inr_iff)
    with "3.IH"(2) [OF Inr ns(1)] Inr show ?thesis by auto
  qed
qed auto

definition no_import :: "table \<Rightarrow> bool" where
  "no_import t = list_all (\<lambda>(k, a). ''import_from_module'' \<notin> set (dict_keys (plain a))) t"

lemma dict_update_other: "k \<notin> fst ` set e \<Longrightarrow> map_of (dict_update e d) k = map_of d k"
  by (simp add: dict_update_def map_of_fold_set)

lemma mark_class_import: "no_import t \<Longrightarrow> map_of (mark_class t d g) ''import_from_module'' = map_of g ''import_from_module''"
  by (auto simp: mark_class_def no_import_def list_all_iff dict_update_other split: option.splits dest!: map_of_SomeD)

lemma marks_import [simp]:
  "map_of (mark_simulator d g) ''import_from_module'' = map_of g ''import_from_module''"
  "map_of (mark_get_object d g) ''import_from_module'' = map_of g ''import_from_module''"
  by (simp_all add: mark_simulator_def mark_get_object_def Let_def)

section \<open>Properties\<close>

text \<open>The hook tells pybindgen to ignore a declaration that had no annotations exactly when it is \<open>Simulator::Run\<close> or a
  \<open>Simulator::Schedule\<close> function, \<open>PeekPointer\<close>, a callback, traced callback or pointer class, or the table says so;
  instances of \<open>SimpleRefCount\<close> are never ignored.\<close>

theorem ignored_iff:
  assumes "pre_scan_hook t d [] [] = Some (Inr r)"
  shows "''ignore'' \<in> set (dict_keys (global_annotations r)) \<longleftrightarrow>
    (if kind d = Class_Decl then
       \<not> startswith (decl_string d) ''::ns3::SimpleRefCount<'' \<and>
       (startswith (decl_string d) ''::ns3::Callback<'' \<or> startswith (decl_string d) ''::ns3::TracedCallback<'' \<or>
        startswith (decl_string d) ''::ns3::Ptr<'' \<or> table_ignores t (decl_string d))
     else
       kind d = Member_Function \<and> parent_name d = ''Simulator'' \<and> (startswith (decl_name d) ''Schedule'' \<or> decl_name d = ''Run'') \<or>
       kind d = Free_Function \<and> decl_name d = ''PeekPointer'' \<or>
       kind d \<in> {Free_Function, Member_Function, Constructor} \<and> table_ignores t (shown d))"
proof -
  from pre_scan_hook_result [OF assms] obtain g where r: "r = annotate t d g []" and g: "''ignore'' \<notin> fst ` set g" by force
  show ?thesis unfolding r list.set_map annotate_ignore mark_simulator_ignore mark_class_ignore using g by simp
qed

definition sample_decl :: cpp_decl where
  "sample_decl = \<lparr>kind = Member_Function, decl_name = ''Stop'', parent_name = ''Simulator'', decl_string = [],
     shown = ''static void ns3::Simulator::Stop() [member function]'', template_args = [], default_values = [Some ''ns3::Seconds( )''],
     file_name = ''/ns3/simulator.h'', template_files = None\<rparr>"

definition seed_decl :: cpp_decl where
  "seed_decl = sample_decl\<lparr>decl_name := ''GetSeed'', parent_name := ''RandomVariable'',
     shown := ''void ns3::RandomVariable::GetSeed(uint32_t * seed) const [member function]''\<rparr>"

text \<open>The results of the hook are evaluated in the witnesses.\<close>

definition hook_value :: "table \<Rightarrow> cpp_decl \<Rightarrow> hook_result" where
  "hook_value t d = annotate t d [(''pygen_comment'', Text (''simulator.h: '' @ shown d))] []"

lemma simulator_header: "get_ns3_relative_path ''/ns3/simulator.h'' = Some (Inr ''simulator.h'')"
proof -
  have "get_ns3_relative_path_modular ''/ns3/simulator.h'' = Inr ''simulator.h''" by code_simp
  moreover have "''ns3'' \<in> set (split_on CHR ''/'' ''/ns3/simulator.h'')" by simp
  ultimately show ?thesis
    using scan_path_modular [of "[]" "''/ns3/simulator.h''"]
    by (simp add: get_ns3_relative_path_def get_ns3_relative_path_modular_def)
qed

lemma hook_value: "file_name d = ''/ns3/simulator.h'' \<Longrightarrow> pre_scan_hook t d [] [] = Some (Inr (hook_value t d))"
  by (simp add: pre_scan_hook_def simulator_header hook_value_def)

theorem ignored_iff_witness:
  "''ignore'' \<notin> set (dict_keys (global_annotations (hook_value type_annotations sample_decl)))"
proof -
  have "file_name sample_decl = ''/ns3/simulator.h''" by (simp add: sample_decl_def)
  from ignored_iff [OF hook_value [OF this]] have
    "''ignore'' \<in> set (dict_keys (global_annotations (hook_value type_annotations sample_decl))) \<longleftrightarrow> table_ignores type_annotations (shown sample_decl)"
    by (simp add: sample_decl_def)
  moreover have "\<not> table_ignores type_annotations (shown sample_decl)" by code_simp
  ultimately show ?thesis by simp
qed

text \<open>The table's annotations of the parameters of a function are for one declaration only: the first one gets them, and
  because they are deleted from the table that all calls share, another one with the same text gets none.\<close>

theorem params_used_once:
  assumes "kind d \<in> {Free_Function, Member_Function, Constructor}" and "kind e \<in> {Free_Function, Member_Function, Constructor}"
    and "decl_name d \<noteq> ''PeekPointer''" and "decl_name e \<noteq> ''PeekPointer''" and "shown e = shown d"
    and "map_of t (shown d) = Some a" and "params a = Some qs" and "dict_ok qs"
    and "pre_scan_hook t d [] [] = Some (Inr r)" and "pre_scan_hook (annotations_table r) e [] [] = Some (Inr r')"
  shows "map_of (parameter_annotations r) = map_of qs" and "parameter_annotations r' = []"
proof -
  from pre_scan_hook_result [OF assms(9)] obtain g where r: "r = annotate t d g []" by blast
  from pre_scan_hook_result [OF assms(10)] obtain g' where r': "r' = annotate (annotations_table r) e g' []" by blast
  show "map_of (parameter_annotations r) = map_of qs"
    using assms(1,3,6-8) unfolding r by (subst annotate_function(2)) (simp_all add: dict_update_distinct)
  have "annotations_table r = dict_set (shown d) (a\<lparr>params := None\<rparr>) t"
    using assms(1,3,6) unfolding r by (subst annotate_function(1)) simp_all
  with assms(2,4,5) show "parameter_annotations r' = []"
    unfolding r' by (subst annotate_function(2)) simp_all
qed

theorem params_used_once_witness:
  "map_of (parameter_annotations (hook_value type_annotations seed_decl)) ''seed'' = Some [(''direction'', ''out''), (''array_length'', ''6'')] \<and>
   parameter_annotations (hook_value (annotations_table (hook_value type_annotations seed_decl)) seed_decl) = []"
proof -
  have f: "file_name seed_decl = ''/ns3/simulator.h''" by (simp add: seed_decl_def sample_decl_def)
  have a: "map_of type_annotations (shown seed_decl) = Some \<lparr>plain = [], params = Some [(''seed'', [(''direction'', ''out''), (''array_length'', ''6'')])]\<rparr>"
    by code_simp
  have k: "kind seed_decl \<in> {Free_Function, Member_Function, Constructor}" "decl_name seed_decl \<noteq> ''PeekPointer''"
    by (simp_all add: seed_decl_def sample_decl_def)
  have q: "params \<lparr>plain = [], params = Some [(''seed'', [(''direction'', ''out''), (''array_length'', ''6'')])]\<rparr> =
      Some [(''seed'', [(''direction'', ''out''), (''array_length'', ''6'')])]"
    "dict_ok [(''seed'', [(''direction'', ''out''), (''array_length'', ''6'')])]" by (simp_all add: dict_ok_def)
  from params_used_once [OF k(1) k(1) k(2) k(2) refl a q hook_value [OF f] hook_value [OF f]]
  show ?thesis by simp
qed

text \<open>The modular scanner marks a class or an enumeration of another module as imported from there, unless it is an instance of
  a template with an argument that this module declares.  In the name of the module the dashes become underscores for a class
  only, so that an enumeration of a module like \<open>point-to-point\<close> is imported from a name that is not one in Python.\<close>

theorem imported_from_module:
  assumes "modular_hook module_repr hm this_module t d [] [] = Inr r" and "no_import t"
    and "get_ns3_relative_path_modular (file_name d) = Inr h" and "map_of hm h = Some m"
  shows "kind d = Enumeration \<Longrightarrow> map_of (global_annotations r) ''import_from_module'' =
      (if m = this_module then None else Some (Text (''ns.'' @ m)))"
    and "kind d = Class_Decl \<Longrightarrow> map_of (global_annotations r) ''import_from_module'' =
      (if m = this_module \<or>
          (\<exists>fs f h'. template_files d = Some fs \<and> Some f \<in> set fs \<and> get_ns3_relative_path_modular f = Inr h' \<and> map_of hm h' = Some this_module)
       then None else Some (Text (''ns.'' @ dashes_to_underscores m)))"
proof -
  assume "kind d = Enumeration"
  with assms show "map_of (global_annotations r) ''import_from_module'' = (if m = this_module then None else Some (Text (''ns.'' @ m)))"
    by (auto simp: modular_hook_def Let_def dict_get_def modular_rest_def)
next
  assume k: "kind d = Class_Decl"
  with assms obtain m' where c: "class_module hm this_module m d = Inr m'"
    and r: "map_of (global_annotations r) ''import_from_module'' = (if m' \<noteq> this_module then Some (Text (''ns.'' @ dashes_to_underscores m')) else None)"
    by (auto simp: modular_hook_def Let_def dict_get_def modular_class_def mark_class_import bind_res_Inr_iff)
  from c have "m' = (if (\<exists>fs f h'. template_files d = Some fs \<and> Some f \<in> set fs \<and> get_ns3_relative_path_modular f = Inr h' \<and> map_of hm h' = Some this_module)
      then this_module else m)"
    by (auto simp: class_module_def bind_res_Inr_iff template_modules_set split: option.splits)
  with r show "map_of (global_annotations r) ''import_from_module'' =
      (if m = this_module \<or>
          (\<exists>fs f h'. template_files d = Some fs \<and> Some f \<in> set fs \<and> get_ns3_relative_path_modular f = Inr h' \<and> map_of hm h' = Some this_module)
       then None else Some (Text (''ns.'' @ dashes_to_underscores m)))"
    by simp
qed

definition mode_decl :: cpp_decl where
  "mode_decl = sample_decl\<lparr>kind := Enumeration, file_name := ''/ns3/channel.h''\<rparr>"

theorem imported_from_module_witness:
  "\<exists>r. modular_hook (\<lambda>m. m) [(''channel.h'', ''point-to-point'')] ''core'' type_annotations mode_decl [] [] = Inr r \<and>
     map_of (global_annotations r) ''import_from_module'' = Some (Text ''ns.point-to-point'')"
proof -
  have h: "get_ns3_relative_path_modular (file_name mode_decl) = Inr ''channel.h''" by code_simp
  have t: "no_import type_annotations" by code_simp
  have k: "kind mode_decl = Enumeration" by (simp add: mode_decl_def)
  obtain r where r: "modular_hook (\<lambda>m. m) [(''channel.h'', ''point-to-point'')] ''core'' type_annotations mode_decl [] [] = Inr r"
    by (simp add: modular_hook_def h dict_get_def k modular_rest_def Let_def)
  from imported_from_module(1) [OF r t h, of "''point-to-point''"] k r show ?thesis by simp
qed

text \<open>The wrappers of a module come after those of the modules it depends on: the section of a header of a
  dependency precedes the section of a header of the module.\<close>

theorem sections_follow_dependencies:
  assumes "scan_sections ms = Inr s" and "map_of ms m = Some (deps, headers)" and "dep \<in> set deps"
    and "inj_on section_name (fst ` set ms)" and "\<forall>n h. map_of ms n = Some h \<longrightarrow> basename (file_name d) \<in> set (snd h) \<longleftrightarrow> n = m"
    and "\<forall>n h. map_of ms n = Some h \<longrightarrow> basename (file_name e) \<in> set (snd h) \<longleftrightarrow> n = dep"
  shows "\<exists>p q. get_section_precedence s (classify s e) = Inr p \<and> get_section_precedence s (classify s d) = Inr q \<and> 0 \<le> p \<and> p < q"
proof (rule scan_sections_result [OF assms(1)])
  fix ns
  assume ns: "distinct ns" "set ns = nodes (module_pairs ms)" "ordered (module_pairs ms) ns" "headers_map s = set_headers ms ns []"
    "precedences s = set_precedences 0 ns []" "set ns \<subseteq> fst ` set ms"
  have inj: "inj_on section_name (set ns)" using assms(4) ns(6) by (rule inj_on_subset)
  have "m \<in> fst ` set ms" using assms(2) by (rule map_of_Some_key)
  with assms(2,3) have e: "(dep, m) \<in> set (module_pairs ms)" by (simp add: module_pairs_iff)
  then have "m \<in> set ns" unfolding ns(2) nodes_def by force
  then obtain j where j: "j < length ns" "ns ! j = m" by (auto simp: in_set_conv_nth)
  with ns(3) e have "dep \<in> set (take j ns)" by (auto simp: ordered_def)
  then obtain i where i: "i < j" "ns ! i = dep" using j(1) by (auto simp: in_set_conv_nth)
  have il: "i < length ns" using i j by simp
  have "owner ms ns (basename (file_name d)) = {ns ! j}" "owner ms ns (basename (file_name e)) = {ns ! i}"
    using owner_single [OF ns(6) assms(5)] owner_single [OF ns(6) assms(6)] i(2) j il nth_mem [OF il] by auto
  with precedence_of_header [OF ns(5,4) _ inj ns(1)] il j(1) i(1) show ?thesis by auto
qed

definition sample_modules :: modules where
  "sample_modules = [(''wifi'', [''network''], [''wifi.h'']), (''tools'', [], [''gnuplot.h'']), (''network'', [], [''node.h''])]"

definition sample_scan :: scan where
  "sample_scan = \<lparr>sections = [''__main__'', ''ns3_module_network'', ''ns3_module_wifi''],
     headers_map = [(''node.h'', ''ns3_module_network''), (''wifi.h'', ''ns3_module_wifi'')],
     precedences = [(''ns3_module_network'', 0), (''ns3_module_wifi'', 1)]\<rparr>"

lemma sample_scan: "scan_sections sample_modules = Inr sample_scan"
  by code_simp

lemma sample_sections: "inj_on section_name (fst ` set sample_modules)"
  by (simp add: sample_modules_def section_name_def dashes_to_underscores_def)

theorem sections_follow_dependencies_witness:
  "\<exists>p q. get_section_precedence sample_scan (classify sample_scan (sample_decl\<lparr>file_name := ''/ns3/node.h''\<rparr>)) = Inr p \<and>
     get_section_precedence sample_scan (classify sample_scan (sample_decl\<lparr>file_name := ''/ns3/wifi.h''\<rparr>)) = Inr q \<and> 0 \<le> p \<and> p < q"
proof (rule sections_follow_dependencies [OF sample_scan _ _ sample_sections])
  show "map_of sample_modules ''wifi'' = Some ([''network''], [''wifi.h''])" by (simp add: sample_modules_def)
  show "''network'' \<in> set [''network'']" by simp
  have b: "basename ''/ns3/wifi.h'' = ''wifi.h''" "basename ''/ns3/node.h'' = ''node.h''" by code_simp+
  show "\<forall>n h. map_of sample_modules n = Some h \<longrightarrow> basename (file_name (sample_decl\<lparr>file_name := ''/ns3/wifi.h''\<rparr>)) \<in> set (snd h) \<longleftrightarrow> n = ''wifi''"
    by (auto simp: sample_modules_def b)
  show "\<forall>n h. map_of sample_modules n = Some h \<longrightarrow> basename (file_name (sample_decl\<lparr>file_name := ''/ns3/node.h''\<rparr>)) \<in> set (snd h) \<longleftrightarrow> n = ''network''"
    by (auto simp: sample_modules_def b)
qed

text \<open>A module without dependencies that no module depends on is not in the graph that is sorted, so that it gets no
  section, and what its headers declare is put into the main section.\<close>

theorem isolated_module_in_main:
  assumes "scan_sections ms = Inr s" and "map_of ms m = Some ([], headers)"
    and "\<forall>n h. map_of ms n = Some h \<longrightarrow> m \<notin> set (fst h)"
    and "\<forall>n h. map_of ms n = Some h \<longrightarrow> basename (file_name d) \<in> set (snd h) \<longleftrightarrow> n = m"
    and "inj_on section_name (fst ` set ms)"
  shows "section_name m \<notin> set (sections s)" and "classify s d = ''__main__''"
proof -
  obtain ns where ns: "set ns = nodes (module_pairs ms)" "sections s = ''__main__'' # map section_name ns"
    "headers_map s = set_headers ms ns []" "set ns \<subseteq> fst ` set ms" by (rule scan_sections_result [OF assms(1)])
  have "m \<notin> set ns"
  proof
    assume "m \<in> set ns"
    then obtain x where "(m, x) \<in> set (module_pairs ms) \<or> (x, m) \<in> set (module_pairs ms)"
      unfolding ns(1) nodes_def by force
    then show False
    proof
      assume "(m, x) \<in> set (module_pairs ms)"
      then have x: "x \<in> fst ` set ms" "m \<in> set (fst (the (map_of ms x)))" by (simp_all add: module_pairs_iff)
      from x(1) have "map_of ms x \<noteq> None" by (auto simp: map_of_eq_None_iff)
      with x(2) assms(3) show False by auto
    qed (simp add: module_pairs_iff assms(2))
  qed
  moreover have "m \<in> fst ` set ms" using assms(2) by (rule map_of_Some_key)
  ultimately have "section_name m \<notin> section_name ` set ns" using assms(5) ns(4) by (auto dest: inj_onD)
  then show "section_name m \<notin> set (sections s)" by (simp add: ns(2) section_not_main)
  have "owner ms ns (basename (file_name d)) = {}" using owner_single [OF ns(4) assms(4)] \<open>m \<notin> set ns\<close> by simp
  then show "classify s d = ''__main__''" by (simp add: classify_def ns(3) set_headers_other)
qed

theorem isolated_module_in_main_witness:
  "section_name ''tools'' \<notin> set (sections sample_scan) \<and>
   classify sample_scan (sample_decl\<lparr>file_name := ''/ns3/gnuplot.h''\<rparr>) = ''__main__''"
proof -
  have b: "basename ''/ns3/gnuplot.h'' = ''gnuplot.h''" by code_simp
  have m: "map_of sample_modules ''tools'' = Some ([], [''gnuplot.h''])"
    and n: "\<forall>n h. map_of sample_modules n = Some h \<longrightarrow> ''tools'' \<notin> set (fst h)"
    and d: "\<forall>n h. map_of sample_modules n = Some h \<longrightarrow>
      basename (file_name (sample_decl\<lparr>file_name := ''/ns3/gnuplot.h''\<rparr>)) \<in> set (snd h) \<longleftrightarrow> n = ''tools''"
    by (auto simp: sample_modules_def b)
  from isolated_module_in_main [OF sample_scan m n d sample_sections] show ?thesis by simp
qed

end
