(* ===== verification/Binding_Types.thy ===== *)
theory Binding_Types
  imports Py_Strings
begin

text \<open>
  \<open>ns3modulegen_core_customizations.py\<close> and \<open>ns3modulegen.py\<close>: the smart pointers among the types of the bindings,
  the classes that call Python functions back, and the classes that are left out when a feature is disabled.
  What pybindgen makes of a type name is a parameter; the C++ text the generator writes is not modelled.
\<close>

section \<open>SmartPointerTransformation\<close>

text \<open>The regular expression \<open>(ns3::|::ns3::|)Ptr<([^>]+)>\s*$\<close>: its second group, if the name matches.\<close>

definition strip_scope :: "string \<Rightarrow> string" where
  "strip_scope name =
     (if startswith name ''ns3::'' then drop 5 name
      else if startswith name ''::ns3::'' then drop 7 name else name)"

definition ptr_argument :: "string \<Rightarrow> string option" where
  "ptr_argument name =
     (let s = strip_scope name; body = drop 4 s; arg = takeWhile (\<lambda>c. c \<noteq> CHR ''>'') body; rest = drop (length arg) body
      in if startswith s ''Ptr<'' \<and> arg \<noteq> [] \<and> rest \<noteq> [] \<and> list_all is_ws (tl rest) then Some arg else None)"

definition endswith :: "string \<Rightarrow> string \<Rightarrow> bool" where
  "endswith s p \<longleftrightarrow> length p \<le> length s \<and> drop (length s - length p) s = p"

definition drop_scope :: "string \<Rightarrow> string" where
  "drop_scope s = (if startswith s ''::'' then drop 2 s else s)"

definition untransformed_type_traits :: "string \<Rightarrow> string option \<times> bool" where
  "untransformed_type_traits name =
     (case ptr_argument name of
        None \<Rightarrow> (None, False)
      | Some arg \<Rightarrow>
          let name1 = strip arg;
              front = startswith name1 ''const '';
              name2 = (if front then drop 6 name1 else name1);
              back = endswith name2 '' const'';
              name3 = (if back then take (length name2 - 6) name2 else name2);
              new_name = name3 @ '' *''
          in (Some (drop_scope new_name), front \<or> back))"

datatype handler_class = Parameter_Class | Return_Value_Class | Other_Class

record type_handler =
  handler_class :: handler_class
  ctype :: string
  keyword :: "string \<times> bool"
  untransformed_ctype :: string

definition create_type_handler :: "handler_class \<Rightarrow> string \<Rightarrow> type_handler res" where
  "create_type_handler cls name =
     bind_res (case cls of
         Parameter_Class \<Rightarrow> Inr (''transfer_ownership'', False)
       | Return_Value_Class \<Rightarrow> Inr (''caller_owns_return'', False)
       | Other_Class \<Rightarrow> Inl AssertionError) (\<lambda>kw.
       (case untransformed_type_traits name of
          (None, _) \<Rightarrow> Inl TypeError
        | (Some orig_ctype, is_const) \<Rightarrow>
            let base = take (length orig_ctype - 2) orig_ctype
            in Inr \<lparr>handler_class = cls,
                    ctype = ''ns3::Ptr< '' @ base @ (if is_const then '' const >'' else '' >''),
                    keyword = kw, untransformed_ctype = orig_ctype\<rparr>))"

definition untransform :: "type_handler \<Rightarrow> string \<Rightarrow> string" where
  "untransform h expression = ''const_cast<'' @ untransformed_ctype h @ ''> (ns3::PeekPointer ('' @ expression @ ''))''"

definition transform :: "type_handler \<Rightarrow> string \<Rightarrow> string res" where
  "transform h expression =
     (if untransformed_ctype h = [] then Inl IndexError
      else if last (untransformed_ctype h) \<noteq> CHR ''*'' then Inl AssertionError
      else Inr (''ns3::Ptr< '' @ butlast (untransformed_ctype h) @ '' > ('' @ expression @ '')''))"

section \<open>generate\_callback\_classes\<close>

text \<open>A generated class: its name, the type it handles and the names and types of the parameters.\<close>

record callback_impl =
  class_name :: string
  handled_type :: string
  return_type :: string
  arguments :: "(string \<times> string) list"

definition callback_parameters :: "string list \<Rightarrow> string list" where
  "callback_parameters template_parameters = filter (\<lambda>arg. arg \<noteq> ''ns3::empty'') (tl template_parameters)"

definition callback_class ::
  "(string \<Rightarrow> string option) \<Rightarrow> (string \<Rightarrow> string option) \<Rightarrow> nat \<Rightarrow> string list \<Rightarrow> callback_impl option res" where
  "callback_class new_return new_parameter num template_parameters =
     (case template_parameters of
        [] \<Rightarrow> Inl IndexError
      | callback_return # _ \<Rightarrow>
          (case new_return callback_return of
             None \<Rightarrow> Inr None
           | Some ret \<Rightarrow>
               let args = map (\<lambda>(n, arg_type). (''arg'' @ show_nat (n + 1), new_parameter arg_type))
                     (enumerate 0 (callback_parameters template_parameters))
               in Inr (if \<forall>a \<in> set args. snd a \<noteq> None
                  then Some \<lparr>class_name = ''PythonCallbackImpl'' @ show_nat num,
                             handled_type = ''ns3::Callback< '' @ join '', '' template_parameters @ '' >'',
                             return_type = ret, arguments = map (\<lambda>(n, t). (n, the t)) args\<rparr>
                  else None)))"

definition generate_callback_classes ::
  "(string \<Rightarrow> string option) \<Rightarrow> (string \<Rightarrow> string option) \<Rightarrow> string list list \<Rightarrow> callback_impl list res" where
  "generate_callback_classes new_return new_parameter callbacks =
     bind_res (map_res (\<lambda>(num, ps). callback_class new_return new_parameter num ps) (enumerate 0 callbacks)) (\<lambda>cs.
       Inr (map the (filter (\<lambda>c. c \<noteq> None) cs)))"

section \<open>Classes of disabled features\<close>

record root_module =
  classes :: "string list"
  enums :: "string list"

text \<open>\<open>classes.remove(root_module['ns3::...'])\<close>, and the same for an enumeration.\<close>

definition in_ns3 :: "string \<Rightarrow> string" where
  "in_ns3 c = ''ns3::'' @ c"

definition remove_class :: "root_module \<Rightarrow> string \<Rightarrow> root_module res" where
  "remove_class m c =
     (let n = in_ns3 c in if n \<in> set (classes m) then Inr (m\<lparr>classes := remove1 n (classes m)\<rparr>) else Inl KeyError)"

definition remove_enum :: "root_module \<Rightarrow> string \<Rightarrow> root_module res" where
  "remove_enum m c =
     (let n = in_ns3 c in if n \<in> set (enums m) then Inr (m\<lparr>enums := remove1 n (enums m)\<rparr>) else Inl KeyError)"

text \<open>\<open>except KeyError: pass\<close>.\<close>

definition try_remove_class :: "root_module \<Rightarrow> string \<Rightarrow> root_module" where
  "try_remove_class m c = (case remove_class m c of Inl e \<Rightarrow> m | Inr m' \<Rightarrow> m')"

text \<open>The features whose classes must be there, with their classes and enumerations.\<close>

definition required_classes :: "(string \<times> string list \<times> string list) list" where
  "required_classes =
     [(''Threading'', [''SystemThread'', ''SystemMutex'', ''SystemCondition'', ''CriticalSection'',
         ''SimpleRefCount< ns3::SystemThread, ns3::empty, ns3::DefaultDeleter<ns3::SystemThread> >''], []),
      (''EmuNetDevice'', [''EmuNetDevice'', ''EmuHelper''], [''EmuNetDevice::EncapsulationMode'']),
      (''RealTime'', [''WallClockSynchronizer'', ''RealtimeSimulatorImpl''], [''RealtimeSimulatorImpl::SynchronizationMode'']),
      (''TapBridge'', [''TapBridge'', ''TapBridgeHelper'', ''TapBridgeFdReader''], [''TapBridge::Mode''])]"

definition disable :: "string list \<Rightarrow> root_module \<Rightarrow> string \<times> string list \<times> string list \<Rightarrow> root_module res" where
  "disable enabled_features m f =
     (case f of (feature, cs, es) \<Rightarrow>
        if feature \<in> set enabled_features then Inr m
        else bind_res (run_steps remove_class m cs) (\<lambda>m'. run_steps remove_enum m' es))"

definition remove_disabled :: "string \<Rightarrow> root_module \<Rightarrow> root_module res" where
  "remove_disabled features m =
     (let enabled_features = split_on CHR '','' features;
          m1 = (if ''GtkConfigStore'' \<in> set enabled_features then m else try_remove_class m ''GtkConfigStore'');
          m2 = (if ''SqliteDataOutput'' \<in> set enabled_features then m1 else try_remove_class m1 ''SqliteDataOutput'')
      in run_steps (disable enabled_features) m2 required_classes)"

section \<open>Smart pointers\<close>

text \<open>The name of a type as it may stand in a smart pointer.\<close>

definition type_name :: "string \<Rightarrow> bool" where
  "type_name t \<longleftrightarrow> t \<noteq> [] \<and> t \<noteq> ''const'' \<and> CHR ''>'' \<notin> set t \<and> strip t = t \<and> \<not> startswith t ''const '' \<and> \<not> endswith t '' const'' \<and> \<not> startswith t ''::''"

datatype const_position = No_Const | Const_Before | Const_After

text \<open>The argument of the pointer as a C++ parser may write it: with or without the leading \<open>::\<close>, \<open>const\<close> on either side.\<close>

definition ptr_type :: "bool \<Rightarrow> const_position \<Rightarrow> string \<Rightarrow> string" where
  "ptr_type global pos t =
     (let n = (if global then ''::'' @ t else t)
      in case pos of No_Const \<Rightarrow> n | Const_Before \<Rightarrow> ''const '' @ n | Const_After \<Rightarrow> n @ '' const'')"

lemma endswith_append: "endswith (s @ p) p"
  by (simp add: endswith_def)

lemma endswith_iff: "endswith s p \<longleftrightarrow> (\<exists>u. s = u @ p)"
  by (metis append_eq_conv_conj append_take_drop_id diff_diff_cancel endswith_append endswith_def length_drop)

lemma strip_pad:
  assumes "list_all is_ws w1" and "list_all is_ws w2" and "s \<noteq> []" and "\<not> is_ws (hd s)" and "\<not> is_ws (last s)"
  shows "strip (w1 @ s @ w2) = s"
proof -
  have d: "dropWhile is_ws (w @ x) = x" if "\<forall>c \<in> set w. is_ws c" "x \<noteq> []" "\<not> is_ws (hd x)" for w x
    using that by (induction w) (auto simp: neq_Nil_conv)
  have "dropWhile is_ws (w1 @ s @ w2) = s @ w2" using assms(1,3,4) by (intro d) (auto simp: list_all_iff)
  moreover have "dropWhile is_ws (rev w2 @ rev s) = rev s" using assms(2,3,5) by (intro d) (auto simp: list_all_iff hd_rev)
  ultimately show ?thesis by (simp add: strip_def rstrip_def)
qed

lemma type_name_ends: "type_name t \<Longrightarrow> \<not> is_ws (hd t) \<and> \<not> is_ws (last t)"
  using strip_ends [of t] by (auto simp: type_name_def)

lemma ws_not_bracket: "is_ws c \<Longrightarrow> c \<noteq> CHR ''>''"
  by (auto simp: is_ws_def code_def)

lemma ptr_argument_spelling:
  assumes "scope \<in> {[], ''ns3::'', ''::ns3::''}" and "CHR ''>'' \<notin> set a" and "a \<noteq> []" and "list_all is_ws w3"
  shows "ptr_argument (scope @ ''Ptr<'' @ a @ ''>'' @ w3) = Some a"
proof -
  have s: "strip_scope (scope @ ''Ptr<'' @ a @ ''>'' @ w3) = ''Ptr<'' @ a @ ''>'' @ w3"
    using assms(1) by (auto simp: strip_scope_def)
  have "takeWhile (\<lambda>c. c \<noteq> CHR ''>'') (a @ ''>'' @ w3) = a"
    using assms(2) by (subst takeWhile_append2) auto
  then have t: "takeWhile (\<lambda>c. c \<noteq> CHR ''>'') (drop 4 (''Ptr<'' @ a @ ''>'' @ w3)) = a" by simp
  show ?thesis unfolding ptr_argument_def Let_def s t using assms(3,4) by simp
qed

lemma not_const_suffix: "type_name t \<Longrightarrow> \<not> endswith (if global then ''::'' @ t else t) '' const''"
proof
  assume t: "type_name t" and "endswith (if global then ''::'' @ t else t) '' const''"
  then obtain u where u: "(if global then ''::'' @ t else t) = u @ '' const''" by (auto simp: endswith_iff)
  from t have n: "\<not> (\<exists>v. t = v @ '' const'')" by (auto simp: type_name_def endswith_iff)
  with u obtain x where g: "''::'' @ t = u @ '' const''" by (auto split: if_splits)
  then have "(\<exists>v. u = ''::'' @ v \<and> t = v @ '' const'') \<or> length u < 2"
    by (cases u; cases "tl u") auto
  with n have "length u < 2" by blast
  with g show False by (cases u; cases "tl u") auto
qed

lemma short_const: "length t < 6 \<Longrightarrow> take 6 (t @ '' const'') = ''const '' \<Longrightarrow> t = ''const''"
  by (auto simp: less_Suc_eq numeral_eq_Suc length_Suc_conv)

lemma not_const_prefix:
  assumes "type_name t"
  shows "\<not> startswith (if global then ''::'' @ t else t) ''const ''"
    and "\<not> startswith ((if global then ''::'' @ t else t) @ '' const'') ''const ''"
proof -
  show "\<not> startswith (if global then ''::'' @ t else t) ''const ''" using assms by (simp add: type_name_def)
  have "take 6 (t @ '' const'') \<noteq> ''const ''"
  proof (cases "length t < 6")
    case True
    with assms short_const show ?thesis by (auto simp: type_name_def)
  next
    case False
    moreover have "take 6 t \<noteq> ''const ''" using assms by (simp add: type_name_def numeral_eq_Suc)
    ultimately show ?thesis by simp
  qed
  moreover have l: "length ''const '' = 6" by simp
  moreover have "take 6 ((''::'' @ t) @ '' const'') \<noteq> ''const ''" by simp
  ultimately show "\<not> startswith ((if global then ''::'' @ t else t) @ '' const'') ''const ''"
    unfolding l by (cases global) (simp_all only: if_True if_False not_False_eq_True)
qed

lemma traits_of_type:
  assumes "type_name t" and "ptr_argument name = Some (w1 @ ptr_type global pos t @ w2)" and "list_all is_ws w1" and "list_all is_ws w2"
  shows "untransformed_type_traits name = (Some (t @ '' *''), pos \<noteq> No_Const)"
proof -
  define n where "n = (if global then ''::'' @ t else t)"
  have e: "\<not> is_ws (hd t)" "\<not> is_ws (last t)" "t \<noteq> []" using type_name_ends [OF assms(1)] assms(1) by (auto simp: type_name_def)
  have w: "\<not> is_ws (CHR '':'')" "\<not> is_ws (CHR ''c'')" "\<not> is_ws (CHR ''t'')" by (simp_all add: is_ws_def code_def)
  have "ptr_type global pos t \<noteq> [] \<and> \<not> is_ws (hd (ptr_type global pos t)) \<and> \<not> is_ws (last (ptr_type global pos t))"
    using e w by (cases pos) (auto simp: ptr_type_def Let_def hd_append)
  then have st: "strip (w1 @ ptr_type global pos t @ w2) = ptr_type global pos t"
    using strip_pad [OF assms(3,4)] by blast
  have new: "drop_scope (n @ '' *'') = t @ '' *''"
  proof (cases global)
    case False
    have "\<not> startswith (t @ '' *'') ''::''"
      using assms(1) by (cases t; cases "tl t") (auto simp: type_name_def)
    with False show ?thesis by (simp add: n_def drop_scope_def)
  qed (simp add: n_def drop_scope_def)
  have b: "endswith (n @ '' const'') '' const''" by (rule endswith_append)
  have l: "take (length (n @ '' const'') - 6) (n @ '' const'') = n" by simp
  show ?thesis
  proof (cases pos)
    case No_Const
    then have "ptr_type global pos t = n" by (simp add: ptr_type_def Let_def n_def)
    with No_Const new not_const_prefix(1) [OF assms(1), of global, folded n_def] not_const_suffix [OF assms(1), of global, folded n_def] st assms(2) show ?thesis
      by (simp only: untransformed_type_traits_def option.case Let_def if_False) simp
  next
    case Const_Before
    then have p: "ptr_type global pos t = ''const '' @ n" by (simp add: ptr_type_def Let_def n_def)
    have f: "startswith (''const '' @ n) ''const ''" "drop 6 (''const '' @ n) = n" by simp_all
    from Const_Before new not_const_suffix [OF assms(1), of global, folded n_def] st assms(2) show ?thesis
      unfolding p by (simp only: untransformed_type_traits_def option.case Let_def f if_True if_False) simp
  next
    case Const_After
    then have p: "ptr_type global pos t = n @ '' const''" by (simp add: ptr_type_def Let_def n_def)
    from Const_After new not_const_prefix(2) [OF assms(1), of global, folded n_def] b l st assms(2) show ?thesis
      unfolding p by (simp only: untransformed_type_traits_def option.case Let_def if_True if_False) simp
  qed
qed

section \<open>Disabled features\<close>

lemma in_ns3_eq [simp]: "in_ns3 a = in_ns3 b \<longleftrightarrow> a = b"
  by (simp add: in_ns3_def)

lemma remove1_filter: "distinct xs \<Longrightarrow> remove1 x xs = filter (\<lambda>y. y \<noteq> x) xs"
  by (induction xs) (auto intro!: filter_True [symmetric])

definition without :: "string list \<Rightarrow> string list \<Rightarrow> string list" where
  "without cs xs = filter (\<lambda>n. n \<notin> in_ns3 ` set cs) xs"

definition all_in :: "string list \<Rightarrow> string list \<Rightarrow> bool" where
  "all_in cs xs \<longleftrightarrow> in_ns3 ` set cs \<subseteq> set xs"

lemma without_append: "without (cs @ ds) xs = without ds (without cs xs)"
  by (auto simp: without_def intro: filter_cong)

lemma all_in_append: "set cs \<inter> set ds = {} \<Longrightarrow> all_in (cs @ ds) xs \<longleftrightarrow> all_in cs xs \<and> all_in ds (without cs xs)"
  by (auto simp: all_in_def without_def)

lemma distinct_without [simp]: "distinct xs \<Longrightarrow> distinct (without cs xs)"
  by (simp add: without_def)

lemma without_Nil [simp]: "without [] xs = xs"
  by (simp add: without_def)

lemma all_in_Nil [simp]: "all_in [] xs"
  by (simp add: all_in_def)

lemma remove_class_iff:
  "distinct (classes m) \<Longrightarrow> remove_class m c = (if all_in [c] (classes m) then Inr (m\<lparr>classes := without [c] (classes m)\<rparr>) else Inl KeyError)"
  by (simp add: remove_class_def Let_def remove1_filter without_def all_in_def)

lemma remove_enum_iff:
  "distinct (enums m) \<Longrightarrow> remove_enum m c = (if all_in [c] (enums m) then Inr (m\<lparr>enums := without [c] (enums m)\<rparr>) else Inl KeyError)"
  by (simp add: remove_enum_def Let_def remove1_filter without_def all_in_def)

lemma run_remove_class:
  "distinct cs \<Longrightarrow> distinct (classes m) \<Longrightarrow> run_steps remove_class m cs =
     (if all_in cs (classes m) then Inr (m\<lparr>classes := without cs (classes m)\<rparr>) else Inl KeyError)"
proof (induction cs arbitrary: m)
  case (Cons c cs)
  then show ?case
    using all_in_append [of "[c]" cs "classes m"] without_append [of "[c]" cs "classes m"]
    by (simp add: remove_class_iff)
qed simp

lemma run_remove_enum:
  "distinct es \<Longrightarrow> distinct (enums m) \<Longrightarrow> run_steps remove_enum m es =
     (if all_in es (enums m) then Inr (m\<lparr>enums := without es (enums m)\<rparr>) else Inl KeyError)"
proof (induction es arbitrary: m)
  case (Cons c es)
  then show ?case
    using all_in_append [of "[c]" es "enums m"] without_append [of "[c]" es "enums m"]
    by (simp add: remove_enum_iff)
qed simp

text \<open>The classes and the enumerations of the features that are not enabled.\<close>

definition disabled :: "string list \<Rightarrow> (string \<times> string list \<times> string list) list \<Rightarrow> string list \<times> string list" where
  "disabled en fs = (let ds = filter (\<lambda>f. fst f \<notin> set en) fs in (concat (map (fst \<circ> snd) ds), concat (map (snd \<circ> snd) ds)))"

lemma disabled_Cons:
  "disabled en ((f, cs, es) # fs) =
    (if f \<in> set en then disabled en fs else (cs @ fst (disabled en fs), es @ snd (disabled en fs)))"
  by (simp add: disabled_def Let_def)

lemma disabled_subset: "set (fst (disabled en fs)) \<subseteq> set (concat (map (fst \<circ> snd) fs))" "set (snd (disabled en fs)) \<subseteq> set (concat (map (snd \<circ> snd) fs))"
  by (auto simp: disabled_def Let_def)

lemma run_disable:
  assumes "distinct (concat (map (fst \<circ> snd) fs))" and "distinct (concat (map (snd \<circ> snd) fs))" and "distinct (classes m)" and "distinct (enums m)"
  shows "run_steps (disable en) m fs =
    (if all_in (fst (disabled en fs)) (classes m) \<and> all_in (snd (disabled en fs)) (enums m)
     then Inr (m\<lparr>classes := without (fst (disabled en fs)) (classes m), enums := without (snd (disabled en fs)) (enums m)\<rparr>)
     else Inl KeyError)"
  using assms
proof (induction fs arbitrary: m)
  case Nil
  show ?case by (simp add: disabled_def)
next
  case (Cons x fs)
  obtain f cs es where x: "x = (f, cs, es)" by (cases x) auto
  have d: "distinct cs" "distinct es" "set cs \<inter> set (fst (disabled en fs)) = {}" "set es \<inter> set (snd (disabled en fs)) = {}"
    using Cons.prems(1,2) disabled_subset [of en fs] by (auto simp: x)
  have IH: "run_steps (disable en) m' fs =
    (if all_in (fst (disabled en fs)) (classes m') \<and> all_in (snd (disabled en fs)) (enums m')
     then Inr (m'\<lparr>classes := without (fst (disabled en fs)) (classes m'), enums := without (snd (disabled en fs)) (enums m')\<rparr>)
     else Inl KeyError)" if "distinct (classes m')" "distinct (enums m')" for m'
    using Cons.IH [of m'] Cons.prems that by simp
  show ?case
  proof (cases "f \<in> set en")
    case True
    then have "disable en m x = Inr m" by (simp add: x disable_def)
    with IH [of m] True Cons.prems(3,4) show ?thesis by (simp add: x disabled_Cons)
  next
    case False
    then have s: "disable en m x = (if all_in cs (classes m) \<and> all_in es (enums m)
      then Inr (m\<lparr>classes := without cs (classes m), enums := without es (enums m)\<rparr>) else Inl KeyError)"
      using Cons.prems(3,4) d by (simp add: x disable_def run_remove_class run_remove_enum)
    show ?thesis
      using False s IH [of "m\<lparr>classes := without cs (classes m), enums := without es (enums m)\<rparr>"] Cons.prems(3,4)
      by (simp add: x disabled_Cons all_in_append [OF d(3)] all_in_append [OF d(4)] without_append del: run_steps.simps(1))
  qed
qed

lemma try_remove_class_iff: "distinct (classes m) \<Longrightarrow> try_remove_class m c = m\<lparr>classes := without [c] (classes m)\<rparr>"
proof (cases "all_in [c] (classes m)")
  case False
  then have "without [c] (classes m) = classes m" by (auto simp: all_in_def without_def filter_id_conv)
  with False show "distinct (classes m) \<Longrightarrow> ?thesis" by (simp add: try_remove_class_def remove_class_iff)
qed (simp add: try_remove_class_def remove_class_iff)

lemma required_distinct: "distinct (concat (map (fst \<circ> snd) required_classes))" "distinct (concat (map (snd \<circ> snd) required_classes))"
  by code_simp+

section \<open>Properties\<close>

text \<open>However a smart pointer is spelled -- with or without name spaces, \<open>const\<close> before or after the type, spaces anywhere --
  its handler gets the same C++ type, the pointer type and the flag that Python does not own the object.\<close>

theorem smart_pointer_spellings:
  assumes "type_name t" and "scope \<in> {[], ''ns3::'', ''::ns3::''}" and "list_all is_ws w1" and "list_all is_ws w2" and "list_all is_ws w3"
  shows "create_type_handler Parameter_Class (scope @ ''Ptr<'' @ w1 @ ptr_type global pos t @ w2 @ ''>'' @ w3) =
    Inr \<lparr>handler_class = Parameter_Class,
         ctype = ''ns3::Ptr< '' @ t @ (if pos = No_Const then '' >'' else '' const >''),
         keyword = (''transfer_ownership'', False), untransformed_ctype = t @ '' *''\<rparr>"
proof -
  have "CHR ''>'' \<notin> set w1" "CHR ''>'' \<notin> set w2" using assms(3,4) ws_not_bracket by (auto simp: list_all_iff)
  moreover have "CHR ''>'' \<notin> set (ptr_type global pos t)" "ptr_type global pos t \<noteq> []"
    using assms(1) by (auto simp: ptr_type_def type_name_def Let_def split: const_position.splits)
  ultimately have "ptr_argument (scope @ ''Ptr<'' @ (w1 @ ptr_type global pos t @ w2) @ ''>'' @ w3) = Some (w1 @ ptr_type global pos t @ w2)"
    by (intro ptr_argument_spelling assms(2,5)) auto
  from traits_of_type [OF assms(1) this assms(3,4)] show ?thesis by (simp add: create_type_handler_def)
qed

theorem smart_pointer_spellings_witness:
  "create_type_handler Parameter_Class ''Ptr<const ns3::Packet> '' =
    Inr \<lparr>handler_class = Parameter_Class, ctype = ''ns3::Ptr< ns3::Packet const >'',
         keyword = (''transfer_ownership'', False), untransformed_ctype = ''ns3::Packet *''\<rparr>"
proof -
  have "type_name ''ns3::Packet''" by code_simp
  from smart_pointer_spellings [OF this, of "[]" "[]" "[]" "'' ''" False Const_Before] show ?thesis
    by (simp add: ptr_type_def is_ws_def code_def)
qed

text \<open>When features are disabled exactly their classes and enumerations are left out of the bindings, and a missing one ends
  the generator in a \<open>KeyError\<close>, except for the classes of \<open>GtkConfigStore\<close> and \<open>SqliteDataOutput\<close>.\<close>

theorem disabled_features_removed:
  assumes "distinct (classes m)" and "distinct (enums m)"
  shows "remove_disabled features m =
    (let en = split_on CHR '','' features;
         optional = filter (\<lambda>f. f \<notin> set en) [''GtkConfigStore'', ''SqliteDataOutput''];
         cs = fst (disabled en required_classes); es = snd (disabled en required_classes)
     in if all_in cs (classes m) \<and> all_in es (enums m)
        then Inr (m\<lparr>classes := without (optional @ cs) (classes m), enums := without es (enums m)\<rparr>) else Inl KeyError)"
proof -
  let ?en = "split_on CHR '','' features"
  let ?opt = "filter (\<lambda>f. f \<notin> set ?en) [''GtkConfigStore'', ''SqliteDataOutput'']"
  let ?m = "m\<lparr>classes := without ?opt (classes m)\<rparr>"
  have m: "(if ''SqliteDataOutput'' \<in> set ?en then (if ''GtkConfigStore'' \<in> set ?en then m else try_remove_class m ''GtkConfigStore'')
      else try_remove_class (if ''GtkConfigStore'' \<in> set ?en then m else try_remove_class m ''GtkConfigStore'') ''SqliteDataOutput'') = ?m"
    using assms(1) without_append [of "[''GtkConfigStore'']" "[''SqliteDataOutput'']" "classes m"]
    by (simp add: try_remove_class_iff)
  have "set (concat (map (fst \<circ> snd) required_classes)) \<inter> {''GtkConfigStore'', ''SqliteDataOutput''} = {}" by code_simp
  then have "set ?opt \<inter> set (fst (disabled ?en required_classes)) = {}"
    using disabled_subset(1) [of ?en required_classes] by auto
  from all_in_append [OF this, of "classes m"] have o: "all_in (fst (disabled ?en required_classes)) (without ?opt (classes m)) \<longleftrightarrow>
      all_in (fst (disabled ?en required_classes)) (classes m)"
    using \<open>set ?opt \<inter> _ = {}\<close> by (auto simp: all_in_def without_def)
  have d: "distinct (classes ?m)" "distinct (enums ?m)" using assms by simp_all
  show ?thesis
    using run_disable [OF required_distinct d, of ?en]
    unfolding remove_disabled_def Let_def m by (simp add: o without_append del: filter.simps)
qed

theorem disabled_features_removed_witness:
  "remove_disabled ''Threading,RealTime,TapBridge'' \<lparr>classes = [''ns3::EmuHelper'', ''ns3::Node'', ''ns3::EmuNetDevice''], enums = [''ns3::EmuNetDevice::EncapsulationMode'']\<rparr> =
    Inr \<lparr>classes = [''ns3::Node''], enums = []\<rparr>"
  using disabled_features_removed [of "\<lparr>classes = [''ns3::EmuHelper'', ''ns3::Node'', ''ns3::EmuNetDevice''], enums = [''ns3::EmuNetDevice::EncapsulationMode'']\<rparr>"
      "''Threading,RealTime,TapBridge''"]
  by (simp add: disabled_def required_classes_def all_in_def without_def in_ns3_def)

end
