(* ===== verification/Viz_Console.thy ===== *)
theory Viz_Console
  imports Py_Strings "HOL-Library.Sublist"
begin

text \<open>
  \<open>visualizer/ipython_view.py\<close>: the console of the visualizer.  Its text buffer is a list of characters, each with the
  tag \<open>notouch\<close> or without it, and the offsets of the marks; of GTK the model has what the documentation says of
  \<open>forward_to_line_end\<close>, of the gravity of marks, and of what a key may insert and delete, which the tag decides.  IPython is
  a parameter: what it completes, and what a line leaves in its history, prints and wants next.  The mouse is not modelled.
\<close>

section \<open>History\<close>

abbreviation newline :: char where
  "newline \<equiv> CHR 0x0A"

definition strip_newlines :: "string \<Rightarrow> string" where
  "strip_newlines s = rev (dropWhile (\<lambda>c. c = newline) (rev (dropWhile (\<lambda>c. c = newline) s)))"

text \<open>\<open>_getHistory\<close>: the level it leaves and the line it returns.\<close>

definition get_history :: "string list \<Rightarrow> int \<Rightarrow> int \<times> string" where
  "get_history inputs level =
     (case py_index inputs level of Inl e \<Rightarrow> (0, []) | Inr line \<Rightarrow> (level, strip_newlines line))"

definition history_back :: "string list \<Rightarrow> int \<Rightarrow> int \<times> string" where
  "history_back inputs level = get_history inputs (level - 1)"

definition history_forward :: "string list \<Rightarrow> int \<Rightarrow> int \<times> string" where
  "history_forward inputs level = get_history inputs (level + 1)"

section \<open>Completion\<close>

definition complete_sep :: "char \<Rightarrow> bool" where
  "complete_sep c \<longleftrightarrow> is_ws c \<or> c \<in> set ''{}[]()''"

fun sep_split :: "string \<Rightarrow> string list" where
  "sep_split [] = [[]]"
| "sep_split (c # s) =
     (if complete_sep c then [] # sep_split s
      else case sep_split s of [] \<Rightarrow> [[c]] | w # ws \<Rightarrow> (c # w) # ws)"

text \<open>\<open>_commonPrefix\<close>: the loop over the indices of \<open>str1\<close>.\<close>

fun common_prefix_loop :: "nat list \<Rightarrow> string \<Rightarrow> string \<Rightarrow> string" where
  "common_prefix_loop [] str1 str2 = str1"
| "common_prefix_loop (i # is) str1 str2 =
     (if \<not> startswith str2 (take (i + 1) str1) then take i str1 else common_prefix_loop is str1 str2)"

definition common_prefix :: "string \<Rightarrow> string \<Rightarrow> string" where
  "common_prefix str1 str2 = common_prefix_loop [0 ..< length str1] str1 str2"

text \<open>\<open>line[:-n]\<close>, which is empty when \<open>n\<close> is 0.\<close>

definition drop_end :: "nat \<Rightarrow> string \<Rightarrow> string" where
  "drop_end n line = (if n = 0 then [] else take (length line - n) line)"

definition complete :: "(string \<Rightarrow> string list) \<Rightarrow> string \<Rightarrow> string \<times> string list" where
  "complete ip_complete line =
     (let word = last (sep_split line); possibilities = ip_complete word
      in case possibilities of
           [] \<Rightarrow> (line, [])
         | p # ps \<Rightarrow> (drop_end (length word) line @ foldl common_prefix p ps, possibilities))"

section \<open>Coloured output\<close>

text \<open>The pattern \<open>\x01?\x1b\[(.*?)m\x02?\<close> at the start of a text: the code and what follows.\<close>

definition code_char :: "char \<Rightarrow> bool" where
  "code_char c \<longleftrightarrow> c \<noteq> CHR ''m'' \<and> c \<noteq> newline"

definition code_at :: "string \<Rightarrow> (string \<times> string) option" where
  "code_at s =
     (let s1 = (case s of c # t \<Rightarrow> if c = CHR 0x01 then t else s | [] \<Rightarrow> [])
      in if startswith s1 [CHR 0x1B, CHR ''[''] then
           (case dropWhile code_char (drop 2 s1) of
              [] \<Rightarrow> None
            | c # t \<Rightarrow> if c = newline then None
                else Some (takeWhile code_char (drop 2 s1), case t of d # u \<Rightarrow> if d = CHR 0x02 then u else t | [] \<Rightarrow> []))
         else None)"

lemma code_at_shorter: "code_at s = Some (tag, rest) \<Longrightarrow> length rest < length s"
proof -
  assume a: "code_at s = Some (tag, rest)"
  let ?s = "case s of c # t \<Rightarrow> if c = CHR 0x01 then t else s | [] \<Rightarrow> []"
  from a obtain c t where d: "dropWhile code_char (drop 2 ?s) = c # t" and r: "length rest \<le> length t"
    by (auto simp: code_at_def Let_def split: list.splits if_splits)
  have "length (c # t) \<le> length (drop 2 ?s)" unfolding d [symmetric] by (rule length_dropWhile_le)
  moreover have "length ?s \<le> length s" by (auto split: list.split)
  ultimately show ?thesis using r by simp
qed

text \<open>\<open>color_pat.split(text)\<close>: the text before the first code, and each code with the text after it.\<close>

function color_split :: "string \<Rightarrow> string \<times> (string \<times> string) list" where
  "color_split [] = ([], [])"
| "color_split (c # s) =
     (case code_at (c # s) of
        Some (tag, rest) \<Rightarrow> (case color_split rest of (t, cs) \<Rightarrow> ([], (tag, t) # cs))
      | None \<Rightarrow> (case color_split s of (t, cs) \<Rightarrow> (c # t, cs)))"
  by pat_completeness auto
termination
  by (relation "measure length") (auto dest: code_at_shorter)

text \<open>The loop of \<open>write\<close> over the tags: \<open>index\<close> is the first segment equal to the tag.\<close>

fun index_of :: "'a \<Rightarrow> 'a list \<Rightarrow> nat res" where
  "index_of x [] = Inl ValueError"
| "index_of x (y # ys) = (if y = x then Inr 0 else bind_res (index_of x ys) (\<lambda>i. Inr (Suc i)))"

fun insert_tagged :: "string list \<Rightarrow> string list \<Rightarrow> (string \<times> string) list res" where
  "insert_tagged [] segments = Inr []"
| "insert_tagged (tag # tags) segments =
     bind_res (index_of tag segments) (\<lambda>i.
       bind_res (py_nth segments (i + 1)) (\<lambda>s.
         bind_res (insert_tagged tags (take i segments @ drop (i + 1) segments)) (\<lambda>r. Inr ((s, tag) # r))))"

fun segments_of :: "(string \<times> string) list \<Rightarrow> string list" where
  "segments_of [] = []"
| "segments_of ((tag, t) # codes) = tag # t # segments_of codes"

definition write_pieces :: "string \<Rightarrow> (string \<times> string option) list res" where
  "write_pieces text =
     (case color_split text of (segment, codes) \<Rightarrow>
        bind_res (insert_tagged (map fst codes) (segments_of codes)) (\<lambda>r.
          Inr ((segment, None) # map (\<lambda>(t, tag). (t, Some tag)) r)))"

lemma index_of_append: "x \<in> set xs \<Longrightarrow> \<exists>i < length xs. index_of x (xs @ ys) = Inr i \<and> xs ! i = x \<and> take i xs @ drop (i + 1) xs = remove1 x xs"
proof (induction xs)
  case (Cons y xs)
  then show ?case
  proof (cases "y = x")
    case False
    with Cons obtain i where "i < length xs" "index_of x (xs @ ys) = Inr i" "xs ! i = x" "take i xs @ drop (i + 1) xs = remove1 x xs" by auto
    with False show ?thesis by (intro exI [of _ "Suc i"]) auto
  qed (intro exI [of _ 0]; simp)
qed simp

lemma insert_tagged_returns:
  "(\<And>v. count_list tags v \<le> count_list xs v) \<Longrightarrow> \<exists>r. insert_tagged tags (xs @ [l]) = Inr r \<and> map snd r = tags"
proof (induction tags arbitrary: xs)
  case (Cons tag tags)
  have "0 < count_list xs tag" using Cons.prems [of tag] by simp
  then have "tag \<in> set xs" by (metis count_list_0_iff less_numeral_extra(3))
  from index_of_append [OF this, of "[l]"] obtain i where i: "i < length xs" "index_of tag (xs @ [l]) = Inr i"
    and r: "take i xs @ drop (i + 1) xs = remove1 tag xs" by blast
  have "count_list tags v \<le> count_list (remove1 tag xs) v" for v
    using Cons.prems [of v] by (auto simp: count_list_remove1 split: if_splits)
  from Cons.IH [OF this] obtain rs where rs: "insert_tagged tags (remove1 tag xs @ [l]) = Inr rs" "map snd rs = tags" by blast
  have "take i (xs @ [l]) @ drop (i + 1) (xs @ [l]) = remove1 tag xs @ [l]" using i(1) r by auto
  moreover have "py_nth (xs @ [l]) (i + 1) = Inr ((xs @ [l]) ! (i + 1))" using i(1) by (simp add: py_nth_def)
  ultimately show ?case using i(2) rs by simp
qed simp

lemma tags_in_segments: "count_list (map fst codes) v \<le> count_list (butlast (segments_of codes)) v"
proof (induction codes)
  case (Cons c codes)
  have "butlast (t # segments_of codes) = (if codes = [] then [] else t # butlast (segments_of codes))" for t
    by (cases codes) auto
  with Cons show ?case by (cases c; cases "codes = []") auto
qed simp

lemma segments_of_snoc: "segments_of (codes @ [(tag, t)]) = segments_of codes @ [tag, t]"
  by (induction codes rule: segments_of.induct) auto

lemma write_pieces_returns: "\<exists>ps. write_pieces text = Inr ps \<and> map snd ps = None # map (\<lambda>c. Some (fst c)) (snd (color_split text))"
proof -
  obtain segment codes where c: "color_split text = (segment, codes)" by (cases "color_split text")
  show ?thesis
  proof (cases codes rule: rev_cases)
    case Nil
    with c show ?thesis by (simp add: write_pieces_def)
  next
    case (snoc cs x)
    let ?segs = "segments_of codes"
    obtain tag t where x: "x = (tag, t)" by (cases x)
    then have "?segs = butlast ?segs @ [t]" using snoc by (simp add: segments_of_snoc butlast_append)
    with insert_tagged_returns [of "map fst codes" "butlast ?segs" t, OF tags_in_segments]
    obtain r where "insert_tagged (map fst codes) ?segs = Inr r" "map snd r = map fst codes" by metis
    moreover have "map snd (map (\<lambda>(t, tag). (t, Some tag)) r) = map Some (map snd r)" by (simp add: case_prod_beta comp_def)
    ultimately show ?thesis using c by (simp add: write_pieces_def comp_def)
  qed
qed

text \<open>When no text is the code of a later tag, every text gets its own tag.\<close>

fun clear_codes :: "(string \<times> string) list \<Rightarrow> bool" where
  "clear_codes [] \<longleftrightarrow> True"
| "clear_codes ((tag, t) # codes) \<longleftrightarrow> t \<notin> fst ` set codes \<and> clear_codes codes"

lemma index_of_skip: "x \<notin> set xs \<Longrightarrow> index_of x (xs @ x # ys) = Inr (length xs)"
  by (induction xs) auto

lemma insert_tagged_clear:
  "clear_codes codes \<Longrightarrow> set ts \<inter> fst ` set codes = {} \<Longrightarrow>
    insert_tagged (map fst codes) (ts @ segments_of codes) = Inr (map (\<lambda>(tag, t). (t, tag)) codes)"
proof (induction codes arbitrary: ts)
  case (Cons c codes)
  obtain tag t where c: "c = (tag, t)" by (cases c)
  let ?rest = "segments_of codes"
  have i: "index_of tag (ts @ tag # t # ?rest) = Inr (length ts)" using Cons.prems(2) c by (intro index_of_skip) auto
  have "insert_tagged (map fst codes) ((ts @ [t]) @ ?rest) = Inr (map (\<lambda>(tag, t). (t, tag)) codes)"
    using Cons.prems c by (intro Cons.IH) auto
  with i show ?case by (simp add: c py_nth_def nth_append)
qed simp

section \<open>The text buffer\<close>

text \<open>\<open>buffer\<close> has with each character whether it is tagged \<open>notouch\<close>.  \<open>line_start\<close> has left gravity, the marks of the
  cursor and of the selection have right gravity.\<close>

record console =
  buffer :: "(char \<times> bool) list"
  line_start :: nat
  insert_mark :: nat
  selection_mark :: nat
  history_level :: int
  inputs :: "string list"
  iter_more :: bool
  prompt :: string
  interrupt :: bool
  overwrite :: bool

definition chars :: "console \<Rightarrow> string" where
  "chars c = map fst (buffer c)"

text \<open>\<open>forward_to_line_end\<close>: at the end of a line it goes to the end of the next one.\<close>

definition line_end :: "string \<Rightarrow> nat \<Rightarrow> nat" where
  "line_end s p =
     (let q = (if p < length s \<and> s ! p = newline then Suc p else p)
      in q + length (takeWhile (\<lambda>c. c \<noteq> newline) (drop q s)))"

definition append_text :: "string \<Rightarrow> bool \<Rightarrow> console \<Rightarrow> console" where
  "append_text t locked c =
     (let n = length (buffer c); move = (\<lambda>m. if m = n then n + length t else m)
      in c\<lparr>buffer := buffer c @ map (\<lambda>x. (x, locked)) t, insert_mark := move (insert_mark c), selection_mark := move (selection_mark c)\<rparr>)"

definition delete_range :: "nat \<Rightarrow> nat \<Rightarrow> console \<Rightarrow> console" where
  "delete_range a b c =
     (let move = (\<lambda>m. if m \<le> a then m else if m \<le> b then a else m - (b - a))
      in c\<lparr>buffer := take a (buffer c) @ drop b (buffer c), line_start := move (line_start c),
           insert_mark := move (insert_mark c), selection_mark := move (selection_mark c)\<rparr>)"

definition lock_range :: "nat \<Rightarrow> nat \<Rightarrow> console \<Rightarrow> console" where
  "lock_range a b c =
     c\<lparr>buffer := map (\<lambda>(i, x, l). (x, l \<or> a \<le> i \<and> i < b)) (enumerate 0 (buffer c))\<rparr>"

text \<open>What \<open>write\<close> inserts: the texts without the codes.\<close>

definition written :: "string \<Rightarrow> string" where
  "written text = (case write_pieces text of Inl _ \<Rightarrow> [] | Inr ps \<Rightarrow> concat (map fst ps))"

definition write_text :: "string \<Rightarrow> bool \<Rightarrow> console \<Rightarrow> console" where
  "write_text text editable c = append_text (written text) (\<not> editable) c"

definition show_prompt :: "string \<Rightarrow> console \<Rightarrow> console" where
  "show_prompt p c = (let c' = write_text p False c in c'\<lparr>line_start := length (buffer c')\<rparr>)"

definition change_line :: "string \<Rightarrow> console \<Rightarrow> console" where
  "change_line text c = write_text text True (delete_range (line_start c) (line_end (chars c) (line_start c)) c)"

definition get_current_line :: "console \<Rightarrow> string" where
  "get_current_line c = drop (line_start c) (chars c)"

definition show_returned :: "string \<Rightarrow> console \<Rightarrow> console" where
  "show_returned text c =
     (let c1 = lock_range (line_start c) (line_end (chars c) (line_start c)) c;
          c2 = write_text (newline # text) False c1;
          c3 = (if text \<noteq> [] then write_text [newline] False c2 else c2);
          c4 = show_prompt (prompt c) c3
      in c4\<lparr>line_start := length (buffer c4), insert_mark := length (buffer c4), selection_mark := length (buffer c4)\<rparr>)"

text \<open>\<open>_onKeypress\<close>, before the key inserts its text.\<close>

definition on_keypress :: "string \<Rightarrow> console \<Rightarrow> console" where
  "on_keypress key c =
     (if key = [] then c
      else if line_start c \<le> insert_mark c \<and> line_start c \<le> selection_mark c then c
      else if insert_mark c < line_start c \<and> selection_mark c < line_start c
        then c\<lparr>insert_mark := line_start c, selection_mark := line_start c\<rparr>
      else if insert_mark c < selection_mark c then c\<lparr>insert_mark := line_start c\<rparr>
      else if selection_mark c < insert_mark c then c\<lparr>selection_mark := line_start c\<rparr>
      else c)"

text \<open>What a user deletes: of a range the characters without the tag.  A mark comes to stand behind what remains before it.\<close>

definition remaining :: "nat \<Rightarrow> nat \<Rightarrow> (char \<times> bool) list \<Rightarrow> (char \<times> bool) list" where
  "remaining a b xs = map snd (filter (\<lambda>(i, x). i < a \<or> b \<le> i \<or> snd x) (enumerate 0 xs))"

definition erase_range :: "nat \<Rightarrow> nat \<Rightarrow> console \<Rightarrow> console" where
  "erase_range a b c =
     (let move = (\<lambda>m. length (remaining a b (take m (buffer c))))
      in c\<lparr>buffer := remaining a b (buffer c), line_start := move (line_start c), insert_mark := move (insert_mark c),
           selection_mark := move (selection_mark c)\<rparr>)"

definition erase_selection :: "console \<Rightarrow> console" where
  "erase_selection c = erase_range (min (insert_mark c) (selection_mark c)) (max (insert_mark c) (selection_mark c)) c"

text \<open>A user can insert text anywhere but between two characters with the tag.\<close>

definition can_insert :: "(char \<times> bool) list \<Rightarrow> nat \<Rightarrow> bool" where
  "can_insert xs p \<longleftrightarrow> p = 0 \<or> length xs \<le> p \<or> \<not> snd (xs ! (p - 1)) \<or> \<not> snd (xs ! p)"

definition insert_text :: "(char \<times> bool) list \<Rightarrow> console \<Rightarrow> console" where
  "insert_text t c =
     (let p = insert_mark c; move = (\<lambda>m. if p \<le> m then m + length t else m)
      in if can_insert (buffer c) p then
           c\<lparr>buffer := take p (buffer c) @ t @ drop p (buffer c),
             line_start := (if p < line_start c then line_start c + length t else line_start c),
             insert_mark := move p, selection_mark := move (selection_mark c)\<rparr>
         else c)"

text \<open>The text of a key replaces the selection, or without one and in the mode for it the next character of the line.\<close>

definition type_text :: "string \<Rightarrow> console \<Rightarrow> console" where
  "type_text key c =
     (let c1 = erase_selection c; p = insert_mark c1;
          c2 = (if insert_mark c = selection_mark c \<and> overwrite c \<and> p < length (buffer c1) \<and> fst (buffer c1 ! p) \<noteq> newline
            then erase_range p (p + 1) c1 else c1)
      in insert_text (map (\<lambda>x. (x, False)) key) c2)"

section \<open>Keys\<close>

text \<open>IPython: what it completes, its prompts, what a traceback prints, and for a line whether it wants more, the history after it
  and what it prints.\<close>

record ipython =
  ip_complete :: "string \<Rightarrow> string list"
  ip_push :: "string list \<Rightarrow> string \<Rightarrow> bool \<times> string list \<times> string"
  ip_prompt1 :: "string list \<Rightarrow> string"
  ip_prompt2 :: "string list \<Rightarrow> string"

text \<open>\<open>execute\<close>, with what it prints.\<close>

definition execute :: "ipython \<Rightarrow> console \<Rightarrow> console \<times> string" where
  "execute ip c =
     (let (more, ins, out) = (if interrupt c then (False, inputs c, newline # ''KeyboardInterrupt'' @ [newline])
            else ip_push ip (inputs c) (get_current_line c))
      in (c\<lparr>history_level := 0, interrupt := False, iter_more := more, inputs := ins,
            prompt := strip (if more then ip_prompt2 ip ins else ip_prompt1 ip ins)\<rparr>, out))"

definition process_line :: "ipython \<Rightarrow> console \<Rightarrow> console" where
  "process_line ip c = (case execute ip c of (c', out) \<Rightarrow> show_returned (strip_newlines out) c')"

text \<open>The keys: those of \<open>keyPress\<close>, and those the view handles itself: text, moving the cursor and the end of the selection, deleting
  the selection or else some characters before and after the cursor (BackSpace, Delete, cut), the same without regard to the selection
  (words), pasting, where text copied from the view has its tags, and Insert, which switches the mode.\<close>

datatype key = Control_C | Return_Key | Up_Key | Down_Key | Tab_Key | Text_Key string | Move_Key nat nat | Erase_Key nat nat
  | Erase_Word nat nat | Paste_Key "(char \<times> bool) list" | Insert_Key

definition press_tab :: "ipython \<Rightarrow> console \<Rightarrow> console res" where
  "press_tab ip c =
     (if strip (get_current_line c) = [] then Inr (type_text [CHR 0x09] c)
      else (case complete (ip_complete ip) (get_current_line c) of (completed, possibilities) \<Rightarrow>
        let line = get_current_line c;
            c' = (if 1 < length possibilities
              then show_prompt (prompt c) (foldl (\<lambda>d w. write_text (w @ [newline]) False d) (write_text [newline] False c) possibilities) else c)
        in if completed \<noteq> [] then Inr (change_line completed c')
           else if 1 < length possibilities then Inr (change_line line c') else Inl TypeError))"

definition recall :: "int \<times> string \<Rightarrow> console \<Rightarrow> console" where
  "recall lt c = change_line (snd lt) (c\<lparr>history_level := fst lt\<rparr>)"

text \<open>\<open>str\<close> is \<open>event.string\<close>, which GDK leaves empty for some keys.  Both handlers of a key are called, and then the one of the view
  for the keys that \<open>keyPress\<close> does not handle.\<close>

definition key_press :: "ipython \<Rightarrow> string \<Rightarrow> console \<Rightarrow> key \<Rightarrow> console res" where
  "key_press ip str c0 k =
     (let c = on_keypress str c0; p = insert_mark c
      in case k of
           Control_C \<Rightarrow> Inr (process_line ip (c\<lparr>interrupt := True\<rparr>))
         | Return_Key \<Rightarrow> Inr (process_line ip c)
         | Up_Key \<Rightarrow> Inr (recall (history_back (inputs c) (history_level c)) c)
         | Down_Key \<Rightarrow> Inr (recall (history_forward (inputs c) (history_level c)) c)
         | Tab_Key \<Rightarrow> press_tab ip c
         | Text_Key t \<Rightarrow> Inr (type_text t c)
         | Move_Key i j \<Rightarrow> Inr (c\<lparr>insert_mark := min i (length (buffer c)), selection_mark := min j (length (buffer c))\<rparr>)
         | Erase_Key n m \<Rightarrow> Inr (if p \<noteq> selection_mark c then erase_selection c else erase_range (p - n) (p + m) c)
         | Erase_Word n m \<Rightarrow> Inr (erase_range (p - n) (p + m) c)
         | Paste_Key t \<Rightarrow> Inr (insert_text t (erase_selection c))
         | Insert_Key \<Rightarrow> Inr (c\<lparr>overwrite := \<not> overwrite c\<rparr>))"

section \<open>Completion and colours\<close>

lemma startswith_prefix: "startswith s p \<longleftrightarrow> prefix p s"
  by (auto simp: take_is_prefix prefix_def) (metis append_take_drop_id)

lemma common_prefix_loop:
  "i \<le> length s1 \<Longrightarrow> prefix (take i s1) s2 \<Longrightarrow> common_prefix_loop [i ..< length s1] s1 s2 = longest_common_prefix s1 s2"
proof (induction "length s1 - i" arbitrary: i)
  case 0
  then have "i = length s1" by simp
  with 0 have "prefix s1 s2" by simp
  then have "longest_common_prefix s1 s2 = s1"
    by (metis longest_common_prefix_max_prefix longest_common_prefix_prefix1 prefix_order.order_antisym prefix_order.order_refl)
  with \<open>i = length s1\<close> show ?case by simp
next
  case (Suc n)
  then have i: "i < length s1" by simp
  then have u: "[i ..< length s1] = i # [Suc i ..< length s1]" by (simp add: upt_conv_Cons)
  show ?case
  proof (cases "prefix (take (i + 1) s1) s2")
    case True
    have "common_prefix_loop [Suc i ..< length s1] s1 s2 = longest_common_prefix s1 s2"
      using Suc True by (intro Suc.hyps(1)) auto
    moreover have "startswith s2 (take (i + 1) s1)" using True startswith_prefix by blast
    ultimately show ?thesis unfolding u common_prefix_loop.simps by metis
  next
    case False
    let ?l = "longest_common_prefix s1 s2"
    have "prefix (take i s1) ?l" using Suc.prems by (intro longest_common_prefix_max_prefix) (auto simp: take_is_prefix)
    moreover have "\<not> length ?l > i"
    proof
      assume "length ?l > i"
      moreover obtain zs where "s1 = ?l @ zs" using longest_common_prefix_prefix1 [of s1 s2] unfolding prefix_def by blast
      moreover define l where "l = ?l"
      ultimately have "take (i + 1) s1 = take (i + 1) ?l" unfolding l_def [symmetric] by simp
      then have "prefix (take (i + 1) s1) s2"
        using take_is_prefix [of "i + 1" ?l] longest_common_prefix_prefix2 [of s1 s2] by (metis prefix_order.order_trans)
      with False show False by simp
    qed
    ultimately have "?l = take i s1" using i by (auto simp: prefix_def)
    moreover have "\<not> startswith s2 (take (i + 1) s1)" using False startswith_prefix by blast
    ultimately show ?thesis unfolding u common_prefix_loop.simps by metis
  qed
qed

lemma common_prefix_longest: "common_prefix s1 s2 = longest_common_prefix s1 s2"
  by (simp add: common_prefix_def common_prefix_loop)

lemma fold_common_prefix:
  "(\<forall>w \<in> set (p # ps). prefix (foldl common_prefix p ps) w) \<and> ((\<forall>w \<in> set (p # ps). prefix q w) \<longrightarrow> prefix q (foldl common_prefix p ps))"
proof (induction ps arbitrary: p)
  case (Cons w ps)
  from Cons.IH [of "common_prefix p w"] show ?case
    using longest_common_prefix_prefix1 [of p w] longest_common_prefix_prefix2 [of p w] longest_common_prefix_max_prefix [of q p w]
    unfolding common_prefix_longest by (auto intro: prefix_order.order_trans)
qed simp

lemma sep_split_ne [simp]: "sep_split s \<noteq> []"
  by (induction s) (auto split: list.splits)

lemma last_word: "list_all (\<lambda>c. \<not> complete_sep c) w \<Longrightarrow> pre = [] \<or> complete_sep (last pre) \<Longrightarrow> last (sep_split (pre @ w)) = w"
proof (induction pre)
  case Nil
  have "list_all (\<lambda>c. \<not> complete_sep c) v \<Longrightarrow> sep_split v = [v]" for v by (induction v) auto
  with Nil show ?case by simp
next
  case (Cons c pre)
  show ?case
  proof (cases "pre = []")
    case True
    with Cons show ?thesis by auto
  next
    case False
    with Cons have l: "last (sep_split (pre @ w)) = w" by simp
    show ?thesis
    proof (cases "sep_split (pre @ w)")
      case (Cons v vs)
      moreover have "vs \<noteq> []" if "\<not> complete_sep c"
      proof
        assume "vs = []"
        moreover have "length (sep_split (pre @ w)) \<ge> 2"
        proof -
          have "length (sep_split (xs @ c' # w)) \<ge> 2" if "complete_sep c'" for xs c'
            using that sep_split_ne [of w] by (induction xs) (auto split: list.splits simp: Suc_le_eq)
          moreover obtain xs c' where "pre = xs @ [c']" using False by (metis rev_exhaust)
          ultimately show ?thesis using Cons.prems(2) False by auto
        qed
        ultimately show False using Cons by simp
      qed
      ultimately show ?thesis using l by auto
    qed simp
  qed
qed

lemma code_at_escape: "CHR 0x1B \<notin> set s \<Longrightarrow> code_at s = None"
  by (cases s; cases "tl s") (auto simp: code_at_def Let_def split: list.splits)

lemma color_split_plain: "CHR 0x1B \<notin> set s \<Longrightarrow> color_split s = (s, [])"
proof (induction s)
  case (Cons c s)
  with code_at_escape [OF Cons.prems] show ?case by simp
qed simp

lemma written_plain: "CHR 0x1B \<notin> set s \<Longrightarrow> written s = s"
  by (simp add: written_def write_pieces_def color_split_plain)

lemma code_at_set: "code_at s = Some (tag, rest) \<Longrightarrow> set tag \<subseteq> set s \<and> set rest \<subseteq> set s"
proof -
  assume a: "code_at s = Some (tag, rest)"
  let ?s = "case s of c # t \<Rightarrow> if c = CHR 0x01 then t else s | [] \<Rightarrow> []"
  from a obtain c t where d: "dropWhile code_char (drop 2 ?s) = c # t" and r: "set rest \<subseteq> set t" and t: "tag = takeWhile code_char (drop 2 ?s)"
    by (auto simp: code_at_def Let_def split: list.splits if_splits)
  have "set (c # t) \<subseteq> set (drop 2 ?s)" unfolding d [symmetric] by (auto dest: set_dropWhileD)
  moreover have "set (drop 2 ?s) \<subseteq> set s" by (auto split: list.splits if_splits dest: in_set_dropD)
  moreover have "set tag \<subseteq> set (drop 2 ?s)" unfolding t by (auto dest: set_takeWhileD)
  ultimately show ?thesis using r by auto
qed

lemma color_split_set: "color_split s = (t, cs) \<Longrightarrow> set t \<subseteq> set s \<and> (\<forall>w \<in> set (segments_of cs). set w \<subseteq> set s)"
proof (induction s arbitrary: t cs rule: color_split.induct)
  case (2 c s)
  show ?case
  proof (cases "code_at (c # s)")
    case None
    obtain t' cs' where "color_split s = (t', cs')" by (cases "color_split s")
    with "2.IH"(1) [OF None, of t' cs'] None "2.prems" show ?thesis by auto
  next
    case (Some a)
    obtain tag rest where a: "a = (tag, rest)" by (cases a)
    obtain t' cs' where r: "color_split rest = (t', cs')" by (cases "color_split rest")
    define S where "S = set (c # s)"
    have "set t' \<subseteq> set rest" "\<forall>w \<in> set (segments_of cs'). set w \<subseteq> set rest"
      using "2.IH"(2) [OF Some a [symmetric]] r by blast+
    moreover have "set tag \<subseteq> S" "set rest \<subseteq> S" unfolding S_def using code_at_set [of "c # s" tag rest] Some a by blast+
    ultimately have "set t' \<subseteq> S" "\<forall>w \<in> set (segments_of cs'). set w \<subseteq> S" "set tag \<subseteq> S" by blast+
    moreover have "t = []" "cs = (tag, t') # cs'" using "2.prems" Some a r by auto
    ultimately show ?thesis unfolding S_def [symmetric] by simp
  qed
qed auto

lemma insert_tagged_texts: "insert_tagged tags segs = Inr r \<Longrightarrow> fst ` set r \<subseteq> set segs"
proof (induction tags arbitrary: segs r)
  case (Cons tag tags)
  from Cons.prems obtain i s r' where i: "py_nth segs (i + 1) = Inr s"
    and r: "insert_tagged tags (take i segs @ drop (i + 1) segs) = Inr r'" "r = (s, tag) # r'"
    by (auto simp: bind_res_Inr_iff)
  from i have "s \<in> set segs" by (auto simp: py_nth_Inr_iff)
  moreover have "set (take i segs @ drop (i + 1) segs) \<subseteq> set segs" by (auto dest: in_set_takeD in_set_dropD)
  ultimately show ?case using Cons.IH [OF r(1)] r(2) by auto
qed simp

lemma written_set: "set (written t) \<subseteq> set t"
proof -
  obtain seg codes where c: "color_split t = (seg, codes)" by (cases "color_split t")
  obtain r where r: "insert_tagged (map fst codes) (segments_of codes) = Inr r"
    using write_pieces_returns [of t] c by (auto simp: write_pieces_def bind_res_Inr_iff)
  have "written t = seg @ concat (map fst r)"
    by (simp add: written_def write_pieces_def c r case_prod_beta comp_def)
  moreover have "set w \<subseteq> set t" if "w \<in> fst ` set r" for w
    using that color_split_set [OF c] insert_tagged_texts [OF r] by blast
  moreover have "set seg \<subseteq> set t" using color_split_set [OF c] by blast
  ultimately show ?thesis by (simp add: UN_subset_iff)
qed

section \<open>What keys can change\<close>

definition marks_ok :: "console \<Rightarrow> bool" where
  "marks_ok c \<longleftrightarrow> line_start c \<le> length (buffer c) \<and> insert_mark c \<le> length (buffer c) \<and> selection_mark c \<le> length (buffer c)"

text \<open>The text before the current line, with its tags.\<close>

definition top_text :: "console \<Rightarrow> (char \<times> bool) list" where
  "top_text c = take (line_start c) (buffer c)"

definition shown_text :: "console \<Rightarrow> string" where
  "shown_text c = take (line_start c) (chars c)"

definition sealed :: "console \<Rightarrow> bool" where
  "sealed c \<longleftrightarrow> list_all snd (top_text c)"

definition keeps_output :: "console \<Rightarrow> console \<Rightarrow> bool" where
  "keeps_output c c' \<longleftrightarrow> marks_ok c' \<and> prefix (top_text c) (top_text c')"

lemma length_chars [simp]: "length (chars c) = length (buffer c)"
  by (simp add: chars_def)

lemma line_end_bounds:
  assumes "p \<le> length s"
  shows "p \<le> line_end s p \<and> line_end s p \<le> length s"
proof -
  define q where "q = (if p < length s \<and> s ! p = newline then Suc p else p)"
  have q: "p \<le> q" "q \<le> length s" using assms by (auto simp: q_def)
  have "length (takeWhile (\<lambda>c. c \<noteq> newline) (drop q s)) \<le> length s - q"
    by (metis length_drop length_takeWhile_le)
  with q show ?thesis by (simp add: line_end_def Let_def flip: q_def)
qed

lemma append_text_props:
  "marks_ok c \<Longrightarrow> marks_ok (append_text t l c) \<and> chars (append_text t l c) = chars c @ t \<and> line_start (append_text t l c) = line_start c"
  by (auto simp: append_text_def marks_ok_def chars_def Let_def comp_def)

lemma delete_range_props:
  assumes "marks_ok c" and "line_start c = a" and "a \<le> b" and "b \<le> length (buffer c)"
  shows "marks_ok (delete_range a b c) \<and> chars (delete_range a b c) = take a (chars c) @ drop b (chars c) \<and> line_start (delete_range a b c) = a"
  using assms by (auto simp: delete_range_def marks_ok_def chars_def Let_def take_map drop_map)

lemma lock_range_props:
  "chars (lock_range a b c) = chars c \<and> line_start (lock_range a b c) = line_start c \<and> (marks_ok c \<longrightarrow> marks_ok (lock_range a b c))"
proof -
  have "map fst (map (\<lambda>(i, x, l). (x, l \<or> a \<le> i \<and> i < b)) (enumerate n xs)) = map fst xs" for n and xs :: "(char \<times> bool) list"
    by (induction xs arbitrary: n) auto
  then show ?thesis by (simp add: lock_range_def chars_def marks_ok_def)
qed

lemma change_line_props:
  assumes "marks_ok c"
  shows "marks_ok (change_line t c) \<and> line_start (change_line t c) = line_start c \<and>
    chars (change_line t c) = shown_text c @ drop (line_end (chars c) (line_start c)) (chars c) @ written t"
proof -
  have "line_start c \<le> line_end (chars c) (line_start c) \<and> line_end (chars c) (line_start c) \<le> length (buffer c)"
    using line_end_bounds [of "line_start c" "chars c"] assms by (simp add: marks_ok_def)
  with delete_range_props [OF assms refl] append_text_props show ?thesis
    by (simp add: change_line_def write_text_def shown_text_def)
qed

lemma keeps_trans: "keeps_output c d \<Longrightarrow> keeps_output d e \<Longrightarrow> keeps_output c e"
  by (auto simp: keeps_output_def intro: prefix_order.order_trans)

lemma keeps_marks: "keeps_output c d \<Longrightarrow> marks_ok d"
  by (simp add: keeps_output_def)

lemma append_text_buffer: "buffer (append_text t l c) = buffer c @ map (\<lambda>x. (x, l)) t"
  by (simp add: append_text_def Let_def)

lemma lock_range_buffer: "take n (buffer (lock_range a b c)) = map (\<lambda>(i, x, l). (x, l \<or> a \<le> i \<and> i < b)) (enumerate 0 (take n (buffer c)))"
  by (simp add: lock_range_def take_map enumerate_eq_zip take_zip min_def)

lemma lock_range_top: "take a (buffer (lock_range a b c)) = take a (buffer c)"
  by (rule nth_equalityI) (auto simp: lock_range_def nth_enumerate_eq)

lemma keeps_write: "marks_ok c \<Longrightarrow> keeps_output c (write_text t l c)"
  using append_text_props [of c "written t" "\<not> l"]
  by (simp add: keeps_output_def write_text_def top_text_def marks_ok_def append_text_buffer)

lemma keeps_prompt:
  assumes "marks_ok c"
  shows "keeps_output c (show_prompt p c) \<and> line_start (show_prompt p c) = length (buffer (show_prompt p c))
    \<and> chars (show_prompt p c) = chars c @ written p"
proof -
  define d where "d = append_text (written p) True c"
  have d: "marks_ok d" "chars d = chars c @ written p" using append_text_props [OF assms] by (auto simp: d_def)
  have s: "show_prompt p c = d\<lparr>line_start := length (buffer d)\<rparr>" by (simp add: show_prompt_def write_text_def d_def Let_def)
  have "top_text (show_prompt p c) = buffer d" by (simp add: s top_text_def)
  moreover have "prefix (top_text c) (buffer d)"
    unfolding d_def append_text_buffer top_text_def by (rule prefix_prefix) (rule take_is_prefix)
  ultimately show ?thesis using d by (simp add: keeps_output_def s marks_ok_def) (simp add: chars_def)
qed

lemma change_line_top:
  assumes "marks_ok c"
  shows "top_text (change_line t c) = top_text c"
  using assms line_end_bounds [of "line_start c" "chars c"]
  by (simp add: top_text_def change_line_def write_text_def append_text_def delete_range_def Let_def marks_ok_def)

lemma keeps_change: "marks_ok c \<Longrightarrow> keeps_output c (change_line t c)"
  using change_line_props [of c t] by (simp add: keeps_output_def change_line_top)

lemma keypress_buffer: "buffer (on_keypress k c) = buffer c" "line_start (on_keypress k c) = line_start c"
  by (simp_all add: on_keypress_def)

lemma keeps_keypress: "marks_ok c \<Longrightarrow> marks_ok (on_keypress k c) \<and> top_text (on_keypress k c) = top_text c \<and> chars (on_keypress k c) = chars c"
  by (auto simp: on_keypress_def marks_ok_def top_text_def chars_def)

text \<open>The clamp of \<open>_onKeypress\<close>: when a key has a text, both marks are in the current line.\<close>

lemma on_keypress_clamps:
  "k \<noteq> [] \<Longrightarrow> line_start c \<le> insert_mark (on_keypress k c) \<and> line_start c \<le> selection_mark (on_keypress k c)"
  by (auto simp: on_keypress_def)

text \<open>What users delete and insert.\<close>

lemma remaining_append: "\<exists>zs. remaining a b (xs @ ys) = remaining a b xs @ zs"
  by (simp add: remaining_def enumerate_append_eq)

lemma remaining_take: "take (length (remaining a b (take n xs))) (remaining a b xs) = remaining a b (take n xs)"
  using remaining_append [of a b "take n xs" "drop n xs"] by auto

lemma length_remaining_take: "length (remaining a b (take n xs)) \<le> length (remaining a b xs)"
  using remaining_append [of a b "take n xs" "drop n xs"] by auto

lemma filter_remaining: "filter snd (remaining a b xs) = filter snd xs"
proof -
  have "filter snd (map snd (filter (\<lambda>(i, x). i < a \<or> b \<le> i \<or> snd x) (enumerate n xs))) = filter snd xs" for n and xs :: "(char \<times> bool) list"
    by (induction xs arbitrary: n) auto
  then show ?thesis by (simp add: remaining_def)
qed

lemma remaining_locked: "list_all snd xs \<Longrightarrow> remaining a b xs = xs"
proof -
  have "list_all snd xs \<Longrightarrow> map snd (filter (\<lambda>(i, x). i < a \<or> b \<le> i \<or> snd x) (enumerate n xs)) = xs" for n and xs :: "(char \<times> bool) list"
    by (induction xs arbitrary: n) auto
  then show "list_all snd xs \<Longrightarrow> remaining a b xs = xs" by (simp add: remaining_def)
qed

lemma remaining_before: "length xs \<le> a \<Longrightarrow> remaining a b xs = xs"
proof -
  have "n + length xs \<le> a \<Longrightarrow> map snd (filter (\<lambda>(i, x). i < a \<or> b \<le> i \<or> snd x) (enumerate n xs)) = xs" for n and xs :: "(char \<times> bool) list"
    by (induction xs arbitrary: n) auto
  from this [of 0] show "length xs \<le> a \<Longrightarrow> remaining a b xs = xs" by (simp add: remaining_def)
qed

lemma erase_top: "top_text (erase_range a b c) = remaining a b (top_text c)"
  by (simp add: top_text_def erase_range_def Let_def remaining_take)

lemma erase_marks: "marks_ok (erase_range a b c)"
  by (simp add: marks_ok_def erase_range_def Let_def length_remaining_take)

text \<open>Deletion takes no text with the tag, and nothing above the line when all of that has the tag, or lies before the range.\<close>

lemma erase_keeps:
  shows "filter snd (top_text (erase_range a b c)) = filter snd (top_text c)"
    and "sealed c \<or> line_start c \<le> a \<Longrightarrow> top_text (erase_range a b c) = top_text c"
  by (auto simp: erase_top filter_remaining sealed_def remaining_locked) (simp add: remaining_before top_text_def)

lemma erase_later_marks:
  assumes "line_start c \<le> a" and "marks_ok c"
  shows "line_start (erase_range a b c) = line_start c"
    and "line_start c \<le> insert_mark c \<Longrightarrow> line_start c \<le> insert_mark (erase_range a b c)"
proof -
  have l: "length (remaining a b (take (line_start c) (buffer c))) = line_start c"
    using assms by (subst remaining_before) (auto simp: marks_ok_def)
  then show "line_start (erase_range a b c) = line_start c" by (simp add: erase_range_def Let_def)
  assume i: "line_start c \<le> insert_mark c"
  then have "take (line_start c) (take (insert_mark c) (buffer c)) = take (line_start c) (buffer c)" by (simp add: min_def)
  then have "length (remaining a b (take (line_start c) (buffer c))) \<le> length (remaining a b (take (insert_mark c) (buffer c)))"
    using length_remaining_take [of a b "line_start c" "take (insert_mark c) (buffer c)"] by simp
  then show "line_start c \<le> insert_mark (erase_range a b c)" using l by (simp add: erase_range_def Let_def)
qed

lemma insert_marks: "marks_ok c \<Longrightarrow> marks_ok (insert_text t c)"
  by (auto simp: insert_text_def marks_ok_def Let_def)

text \<open>An insertion in the line changes nothing above it; one above it takes nothing away.\<close>

lemma insert_keeps:
  assumes "marks_ok c"
  shows "subseq (filter snd (top_text c)) (filter snd (top_text (insert_text t c)))"
    and "line_start c \<le> insert_mark c \<Longrightarrow> top_text (insert_text t c) = top_text c"
proof -
  let ?p = "insert_mark c"
  show top: "line_start c \<le> insert_mark c \<Longrightarrow> top_text (insert_text t c) = top_text c"
    using assms by (auto simp: insert_text_def top_text_def marks_ok_def Let_def)
  show "subseq (filter snd (top_text c)) (filter snd (top_text (insert_text t c)))"
  proof (cases "?p < line_start c \<and> can_insert (buffer c) ?p")
    case False
    then have "top_text (insert_text t c) = top_text c" using top by (cases "?p < line_start c") (auto simp: insert_text_def Let_def)
    then show ?thesis by simp
  next
    case True
    have "take (line_start c) (buffer c) = take ?p (buffer c) @ take (line_start c - ?p) (drop ?p (buffer c))"
      using True by (metis add_diff_inverse_nat order_less_imp_not_less take_add)
    moreover have "top_text (insert_text t c) = take ?p (buffer c) @ t @ take (line_start c - ?p) (drop ?p (buffer c))"
      using True assms by (auto simp: insert_text_def top_text_def marks_ok_def Let_def)
    ultimately show ?thesis by (simp add: top_text_def list_emb_append_mono subseq_drop_many)
  qed
qed

lemma erase_selection_line:
  assumes "marks_ok c" and "line_start c \<le> insert_mark c" and "line_start c \<le> selection_mark c"
  shows "top_text (erase_selection c) = top_text c" and "line_start (erase_selection c) \<le> insert_mark (erase_selection c)"
  using assms by (simp_all add: erase_selection_def erase_keeps erase_later_marks)

lemma type_keeps:
  assumes "marks_ok c"
  shows "marks_ok (type_text t c)" and "subseq (filter snd (top_text c)) (filter snd (top_text (type_text t c)))"
    and "line_start c \<le> insert_mark c \<Longrightarrow> line_start c \<le> selection_mark c \<Longrightarrow> top_text (type_text t c) = top_text c"
proof -
  define d where "d = erase_selection c"
  define e where "e = (if insert_mark c = selection_mark c \<and> overwrite c \<and> insert_mark d < length (buffer d) \<and> fst (buffer d ! insert_mark d) \<noteq> newline
    then erase_range (insert_mark d) (insert_mark d + 1) d else d)"
  have t: "type_text t c = insert_text (map (\<lambda>x. (x, False)) t) e" by (simp add: type_text_def d_def e_def Let_def)
  have d: "marks_ok d" "filter snd (top_text d) = filter snd (top_text c)" by (simp_all add: d_def erase_selection_def erase_marks erase_keeps)
  then have e: "marks_ok e" "filter snd (top_text e) = filter snd (top_text c)" by (simp_all add: e_def erase_marks erase_keeps)
  show "marks_ok (type_text t c)" using e(1) by (simp add: t insert_marks)
  show "subseq (filter snd (top_text c)) (filter snd (top_text (type_text t c)))" using insert_keeps(1) [OF e(1)] by (simp add: t e(2))
  assume "line_start c \<le> insert_mark c" "line_start c \<le> selection_mark c"
  from erase_selection_line [OF assms this] have m: "top_text d = top_text c" "line_start d \<le> insert_mark d" by (simp_all add: d_def)
  then have "top_text e = top_text c" "line_start e \<le> insert_mark e"
    using erase_keeps(2) [of d] erase_later_marks [OF m(2) d(1)] by (simp_all add: e_def)
  then show "top_text (type_text t c) = top_text c" using insert_keeps(2) [OF e(1)] by (simp add: t)
qed

lemma keeps_returned:
  assumes "marks_ok c"
  shows "keeps_output c (show_returned t c) \<and> get_current_line (show_returned t c) = []"
proof -
  define c1 where "c1 = lock_range (line_start c) (line_end (chars c) (line_start c)) c"
  define c2 where "c2 = write_text (newline # t) False c1"
  define c3 where "c3 = (if t \<noteq> [] then write_text [newline] False c2 else c2)"
  define c4 where "c4 = show_prompt (prompt c) c3"
  have 1: "keeps_output c c1" using lock_range_props [of "line_start c" _ c] lock_range_top [of "line_start c" _ c] assms
    by (simp add: c1_def keeps_output_def top_text_def)
  then have 2: "keeps_output c1 c2" by (simp add: c2_def keeps_write keeps_output_def [of c])
  then have 3: "keeps_output c2 c3" by (auto simp: c3_def keeps_write keeps_output_def [of c1]) (simp add: keeps_output_def)
  then have 4: "keeps_output c3 c4" "line_start c4 = length (buffer c4)" using keeps_prompt [of c3] by (simp_all add: c4_def keeps_output_def [of c2])
  have r: "show_returned t c = c4\<lparr>line_start := length (buffer c4), insert_mark := length (buffer c4), selection_mark := length (buffer c4)\<rparr>"
    by (simp add: show_returned_def Let_def c1_def c2_def c3_def c4_def)
  have "keeps_output c4 (show_returned t c)"
    using 4 by (simp add: r keeps_output_def marks_ok_def top_text_def)
  with 1 2 3 4 have "keeps_output c (show_returned t c)" by (blast intro: keeps_trans)
  then show ?thesis by (simp add: r get_current_line_def chars_def)
qed

lemma execute_props: "fst (execute ip c) = c\<lparr>history_level := 0, interrupt := False, iter_more := iter_more (fst (execute ip c)),
    inputs := inputs (fst (execute ip c)), prompt := prompt (fst (execute ip c))\<rparr>"
  by (simp add: execute_def split: prod.splits)

lemma same_buffer:
  assumes "buffer d = buffer c" and "line_start d = line_start c" and "insert_mark d = insert_mark c" and "selection_mark d = selection_mark c"
  shows "marks_ok d = marks_ok c" and "chars d = chars c" and "top_text d = top_text c" and "get_current_line d = get_current_line c"
  using assms by (simp_all add: marks_ok_def chars_def top_text_def get_current_line_def)

text \<open>A line without a line break.\<close>

lemma line_end_single: "newline \<notin> set (drop p s) \<Longrightarrow> p \<le> length s \<Longrightarrow> line_end s p = length s"
proof -
  assume n: "newline \<notin> set (drop p s)" and p: "p \<le> length s"
  have "s ! p \<noteq> newline" if "p < length s" using n that by (metis Cons_nth_drop_Suc list.set_intros(1))
  then have q: "(if p < length s \<and> s ! p = newline then Suc p else p) = p" by auto
  have t: "takeWhile (\<lambda>c. c \<noteq> newline) (drop p s) = drop p s" unfolding takeWhile_eq_all_conv using n by metis
  show ?thesis unfolding line_end_def Let_def q t using p by simp
qed

text \<open>A single line that is entered is sealed, with what it prints and the next prompt.\<close>

lemma sealed_write: "list_all snd (buffer c) \<Longrightarrow> list_all snd (buffer (write_text t False c))"
  by (auto simp: write_text_def append_text_buffer list_all_iff)

lemma sealed_returned:
  assumes "marks_ok c" and "sealed c" and "newline \<notin> set (get_current_line c)"
  shows "sealed (show_returned t c)"
proof -
  have e: "line_end (chars c) (line_start c) = length (chars c)"
    using assms(1,3) by (intro line_end_single) (auto simp: get_current_line_def marks_ok_def)
  have "snd (buffer c ! i) \<or> line_start c \<le> i" if "i < length (buffer c)" for i
    using assms(2) that by (auto simp: sealed_def top_text_def list_all_length not_le)
  then have "list_all snd (buffer (lock_range (line_start c) (line_end (chars c) (line_start c)) c))"
    by (auto simp: e lock_range_def list_all_length nth_enumerate_eq case_prod_beta)
  then show ?thesis by (simp add: show_returned_def Let_def sealed_def top_text_def show_prompt_def sealed_write)
qed

lemma sealed_process:
  assumes "marks_ok c" and "sealed c" and "newline \<notin> set (get_current_line c)"
  shows "sealed (process_line ip c)"
proof -
  obtain d out where e: "execute ip c = (d, out)" by (cases "execute ip c")
  have "buffer d = buffer c" "line_start d = line_start c" "insert_mark d = insert_mark c" "selection_mark d = selection_mark c"
    using e by (auto simp: execute_def split: prod.splits)
  note b = same_buffer [OF this]
  from sealed_returned [of d "strip_newlines out"] assms show ?thesis by (simp add: process_line_def e sealed_def b)
qed

lemma keeps_process:
  assumes "marks_ok c"
  shows "keeps_output c (process_line ip c) \<and> get_current_line (process_line ip c) = []"
proof -
  obtain d out where e: "execute ip c = (d, out)" by (cases "execute ip c")
  have "buffer d = buffer c" "line_start d = line_start c" "insert_mark d = insert_mark c" "selection_mark d = selection_mark c"
    using e by (auto simp: execute_def split: prod.splits)
  note b = same_buffer [OF this]
  from keeps_returned [of d "strip_newlines out"] assms show ?thesis by (simp add: process_line_def e keeps_output_def b)
qed

lemma keeps_listing: "marks_ok c \<Longrightarrow> keeps_output c (foldl (\<lambda>d w. write_text (w @ [newline]) False d) c ws)"
proof (induction ws arbitrary: c)
  case Nil
  then show ?case by (simp add: keeps_output_def)
next
  case (Cons w ws)
  have k: "keeps_output c (write_text (w @ [newline]) False c)" using Cons.prems by (rule keeps_write)
  from keeps_trans [OF k Cons.IH [OF keeps_marks [OF k]]] show ?case by simp
qed

lemma keeps_tab:
  assumes "marks_ok c" and "press_tab ip c = Inr c'" and "strip (get_current_line c) \<noteq> []"
  shows "keeps_output c c'"
proof -
  obtain completed possibilities where p: "complete (ip_complete ip) (get_current_line c) = (completed, possibilities)"
    by (cases "complete (ip_complete ip) (get_current_line c)")
  define d where "d = (if 1 < length possibilities
    then show_prompt (prompt c) (foldl (\<lambda>d w. write_text (w @ [newline]) False d) (write_text [newline] False c) possibilities) else c)"
  have k: "keeps_output c d"
  proof (cases "1 < length possibilities")
    case True
    have 1: "keeps_output c (write_text [newline] False c)" using assms(1) by (rule keeps_write)
    then have 2: "keeps_output (write_text [newline] False c) (foldl (\<lambda>d w. write_text (w @ [newline]) False d) (write_text [newline] False c) possibilities)"
      (is "keeps_output _ ?e") by (intro keeps_listing) (simp add: keeps_output_def)
    then have "keeps_output ?e (show_prompt (prompt c) ?e)" using keeps_prompt [of ?e "prompt c"] by (simp add: keeps_output_def)
    with 1 2 True show ?thesis by (auto simp: d_def intro: keeps_trans)
  qed (simp add: d_def assms(1) keeps_output_def)
  obtain t where "c' = change_line t d"
    using assms(2,3) p by (auto simp: press_tab_def Let_def d_def split: if_splits)
  with keeps_trans [OF k keeps_change [OF keeps_marks [OF k]]] show ?thesis by simp
qed

lemma change_single:
  assumes "marks_ok c" and "newline \<notin> set (get_current_line c)"
  shows "get_current_line (change_line t c) = written t"
proof -
  have "line_end (chars c) (line_start c) = length (chars c)"
    using assms by (intro line_end_single) (auto simp: get_current_line_def marks_ok_def)
  with change_line_props [OF assms(1), of t] show ?thesis
    using assms(1) by (simp add: get_current_line_def shown_text_def marks_ok_def)
qed

section \<open>Properties\<close>

text \<open>The keys that change nothing above the line, for a key with the text \<open>str\<close>: all but those that paste, those that insert without a text
  of their own, and those that delete while some text above the line is without the tag.\<close>

definition leaves_top :: "string \<Rightarrow> console \<Rightarrow> key \<Rightarrow> bool" where
  "leaves_top str c k \<longleftrightarrow>
     (case k of Paste_Key t \<Rightarrow> False | Text_Key t \<Rightarrow> str \<noteq> [] | Tab_Key \<Rightarrow> str \<noteq> [] | Erase_Key n m \<Rightarrow> sealed c | Erase_Word n m \<Rightarrow> sealed c | _ \<Rightarrow> True)"

lemma keeps_recall: "marks_ok c \<Longrightarrow> marks_ok (recall lt c) \<and> top_text (recall lt c) = top_text c"
  using keeps_change [of "c\<lparr>history_level := fst lt\<rparr>" "snd lt"] change_line_top [of "c\<lparr>history_level := fst lt\<rparr>" "snd lt"]
  by (simp add: recall_def keeps_output_def marks_ok_def) (simp add: top_text_def)

lemma keeps_tab_key:
  assumes "marks_ok c" and "press_tab ip c = Inr c'"
  shows "marks_ok c' \<and> subseq (filter snd (top_text c)) (filter snd (top_text c')) \<and>
    (line_start c \<le> insert_mark c \<and> line_start c \<le> selection_mark c \<longrightarrow> prefix (top_text c) (top_text c'))"
proof (cases "strip (get_current_line c) = []")
  case True
  with assms(2) type_keeps [OF assms(1)] show ?thesis by (auto simp: press_tab_def)
next
  case False
  with keeps_tab [OF assms] show ?thesis by (auto simp: keeps_output_def intro: filter_mono_prefix)
qed

lemma key_press_keeps:
  assumes "marks_ok c" and "key_press ip str c k = Inr c'"
  shows "marks_ok c' \<and> subseq (filter snd (top_text c)) (filter snd (top_text c')) \<and> (leaves_top str c k \<longrightarrow> prefix (top_text c) (top_text c'))"
proof -
  define d where "d = on_keypress str c"
  have d: "marks_ok d" "top_text d = top_text c" using keeps_keypress [OF assms(1)] by (simp_all add: d_def)
  have s: "sealed d = sealed c" by (simp add: sealed_def d(2))
  have clamp: "str \<noteq> [] \<Longrightarrow> line_start d \<le> insert_mark d \<and> line_start d \<le> selection_mark d"
    using on_keypress_clamps [of str c] by (simp add: d_def keypress_buffer)
  have p: "keeps_output d (process_line ip d)" "keeps_output d (process_line ip (d\<lparr>interrupt := True\<rparr>))"
    using keeps_process [of d ip] keeps_process [of "d\<lparr>interrupt := True\<rparr>" ip] d(1) by (simp_all add: keeps_output_def marks_ok_def top_text_def)
  note [simp] = key_press_def Let_def d_def [symmetric] d(2) leaves_top_def
  show ?thesis
  proof (cases k)
    case Control_C
    with assms(2) p show ?thesis by (auto simp: keeps_output_def intro: filter_mono_prefix)
  next
    case Return_Key
    with assms(2) p show ?thesis by (auto simp: keeps_output_def intro: filter_mono_prefix)
  next
    case Up_Key
    with assms(2) keeps_recall [OF d(1), of "history_back (inputs d) (history_level d)"] show ?thesis by auto
  next
    case Down_Key
    with assms(2) keeps_recall [OF d(1), of "history_forward (inputs d) (history_level d)"] show ?thesis by auto
  next
    case Tab_Key
    with assms(2) keeps_tab_key [OF d(1), of ip c'] clamp show ?thesis by auto
  next
    case (Text_Key t)
    with assms(2) type_keeps [OF d(1), of t] clamp show ?thesis by auto
  next
    case (Move_Key i j)
    with assms(2) d show ?thesis by (auto simp: marks_ok_def top_text_def)
  next
    case (Erase_Key n m)
    with assms(2) s show ?thesis by (auto simp: erase_marks erase_keeps erase_selection_def split: if_splits)
  next
    case (Erase_Word n m)
    with assms(2) s show ?thesis by (auto simp: erase_marks erase_keeps)
  next
    case (Paste_Key t)
    have "marks_ok (erase_selection d)" "filter snd (top_text (erase_selection d)) = filter snd (top_text d)"
      by (simp_all add: erase_selection_def erase_marks erase_keeps)
    with Paste_Key assms(2) insert_keeps(1) [of "erase_selection d" t] insert_marks [of "erase_selection d" t] show ?thesis by auto
  next
    case Insert_Key
    with assms(2) d show ?thesis by (auto simp: marks_ok_def top_text_def)
  qed
qed

lemma sealed_step:
  assumes "marks_ok c" and "sealed c" and "newline \<notin> set (get_current_line c)" and "leaves_top str c k" and "k \<noteq> Tab_Key"
    and "key_press ip str c k = Inr c'"
  shows "sealed c'"
proof -
  define d where "d = on_keypress str c"
  have d: "marks_ok d" "top_text d = top_text c" "newline \<notin> set (get_current_line d)"
    using keeps_keypress [OF assms(1)] assms(3) by (simp_all add: d_def get_current_line_def keypress_buffer)
  have clamp: "str \<noteq> [] \<Longrightarrow> line_start d \<le> insert_mark d \<and> line_start d \<le> selection_mark d"
    using on_keypress_clamps [of str c] by (simp add: d_def keypress_buffer)
  have s: "sealed d" using assms(2) by (simp add: sealed_def d(2))
  have p: "sealed (process_line ip d)" "sealed (process_line ip (d\<lparr>interrupt := True\<rparr>))"
    using sealed_process [OF d(1) s d(3)] sealed_process [of "d\<lparr>interrupt := True\<rparr>" ip] d s
    by (simp_all add: marks_ok_def sealed_def top_text_def get_current_line_def chars_def)
  have top: "sealed e" if "top_text e = top_text d" for e using that s by (simp add: sealed_def)
  note [simp] = key_press_def Let_def d_def [symmetric] leaves_top_def
  show ?thesis
  proof (cases k)
    case (Text_Key t)
    with assms(4,6) type_keeps(3) [OF d(1), of t] clamp show ?thesis by (auto intro: top)
  next
    case (Move_Key i j)
    with assms(6) show ?thesis by (auto simp: top_text_def intro: top)
  next
    case (Erase_Key n m)
    with assms(6) s show ?thesis by (auto simp: erase_keeps erase_selection_def intro!: top split: if_splits)
  next
    case (Erase_Word n m)
    with assms(6) s show ?thesis by (auto simp: erase_keeps intro!: top)
  next
    case Insert_Key
    with assms(6) show ?thesis by (auto simp: top_text_def intro: top)
  qed (use assms(4-6) p in \<open>auto simp: top [OF conjunct2 [OF keeps_recall [OF d(1)]]]\<close>)
qed

text \<open>C38. Whatever key is pressed, text above the current line that has the tag \<open>notouch\<close> is neither removed nor changed.  What is
  there without the tag, such as a line that was completed, is only open to keys that delete, that paste, or that insert without a
  text of their own: all others leave everything above the line and add to it below.  When all the text above the line has the tag, keys
  that delete leave it too; and it keeps the tag while each line that is entered is a single one, and is neither completed nor pasted
  into.\<close>

theorem keys_keep_output:
  assumes "marks_ok c" and "key_press ip str c k = Inr c'"
  shows "marks_ok c' \<and> subseq (filter snd (top_text c)) (filter snd (top_text c')) \<and>
    (leaves_top str c k \<longrightarrow> prefix (top_text c) (top_text c')) \<and>
    (leaves_top str c k \<and> k \<noteq> Tab_Key \<and> sealed c \<and> newline \<notin> set (get_current_line c) \<longrightarrow> sealed c')"
  using key_press_keeps [OF assms] sealed_step [OF assms(1) _ _ _ _ assms(2)] by blast

text \<open>A console after the first prompt, with two lines of history, and an IPython that prints nothing.\<close>

definition sample_console :: console where
  "sample_console = \<lparr>buffer = map (\<lambda>x. (x, True)) ''>>>'', line_start = 3, insert_mark = 1, selection_mark = 0, history_level = 0,
     inputs = [[newline], ''viz.stop()'' @ [newline]], iter_more = False, prompt = ''>>>'', interrupt = False, overwrite = False\<rparr>"

definition sample_ipython :: ipython where
  "sample_ipython = \<lparr>ip_complete = (\<lambda>w. [w @ ''a'', w @ ''b'']), ip_push = (\<lambda>ins line. (False, ins @ [line], [])),
     ip_prompt1 = (\<lambda>_. ''>>>''), ip_prompt2 = (\<lambda>_. ''...'')\<rparr>"

lemma sample_marks: "marks_ok sample_console"
  by (simp add: marks_ok_def sample_console_def)

theorem keys_keep_output_witness:
  "\<exists>c'. key_press sample_ipython ''x'' sample_console (Text_Key ''x'') = Inr c' \<and> buffer c' = map (\<lambda>x. (x, True)) ''>>>'' @ [(CHR ''x'', False)] \<and>
     prefix (map (\<lambda>x. (x, True)) ''>>>'') (top_text c') \<and> sealed c'"
proof -
  obtain c' where k: "key_press sample_ipython ''x'' sample_console (Text_Key ''x'') = Inr c'" by (simp add: key_press_def Let_def)
  have "(case key_press sample_ipython ''x'' sample_console (Text_Key ''x'') of Inl _ \<Rightarrow> False
      | Inr c' \<Rightarrow> buffer c' = map (\<lambda>x. (x, True)) ''>>>'' @ [(CHR ''x'', False)])" by code_simp
  then have b: "buffer c' = map (\<lambda>x. (x, True)) ''>>>'' @ [(CHR ''x'', False)]" by (simp add: k)
  have t: "top_text sample_console = map (\<lambda>x. (x, True)) ''>>>''" "leaves_top ''x'' sample_console (Text_Key ''x'')" "sealed sample_console"
    "get_current_line sample_console = []"
    by (simp_all add: top_text_def leaves_top_def sealed_def get_current_line_def chars_def sample_console_def)
  from keys_keep_output [OF sample_marks k] k b t show ?thesis by simp
qed

text \<open>A line that was completed stays above the next prompt without the tag, and can be deleted there.\<close>

lemma completed_line_is_open:
  "(case bind_res (key_press sample_ipython ''x'' sample_console (Text_Key ''x'')) (\<lambda>c.
      bind_res (key_press sample_ipython [] c Tab_Key) (\<lambda>c. bind_res (key_press sample_ipython [] c (Move_Key 4 4)) (\<lambda>c.
        key_press sample_ipython [] c (Erase_Key 1 0)))) of
     Inl _ \<Rightarrow> False
   | Inr c \<Rightarrow> shown_text c = ''>>>'' @ newline # ''xa'' @ newline # ''xb'' @ newline # ''>>>'' \<and> get_current_line c = ''x'')"
  by code_simp

text \<open>The completion of a line puts the longest common prefix of the possibilities in the place of its last word; when the line
  ends in a separator, where the word is empty, the whole line is lost, because \<open>line[:-0]\<close> is empty.\<close>

theorem completion_of_line:
  assumes "list_all (\<lambda>c. \<not> complete_sep c) word" and "line = [] \<or> complete_sep (last line)" and "possible word \<noteq> []"
  shows "\<exists>p. complete possible (line @ word) = (if word = [] then p else line @ p, possible word) \<and>
    (\<forall>w \<in> set (possible word). prefix p w) \<and> (\<forall>q. (\<forall>w \<in> set (possible word). prefix q w) \<longrightarrow> prefix q p)"
proof -
  obtain w ws where w: "possible word = w # ws" using assms(3) by (cases "possible word") auto
  have "complete possible (line @ word) = (if word = [] then foldl common_prefix w ws else line @ foldl common_prefix w ws, w # ws)"
    using last_word [OF assms(1,2)] by (simp add: complete_def w drop_end_def Let_def)
  with fold_common_prefix [of w ws] show ?thesis unfolding w by blast
qed

theorem completion_of_line_witness:
  "\<exists>p. complete (\<lambda>w. [''node'', ''nodes'']) ''len('' = (p, [''node'', ''nodes'']) \<and> prefix p ''node'' \<and> prefix ''no'' p"
  using completion_of_line [of "[]" "''len(''" "\<lambda>w. [''node'', ''nodes'']"] by (auto simp: complete_sep_def)

text \<open>In coloured output every text gets the tag of its code, and nothing is lost or repeated, unless some text reads like the code
  of a later tag.\<close>

theorem coloured_text_kept:
  assumes "color_split text = (segment, codes)" and "clear_codes codes"
  shows "write_pieces text = Inr ((segment, None) # map (\<lambda>(tag, t). (t, Some tag)) codes)"
  using insert_tagged_clear [OF assms(2), of "[]"] assms(1) by (simp add: write_pieces_def case_prod_beta comp_def)

theorem coloured_text_kept_witness:
  "write_pieces (CHR 0x1B # ''[0;32mIn [1]:'' @ CHR 0x1B # ''[0m '') =
    Inr [([], None), (''In [1]:'', Some ''0;32''), ('' '', Some ''0'')]"
proof -
  have "color_split (CHR 0x1B # ''[0;32mIn [1]:'' @ CHR 0x1B # ''[0m '') = ([], [(''0;32'', ''In [1]:''), (''0'', '' '')])" by code_simp
  from coloured_text_kept [OF this] show ?thesis by simp
qed

text \<open>A text that is the code of the next tag: the exclamation mark is lost and the number shown twice.\<close>

lemma coloured_text_lost:
  "write_pieces (CHR 0x1B # ''[0;31m0'' @ CHR 0x1B # ''[0m!'') = Inr [([], None), (''0'', Some ''0;31''), (''0'', Some ''0'')]"
  by code_simp

text \<open>A line of the history that is recalled and entered is what IPython gets: after the arrow key the current line is the entry,
  without its line breaks at the ends, and the next return key passes it on.  The current line must be a single one, and the
  entry without colour codes.\<close>

theorem recalled_line_is_run:
  assumes "marks_ok c" and "newline \<notin> set (get_current_line c)" and "interrupt c = False"
    and "history_level c = - int n" and "n < length (inputs c)"
    and "entry = strip_newlines (inputs c ! (length (inputs c) - Suc n))" and "CHR 0x1B \<notin> set entry"
    and "key_press ip str c Up_Key = Inr d" and "key_press ip str d Return_Key = Inr e"
  shows "get_current_line d = entry" and "inputs e = fst (snd (ip_push ip (inputs c) entry))"
proof -
  have i: "nat (- (- int n - 1)) = Suc n" by simp
  have "py_index (inputs c) (- int n - 1) = Inr (inputs c ! (length (inputs c) - Suc n))"
    unfolding py_index_def i Let_def using assms(5) by simp
  then have h: "history_back (inputs c) (history_level c) = (- int n - 1, entry)"
    by (simp add: history_back_def get_history_def assms(4,6))
  let ?c = "on_keypress str c"
  have f: "inputs ?c = inputs c" "history_level ?c = history_level c" "interrupt ?c = interrupt c" by (simp_all add: on_keypress_def)
  have d: "d = change_line entry (?c\<lparr>history_level := - int n - 1\<rparr>)"
    using assms(8) by (simp add: key_press_def recall_def h f Let_def)
  have m: "marks_ok (?c\<lparr>history_level := - int n - 1\<rparr>)" "newline \<notin> set (get_current_line (?c\<lparr>history_level := - int n - 1\<rparr>))"
    using keeps_keypress [OF assms(1), of str] assms(2) by (auto simp: marks_ok_def get_current_line_def chars_def keypress_buffer)
  show l: "get_current_line d = entry"
    unfolding d change_single [OF m] using assms(7) by (rule written_plain)
  have i: "interrupt d = False \<and> inputs d = inputs c"
    using assms(3) f by (simp add: d change_line_def write_text_def append_text_def delete_range_def Let_def)
  let ?d = "on_keypress str d"
  have g: "get_current_line ?d = entry" "interrupt ?d = False" "inputs ?d = inputs c"
    using l i by (auto simp: on_keypress_def get_current_line_def chars_def)
  have "e = process_line ip ?d" using assms(9) by (simp add: key_press_def Let_def)
  moreover have "inputs (process_line ip ?d) = inputs (fst (execute ip ?d))"
    by (auto simp: process_line_def show_returned_def Let_def show_prompt_def write_text_def append_text_def lock_range_def split: prod.splits)
  ultimately show "inputs e = fst (snd (ip_push ip (inputs c) entry))"
    by (auto simp: execute_def g split: prod.splits)
qed


theorem recalled_line_is_run_witness:
  "\<exists>d e. key_press sample_ipython [] sample_console Up_Key = Inr d \<and> key_press sample_ipython [] d Return_Key = Inr e \<and>
     get_current_line d = ''viz.stop()'' \<and> inputs e = [[newline], ''viz.stop()'' @ [newline], ''viz.stop()'']"
proof -
  obtain d where d: "key_press sample_ipython [] sample_console Up_Key = Inr d" by (simp add: key_press_def Let_def)
  obtain e where e: "key_press sample_ipython [] d Return_Key = Inr e" by (simp add: key_press_def Let_def)
  have c: "newline \<notin> set (get_current_line sample_console)" "interrupt sample_console = False" "history_level sample_console = - int 0"
    "0 < length (inputs sample_console)"
    by (simp_all add: get_current_line_def chars_def sample_console_def)
  have s: "''viz.stop()'' = strip_newlines (inputs sample_console ! (length (inputs sample_console) - Suc 0))"
    by (simp add: sample_console_def strip_newlines_def)
  have n: "CHR 0x1B \<notin> set ''viz.stop()''" by simp
  from recalled_line_is_run [OF sample_marks c s n d e] d e show ?thesis
    by (simp add: sample_ipython_def sample_console_def)
qed

text \<open>An entry of several lines is not taken back when the next one is recalled: only its first line is deleted.\<close>

lemma several_lines_stay:
  assumes "marks_ok c" and "get_current_line c = u @ newline # v" and "newline \<notin> set u" and "u \<noteq> []"
  shows "get_current_line (change_line t c) = newline # v @ written t"
proof -
  have l: "drop (line_start c) (chars c) = u @ newline # v" using assms(2) by (simp add: get_current_line_def)
  have "line_start c < length (chars c)" using l by (metis drop_eq_Nil2 linorder_not_less Nil_is_append_conv list.distinct(1))
  moreover have "chars c ! line_start c \<noteq> newline"
    using l assms(3,4) calculation by (metis Cons_nth_drop_Suc append_eq_Cons_conv list.set_intros(1))
  ultimately have q: "(if line_start c < length (chars c) \<and> chars c ! line_start c = newline then Suc (line_start c) else line_start c) = line_start c"
    by auto
  have t: "takeWhile (\<lambda>c. c \<noteq> newline) (u @ newline # v) = u" using assms(3) by (subst takeWhile_append2) auto
  have "drop (line_end (chars c) (line_start c)) (chars c) = newline # v"
    unfolding line_end_def Let_def q l t by (metis add.commute append_eq_conv_conj drop_drop l)
  with change_line_props [OF assms(1), of t] show ?thesis
    using assms(1) by (simp add: get_current_line_def shown_text_def marks_ok_def)
qed

end
