(* ===== verification/Timeline_Render.thy ===== *)
theory Timeline_Render
  imports Timeline_Data Py_Float
begin

text \<open>
  The drawing of \<open>utils/grid.py\<close>: which ranges and events of the time lines become rectangles and labels, at which
  pixel, in which colour, and the rows they are put in.  The bounds of the view are whole numbers, other numbers are
  floats rounded by \<open>fl\<close>; what \<open>cairo\<close> says of the height of a text is a parameter, and strokes and fills are not modelled.
\<close>

section \<open>Pixels\<close>

text \<open>\<open>int(x + (t - self.start) * width / (self.end - self.start))\<close>.\<close>

record window =
  w_start :: int
  w_end :: int
  w_x :: rat
  w_width :: rat

definition pixel :: "(rat \<Rightarrow> rat) \<Rightarrow> window \<Rightarrow> int \<Rightarrow> int res" where
  "pixel fl w t =
     (if w_end w = w_start w then Inl ZeroDivisionError
      else Inr (trunc (fl (w_x w + fl (fl (of_int (t - w_start w) * w_width w) / of_int (w_end w - w_start w))))))"

section \<open>draw\_ranges\<close>

record rectangle =
  r_left :: int
  r_right :: int
  r_colour :: color

type_synonym range_drawing = "int \<times> rectangle list \<times> colors"

definition draw_range :: "(rat \<Rightarrow> rat) \<Rightarrow> window \<Rightarrow> range_drawing \<Rightarrow> range \<Rightarrow> range_drawing res" where
  "draw_range fl w st r =
     (case st of (last_x_drawn, rects, cs) \<Rightarrow>
        bind_res (pixel fl w (max (r_from r) (w_start w))) (\<lambda>x_start.
          bind_res (pixel fl w (min (r_to r) (w_end w))) (\<lambda>x_end.
            if x_end > last_x_drawn
            then bind_res (lookup_color (r_value r) cs) (\<lambda>(c, cs').
              Inr (x_end, rects @ [\<lparr>r_left = x_start, r_right = x_end, r_colour = c\<rparr>], cs'))
            else Inr st)))"

definition visible_ranges :: "window \<Rightarrow> range list \<Rightarrow> range list" where
  "visible_ranges w rs = (case get_ranges_bounds rs (w_start w) (w_end w) of (lo, hi) \<Rightarrow> py_slice rs lo hi)"

definition draw_ranges :: "(rat \<Rightarrow> rat) \<Rightarrow> window \<Rightarrow> range list \<Rightarrow> colors \<Rightarrow> range_drawing res" where
  "draw_ranges fl w rs cs = run_steps (draw_range fl w) (trunc (fl (w_x w - 1)), [], cs) (visible_ranges w rs)"

section \<open>draw\_events\<close>

definition draw_event :: "(rat \<Rightarrow> rat) \<Rightarrow> window \<Rightarrow> int \<times> (int \<times> 'v) list \<Rightarrow> 'v event \<Rightarrow> (int \<times> (int \<times> 'v) list) res" where
  "draw_event fl w st e =
     bind_res (pixel fl w (event.at e)) (\<lambda>real_x.
       Inr (if real_x > fst st + 2 then (real_x, snd st @ [(real_x, e_value e)]) else st))"

definition draw_events :: "(rat \<Rightarrow> rat) \<Rightarrow> window \<Rightarrow> 'v event list \<Rightarrow> (int \<times> (int \<times> 'v) list) res" where
  "draw_events fl w es =
     run_steps (draw_event fl w) (trunc (w_x w), [])
       (case get_events_bounds es (w_start w) (w_end w) of (lo, hi) \<Rightarrow> py_slice es lo hi)"

section \<open>Legend\<close>

text \<open>The colours \<open>main\<close> looks up for the values of all ranges.\<close>

fun legend_colors :: "string list \<Rightarrow> colors \<Rightarrow> (color list \<times> colors) res" where
  "legend_colors [] cs = Inr ([], cs)"
| "legend_colors (v # vs) cs =
     bind_res (lookup_color v cs) (\<lambda>(c, cs'). bind_res (legend_colors vs cs') (\<lambda>(rest, cs''). Inr (c # rest, cs'')))"

section \<open>Rows\<close>

datatype row = Event_Row string rat | Range_Row string rat

definition PADDING :: rat where
  "PADDING = 10"

text \<open>The rows of one time line from \<open>cur_y\<close> on; \<open>h\<close> is the height of the text.\<close>

definition event_rows :: "rat \<Rightarrow> string list \<Rightarrow> rat \<times> row list \<Rightarrow> rat \<times> row list" where
  "event_rows h names st = foldl (\<lambda>(y, rows) n. (y + h + 5 + PADDING, rows @ [Event_Row n y])) st names"

definition range_rows :: "rat \<Rightarrow> string list \<Rightarrow> rat \<times> row list \<Rightarrow> rat \<times> row list" where
  "range_rows h names st = foldl (\<lambda>(y, rows) n. (y + h + PADDING, rows @ [Range_Row n y])) st names"

definition timeline_rows :: "rat \<Rightarrow> timeline \<Rightarrow> rat \<times> row list \<Rightarrow> rat \<times> row list" where
  "timeline_rows h t st =
     range_rows h (map rl_name (t_ranges t)) (event_rows h (map el_name (t_strs t)) (event_rows h (map el_name (t_ints t)) st))"

text \<open>\<open>draw\<close>: the bottom line and the rows.\<close>

definition draw_rows :: "rat \<Rightarrow> timeline list \<Rightarrow> rat \<times> row list" where
  "draw_rows h ts = (case fold (timeline_rows h) ts (PADDING / 2, []) of (y, rows) \<Rightarrow> (y - PADDING / 2, rows))"

text \<open>\<open>layout\<close>: the height that is set aside.\<close>

definition range_count :: "timeline list \<Rightarrow> nat" where
  "range_count ts = sum_list (map (\<lambda>t. length (t_ranges t)) ts)"

definition event_count :: "timeline list \<Rightarrow> nat" where
  "event_count ts = sum_list (map (\<lambda>t. length (t_ints t) + length (t_strs t)) ts)"

definition rows_height :: "rat \<Rightarrow> timeline list \<Rightarrow> rat" where
  "rows_height h ts =
     (let left_n = of_nat (length ts); range_n = of_nat (range_count ts); event_n = of_nat (event_count ts);
          left_height = left_n * h + (left_n - 1) * PADDING;
          right_n = range_n + event_n;
          right_height = (right_n - 1) * PADDING + right_n * h;
          right_data_height = event_n * (h + 5) + range_n * 10 + (right_n - 1) * PADDING
      in max (max left_height right_height) right_data_height + PADDING)"

section \<open>Lemmas\<close>

lemma event_rows_y: "fst (event_rows h ns st) = fst st + of_nat (length ns) * (h + 5 + PADDING)"
  by (induction ns arbitrary: st) (auto simp: event_rows_def algebra_simps split: prod.splits)

lemma range_rows_y: "fst (range_rows h ns st) = fst st + of_nat (length ns) * (h + PADDING)"
  by (induction ns arbitrary: st) (auto simp: range_rows_def algebra_simps split: prod.splits)

lemma fold_rows_y:
  "fst (fold (timeline_rows h) ts st) = fst st + of_nat (event_count ts) * (h + 5 + PADDING) + of_nat (range_count ts) * (h + PADDING)"
  by (induction ts arbitrary: st)
    (auto simp: timeline_rows_def event_rows_y range_rows_y event_count_def range_count_def algebra_simps)

lemma draw_rows_bottom:
  "fst (draw_rows h ts) = of_nat (event_count ts) * (h + 5 + PADDING) + of_nat (range_count ts) * (h + PADDING)"
  using fold_rows_y [of h ts "(PADDING / 2, [])"] by (auto simp: draw_rows_def split: prod.splits)

lemma trunc_mono: "x \<le> y \<Longrightarrow> trunc x \<le> trunc y"
proof -
  assume a: "x \<le> y"
  have "\<lceil>x\<rceil> \<le> \<lfloor>y\<rfloor>" if "x < 0" "0 \<le> y"
  proof -
    from that have "\<lceil>x\<rceil> \<le> 0" "0 \<le> \<lfloor>y\<rfloor>" by (simp_all add: ceiling_le_zero)
    then show ?thesis by linarith
  qed
  with a show ?thesis by (auto simp: trunc_def floor_mono ceiling_mono)
qed

lemma pixel_mono:
  assumes "mono fl" and "w_start w < w_end w" and "0 \<le> w_width w" and "s \<le> t" and "pixel fl w s = Inr a" and "pixel fl w t = Inr b"
  shows "a \<le> b"
proof -
  have "(of_int (s - w_start w) :: rat) * w_width w \<le> of_int (t - w_start w) * w_width w"
    using assms(3,4) by (intro mult_right_mono) auto
  then have "fl (of_int (s - w_start w) * w_width w) / of_int (w_end w - w_start w) \<le> fl (of_int (t - w_start w) * w_width w) / of_int (w_end w - w_start w)"
    using assms(2) by (intro divide_right_mono monoD [OF assms(1)]) auto
  then have "fl (w_x w + fl (fl (of_int (s - w_start w) * w_width w) / of_int (w_end w - w_start w)))
      \<le> fl (w_x w + fl (fl (of_int (t - w_start w) * w_width w) / of_int (w_end w - w_start w)))"
    by (intro monoD [OF assms(1)] add_left_mono)
  with assms(2,5,6) trunc_mono show ?thesis by (auto simp: pixel_def)
qed

definition end_pixel :: "(rat \<Rightarrow> rat) \<Rightarrow> window \<Rightarrow> range \<Rightarrow> int" where
  "end_pixel fl w r = (case pixel fl w (min (r_to r) (w_end w)) of Inr p \<Rightarrow> p | Inl _ \<Rightarrow> 0)"

definition start_pixel :: "(rat \<Rightarrow> rat) \<Rightarrow> window \<Rightarrow> range \<Rightarrow> int" where
  "start_pixel fl w r = (case pixel fl w (max (r_from r) (w_start w)) of Inr p \<Rightarrow> p | Inl _ \<Rightarrow> 0)"

lemma pixel_returns: "w_start w < w_end w \<Longrightarrow> \<exists>p. pixel fl w t = Inr p"
  by (simp add: pixel_def)

lemma draw_range_eq:
  "w_start w < w_end w \<Longrightarrow> draw_range fl w (l, rects, cs) r =
    (if end_pixel fl w r > l
     then bind_res (lookup_color (r_value r) cs) (\<lambda>(c, cs').
       Inr (end_pixel fl w r, rects @ [\<lparr>r_left = start_pixel fl w r, r_right = end_pixel fl w r, r_colour = c\<rparr>], cs'))
     else Inr (l, rects, cs))"
  using pixel_returns [of w fl "max (r_from r) (w_start w)"] pixel_returns [of w fl "min (r_to r) (w_end w)"]
  by (auto simp: draw_range_def end_pixel_def start_pixel_def)

text \<open>The loop over ranges whose ends are in order.\<close>

definition rects_ok :: "int \<Rightarrow> int \<Rightarrow> rectangle list \<Rightarrow> bool" where
  "rects_ok init l rects \<longleftrightarrow> sorted_wrt (<) (init # map r_right rects) \<and> l = last (init # map r_right rects)"

lemma draw_loop:
  assumes "w_start w < w_end w" and "run_steps (draw_range fl w) (l, rects, cs) rs = Inr (l', rects', cs')"
    and "rects_ok init l rects" and "sorted (map (end_pixel fl w) rs)" and "\<forall>r \<in> set rs. l \<le> end_pixel fl w r \<or> rects = []"
  shows "rects_ok init l' rects' \<and> (\<exists>new. rects' = rects @ new \<and> (\<forall>q \<in> set new. \<exists>r \<in> set rs. r_left q = start_pixel fl w r \<and> r_right q = end_pixel fl w r)) \<and>
    (\<forall>r \<in> set rs. end_pixel fl w r \<le> init \<or> end_pixel fl w r \<in> r_right ` set rects')"
  using assms(2-)
proof (induction rs arbitrary: l rects cs)
  case (Cons r rs)
  show ?case
  proof (cases "end_pixel fl w r > l")
    case True
    with Cons.prems(1) assms(1) obtain c cs1 where
      rest: "run_steps (draw_range fl w) (end_pixel fl w r, rects @ [\<lparr>r_left = start_pixel fl w r, r_right = end_pixel fl w r, r_colour = c\<rparr>], cs1) rs = Inr (l', rects', cs')"
      by (auto simp: draw_range_eq bind_res_Inr_iff)
    let ?q = "\<lparr>r_left = start_pixel fl w r, r_right = end_pixel fl w r, r_colour = c\<rparr>"
    have "rects_ok init (end_pixel fl w r) (rects @ [?q])"
      using Cons.prems(2) True by (cases rects rule: rev_cases) (auto simp: rects_ok_def sorted_wrt_append)
    with Cons.IH [OF rest] Cons.prems(3) obtain new where n: "rects_ok init l' rects'" "rects' = (rects @ [?q]) @ new"
      "\<forall>q \<in> set new. \<exists>r \<in> set rs. r_left q = start_pixel fl w r \<and> r_right q = end_pixel fl w r"
      "\<forall>r \<in> set rs. end_pixel fl w r \<le> init \<or> end_pixel fl w r \<in> r_right ` set rects'" by auto
    have "\<forall>q \<in> set (?q # new). \<exists>x \<in> set (r # rs). r_left q = start_pixel fl w x \<and> r_right q = end_pixel fl w x" using n(3) by auto
    moreover have "rects' = rects @ (?q # new)" using n(2) by simp
    moreover have "end_pixel fl w r \<in> r_right ` set rects'" unfolding n(2) by force
    ultimately show ?thesis using n(1,4) by auto
  next
    case False
    with Cons.prems(1) assms(1) have rest: "run_steps (draw_range fl w) (l, rects, cs) rs = Inr (l', rects', cs')"
      by (simp add: draw_range_eq)
    from Cons.IH [OF rest Cons.prems(2)] Cons.prems(3,4) obtain new where n: "rects_ok init l' rects'" "rects' = rects @ new"
      "\<forall>q \<in> set new. \<exists>r \<in> set rs. r_left q = start_pixel fl w r \<and> r_right q = end_pixel fl w r"
      "\<forall>r \<in> set rs. end_pixel fl w r \<le> init \<or> end_pixel fl w r \<in> r_right ` set rects'" by auto
    have "end_pixel fl w r \<le> init \<or> end_pixel fl w r \<in> r_right ` set rects'"
    proof (cases "rects = []")
      case True
      with False Cons.prems(2) show ?thesis by (simp add: rects_ok_def)
    next
      case ne: False
      with False Cons.prems(4) have "end_pixel fl w r = l" by auto
      moreover have "l \<in> r_right ` set rects" using Cons.prems(2) ne by (auto simp: rects_ok_def last_map)
      ultimately show ?thesis using n(2) by auto
    qed
    with n show ?thesis by (intro conjI exI [of _ new]) auto
  qed
qed (auto simp: rects_ok_def)

text \<open>The loop over events in order.\<close>

definition event_pixel :: "(rat \<Rightarrow> rat) \<Rightarrow> window \<Rightarrow> 'v event \<Rightarrow> int" where
  "event_pixel fl w e = (case pixel fl w (event.at e) of Inr p \<Rightarrow> p | Inl _ \<Rightarrow> 0)"

lemma draw_event_eq: "w_start w < w_end w \<Longrightarrow> draw_event fl w st e =
    Inr (if event_pixel fl w e > fst st + 2 then (event_pixel fl w e, snd st @ [(event_pixel fl w e, e_value e)]) else st)"
  using pixel_returns [of w fl "event.at e"] by (auto simp: draw_event_def event_pixel_def)

lemma event_loop:
  assumes "w_start w < w_end w" and "sorted (map (event_pixel fl w) es)" and "\<forall>e \<in> set es. l \<le> event_pixel fl w e"
  shows "\<exists>l' new. run_steps (draw_event fl w) (l, labels) es = Inr (l', labels @ new) \<and>
    sorted_wrt (\<lambda>p q. p + 2 < q) (l # map fst new) \<and> set new \<subseteq> (\<lambda>e. (event_pixel fl w e, e_value e)) ` set es \<and>
    (\<forall>e \<in> set es. \<exists>p \<in> set (l # map fst new). p \<le> event_pixel fl w e \<and> event_pixel fl w e \<le> p + 2)"
  using assms(2,3)
proof (induction es arbitrary: l labels)
  case (Cons e es)
  let ?p = "event_pixel fl w e"
  define l1 where "l1 = (if ?p > l + 2 then ?p else l)"
  define n1 where "n1 = (if ?p > l + 2 then [(?p, e_value e)] else [])"
  have "\<forall>x \<in> set es. l1 \<le> event_pixel fl w x" using Cons.prems by (auto simp: l1_def)
  with Cons.IH [of l1 "labels @ n1"] Cons.prems obtain l' new where
    n: "run_steps (draw_event fl w) (l1, labels @ n1) es = Inr (l', (labels @ n1) @ new)"
      "sorted_wrt (\<lambda>p q. p + 2 < q) (l1 # map fst new)" "set new \<subseteq> (\<lambda>e. (event_pixel fl w e, e_value e)) ` set es"
      "\<forall>e \<in> set es. \<exists>p \<in> set (l1 # map fst new). p \<le> event_pixel fl w e \<and> event_pixel fl w e \<le> p + 2" by auto
  have "run_steps (draw_event fl w) (l, labels) (e # es) = Inr (l', labels @ (n1 @ new))"
    using n(1) assms(1) by (simp add: draw_event_eq l1_def n1_def split: if_splits)
  moreover have "sorted_wrt (\<lambda>p q. p + 2 < q) (l # map fst (n1 @ new))"
    using n(2) by (auto simp: l1_def n1_def split: if_splits)
  moreover have "set (n1 @ new) \<subseteq> (\<lambda>e. (event_pixel fl w e, e_value e)) ` set (e # es)" using n(3) by (auto simp: n1_def)
  moreover have "\<forall>x \<in> set (e # es). \<exists>p \<in> set (l # map fst (n1 @ new)). p \<le> event_pixel fl w x \<and> event_pixel fl w x \<le> p + 2"
  proof -
    have sub: "set (l1 # map fst new) \<subseteq> set (l # map fst (n1 @ new))" by (auto simp: l1_def n1_def)
    have "l1 \<le> ?p \<and> ?p \<le> l1 + 2" using Cons.prems(2) by (auto simp: l1_def)
    with n(4) have "\<forall>x \<in> set (e # es). \<exists>p \<in> set (l1 # map fst new). p \<le> event_pixel fl w x \<and> event_pixel fl w x \<le> p + 2" by auto
    with sub show ?thesis by blast
  qed
  ultimately show ?case by blast
qed auto

text \<open>Colours.\<close>

definition unnamed :: "colors \<Rightarrow> string list \<Rightarrow> string list" where
  "unnamed cs vs = filter (\<lambda>v. map_of (named cs) v = None) vs"

lemma lookup_named: "map_of (named cs) v = Some c \<Longrightarrow> lookup_color v cs = Inr (c, cs)"
  by (simp add: lookup_color_def)

lemma lookup_spare: "map_of (named cs) v = None \<Longrightarrow> spare cs \<noteq> [] \<Longrightarrow>
    \<exists>cs'. lookup_color v cs = Inr (last (spare cs), cs') \<and> named cs' = dict_set v (last (spare cs)) (named cs) \<and> spare cs' = butlast (spare cs)"
  by (simp add: lookup_color_def add_color_def)

lemma unnamed_update:
  "v \<notin> set vs \<Longrightarrow> named cs' = dict_set v c (named cs) \<Longrightarrow> unnamed cs' vs = unnamed cs vs"
  by (auto simp: unnamed_def intro!: filter_cong)

lemma legend_colors_cases:
  assumes "distinct vs"
  shows "if length (spare cs) < length (unnamed cs vs) then legend_colors vs cs = Inl IndexError
    else \<exists>rest cs'. legend_colors vs cs = Inr (rest, cs') \<and> (\<forall>v. v \<in> set vs \<or> map_of (named cs) v \<noteq> None \<longrightarrow> map_of (named cs') v \<noteq> None)"
  using assms
proof (induction vs arbitrary: cs)
  case (Cons v vs)
  show ?case
  proof (cases "map_of (named cs) v")
    case (Some c)
    then have u: "unnamed cs (v # vs) = unnamed cs vs" by (simp add: unnamed_def)
    from Some have "map_of (named cs) v \<noteq> None" by simp
    with Cons.IH [of cs] Cons.prems Some show ?thesis by (auto simp: u lookup_named simp del: not_None_eq)
  next
    case None
    show ?thesis
    proof (cases "spare cs = []")
      case True
      with None show ?thesis by (simp add: lookup_color_def unnamed_def)
    next
      case False
      from lookup_spare [OF None False] obtain cs1 where l: "lookup_color v cs = Inr (last (spare cs), cs1)"
        and n: "named cs1 = dict_set v (last (spare cs)) (named cs)" and sp: "spare cs1 = butlast (spare cs)" by blast
      have u: "unnamed cs1 vs = unnamed cs vs" using Cons.prems n by (intro unnamed_update) auto
      have c: "unnamed cs (v # vs) = v # unnamed cs vs" using None by (simp add: unnamed_def)
      have len: "length (spare cs1) < length (unnamed cs1 vs) \<longleftrightarrow> length (spare cs) < length (unnamed cs (v # vs))"
        using False by (cases "spare cs" rule: rev_cases) (auto simp: sp u c)
      have nm: "map_of (named cs1) x \<noteq> None" if "x = v \<or> map_of (named cs) x \<noteq> None" for x using that by (auto simp: n simp del: not_None_eq)
      show ?thesis
      proof (cases "length (spare cs) < length (unnamed cs (v # vs))")
        case True
        with len Cons.IH [of cs1] Cons.prems l show ?thesis by simp
      next
        case False
        with len Cons.IH [of cs1] Cons.prems obtain rest cs' where r: "legend_colors vs cs1 = Inr (rest, cs')"
          "\<forall>x. x \<in> set vs \<or> map_of (named cs1) x \<noteq> None \<longrightarrow> map_of (named cs') x \<noteq> None" by auto
        with False nm l show ?thesis by (auto simp del: not_None_eq)
      qed
    qed
  qed
qed (simp add: unnamed_def)

lemma draw_named:
  assumes "w_start w < w_end w" and "\<forall>r \<in> set rs. map_of (named cs) (r_value r) \<noteq> None"
  shows "\<exists>l' rects'. run_steps (draw_range fl w) (l, rects, cs) rs = Inr (l', rects', cs)"
  using assms(2)
proof (induction rs arbitrary: l rects)
  case (Cons r rs)
  then obtain c where "map_of (named cs) (r_value r) = Some c" by auto
  with Cons assms(1) show ?case by (auto simp: draw_range_eq lookup_named)
qed simp

lemma visible_subset: "set (visible_ranges w rs) \<subseteq> set rs"
  by (auto simp: visible_ranges_def split: prod.splits dest: subsetD [OF set_py_slice])

section \<open>Properties\<close>

lemma draw_error:
  "w_start w < w_end w \<Longrightarrow> run_steps (draw_range fl w) st rs = Inl e \<Longrightarrow> e = IndexError"
proof (induction rs arbitrary: st)
  case (Cons r rs)
  obtain l rects cs where st: "st = (l, rects, cs)" by (cases st)
  have "draw_range fl w st r = Inl e' \<Longrightarrow> e' = IndexError" for e'
    unfolding st draw_range_eq [OF Cons.prems(1)] by (auto simp: lookup_color_def bind_res_Inl_iff split: if_splits option.splits)
  with Cons show ?case by (auto simp: bind_res_Inl_iff)
qed simp

lemma drawn_when_returned:
  assumes "mono fl" and "w_start w < w_end w" and "0 \<le> w_width w" and "sorted (map r_to (visible_ranges w rs))"
    and "draw_ranges fl w rs cs = Inr (l, rects, cs')"
  shows "sorted_wrt (<) (map r_right rects)"
    and "\<forall>r \<in> set (visible_ranges w rs). trunc (fl (w_x w - 1)) < end_pixel fl w r \<longrightarrow> (\<exists>q \<in> set rects. r_right q = end_pixel fl w r)"
    and "\<forall>q \<in> set rects. \<exists>r \<in> set (visible_ranges w rs). r_left q = start_pixel fl w r \<and> r_right q = end_pixel fl w r"
proof -
  let ?vs = "visible_ranges w rs" and ?init = "trunc (fl (w_x w - 1))"
  have "end_pixel fl w a \<le> end_pixel fl w b" if "r_to a \<le> r_to b" for a b
  proof -
    obtain p q where p: "pixel fl w (min (r_to a) (w_end w)) = Inr p" "pixel fl w (min (r_to b) (w_end w)) = Inr q"
      using pixel_returns [OF assms(2)] by metis
    have "min (r_to a) (w_end w) \<le> min (r_to b) (w_end w)" using that by simp
    from pixel_mono [OF assms(1-3) this p] p show ?thesis by (simp add: end_pixel_def)
  qed
  then have "sorted (map (end_pixel fl w) ?vs)"
    unfolding sorted_map by (rule sorted_wrt_mono_rel [OF _ assms(4) [unfolded sorted_map]])
  from draw_loop [OF assms(2) assms(5) [unfolded draw_ranges_def] _ this, of ?init]
  have r: "rects_ok ?init l rects" "\<forall>q \<in> set rects. \<exists>r \<in> set ?vs. r_left q = start_pixel fl w r \<and> r_right q = end_pixel fl w r"
    "\<forall>r \<in> set ?vs. end_pixel fl w r \<le> ?init \<or> end_pixel fl w r \<in> r_right ` set rects"
    by (auto simp: rects_ok_def)
  show "sorted_wrt (<) (map r_right rects)" using r(1) by (simp add: rects_ok_def)
  show "\<forall>r \<in> set ?vs. ?init < end_pixel fl w r \<longrightarrow> (\<exists>q \<in> set rects. r_right q = end_pixel fl w r)" using r(3) by fastforce
  show "\<forall>q \<in> set rects. \<exists>r \<in> set ?vs. r_left q = start_pixel fl w r \<and> r_right q = end_pixel fl w r" by (rule r(2))
qed

text \<open>Of the visible ranges of a line, with their ends in order, each has its right end on a pixel where a rectangle ends, unless that
  pixel lies before the area; rectangles end on increasing pixels, and each is that of a range.  The ranges that are left out are
  those that end on a pixel already drawn.  Nothing but a lack of colours keeps
  the line from being drawn.\<close>

theorem ranges_drawn:
  assumes "mono fl" and "w_start w < w_end w" and "0 \<le> w_width w" and "sorted (map r_to (visible_ranges w rs))"
  shows "case draw_ranges fl w rs cs of
      Inl e \<Rightarrow> e = IndexError
    | Inr (l, rects, cs') \<Rightarrow> sorted_wrt (<) (map r_right rects) \<and>
        (\<forall>r \<in> set (visible_ranges w rs). trunc (fl (w_x w - 1)) < end_pixel fl w r \<longrightarrow> (\<exists>q \<in> set rects. r_right q = end_pixel fl w r)) \<and>
        (\<forall>q \<in> set rects. \<exists>r \<in> set (visible_ranges w rs). r_left q = start_pixel fl w r \<and> r_right q = end_pixel fl w r)"
proof (cases "draw_ranges fl w rs cs")
  case (Inl e)
  with draw_error [OF assms(2)] show ?thesis by (simp add: draw_ranges_def)
next
  case (Inr d)
  obtain l rects cs' where d: "d = (l, rects, cs')" by (cases d)
  from drawn_when_returned [OF assms Inr [unfolded d]] show ?thesis unfolding Inr d by simp
qed

definition sample_window :: window where
  "sample_window = \<lparr>w_start = 0, w_end = 100, w_x = 50, w_width = 200\<rparr>"

definition sample_ranges :: "range list" where
  "sample_ranges = [\<lparr>r_from = 0, r_to = 40, r_value = ''busy''\<rparr>, \<lparr>r_from = 40, r_to = 90, r_value = ''idle''\<rparr>, \<lparr>r_from = 90, r_to = 120, r_value = ''busy''\<rparr>]"

theorem ranges_drawn_witness:
  "\<exists>l rects cs. draw_ranges exact sample_window sample_ranges \<lparr>named = [], spare = default_colors\<rparr> = Inr (l, rects, cs) \<and>
     map r_right rects = [130, 230, 250] \<and> sorted_wrt (<) (map r_right rects)"
proof -
  have d: "draw_ranges exact sample_window sample_ranges \<lparr>named = [], spare = default_colors\<rparr> =
      Inr (250, [\<lparr>r_left = 50, r_right = 130, r_colour = (0, 1, 1)\<rparr>, \<lparr>r_left = 130, r_right = 230, r_colour = (1, 0, 1)\<rparr>,
        \<lparr>r_left = 230, r_right = 250, r_colour = (0, 1, 1)\<rparr>],
        \<lparr>named = [(''busy'', (0, 1, 1)), (''idle'', (1, 0, 1))], spare = [(1, 0, 0), (0, 1, 0), (0, 0, 1), (1, 1, 0)]\<rparr>)"
    by code_simp
  have m: "mono exact" by (simp add: exact_eq mono_def)
  have s: "sorted (map r_to (visible_ranges sample_window sample_ranges))" by code_simp
  have w: "w_start sample_window < w_end sample_window" "0 \<le> w_width sample_window" by (simp_all add: sample_window_def)
  from ranges_drawn [OF m w s, of "\<lparr>named = [], spare = default_colors\<rparr>"] d show ?thesis by simp
qed

text \<open>The labels of events are more than two pixels apart, each is that of an event, and each event has a label, or the left edge of
  the area, at most two pixels to its left.\<close>

theorem events_drawn:
  assumes "mono fl" and "w_start w < w_end w" and "0 \<le> w_width w"
    and "vs = (case get_events_bounds es (w_start w) (w_end w) of (lo, hi) \<Rightarrow> py_slice es lo hi)"
    and "sorted (map event.at vs)" and "\<forall>e \<in> set vs. trunc (w_x w) \<le> event_pixel fl w e"
  shows "\<exists>l labels. draw_events fl w es = Inr (l, labels) \<and> sorted_wrt (\<lambda>p q. p + 2 < q) (trunc (w_x w) # map fst labels) \<and>
    set labels \<subseteq> (\<lambda>e. (event_pixel fl w e, e_value e)) ` set vs \<and>
    (\<forall>e \<in> set vs. \<exists>p \<in> set (trunc (w_x w) # map fst labels). p \<le> event_pixel fl w e \<and> event_pixel fl w e \<le> p + 2)"
proof -
  have mono: "event_pixel fl w a \<le> event_pixel fl w b" if "event.at a \<le> event.at b" for a b :: "'a event"
  proof -
    obtain p q where p: "pixel fl w (event.at a) = Inr p" "pixel fl w (event.at b) = Inr q" using pixel_returns [OF assms(2)] by metis
    from pixel_mono [OF assms(1-3) that p] p show ?thesis by (simp add: event_pixel_def)
  qed
  have "sorted (map (event_pixel fl w) vs)"
    unfolding sorted_map by (rule sorted_wrt_mono_rel [OF _ assms(5) [unfolded sorted_map]]) (rule mono)
  from event_loop [OF assms(2) this assms(6), of "[]"] show ?thesis by (auto simp: draw_events_def simp flip: assms(4))
qed

definition sample_events :: "int event list" where
  "sample_events = map (\<lambda>(t, v). event.make t v) [(10, 1), (11, 2), (60, 3)]"

theorem events_drawn_witness:
  "\<exists>l labels. draw_events exact sample_window sample_events = Inr (l, labels) \<and> sorted_wrt (\<lambda>p q. p + 2 < q) (50 # map fst labels)"
proof -
  have m: "mono exact" by (simp add: exact_eq mono_def)
  have w: "w_start sample_window < w_end sample_window" "0 \<le> w_width sample_window" "trunc (w_x sample_window) = 50"
    by (simp_all add: sample_window_def trunc_def)
  let ?vs = "case get_events_bounds sample_events (w_start sample_window) (w_end sample_window) of (lo, hi) \<Rightarrow> py_slice sample_events lo hi"
  have s: "sorted (map event.at ?vs)" by code_simp
  have e: "list_all (\<lambda>e. trunc (w_x sample_window) \<le> event_pixel exact sample_window e) ?vs" by code_simp
  from events_drawn [OF m w(1,2) refl s] e show ?thesis unfolding list_all_iff w(3) by blast
qed

text \<open>There are six colours for values without a colour of their own: with more such values the program ends in an \<open>IndexError\<close>
  when it makes the legend, and otherwise the legend names a colour for every value, so that drawing never runs out of colours and
  leaves them as they are.\<close>

theorem colours_suffice:
  assumes "w_start w < w_end w" and "t \<in> set ts" and "line \<in> set (t_ranges t)"
  shows "if 6 < length (unnamed \<lparr>named = own, spare = default_colors\<rparr> (all_range_values ts))
    then legend_colors (all_range_values ts) \<lparr>named = own, spare = default_colors\<rparr> = Inl IndexError
    else \<exists>cols cs l rects. legend_colors (all_range_values ts) \<lparr>named = own, spare = default_colors\<rparr> = Inr (cols, cs) \<and>
      draw_ranges fl w (rl_ranges line) cs = Inr (l, rects, cs)"
proof -
  let ?cs = "\<lparr>named = own, spare = default_colors\<rparr>"
  have d: "distinct (all_range_values ts)" by (simp add: all_range_values_def)
  have six: "length (spare ?cs) = 6" by (simp add: default_colors_def)
  show ?thesis
  proof (cases "6 < length (unnamed ?cs (all_range_values ts))")
    case True
    with legend_colors_cases [OF d, of ?cs] six show ?thesis by simp
  next
    case False
    with legend_colors_cases [OF d, of ?cs] six obtain cols cs where
      c: "legend_colors (all_range_values ts) ?cs = Inr (cols, cs)" "\<forall>v \<in> set (all_range_values ts). map_of (named cs) v \<noteq> None" by auto
    have "r_value r \<in> set (all_range_values ts)" if "r \<in> set (rl_ranges line)" for r
      using that assms(2,3) by (auto simp: all_range_values_def)
    with c(2) visible_subset [of w "rl_ranges line"] have "\<forall>r \<in> set (visible_ranges w (rl_ranges line)). map_of (named cs) (r_value r) \<noteq> None" by blast
    from draw_named [OF assms(1) this] c(1) False show ?thesis by (simp add: draw_ranges_def)
  qed
qed

theorem colours_suffice_witness:
  "legend_colors (all_range_values [\<lparr>t_ranges = [\<lparr>rl_name = ''state'', rl_ranges = map (\<lambda>v. \<lparr>r_from = 0, r_to = 0, r_value = [v]\<rparr>) ''abcdefg''\<rparr>],
      t_strs = [], t_ints = [], t_name = ''node''\<rparr>]) \<lparr>named = [], spare = default_colors\<rparr> = Inl IndexError"
proof -
  let ?line = "\<lparr>rl_name = ''state'', rl_ranges = map (\<lambda>v. \<lparr>r_from = 0, r_to = 0, r_value = [v]\<rparr>) ''abcdefg''\<rparr>"
  let ?t = "\<lparr>t_ranges = [?line], t_strs = [], t_ints = [], t_name = ''node''\<rparr>"
  have w: "w_start sample_window < w_end sample_window" by (simp add: sample_window_def)
  have t: "?t \<in> set [?t]" "?line \<in> set (t_ranges ?t)" by simp_all
  have "6 < length (unnamed \<lparr>named = [], spare = default_colors\<rparr> (all_range_values [?t]))" by code_simp
  with colours_suffice [OF w t, of "[]" exact] show ?thesis by presburger
qed

text \<open>The rows that are drawn fit into the height set aside for them if there are no events, no ranges or the text is at most ten
  high.  Otherwise they end below it, on top of the scale: by the smaller one of five for each line of events and what the text has
  above ten for each line of ranges, when the names of the time lines need no more room than the lines.\<close>

theorem rows_fit:
  assumes "0 \<le> h"
  shows "event_count ts = 0 \<or> range_count ts = 0 \<or> h \<le> 10 \<Longrightarrow> fst (draw_rows h ts) \<le> rows_height h ts"
    and "10 < h \<Longrightarrow> length ts \<le> event_count ts + range_count ts \<Longrightarrow>
      fst (draw_rows h ts) = rows_height h ts + min (5 * of_nat (event_count ts)) ((h - 10) * of_nat (range_count ts))"
proof -
  define e :: rat where "e = of_nat (event_count ts)"
  define r :: rat where "r = of_nat (range_count ts)"
  define n :: rat where "n = of_nat (length ts)"
  have nn: "0 \<le> e" "0 \<le> r" by (simp_all add: e_def r_def)
  have d: "fst (draw_rows h ts) = e * (h + 15) + r * (h + 10)"
    by (simp add: draw_rows_bottom PADDING_def e_def r_def add.commute)
  have H: "rows_height h ts = max (max (n * h + (n - 1) * 10) ((r + e - 1) * 10 + (r + e) * h)) (e * (h + 5) + r * 10 + (r + e - 1) * 10) + 10"
    by (simp add: rows_height_def PADDING_def Let_def e_def r_def n_def)
  show "fst (draw_rows h ts) \<le> rows_height h ts" if "event_count ts = 0 \<or> range_count ts = 0 \<or> h \<le> 10"
  proof -
    from that have "e = 0 \<or> r = 0 \<or> h \<le> 10" by (auto simp: e_def r_def)
    then have "e * (h + 15) + r * (h + 10) \<le> (r + e - 1) * 10 + (r + e) * h + 10 \<or>
        e * (h + 15) + r * (h + 10) \<le> e * (h + 5) + r * 10 + (r + e - 1) * 10 + 10"
      using nn mult_left_mono [of h 10 r] by (auto simp: algebra_simps)
    then show ?thesis unfolding d H by linarith
  qed
  show "fst (draw_rows h ts) = rows_height h ts + min (5 * e) ((h - 10) * r)"
    if "10 < h" "length ts \<le> event_count ts + range_count ts"
  proof -
    from that(2) have "n \<le> r + e" unfolding n_def e_def r_def by (metis of_nat_add of_nat_le_iff add.commute)
    then have "n * (h + 10) \<le> (r + e) * (h + 10)" using that(1) by (intro mult_right_mono) auto
    then have "max (max (n * h + (n - 1) * 10) ((r + e - 1) * 10 + (r + e) * h)) (e * (h + 5) + r * 10 + (r + e - 1) * 10) =
        max ((r + e - 1) * 10 + (r + e) * h) (e * (h + 5) + r * 10 + (r + e - 1) * 10)"
      by (simp add: algebra_simps max_def)
    then show ?thesis unfolding d H by (simp add: algebra_simps max_def min_def)
  qed
qed


theorem rows_fit_witness:
  "fst (draw_rows 12 [\<lparr>t_ranges = [\<lparr>rl_name = ''state'', rl_ranges = []\<rparr>], t_strs = [], t_ints = [\<lparr>el_name = ''queue'', el_events = []\<rparr>], t_name = ''node''\<rparr>]) =
   rows_height 12 [\<lparr>t_ranges = [\<lparr>rl_name = ''state'', rl_ranges = []\<rparr>], t_strs = [], t_ints = [\<lparr>el_name = ''queue'', el_events = []\<rparr>], t_name = ''node''\<rparr>] + 2"
  using rows_fit(2) [of 12 "[\<lparr>t_ranges = [\<lparr>rl_name = ''state'', rl_ranges = []\<rparr>], t_strs = [], t_ints = [\<lparr>el_name = ''queue'', el_events = []\<rparr>], t_name = ''node''\<rparr>]"]
  by (simp add: event_count_def range_count_def)

end
