(* ===== verification/Viz_Wifi.thy ===== *)
theory Viz_Wifi
  imports Viz_Scene
begin

text \<open>
  \<open>visualizer/plugins/wifi_intrastructure_link.py\<close>: the dashed lines from stations to their access points.  A link knows
  its station and its access point, an access point has the links that end at it, and a line is drawn between the positions
  of both.  What \<open>ns3\<close> says of a device is a parameter of each update.
\<close>

section \<open>State\<close>

record wifi_link =
  station :: int
  access_point :: "int option"
  visible :: bool
  wifi_line :: "(point \<times> point) option"
  alive :: bool

text \<open>The links of the plugin in the order they were made, the links of each node, and where the nodes are.\<close>

record wifi_world =
  wifi_links :: "wifi_link list"
  links_of :: "(int, nat list) dict"
  place_of :: "(int, point) dict"

record monitor =
  access_points :: "(string, int) dict"
  stations :: "(nat \<times> int \<times> nat) list"

definition place_at :: "wifi_world \<Rightarrow> int \<Rightarrow> point" where
  "place_at w n = (case map_of (place_of w) n of Some p \<Rightarrow> p | None \<Rightarrow> (0, 0))"

definition node_links_of :: "wifi_world \<Rightarrow> int \<Rightarrow> nat list" where
  "node_links_of w n = (case map_of (links_of w) n of Some ks \<Rightarrow> ks | None \<Rightarrow> [])"

section \<open>WifiLink\<close>

definition add_link :: "nat \<Rightarrow> int \<Rightarrow> wifi_world \<Rightarrow> wifi_world" where
  "add_link k n w = w\<lparr>links_of := dict_set n (node_links_of w n @ [k]) (links_of w)\<rparr>"

definition remove_link :: "nat \<Rightarrow> int \<Rightarrow> wifi_world \<Rightarrow> wifi_world res" where
  "remove_link k n w =
     (if k \<in> set (node_links_of w n) then Inr (w\<lparr>links_of := dict_set n (remove1 k (node_links_of w n)) (links_of w)\<rparr>) else Inl ValueError)"

definition on_link :: "nat \<Rightarrow> (wifi_link \<Rightarrow> wifi_link) \<Rightarrow> wifi_world \<Rightarrow> wifi_world" where
  "on_link k f w = w\<lparr>wifi_links := (wifi_links w)[k := f (wifi_links w ! k)]\<rparr>"

definition update_line :: "nat \<Rightarrow> wifi_world \<Rightarrow> wifi_world" where
  "update_line k w =
     (case access_point (wifi_links w ! k) of
        None \<Rightarrow> w
      | Some ap \<Rightarrow> on_link k (\<lambda>l. l\<lparr>wifi_line := Some (place_at w (station l), place_at w ap)\<rparr>) w)"

definition set_ap :: "nat \<Rightarrow> int option \<Rightarrow> wifi_world \<Rightarrow> wifi_world res" where
  "set_ap k ap w =
     (if ap = access_point (wifi_links w ! k) then Inr w
      else bind_res (case access_point (wifi_links w ! k) of None \<Rightarrow> Inr w | Some old \<Rightarrow> remove_link k old w) (\<lambda>w1.
        let w2 = on_link k (\<lambda>l. l\<lparr>access_point := ap, visible := (ap \<noteq> None)\<rparr>) w1;
            w3 = (case ap of None \<Rightarrow> w2 | Some n \<Rightarrow> add_link k n w2)
        in Inr (update_line k w3)))"

text \<open>\<open>__init__\<close>: \<open>set_ap(None)\<close> returns at once, because there is no access point yet, so that the group stays visible; the
  lines in it have no points.\<close>

definition new_link :: "int \<Rightarrow> wifi_world \<Rightarrow> nat \<times> wifi_world" where
  "new_link sta w =
     (length (wifi_links w),
      w\<lparr>wifi_links := wifi_links w @ [\<lparr>station = sta, access_point = None, visible = True, wifi_line = None, alive = True\<rparr>]\<rparr>)"

text \<open>\<open>destroy\<close> forgets both ends; the access point is not told.\<close>

definition destroy_link :: "nat \<Rightarrow> wifi_world \<Rightarrow> wifi_world" where
  "destroy_link k w = on_link k (\<lambda>l. l\<lparr>access_point := None, alive := False\<rparr>) w"

section \<open>WifiLinkMonitor\<close>

datatype wifi_mac = Sta_Mac | Ap_Mac string | Other_Mac

text \<open>The wifi devices of the nodes: (node, [(device, MAC)]).\<close>

type_synonym devices = "(int \<times> (nat \<times> wifi_mac) list) list"

definition scan_device :: "int \<Rightarrow> nat \<times> wifi_mac \<Rightarrow> monitor \<times> wifi_world \<Rightarrow> monitor \<times> wifi_world" where
  "scan_device n d mw =
     (case (d, mw) of ((dev, mac), (m, w)) \<Rightarrow>
        (case mac of
           Sta_Mac \<Rightarrow> (case new_link n w of (k, w') \<Rightarrow> (m\<lparr>stations := stations m @ [(dev, n, k)]\<rparr>, w'))
         | Ap_Mac bssid \<Rightarrow> (m\<lparr>access_points := dict_set bssid n (access_points m)\<rparr>, w)
         | Other_Mac \<Rightarrow> (m, w)))"

definition scan_wifi :: "devices \<Rightarrow> monitor \<times> wifi_world \<Rightarrow> monitor \<times> wifi_world" where
  "scan_wifi ds mw =
     fold (\<lambda>(n, devs). fold (scan_device n) devs) ds
       (\<lparr>access_points = [], stations = []\<rparr>, fold (\<lambda>(dev, n, k). destroy_link k) (stations (fst mw)) (snd mw))"

text \<open>What a device says: whether its link is up, and its BSSID.\<close>

definition NO_BSSID :: string where
  "NO_BSSID = ''00:00:00:00:00:00''"

definition wanted_ap :: "monitor \<Rightarrow> (nat \<Rightarrow> bool \<times> string) \<Rightarrow> nat \<Rightarrow> int option res" where
  "wanted_ap m says dev =
     (case says dev of (up, bssid) \<Rightarrow>
        if \<not> up \<or> bssid = NO_BSSID then Inr None
        else bind_res (dict_get (access_points m) bssid) (\<lambda>n. Inr (Some n)))"

definition periodic_step :: "monitor \<Rightarrow> (nat \<Rightarrow> bool \<times> string) \<Rightarrow> wifi_world \<Rightarrow> nat \<times> int \<times> nat \<Rightarrow> wifi_world res" where
  "periodic_step m says w s = (case s of (dev, n, k) \<Rightarrow> bind_res (wanted_ap m says dev) (\<lambda>ap. set_ap k ap w))"

definition simulation_periodic_update :: "(nat \<Rightarrow> bool \<times> string) \<Rightarrow> monitor \<times> wifi_world \<Rightarrow> wifi_world res" where
  "simulation_periodic_update says mw = run_steps (periodic_step (fst mw) says) (snd mw) (stations (fst mw))"

definition update_wifi_view :: "monitor \<times> wifi_world \<Rightarrow> wifi_world" where
  "update_wifi_view mw = fold (\<lambda>(dev, n, k). update_line k) (stations (fst mw)) (snd mw)"

text \<open>A node that is given a position redraws its links.\<close>

definition move_wifi_node :: "int \<Rightarrow> point \<Rightarrow> wifi_world \<Rightarrow> wifi_world" where
  "move_wifi_node n p w = fold update_line (node_links_of w n) (w\<lparr>place_of := dict_set n p (place_of w)\<rparr>)"

section \<open>Invariant\<close>

text \<open>An access point has exactly the links that lead to it, among the links that are alive; a dead one leads nowhere, and no
  node has a link that was not made.\<close>

definition links_agree :: "wifi_world \<Rightarrow> bool" where
  "links_agree w \<longleftrightarrow>
     (\<forall>k < length (wifi_links w). alive (wifi_links w ! k) \<longrightarrow>
        (\<forall>n. count_list (node_links_of w n) k = (if access_point (wifi_links w ! k) = Some n then 1 else 0))) \<and>
     (\<forall>k. length (wifi_links w) \<le> k \<longrightarrow> (\<forall>n. count_list (node_links_of w n) k = 0)) \<and>
     (\<forall>k < length (wifi_links w). \<not> alive (wifi_links w ! k) \<longrightarrow> access_point (wifi_links w ! k) = None)"

definition stations_ok :: "monitor \<times> wifi_world \<Rightarrow> bool" where
  "stations_ok mw \<longleftrightarrow>
     distinct (map (snd \<circ> snd) (stations (fst mw))) \<and>
     (\<forall>(dev, n, k) \<in> set (stations (fst mw)). k < length (wifi_links (snd mw)) \<and> alive (wifi_links (snd mw) ! k) \<and> station (wifi_links (snd mw) ! k) = n)"

lemma node_links_simps [simp]:
  "node_links_of (add_link k n w) m = (if m = n then node_links_of w n @ [k] else node_links_of w m)"
  "node_links_of (on_link k f w) m = node_links_of w m"
  "node_links_of (update_line k w) m = node_links_of w m"
  "node_links_of (w\<lparr>place_of := d\<rparr>) m = node_links_of w m"
  by (auto simp: node_links_of_def add_link_def on_link_def update_line_def split: option.split)

lemma links_simps [simp]:
  "wifi_links (add_link k n w) = wifi_links w"
  "wifi_links (on_link k f w) = (wifi_links w)[k := f (wifi_links w ! k)]"
  "place_of (add_link k n w) = place_of w"
  "place_of (on_link k f w) = place_of w"
  "place_of (update_line k w) = place_of w"
  by (simp_all add: add_link_def on_link_def update_line_def split: option.split)

lemma update_line_links: "wifi_links (update_line k w) = (case access_point (wifi_links w ! k) of None \<Rightarrow> wifi_links w
    | Some ap \<Rightarrow> (wifi_links w)[k := (wifi_links w ! k)\<lparr>wifi_line := Some (place_at w (station (wifi_links w ! k)), place_at w ap)\<rparr>])"
  by (simp add: update_line_def split: option.split)

lemma update_line_nth:
  "access_point (wifi_links (update_line k w) ! j) = access_point (wifi_links w ! j)"
  "alive (wifi_links (update_line k w) ! j) = alive (wifi_links w ! j)"
  "station (wifi_links (update_line k w) ! j) = station (wifi_links w ! j)"
  "visible (wifi_links (update_line k w) ! j) = visible (wifi_links w ! j)"
  "length (wifi_links (update_line k w)) = length (wifi_links w)"
proof -
  have u: "wifi_links (update_line k w) = wifi_links w \<or>
      k < length (wifi_links w) \<and> (\<exists>x. wifi_links (update_line k w) = (wifi_links w)[k := (wifi_links w ! k)\<lparr>wifi_line := x\<rparr>])"
    by (cases "k < length (wifi_links w)"; cases "access_point (wifi_links w ! k)") (auto simp: update_line_links list_update_beyond not_less)
  then have e: "(\<exists>x. wifi_links (update_line k w) ! j = (wifi_links w ! j)\<lparr>wifi_line := x\<rparr>) \<or> wifi_links (update_line k w) ! j = wifi_links w ! j"
    by (cases "j = k") auto
  then show "access_point (wifi_links (update_line k w) ! j) = access_point (wifi_links w ! j)" by auto
  from e show "alive (wifi_links (update_line k w) ! j) = alive (wifi_links w ! j)" by auto
  from e show "station (wifi_links (update_line k w) ! j) = station (wifi_links w ! j)" by auto
  from e show "visible (wifi_links (update_line k w) ! j) = visible (wifi_links w ! j)" by auto
  from u show "length (wifi_links (update_line k w)) = length (wifi_links w)" by auto
qed

lemma remove_link_eq: "k \<in> set (node_links_of w n) \<Longrightarrow> \<exists>w'. remove_link k n w = Inr w' \<and> wifi_links w' = wifi_links w \<and> place_of w' = place_of w \<and>
    (\<forall>m. node_links_of w' m = (if m = n then remove1 k (node_links_of w n) else node_links_of w m))"
  by (auto simp: remove_link_def node_links_of_def split: option.split)

lemma set_ap_ok:
  assumes a: "links_agree w" and k: "k < length (wifi_links w)" and al: "alive (wifi_links w ! k)"
  shows "\<exists>w'. set_ap k ap w = Inr w' \<and> links_agree w' \<and> access_point (wifi_links w' ! k) = ap \<and>
    length (wifi_links w') = length (wifi_links w) \<and> place_of w' = place_of w \<and>
    (\<forall>j. alive (wifi_links w' ! j) = alive (wifi_links w ! j) \<and> station (wifi_links w' ! j) = station (wifi_links w ! j)) \<and>
    (\<forall>j. j \<noteq> k \<longrightarrow> access_point (wifi_links w' ! j) = access_point (wifi_links w ! j))"
proof (cases "ap = access_point (wifi_links w ! k)")
  case True
  with a show ?thesis by (simp add: set_ap_def)
next
  case False
  let ?old = "access_point (wifi_links w ! k)"
  have c: "count_list (node_links_of w n) k = (if ?old = Some n then 1 else 0)" for n using a k al by (simp add: links_agree_def)
  have "\<exists>w1. (case ?old of None \<Rightarrow> Inr w | Some old \<Rightarrow> remove_link k old w) = Inr w1 \<and> wifi_links w1 = wifi_links w \<and> place_of w1 = place_of w \<and>
      (\<forall>n. count_list (node_links_of w1 n) k = 0) \<and> (\<forall>n j. j \<noteq> k \<longrightarrow> count_list (node_links_of w1 n) j = count_list (node_links_of w n) j)"
  proof (cases ?old)
    case None
    with c show ?thesis by simp
  next
    case (Some old)
    with c [of old] have "k \<in> set (node_links_of w old)" by (metis count_list_0_iff zero_neq_one)
    from remove_link_eq [OF this] obtain w1 where "remove_link k old w = Inr w1" "wifi_links w1 = wifi_links w" "place_of w1 = place_of w"
      "\<forall>m. node_links_of w1 m = (if m = old then remove1 k (node_links_of w old) else node_links_of w m)" by blast
    with Some c show ?thesis by (auto simp: count_list_remove1)
  qed
  then obtain w1 where r: "(case ?old of None \<Rightarrow> Inr w | Some old \<Rightarrow> remove_link k old w) = Inr w1" "wifi_links w1 = wifi_links w" "place_of w1 = place_of w"
    "\<forall>n. count_list (node_links_of w1 n) k = 0" "\<forall>n j. j \<noteq> k \<longrightarrow> count_list (node_links_of w1 n) j = count_list (node_links_of w n) j" by blast
  define w2 where "w2 = on_link k (\<lambda>l. l\<lparr>access_point := ap, visible := (ap \<noteq> None)\<rparr>) w1"
  define w3 where "w3 = (case ap of None \<Rightarrow> w2 | Some n \<Rightarrow> add_link k n w2)"
  have s: "set_ap k ap w = Inr (update_line k w3)" unfolding set_ap_def if_not_P [OF False] r(1) bind_res_simps Let_def w2_def w3_def ..
  have l: "wifi_links w3 = (wifi_links w)[k := (wifi_links w ! k)\<lparr>access_point := ap, visible := (ap \<noteq> None)\<rparr>]" "place_of w3 = place_of w"
    using r(2,3) by (simp_all add: w3_def w2_def split: option.split)
  have n: "count_list (node_links_of w3 n) j = (if j = k then (if ap = Some n then 1 else 0) else count_list (node_links_of w n) j)" for n j
    using r(4,5) by (auto simp: w3_def w2_def split: option.split)
  have "links_agree (update_line k w3)"
    using a k unfolding links_agree_def update_line_nth node_links_simps n l(1) by (simp add: nth_list_update al)
  with s l k show ?thesis by (simp add: update_line_nth nth_list_update)
qed


lemma update_line_agrees [simp]: "links_agree (update_line k w) = links_agree w"
  by (simp add: links_agree_def update_line_nth)

lemma update_line_stations [simp]: "stations_ok (m, update_line k w) = stations_ok (m, w)"
  by (simp add: stations_ok_def update_line_nth)

lemma update_lines_keep: "links_agree (fold update_line ks w) = links_agree w \<and> stations_ok (m, fold update_line ks w) = stations_ok (m, w)"
  by (induction ks arbitrary: w) simp_all

lemma stations_ok_alive:
  "stations_ok (m, w) \<Longrightarrow> (dev, n, k) \<in> set (stations m) \<Longrightarrow> k < length (wifi_links w) \<and> alive (wifi_links w ! k)"
  by (auto simp: stations_ok_def)

lemma periodic_step_ok:
  assumes a: "links_agree w" and s: "stations_ok (m, w)" and i: "(dev, n, k) \<in> set (stations m)" and p: "wanted_ap m says dev = Inr ap"
  shows "\<exists>w'. periodic_step m says w (dev, n, k) = Inr w' \<and> links_agree w' \<and> stations_ok (m, w') \<and> access_point (wifi_links w' ! k) = ap \<and>
    (\<forall>j. j \<noteq> k \<longrightarrow> access_point (wifi_links w' ! j) = access_point (wifi_links w ! j))"
proof -
  from stations_ok_alive [OF s i] have "k < length (wifi_links w)" "alive (wifi_links w ! k)" by auto
  from set_ap_ok [OF a this, of ap] obtain w' where w': "set_ap k ap w = Inr w'" "links_agree w'" "access_point (wifi_links w' ! k) = ap"
    "length (wifi_links w') = length (wifi_links w)"
    "\<forall>j. alive (wifi_links w' ! j) = alive (wifi_links w ! j) \<and> station (wifi_links w' ! j) = station (wifi_links w ! j)"
    "\<forall>j. j \<noteq> k \<longrightarrow> access_point (wifi_links w' ! j) = access_point (wifi_links w ! j)" by blast
  with s have "stations_ok (m, w')" by (simp add: stations_ok_def)
  with w' p show ?thesis by (simp add: periodic_step_def)
qed

lemma periodic_step_inv:
  assumes "links_agree w" "stations_ok (m, w)" "s \<in> set (stations m)" "periodic_step m says w s = Inr w'"
  shows "links_agree w' \<and> stations_ok (m, w')"
proof -
  obtain dev n k where s: "s = (dev, n, k)" by (cases s)
  from assms(4) obtain ap where "wanted_ap m says dev = Inr ap" by (auto simp: s periodic_step_def bind_res_Inr_iff)
  from periodic_step_ok [OF assms(1,2) assms(3) [unfolded s] this] assms(4) show ?thesis by (auto simp: s)
qed

section \<open>Running\<close>

text \<open>What happens to the plugin: the topology is scanned, a station is looked at (an exception ends a periodic update between two
  stations), the view is updated, a node is moved.\<close>

inductive wifi_reach :: "monitor \<times> wifi_world \<Rightarrow> bool" where
  Start: "wifi_reach (\<lparr>access_points = [], stations = []\<rparr>, \<lparr>wifi_links = [], links_of = [], place_of = places\<rparr>)"
| Scan: "wifi_reach mw \<Longrightarrow> wifi_reach (scan_wifi ds mw)"
| Look: "wifi_reach (m, w) \<Longrightarrow> s \<in> set (stations m) \<Longrightarrow> periodic_step m says w s = Inr w' \<Longrightarrow> wifi_reach (m, w')"
| View: "wifi_reach (m, w) \<Longrightarrow> wifi_reach (m, update_wifi_view (m, w))"
| Move: "wifi_reach (m, w) \<Longrightarrow> wifi_reach (m, move_wifi_node n p w)"

definition wifi_ok :: "monitor \<times> wifi_world \<Rightarrow> bool" where
  "wifi_ok mw \<longleftrightarrow> links_agree (snd mw) \<and> stations_ok mw"

lemma destroy_agrees: "links_agree w \<Longrightarrow> k < length (wifi_links w) \<Longrightarrow> links_agree (destroy_link k w) \<and> length (wifi_links (destroy_link k w)) = length (wifi_links w)"
  by (auto simp: links_agree_def destroy_link_def nth_list_update)

lemma destroy_all_agrees:
  "links_agree w \<Longrightarrow> \<forall>(dev, n, k) \<in> set ss. k < length (wifi_links w) \<Longrightarrow> links_agree (fold (\<lambda>(dev, n, k). destroy_link k) ss w)"
proof (induction ss arbitrary: w)
  case (Cons s ss)
  obtain dev n k where s: "s = (dev, n, k)" by (cases s)
  with Cons.prems have "k < length (wifi_links w)" by simp
  from destroy_agrees [OF Cons.prems(1) this] Cons.prems(2) show ?case by (auto simp: s intro!: Cons.IH)
qed simp

lemma scan_device_keeps: "wifi_ok mw \<Longrightarrow> wifi_ok (scan_device n d mw)"
proof -
  assume a: "wifi_ok mw"
  obtain dev mac m w where [simp]: "d = (dev, mac)" "mw = (m, w)" by (cases d, cases mw)
  show ?thesis
  proof (cases mac)
    case Sta_Mac
    have "node_links_of (snd (new_link n w)) = node_links_of w" by (rule ext) (simp add: new_link_def node_links_of_def)
    then have "links_agree (snd (new_link n w))"
      using a by (auto simp: wifi_ok_def links_agree_def new_link_def nth_append less_Suc_eq)
    moreover have "stations_ok (m\<lparr>stations := stations m @ [(dev, n, length (wifi_links w))]\<rparr>, snd (new_link n w))"
      using a by (fastforce simp: wifi_ok_def stations_ok_def new_link_def nth_append)
    ultimately show ?thesis by (simp add: Sta_Mac scan_device_def wifi_ok_def new_link_def)
  qed (use a in \<open>auto simp: scan_device_def wifi_ok_def stations_ok_def\<close>)
qed

lemma fold_keeps: "(\<And>x s. P s \<Longrightarrow> P (f x s)) \<Longrightarrow> P s \<Longrightarrow> P (fold f xs s)"
  by (induction xs arbitrary: s) auto

lemma scan_wifi_ok: "wifi_ok mw \<Longrightarrow> wifi_ok (scan_wifi ds mw)"
proof -
  assume a: "wifi_ok mw"
  obtain m w where mw: "mw = (m, w)" by (cases mw)
  from a have "links_agree (fold (\<lambda>(dev, n, k). destroy_link k) (stations m) w)"
    by (intro destroy_all_agrees) (auto simp: mw wifi_ok_def stations_ok_def)
  then have "wifi_ok (\<lparr>access_points = [], stations = []\<rparr>, fold (\<lambda>(dev, n, k). destroy_link k) (stations m) w)"
    by (simp add: wifi_ok_def stations_ok_def)
  then show ?thesis unfolding scan_wifi_def mw fst_conv snd_conv
    by (rule fold_keeps [where P = wifi_ok, rotated]) (auto intro!: fold_keeps [where P = wifi_ok] scan_device_keeps)
qed

lemma update_view_folds: "update_wifi_view (m, w) = fold update_line (map (snd \<circ> snd) (stations m)) w"
  by (simp add: update_wifi_view_def fold_map comp_def split_def)

lemma place_agrees: "links_agree (w\<lparr>place_of := d\<rparr>) = links_agree w" "stations_ok (m, w\<lparr>place_of := d\<rparr>) = stations_ok (m, w)"
  by (simp_all add: links_agree_def stations_ok_def)

lemma reach_ok: "wifi_reach mw \<Longrightarrow> wifi_ok mw"
proof (induction rule: wifi_reach.induct)
  case (Start places)
  then show ?case by (simp add: wifi_ok_def links_agree_def stations_ok_def node_links_of_def)
next
  case (Look m w s says w')
  then show ?case using periodic_step_inv [of w m s says w'] by (simp add: wifi_ok_def)
next
  case (Scan mw ds)
  then show ?case by (simp add: scan_wifi_ok)
qed (simp_all add: scan_wifi_ok wifi_ok_def update_view_folds update_lines_keep move_wifi_node_def place_agrees)

text \<open>A periodic update looks at the stations one after another.\<close>

lemma looks_reach:
  assumes "wifi_reach (m, w)" "set ss \<subseteq> set (stations m)" "run_steps (periodic_step m says) w ss = Inr w'"
  shows "wifi_reach (m, w')"
  using assms by (induction ss arbitrary: w) (auto simp: bind_res_Inr_iff intro: Look)

lemma looks_joined:
  assumes "wifi_ok (m, w)" "set ss \<subseteq> set (stations m)" "distinct (map (snd \<circ> snd) ss)" "run_steps (periodic_step m says) w ss = Inr w'"
  shows "\<forall>(dev, n, k) \<in> set ss. Inr (access_point (wifi_links w' ! k)) = wanted_ap m says dev"
proof -
  have "(\<forall>(dev, n, k) \<in> set ss. Inr (access_point (wifi_links w' ! k)) = wanted_ap m says dev) \<and>
    (\<forall>j. j \<notin> snd ` snd ` set ss \<longrightarrow> access_point (wifi_links w' ! j) = access_point (wifi_links w ! j))"
    using assms
  proof (induction ss arbitrary: w)
    case (Cons s ss)
    obtain dev n k where s: "s = (dev, n, k)" by (cases s)
    from Cons.prems(4) obtain w1 where r: "periodic_step m says w (dev, n, k) = Inr w1"
      "run_steps (periodic_step m says) w1 ss = Inr w'" by (auto simp: s bind_res_Inr_iff)
    from r(1) obtain ap where p: "wanted_ap m says dev = Inr ap" by (auto simp: periodic_step_def bind_res_Inr_iff)
    from Cons.prems(1,2) have "links_agree w" "stations_ok (m, w)" "(dev, n, k) \<in> set (stations m)" by (auto simp: wifi_ok_def s)
    from periodic_step_ok [OF this p] r(1) have w1: "wifi_ok (m, w1)"
      "access_point (wifi_links w1 ! k) = ap" "\<forall>j. j \<noteq> k \<longrightarrow> access_point (wifi_links w1 ! j) = access_point (wifi_links w ! j)"
      by (auto simp: wifi_ok_def)
    from Cons.IH [OF w1(1) _ _ r(2)] Cons.prems(2,3)
    have i: "\<forall>(dev, n, k) \<in> set ss. Inr (access_point (wifi_links w' ! k)) = wanted_ap m says dev"
      "\<forall>j. j \<notin> snd ` snd ` set ss \<longrightarrow> access_point (wifi_links w' ! j) = access_point (wifi_links w1 ! j)" by auto
    from Cons.prems(3) have "k \<notin> snd ` snd ` set ss" by (auto simp: s image_image)
    with w1 i p show ?case by (auto simp: s)
  qed simp
  then show ?thesis ..
qed

lemma looks_fail:
  assumes "wifi_ok (m, w)" "set ss \<subseteq> set (stations m)" "run_steps (periodic_step m says) w ss = Inl e"
  shows "\<exists>(dev, n, k) \<in> set ss. wanted_ap m says dev = Inl e"
  using assms
proof (induction ss arbitrary: w)
  case (Cons s ss)
  obtain dev n k where s: "s = (dev, n, k)" by (cases s)
  show ?case
  proof (cases "wanted_ap m says dev")
    case (Inl e')
    with Cons.prems(3) show ?thesis by (simp add: s periodic_step_def)
  next
    case (Inr ap)
    from Cons.prems(1,2) have "links_agree w" "stations_ok (m, w)" "(dev, n, k) \<in> set (stations m)" by (auto simp: wifi_ok_def s)
    from periodic_step_ok [OF this Inr] obtain w1 where w1: "periodic_step m says w (dev, n, k) = Inr w1" "wifi_ok (m, w1)" by (auto simp: wifi_ok_def)
    with Cons.prems(2,3) show ?thesis using Cons.IH [of w1] by (auto simp: s)
  qed
qed simp

lemma wanted_ap_error: "wanted_ap m says dev = Inl e \<longleftrightarrow>
    e = KeyError \<and> fst (says dev) \<and> snd (says dev) \<noteq> NO_BSSID \<and> snd (says dev) \<notin> fst ` set (access_points m)"
proof (cases "says dev")
  case (Pair up bssid)
  show ?thesis
  proof (cases "map_of (access_points m) bssid")
    case None
    then have "bssid \<notin> fst ` set (access_points m)" by (simp add: map_of_eq_None_iff)
    with None Pair show ?thesis by (auto simp: wanted_ap_def dict_get_def)
  next
    case (Some n)
    then have "bssid \<in> fst ` set (access_points m)" by (force dest: map_of_SomeD)
    with Some Pair show ?thesis by (simp add: wanted_ap_def dict_get_def)
  qed
qed

text \<open>The links that are alive are those of the stations of the last scan.\<close>

definition live_ok :: "monitor \<times> wifi_world \<Rightarrow> bool" where
  "live_ok mw \<longleftrightarrow> (\<forall>k < length (wifi_links (snd mw)). alive (wifi_links (snd mw) ! k) \<longrightarrow> k \<in> (snd \<circ> snd) ` set (stations (fst mw)))"

lemma live_ok_same:
  "live_ok (m, w) \<Longrightarrow> map alive (wifi_links w') = map alive (wifi_links w) \<Longrightarrow> live_ok (m, w')"
  by (auto simp: live_ok_def list_eq_iff_nth_eq)

lemma update_line_alive [simp]: "map alive (wifi_links (update_line k w)) = map alive (wifi_links w)"
  by (simp add: list_eq_iff_nth_eq update_line_nth)

lemma update_lines_alive: "map alive (wifi_links (fold update_line ks w)) = map alive (wifi_links w)"
  by (induction ks arbitrary: w) simp_all

lemma on_link_alive: "(\<And>l. alive (f l) = alive l) \<Longrightarrow> map alive (wifi_links (on_link k f w)) = map alive (wifi_links w)"
  by (cases "k < length (wifi_links w)") (auto simp: list_eq_iff_nth_eq nth_list_update list_update_beyond)

lemma remove_link_links: "remove_link k n w = Inr w' \<Longrightarrow> wifi_links w' = wifi_links w"
  by (auto simp: remove_link_def split: option.splits if_splits)

lemma set_ap_alive: "set_ap k ap w = Inr w' \<Longrightarrow> map alive (wifi_links w') = map alive (wifi_links w)"
  by (auto simp: set_ap_def Let_def bind_res_Inr_iff on_link_alive simp del: links_simps(2) dest!: remove_link_links
      split: if_splits option.splits)

lemma destroy_all_dead:
  "alive (wifi_links (fold (\<lambda>(dev, n, k). destroy_link k) ss w) ! k) \<Longrightarrow> k < length (wifi_links w) \<Longrightarrow>
    alive (wifi_links w ! k) \<and> k \<notin> (snd \<circ> snd) ` set ss"
proof (induction ss arbitrary: w)
  case (Cons s ss)
  obtain dev n j where s: "s = (dev, n, j)" by (cases s)
  from Cons.IH [of "destroy_link j w"] Cons.prems
  have "alive (wifi_links (destroy_link j w) ! k) \<and> k \<notin> (snd \<circ> snd) ` set ss" by (simp add: s destroy_link_def)
  then show ?case using Cons.prems(2) by (cases "k = j") (simp_all add: s destroy_link_def)
qed simp

lemma destroy_all_length: "length (wifi_links (fold (\<lambda>(dev, n, k). destroy_link k) ss w)) = length (wifi_links w)"
  by (induction ss arbitrary: w) (auto simp: destroy_link_def)

lemma scan_wifi_live:
  assumes "live_ok mw"
  shows "live_ok (scan_wifi ds mw)"
proof -
  have "live_ok (\<lparr>access_points = [], stations = []\<rparr>, fold (\<lambda>(dev, n, k). destroy_link k) (stations (fst mw)) (snd mw))"
    using assms destroy_all_dead [of "stations (fst mw)" "snd mw"] by (auto simp: live_ok_def destroy_all_length)
  moreover have "live_ok x \<Longrightarrow> live_ok (scan_device n d x)" for n d x
    by (cases d; cases x; cases "snd d")
      (auto simp: scan_device_def new_link_def live_ok_def nth_append image_iff split: if_splits)
  ultimately show ?thesis unfolding scan_wifi_def
    by (intro fold_keeps [where P = live_ok]) (auto intro!: fold_keeps [where P = live_ok])
qed

lemma reach_live: "wifi_reach mw \<Longrightarrow> live_ok mw"
proof (induction rule: wifi_reach.induct)
  case (Start places)
  then show ?case by (simp add: live_ok_def)
next
  case (Scan mw ds)
  then show ?case by (simp add: scan_wifi_live)
next
  case (Look m w s says w')
  then have "map alive (wifi_links w') = map alive (wifi_links w)"
    by (cases s) (auto simp: periodic_step_def bind_res_Inr_iff set_ap_alive)
  with Look show ?case by (blast intro: live_ok_same)
next
  case (View m w)
  show ?case by (rule live_ok_same [OF View.IH]) (simp add: update_view_folds update_lines_alive)
next
  case (Move m w n p)
  show ?case by (rule live_ok_same [OF Move.IH]) (simp add: move_wifi_node_def update_lines_alive)
qed

text \<open>C39. In every state the plugin can get into, a periodic update that ends without an exception has joined the link of every
  station to the access point the station is associated with, and to nothing where its link is down or it has no BSSID.  Of the links
  that are alive, the list of each access point then has exactly those of its own stations, each once; beside them it may hold links
  of former scans, which were destroyed without taking them out (\<open>dead_link_kept\<close>) and lead nowhere.  The exception is the
  \<open>KeyError\<close> of a station associated with a BSSID that no scanned node has.\<close>
theorem links_follow_stations:
  assumes "wifi_reach (m, w)"
  shows "case simulation_periodic_update says (m, w) of
      Inr w' \<Rightarrow> wifi_reach (m, w') \<and>
        (\<forall>(dev, n, k) \<in> set (stations m). Inr (access_point (wifi_links w' ! k)) = wanted_ap m says dev \<and> station (wifi_links w' ! k) = n \<and>
          (\<forall>a. count_list (node_links_of w' a) k = (if wanted_ap m says dev = Inr (Some a) then 1 else 0))) \<and>
        (\<forall>a. \<forall>k \<in> set (node_links_of w' a). k \<in> (snd \<circ> snd) ` set (stations m)
          \<or> \<not> alive (wifi_links w' ! k) \<and> access_point (wifi_links w' ! k) = None)
    | Inl e \<Rightarrow> e = KeyError \<and>
        (\<exists>(dev, n, k) \<in> set (stations m). fst (says dev) \<and> snd (says dev) \<noteq> NO_BSSID \<and> snd (says dev) \<notin> fst ` set (access_points m))"
proof (cases "simulation_periodic_update says (m, w)")
  case (Inl e)
  then have "run_steps (periodic_step m says) w (stations m) = Inl e" by (simp add: simulation_periodic_update_def)
  from looks_fail [OF reach_ok [OF assms] subset_refl this] obtain dev n k where "(dev, n, k) \<in> set (stations m)" "wanted_ap m says dev = Inl e"
    by auto
  with Inl show ?thesis by (auto simp: wanted_ap_error)
next
  case (Inr w')
  have r: "run_steps (periodic_step m says) w (stations m) = Inr w'" using Inr by (simp add: simulation_periodic_update_def)
  have k: "wifi_reach (m, w')" by (rule looks_reach [OF assms subset_refl r])
  have d: "distinct (map (snd \<circ> snd) (stations m))" using reach_ok [OF assms] by (simp add: wifi_ok_def stations_ok_def)
  have a: "\<forall>(dev, n, k) \<in> set (stations m). Inr (access_point (wifi_links w' ! k)) = wanted_ap m says dev"
    using looks_joined [OF reach_ok [OF assms] subset_refl d r] .
  have "Inr (access_point (wifi_links w' ! k)) = wanted_ap m says dev \<and> station (wifi_links w' ! k) = n \<and>
      (\<forall>a. count_list (node_links_of w' a) k = (if wanted_ap m says dev = Inr (Some a) then 1 else 0))" if "(dev, n, k) \<in> set (stations m)" for dev n k
  proof -
    from a that have 1: "wanted_ap m says dev = Inr (access_point (wifi_links w' ! k))" by force
    from reach_ok [OF k] that show ?thesis by (auto simp: 1 wifi_ok_def stations_ok_def links_agree_def)
  qed
  moreover have "k \<in> (snd \<circ> snd) ` set (stations m) \<or> \<not> alive (wifi_links w' ! k) \<and> access_point (wifi_links w' ! k) = None"
    if "k \<in> set (node_links_of w' a)" for a k
  proof -
    have ag: "links_agree w'" using reach_ok [OF k] by (simp add: wifi_ok_def)
    from that have "count_list (node_links_of w' a) k \<noteq> 0" by (simp add: count_list_0_iff)
    with ag have "k < length (wifi_links w')" unfolding links_agree_def by (meson not_le)
    with ag reach_live [OF k] show ?thesis by (auto simp: links_agree_def live_ok_def)
  qed
  ultimately show ?thesis using Inr k by auto
qed

lemma links_follow_stations_witness:
  "\<exists>w'. simulation_periodic_update (\<lambda>d. (True, ''00:00:00:00:00:01''))
        (scan_wifi [(4, [(7, Ap_Mac ''00:00:00:00:00:01'')]), (5, [(8, Sta_Mac)])]
          (\<lparr>access_points = [], stations = []\<rparr>, \<lparr>wifi_links = [], links_of = [], place_of = [(4, (1, 1)), (5, (2, 3))]\<rparr>)) = Inr w' \<and>
      access_point (wifi_links w' ! 0) = Some 4 \<and> count_list (node_links_of w' 4) 0 = 1"
proof -
  let ?mw = "scan_wifi [(4, [(7, Ap_Mac ''00:00:00:00:00:01'')]), (5, [(8, Sta_Mac)])]
    (\<lparr>access_points = [], stations = []\<rparr>, \<lparr>wifi_links = [], links_of = [], place_of = [(4, (1, 1)), (5, (2, 3))]\<rparr>)"
  let ?says = "\<lambda>d::nat. (True, ''00:00:00:00:00:01'')"
  have m: "fst ?mw = \<lparr>access_points = [(''00:00:00:00:00:01'', 4)], stations = [(8, 5, 0)]\<rparr>"
    by (simp add: scan_wifi_def scan_device_def new_link_def)
  obtain w where w: "?mw = (\<lparr>access_points = [(''00:00:00:00:00:01'', 4)], stations = [(8, 5, 0)]\<rparr>, w)" using m by (metis prod.collapse)
  have "wifi_reach ?mw" by (intro Scan Start)
  from links_follow_stations [OF this [unfolded w], of ?says] show ?thesis unfolding w
    by (auto simp: NO_BSSID_def wanted_ap_def dict_get_def split: sum.splits)
qed

text \<open>A scan does not take the links it destroys out of their access points.\<close>

lemma dead_link_kept:
  "wifi_reach (m, \<lparr>wifi_links = [l\<lparr>alive := False, wifi_line := Some ((0, 0), (0, 0))\<rparr>, l], links_of = [(4, [0])], place_of = []\<rparr>)"
  if "l = \<lparr>station = 5, access_point = None, visible = True, wifi_line = None, alive = True\<rparr>"
    "m = \<lparr>access_points = [(''00:00:00:00:00:01'', 4)], stations = [(8, 5, 1)]\<rparr>"
proof -
  let ?m0 = "(\<lparr>access_points = [], stations = []\<rparr>, \<lparr>wifi_links = [], links_of = [], place_of = []\<rparr>)"
  let ?ds = "[(4, [(7, Ap_Mac ''00:00:00:00:00:01'')]), (5, [(8::nat, Sta_Mac)])]"
  let ?m1 = "\<lparr>access_points = [(''00:00:00:00:00:01'', 4)], stations = [(8::nat, 5, 0)]\<rparr>"
  let ?l = "\<lparr>station = 5, access_point = None, visible = True, wifi_line = None, alive = True\<rparr>"
  have "scan_wifi ?ds ?m0 = (?m1, \<lparr>wifi_links = [?l], links_of = [], place_of = []\<rparr>)"
    by (simp add: scan_wifi_def scan_device_def new_link_def)
  then have 1: "wifi_reach (?m1, \<lparr>wifi_links = [?l], links_of = [], place_of = []\<rparr>)" using Scan [OF Start, of ?ds "[]"] by simp
  let ?w = "\<lparr>wifi_links = [?l\<lparr>access_point := Some 4, wifi_line := Some ((0, 0), (0, 0))\<rparr>], links_of = [(4, [0])], place_of = []\<rparr>"
  have "periodic_step ?m1 (\<lambda>d. (True, ''00:00:00:00:00:01'')) \<lparr>wifi_links = [?l], links_of = [], place_of = []\<rparr> (8, 5, 0) = Inr ?w"
    by (simp add: periodic_step_def wanted_ap_def dict_get_def NO_BSSID_def set_ap_def on_link_def add_link_def update_line_def node_links_of_def place_at_def)
  from Look [OF 1 _ this] have "wifi_reach (?m1, ?w)" by simp
  then have "wifi_reach (scan_wifi ?ds (?m1, ?w))" by (rule Scan)
  then show ?thesis by (simp add: that scan_wifi_def scan_device_def new_link_def destroy_link_def on_link_def)
qed

lemma lines_fold:
  assumes "k < length (wifi_links w)" "access_point (wifi_links w ! k) = Some a" "k \<in> set ks"
  shows "wifi_line (wifi_links (fold update_line ks w) ! k) = Some (place_at w (station (wifi_links w ! k)), place_at w a)"
  using assms
proof (induction ks rule: rev_induct)
  case (snoc j ks)
  have keep: "access_point (wifi_links (fold update_line ks w) ! i) = access_point (wifi_links w ! i) \<and>
      station (wifi_links (fold update_line ks w) ! i) = station (wifi_links w ! i) \<and>
      length (wifi_links (fold update_line ks w)) = length (wifi_links w) \<and> place_of (fold update_line ks w) = place_of w" for i
    by (induction ks arbitrary: w) (simp_all add: update_line_nth)
  then have "place_at (fold update_line ks w) n = place_at w n" for n by (simp add: place_at_def)
  with keep snoc show ?case by (cases "j = k") (auto simp: update_line_links nth_list_update split: option.split)
qed simp

text \<open>In every state the plugin can get into, when the view has been updated every station that has an access point has a line
  between where the station is and where the access point is, whatever nodes were moved before.\<close>
theorem wifi_lines_true:
  assumes "wifi_reach (m, w)"
  shows "\<forall>(dev, n, k) \<in> set (stations m). case access_point (wifi_links w ! k) of
      None \<Rightarrow> access_point (wifi_links (update_wifi_view (m, w)) ! k) = None
    | Some a \<Rightarrow> wifi_line (wifi_links (update_wifi_view (m, w)) ! k) = Some (place_at w n, place_at w a)"
proof -
  have "access_point (wifi_links (fold update_line ks v) ! k) = access_point (wifi_links v ! k)" for ks v k
    by (induction ks arbitrary: v) (simp_all add: update_line_nth)
  moreover have "k < length (wifi_links w)" "station (wifi_links w ! k) = n" "k \<in> set (map (snd \<circ> snd) (stations m))" if "(dev, n, k) \<in> set (stations m)" for dev n k
    using reach_ok [OF assms] that by (force simp: wifi_ok_def stations_ok_def)+
  ultimately have "case access_point (wifi_links w ! k) of
      None \<Rightarrow> access_point (wifi_links (update_wifi_view (m, w)) ! k) = None
    | Some a \<Rightarrow> wifi_line (wifi_links (update_wifi_view (m, w)) ! k) = Some (place_at w n, place_at w a)" if "(dev, n, k) \<in> set (stations m)" for dev n k
    using that lines_fold [of k w _ "map (snd \<circ> snd) (stations m)"] by (simp add: update_view_folds split: option.split)
  then show ?thesis by auto
qed

end
