(* ===== verification/Timeline_Graphic.thy ===== *)
theory Timeline_Graphic
  imports Timeline_View
begin

text \<open>
  \<open>utils/grid.py\<close>: the ticks of the scale below the data, and what \<open>GraphicRenderer.draw\<close> and \<open>expose\<close> draw around the selection.
  Its bounds are floats where the mouse or the ends of the data set them.  The ends that \<open>main\<close> asks for are integers, and stay so in
  \<open>set_range\<close> and in zooms as long as they lie inside the data; then that scale computes like the one of \<open>Timeline_View\<close> with
  integer bounds.  \<open>rnd\<close> rounds floats; texts and colours are not modelled.
\<close>

section \<open>The ticks of a scale with float bounds\<close>

text \<open>\<open>x % d\<close> of a float for \<open>d\<close> above 0: \<open>fmod\<close> is exact, and a negative remainder is moved up.\<close>

definition float_mod :: "(rat \<Rightarrow> rat) \<Rightarrow> rat \<Rightarrow> rat \<Rightarrow> rat" where
  "float_mod rnd x d = (let m = x - d * of_int (trunc (x / d)) in if m < 0 then rnd (m + d) else m)"

definition float_ticks :: "(rat \<Rightarrow> rat) \<Rightarrow> rat \<Rightarrow> rat \<Rightarrow> int \<Rightarrow> int list" where
  "float_ticks rnd lo hi delta =
     (let first = rnd (rnd (lo - float_mod rnd lo (of_int delta)) + of_int delta);
          last = rnd (hi - float_mod rnd hi (of_int delta))
      in py_range (trunc first) (trunc (rnd (last + of_int delta))) delta)"

definition float_subticks :: "(rat \<Rightarrow> rat) \<Rightarrow> rat \<Rightarrow> rat \<Rightarrow> int \<Rightarrow> int list" where
  "float_subticks rnd lo hi delta = (let d = delta div 10 in if d > 0 then float_ticks rnd lo hi d else [])"

section \<open>What is drawn around the selection\<close>

type_synonym pt = "rat \<times> rat"

text \<open>\<open>h1\<close> is where the scale of the data ends, \<open>h2\<close> where the selection begins, with its height.\<close>

definition selection_top :: "(rat \<Rightarrow> rat) \<Rightarrow> geometry \<Rightarrow> rat \<times> rat \<times> rat" where
  "selection_top rnd g =
     (let h1 = rnd (rnd (top_legend_height g + data_height g) + mid_scale_height g) in (h1, rnd (h1 + 20), rnd (bot_scale_height g + 20)))"

record picture =
  left_connection :: "pt list"
  right_connection :: "pt list"
  unused_left :: "rat \<times> rat \<times> rat \<times> rat"
  unused_right :: "rat \<times> rat \<times> rat \<times> rat"
  border_line :: "pt list"
  selection_line :: "pt list"
  dots :: "rat \<times> rat"

definition draw_selection :: "(rat \<Rightarrow> rat) \<Rightarrow> geometry \<Rightarrow> view \<Rightarrow> picture res" where
  "draw_selection rnd g v =
     bind_res (get_position rnd (g_start v) (g_end v) (bot_width v) (r_start v)) (\<lambda>select_start.
     bind_res (get_position rnd (g_start v) (g_end v) (bot_width v) (r_end v)) (\<lambda>select_end.
       let (h1, h2, unused_height) = selection_top rnd g; w = g_width v; bottom = rnd (h2 + unused_height)
       in Inr \<lparr>left_connection = [(0, h1), (data_x_start g, h1), (select_start, h2), (0, h2), (0, h1)],
               right_connection = [(w, h1), (w, h2), (select_end, h2), (w, h1)],
               unused_left = (0, h2, select_start, unused_height),
               unused_right = (select_end, h2, rnd (w - select_end), unused_height),
               border_line = [(select_end, h2), (w, h2), (w, bottom), (0, bottom), (0, h2), (select_start, h2)],
               selection_line = [(select_start, h2), (select_end, h2)],
               dots = (max select_start 2, min select_end (rnd (w - 2)))\<rparr>))"

text \<open>The lines \<open>expose\<close> draws over the picture while an end of the selection, or all of it, is moved.\<close>

definition moving_lines :: "(rat \<Rightarrow> rat) \<Rightarrow> geometry \<Rightarrow> view \<times> mouse \<Rightarrow> rat list res" where
  "moving_lines rnd g = (\<lambda>(v, m).
     bind_res (selection_rectangle rnd g v) (\<lambda>(x, y, width, height).
     bind_res (if moving_left m then bind_res (attribute (left_cur m)) (\<lambda>c. Inr [max c 2]) else Inr []) (\<lambda>ls.
     bind_res (if moving_right m \<noteq> 0 then bind_res (attribute (right_cur m)) (\<lambda>c. Inr [min c (rnd (g_width v - 2))]) else Inr []) (\<lambda>rs.
     bind_res (if moving_both m then bind_res (attribute (both_cur m)) (\<lambda>c. bind_res (attribute (both_start m)) (\<lambda>s.
         let delta_x = rnd (c - s) in Inr [rnd (x + delta_x), rnd (rnd (x + width) + delta_x)])) else Inr []) (\<lambda>bs.
     Inr (ls @ rs @ bs))))))"

section \<open>Lemmas\<close>

lemma closest_at_ceiling: "closest_at k d = closest k \<lceil>d\<rceil>"
proof (induction k d rule: closest_at.induct)
  case (1 k d)
  have "of_int (10 ^ k * 10) < d \<longleftrightarrow> 10 ^ k * 10 < \<lceil>d\<rceil>" by (metis less_ceiling_iff)
  with 1 show ?case by (simp add: closest_at.simps [of k] closest.simps [of k] del: of_int_mult of_int_power)
qed

lemma closest_at_power:
  obtains n where "closest_at 0 d = 10 ^ n" "d \<le> of_int (10 ^ Suc n)" "n = 0 \<or> of_int (10 ^ n) < d"
proof -
  obtain n where n: "closest 0 \<lceil>d\<rceil> = 10 ^ n" "\<lceil>d\<rceil> \<le> 10 ^ Suc n" "n = 0 \<or> 10 ^ n < \<lceil>d\<rceil>" using closest_power [of 0 "\<lceil>d\<rceil>"] by blast
  have "d \<le> of_int (10 ^ Suc n)" using n(2) by (metis ceiling_le_iff)
  moreover have "n = 0 \<or> of_int (10 ^ n) < d" using n(3) by (metis less_ceiling_iff)
  ultimately show thesis using that n(1) by (simp add: closest_at_ceiling)
qed

lemma float_mod_exact:
  assumes "0 < delta"
  shows "x - float_mod exact x (of_int delta) = of_int (delta * \<lfloor>x / of_int delta\<rfloor>)"
proof -
  let ?d = "of_int delta :: rat" and ?q = "x / of_int delta"
  have d: "0 < ?d" using assms by simp
  have x: "x = ?d * ?q" using d by simp
  show ?thesis
  proof (cases "0 \<le> ?q")
    case True
    have "of_int \<lfloor>?q\<rfloor> \<le> ?q" by simp
    then have "?d * of_int \<lfloor>?q\<rfloor> \<le> x" using d x by (metis mult_le_cancel_left_pos)
    with True show ?thesis by (simp add: float_mod_def trunc_def Let_def)
  next
    case False
    show ?thesis
    proof (cases "of_int \<lceil>?q\<rceil> = ?q")
      case True
      then have "\<lceil>?q\<rceil> = \<lfloor>?q\<rfloor>" by (metis ceiling_of_int floor_of_int)
      moreover have "?d * of_int \<lceil>?q\<rceil> = x" unfolding True using d by simp
      ultimately show ?thesis using False by (simp add: float_mod_def trunc_def Let_def)
    next
      case ne: False
      then have "?q < of_int \<lceil>?q\<rceil>" by (metis le_of_int_ceiling order_le_less)
      then have neg: "x - ?d * of_int \<lceil>?q\<rceil> < 0" using d x by (metis diff_less_0_iff_less mult_less_cancel_left_pos)
      have "\<lceil>?q\<rceil> = \<lfloor>?q\<rfloor> + 1" using ne by (metis ceiling_altdef floor_of_int)
      with neg False show ?thesis by (simp add: float_mod_def trunc_def Let_def exact_def algebra_simps)
    qed
  qed
qed

lemma trunc_of_int [simp]: "trunc (of_int n) = n"
  by (simp add: trunc_def)

lemma set_float_ticks:
  assumes "0 < delta"
  shows "set (float_ticks exact lo hi delta) = {x. lo < of_int x \<and> of_int x \<le> hi \<and> delta dvd x}"
proof -
  let ?a = "delta * \<lfloor>lo / of_int delta\<rfloor> + delta" and ?b = "delta * \<lfloor>hi / of_int delta\<rfloor> + delta"
  have t: "float_ticks exact lo hi delta = py_range ?a ?b delta"
    unfolding float_ticks_def exact_def Let_def float_mod_exact [OF assms, unfolded exact_def] of_int_add [symmetric] trunc_of_int ..
  have "delta dvd ?b - ?a" by simp
  then have "set (float_ticks exact lo hi delta) = {x. ?a \<le> x \<and> x < ?b \<and> delta dvd x - ?a}"
    unfolding t by (rule set_py_range [OF assms])
  also have "\<dots> = {x. lo < of_int x \<and> of_int x \<le> hi \<and> delta dvd x}"
  proof (intro Collect_cong)
    fix x
    have "delta dvd x - ?a \<longleftrightarrow> delta dvd x" by (simp add: dvd_diff_left_iff)
    moreover have "(?a \<le> x) = (lo < of_int x) \<and> (x < ?b) = (of_int x \<le> hi)" if x: "delta dvd x"
    proof -
      from x obtain q where q: "x = delta * q" by blast
      have d: "(0 :: rat) < of_int delta" using assms by simp
      have "(\<lfloor>lo / of_int delta\<rfloor> < q) = (lo / of_int delta < of_int q)" by (rule floor_less_iff)
      moreover have "(q \<le> \<lfloor>hi / of_int delta\<rfloor>) = (of_int q \<le> hi / of_int delta)" by (rule le_floor_iff)
      moreover have "?a \<le> x \<longleftrightarrow> \<lfloor>lo / of_int delta\<rfloor> < q" "x < ?b \<longleftrightarrow> q \<le> \<lfloor>hi / of_int delta\<rfloor>"
        using assms q mult_le_cancel_left_pos [of delta "\<lfloor>lo / of_int delta\<rfloor> + 1" q] mult_less_cancel_left_pos [of delta q "\<lfloor>hi / of_int delta\<rfloor> + 1"]
        by (auto simp: algebra_simps)
      ultimately show ?thesis using d by (simp add: q pos_divide_less_eq pos_le_divide_eq mult.commute)
    qed
    ultimately show "(?a \<le> x \<and> x < ?b \<and> delta dvd x - ?a) = (lo < of_int x \<and> of_int x \<le> hi \<and> delta dvd x)" by blast
  qed
  finally show ?thesis .
qed

lemma float_delta_exact:
  assumes "lo < hi"
  shows "float_delta exact lo hi = (if hi - lo = 1 then 0 else closest_at 0 (hi - lo))"
proof -
  let ?d = "hi - lo"
  obtain n where n: "closest_at 0 ?d = 10 ^ n" "?d \<le> of_int (10 ^ Suc n)" "n = 0 \<or> of_int (10 ^ n) < ?d" by (rule closest_at_power)
  have p: "(0 :: rat) < of_int (10 ^ n)" by simp
  have q: "?d / of_int (closest_at 0 ?d) \<noteq> 0" using assms n(1) by simp
  have "?d / of_int (closest_at 0 ?d) = 1 \<longleftrightarrow> ?d = of_int (10 ^ n)" using p by (auto simp: n(1))
  also have "\<dots> \<longleftrightarrow> ?d = 1"
  proof
    assume "?d = of_int (10 ^ n)"
    with n(3) have "n = 0" by (metis less_irrefl)
    with \<open>?d = of_int (10 ^ n)\<close> show "?d = 1" by simp
  next
    assume 1: "?d = 1"
    have "of_int (10 ^ n) < (1 :: rat) \<Longrightarrow> False" by (simp add: power_less_one_iff del: of_int_power)
    with n(3) 1 have "n = 0" by metis
    with 1 show "?d = of_int (10 ^ n)" by simp
  qed
  finally have e: "?d / of_int (closest_at 0 ?d) = 1 \<longleftrightarrow> ?d = 1" .
  have one: "closest_at 0 1 = 1" by (simp add: closest_at.simps)
  show ?thesis
  proof (cases "?d = 1")
    case True
    then show ?thesis by (simp add: float_delta_def Let_def exact_def one)
  next
    case False
    with e q show ?thesis by (simp add: float_delta_def Let_def exact_def)
  qed
qed

section \<open>Properties\<close>

text \<open>The scale below the data raises \<open>ZeroDivisionError\<close> exactly when the visible range is 1 long; otherwise its step is a power of ten,
  its ticks are the multiples of the step in the range, above the lower bound and up to the upper one, the step is smaller than the
  range unless it is 1, and the range is at most ten steps long.\<close>

theorem float_scale_ticks:
  assumes "lo < hi"
  shows "case float_layout exact lo hi of
      Inl e \<Rightarrow> e = ZeroDivisionError \<and> hi - lo = 1
    | Inr delta \<Rightarrow> hi - lo \<noteq> 1 \<and> (\<exists>n. delta = 10 ^ n) \<and> (delta = 1 \<or> of_int delta < hi - lo) \<and> hi - lo \<le> 10 * of_int delta \<and>
        set (float_ticks exact lo hi delta) = {x. lo < of_int x \<and> of_int x \<le> hi \<and> delta dvd x}"
proof (cases "hi - lo = 1")
  case True
  then show ?thesis by (simp add: float_layout_def Let_def float_delta_exact [OF assms])
next
  case False
  obtain n where n: "closest_at 0 (hi - lo) = 10 ^ n" "hi - lo \<le> of_int (10 ^ Suc n)" "n = 0 \<or> of_int (10 ^ n) < hi - lo" by (rule closest_at_power)
  have l: "float_layout exact lo hi = Inr (10 ^ n)" using False by (simp add: float_layout_def Let_def float_delta_exact [OF assms] n(1))
  have p: "(0 :: int) < 10 ^ n" by simp
  have "set (float_ticks exact lo hi (10 ^ n)) = {x. lo < of_int x \<and> of_int x \<le> hi \<and> 10 ^ n dvd x}" by (rule set_float_ticks [OF p])
  moreover have "hi - lo \<le> 10 * of_int (10 ^ n)" using n(2) by simp
  moreover have "(10 :: int) ^ n = 1 \<or> of_int (10 ^ n) < hi - lo" using n(3) by auto
  ultimately show ?thesis unfolding l sum.case using False by blast
qed

theorem float_scale_ticks_witness:
  "float_layout exact 0 1500 = Inr 1000 \<and> set (float_ticks exact 0 1500 1000) = {x. (0 :: rat) < of_int x \<and> of_int x \<le> (1500 :: rat) \<and> 1000 dvd x}"
proof -
  have "float_layout exact 0 1500 = Inr 1000" by code_simp
  moreover have "(0 :: rat) < 1500" by simp
  ultimately show ?thesis using float_scale_ticks [of 0 1500] by simp
qed

text \<open>C31. Over the same integer bounds the two scales of the window have the same step, except for a range between one and two times the power
  of ten below it: there the scale below the data, whose quotient is a float, has a step ten times as wide as the one below the
  selection, so that it shows as little as a single tick.\<close>

theorem scales_disagree:
  assumes "lo < hi"
  shows "float_delta exact (of_int lo) (of_int hi) =
    (if hi - lo = 1 \<or> 2 * closest 0 (hi - lo) \<le> hi - lo then scale_delta lo hi else 10 * scale_delta lo hi)"
proof -
  let ?d = "hi - lo"
  obtain n where n: "closest 0 ?d = 10 ^ n" "?d \<le> 10 ^ Suc n" "n = 0 \<or> 10 ^ n < ?d" using closest_power [of 0 ?d] by blast
  have le: "10 ^ n \<le> ?d" using n(3) assms by auto
  have f: "float_delta exact (of_int lo) (of_int hi) = (if ?d = 1 then 0 else 10 ^ n)"
  proof -
    have "(of_int hi - of_int lo = (1 :: rat)) = (?d = 1)" by (metis of_int_1 of_int_diff of_int_eq_iff)
    moreover have "closest_at 0 (of_int hi - of_int lo :: rat) = 10 ^ n" by (simp add: closest_at_ceiling n(1) flip: of_int_diff)
    ultimately show ?thesis using assms by (simp add: float_delta_exact)
  qed
  have q0: "?d div 10 ^ n \<noteq> 0" using le pos_imp_zdiv_pos_iff [of "10 ^ n" ?d] by simp
  have q1: "?d div 10 ^ n = 1 \<longleftrightarrow> \<not> 2 * 10 ^ n \<le> ?d"
  proof -
    have "1 \<le> ?d div 10 ^ n" using le by (simp add: pos_imp_zdiv_pos_iff int_one_le_iff_zero_less)
    moreover have "2 \<le> ?d div 10 ^ n \<longleftrightarrow> 2 * 10 ^ n \<le> ?d"
    proof
      assume "2 * 10 ^ n \<le> ?d"
      from zdiv_mono1 [OF this, of "10 ^ n"] show "2 \<le> ?d div 10 ^ n" by simp
    next
      assume "2 \<le> ?d div 10 ^ n"
      then have "10 ^ n * 2 \<le> 10 ^ n * (?d div 10 ^ n)" by simp
      also have "\<dots> \<le> ?d" by (metis mult.commute pos_mod_sign zero_less_numeral zero_less_power div_mult_mod_eq le_add_same_cancel1)
      finally show "2 * 10 ^ n \<le> ?d" by simp
    qed
    ultimately show ?thesis by linarith
  qed
  show ?thesis
  proof (cases "?d = 1")
    case True
    moreover have "(1 :: int) \<le> 10 ^ n" by simp
    ultimately have "n = 0" using n(3) by linarith
    with True f show ?thesis by (simp add: scale_delta_def closest.simps Let_def)
  next
    case False
    have "n \<noteq> 0" if "\<not> 2 * 10 ^ n \<le> ?d" using that False assms by (intro notI) simp
    then have "\<not> 2 * 10 ^ n \<le> ?d \<Longrightarrow> 10 * (10 ^ n div 10) = (10 :: int) ^ n" by (cases n) simp_all
    with False f q0 q1 show ?thesis by (auto simp: scale_delta_def n(1) Let_def)
  qed
qed

theorem scales_disagree_witness:
  "float_delta exact 0 1500 = 1000 \<and> scale_delta 0 1500 = 100"
proof -
  have "scale_delta 0 1500 = 100" "closest 0 1500 = 1000" by code_simp+
  with scales_disagree [of 0 1500] show ?thesis by simp
qed

lemma get_position_exact: "a \<noteq> b \<Longrightarrow> get_position exact a b w x = Inr ((x - a) * w / (b - a))"
  by (simp add: get_position_def exact_def)

lemma position_bounds:
  fixes a b w x :: rat
  assumes "a < b" "0 \<le> w" "a \<le> x" "x \<le> b"
  shows "0 \<le> (x - a) * w / (b - a)" and "(x - a) * w / (b - a) \<le> w"
proof -
  show "0 \<le> (x - a) * w / (b - a)" using assms by simp
  have "(x - a) * w \<le> (b - a) * w" using assms by (intro mult_right_mono) simp_all
  then show "(x - a) * w / (b - a) \<le> w" using assms(1) by (simp add: pos_divide_le_eq mult.commute)
qed

lemma position_mono:
  fixes a b w x y :: rat
  assumes "a < b" "0 \<le> w" "x \<le> y"
  shows "(x - a) * w / (b - a) \<le> (y - a) * w / (b - a)"
  using assms by (intro divide_right_mono mult_right_mono) simp_all

definition inside :: "rat \<Rightarrow> rat \<Rightarrow> pt \<Rightarrow> bool" where
  "inside w h p \<longleftrightarrow> 0 \<le> fst p \<and> fst p \<le> w \<and> 0 \<le> snd p \<and> snd p \<le> h"

definition corners :: "rat \<times> rat \<times> rat \<times> rat \<Rightarrow> pt list" where
  "corners r = (case r of (x, y, w, h) \<Rightarrow> [(x, y), (x + w, y), (x, y + h), (x + w, y + h)])"

text \<open>For a visible range inside the data all that is drawn around the selection lies in the window, and the part of the strip that is
  left white, between the two grey rectangles, is the rectangle in which the mouse moves the selection.\<close>

theorem selection_drawn:
  assumes "g_start v \<le> r_start v" and "r_start v \<le> r_end v" and "r_end v \<le> g_end v" and "g_start v < g_end v" and "bot_width v = g_width v"
    and "0 \<le> data_x_start g" and "data_x_start g \<le> g_width v" and "0 \<le> top_legend_height g" and "0 \<le> data_height g"
    and "0 \<le> mid_scale_height g" and "0 \<le> bot_scale_height g"
  shows "case (draw_selection exact g v, selection_rectangle exact g v, selection_top exact g) of
      (Inr p, Inr (x, y, width, height), (h1, h2, depth)) \<Rightarrow>
        list_all (inside (g_width v) (h2 + depth)) (left_connection p @ right_connection p @ border_line p @ selection_line p @
          corners (unused_left p) @ corners (unused_right p) @ corners (x, y, width, height)) \<and>
        unused_left p = (0, y, x, height) \<and> unused_right p = (x + width, y, g_width v - (x + width), height) \<and> 0 \<le> width
    | _ \<Rightarrow> False"
proof -
  let ?x0 = "(r_start v - g_start v) * g_width v / (g_end v - g_start v)" and ?x1 = "(r_end v - g_start v) * g_width v / (g_end v - g_start v)"
  have ne: "g_start v \<noteq> g_end v" and w: "0 \<le> g_width v" using assms by linarith+
  have b: "0 \<le> ?x0" "?x0 \<le> ?x1" "?x1 \<le> g_width v"
    using position_bounds(1) [OF assms(4) w assms(1)] position_bounds(2) [OF assms(4) w _ assms(3)] position_mono [OF assms(4) w assms(2)] assms by linarith+
  obtain x0 x1 where x: "x0 = ?x0" "x1 = ?x1" by blast
  have g: "get_position exact (g_start v) (g_end v) (g_width v) (r_start v) = Inr x0" "get_position exact (g_start v) (g_end v) (g_width v) (r_end v) = Inr x1"
    using get_position_exact [OF ne] x by simp_all
  from b x have "0 \<le> x0" "x0 \<le> x1" "x1 \<le> g_width v" by simp_all
  with assms(5-) show ?thesis
    by (simp add: draw_selection_def selection_rectangle_def selection_top_def g Let_def exact_def inside_def corners_def)
qed

theorem selection_drawn_witness:
  "case (draw_selection exact sample_geometry (sample_view\<lparr>r_start := 40, r_end := 60\<rparr>), selection_rectangle exact sample_geometry (sample_view\<lparr>r_start := 40, r_end := 60\<rparr>), selection_top exact sample_geometry) of
      (Inr p, Inr (x, y, width, height), (h1, h2, depth)) \<Rightarrow> unused_left p = (0, y, x, height) \<and> unused_right p = (x + width, y, 200 - (x + width), height)
    | _ \<Rightarrow> False"
  using selection_drawn [of "sample_view\<lparr>r_start := 40, r_end := 60\<rparr>" sample_geometry]
  by (auto simp: sample_view_def sample_geometry_def split: sum.splits prod.splits)

text \<open>While the whole selection is moved, its lines stay in the window: the handler of motions keeps the pointer where they do.\<close>

theorem moving_lines_inside:
  assumes "moving_both m" and "\<not> moving_left m" and "moving_right m = 0" and "both_start m = Some s"
    and "g_start v \<le> r_start v" and "r_start v \<le> r_end v" and "r_end v \<le> g_end v" and "g_start v < g_end v" and "bot_width v = g_width v" and "0 \<le> g_width v"
  shows "case moving_lines exact g (snd (motion_notify exact g ex (v, m))) of
      Inr ls \<Rightarrow> length ls = 2 \<and> list_all (\<lambda>x. 0 \<le> x \<and> x \<le> g_width v) ls
    | Inl _ \<Rightarrow> False"
proof -
  let ?x0 = "(r_start v - g_start v) * g_width v / (g_end v - g_start v)" and ?x1 = "(r_end v - g_start v) * g_width v / (g_end v - g_start v)"
  have ne: "g_start v \<noteq> g_end v" using assms by linarith
  have b: "0 \<le> ?x0" "?x0 \<le> ?x1" "?x1 \<le> g_width v"
    using position_bounds(1) [OF assms(8,10,5)] position_bounds(2) [OF assms(8,10) _ assms(7)] position_mono [OF assms(8,10,6)] assms by linarith+
  obtain x0 x1 where x: "x0 = ?x0" "x1 = ?x1" by blast
  have g: "get_position exact (g_start v) (g_end v) (g_width v) (r_start v) = Inr x0" "get_position exact (g_start v) (g_end v) (g_width v) (r_end v) = Inr x1"
    using get_position_exact [OF ne] x by simp_all
  from b x have "0 \<le> x0" "x0 \<le> x1" "x1 \<le> g_width v" by simp_all
  with assms(1-4,9) show ?thesis
    by (simp add: motion_notify_def moving_lines_def selection_rectangle_def g Let_def exact_def attribute_def reading_def)
qed

theorem moving_lines_inside_witness:
  "case moving_lines exact sample_geometry (snd (motion_notify exact sample_geometry 190
      (sample_view\<lparr>r_start := 40, r_end := 60\<rparr>, mouse_start\<lparr>moving_both := True, both_start := Some 100, both_cur := Some 100\<rparr>))) of
      Inr ls \<Rightarrow> length ls = 2 \<and> list_all (\<lambda>x. 0 \<le> x \<and> x \<le> 200) ls | Inl _ \<Rightarrow> False"
proof -
  have w: "g_width (sample_view\<lparr>r_start := 40, r_end := 60\<rparr>) = 200" by (simp add: sample_view_def)
  show ?thesis
    using moving_lines_inside [of "mouse_start\<lparr>moving_both := True, both_start := Some 100, both_cur := Some 100\<rparr>" 100 "sample_view\<lparr>r_start := 40, r_end := 60\<rparr>" sample_geometry 190, unfolded w]
    by (simp add: sample_view_def mouse_start_def)
qed

end
