(* ===== verification/Viz_View.thy ===== *)
theory Viz_View
  imports Viz_Topology
begin

text \<open>
  What part of the canvas \<open>visualizer/core.py\<close> shows: the zoom and its wheel, panning with the middle button, the scale
  chosen after the start (\<open>autoscale_view\<close>), centring and following a node, and what a screenshot covers.
  The adjustments of gtk and the canvas are a parameter; \<open>gui_ok\<close> says what their documentation promises.
\<close>

section \<open>Adjustments and canvas\<close>

record adjustment =
  value_of :: rat
  lower :: rat
  upper :: rat
  page_size :: rat

text \<open>
  What the libraries do: the value an adjustment takes when it is set, \<open>convert_to_pixels\<close> and \<open>convert_from_pixels\<close>
  at a scale, what \<open>set_scale\<close> does to the scroll bars, and where \<open>scroll_to\<close> moves them.
\<close>

record gui =
  clamp :: "adjustment \<Rightarrow> rat \<Rightarrow> rat"
  to_pixels :: "rat \<Rightarrow> point \<Rightarrow> point"
  from_pixels :: "rat \<Rightarrow> point \<Rightarrow> point"
  rescale :: "rat \<Rightarrow> adjustment \<times> adjustment \<Rightarrow> adjustment \<times> adjustment"
  scroll_to :: "rat \<Rightarrow> point \<Rightarrow> adjustment \<times> adjustment \<Rightarrow> adjustment \<times> adjustment"

definition in_range :: "adjustment \<Rightarrow> rat \<Rightarrow> bool" where
  "in_range a v \<longleftrightarrow> 0 \<le> page_size a \<and> lower a \<le> v \<and> v \<le> upper a - page_size a"

definition gui_ok :: "gui \<Rightarrow> bool" where
  "gui_ok g \<longleftrightarrow>
     (\<forall>a v. lower a \<le> upper a \<longrightarrow> lower a \<le> clamp g a v \<and> clamp g a v \<le> upper a) \<and>
     (\<forall>a v. in_range a v \<longrightarrow> clamp g a v = v) \<and>
     (\<forall>z p. 0 < z \<longrightarrow> from_pixels g z (to_pixels g z p) = p \<and> to_pixels g z (from_pixels g z p) = p) \<and>
     (\<forall>z p q. fst (to_pixels g z p) - fst (to_pixels g z q) = z * (fst p - fst q) \<and>
        snd (to_pixels g z p) - snd (to_pixels g z q) = z * (snd p - snd q)) \<and>
     (\<forall>z h v. page_size (fst (rescale g z (h, v))) = page_size h \<and> page_size (snd (rescale g z (h, v))) = page_size v) \<and>
     (\<forall>z p h v. page_size (fst (scroll_to g z p (h, v))) = page_size h \<and> page_size (snd (scroll_to g z p (h, v))) = page_size v \<and>
        (in_range h (fst (to_pixels g z p)) \<longrightarrow> value_of (fst (scroll_to g z p (h, v))) = fst (to_pixels g z p)) \<and>
        (in_range v (snd (to_pixels g z p)) \<longrightarrow> value_of (snd (scroll_to g z p (h, v))) = snd (to_pixels g z p)))"

definition set_value :: "gui \<Rightarrow> rat \<Rightarrow> adjustment \<Rightarrow> adjustment" where
  "set_value g x a = a\<lparr>value_of := clamp g a x\<rparr>"

section \<open>State\<close>

record panning_state =
  initial_mouse_pos :: point
  initial_canvas_pos :: point

text \<open>\<open>canvas_scale\<close> is what the canvas was last told.\<close>

record view_state =
  hadj :: adjustment
  vadj :: adjustment
  zoom :: adjustment
  canvas_scale :: rat
  panning :: "panning_state option"
  follow_node :: "int option"

text \<open>\<open>gtk.Adjustment(1.0, 0.01, 10.0, \<dots>, 0)\<close>\<close>

definition zoom_adjustment :: adjustment where
  "zoom_adjustment = \<lparr>value_of = 1, lower = 1 / 100, upper = 10, page_size = 0\<rparr>"

text \<open>The signal \<open>value-changed\<close> is sent when the value is another one.\<close>

definition set_zoom :: "gui \<Rightarrow> rat \<Rightarrow> view_state \<Rightarrow> view_state" where
  "set_zoom g z s =
     (let s1 = s\<lparr>zoom := set_value g z (zoom s)\<rparr>; new = value_of (zoom s1)
      in if new = value_of (zoom s) then s1
         else (case rescale g new (hadj s1, vadj s1) of (h, v) \<Rightarrow> s1\<lparr>canvas_scale := new, hadj := h, vadj := v\<rparr>))"

definition first_view :: "gui \<Rightarrow> adjustment \<times> adjustment \<Rightarrow> view_state" where
  "first_view g hv =
     (case rescale g 1 (scroll_to g 1 (0, 0) hv) of (h, v) \<Rightarrow>
        \<lparr>hadj = h, vadj = v, zoom = zoom_adjustment, canvas_scale = 1, panning = None, follow_node = None\<rparr>)"

section \<open>Wheel and panning\<close>

datatype direction = Scroll_Up | Scroll_Down | Scroll_Other

definition canvas_scroll_event :: "(rat \<Rightarrow> rat) \<Rightarrow> gui \<Rightarrow> direction \<Rightarrow> view_state \<Rightarrow> bool \<times> view_state" where
  "canvas_scroll_event fl g d s =
     (case d of
        Scroll_Up \<Rightarrow> (True, set_zoom g (fl (value_of (zoom s) * (5 / 4))) s)
      | Scroll_Down \<Rightarrow> (True, set_zoom g (fl (value_of (zoom s) / (5 / 4))) s)
      | Scroll_Other \<Rightarrow> (False, s))"

definition begin_panning :: "point \<Rightarrow> view_state \<Rightarrow> view_state" where
  "begin_panning pointer s = s\<lparr>panning := Some \<lparr>initial_mouse_pos = pointer, initial_canvas_pos = (value_of (hadj s), value_of (vadj s))\<rparr>\<rparr>"

definition end_panning :: "view_state \<Rightarrow> view_state" where
  "end_panning s = (case panning s of None \<Rightarrow> s | Some _ \<Rightarrow> s\<lparr>panning := None\<rparr>)"

definition panning_motion :: "(rat \<Rightarrow> rat) \<Rightarrow> gui \<Rightarrow> point \<Rightarrow> view_state \<Rightarrow> view_state res" where
  "panning_motion fl g pointer s =
     (case panning s of
        None \<Rightarrow> Inl AssertionError
      | Some p \<Rightarrow>
          (let dx = fl (fst pointer - fst (initial_mouse_pos p)); dy = fl (snd pointer - snd (initial_mouse_pos p))
           in Inr (s\<lparr>hadj := set_value g (fl (fst (initial_canvas_pos p) - dx)) (hadj s),
                     vadj := set_value g (fl (snd (initial_canvas_pos p) - dy)) (vadj s)\<rparr>)))"

definition canvas_button_press :: "int \<Rightarrow> point \<Rightarrow> view_state \<Rightarrow> bool \<times> view_state" where
  "canvas_button_press button pointer s = (if button = 2 then (True, begin_panning pointer s) else (False, s))"

definition canvas_button_release :: "int \<Rightarrow> view_state \<Rightarrow> bool \<times> view_state" where
  "canvas_button_release button s = (if button = 2 then (True, end_panning s) else (False, s))"

section \<open>Centring and following\<close>

definition center_at :: "(rat \<Rightarrow> rat) \<Rightarrow> gui \<Rightarrow> point \<Rightarrow> view_state \<Rightarrow> view_state" where
  "center_at fl g p s =
     (let q = to_pixels g (canvas_scale s) p
      in s\<lparr>hadj := set_value g (fl (fst q - fl (page_size (hadj s) / 2))) (hadj s),
           vadj := set_value g (fl (snd q - fl (page_size (vadj s) / 2))) (vadj s)\<rparr>)"

text \<open>What may be handed to \<open>center_on_node\<close>.\<close>

datatype center_arg = Center_Ns3 int | Center_Index int | Center_View int | Center_Other

definition center_on_node :: "(rat \<Rightarrow> rat) \<Rightarrow> gui \<Rightarrow> scene \<Rightarrow> center_arg \<Rightarrow> view_state \<Rightarrow> view_state res" where
  "center_on_node fl g sc a s =
     bind_res (case a of
         Center_Ns3 i \<Rightarrow> bind_res (dict_get (sc_nodes sc) i) (\<lambda>_. Inr i)
       | Center_Index i \<Rightarrow> bind_res (dict_get (sc_nodes sc) i) (\<lambda>_. Inr i)
       | Center_View i \<Rightarrow> Inr i
       | Center_Other \<Rightarrow> Inl TypeError)
       (\<lambda>i. Inr (center_at fl g (position sc (At_Node i)) s))"

text \<open>\<open>_update_node_positions\<close>, with what it does to the scroll bars.\<close>

definition update_node_followed :: "(rat \<Rightarrow> rat) \<Rightarrow> gui \<Rightarrow> network \<Rightarrow> int \<Rightarrow> scene \<times> view_state \<Rightarrow> scene \<times> view_state" where
  "update_node_followed fl g net i st =
     (case st of (sc, s) \<Rightarrow>
       (case ask_mobility net i sc of (b, sc1) \<Rightarrow>
          if b then (case mobility_of net i of
              None \<Rightarrow> (sc1, s)
            | Some p \<Rightarrow>
                (let q = point_to_canvas fl p
                 in (set_position fl (At_Node i) q sc1, if follow_node s = Some i then center_at fl g q s else s)))
          else (sc1, s)))"

definition update_positions_followed :: "(rat \<Rightarrow> rat) \<Rightarrow> gui \<Rightarrow> network \<Rightarrow> scene \<times> view_state \<Rightarrow> scene \<times> view_state" where
  "update_positions_followed fl g net st = fold (update_node_followed fl g net) (dict_keys (sc_nodes (fst st))) st"

section \<open>Autoscale\<close>

definition node_points :: "scene \<Rightarrow> point list" where
  "node_points sc = map (\<lambda>i. position sc (At_Node i)) (dict_keys (sc_nodes sc))"

text \<open>The corners of the smallest rectangle with all nodes.\<close>

definition node_box :: "scene \<Rightarrow> point \<times> point" where
  "node_box sc =
     (let xs = map fst (node_points sc); ys = map snd (node_points sc)
      in ((Min (set xs), Min (set ys)), (Max (set xs), Max (set ys))))"

definition autoscale_view :: "(rat \<Rightarrow> rat) \<Rightarrow> gui \<Rightarrow> network \<Rightarrow> scene \<times> view_state \<Rightarrow> scene \<times> view_state" where
  "autoscale_view fl g net st0 =
     (if sc_nodes (fst st0) = [] then st0
      else (case update_positions_followed fl g net st0 of (sc, s) \<Rightarrow>
        let ((min_x, min_y), (max_x, max_y)) = node_box sc;
            min_px = to_pixels g (canvas_scale s) (min_x, min_y);
            max_px = to_pixels g (canvas_scale s) (max_x, max_y);
            new_dx = fl ((3 / 2) * fl (fst max_px - fst min_px));
            new_dy = fl ((3 / 2) * fl (snd max_px - snd min_px))
        in if new_dx = 0 \<or> new_dy = 0 then (sc, s)
           else
             let s1 = set_zoom g (min (fl (page_size (hadj s) / new_dx)) (fl (page_size (vadj s) / new_dy))) s;
                 z = canvas_scale s1;
                 p1 = from_pixels g z (value_of (hadj s1), value_of (vadj s1));
                 p2 = from_pixels g z (fl (value_of (hadj s1) + page_size (hadj s1)), fl (value_of (vadj s1) + page_size (vadj s1)));
                 width = fl (fst p2 - fst p1); height = fl (snd p2 - snd p1);
                 center_x = fl (fl (min_x + max_x) / 2); center_y = fl (fl (min_y + max_y) / 2)
             in (case scroll_to g z (fl (center_x - fl (width / 2)), fl (center_y - fl (height / 2))) (hadj s1, vadj s1) of
                   (h, v) \<Rightarrow> (sc, s1\<lparr>hadj := h, vadj := v\<rparr>))))"

section \<open>Screenshots and tooltips\<close>

text \<open>What is on the screen, in coordinates of the canvas.\<close>

definition visible_area :: "(rat \<Rightarrow> rat) \<Rightarrow> gui \<Rightarrow> view_state \<Rightarrow> point \<times> point" where
  "visible_area fl g s =
     (from_pixels g (canvas_scale s) (value_of (hadj s), value_of (vadj s)),
      from_pixels g (canvas_scale s) (fl (value_of (hadj s) + page_size (hadj s)), fl (value_of (vadj s) + page_size (vadj s))))"

text \<open>\<open>os.path.splitext\<close>: the last dot of the file name, unless there are only dots before it.\<close>

definition extension :: "string \<Rightarrow> string" where
  "extension path =
     (let name = basename path; after = takeWhile (\<lambda>c. c \<noteq> CHR ''.'') (rev name); before = drop (Suc (length after)) (rev name)
      in if length after < length name \<and> (\<exists>c \<in> set before. c \<noteq> CHR ''.'') then CHR ''.'' # rev after else [])"

datatype surface_kind = PS_Surface | PDF_Surface | SVG_Surface

text \<open>The surface with its width and height, the translation, and the bounds that are rendered; \<^const>\<open>None\<close> is the message about
  the extension.\<close>

record screenshot =
  surface :: surface_kind
  dest_size :: point
  translation :: point
  bounds :: "point \<times> point"

definition lower_char :: "char \<Rightarrow> char" where
  "lower_char c = (if 65 \<le> code c \<and> code c \<le> 90 then char_of (code c + 32) else c)"

definition surface_of :: "string \<Rightarrow> surface_kind option" where
  "surface_of ext =
     (let e = map lower_char ext
      in if e = ''.eps'' then Some PS_Surface else if e = ''.pdf'' then Some PDF_Surface else if e = ''.svg'' then Some SVG_Surface else None)"

definition take_screenshot :: "(rat \<Rightarrow> rat) \<Rightarrow> gui \<Rightarrow> string \<Rightarrow> view_state \<Rightarrow> screenshot option" where
  "take_screenshot fl g file_name s =
     (let (p, q) = visible_area fl g s
      in map_option (\<lambda>k. \<lparr>surface = k, dest_size = (fl (fst q - fst p), fl (snd q - snd p)),
           translation = (- fst p, - snd p), bounds = (p, q)\<rparr>) (surface_of (extension file_name)))"

text \<open>\<open>_canvas_tooltip_cb\<close>: the objects of the item under the pointer and of its parents, innermost first.\<close>

definition tooltip_point :: "(rat \<Rightarrow> rat) \<Rightarrow> gui \<Rightarrow> point \<Rightarrow> view_state \<Rightarrow> point" where
  "tooltip_point fl g p s = from_pixels g (canvas_scale s) (fl (value_of (hadj s) + fst p), fl (value_of (vadj s) + snd p))"

fun tooltip_object :: "'o option list \<Rightarrow> 'o option" where
  "tooltip_object [] = None"
| "tooltip_object (Some ob # items) = Some ob"
| "tooltip_object (None # items) = tooltip_object items"

section \<open>What the user can do\<close>

datatype view_event =
    Wheel direction
  | Press int point
  | Release int
  | Move_Pointer point
  | Center center_arg
  | Follow int
  | Autoscale network
  | Update_Positions network

text \<open>The handler of motions is connected while panning; an exception leaves the view as it is.\<close>

definition view_event :: "(rat \<Rightarrow> rat) \<Rightarrow> gui \<Rightarrow> view_event \<Rightarrow> scene \<times> view_state \<Rightarrow> scene \<times> view_state" where
  "view_event fl g ev st =
     (case st of (sc, s) \<Rightarrow>
        (case ev of
           Wheel d \<Rightarrow> (sc, snd (canvas_scroll_event fl g d s))
         | Press b p \<Rightarrow> (sc, snd (canvas_button_press b p s))
         | Release b \<Rightarrow> (sc, snd (canvas_button_release b s))
         | Move_Pointer p \<Rightarrow> (sc, if panning s = None then s else case_sum (\<lambda>_. s) (\<lambda>s'. s') (panning_motion fl g p s))
         | Center a \<Rightarrow> (sc, case_sum (\<lambda>_. s) (\<lambda>s'. s') (center_on_node fl g sc a s))
         | Follow i \<Rightarrow> (sc, s\<lparr>follow_node := Some i\<rparr>)
         | Autoscale net \<Rightarrow> autoscale_view fl g net st
         | Update_Positions net \<Rightarrow> update_positions_followed fl g net st))"

section \<open>Lemmas\<close>

lemma set_value_simps [simp]:
  "lower (set_value g x a) = lower a" "upper (set_value g x a) = upper a" "page_size (set_value g x a) = page_size a"
  by (simp_all add: set_value_def)

lemma gui_clamp: "gui_ok g \<Longrightarrow> in_range a x \<Longrightarrow> value_of (set_value g x a) = x"
  by (simp add: gui_ok_def set_value_def)

lemma gui_bounds: "gui_ok g \<Longrightarrow> lower a \<le> upper a \<Longrightarrow> lower a \<le> value_of (set_value g x a) \<and> value_of (set_value g x a) \<le> upper a"
  by (simp add: gui_ok_def set_value_def)

lemma gui_inverse: "gui_ok g \<Longrightarrow> 0 < z \<Longrightarrow> from_pixels g z (to_pixels g z p) = p" "gui_ok g \<Longrightarrow> 0 < z \<Longrightarrow> to_pixels g z (from_pixels g z p) = p"
  unfolding gui_ok_def by blast+

lemma gui_distance:
  "gui_ok g \<Longrightarrow> fst (to_pixels g z p) - fst (to_pixels g z q) = z * (fst p - fst q)"
  "gui_ok g \<Longrightarrow> snd (to_pixels g z p) - snd (to_pixels g z q) = z * (snd p - snd q)"
  unfolding gui_ok_def by blast+

lemma gui_pages:
  assumes "gui_ok g"
  shows "page_size (fst (rescale g z hv)) = page_size (fst hv)" "page_size (snd (rescale g z hv)) = page_size (snd hv)"
    "page_size (fst (scroll_to g z p hv)) = page_size (fst hv)" "page_size (snd (scroll_to g z p hv)) = page_size (snd hv)"
    "in_range (fst hv) (fst (to_pixels g z p)) \<Longrightarrow> value_of (fst (scroll_to g z p hv)) = fst (to_pixels g z p)"
    "in_range (snd hv) (snd (to_pixels g z p)) \<Longrightarrow> value_of (snd (scroll_to g z p hv)) = snd (to_pixels g z p)"
proof -
  obtain h v where hv: "hv = (h, v)" by (cases hv)
  from assms show "page_size (fst (rescale g z hv)) = page_size (fst hv)" "page_size (snd (rescale g z hv)) = page_size (snd hv)"
    "page_size (fst (scroll_to g z p hv)) = page_size (fst hv)" "page_size (snd (scroll_to g z p hv)) = page_size (snd hv)"
    "in_range (fst hv) (fst (to_pixels g z p)) \<Longrightarrow> value_of (fst (scroll_to g z p hv)) = fst (to_pixels g z p)"
    "in_range (snd hv) (snd (to_pixels g z p)) \<Longrightarrow> value_of (snd (scroll_to g z p hv)) = snd (to_pixels g z p)"
    unfolding hv gui_ok_def fst_conv snd_conv by blast+
qed

lemma from_distance:
  assumes "gui_ok g" and "0 < z"
  shows "fst (from_pixels g z p) - fst (from_pixels g z q) = (fst p - fst q) / z"
    and "snd (from_pixels g z p) - snd (from_pixels g z q) = (snd p - snd q) / z"
  using gui_distance [OF assms(1), of z "from_pixels g z p" "from_pixels g z q"] assms by (simp_all add: gui_inverse field_simps)

text \<open>The zoom, its adjustment and the scale of the canvas.\<close>

definition zoom_ok :: "view_state \<Rightarrow> bool" where
  "zoom_ok s \<longleftrightarrow> lower (zoom s) = 1 / 100 \<and> upper (zoom s) = 10 \<and> page_size (zoom s) = 0 \<and>
     1 / 100 \<le> value_of (zoom s) \<and> value_of (zoom s) \<le> 10 \<and> canvas_scale s = value_of (zoom s)"

lemma set_zoom_ok: "gui_ok g \<Longrightarrow> zoom_ok s \<Longrightarrow> zoom_ok (set_zoom g z s)"
  using gui_bounds [of g "zoom s" z] by (auto simp: zoom_ok_def set_zoom_def Let_def split: prod.split)

lemma set_zoom_scale:
  assumes "gui_ok g" "zoom_ok s" "1 / 100 \<le> z" "z \<le> 10"
  shows "canvas_scale (set_zoom g z s) = z"
proof -
  have "in_range (zoom s) z" using assms(2-4) by (simp add: in_range_def zoom_ok_def)
  from gui_clamp [OF assms(1) this] assms(2) show ?thesis by (auto simp: set_zoom_def Let_def zoom_ok_def split: prod.split)
qed

lemma center_at_zoom [simp]: "zoom_ok (center_at fl g p s) = zoom_ok s" "canvas_scale (center_at fl g p s) = canvas_scale s"
  "follow_node (center_at fl g p s) = follow_node s"
  by (simp_all add: center_at_def zoom_ok_def Let_def)

lemma update_followed_step:
  "fst (update_node_followed fl g net i st) = update_node fl net i (fst st)"
  "zoom_ok (snd (update_node_followed fl g net i st)) = zoom_ok (snd st)"
  "canvas_scale (snd (update_node_followed fl g net i st)) = canvas_scale (snd st)"
  "follow_node (snd (update_node_followed fl g net i st)) = follow_node (snd st)"
  by (auto simp: update_node_followed_def update_node_def Let_def split: prod.split option.split)

lemma update_followed:
  "fst (update_positions_followed fl g net st) = update_node_positions fl net (fst st)"
  "zoom_ok (snd (update_positions_followed fl g net st)) = zoom_ok (snd st)"
  "canvas_scale (snd (update_positions_followed fl g net st)) = canvas_scale (snd st)"
proof -
  have "fst (fold (update_node_followed fl g net) is st) = fold (update_node fl net) is (fst st) \<and>
      zoom_ok (snd (fold (update_node_followed fl g net) is st)) = zoom_ok (snd st) \<and>
      canvas_scale (snd (fold (update_node_followed fl g net) is st)) = canvas_scale (snd st)" for "is"
    by (induction "is" arbitrary: st) (simp_all add: update_followed_step)
  then show "fst (update_positions_followed fl g net st) = update_node_positions fl net (fst st)"
    "zoom_ok (snd (update_positions_followed fl g net st)) = zoom_ok (snd st)"
    "canvas_scale (snd (update_positions_followed fl g net st)) = canvas_scale (snd st)"
    by (simp_all add: update_positions_followed_def update_node_positions_def)
qed

lemma zoom_ok_scrolled: "zoom_ok (s\<lparr>hadj := h, vadj := v\<rparr>) = zoom_ok s" "zoom_ok (s\<lparr>panning := p\<rparr>) = zoom_ok s" "zoom_ok (s\<lparr>follow_node := n\<rparr>) = zoom_ok s"
  by (simp_all add: zoom_ok_def)

lemma autoscale_zoom_ok: "gui_ok g \<Longrightarrow> zoom_ok (snd st) \<Longrightarrow> zoom_ok (snd (autoscale_view fl g net st))"
proof -
  assume a: "gui_ok g" "zoom_ok (snd st)"
  obtain sc s where u: "update_positions_followed fl g net st = (sc, s)" by fastforce
  with a(2) have "zoom_ok s" using update_followed(2) [of fl g net st] by simp
  then have "zoom_ok (set_zoom g z s)" for z by (rule set_zoom_ok [OF a(1)])
  then show ?thesis using a(2) \<open>zoom_ok s\<close> by (simp add: autoscale_view_def u Let_def zoom_ok_scrolled split: prod.split)
qed

lemma view_event_zoom: "gui_ok g \<Longrightarrow> zoom_ok (snd st) \<Longrightarrow> zoom_ok (snd (view_event fl g ev st))"
  by (cases st; cases ev)
    (auto simp: view_event_def canvas_scroll_event_def canvas_button_press_def canvas_button_release_def begin_panning_def end_panning_def
       panning_motion_def center_on_node_def Let_def zoom_ok_scrolled set_zoom_ok autoscale_zoom_ok update_followed bind_res_def
       split: direction.split option.split sum.split center_arg.split)

text \<open>One motion after any others moves the view by as much as the pointer.\<close>

lemma motions_panning:
  "panning s = Some p \<Longrightarrow> \<exists>s'. run_steps (\<lambda>s q. panning_motion fl g q s) s ms = Inr s' \<and> panning s' = Some p \<and> canvas_scale s' = canvas_scale s \<and>
    lower (hadj s') = lower (hadj s) \<and> upper (hadj s') = upper (hadj s) \<and> page_size (hadj s') = page_size (hadj s) \<and>
    lower (vadj s') = lower (vadj s) \<and> upper (vadj s') = upper (vadj s) \<and> page_size (vadj s') = page_size (vadj s)"
proof (induction ms arbitrary: s)
  case (Cons q ms)
  obtain s1 where s1: "panning_motion fl g q s = Inr s1" "panning s1 = Some p" "canvas_scale s1 = canvas_scale s"
    "lower (hadj s1) = lower (hadj s)" "upper (hadj s1) = upper (hadj s)" "page_size (hadj s1) = page_size (hadj s)"
    "lower (vadj s1) = lower (vadj s)" "upper (vadj s1) = upper (vadj s)" "page_size (vadj s1) = page_size (vadj s)"
    using Cons.prems by (simp add: panning_motion_def Let_def)
  from Cons.IH [OF s1(2)] s1 show ?case by simp
qed simp

text \<open>Only the node that is followed moves the view.\<close>

lemma not_followed: "follow_node (snd st) \<noteq> Some j \<Longrightarrow> snd (update_node_followed fl g net j st) = snd st"
  by (auto simp: update_node_followed_def Let_def split: prod.split option.split)

lemma none_followed: "\<forall>j \<in> set js. follow_node (snd st) \<noteq> Some j \<Longrightarrow> snd (fold (update_node_followed fl g net) js st) = snd st"
  by (induction js arbitrary: st) (simp_all add: not_followed)

lemma fst_followed: "fst (fold (update_node_followed fl g net) js st) = fold (update_node fl net) js (fst st)"
  by (induction js arbitrary: st) (simp_all add: update_followed_step)

lemma updates_keep: "cached net sc \<Longrightarrow> cached net (fold (update_node fl net) js sc) \<and> present (fold (update_node fl net) js sc) = present sc"
  by (induction js arbitrary: sc) (simp_all add: update_node_simps)

lemma followed_step:
  assumes "cached net (fst st)" "present (fst st) (At_Node i)" "mobility_of net i = Some p" "follow_node (snd st) = Some i"
  shows "snd (update_node_followed fl g net i st) = center_at fl g (point_to_canvas fl p) (snd st)"
  using ask_mobility_cached(2) [OF assms(1,2)] assms(3,4) by (cases st) (simp add: update_node_followed_def Let_def split_def)

lemma center_at_middle:
  assumes g: "gui_ok g" and z: "0 < canvas_scale s"
    and r: "in_range (hadj s) (fst (to_pixels g (canvas_scale s) q) - page_size (hadj s) / 2)"
      "in_range (vadj s) (snd (to_pixels g (canvas_scale s) q) - page_size (vadj s) / 2)"
  shows "tooltip_point exact g (page_size (hadj s) / 2, page_size (vadj s) / 2) (center_at exact g q s) = q"
  using gui_clamp [OF g r(1)] gui_clamp [OF g r(2)] gui_inverse(1) [OF g z, of q]
  by (simp add: tooltip_point_def center_at_def exact_def Let_def)

section \<open>An instance of the libraries\<close>

definition plain_gui :: gui where
  "plain_gui =
     \<lparr>clamp = (\<lambda>a v. if upper a < v then upper a else if v < lower a then lower a else v),
      to_pixels = (\<lambda>z p. ((fst p + 10000) * z, (snd p + 10000) * z)),
      from_pixels = (\<lambda>z p. (fst p / z - 10000, snd p / z - 10000)),
      rescale = (\<lambda>z (h, v). (h\<lparr>upper := 20000 * z\<rparr>, v\<lparr>upper := 20000 * z\<rparr>)),
      scroll_to = (\<lambda>z p (h, v). (h\<lparr>value_of := min ((fst p + 10000) * z) (upper h - page_size h)\<rparr>,
        v\<lparr>value_of := min ((snd p + 10000) * z) (upper v - page_size v)\<rparr>))\<rparr>"

lemma plain_gui_ok: "gui_ok plain_gui"
  by (auto simp: gui_ok_def plain_gui_def in_range_def field_simps)

definition sample_adjustment :: "rat \<Rightarrow> adjustment" where
  "sample_adjustment page = \<lparr>value_of = 100, lower = 0, upper = 20000, page_size = page\<rparr>"

text \<open>Two nodes without mobility models.\<close>

definition two_nodes :: scene where
  "two_nodes = empty_scene\<lparr>sc_nodes := [(0, blank_node\<lparr>center := (0, 0), has_mobility := Some False\<rparr>),
     (1, blank_node\<lparr>center := (100, 50), has_mobility := Some False\<rparr>)]\<rparr>"

definition no_models :: network where
  "no_models = \<lparr>net_nodes = [], members = (\<lambda>_. [])\<rparr>"

definition sample_view :: view_state where
  "sample_view = \<lparr>hadj = sample_adjustment 600, vadj = sample_adjustment 450, zoom = zoom_adjustment, canvas_scale = 1,
     panning = None, follow_node = None\<rparr>"

section \<open>Properties\<close>

text \<open>Whatever the user does, and however the nodes move, the zoom stays between a hundredth and ten, and the canvas has been told
  the zoom that the window shows.\<close>

theorem zoom_stays_in_range:
  assumes "gui_ok g"
  shows "case fold (view_event fl g) evs (sc, first_view g hv) of (sc', s) \<Rightarrow>
    1 / 100 \<le> canvas_scale s \<and> canvas_scale s \<le> 10 \<and> value_of (zoom s) = canvas_scale s"
proof -
  have "zoom_ok (snd st) \<Longrightarrow> zoom_ok (snd (fold (view_event fl g) evs st))" for st
    by (induction evs arbitrary: st) (simp_all add: view_event_zoom assms)
  moreover have "zoom_ok (first_view g hv)" by (simp add: first_view_def zoom_ok_def zoom_adjustment_def split: prod.split)
  ultimately have "zoom_ok (snd (fold (view_event fl g) evs (sc, first_view g hv)))" by simp
  then show ?thesis by (auto simp: zoom_ok_def split: prod.split)
qed

theorem zoom_stays_in_range_witness:
  "case fold (view_event dbl plain_gui) [Wheel Scroll_Down, Press 2 (10, 10), Autoscale no_models] (two_nodes, first_view plain_gui (sample_adjustment 600, sample_adjustment 450))
   of (sc', s) \<Rightarrow> 1 / 100 \<le> canvas_scale s \<and> canvas_scale s \<le> 10 \<and> value_of (zoom s) = canvas_scale s"
  by (rule zoom_stays_in_range [OF plain_gui_ok])

text \<open>While the canvas is panned the point under the pointer stays under it: after any motions, wherever the scroll bars reach, the
  point of the canvas at the pointer is the one at which the middle button was pressed.\<close>

theorem panning_keeps_point:
  assumes "gui_ok g" and "0 < canvas_scale s"
    and "in_range (hadj s) (value_of (hadj s) + fst m - fst q)" and "in_range (vadj s) (value_of (vadj s) + snd m - snd q)"
  shows "\<exists>s'. run_steps (\<lambda>s q. panning_motion exact g q s) (snd (canvas_button_press 2 m s)) (ms @ [q]) = Inr s' \<and>
    tooltip_point exact g q s' = tooltip_point exact g m s"
proof -
  let ?p = "\<lparr>initial_mouse_pos = m, initial_canvas_pos = (value_of (hadj s), value_of (vadj s))\<rparr>"
  have b: "snd (canvas_button_press 2 m s) = s\<lparr>panning := Some ?p\<rparr>" by (simp add: canvas_button_press_def begin_panning_def)
  obtain s1 where s1: "run_steps (\<lambda>s q. panning_motion exact g q s) (s\<lparr>panning := Some ?p\<rparr>) ms = Inr s1" "panning s1 = Some ?p"
    "canvas_scale s1 = canvas_scale s" "lower (hadj s1) = lower (hadj s)" "upper (hadj s1) = upper (hadj s)" "page_size (hadj s1) = page_size (hadj s)"
    "lower (vadj s1) = lower (vadj s)" "upper (vadj s1) = upper (vadj s)" "page_size (vadj s1) = page_size (vadj s)"
    using motions_panning [of "s\<lparr>panning := Some ?p\<rparr>" ?p exact g ms] by auto
  have "in_range (hadj s1) (value_of (hadj s) - (fst q - fst m))" "in_range (vadj s1) (value_of (vadj s) - (snd q - snd m))"
    using assms(3,4) s1 by (simp_all add: in_range_def algebra_simps)
  note c = gui_clamp [OF assms(1) this(1)] gui_clamp [OF assms(1) this(2)]
  obtain s' where s': "panning_motion exact g q s1 = Inr s'" and v: "value_of (hadj s') + fst q = value_of (hadj s) + fst m"
    "value_of (vadj s') + snd q = value_of (vadj s) + snd m" "canvas_scale s' = canvas_scale s"
    using s1(2,3) c by (simp add: panning_motion_def exact_eq)
  have "tooltip_point exact g q s' = tooltip_point exact g m s" by (simp add: tooltip_point_def exact_eq v)
  with s1(1) s' b show ?thesis by (simp add: run_steps_append)
qed

definition in_view :: "point \<times> point \<Rightarrow> point \<Rightarrow> bool" where
  "in_view area p \<longleftrightarrow> fst (fst area) \<le> fst p \<and> fst p \<le> fst (snd area) \<and> snd (fst area) \<le> snd p \<and> snd p \<le> snd (snd area)"

lemma in_view_box:
  assumes "node_points sc \<noteq> []" and "node_box sc = ((x0, y0), (x1, y1))"
  shows "(\<forall>p \<in> set (node_points sc). in_view area p) \<longleftrightarrow>
    fst (fst area) \<le> x0 \<and> x1 \<le> fst (snd area) \<and> snd (fst area) \<le> y0 \<and> y1 \<le> snd (snd area)"
proof -
  let ?X = "fst ` set (node_points sc)" and ?Y = "snd ` set (node_points sc)"
  have f: "finite ?X" "finite ?Y" "?X \<noteq> {}" "?Y \<noteq> {}" using assms(1) by auto
  have b: "x0 = Min ?X" "y0 = Min ?Y" "x1 = Max ?X" "y1 = Max ?Y" using assms(2) by (auto simp: node_box_def Let_def)
  have "(\<forall>p \<in> set (node_points sc). in_view area p) \<longleftrightarrow>
      (\<forall>x \<in> ?X. fst (fst area) \<le> x) \<and> (\<forall>x \<in> ?X. x \<le> fst (snd area)) \<and> (\<forall>y \<in> ?Y. snd (fst area) \<le> y) \<and> (\<forall>y \<in> ?Y. y \<le> snd (snd area))"
    by (auto simp: in_view_def)
  also have "\<dots> \<longleftrightarrow> fst (fst area) \<le> x0 \<and> x1 \<le> fst (snd area) \<and> snd (fst area) \<le> y0 \<and> y1 \<le> snd (snd area)"
    unfolding b using f by (simp add: Min_ge_iff Max_le_iff)
  finally show ?thesis .
qed

lemma fit_zoom:
  fixes z dx dy w :: rat
  assumes "0 < z" "0 < dx" "0 < dy" "0 < w" and w: "w = min (pw / (3 / 2 * (z * dx))) (ph / (3 / 2 * (z * dy)))"
  shows "dx \<le> pw / w \<and> dy \<le> ph / w \<longleftrightarrow> 2 / 3 \<le> z"
proof -
  have p: "0 < 3 / 2 * (z * dx)" "0 < 3 / 2 * (z * dy)" using assms(1-3) by simp_all
  have "w \<le> pw / (3 / 2 * (z * dx))" "w \<le> ph / (3 / 2 * (z * dy))" unfolding w by simp_all
  then have le: "3 / 2 * (z * dx) \<le> pw / w" "3 / 2 * (z * dy) \<le> ph / w" using p assms(4) by (simp_all add: field_simps)
  have "w = pw / (3 / 2 * (z * dx)) \<or> w = ph / (3 / 2 * (z * dy))" unfolding w by linarith
  moreover have "v / w = a" if "w = v / a" "0 < a" for v a
  proof -
    from that have "v = w * a" by simp
    with assms(4) show ?thesis by simp
  qed
  ultimately have eq: "pw / w = 3 / 2 * (z * dx) \<or> ph / w = 3 / 2 * (z * dy)" using p by blast
  have d: "dx \<le> 3 / 2 * (z * dx) \<longleftrightarrow> 2 / 3 \<le> z" "dy \<le> 3 / 2 * (z * dy) \<longleftrightarrow> 2 / 3 \<le> z"
    using assms(2,3) mult_le_cancel_right_pos [of dx 1 "3 / 2 * z"] mult_le_cancel_right_pos [of dy 1 "3 / 2 * z"] by (auto simp: algebra_simps)
  show ?thesis
  proof
    assume "dx \<le> pw / w \<and> dy \<le> ph / w"
    then have "dx \<le> 3 / 2 * (z * dx) \<or> dy \<le> 3 / 2 * (z * dy)" using eq by linarith
    with d show "2 / 3 \<le> z" by blast
  next
    assume "2 / 3 \<le> z"
    then have "dx \<le> 3 / 2 * (z * dx)" "dy \<le> 3 / 2 * (z * dy)" using d by auto
    with le show "dx \<le> pw / w \<and> dy \<le> ph / w" by linarith
  qed
qed

text \<open>What the last steps of \<open>autoscale_view\<close> do: the view is centred on the nodes.\<close>

lemma autoscale_area:
  assumes g: "gui_ok g" and z: "zoom_ok s" and u: "update_positions_followed exact g net st = (sc, s)" "sc_nodes (fst st) \<noteq> []"
    and b: "node_box sc = ((x0, y0), (x1, y1))" "x0 < x1" "y0 < y1"
    and w: "w = min (page_size (hadj s) / (3 / 2 * (canvas_scale s * (x1 - x0)))) (page_size (vadj s) / (3 / 2 * (canvas_scale s * (y1 - y0))))"
      "1 / 100 \<le> w" "w \<le> 10"
    and s2: "s2 = set_zoom g w s" and t: "t = to_pixels g w ((x0 + x1) / 2 - page_size (hadj s) / w / 2, (y0 + y1) / 2 - page_size (vadj s) / w / 2)"
    and r: "in_range (hadj s2) (fst t)" "in_range (vadj s2) (snd t)"
  shows "\<exists>s'. autoscale_view exact g net st = (sc, s') \<and> canvas_scale s' = w \<and> visible_area exact g s' =
    (((x0 + x1) / 2 - page_size (hadj s) / w / 2, (y0 + y1) / 2 - page_size (vadj s) / w / 2),
     ((x0 + x1) / 2 + page_size (hadj s) / w / 2, (y0 + y1) / 2 + page_size (vadj s) / w / 2))"
proof -
  have w0: "0 < w" using w(2) by simp
  have z0: "0 < canvas_scale s" using z by (auto simp: zoom_ok_def)
  have c: "canvas_scale s2 = w" unfolding s2 by (rule set_zoom_scale [OF g z w(2,3)])
  have p: "page_size (hadj s2) = page_size (hadj s)" "page_size (vadj s2) = page_size (vadj s)"
    using gui_pages(1,2) [OF g, of "value_of (set_value g w (zoom s))" "(hadj s, vadj s)"] by (simp_all add: s2 set_zoom_def Let_def split_def)
  have d: "fst (to_pixels g (canvas_scale s) (x1, y1)) - fst (to_pixels g (canvas_scale s) (x0, y0)) = canvas_scale s * (x1 - x0)"
    "snd (to_pixels g (canvas_scale s) (x1, y1)) - snd (to_pixels g (canvas_scale s) (x0, y0)) = canvas_scale s * (y1 - y0)"
    using gui_distance [OF g, of "canvas_scale s" "(x1, y1)" "(x0, y0)"] by simp_all
  have n: "3 / 2 * (canvas_scale s * (x1 - x0)) \<noteq> 0" "3 / 2 * (canvas_scale s * (y1 - y0)) \<noteq> 0" using z0 b(2,3) by simp_all
  let ?H = "value_of (hadj s2)" and ?V = "value_of (vadj s2)"
  have wd: "fst (from_pixels g w (?H + page_size (hadj s), ?V + page_size (vadj s))) - fst (from_pixels g w (?H, ?V)) = page_size (hadj s) / w"
    "snd (from_pixels g w (?H + page_size (hadj s), ?V + page_size (vadj s))) - snd (from_pixels g w (?H, ?V)) = page_size (vadj s) / w"
    using from_distance [OF g w0, of "(?H + page_size (hadj s), ?V + page_size (vadj s))" "(?H, ?V)"] by simp_all
  obtain h v where hv: "scroll_to g w ((x0 + x1) / 2 - page_size (hadj s) / w / 2, (y0 + y1) / 2 - page_size (vadj s) / w / 2) (hadj s2, vadj s2) = (h, v)"
    by fastforce
  have e: "autoscale_view exact g net st = (sc, s2\<lparr>hadj := h, vadj := v\<rparr>)"
    unfolding autoscale_view_def u(1) prod.case b(1) Let_def exact_def d w(1) [symmetric] s2 [symmetric] c p wd hv
    using u(2) n by simp
  have val: "value_of h = fst t" "value_of v = snd t" "page_size h = page_size (hadj s)" "page_size v = page_size (vadj s)"
    using gui_pages(3-6) [OF g, where z = w and hv = "(hadj s2, vadj s2)"] r hv p t by (metis fst_conv snd_conv)+
  have "from_pixels g w (fst t, snd t) = ((x0 + x1) / 2 - page_size (hadj s) / w / 2, (y0 + y1) / 2 - page_size (vadj s) / w / 2)"
    by (simp add: t gui_inverse(1) [OF g w0])
  moreover from this have "from_pixels g w (fst t + page_size (hadj s), snd t + page_size (vadj s)) =
      ((x0 + x1) / 2 + page_size (hadj s) / w / 2, (y0 + y1) / 2 + page_size (vadj s) / w / 2)"
    using from_distance [OF g w0, of "(fst t + page_size (hadj s), snd t + page_size (vadj s))" "(fst t, snd t)"]
    by (cases "from_pixels g w (fst t + page_size (hadj s), snd t + page_size (vadj s))") (simp add: algebra_simps)
  ultimately have "visible_area exact g (s2\<lparr>hadj := h, vadj := v\<rparr>) =
    (((x0 + x1) / 2 - page_size (hadj s) / w / 2, (y0 + y1) / 2 - page_size (vadj s) / w / 2),
     ((x0 + x1) / 2 + page_size (hadj s) / w / 2, (y0 + y1) / 2 + page_size (vadj s) / w / 2))"
    by (simp add: visible_area_def exact_def val c)
  moreover have "canvas_scale (s2\<lparr>hadj := h, vadj := v\<rparr>) = w" by (simp add: c)
  ultimately show ?thesis using e by blast
qed

theorem panning_keeps_point_witness:
  "\<exists>s'. run_steps (\<lambda>s q. panning_motion exact plain_gui q s) (snd (canvas_button_press 2 (300, 200) sample_view))
      ([(310, 900)] @ [(320, 210)]) = Inr s' \<and>
    tooltip_point exact plain_gui (320, 210) s' = tooltip_point exact plain_gui (300, 200) sample_view"
  by (rule panning_keeps_point [OF plain_gui_ok]) (simp_all add: sample_view_def sample_adjustment_def in_range_def)

lemma min_quotients:
  assumes "0 < (a::rat)" and "0 < b" and "0 < (z::rat)" and "w = min (p / (3 / 2 * (z * a))) (q / (3 / 2 * (z * b)))" and "0 < w"
  shows "max (a / (p / w)) (b / (q / w)) = 2 / (3 * z)"
proof -
  have d: "0 < 3 / 2 * (z * a)" "0 < 3 / 2 * (z * b)" using assms(1-3) by simp_all
  have "0 < p / (3 / 2 * (z * a))" "0 < q / (3 / 2 * (z * b))" using assms(5) unfolding assms(4) by simp_all
  then have pq: "0 < p" "0 < q" using d by (simp_all only: zero_less_divide_iff) auto
  have le: "w \<le> p / (3 / 2 * (z * a))" "w \<le> q / (3 / 2 * (z * b))" using assms(4) by simp_all
  have 1: "a / (p / w) \<le> 2 / (3 * z)" using le(1) assms(1,3,5) pq(1) by (simp add: field_simps)
  have 2: "b / (q / w) \<le> 2 / (3 * z)" using le(2) assms(2,3,5) pq(2) by (simp add: field_simps)
  consider "w = p / (3 / 2 * (z * a))" | "w = q / (3 / 2 * (z * b))" using assms(4) by (auto simp: min_def split: if_splits)
  then show ?thesis
  proof cases
    case 1
    then have "a / (p / w) = 2 / (3 * z)" using assms(1,3) pq(1) by (simp add: field_simps)
    with 2 show ?thesis by simp
  next
    case 2
    then have "b / (q / w) = 2 / (3 * z)" using assms(2,3) pq(2) by (simp add: field_simps)
    with 1 show ?thesis by simp
  qed
qed

text \<open>C34. After the first scan \<open>autoscale_view\<close> centres the view on the nodes, as far as zoom and scroll bars reach, at a zoom where
  they take up 2 / (3 z) of the window (of its width or of its height, whichever is more), for the scale z that the view had before: the
  zoom is computed from pixels at that scale.  So the nodes take up two thirds of the window, as meant, only where the old scale
  was 1, and all nodes are in view exactly when the old scale was at least two thirds: a user who zooms out before the view is
  scaled loses nodes.\<close>

theorem autoscale_shows_nodes:
  assumes "gui_ok g" and "zoom_ok s" and "update_positions_followed exact g net st = (sc, s)" and "sc_nodes (fst st) \<noteq> []"
    and "node_points sc \<noteq> []" and "node_box sc = ((x0, y0), (x1, y1))" and "x0 < x1" and "y0 < y1"
    and "w = min (page_size (hadj s) / (3 / 2 * (canvas_scale s * (x1 - x0)))) (page_size (vadj s) / (3 / 2 * (canvas_scale s * (y1 - y0))))"
    and "1 / 100 \<le> w" and "w \<le> 10"
    and "t = to_pixels g w ((x0 + x1) / 2 - page_size (hadj s) / w / 2, (y0 + y1) / 2 - page_size (vadj s) / w / 2)"
    and "in_range (hadj (set_zoom g w s)) (fst t)" and "in_range (vadj (set_zoom g w s)) (snd t)"
  shows "\<exists>s' a b c d. autoscale_view exact g net st = (sc, s') \<and> canvas_scale s' = w \<and>
    visible_area exact g s' = ((a, b), (c, d)) \<and> (a + c) / 2 = (x0 + x1) / 2 \<and> (b + d) / 2 = (y0 + y1) / 2 \<and>
    max ((x1 - x0) / (c - a)) ((y1 - y0) / (d - b)) = 2 / (3 * canvas_scale s) \<and>
    ((\<forall>p \<in> set (node_points sc). in_view (visible_area exact g s') p) = (2 / 3 \<le> canvas_scale s))"
proof -
  obtain s' where s': "autoscale_view exact g net st = (sc, s')" "canvas_scale s' = w" "visible_area exact g s' =
    (((x0 + x1) / 2 - page_size (hadj s) / w / 2, (y0 + y1) / 2 - page_size (vadj s) / w / 2),
     ((x0 + x1) / 2 + page_size (hadj s) / w / 2, (y0 + y1) / 2 + page_size (vadj s) / w / 2))"
    using autoscale_area [OF assms(1-4,6-11) refl assms(12-14)] by blast
  have z: "0 < canvas_scale s" "0 < w" using assms(2,10) by (auto simp: zoom_ok_def)
  have "(\<forall>p \<in> set (node_points sc). in_view (visible_area exact g s') p) \<longleftrightarrow> x1 - x0 \<le> page_size (hadj s) / w \<and> y1 - y0 \<le> page_size (vadj s) / w"
    unfolding in_view_box [OF assms(5,6)] s'(3) fst_conv snd_conv by (auto simp: field_simps)
  also have "\<dots> \<longleftrightarrow> 2 / 3 \<le> canvas_scale s" using fit_zoom [OF z(1) _ _ z(2) assms(9)] assms(7,8) by simp
  finally have v: "(\<forall>p \<in> set (node_points sc). in_view (visible_area exact g s') p) = (2 / 3 \<le> canvas_scale s)" .
  have m: "max ((x1 - x0) / (page_size (hadj s) / w)) ((y1 - y0) / (page_size (vadj s) / w)) = 2 / (3 * canvas_scale s)"
    using min_quotients [OF _ _ z(1) assms(9) z(2)] assms(7,8) by simp
  show ?thesis by (rule exI [of _ s'], intro exI conjI, rule s'(1), rule s'(2), rule s'(3)) (use m v in simp_all)
qed

theorem autoscale_shows_nodes_witness:
  "\<exists>s' a b c d. autoscale_view exact plain_gui no_models (two_nodes, sample_view) = (two_nodes, s') \<and> canvas_scale s' = 4 \<and>
    visible_area exact plain_gui s' = ((a, b), (c, d)) \<and> max (100 / (c - a)) (50 / (d - b)) = 2 / 3 \<and>
    (list_all (in_view (visible_area exact plain_gui s')) (node_points two_nodes))"
proof -
  have z: "zoom_ok sample_view" by (simp add: zoom_ok_def sample_view_def zoom_adjustment_def)
  have p: "node_points two_nodes = [(0, 0), (100, 50)]" by (simp add: node_points_def two_nodes_def position_def)
  have b: "node_box two_nodes = ((0, 0), (100, 50))" by (simp add: node_box_def p)
  have u: "update_positions_followed exact plain_gui no_models (two_nodes, sample_view) = (two_nodes, sample_view)"
    by (simp add: update_positions_followed_def update_node_followed_def ask_mobility_def two_nodes_def)
  have r: "in_range (hadj (set_zoom plain_gui 4 sample_view)) 39900" "in_range (vadj (set_zoom plain_gui 4 sample_view)) 39875"
    by (simp_all add: in_range_def set_zoom_def set_value_def plain_gui_def sample_view_def sample_adjustment_def zoom_adjustment_def)
  have n: "sc_nodes (fst (two_nodes, sample_view)) \<noteq> []" by (simp add: two_nodes_def)
  have w: "4 = min (page_size (hadj sample_view) / (3 / 2 * (canvas_scale sample_view * (100 - 0))))
      (page_size (vadj sample_view) / (3 / 2 * (canvas_scale sample_view * (50 - 0))))"
    by (simp add: sample_view_def sample_adjustment_def)
  have q: "(39900, 39875) = to_pixels plain_gui 4 ((0 + 100) / 2 - page_size (hadj sample_view) / 4 / 2, (0 + 50) / 2 - page_size (vadj sample_view) / 4 / 2)"
    by (simp add: sample_view_def sample_adjustment_def plain_gui_def)
  have c: "canvas_scale sample_view = 1" by (simp add: sample_view_def)
  have "\<exists>s' a b c d. autoscale_view exact plain_gui no_models (two_nodes, sample_view) = (two_nodes, s') \<and> canvas_scale s' = 4 \<and>
      visible_area exact plain_gui s' = ((a, b), (c, d)) \<and> (a + c) / 2 = (0 + 100) / 2 \<and> (b + d) / 2 = (0 + 50) / 2 \<and>
      max ((100 - 0) / (c - a)) ((50 - 0) / (d - b)) = 2 / (3 * canvas_scale sample_view) \<and>
      (\<forall>p \<in> set (node_points two_nodes). in_view (visible_area exact plain_gui s') p) = (2 / 3 \<le> canvas_scale sample_view)"
    by (rule autoscale_shows_nodes [OF plain_gui_ok z u n _ b _ _ w _ _ q]) (use r p in simp_all)
  then show ?thesis unfolding c list_all_iff by auto
qed

text \<open>Nodes on a horizontal or vertical line are not scaled at all.\<close>

lemma line_not_scaled:
  assumes "gui_ok g" and "update_positions_followed exact g net st = (sc, s)" and "node_box sc = ((x0, y0), (x1, y1))" and "x0 = x1 \<or> y0 = y1"
  shows "autoscale_view exact g net st = (if sc_nodes (fst st) = [] then st else (sc, s))"
proof -
  have "fst (to_pixels g (canvas_scale s) (x1, y1)) - fst (to_pixels g (canvas_scale s) (x0, y0)) = canvas_scale s * (x1 - x0)"
    "snd (to_pixels g (canvas_scale s) (x1, y1)) - snd (to_pixels g (canvas_scale s) (x0, y0)) = canvas_scale s * (y1 - y0)"
    using gui_distance [OF assms(1), of "canvas_scale s" "(x1, y1)" "(x0, y0)"] by simp_all
  with assms(4) show ?thesis unfolding autoscale_view_def assms(2,3) prod.case Let_def exact_def by auto
qed

text \<open>A node that is followed stays in the middle of the window: after an update of the view it is where its mobility model says, and
  that point is shown in the middle, as far as the scroll bars reach; other nodes do not move the view.\<close>

theorem followed_node_in_middle:
  assumes "gui_ok g" and "0 < canvas_scale s" and "cached net sc" and "dict_ok (sc_nodes sc)" and "present sc (At_Node i)"
    and "follow_node s = Some i" and "mobility_of net i = Some p"
    and "in_range (hadj s) (fst (to_pixels g (canvas_scale s) (point_to_canvas exact p)) - page_size (hadj s) / 2)"
    and "in_range (vadj s) (snd (to_pixels g (canvas_scale s) (point_to_canvas exact p)) - page_size (vadj s) / 2)"
  shows "case update_positions_followed exact g net (sc, s) of (sc', s') \<Rightarrow>
    position sc' (At_Node i) = point_to_canvas exact p \<and>
    tooltip_point exact g (page_size (hadj s) / 2, page_size (vadj s) / 2) s' = position sc' (At_Node i)"
proof -
  let ?q = "point_to_canvas exact p"
  have "i \<in> set (dict_keys (sc_nodes sc))" using assms(5) by (force simp: present_def dest: map_of_Some_key)
  then obtain xs ys where k: "dict_keys (sc_nodes sc) = xs @ i # ys" by (auto simp: in_set_conv_decomp)
  with assms(4) have "distinct (xs @ i # ys)" by (simp add: dict_ok_def)
  then have n: "\<forall>j \<in> set xs. follow_node s \<noteq> Some j" "\<forall>j \<in> set ys. Some i \<noteq> Some j" using assms(6) by auto
  let ?s1 = "fold (update_node_followed exact g net) xs (sc, s)"
  have 1: "snd ?s1 = s" using none_followed [of xs "(sc, s)"] n(1) by simp
  have "cached net (fst ?s1)" "present (fst ?s1) (At_Node i)" using updates_keep [OF assms(3)] assms(5) by (simp_all add: fst_followed)
  from followed_step [OF this assms(7), of exact g] have 2: "snd (update_node_followed exact g net i ?s1) = center_at exact g ?q s"
    using 1 assms(6) by simp
  have 3: "snd (update_positions_followed exact g net (sc, s)) = center_at exact g ?q s"
    using none_followed [of ys "update_node_followed exact g net i ?s1" exact g net] n(2) 2 assms(6) by (simp add: update_positions_followed_def k)
  have 4: "position (fst (update_positions_followed exact g net (sc, s))) (At_Node i) = ?q"
    unfolding update_followed(1) fst_conv update_node_positions_result [OF assms(3)] using assms(5,7) by simp
  show ?thesis using 3 4 center_at_middle [OF assms(1,2,8,9)] by (simp add: split_def)
qed

theorem followed_node_in_middle_witness:
  "case update_positions_followed exact plain_gui \<lparr>net_nodes = [\<lparr>mobility = Some (10, 20), devices = []\<rparr>], members = (\<lambda>_. [])\<rparr>
     (empty_scene\<lparr>sc_nodes := [(0, blank_node)]\<rparr>, sample_view\<lparr>follow_node := Some 0\<rparr>) of (sc', s') \<Rightarrow>
    position sc' (At_Node 0) = (30, 60) \<and> tooltip_point exact plain_gui (300, 225) s' = position sc' (At_Node 0)"
proof -
  let ?net = "\<lparr>net_nodes = [\<lparr>mobility = Some (10, 20), devices = []\<rparr>], members = (\<lambda>_. [])\<rparr>" and ?sc = "empty_scene\<lparr>sc_nodes := [(0, blank_node)]\<rparr>"
  have "cached ?net ?sc" by (simp add: cached_def asked_def blank_node_def)
  from followed_node_in_middle [OF plain_gui_ok _ this, of "sample_view\<lparr>follow_node := Some 0\<rparr>" 0 "(10, 20)"] show ?thesis
    by (simp add: sample_view_def sample_adjustment_def plain_gui_def in_range_def point_to_canvas_def exact_def PIXELS_PER_METER_def
      dict_ok_def present_def mobility_of_def)
qed

end
