(* ===== verification/Viz_Windows.thy ===== *)
theory Viz_Windows
  imports Viz_View Viz_Model
begin

text \<open>
  The information windows of the visualizer and the update of the whole view: the tables of \<open>plugins/show_last_packets.py\<close>,
  \<open>interface_statistics.py\<close>, \<open>ipv4_routing_table.py\<close> and \<open>olsr.py\<close>, the packet filter of the first, the list of windows of
  \<open>core.py\<close> and how it changes, its arrows, and \<open>update_view\<close>.  What ns-3 says of a node is a parameter; gtk is not modelled.
\<close>

section \<open>What ns-3 says of a node\<close>

text \<open>\<open>device\<close> of a packet is the name of the device (empty if it has none) and its number.\<close>

record packet_sample =
  sample_time :: string
  device :: "(string \<times> nat) option"
  sample_size :: nat
  contents :: string

record route =
  dest :: string
  gateway :: string
  route_interface :: nat

datatype routing = Static_Routing "route list" | Global_Routing "route list" | List_Routing "(routing \<times> int) list" | Other_Routing

record olsr_entry =
  dest_addr :: string
  next_addr :: string
  olsr_interface :: nat
  distance :: int

text \<open>\<open>net_device\<close> gives the name of the device of an interface of \<open>Ipv4\<close>.\<close>

record ipv4_info =
  routing_protocol :: "routing option"
  net_device_of :: "nat \<Rightarrow> string option"

record node_info =
  last_packets :: "packet_sample list \<times> packet_sample list \<times> packet_sample list"
  statistics_of :: "net_dev_stats list res"
  device_name :: "nat \<Rightarrow> string"
  ipv4 :: "ipv4_info option"
  olsr :: "olsr_entry list option"

section \<open>The tables\<close>

definition numbered :: "nat \<Rightarrow> string" where
  "numbered i = ''(interface '' @ show_nat i @ '')''"

definition name_or_number :: "string \<Rightarrow> nat \<Rightarrow> string" where
  "name_or_number name i = (if name = [] then numbered i else name)"

definition packet_row :: "packet_sample \<Rightarrow> string list" where
  "packet_row p =
     [sample_time p, (case device p of None \<Rightarrow> ''(unknown)'' | Some (name, i) \<Rightarrow> name_or_number name i), show_nat (sample_size p), contents p]"

text \<open>\<open>str_float\<close> is \<open>str\<close> of a float.\<close>

definition statistics_row :: "(rat \<Rightarrow> string) \<Rightarrow> (nat \<Rightarrow> string) \<Rightarrow> nat \<times> net_dev_stats \<Rightarrow> string list" where
  "statistics_row str_float name = (\<lambda>(i, s).
     [name_or_number (name i) i, show_nat (tx_packets (stats_now s)), show_nat (tx_octets (stats_now s)), str_float (tx_packet_rate s), str_float (tx_bit_rate s),
      show_nat (rx_packets (stats_now s)), show_nat (rx_octets (stats_now s)), str_float (rx_packet_rate s), str_float (rx_bit_rate s)])"

definition interface_name :: "ipv4_info \<Rightarrow> nat \<Rightarrow> string" where
  "interface_name ip i = (case net_device_of ip i of None \<Rightarrow> ''lo'' | Some name \<Rightarrow> name_or_number name i)"

definition routing_protocols :: "routing \<Rightarrow> (route list \<times> string \<times> int) list" where
  "routing_protocols r =
     (case r of
        Static_Routing rs \<Rightarrow> [(rs, ''static'', 0)]
      | List_Routing ps \<Rightarrow> concat (map (\<lambda>(q, prio). case q of
            Static_Routing rs \<Rightarrow> [(rs, ''static'', prio)] | Global_Routing rs \<Rightarrow> [(rs, ''global'', prio)] | _ \<Rightarrow> []) ps)
      | _ \<Rightarrow> [])"

definition route_row :: "ipv4_info \<Rightarrow> string \<Rightarrow> int \<Rightarrow> route \<Rightarrow> string list" where
  "route_row ip type_string prio r = [dest r, gateway r, interface_name ip (route_interface r), type_string, show_int prio]"

definition olsr_row :: "ipv4_info \<Rightarrow> olsr_entry \<Rightarrow> string list" where
  "olsr_row ip r = [dest_addr r, next_addr r, interface_name ip (olsr_interface r), show_int (distance r)]"

section \<open>Windows\<close>

datatype window_kind = Packets_Window | Statistics_Window | Ipv4_Window | Olsr_Window

record info_window =
  window_id :: nat
  kind :: window_kind
  node_index :: int
  tables :: "string list list list"

text \<open>An update returns the window and the exception it ends with, if any.\<close>

definition update_ipv4 :: "node_info \<Rightarrow> info_window \<Rightarrow> info_window \<times> py_error option" where
  "update_ipv4 n w =
     (case ipv4 n of
        None \<Rightarrow> (w, Some AttributeError)
      | Some ip \<Rightarrow> (case routing_protocol ip of
            None \<Rightarrow> (w, None)
          | Some r \<Rightarrow>
              if routing_protocols r = [] then (w, None)
              else (w\<lparr>tables := [concat (map (\<lambda>(rs, t, prio). map (route_row ip t prio) rs) (routing_protocols r))]\<rparr>, None)))"

text \<open>The row is appended before the device is asked for.\<close>

definition update_olsr :: "node_info \<Rightarrow> info_window \<Rightarrow> info_window \<times> py_error option" where
  "update_olsr n w =
     (case olsr n of
        None \<Rightarrow> (w, None)
      | Some rs \<Rightarrow> (case ipv4 n of
            Some ip \<Rightarrow> (w\<lparr>tables := [map (olsr_row ip) rs]\<rparr>, None)
          | None \<Rightarrow> if rs = [] then (w\<lparr>tables := [[]]\<rparr>, None) else (w\<lparr>tables := [[[]]]\<rparr>, Some AttributeError)))"

definition update_window :: "(rat \<Rightarrow> string) \<Rightarrow> (int \<Rightarrow> node_info) \<Rightarrow> info_window \<Rightarrow> info_window \<times> py_error option" where
  "update_window str_float info w =
     (let n = info (node_index w)
      in case kind w of
           Packets_Window \<Rightarrow> (case last_packets n of (tx, rx, dropped) \<Rightarrow> (w\<lparr>tables := [map packet_row tx, map packet_row rx, map packet_row dropped]\<rparr>, None))
         | Statistics_Window \<Rightarrow> (case statistics_of n of
               Inl e \<Rightarrow> (w, Some e)
             | Inr st \<Rightarrow> (w\<lparr>tables := [map (statistics_row str_float (device_name n)) (enumerate 0 st)]\<rparr>, None))
         | Ipv4_Window \<Rightarrow> update_ipv4 n w
         | Olsr_Window \<Rightarrow> update_olsr n w)"

text \<open>The loop over the windows: an exception leaves the rest as it is.\<close>

fun update_windows :: "(info_window \<Rightarrow> info_window \<times> py_error option) \<Rightarrow> info_window list \<Rightarrow> info_window list \<times> py_error option" where
  "update_windows f [] = ([], None)"
| "update_windows f (w # ws) =
     (case f w of
        (w', Some e) \<Rightarrow> (w' # ws, Some e)
      | (w', None) \<Rightarrow> (case update_windows f ws of (ws', e) \<Rightarrow> (w' # ws', e)))"

text \<open>\<open>add_information_window\<close> keeps the window also when its first update raises; the lock is released in both cases.\<close>

definition add_window :: "(info_window \<Rightarrow> info_window \<times> py_error option) \<Rightarrow> info_window \<Rightarrow> info_window list \<Rightarrow> info_window list \<times> py_error option" where
  "add_window f w ws = (case f w of (w', e) \<Rightarrow> (ws @ [w'], e))"

fun remove_window :: "nat \<Rightarrow> info_window list \<Rightarrow> info_window list res" where
  "remove_window i [] = Inl ValueError"
| "remove_window i (w # ws) = (if window_id w = i then Inr ws else bind_res (remove_window i ws) (\<lambda>ws'. Inr (w # ws')))"

section \<open>Arrows\<close>

text \<open>An arrow on the canvas: whether its line is visible, the ends and the width of the line, and the rate in its label.\<close>

record drawn_arrow =
  visible :: bool
  ends :: "(point \<times> point) option"
  line_width :: rat
  rate :: rat

definition fresh_arrow :: drawn_arrow where
  "fresh_arrow = \<lparr>visible = True, ends = None, line_width = 2, rate = 0\<rparr>"

definition hide_arrow :: "drawn_arrow \<Rightarrow> drawn_arrow" where
  "hide_arrow a = a\<lparr>visible := False\<rparr>"

text \<open>\<open>math.log\<close> is \<open>logarithm\<close>, and raises for 0; \<open>k\<close> is a fifth of the size of the nodes.\<close>

definition arrow_width :: "(rat \<Rightarrow> rat) \<Rightarrow> (rat \<Rightarrow> rat) \<Rightarrow> rat \<Rightarrow> rat \<Rightarrow> nat \<times> nat \<Rightarrow> rat res" where
  "arrow_width fl logarithm k period = (\<lambda>(octets, n).
     let x = fl (fl (of_nat octets / of_nat n) / period)
     in if x \<le> 0 then Inl ValueError else Inr (max (1 / 10) (fl (logarithm x * k))))"

definition transmission_arrow :: "(rat \<Rightarrow> rat) \<Rightarrow> (rat \<Rightarrow> rat) \<Rightarrow> rat \<Rightarrow> rat \<Rightarrow> scene \<Rightarrow> (int \<times> int) \<times> nat \<times> nat \<Rightarrow> drawn_arrow res" where
  "transmission_arrow fl logarithm k period sc = (\<lambda>((t, r), total).
     bind_res (arrow_width fl logarithm k period total) (\<lambda>lw.
       Inr \<lparr>visible = True, ends = Some (position sc (At_Node t), position sc (At_Node r)), line_width = lw, rate = kbps fl period total\<rparr>))"

definition drop_arrow :: "(rat \<Rightarrow> rat) \<Rightarrow> (rat \<Rightarrow> rat) \<Rightarrow> rat \<Rightarrow> rat \<Rightarrow> rat \<Rightarrow> scene \<Rightarrow> int \<times> nat \<times> nat \<Rightarrow> drawn_arrow res" where
  "drop_arrow fl logarithm k period edge_y sc = (\<lambda>(t, total).
     bind_res (arrow_width fl logarithm k period total) (\<lambda>lw.
       let p = position sc (At_Node t)
       in Inr \<lparr>visible = True, ends = Some (p, (fst p, edge_y)), line_width = lw, rate = kbps fl period total\<rparr>))"

text \<open>
  The loop over the averages takes arrows from the end of the old list and makes new ones when there are none left.  When one of
  them raises, the list is what is left of the old one; the arrows taken from it so far stay on the canvas and are in no list.
  The result: the scene, the list, the arrows that got lost, and the exception.
\<close>

definition pop_arrow :: "drawn_arrow list \<Rightarrow> drawn_arrow \<times> drawn_arrow list" where
  "pop_arrow old = (if old = [] then (fresh_arrow, []) else (last old, butlast old))"

fun draw_arrows :: "('a \<Rightarrow> scene \<Rightarrow> scene) \<Rightarrow> (scene \<Rightarrow> 'a \<Rightarrow> drawn_arrow res) \<Rightarrow> 'a list \<Rightarrow> scene \<Rightarrow> drawn_arrow list \<Rightarrow> drawn_arrow list \<Rightarrow>
    scene \<times> drawn_arrow list \<times> drawn_arrow list \<times> py_error option" where
  "draw_arrows get draw [] sc old new = (sc, new @ old, [], None)"
| "draw_arrows get draw (x # xs) sc old new =
     (let sc1 = get x sc; (arrow, old1) = pop_arrow old
      in case draw sc1 x of
           Inl e \<Rightarrow> (sc1, old1, new @ [arrow\<lparr>visible := True\<rparr>], Some e)
         | Inr arrow1 \<Rightarrow> draw_arrows get draw xs sc1 old1 (new @ [arrow1]))"

section \<open>Updating the view\<close>

text \<open>\<open>vz_lost\<close> are the arrows on the canvas that are in neither list.\<close>

record visualizer =
  vz_scene :: scene
  vz_view :: view_state
  vz_windows :: "info_window list"
  vz_transmissions :: "sample list list"
  vz_drops :: "sample list list"
  vz_node_size :: rat
  vz_period :: rat
  vz_arrows :: "drawn_arrow list"
  vz_drop_arrows :: "drawn_arrow list"
  vz_lost :: "drawn_arrow list"

text \<open>The lower edge of the screen.\<close>

definition edge :: "(rat \<Rightarrow> rat) \<Rightarrow> gui \<Rightarrow> view_state \<Rightarrow> rat" where
  "edge fl g s = snd (from_pixels g (canvas_scale s) (0, fl (value_of (vadj s) + page_size (vadj s))))"

definition update_transmissions :: "(rat \<Rightarrow> rat) \<Rightarrow> (rat \<Rightarrow> rat) \<Rightarrow> visualizer \<Rightarrow> visualizer \<times> py_error option" where
  "update_transmissions fl logarithm z =
     (case draw_arrows (\<lambda>((t, r), _). get_node_view fl r \<circ> get_node_view fl t)
         (transmission_arrow fl logarithm (fl (vz_node_size z / 5)) (vz_period z))
         (transmissions_average (vz_transmissions z)) (vz_scene z) (map hide_arrow (vz_arrows z)) [] of
       (sc, arrows, lost, err) \<Rightarrow> (z\<lparr>vz_scene := sc, vz_arrows := arrows, vz_lost := vz_lost z @ lost\<rparr>, err))"

definition update_drops :: "(rat \<Rightarrow> rat) \<Rightarrow> (rat \<Rightarrow> rat) \<Rightarrow> gui \<Rightarrow> visualizer \<Rightarrow> visualizer \<times> py_error option" where
  "update_drops fl logarithm g z =
     (case draw_arrows (\<lambda>(t, _). get_node_view fl t)
         (drop_arrow fl logarithm (fl (vz_node_size z / 5)) (vz_period z) (edge fl g (vz_view z)))
         (drops_average (vz_drops z)) (vz_scene z) (map hide_arrow (vz_drop_arrows z)) [] of
       (sc, arrows, lost, err) \<Rightarrow> (z\<lparr>vz_scene := sc, vz_drop_arrows := arrows, vz_lost := vz_lost z @ lost\<rparr>, err))"

definition update_view :: "(rat \<Rightarrow> rat) \<Rightarrow> (rat \<Rightarrow> rat) \<Rightarrow> (rat \<Rightarrow> string) \<Rightarrow> gui \<Rightarrow> network \<Rightarrow> (int \<Rightarrow> node_info) \<Rightarrow> visualizer \<Rightarrow>
    visualizer \<times> py_error option" where
  "update_view fl logarithm str_float g net info z =
     (case update_positions_followed fl g net (vz_scene z, vz_view z) of (sc, s) \<Rightarrow>
      case update_windows (update_window str_float info) (vz_windows z) of (ws, err) \<Rightarrow>
        let z1 = z\<lparr>vz_scene := sc, vz_view := s, vz_windows := ws\<rparr>
        in case err of
             Some e \<Rightarrow> (z1, Some e)
           | None \<Rightarrow> (case update_transmissions fl logarithm z1 of
               (z2, Some e) \<Rightarrow> (z2, Some e)
             | (z2, None) \<Rightarrow> update_drops fl logarithm g z2))"

section \<open>What the user does with windows\<close>

text \<open>
  A window is opened: its constructor lists it, which updates it once, and then shows it; when that update raises, the window is
  never shown.  A window is closed by its button, so only one that is shown.  The samples come from the simulation.  An exception
  ends what was going on; the visualizer goes on with the next event.  The state: the visualizer, and the windows that are shown.
\<close>

datatype window_event =
    Update_View gui network "int \<Rightarrow> node_info"
  | Set_Samples "sample list list" "sample list list"
  | Open_Window "int \<Rightarrow> node_info" info_window
  | Close_Window nat

definition window_step :: "(rat \<Rightarrow> rat) \<Rightarrow> (rat \<Rightarrow> rat) \<Rightarrow> (rat \<Rightarrow> string) \<Rightarrow> window_event \<Rightarrow> visualizer \<times> nat list \<Rightarrow>
    (visualizer \<times> nat list) \<times> py_error option" where
  "window_step fl logarithm str_float ev = (\<lambda>(z, ids).
     case ev of
       Update_View g net info \<Rightarrow> (case update_view fl logarithm str_float g net info z of (z', e) \<Rightarrow> ((z', ids), e))
     | Set_Samples ts ds \<Rightarrow> ((z\<lparr>vz_transmissions := ts, vz_drops := ds\<rparr>, ids), None)
     | Open_Window info w \<Rightarrow> (case add_window (update_window str_float info) w (vz_windows z) of
           (ws, e) \<Rightarrow> ((z\<lparr>vz_windows := ws\<rparr>, if e = None then ids @ [window_id w] else ids), e))
     | Close_Window i \<Rightarrow>
         if i \<in> set ids then (case remove_window i (vz_windows z) of
             Inl e \<Rightarrow> ((z, removeAll i ids), Some e) | Inr ws \<Rightarrow> ((z\<lparr>vz_windows := ws\<rparr>, removeAll i ids), None))
         else ((z, ids), None))"

definition window_events :: "(rat \<Rightarrow> rat) \<Rightarrow> (rat \<Rightarrow> rat) \<Rightarrow> (rat \<Rightarrow> string) \<Rightarrow> window_event list \<Rightarrow> visualizer \<times> nat list \<Rightarrow> visualizer \<times> nat list" where
  "window_events fl logarithm str_float evs st = fold (\<lambda>ev st. fst (window_step fl logarithm str_float ev st)) evs st"

section \<open>The packet filter\<close>

text \<open>The loop up the parents of a type; it does not end on a cycle.\<close>

partial_function (option) type_is_good :: "(nat \<Rightarrow> nat option) \<Rightarrow> nat set \<Rightarrow> nat \<Rightarrow> bool option" where
  "type_is_good parent roots t =
     (if t \<in> roots then Some True
      else (case parent t of None \<Rightarrow> Some False | Some p \<Rightarrow> type_is_good parent roots p))"

record type_config =
  typeid :: nat
  selected :: bool

fun filter_list :: "(nat \<Rightarrow> nat option) \<Rightarrow> nat set \<Rightarrow> nat list \<Rightarrow> type_config list option" where
  "filter_list parent roots [] = Some []"
| "filter_list parent roots (t # ts) =
     Option.bind (type_is_good parent roots t) (\<lambda>good.
     Option.bind (filter_list parent roots ts) (\<lambda>rest.
       Some (if good \<and> t \<notin> roots then \<lparr>typeid = t, selected = True\<rparr> # rest else rest)))"

datatype filter_mode = Headers_And | Headers_Or

record capture_options =
  num_last_packets :: nat
  headers :: "nat list"
  mode :: filter_mode

record packet_filter =
  entries :: "type_config list"
  op_and :: bool
  sent :: "capture_options option"

definition update_capture_options :: "packet_filter \<Rightarrow> packet_filter" where
  "update_capture_options f =
     f\<lparr>sent := Some \<lparr>num_last_packets = 100, headers = map typeid (filter selected (entries f)), mode = (if op_and f then Headers_And else Headers_Or)\<rparr>\<rparr>"

datatype filter_event = Select_All | Select_None | Edit_Cell nat bool | Toggle_Mode bool

definition filter_event :: "filter_event \<Rightarrow> packet_filter \<Rightarrow> packet_filter" where
  "filter_event ev f =
     (case ev of
        Select_All \<Rightarrow> update_capture_options (f\<lparr>entries := map (selected_update (\<lambda>_. True)) (entries f)\<rparr>)
      | Select_None \<Rightarrow> update_capture_options (f\<lparr>entries := map (selected_update (\<lambda>_. False)) (entries f)\<rparr>)
      | Edit_Cell i b \<Rightarrow>
          if i < length (entries f) then update_capture_options (f\<lparr>entries := (entries f)[i := (entries f ! i)\<lparr>selected := b\<rparr>]\<rparr>) else f
      | Toggle_Mode b \<Rightarrow> if b = op_and f then f else update_capture_options (f\<lparr>op_and := b\<rparr>))"

definition first_filter :: "type_config list \<Rightarrow> packet_filter" where
  "first_filter cs = update_capture_options \<lparr>entries = cs, op_and = False, sent = None\<rparr>"

section \<open>Lemmas\<close>

lemma update_windows_ok: "(snd (update_windows f ws) = None) = (\<forall>w \<in> set ws. snd (f w) = None)"
  by (induction ws) (auto split: option.split prod.split)

lemma update_windows_all: "update_windows f ws = (ws', None) \<Longrightarrow> list_all2 (\<lambda>w w'. f w = (w', None)) ws ws'"
  by (induction ws arbitrary: ws') (auto split: option.splits prod.splits)

text \<open>A window that can never be updated stays in the list.\<close>

lemma update_windows_keep: "f w = (w, Some e) \<Longrightarrow> w \<in> set ws \<Longrightarrow> w \<in> set (fst (update_windows f ws))"
  by (induction ws) (auto split: option.split prod.split)

lemma add_samples_counted: "\<forall>(k, b, n) \<in> set d. 0 < n \<Longrightarrow> \<forall>(k, b, n) \<in> set (fold (add_sample key) xs d). 0 < n"
proof (induction xs arbitrary: d)
  case (Cons x xs)
  have k: "\<forall>(k, b, n) \<in> set (dict_set k0 v d). 0 < n" if "0 < snd v" for k0 v
  proof -
    have "set (dict_set k0 v d) \<subseteq> insert (k0, v) (set d)" by (induction d) auto
    with that Cons.prems show ?thesis by (cases v) fastforce
  qed
  obtain a b where p: "(case map_of d (key x) of None \<Rightarrow> (0, 0) | Some p \<Rightarrow> p) = (a, b)" by fastforce
  have "\<forall>(k, b, n) \<in> set (add_sample key x d). 0 < n" unfolding add_sample_def p prod.case by (rule k) simp
  with Cons.IH show ?case by simp
qed simp

lemma averages_counted: "\<forall>(k, b, n) \<in> set (transmissions_average sets). 0 < n" "\<forall>(k, b, n) \<in> set (drops_average sets). 0 < n"
  unfolding transmissions_average_def drops_average_def fold_fold_concat by (rule add_samples_counted; simp)+

lemma arrow_width_exact:
  "0 < n \<Longrightarrow> 0 < period \<Longrightarrow> arrow_width exact logarithm k period (b, n) =
    (if b = 0 then Inl ValueError else Inr (max (1 / 10) (logarithm (of_nat b / of_nat n / period) * k)))"
proof (cases "b = 0")
  case False
  assume "0 < n" "0 < period"
  with False have "0 < of_nat b / of_nat n / period" by simp
  with False show ?thesis by (simp add: arrow_width_def exact_def Let_def)
qed (simp add: arrow_width_def exact_def Let_def)

lemma arrow_returns:
  "0 < n \<Longrightarrow> 0 < period \<Longrightarrow> (\<exists>y. transmission_arrow exact logarithm k period sc (tr, b, n) = Inr y) = (b \<noteq> 0)"
  "0 < n \<Longrightarrow> 0 < period \<Longrightarrow> (\<exists>y. drop_arrow exact logarithm k period edge_y sc (t, b, n) = Inr y) = (b \<noteq> 0)"
  by (cases tr; simp add: transmission_arrow_def arrow_width_exact) (simp add: drop_arrow_def Let_def arrow_width_exact)

text \<open>Every total gives an arrow, or one of them has no bytes.\<close>

lemma map_res_ok: "(\<exists>ys. map_res f xs = Inr ys) = (\<forall>x \<in> set xs. \<exists>y. f x = Inr y)"
  by (induction xs) (auto simp: bind_res_Inr_iff)

lemma map_res_list: "map_res f xs = Inr ys \<Longrightarrow> list_all2 (\<lambda>x y. f x = Inr y) xs ys"
  by (induction xs arbitrary: ys) (auto simp: bind_res_Inr_iff)

definition totals_ok :: "'k totals \<Rightarrow> bool" where
  "totals_ok d \<longleftrightarrow> (\<forall>(k, b, n) \<in> set d. b \<noteq> 0)"

text \<open>Drawing all arrows, when asking for a node moves none: either every average gives an arrow, and those are the visible ones of the
  list, or the list is hidden and some arrows got lost while visible.\<close>

lemma draw_arrows_outcome:
  assumes "\<And>x sc. position (get x sc) = position sc" and "\<And>sc sc1. position sc = position sc1 \<Longrightarrow> draw sc = draw sc1"
    and "\<And>sc x a. draw sc x = Inr a \<Longrightarrow> visible a" and "\<forall>a \<in> set old. \<not> visible a" and "\<forall>a \<in> set new. visible a"
  shows "case draw_arrows get draw xs sc old new of (sc', arrows, lost, err) \<Rightarrow> position sc' = position sc \<and>
    (case map_res (draw sc) xs of
       Inr res \<Rightarrow> err = None \<and> filter visible arrows = new @ res \<and> lost = []
     | Inl e \<Rightarrow> err = Some e \<and> filter visible arrows = [] \<and> lost \<noteq> [] \<and> (\<forall>a \<in> set lost. visible a))"
  using assms(4,5)
proof (induction xs arbitrary: sc old new)
  case Nil
  then show ?case by (simp add: filter_empty_conv filter_id_conv)
next
  case (Cons x xs)
  obtain arrow old1 where p: "pop_arrow old = (arrow, old1)" by fastforce
  then have o: "set old1 \<subseteq> set old" by (auto simp: pop_arrow_def dest: in_set_butlastD split: if_splits)
  have g: "position (get x sc) = position sc" "draw (get x sc) = draw sc" by (rule assms(1), rule assms(2) [OF assms(1)])
  show ?case
  proof (cases "draw sc x")
    case (Inl e)
    then show ?thesis using Cons.prems o by (auto simp: p g filter_empty_conv Let_def)
  next
    case (Inr a)
    have h: "\<forall>a \<in> set old1. \<not> visible a" "\<forall>b \<in> set (new @ [a]). visible b" using Cons.prems o assms(3) [OF Inr] by auto
    have d: "draw_arrows get draw (x # xs) sc old new = draw_arrows get draw xs (get x sc) old1 (new @ [a])" by (simp add: p g Inr)
    have m: "map_res (draw sc) (x # xs) = bind_res (map_res (draw sc) xs) (\<lambda>as. Inr (a # as))" by (simp add: Inr)
    show ?thesis using Cons.IH [OF h, of "get x sc"] unfolding d m g
      by (cases "map_res (draw sc) xs") (simp_all split: prod.splits)
  qed
qed

lemma arrows_ok:
  "0 < period \<Longrightarrow> (\<exists>as. map_res (transmission_arrow exact logarithm k period sc) (transmissions_average sets) = Inr as) =
    totals_ok (transmissions_average sets)"
  "0 < period \<Longrightarrow> (\<exists>as. map_res (drop_arrow exact logarithm k period edge_y sc) (drops_average sets) = Inr as) = totals_ok (drops_average sets)"
proof -
  assume p: "0 < period"
  show "(\<exists>as. map_res (transmission_arrow exact logarithm k period sc) (transmissions_average sets) = Inr as) = totals_ok (transmissions_average sets)"
    unfolding map_res_ok totals_ok_def
  proof (rule ball_cong [OF refl])
    fix x assume x: "x \<in> set (transmissions_average sets)"
    obtain tr b n where k: "x = (tr, b, n)" by (cases x)
    with x averages_counted(1) [of sets] have "0 < n" by auto
    from arrow_returns(1) [OF this p] show "(\<exists>y. transmission_arrow exact logarithm k period sc x = Inr y) = (case x of (k, b, n) \<Rightarrow> b \<noteq> 0)" by (simp add: k)
  qed
next
  assume p: "0 < period"
  show "(\<exists>as. map_res (drop_arrow exact logarithm k period edge_y sc) (drops_average sets) = Inr as) = totals_ok (drops_average sets)"
    unfolding map_res_ok totals_ok_def
  proof (rule ball_cong [OF refl])
    fix x assume x: "x \<in> set (drops_average sets)"
    obtain t b n where k: "x = (t, b, n)" by (cases x)
    with x averages_counted(2) [of sets] have "0 < n" by auto
    from arrow_returns(2) [OF this p] show "(\<exists>y. drop_arrow exact logarithm k period edge_y sc x = Inr y) = (case x of (k, b, n) \<Rightarrow> b \<noteq> 0)" by (simp add: k)
  qed
qed

lemma arrow_ends:
  "map_res (transmission_arrow fl logarithm k period sc) d = Inr as \<Longrightarrow>
    map ends as = map (\<lambda>((t, r), _). Some (position sc (At_Node t), position sc (At_Node r))) d"
  "map_res (drop_arrow fl logarithm k period edge_y sc) d' = Inr bs \<Longrightarrow>
    map ends bs = map (\<lambda>(t, _). Some (position sc (At_Node t), (fst (position sc (At_Node t)), edge_y))) d'"
proof -
  assume "map_res (transmission_arrow fl logarithm k period sc) d = Inr as"
  then show "map ends as = map (\<lambda>((t, r), _). Some (position sc (At_Node t), position sc (At_Node r))) d"
    by (induction d arbitrary: as) (auto simp: transmission_arrow_def bind_res_Inr_iff)
next
  assume "map_res (drop_arrow fl logarithm k period edge_y sc) d' = Inr bs"
  then show "map ends bs = map (\<lambda>(t, _). Some (position sc (At_Node t), (fst (position sc (At_Node t)), edge_y))) d'"
    by (induction d' arbitrary: bs) (auto simp: drop_arrow_def bind_res_Inr_iff Let_def)
qed

lemma transmissions_ok:
  assumes "0 < vz_period z" and "update_transmissions exact logarithm z = (z', err)"
  shows "(err = None) = totals_ok (transmissions_average (vz_transmissions z))" and "position (vz_scene z') = position (vz_scene z)"
    and "err = None \<Longrightarrow> vz_lost z' = vz_lost z \<and> map ends (filter visible (vz_arrows z')) =
        map (\<lambda>((t, r), _). Some (position (vz_scene z) (At_Node t), position (vz_scene z) (At_Node r))) (transmissions_average (vz_transmissions z))"
    and "err \<noteq> None \<Longrightarrow> filter visible (vz_arrows z') = [] \<and> (\<exists>lost. lost \<noteq> [] \<and> list_all visible lost \<and> vz_lost z' = vz_lost z @ lost)"
    and "vz_view z' = vz_view z" "vz_windows z' = vz_windows z" "vz_drops z' = vz_drops z" "vz_period z' = vz_period z"
      "vz_drop_arrows z' = vz_drop_arrows z"
proof -
  let ?f = "transmission_arrow exact logarithm (exact (vz_node_size z / 5)) (vz_period z)" and ?d = "transmissions_average (vz_transmissions z)"
  let ?get = "\<lambda>((t, r), _). get_node_view exact r \<circ> get_node_view exact t"
  obtain sc arrows lost err1 where d: "draw_arrows ?get ?f ?d (vz_scene z) (map hide_arrow (vz_arrows z)) [] = (sc, arrows, lost, err1)"
    by (metis prod_cases4)
  note z' = assms(2) [unfolded update_transmissions_def d prod.case, symmetric, unfolded prod.inject]
  have o: "position sc = position (vz_scene z) \<and>
    (case map_res (?f (vz_scene z)) ?d of
       Inr res \<Rightarrow> err1 = None \<and> filter visible arrows = [] @ res \<and> lost = []
     | Inl e \<Rightarrow> err1 = Some e \<and> filter visible arrows = [] \<and> lost \<noteq> [] \<and> (\<forall>a \<in> set lost. visible a))"
    using draw_arrows_outcome [where get = ?get and draw = ?f and old = "map hide_arrow (vz_arrows z)" and new = "[]" and xs = ?d and sc = "vz_scene z", unfolded d prod.case]
    by (fastforce simp: transmission_arrow_def bind_res_Inr_iff hide_arrow_def)
  show "position (vz_scene z') = position (vz_scene z)" "vz_view z' = vz_view z" "vz_windows z' = vz_windows z" "vz_drops z' = vz_drops z"
    "vz_period z' = vz_period z" "vz_drop_arrows z' = vz_drop_arrows z" using z' o by simp_all
  show "(err = None) = totals_ok ?d" unfolding arrows_ok(1) [OF assms(1), where logarithm = logarithm and k = "exact (vz_node_size z / 5)" and sc = "vz_scene z" and sets = "vz_transmissions z", symmetric] using z' o by (auto split: sum.splits)
  show "err = None \<Longrightarrow> vz_lost z' = vz_lost z \<and> map ends (filter visible (vz_arrows z')) =
        map (\<lambda>((t, r), _). Some (position (vz_scene z) (At_Node t), position (vz_scene z) (At_Node r))) ?d"
    using z' o arrow_ends(1) by (auto split: sum.splits)
  show "err \<noteq> None \<Longrightarrow> filter visible (vz_arrows z') = [] \<and> (\<exists>lost. lost \<noteq> [] \<and> list_all visible lost \<and> vz_lost z' = vz_lost z @ lost)"
    using z' o by (auto simp: list_all_iff split: sum.splits)
qed

lemma drops_ok:
  assumes "0 < vz_period z" and "update_drops exact logarithm g z = (z', err)"
  shows "(err = None) = totals_ok (drops_average (vz_drops z))" and "position (vz_scene z') = position (vz_scene z)"
    and "err = None \<Longrightarrow> vz_lost z' = vz_lost z \<and> map ends (filter visible (vz_drop_arrows z')) =
        map (\<lambda>(t, _). Some (position (vz_scene z) (At_Node t), (fst (position (vz_scene z) (At_Node t)), edge exact g (vz_view z)))) (drops_average (vz_drops z))"
    and "vz_view z' = vz_view z" "vz_windows z' = vz_windows z" "vz_arrows z' = vz_arrows z"
proof -
  let ?f = "drop_arrow exact logarithm (exact (vz_node_size z / 5)) (vz_period z) (edge exact g (vz_view z))" and ?d = "drops_average (vz_drops z)"
  let ?get = "\<lambda>(t, _). get_node_view exact t"
  obtain sc arrows lost err1 where d: "draw_arrows ?get ?f ?d (vz_scene z) (map hide_arrow (vz_drop_arrows z)) [] = (sc, arrows, lost, err1)"
    by (metis prod_cases4)
  note z' = assms(2) [unfolded update_drops_def d prod.case, symmetric, unfolded prod.inject]
  have o: "position sc = position (vz_scene z) \<and>
    (case map_res (?f (vz_scene z)) ?d of
       Inr res \<Rightarrow> err1 = None \<and> filter visible arrows = [] @ res \<and> lost = []
     | Inl e \<Rightarrow> err1 = Some e \<and> filter visible arrows = [] \<and> lost \<noteq> [] \<and> (\<forall>a \<in> set lost. visible a))"
    using draw_arrows_outcome [where get = ?get and draw = ?f and old = "map hide_arrow (vz_drop_arrows z)" and new = "[]" and xs = ?d and sc = "vz_scene z", unfolded d prod.case]
    by (fastforce simp: drop_arrow_def bind_res_Inr_iff hide_arrow_def Let_def)
  show "position (vz_scene z') = position (vz_scene z)" "vz_view z' = vz_view z" "vz_windows z' = vz_windows z" "vz_arrows z' = vz_arrows z"
    using z' o by simp_all
  show "(err = None) = totals_ok ?d" unfolding arrows_ok(2) [OF assms(1), where logarithm = logarithm and k = "exact (vz_node_size z / 5)" and sc = "vz_scene z" and sets = "vz_drops z" and edge_y = "edge exact g (vz_view z)", symmetric] using z' o by (auto split: sum.splits)
  show "err = None \<Longrightarrow> vz_lost z' = vz_lost z \<and> map ends (filter visible (vz_drop_arrows z')) =
        map (\<lambda>(t, _). Some (position (vz_scene z) (At_Node t), (fst (position (vz_scene z) (At_Node t)), edge exact g (vz_view z)))) ?d"
    using z' o arrow_ends(2) by (auto split: sum.splits)
qed

text \<open>The loop up the parents ends when there is no infinite chain of parents.\<close>

lemma type_is_good_chain:
  assumes "wf {(p, t). parent t = Some p}"
  shows "type_is_good parent roots t = Some (\<exists>r \<in> roots. (r, t) \<in> {(p, t). parent t = Some p}\<^sup>*)"
  using assms
proof (induction t rule: wf_induct_rule)
  case (less t)
  let ?R = "{(p, t). parent t = Some p}"
  show ?case
  proof (cases "t \<in> roots \<or> parent t = None")
    case True
    have "(r, t) \<notin> ?R\<^sup>*" if "r \<in> roots" "t \<notin> roots" for r
    proof
      assume "(r, t) \<in> ?R\<^sup>*"
      then have "r = t \<or> (\<exists>p. (p, t) \<in> ?R)" by (meson rtranclE)
      with that True show False by auto
    qed
    with True show ?thesis by (subst type_is_good.simps) auto
  next
    case False
    then obtain p where p: "t \<notin> roots" "parent t = Some p" by blast
    have "(r, t) \<in> ?R\<^sup>* \<longleftrightarrow> (r, p) \<in> ?R\<^sup>*" if "r \<in> roots" for r
      using p that by (auto elim: rtranclE intro: rtrancl_into_rtrancl)
    with p less show ?thesis by (subst type_is_good.simps) auto
  qed
qed

lemma filter_list_exact:
  assumes "wf {(p, t). parent t = Some p}"
  shows "\<exists>cs. filter_list parent roots ts = Some cs \<and> list_all selected cs \<and>
    map typeid cs = filter (\<lambda>t. t \<notin> roots \<and> (\<exists>r \<in> roots. (r, t) \<in> {(p, t). parent t = Some p}\<^sup>*)) ts"
  by (induction ts) (auto simp: type_is_good_chain [OF assms])

definition filter_ok :: "packet_filter \<Rightarrow> bool" where
  "filter_ok f \<longleftrightarrow>
     sent f = Some \<lparr>num_last_packets = 100, headers = map typeid (filter selected (entries f)), mode = (if op_and f then Headers_And else Headers_Or)\<rparr>"

lemma filter_event_ok: "filter_ok f \<Longrightarrow> filter_ok (filter_event ev f)"
  by (simp add: filter_event_def filter_ok_def update_capture_options_def split: filter_event.split)

lemma filter_event_types: "map typeid (entries (filter_event ev f)) = map typeid (entries f)"
  by (auto simp: filter_event_def update_capture_options_def map_update [symmetric] split: filter_event.split)
    (metis list_update_id map_update nth_map type_config.select_convs(1) type_config.update_convs(2) type_config.cases)

section \<open>Properties\<close>

text \<open>C36. An update of the view succeeds exactly when every window can be updated and every average has bytes.  Whatever it does with
  windows and arrows, each node is where its model says, or where it was; when it succeeds, each window shows what ns-3 says now, and the visible arrows
  are one for each pair of nodes with traffic and one for each node that drops packets, drawn between the nodes, or from the node to the
  lower edge of the screen, and none is lost.\<close>

theorem update_view_complete:
  assumes "0 < vz_period z" and "cached net (vz_scene z)"
  shows "case update_view exact logarithm str_float g net info z of (z', err) \<Rightarrow>
    (err = None) = ((\<forall>w \<in> set (vz_windows z). snd (update_window str_float info w) = None) \<and>
       totals_ok (transmissions_average (vz_transmissions z)) \<and> totals_ok (drops_average (vz_drops z))) \<and>
    (\<forall>i. position (vz_scene z') (At_Node i) =
       (case (present (vz_scene z) (At_Node i), mobility_of net i) of (True, Some p) \<Rightarrow> point_to_canvas exact p | _ \<Rightarrow> position (vz_scene z) (At_Node i))) \<and>
    (err = None \<longrightarrow> list_all2 (\<lambda>w w'. update_window str_float info w = (w', None)) (vz_windows z) (vz_windows z') \<and>
       map ends (filter visible (vz_arrows z')) =
         map (\<lambda>((t, r), _). Some (position (vz_scene z') (At_Node t), position (vz_scene z') (At_Node r))) (transmissions_average (vz_transmissions z)) \<and>
       map ends (filter visible (vz_drop_arrows z')) =
         map (\<lambda>(t, _). Some (position (vz_scene z') (At_Node t), (fst (position (vz_scene z') (At_Node t)), edge exact g (vz_view z')))) (drops_average (vz_drops z)) \<and>
       vz_lost z' = vz_lost z)"
proof -
  obtain sc s where u: "update_positions_followed exact g net (vz_scene z, vz_view z) = (sc, s)" by fastforce
  have "sc = update_node_positions exact net (vz_scene z)" using update_followed(1) [of exact g net "(vz_scene z, vz_view z)"] u by simp
  then have sc: "\<forall>i. position sc (At_Node i) =
       (case (present (vz_scene z) (At_Node i), mobility_of net i) of (True, Some p) \<Rightarrow> point_to_canvas exact p | _ \<Rightarrow> position (vz_scene z) (At_Node i))"
    by (simp add: update_node_positions_result [OF assms(2)] split: bool.split option.split)
  obtain ws werr where w: "update_windows (update_window str_float info) (vz_windows z) = (ws, werr)" by fastforce
  have wok: "(werr = None) = (\<forall>w \<in> set (vz_windows z). snd (update_window str_float info w) = None)"
    using update_windows_ok [of "update_window str_float info" "vz_windows z"] w by simp
  let ?z1 = "z\<lparr>vz_scene := sc, vz_view := s, vz_windows := ws\<rparr>"
  show ?thesis
  proof (cases werr)
    case (Some e)
    then show ?thesis using wok sc by (simp add: update_view_def u w)
  next
    case None
    note wok = wok [unfolded None, simplified]
    obtain z2 terr where t: "update_transmissions exact logarithm ?z1 = (z2, terr)" by fastforce
    have p: "0 < vz_period ?z1" using assms(1) by simp
    note a = transmissions_ok [OF p t, simplified]
    show ?thesis
    proof (cases terr)
      case (Some e)
      then show ?thesis using a(1,2) sc by (simp add: update_view_def u w None t)
    next
      case terr: None
      obtain z3 derr where d: "update_drops exact logarithm g z2 = (z3, derr)" by fastforce
      have p2: "0 < vz_period z2" using assms(1) a by simp
      note b = drops_ok [OF p2 d]
      have e: "update_view exact logarithm str_float g net info z = (z3, derr)" by (simp add: update_view_def u w None t terr d)
      show ?thesis unfolding e using a b wok terr sc update_windows_all [OF w [unfolded None]] by simp
    qed
  qed
qed

text \<open>When an average has no bytes the update raises, no listed transmission arrow is visible, and the arrows drawn before it stay on the
  canvas for good.\<close>

lemma arrows_lost:
  assumes "0 < vz_period z" and "\<not> totals_ok (transmissions_average (vz_transmissions z))"
  shows "case update_transmissions exact logarithm z of (z', err) \<Rightarrow>
    err \<noteq> None \<and> filter visible (vz_arrows z') = [] \<and> (\<exists>lost. lost \<noteq> [] \<and> list_all visible lost \<and> vz_lost z' = vz_lost z @ lost)"
proof -
  obtain z' err where t: "update_transmissions exact logarithm z = (z', err)" by fastforce
  show ?thesis using transmissions_ok(1,4) [OF assms(1) t] assms(2) by (simp add: t)
qed

definition sample_info :: node_info where
  "sample_info = \<lparr>last_packets = ([], [], []), statistics_of = Inr [], device_name = (\<lambda>_. []), ipv4 = None, olsr = None\<rparr>"

definition sample_visualizer :: visualizer where
  "sample_visualizer = \<lparr>vz_scene = two_nodes, vz_view = sample_view, vz_windows = [\<lparr>window_id = 0, kind = Packets_Window, node_index = 1, tables = []\<rparr>],
     vz_transmissions = [[\<lparr>transmitter = 0, receiver = 1, sample_bytes = 1000\<rparr>]], vz_drops = [], vz_node_size = 3, vz_period = 1 / 10,
     vz_arrows = [], vz_drop_arrows = [], vz_lost = []\<rparr>"

theorem update_view_complete_witness:
  "\<exists>z'. update_view exact (\<lambda>x. x) (\<lambda>_. []) plain_gui no_models (\<lambda>_. sample_info) sample_visualizer = (z', None) \<and>
     map ends (filter visible (vz_arrows z')) = [Some ((0, 0), (100, 50))] \<and> filter visible (vz_drop_arrows z') = []"
proof -
  have c: "cached no_models (vz_scene sample_visualizer)" by (auto simp: cached_def asked_def no_models_def mobility_of_def two_nodes_def sample_visualizer_def)
  have t: "transmissions_average (vz_transmissions sample_visualizer) = [((0, 1), (1000, 1))]" "drops_average (vz_drops sample_visualizer) = []"
    by (simp_all add: sample_visualizer_def transmissions_average_def drops_average_def add_sample_def)
  have p: "0 < vz_period sample_visualizer" by (simp add: sample_visualizer_def)
  have w: "\<forall>w \<in> set (vz_windows sample_visualizer). snd (update_window (\<lambda>_. []) (\<lambda>_. sample_info) w) = None"
    by (simp add: sample_visualizer_def sample_info_def update_window_def)
  have n: "mobility_of no_models i = None" for i by (simp add: mobility_of_def no_models_def)
  have v: "vz_scene sample_visualizer = two_nodes" "position two_nodes (At_Node 0) = (0, 0)" "position two_nodes (At_Node 1) = (100, 50)"
    by (simp_all add: sample_visualizer_def two_nodes_def position_def)
  obtain z' err where z: "update_view exact (\<lambda>x. x) (\<lambda>_. []) plain_gui no_models (\<lambda>_. sample_info) sample_visualizer = (z', err)" by fastforce
  from update_view_complete [OF p c, where logarithm = "\<lambda>x. x" and str_float = "\<lambda>_. []" and g = plain_gui and info = "\<lambda>_. sample_info", unfolded z prod.case t] w show ?thesis
    unfolding z by (simp add: totals_ok_def n v split: bool.split option.split)
qed

text \<open>A window of a node that stays without IPv4, and is not opened a second time.\<close>

definition leaves_broken :: "info_window \<Rightarrow> window_event \<Rightarrow> bool" where
  "leaves_broken w ev =
     (case ev of
        Update_View g net info \<Rightarrow> ipv4 (info (node_index w)) = None
      | Open_Window info w' \<Rightarrow> window_id w' \<noteq> window_id w
      | _ \<Rightarrow> True)"

definition broken_in :: "info_window \<Rightarrow> visualizer \<Rightarrow> visualizer \<times> nat list \<Rightarrow> bool" where
  "broken_in w z st \<longleftrightarrow> w \<in> set (vz_windows (fst st)) \<and> window_id w \<notin> set (snd st) \<and>
     vz_arrows (fst st) = vz_arrows z \<and> vz_drop_arrows (fst st) = vz_drop_arrows z"

lemma remove_window_keeps: "remove_window i ws = Inr ws' \<Longrightarrow> window_id w \<noteq> i \<Longrightarrow> w \<in> set ws \<Longrightarrow> w \<in> set ws'"
  by (induction ws arbitrary: ws') (auto simp: bind_res_Inr_iff split: if_splits)

lemma broken_update:
  assumes "kind w = Ipv4_Window" and "ipv4 (info (node_index w)) = None" and "w \<in> set (vz_windows z)"
  shows "\<exists>z' e. update_view fl logarithm str_float g net info z = (z', Some e) \<and> w \<in> set (vz_windows z') \<and>
    vz_arrows z' = vz_arrows z \<and> vz_drop_arrows z' = vz_drop_arrows z"
proof -
  let ?f = "update_window str_float info" and ?ws = "vz_windows z"
  have f: "?f w = (w, Some AttributeError)" using assms(1,2) by (simp add: update_window_def update_ipv4_def)
  have "snd (update_windows ?f ?ws) \<noteq> None" unfolding update_windows_ok using f assms(3) by (auto intro!: bexI [of _ w])
  then obtain ws' e where w: "update_windows ?f ?ws = (ws', Some e)" by (cases "update_windows ?f ?ws") auto
  have "w \<in> set ws'" using update_windows_keep [of ?f w AttributeError ?ws] f w assms(3) by simp
  then show ?thesis by (simp add: update_view_def w split_def)
qed

lemma broken_step:
  assumes "kind w = Ipv4_Window" and "broken_in w z st" and "leaves_broken w ev"
  shows "broken_in w z (fst (window_step fl logarithm str_float ev st))"
proof (cases ev)
  case (Update_View g net info)
  with assms(3) have "ipv4 (info (node_index w)) = None" by (simp add: leaves_broken_def)
  from broken_update [where info = info, OF assms(1) this, of "fst st" fl logarithm str_float g net] assms(2)
  obtain z' e where "update_view fl logarithm str_float g net info (fst st) = (z', Some e)" "w \<in> set (vz_windows z')"
    "vz_arrows z' = vz_arrows (fst st)" "vz_drop_arrows z' = vz_drop_arrows (fst st)" by (auto simp: broken_in_def)
  with assms(2) show ?thesis by (simp add: Update_View window_step_def broken_in_def split_def)
next
  case (Close_Window i)
  then show ?thesis using assms(2)
    by (auto simp: window_step_def broken_in_def split_def intro: remove_window_keeps [where w = w] split: sum.split)
qed (use assms in \<open>auto simp: window_step_def broken_in_def leaves_broken_def add_window_def split_def\<close>)

lemma broken_events:
  "kind w = Ipv4_Window \<Longrightarrow> broken_in w z st \<Longrightarrow> list_all (leaves_broken w) evs \<Longrightarrow>
    broken_in w z (window_events fl logarithm str_float evs st)"
  by (induction evs arbitrary: st) (simp_all add: window_events_def broken_step)

text \<open>C37. A routing window can be asked for on a node without IPv4, and then stops the view for good: its constructor raises
  \<open>AttributeError\<close> before it shows the window, but after it has listed it.  Nobody can close a window that is not shown, so it stays
  in the list whatever other windows are opened and closed and however often the view is updated, and every one of these updates ends
  in an exception before it draws an arrow, as long as the node has no IPv4.\<close>

theorem broken_window_stops_view:
  assumes "kind w = Ipv4_Window" and "ipv4 (info (node_index w)) = None" and "window_id w \<notin> set ids" and "list_all (leaves_broken w) evs"
  shows "case window_step fl logarithm str_float (Open_Window info w) (z, ids) of (st, e) \<Rightarrow>
    e = Some AttributeError \<and>
    (case window_events fl logarithm str_float evs st of (z', ids') \<Rightarrow>
       w \<in> set (vz_windows z') \<and> window_id w \<notin> set ids' \<and> vz_arrows z' = vz_arrows z \<and> vz_drop_arrows z' = vz_drop_arrows z \<and>
       snd (update_view fl logarithm str_float g net info z') \<noteq> None)"
proof -
  have o: "window_step fl logarithm str_float (Open_Window info w) (z, ids) = ((z\<lparr>vz_windows := vz_windows z @ [w]\<rparr>, ids), Some AttributeError)"
    using assms(1,2) by (simp add: window_step_def add_window_def update_window_def update_ipv4_def)
  have "broken_in w z (z\<lparr>vz_windows := vz_windows z @ [w]\<rparr>, ids)" using assms(3) by (simp add: broken_in_def)
  from broken_events [OF assms(1) this assms(4)] obtain z' ids' where
    e: "window_events fl logarithm str_float evs (z\<lparr>vz_windows := vz_windows z @ [w]\<rparr>, ids) = (z', ids')" and b: "broken_in w z (z', ids')"
    by (metis surj_pair)
  have w: "w \<in> set (vz_windows z')" using b by (simp add: broken_in_def)
  from broken_update [where info = info, OF assms(1,2) w, of fl logarithm str_float g net] b show ?thesis unfolding o prod.case e
    by (auto simp: broken_in_def)
qed

theorem broken_window_stops_view_witness:
  "case window_step exact (\<lambda>x. x) (\<lambda>_. []) (Open_Window (\<lambda>_. sample_info) \<lparr>window_id = 1, kind = Ipv4_Window, node_index = 0, tables = []\<rparr>)
      (sample_visualizer, [0]) of (st, e) \<Rightarrow>
    e = Some AttributeError \<and>
    (case window_events exact (\<lambda>x. x) (\<lambda>_. [])
        [Update_View plain_gui no_models (\<lambda>_. sample_info), Close_Window 1, Close_Window 0, Update_View plain_gui no_models (\<lambda>_. sample_info)] st of
       (z', ids') \<Rightarrow> \<lparr>window_id = 1, kind = Ipv4_Window, node_index = 0, tables = []\<rparr> \<in> set (vz_windows z') \<and>
         window_id \<lparr>window_id = 1, kind = Ipv4_Window, node_index = 0, tables = []\<rparr> \<notin> set ids' \<and>
         vz_arrows z' = vz_arrows sample_visualizer \<and> vz_drop_arrows z' = vz_drop_arrows sample_visualizer \<and>
         snd (update_view exact (\<lambda>x. x) (\<lambda>_. []) plain_gui no_models (\<lambda>_. sample_info) z') \<noteq> None)"
  by (rule broken_window_stops_view) (simp_all add: sample_info_def leaves_broken_def)

text \<open>The packet filter lists exactly the kinds of headers and trailers below \<open>Header\<close> and \<open>Trailer\<close>, which takes finitely many steps
  because no type is its own ancestor; and whatever the user clicks, the simulator has been told the options that the window shows.\<close>

theorem packet_filter_in_step:
  assumes "wf {(p, t). parent t = Some p}"
  shows "\<exists>cs. filter_list parent roots ts = Some cs \<and>
    map typeid cs = filter (\<lambda>t. t \<notin> roots \<and> (\<exists>r \<in> roots. (r, t) \<in> {(p, t). parent t = Some p}\<^sup>*)) ts \<and>
    (case fold filter_event evs (first_filter cs) of f \<Rightarrow>
       map typeid (entries f) = map typeid cs \<and>
       sent f = Some \<lparr>num_last_packets = 100, headers = map typeid (filter selected (entries f)), mode = (if op_and f then Headers_And else Headers_Or)\<rparr>)"
proof -
  obtain cs where cs: "filter_list parent roots ts = Some cs"
    "map typeid cs = filter (\<lambda>t. t \<notin> roots \<and> (\<exists>r \<in> roots. (r, t) \<in> {(p, t). parent t = Some p}\<^sup>*)) ts"
    using filter_list_exact [OF assms] by blast
  have "filter_ok (fold filter_event evs f)" if "filter_ok f" for f using that by (induction evs arbitrary: f) (simp_all add: filter_event_ok)
  moreover have "filter_ok (first_filter cs)" by (simp add: first_filter_def filter_ok_def update_capture_options_def)
  ultimately have o: "filter_ok (fold filter_event evs (first_filter cs))" .
  have "map typeid (entries (fold filter_event evs f)) = map typeid (entries f)" for f by (induction evs arbitrary: f) (simp_all add: filter_event_types)
  moreover have "entries (first_filter cs) = cs" by (simp add: first_filter_def update_capture_options_def)
  ultimately have "map typeid (entries (fold filter_event evs (first_filter cs))) = map typeid cs" by simp
  with cs o show ?thesis by (simp add: filter_ok_def)
qed

theorem packet_filter_in_step_witness:
  "\<exists>cs. filter_list (\<lambda>t. if t = 3 then Some 1 else if t = 1 then Some 0 else None) {1, 2} [0, 1, 2, 3] = Some cs \<and> map typeid cs = [3] \<and>
    (case fold filter_event [Select_None, Toggle_Mode True] (first_filter cs) of f \<Rightarrow> map typeid (entries f) = map typeid cs)"
proof -
  let ?parent = "\<lambda>t :: nat. if t = 3 then Some 1 else if t = 1 then Some 0 else None :: nat option"
  have "{(p, t). ?parent t = Some p} \<subseteq> less_than" by (auto split: if_splits)
  then have wf: "wf {(p, t). ?parent t = Some p}" by (rule wf_subset [OF wf_less_than])
  have "type_is_good ?parent {1, 2} 0 = Some False" "type_is_good ?parent {1, 2} 3 = Some True" by (simp_all add: type_is_good.simps)
  then have g: "\<not> (\<exists>r \<in> {1, 2}. (r, 0) \<in> {(p, t). ?parent t = Some p}\<^sup>*)" "\<exists>r \<in> {1, 2}. (r, 3) \<in> {(p, t). ?parent t = Some p}\<^sup>*"
    unfolding type_is_good_chain [OF wf] by blast+
  from packet_filter_in_step [OF wf, of "{1, 2}" "[0, 1, 2, 3]" "[Select_None, Toggle_Mode True]"] show ?thesis
    using g by (simp only: filter.simps) auto
qed

end
