(* ===== verification/Create_Module.thy ===== *)
theory Create_Module
  imports Py_Strings "HOL-Library.Sublist"
begin

text \<open>
  \<open>src/create-module.py\<close>: a new module is made from templates.  A file system maps paths, as lists of names from the root, to
  directories and files; the options of the command line are taken as parsed.  \<open>OSError\<close> and \<open>IOError\<close> are one exception here.
\<close>

section \<open>The templates\<close>

definition unlines :: "string list \<Rightarrow> string" where
  "unlines ls = concat (map (\<lambda>l. l @ [CHR 0x0A]) ls)"

definition WSCRIPT_TEMPLATE :: string where
  "WSCRIPT_TEMPLATE = unlines
     [''# -*- Mode: python; py-indent-offset: 4; indent-tabs-mode: nil; coding: utf-8; -*-'',
      '''',
      ''# def options(opt):'',
      ''#     pass'',
      '''',
      ''# def configure(conf):'',
      ''#     conf.check_nonfatal(header_name=\\'stdint.h\\', define_name=\\'HAVE_STDINT_H\\')'',
      '''',
      ''def build(bld):'',
      ''    module = bld.create_ns3_module(%(MODULE)r, [\\'core\\'])'',
      ''    module.source = ['',
      ''        \\'model/%(MODULE)s.cc\\','',
      ''        \\'helper/%(MODULE)s-helper.cc\\','',
      ''        ]'',
      '''',
      ''    module_test = bld.create_ns3_module_test_library(\\'%(MODULE)s\\')'',
      ''    module_test.source = ['',
      ''        \\'test/%(MODULE)s-test-suite.cc\\','',
      ''        ]'',
      '''',
      ''    headers = bld.new_task_gen(features=[\\'ns3header\\'])'',
      ''    headers.module = %(MODULE)r'',
      ''    headers.source = ['',
      ''        \\'model/%(MODULE)s.h\\','',
      ''        \\'helper/%(MODULE)s-helper.h\\','',
      ''        ]'',
      '''',
      ''    if bld.env.ENABLE_EXAMPLES:'',
      ''        bld.add_subdirs(\\'examples\\')'',
      '''',
      ''    # bld.ns3_python_bindings()'',
      '''']"

definition MODEL_CC_TEMPLATE :: string where
  "MODEL_CC_TEMPLATE = unlines
     [''/* -*- Mode:C++; c-file-style:\"gnu\"; indent-tabs-mode:nil; -*- */'',
      '''',
      ''#include \"%(MODULE)s.h\"'',
      '''',
      ''namespace ns3 {'',
      '''',
      ''/* ... */'',
      '''',
      '''',
      ''}'',
      '''']"

definition MODEL_H_TEMPLATE :: string where
  "MODEL_H_TEMPLATE = unlines
     [''/* -*- Mode:C++; c-file-style:\"gnu\"; indent-tabs-mode:nil; -*- */'',
      ''#ifndef %(INCLUDE_GUARD)s'',
      ''#define %(INCLUDE_GUARD)s'',
      '''',
      ''namespace ns3 {'',
      '''',
      ''/* ... */'',
      '''',
      ''}'',
      '''',
      ''#endif /* %(INCLUDE_GUARD)s */'',
      '''']"

definition HELPER_CC_TEMPLATE :: string where
  "HELPER_CC_TEMPLATE = unlines
     [''/* -*- Mode:C++; c-file-style:\"gnu\"; indent-tabs-mode:nil; -*- */'',
      '''',
      ''#include \"%(MODULE)s-helper.h\"'',
      '''',
      ''namespace ns3 {'',
      '''',
      ''/* ... */'',
      '''',
      '''',
      ''}'',
      '''']"

definition HELPER_H_TEMPLATE :: string where
  "HELPER_H_TEMPLATE = unlines
     [''/* -*- Mode:C++; c-file-style:\"gnu\"; indent-tabs-mode:nil; -*- */'',
      ''#ifndef %(INCLUDE_GUARD)s'',
      ''#define %(INCLUDE_GUARD)s'',
      '''',
      ''#include \"ns3/%(MODULE)s.h\"'',
      '''',
      ''namespace ns3 {'',
      '''',
      ''/* ... */'',
      '''',
      ''}'',
      '''',
      ''#endif /* %(INCLUDE_GUARD)s */'',
      '''']"

definition EXAMPLES_WSCRIPT_TEMPLATE :: string where
  "EXAMPLES_WSCRIPT_TEMPLATE = unlines
     [''# -*- Mode: python; py-indent-offset: 4; indent-tabs-mode: nil; coding: utf-8; -*-'',
      '''',
      ''def build(bld):'',
      ''    obj = bld.create_ns3_program(\\'%(MODULE)s-example\\', [%(MODULE)r])'',
      ''    obj.source = \\'%(MODULE)s-example.cc'' @ [CHR 0x27],
      '''']"

definition EXAMPLE_CC_TEMPLATE :: string where
  "EXAMPLE_CC_TEMPLATE = unlines
     [''/* -*- Mode:C++; c-file-style:\"gnu\"; indent-tabs-mode:nil; -*- */'',
      '''',
      ''#include \"ns3/core-module.h\"'',
      ''#include \"ns3/%(MODULE)s-helper.h\"'',
      '''',
      ''using namespace ns3;'',
      '''',
      '''',
      ''int '',
      ''main (int argc, char *argv[])'',
      ''{'',
      ''  bool verbose = true;'',
      '''',
      ''  CommandLine cmd;'',
      ''  cmd.AddValue (\"verbose\", \"Tell application to log if true\", verbose);'',
      '''',
      ''  cmd.Parse (argc,argv);'',
      '''',
      ''  /* ... */'',
      '''',
      ''  Simulator::Run ();'',
      ''  Simulator::Destroy ();'',
      ''  return 0;'',
      ''}'',
      '''',
      '''']"

definition TEST_CC_TEMPLATE :: string where
  "TEST_CC_TEMPLATE = unlines
     [''/* -*- Mode:C++; c-file-style:\"gnu\"; indent-tabs-mode:nil; -*- */'',
      '''',
      ''// Include a header file from your module to test.'',
      ''#include \"ns3/%(MODULE)s.h\"'',
      '''',
      ''// An essential include is test.h'',
      ''#include \"ns3/test.h\"'',
      '''',
      ''// Do not put your test classes in namespace ns3.  You may find it useful'',
      ''// to use the using directive to access the ns3 namespace directly'',
      ''using namespace ns3;'',
      '''',
      ''// This is an example TestCase.'',
      ''class %(CAPITALIZED)sTestCase1 : public TestCase'',
      ''{'',
      ''public:'',
      ''  %(CAPITALIZED)sTestCase1 ();'',
      ''  virtual ~%(CAPITALIZED)sTestCase1 ();'',
      '''',
      ''private:'',
      ''  virtual void DoRun (void);'',
      ''};'',
      '''',
      ''// Add some help text to this case to describe what it is intended to test'',
      ''%(CAPITALIZED)sTestCase1::%(CAPITALIZED)sTestCase1 ()'',
      ''  : TestCase (\"%(CAPITALIZED)s test case (does nothing)\")'',
      ''{'',
      ''}'',
      '''',
      ''// This destructor does nothing but we include it as a reminder that'',
      ''// the test case should clean up after itself'',
      ''%(CAPITALIZED)sTestCase1::~%(CAPITALIZED)sTestCase1 ()'',
      ''{'',
      ''}'',
      '''',
      ''//'',
      ''// This method is the pure virtual method from class TestCase that every'',
      ''// TestCase must implement'',
      ''//'',
      ''void'',
      ''%(CAPITALIZED)sTestCase1::DoRun (void)'',
      ''{'',
      ''  // A wide variety of test macros are available in src/core/test.h'',
      ''  NS_TEST_ASSERT_MSG_EQ (true, true, \"true doesn\\'t equal true for some reason\");'',
      ''  // Use this one for floating point comparisons'',
      ''  NS_TEST_ASSERT_MSG_EQ_TOL (0.01, 0.01, 0.001, \"Numbers are not equal within tolerance\");'',
      ''}'',
      '''',
      ''// The TestSuite class names the TestSuite, identifies what type of TestSuite,'',
      ''// and enables the TestCases to be run.  Typically, only the constructor for'',
      ''// this class must be defined'',
      ''//'',
      ''class %(CAPITALIZED)sTestSuite : public TestSuite'',
      ''{'',
      ''public:'',
      ''  %(CAPITALIZED)sTestSuite ();'',
      ''};'',
      '''',
      ''%(CAPITALIZED)sTestSuite::%(CAPITALIZED)sTestSuite ()'',
      ''  : TestSuite (\"%(MODULE)s\", UNIT)'',
      ''{'',
      ''  AddTestCase (new %(CAPITALIZED)sTestCase1);'',
      ''}'',
      '''',
      ''// Do not forget to allocate an instance of this TestSuite'',
      ''static %(CAPITALIZED)sTestSuite %(MODULE)sTestSuite;'',
      '''']"

definition DOC_RST_TEMPLATE :: string where
  "DOC_RST_TEMPLATE = unlines
     [''Example Module Documentation'',
      ''----------------------------'',
      '''',
      ''.. heading hierarchy:'',
      ''   ------------- Chapter'',
      ''   ************* Section (#.#)'',
      ''   ============= Subsection (#.#.#)'',
      ''   ############# Paragraph (no number)'',
      '''',
      ''This is a suggested outline for adding new module documentation to ns-3.'',
      ''See ``src/click/doc/click.rst`` for an example.'',
      '''',
      ''The introductory paragraph is for describing what this code is trying to'',
      ''model.'',
      '''',
      ''Model Description'',
      ''*****************'',
      '''',
      ''The source code for the new module lives in the directory ``src/%(MODULE)s``.'',
      '''',
      ''Add here a basic description of what is being modeled.'',
      '''',
      ''Design'',
      ''======'',
      '''',
      ''Briefly describe the software design of the model and how it fits into '',
      ''the existing ns-3 architecture. '',
      '''',
      ''Scope and Limitations'',
      ''====================='',
      '''',
      ''What can the model do?  What can it not do?  Please use this section to'',
      ''describe the scope and limitations of the model.'',
      '''',
      ''References'',
      ''=========='',
      '''',
      ''Add academic citations here, such as if you published a paper on this'',
      ''model, or if readers should read a particular specification or other work.'',
      '''',
      ''Usage'',
      ''*****'',
      '''',
      ''This section is principally concerned with the usage of your model, using'',
      ''the public API.  Focus first on most common usage patterns, then go'',
      ''into more advanced topics.'',
      '''',
      ''Building New Module'',
      ''==================='',
      '''',
      ''Include this subsection only if there are special build instructions or'',
      ''platform limitations.'',
      '''',
      ''Helpers'',
      ''======='',
      '''',
      ''What helper API will users typically use?  Describe it here.'',
      '''',
      ''Attributes'',
      ''=========='',
      '''',
      ''What classes hold attributes, and what are the key ones worth mentioning?'',
      '''',
      ''Output'',
      ''======'',
      '''',
      ''What kind of data does the model generate?  What are the key trace'',
      ''sources?   What kind of logging output can be enabled?'',
      '''',
      ''Advanced Usage'',
      ''=============='',
      '''',
      ''Go into further details (such as using the API outside of the helpers)'',
      ''in additional sections, as needed.'',
      '''',
      ''Examples'',
      ''========'',
      '''',
      ''What examples using this new code are available?  Describe them here.'',
      '''',
      ''Troubleshooting'',
      ''==============='',
      '''',
      ''Add any tips for avoiding pitfalls, etc.'',
      '''',
      ''Validation'',
      ''**********'',
      '''',
      ''Describe how the model has been tested/validated.  What tests run in the'',
      ''test suite?  How much API and code is covered by the tests?  Again, '',
      ''references to outside published work may help here.'']"
section \<open>Filling a template\<close>

text \<open>The parts of a format: a character, \<open>%(key)s\<close>, \<open>%(key)r\<close>, or anything else after \<open>%\<close>, which raises.\<close>

datatype piece = Char char | Str_Of string | Repr_Of string | Bad_Format

lemma drop_two: "drop n cs = x # y # rest \<Longrightarrow> length rest < length cs"
proof -
  assume "drop n cs = x # y # rest"
  then have "length cs - n = Suc (Suc (length rest))" by (metis length_drop length_Cons)
  then show ?thesis by arith
qed

function pieces :: "string \<Rightarrow> piece list" where
  "pieces [] = []"
| "pieces (c # cs) =
     (if c \<noteq> CHR ''%'' then Char c # pieces cs
      else case cs of
          [] \<Rightarrow> [Bad_Format]
        | d # ds \<Rightarrow>
            if d = CHR ''%'' then Char d # pieces ds
            else if d = CHR ''('' then
              (let key = takeWhile (\<lambda>x. x \<noteq> CHR '')'') ds
               in case drop (length key) ds of
                    _ # f # rest \<Rightarrow>
                      if f = CHR ''s'' then Str_Of key # pieces rest else if f = CHR ''r'' then Repr_Of key # pieces rest else [Bad_Format]
                  | _ \<Rightarrow> [Bad_Format])
            else [Bad_Format])"
  by pat_completeness auto
termination
  by (relation "measure length") (auto dest!: drop_two)

text \<open>\<open>repr\<close> of a string of ASCII characters.\<close>

definition hex_digit :: "nat \<Rightarrow> char" where
  "hex_digit n = char_of (if n < 10 then n + 48 else n + 87)"

definition repr_char :: "char \<Rightarrow> char \<Rightarrow> string" where
  "repr_char quote c =
     (let n = of_char c :: nat; backslash = CHR 0x5C
      in if c = quote \<or> n = 92 then [backslash, c]
         else if n = 9 then [backslash, CHR ''t''] else if n = 10 then [backslash, CHR ''n''] else if n = 13 then [backslash, CHR ''r'']
         else if n < 32 \<or> 127 \<le> n then [backslash, CHR ''x'', hex_digit (n div 16), hex_digit (n mod 16)]
         else [c])"

definition py_repr :: "string \<Rightarrow> string" where
  "py_repr s =
     (let single = CHR 0x27; double = CHR 0x22;
          quote = (if single \<in> set s \<and> double \<notin> set s then double else single)
      in quote # concat (map (repr_char quote) s) @ [quote])"

fun fill :: "(string \<times> string) list \<Rightarrow> piece list \<Rightarrow> string res" where
  "fill d [] = Inr []"
| "fill d (Char c # ps) = bind_res (fill d ps) (\<lambda>s. Inr (c # s))"
| "fill d (Str_Of k # ps) = bind_res (dict_get d k) (\<lambda>v. bind_res (fill d ps) (\<lambda>s. Inr (v @ s)))"
| "fill d (Repr_Of k # ps) = bind_res (dict_get d k) (\<lambda>v. bind_res (fill d ps) (\<lambda>s. Inr (py_repr v @ s)))"
| "fill d (Bad_Format # ps) = Inl ValueError"

text \<open>\<open>template % d\<close>\<close>

definition format_with :: "string \<Rightarrow> (string \<times> string) list \<Rightarrow> string res" where
  "format_with template d = fill d (pieces template)"

section \<open>The file system\<close>

datatype fs_node = Directory | Text_File string

type_synonym path = "string list"
type_synonym file_system = "path \<Rightarrow> fs_node option"

text \<open>\<open>os.mkdir\<close>, and opening a file, writing what a format gives and closing it: the file is there, empty, when the format raises.\<close>

datatype action = Make_Dir path | Write_File path "string res"

fun perform :: "action \<Rightarrow> file_system \<Rightarrow> file_system \<times> py_error option" where
  "perform (Make_Dir p) fs =
     (if p \<noteq> [] \<and> fs p = None \<and> fs (butlast p) = Some Directory then (fs(p \<mapsto> Directory), None) else (fs, Some IOError))"
| "perform (Write_File p content) fs =
     (if p \<noteq> [] \<and> fs p \<noteq> Some Directory \<and> fs (butlast p) = Some Directory then
        (case content of Inl e \<Rightarrow> (fs(p \<mapsto> Text_File []), Some e) | Inr t \<Rightarrow> (fs(p \<mapsto> Text_File t), None))
      else (fs, Some IOError))"

fun perform_all :: "action list \<Rightarrow> file_system \<Rightarrow> file_system \<times> py_error option" where
  "perform_all [] fs = (fs, None)"
| "perform_all (a # as) fs = (case perform a fs of (fs1, Some e) \<Rightarrow> (fs1, Some e) | (fs1, None) \<Rightarrow> perform_all as fs1)"

section \<open>The program\<close>

definition lower_case :: "char \<Rightarrow> char" where
  "lower_case c = (if 65 \<le> code c \<and> code c \<le> 90 then char_of (code c + 32) else c)"

definition capitalize :: "string \<Rightarrow> string" where
  "capitalize s = (case s of [] \<Rightarrow> [] | c # cs \<Rightarrow> to_upper c # map lower_case cs)"

text \<open>\<open>os.path.join(dirname, modname)\<close> as a path from the root, for a name without \<open>/\<close>.\<close>

definition child :: "path \<Rightarrow> string \<Rightarrow> path" where
  "child dir name = (if name = [] \<or> name = ''.'' then dir else if name = ''..'' then butlast dir else dir @ [name])"

definition module_actions :: "path \<Rightarrow> string \<Rightarrow> action list" where
  "module_actions moduledir modname =
     (let m = [(''MODULE'', modname)];
          guard = (\<lambda>suffix. (''INCLUDE_GUARD'', ''__'' @ upper modname @ suffix))
      in [Make_Dir moduledir,
          Write_File (moduledir @ [''wscript'']) (format_with WSCRIPT_TEMPLATE m),
          Make_Dir (moduledir @ [''model'']),
          Write_File (moduledir @ [''model'', modname @ ''.cc'']) (format_with MODEL_CC_TEMPLATE m),
          Write_File (moduledir @ [''model'', modname @ ''.h'']) (format_with MODEL_H_TEMPLATE (m @ [guard ''_H__''])),
          Make_Dir (moduledir @ [''test'']),
          Write_File (moduledir @ [''test'', modname @ ''-test-suite.cc'']) (format_with TEST_CC_TEMPLATE (m @ [(''CAPITALIZED'', capitalize modname)])),
          Make_Dir (moduledir @ [''helper'']),
          Write_File (moduledir @ [''helper'', modname @ ''-helper.cc'']) (format_with HELPER_CC_TEMPLATE m),
          Write_File (moduledir @ [''helper'', modname @ ''-helper.h'']) (format_with HELPER_H_TEMPLATE (m @ [guard ''_HELPER_H__''])),
          Make_Dir (moduledir @ [''examples'']),
          Write_File (moduledir @ [''examples'', ''wscript'']) (format_with EXAMPLES_WSCRIPT_TEMPLATE m),
          Write_File (moduledir @ [''examples'', modname @ ''-example.cc'']) (format_with EXAMPLE_CC_TEMPLATE m),
          Make_Dir (moduledir @ [''doc'']),
          Write_File (moduledir @ [''doc'', modname @ ''.rst'']) (format_with DOC_RST_TEMPLATE m)])"

text \<open>The exit status or the exception; \<open>dir\<close> is the directory of the script.\<close>

definition create_module :: "string list \<Rightarrow> path \<Rightarrow> file_system \<Rightarrow> int res \<times> file_system" where
  "create_module args dir fs =
     (case args of
        [modname] \<Rightarrow>
          if CHR ''/'' \<in> set modname then (Inl AssertionError, fs)
          else (let moduledir = child dir modname
                in if fs moduledir \<noteq> None then (Inr 2, fs)
                   else (case perform_all (module_actions moduledir modname) fs of
                           (fs1, None) \<Rightarrow> (Inr 0, fs1)
                         | (fs1, Some e) \<Rightarrow> (Inl e, fs1)))
      | _ \<Rightarrow> (Inr 1, fs))"

section \<open>Lemmas\<close>

definition fields_ok :: "string list \<Rightarrow> piece list \<Rightarrow> bool" where
  "fields_ok keys = list_all (\<lambda>p. case p of Bad_Format \<Rightarrow> False | Str_Of k \<Rightarrow> k \<in> set keys | Repr_Of k \<Rightarrow> k \<in> set keys | _ \<Rightarrow> True)"

lemma fields_ok_simps [simp]:
  "fields_ok keys []" "fields_ok keys (ps @ qs) \<longleftrightarrow> fields_ok keys ps \<and> fields_ok keys qs" "fields_ok keys (Char c # ps) = fields_ok keys ps"
  by (simp_all add: fields_ok_def)

lemma takeWhile_until: "drop (length (takeWhile P ds)) ds = x # r \<Longrightarrow> takeWhile P (ds @ b) = takeWhile P ds \<and> drop (length (takeWhile P ds)) (ds @ b) = x # r @ b"
  by (induction ds) auto

lemma pieces_append: "Bad_Format \<notin> set (pieces a) \<Longrightarrow> pieces (a @ b) = pieces a @ pieces b"
proof (induction a rule: pieces.induct)
  case (2 c cs)
  show ?case
  proof (cases "c = CHR ''%'' \<and> cs \<noteq> [] \<and> hd cs \<noteq> CHR ''%''")
    case True
    then obtain ds where cs: "cs = CHR ''('' # ds" using 2(5) by (cases cs) (auto split: if_splits)
    let ?P = "\<lambda>x. x \<noteq> CHR '')''" and ?k = "takeWhile (\<lambda>x. x \<noteq> CHR '')'') ds"
    obtain x f rest where r: "drop (length ?k) ds = x # f # rest"
      using 2(5) True cs by (auto simp: Let_def split: list.splits)
    note t = takeWhile_until [OF r]
    show ?thesis using 2 True cs r t by (auto simp: Let_def)
  next
    case False
    then show ?thesis using 2 by (cases cs) (auto split: if_splits)
  qed
qed simp

lemma fields_ok_unlines: "list_all (\<lambda>l. fields_ok keys (pieces l)) ls \<Longrightarrow> fields_ok keys (pieces (unlines ls))"
proof (induction ls)
  case (Cons l ls)
  have l: "fields_ok keys (pieces l)" using Cons.prems by simp
  then have "Bad_Format \<notin> set (pieces l)" by (auto simp: fields_ok_def list_all_iff)
  with l Cons show ?case by (simp add: unlines_def pieces_append)
qed (simp add: unlines_def)

text \<open>Every template uses only the fields it is given.\<close>

lemma templates_ok:
  "fields_ok [''MODULE''] (pieces WSCRIPT_TEMPLATE)"
  "fields_ok [''MODULE''] (pieces MODEL_CC_TEMPLATE)"
  "fields_ok [''MODULE'', ''INCLUDE_GUARD''] (pieces MODEL_H_TEMPLATE)"
  "fields_ok [''MODULE''] (pieces HELPER_CC_TEMPLATE)"
  "fields_ok [''MODULE'', ''INCLUDE_GUARD''] (pieces HELPER_H_TEMPLATE)"
  "fields_ok [''MODULE''] (pieces EXAMPLES_WSCRIPT_TEMPLATE)"
  "fields_ok [''MODULE''] (pieces EXAMPLE_CC_TEMPLATE)"
  "fields_ok [''MODULE'', ''CAPITALIZED''] (pieces TEST_CC_TEMPLATE)"
  "fields_ok [''MODULE''] (pieces DOC_RST_TEMPLATE)"
  unfolding WSCRIPT_TEMPLATE_def MODEL_CC_TEMPLATE_def MODEL_H_TEMPLATE_def HELPER_CC_TEMPLATE_def HELPER_H_TEMPLATE_def
    EXAMPLES_WSCRIPT_TEMPLATE_def EXAMPLE_CC_TEMPLATE_def TEST_CC_TEMPLATE_def DOC_RST_TEMPLATE_def
  by (rule fields_ok_unlines, code_simp)+

text \<open>What a template says for given fields, and that \<open>format_with\<close> gives it.\<close>

fun piece_text :: "(string \<times> string) list \<Rightarrow> piece \<Rightarrow> string" where
  "piece_text d (Char c) = [c]"
| "piece_text d (Str_Of k) = the (map_of d k)"
| "piece_text d (Repr_Of k) = py_repr (the (map_of d k))"
| "piece_text d Bad_Format = []"

definition template_text :: "string \<Rightarrow> (string \<times> string) list \<Rightarrow> string" where
  "template_text template d = concat (map (piece_text d) (pieces template))"

lemma fill_text: "fields_ok (map fst d) ps \<Longrightarrow> fill d ps = Inr (concat (map (piece_text d) ps))"
proof (induction ps)
  case (Cons p ps)
  have "\<exists>v. map_of d k = Some v" if "k \<in> set (map fst d)" for k using that by (metis map_of_eq_None_iff not_None_eq set_map)
  with Cons show ?case by (cases p) (fastforce simp: fields_ok_def dict_get_def)+
qed simp

lemma format_text: "fields_ok (map fst d) (pieces template) \<Longrightarrow> format_with template d = Inr (template_text template d)"
  by (simp add: format_with_def fill_text template_text_def)

text \<open>Actions change nothing but their own paths.\<close>

fun path_of :: "action \<Rightarrow> path" where
  "path_of (Make_Dir p) = p"
| "path_of (Write_File p content) = p"

lemma perform_other: "p \<noteq> path_of a \<Longrightarrow> fst (perform a fs) p = fs p"
  by (cases a) (auto split: sum.split)

lemma perform_all_other: "p \<notin> path_of ` set as \<Longrightarrow> fst (perform_all as fs) p = fs p"
proof (induction as arbitrary: fs)
  case (Cons a as)
  obtain fs1 e where a: "perform a fs = (fs1, e)" by fastforce
  with Cons.prems perform_other [of p a fs] have "fs1 p = fs p" by simp
  with Cons show ?case by (simp add: a split: option.split)
qed simp

definition tree_ok :: "file_system \<Rightarrow> bool" where
  "tree_ok fs \<longleftrightarrow> fs [] = Some Directory \<and> (\<forall>p n. fs (p @ [n]) \<noteq> None \<longrightarrow> fs p = Some Directory)"

lemma nothing_below: "tree_ok fs \<Longrightarrow> fs p = None \<Longrightarrow> fs (p @ q) = None"
proof (induction q rule: rev_induct)
  case (snoc n q)
  then have "fs (p @ q) \<noteq> Some Directory" by simp
  with snoc.prems(1) show ?case unfolding tree_ok_def by (metis append_assoc)
qed simp

lemma tree_set:
  assumes "tree_ok fs" and "fs q = Some Directory" and "fs (q @ [n]) \<noteq> Some Directory"
  shows "tree_ok (fs(q @ [n] \<mapsto> x))"
  unfolding tree_ok_def
proof (intro conjI allI impI)
  show "(fs(q @ [n] \<mapsto> x)) [] = Some Directory" using assms(1) by (simp add: tree_ok_def)
  fix r k assume "(fs(q @ [n] \<mapsto> x)) (r @ [k]) \<noteq> None"
  moreover have "fs r = Some Directory" if "fs (r @ [k]) \<noteq> None" using that assms(1) unfolding tree_ok_def by blast
  ultimately have "fs r = Some Directory" using assms(2) by (cases "r @ [k] = q @ [n]") (simp_all split: if_splits)
  with assms(3) show "(fs(q @ [n] \<mapsto> x)) r = Some Directory" by auto
qed

lemma perform_tree: "tree_ok fs \<Longrightarrow> tree_ok (fst (perform a fs))"
proof (cases a)
  case (Make_Dir p)
  assume "tree_ok fs"
  with Make_Dir show ?thesis by (cases p rule: rev_cases) (auto intro: tree_set)
next
  case (Write_File p content)
  assume "tree_ok fs"
  with Write_File show ?thesis by (cases p rule: rev_cases) (auto intro: tree_set split: sum.split)
qed

lemma perform_all_tree: "tree_ok fs \<Longrightarrow> tree_ok (fst (perform_all as fs))"
proof (induction as arbitrary: fs)
  case (Cons a as)
  obtain fs1 e where a: "perform a fs = (fs1, e)" by fastforce
  with perform_tree [OF Cons.prems, of a] have "tree_ok fs1" by simp
  with Cons.IH show ?case by (simp add: a split: option.split)
qed simp

lemma module_paths: "p \<in> path_of ` set (module_actions moduledir m) \<Longrightarrow> \<exists>q. p = moduledir @ q"
  by (auto simp: module_actions_def Let_def)

section \<open>Properties\<close>

text \<open>Whatever its arguments are and however it ends, the program changes no file and no directory that was there before, and the
  file system stays a tree.\<close>

theorem nothing_overwritten:
  assumes "tree_ok fs"
  shows "case create_module args dir fs of (r, fs') \<Rightarrow> tree_ok fs' \<and> (\<forall>p. fs' p = fs p \<or> fs p = None)"
proof -
  have "tree_ok (fst (perform_all (module_actions (child dir m) m) fs)) \<and>
      (\<forall>p. fst (perform_all (module_actions (child dir m) m) fs) p = fs p \<or> fs p = None)" if "fs (child dir m) = None" for m
  proof (intro conjI allI)
    show "tree_ok (fst (perform_all (module_actions (child dir m) m) fs))" by (rule perform_all_tree [OF assms])
    show "fst (perform_all (module_actions (child dir m) m) fs) p = fs p \<or> fs p = None" for p
    proof (cases "p \<in> path_of ` set (module_actions (child dir m) m)")
      case True
      from module_paths [OF this] nothing_below [OF assms that] show ?thesis by auto
    qed (simp add: perform_all_other)
  qed
  then have c: "case perform_all (module_actions (child dir m) m) fs of (fs', e) \<Rightarrow> tree_ok fs' \<and> (\<forall>p. fs' p = fs p \<or> fs p = None)"
    if "fs (child dir m) = None" for m using that by (simp add: split_def)
  have m: "case create_module [m] dir fs of (r, fs') \<Rightarrow> tree_ok fs' \<and> (\<forall>p. fs' p = fs p \<or> fs p = None)" for m
  proof (cases "CHR ''/'' \<notin> set m \<and> fs (child dir m) = None")
    case True
    moreover obtain fs' e where "perform_all (module_actions (child dir m) m) fs = (fs', e)" by fastforce
    ultimately show ?thesis using c [of m] by (cases e) (simp_all add: create_module_def)
  qed (use assms in \<open>auto simp: create_module_def Let_def\<close>)
  show ?thesis
  proof (cases "\<exists>m. args = [m]")
    case True
    then obtain m1 where "args = [m1]" by blast
    with m [of m1] show ?thesis by simp
  next
    case False
    then have "create_module args dir fs = (Inr 1, fs)" by (auto simp: create_module_def split: list.split)
    with assms show ?thesis by simp
  qed
qed

theorem nothing_overwritten_witness:
  "case create_module [''wifi''] [''src''] [[] \<mapsto> Directory, [''src''] \<mapsto> Directory, [''src'', ''wscript''] \<mapsto> Text_File ''x''] of
     (r, fs') \<Rightarrow> tree_ok fs' \<and> (\<forall>p. fs' p = [[] \<mapsto> Directory, [''src''] \<mapsto> Directory, [''src'', ''wscript''] \<mapsto> Text_File ''x''] p \<or>
       [[] \<mapsto> Directory, [''src''] \<mapsto> Directory, [''src'', ''wscript''] \<mapsto> Text_File ''x''] p = None)"
  by (rule nothing_overwritten) (simp add: tree_ok_def)

text \<open>The files and directories of a module.\<close>

definition module_tree :: "path \<Rightarrow> string \<Rightarrow> (path \<times> fs_node) list" where
  "module_tree d m =
     (let file = (\<lambda>template fields. Text_File (template_text template ((''MODULE'', m) # fields)));
          guard = (\<lambda>suffix. (''INCLUDE_GUARD'', ''__'' @ upper m @ suffix))
      in [(d, Directory), (d @ [''wscript''], file WSCRIPT_TEMPLATE []),
          (d @ [''model''], Directory), (d @ [''model'', m @ ''.cc''], file MODEL_CC_TEMPLATE []),
          (d @ [''model'', m @ ''.h''], file MODEL_H_TEMPLATE [guard ''_H__'']),
          (d @ [''test''], Directory), (d @ [''test'', m @ ''-test-suite.cc''], file TEST_CC_TEMPLATE [(''CAPITALIZED'', capitalize m)]),
          (d @ [''helper''], Directory), (d @ [''helper'', m @ ''-helper.cc''], file HELPER_CC_TEMPLATE []),
          (d @ [''helper'', m @ ''-helper.h''], file HELPER_H_TEMPLATE [guard ''_HELPER_H__'']),
          (d @ [''examples''], Directory), (d @ [''examples'', ''wscript''], file EXAMPLES_WSCRIPT_TEMPLATE []),
          (d @ [''examples'', m @ ''-example.cc''], file EXAMPLE_CC_TEMPLATE []),
          (d @ [''doc''], Directory), (d @ [''doc'', m @ ''.rst''], file DOC_RST_TEMPLATE [])])"

fun action_of :: "path \<times> fs_node \<Rightarrow> action" where
  "action_of (p, Directory) = Make_Dir p"
| "action_of (p, Text_File t) = Write_File p (Inr t)"

text \<open>New entries, each in a directory that is there or is made before it.\<close>

fun plan_ok :: "path set \<Rightarrow> (path \<times> fs_node) list \<Rightarrow> bool" where
  "plan_ok dirs [] = True"
| "plan_ok dirs ((p, n) # es) \<longleftrightarrow>
     p \<noteq> [] \<and> butlast p \<in> dirs \<and> p \<notin> fst ` set es \<and> plan_ok (if n = Directory then insert p dirs else dirs) es"

lemma plan_performed:
  "plan_ok dirs es \<Longrightarrow> \<forall>d \<in> dirs. fs d = Some Directory \<Longrightarrow> \<forall>p \<in> fst ` set es. fs p = None \<Longrightarrow>
    perform_all (map action_of es) fs = (\<lambda>p. case map_of es p of Some n \<Rightarrow> Some n | None \<Rightarrow> fs p, None)"
proof (induction es arbitrary: fs dirs)
  case (Cons e es)
  obtain p n where e: "e = (p, n)" by (cases e)
  let ?fs = "fs(p \<mapsto> n)"
  have a: "perform (action_of e) fs = (?fs, None)" using Cons.prems by (cases n) (simp_all add: e)
  have "p \<notin> dirs" using Cons.prems(2,3) by (auto simp: e)
  then have "\<forall>d \<in> (if n = Directory then insert p dirs else dirs). ?fs d = Some Directory" using Cons.prems(2) by auto
  moreover have "\<forall>q \<in> fst ` set es. ?fs q = None" using Cons.prems(1,3) by (auto simp: e)
  ultimately have "perform_all (map action_of es) ?fs = (\<lambda>q. case map_of es q of Some n \<Rightarrow> Some n | None \<Rightarrow> ?fs q, None)"
    by (intro Cons.IH) (use Cons.prems(1) in \<open>simp_all add: e\<close>)
  moreover have "map_of es p = None" using Cons.prems(1) by (simp add: e map_of_eq_None_iff)
  ultimately show ?case using a by (auto simp: e fun_eq_iff split: option.split)
qed simp

lemma module_plan: "module_actions d m = map action_of (module_tree d m)"
  using templates_ok by (simp add: module_actions_def module_tree_def Let_def format_text)

lemma module_tree_ok: "plan_ok {q} (module_tree (q @ [m]) m)"
  by (simp add: module_tree_def Let_def butlast_append)

lemma module_performed:
  assumes "tree_ok fs" and "fs q = Some Directory" and "fs (q @ [m]) = None"
  shows "perform_all (module_actions (q @ [m]) m) fs = (\<lambda>p. case map_of (module_tree (q @ [m]) m) p of Some n \<Rightarrow> Some n | None \<Rightarrow> fs p, None)"
  unfolding module_plan
proof (rule plan_performed [OF module_tree_ok])
  show "\<forall>d \<in> {q}. fs d = Some Directory" using assms(2) by simp
  show "\<forall>p \<in> fst ` set (module_tree (q @ [m]) m). fs p = None"
  proof
    fix p assume "p \<in> fst ` set (module_tree (q @ [m]) m)"
    then have "\<exists>r. p = (q @ [m]) @ r" by (auto simp: module_tree_def Let_def)
    with nothing_below [OF assms(1,3)] show "fs p = None" by (metis append_assoc)
  qed
qed

text \<open>What a \<open>wscript\<close> names, read off its lines: the entries of every list that is assigned to a \<open>source\<close>, or the one file that is,
  and the directories added with \<open>add_subdirs\<close>, each the text between the first two quotes of a line.\<close>

definition quoted :: "string \<Rightarrow> string" where
  "quoted l = takeWhile (\<lambda>c. c \<noteq> CHR 0x27) (drop 1 (dropWhile (\<lambda>c. c \<noteq> CHR 0x27) l))"

definition assigns_source :: "string \<Rightarrow> bool" where
  "assigns_source l \<longleftrightarrow> (case split_on CHR ''.'' (takeWhile (\<lambda>c. c \<noteq> CHR ''='') l) of [a, b] \<Rightarrow> b = ''source '' | _ \<Rightarrow> False)"

fun named_sources :: "bool \<Rightarrow> string list \<Rightarrow> string list" where
  "named_sources in_list [] = []"
| "named_sources in_list (l # ls) =
     (if in_list then if dropWhile (\<lambda>c. c = CHR '' '') l = '']'' then named_sources False ls else quoted l # named_sources True ls
      else if assigns_source l then
        if dropWhile (\<lambda>c. c \<noteq> CHR ''='') l = ''= ['' then named_sources True ls else quoted l # named_sources False ls
      else named_sources False ls)"

definition adds_subdir :: "string \<Rightarrow> bool" where
  "adds_subdir l \<longleftrightarrow> startswith (dropWhile (\<lambda>c. c = CHR '' '') l) ''bld.add_subdirs(''"

definition sources_of :: "string \<Rightarrow> path list" where
  "sources_of txt = map (split_on CHR ''/'') (named_sources False (split_on CHR 0x0A txt))"

definition subdirs_of :: "string \<Rightarrow> path list" where
  "subdirs_of txt = map (\<lambda>l. split_on CHR ''/'' (quoted l)) (filter adds_subdir (split_on CHR 0x0A txt))"

text \<open>A name that stands for itself in a line and between quotes.\<close>

definition plain_name :: "string \<Rightarrow> bool" where
  "plain_name m \<longleftrightarrow> list_all (\<lambda>c. c \<notin> {CHR ''/'', CHR 0x27, CHR 0x5C, CHR 0x0A, CHR 0x0D}) m"

lemma plain_nameD: "plain_name m \<Longrightarrow> c \<in> {CHR ''/'', CHR 0x27, CHR 0x0A} \<Longrightarrow> c \<notin> set m"
  by (auto simp: plain_name_def list_all_iff)

lemma repr_newline: "plain_name m \<Longrightarrow> CHR 0x0A \<notin> set (py_repr m)"
proof -
  assume m: "plain_name m"
  have n: "of_char c \<noteq> (10 :: nat)" if "c \<noteq> CHR 0x0A" for c
    using that of_char_eq_iff [where 'a = nat, of c "CHR 0x0A"] by simp
  have h: "hex_digit k \<noteq> CHR 0x0A" if "k < 16" for k
  proof
    assume "hex_digit k = CHR 0x0A"
    then have "of_char (hex_digit k) = (10 :: nat)" by simp
    with that show False by (simp add: hex_digit_def split: if_splits)
  qed
  have "CHR 0x0A \<notin> set (repr_char q c)" if "c \<noteq> CHR 0x0A" for q c
    using that n [OF that] h [of "of_char c div 16"] h [of "of_char c mod 16"] less_mult_imp_div_less [of "of_char c" 16 16]
    by (auto simp: repr_char_def Let_def)
  moreover have "c \<noteq> CHR 0x0A" if "c \<in> set m" for c using plain_nameD [OF m, of "CHR 0x0A"] that by auto
  ultimately show ?thesis by (auto simp: py_repr_def Let_def)
qed

lemma template_unlines:
  assumes "list_all (\<lambda>l. Bad_Format \<notin> set (pieces l)) ls"
  shows "template_text (unlines ls) d = unlines (map (\<lambda>l. template_text l d) ls)"
  using assms
proof (induction ls)
  case (Cons l ls)
  have "unlines (l # ls) = l @ CHR 0x0A # unlines ls" by (simp add: unlines_def)
  moreover have "template_text (l @ CHR 0x0A # unlines ls) d = template_text l d @ CHR 0x0A # template_text (unlines ls) d"
    using Cons.prems by (simp add: template_text_def pieces_append)
  ultimately show ?case using Cons by (simp add: unlines_def)
qed (simp add: unlines_def template_text_def)

lemma split_unlines: "list_all (\<lambda>l. CHR 0x0A \<notin> set l) ls \<Longrightarrow> split_on CHR 0x0A (unlines ls) = ls @ [[]]"
  by (induction ls) (simp_all add: unlines_def split_on_append)

text \<open>The lines of a template that is filled.\<close>

lemma no_fields_pieces: "CHR ''%'' \<notin> set l \<Longrightarrow> pieces l = map Char l"
  by (induction l) auto

lemma no_fields_text: "CHR ''%'' \<notin> set l \<Longrightarrow> template_text l d = l"
  by (simp add: template_text_def no_fields_pieces comp_def)

lemma pieces_chars: "Char c \<in> set (pieces l) \<Longrightarrow> c \<in> set l"
proof (induction l rule: pieces.induct)
  case (2 x cs)
  show ?case
  proof (cases "x = CHR ''%'' \<and> cs \<noteq> [] \<and> hd cs = CHR ''(''")
    case True
    then obtain ds where cs: "cs = CHR ''('' # ds" by (cases cs) auto
    let ?k = "takeWhile (\<lambda>x. x \<noteq> CHR '')'') ds"
    have "\<exists>y f rest. drop (length ?k) ds = y # f # rest \<and> Char c \<in> set (pieces rest)"
      using 2(5) True cs by (auto simp: Let_def split: list.splits if_splits)
    then obtain y f rest where r: "drop (length ?k) ds = y # f # rest" "Char c \<in> set (pieces rest)" by blast
    have f: "f = CHR ''s'' \<or> f = CHR ''r''" using 2(5) True cs r(1) by (auto simp: Let_def split: if_splits)
    have "c \<in> set rest" using 2(3,4) True cs r f by (auto simp: Let_def)
    then have "c \<in> set (drop (length ?k) ds)" by (simp add: r(1))
    then show ?thesis by (auto simp: cs dest: in_set_dropD)
  next
    case False
    then show ?thesis using 2 by (cases cs) (auto split: if_splits)
  qed
qed simp

lemma text_newline:
  assumes "plain_name m" and "CHR 0x0A \<notin> set l" and "fields_ok [''MODULE''] (pieces l)"
  shows "CHR 0x0A \<notin> set (template_text l [(''MODULE'', m)])"
proof -
  have c: "Char (CHR 0x0A) \<notin> set (pieces l)" using pieces_chars [of "CHR 0x0A" l] assms(2) by blast
  have "CHR 0x0A \<notin> set (piece_text [(''MODULE'', m)] p)" if p: "p \<in> set (pieces l)" for p
  proof -
    have "case p of Bad_Format \<Rightarrow> False | Str_Of k \<Rightarrow> k \<in> set [''MODULE''] | Repr_Of k \<Rightarrow> k \<in> set [''MODULE''] | _ \<Rightarrow> True"
      using assms(3) p unfolding fields_ok_def list_all_iff by blast
    with c p plain_nameD [OF assms(1), of "CHR 0x0A"] repr_newline [OF assms(1)] show ?thesis by (cases p) auto
  qed
  then show ?thesis by (auto simp: template_text_def)
qed

lemma template_lines:
  assumes "plain_name m" and "list_all (\<lambda>l. fields_ok [''MODULE''] (pieces l) \<and> CHR 0x0A \<notin> set l) ls"
  shows "split_on CHR 0x0A (template_text (unlines ls) [(''MODULE'', m)]) = map (\<lambda>l. template_text l [(''MODULE'', m)]) ls @ [[]]"
proof -
  have "Bad_Format \<notin> set (pieces l)" if "fields_ok keys (pieces l)" for keys l using that by (auto simp: fields_ok_def list_all_iff)
  then have b: "list_all (\<lambda>l. Bad_Format \<notin> set (pieces l)) ls" using assms(2) unfolding list_all_iff by blast
  have "list_all (\<lambda>l. CHR 0x0A \<notin> set l) (map (\<lambda>l. template_text l [(''MODULE'', m)]) ls)"
    using assms text_newline by (auto simp: list_all_iff)
  then show ?thesis unfolding template_unlines [OF b] by (rule split_unlines)
qed

lemma field_lines:
  "template_text ''    module = bld.create_ns3_module(%(MODULE)r, [\\'core\\'])'' [(''MODULE'', m)]
    = ''    module = bld.create_ns3_module('' @ py_repr m @ '', [\\'core\\'])''"
  "template_text ''        \\'model/%(MODULE)s.cc\\','' [(''MODULE'', m)] = ''        \\'model/'' @ m @ ''.cc\\',''"
  "template_text ''        \\'helper/%(MODULE)s-helper.cc\\','' [(''MODULE'', m)] = ''        \\'helper/'' @ m @ ''-helper.cc\\',''"
  "template_text ''    module_test = bld.create_ns3_module_test_library(\\'%(MODULE)s\\')'' [(''MODULE'', m)]
    = ''    module_test = bld.create_ns3_module_test_library('' @ [CHR 0x27] @ m @ ''\\')''"
  "template_text ''        \\'test/%(MODULE)s-test-suite.cc\\','' [(''MODULE'', m)] = ''        \\'test/'' @ m @ ''-test-suite.cc\\',''"
  "template_text ''    headers.module = %(MODULE)r'' [(''MODULE'', m)] = ''    headers.module = '' @ py_repr m"
  "template_text ''        \\'model/%(MODULE)s.h\\','' [(''MODULE'', m)] = ''        \\'model/'' @ m @ ''.h\\',''"
  "template_text ''        \\'helper/%(MODULE)s-helper.h\\','' [(''MODULE'', m)] = ''        \\'helper/'' @ m @ ''-helper.h\\',''"
  "template_text ''    obj = bld.create_ns3_program(\\'%(MODULE)s-example\\', [%(MODULE)r])'' [(''MODULE'', m)]
    = ''    obj = bld.create_ns3_program('' @ [CHR 0x27] @ m @ ''-example\\', ['' @ py_repr m @ ''])''"
  "template_text (''    obj.source = \\'%(MODULE)s-example.cc'' @ [CHR 0x27]) [(''MODULE'', m)]
    = ''    obj.source = '' @ [CHR 0x27] @ m @ ''-example.cc'' @ [CHR 0x27]"
  by (simp_all add: template_text_def Let_def)

definition source_files :: "string \<Rightarrow> path list" where
  "source_files m = [[''model'', m @ ''.cc''], [''helper'', m @ ''-helper.cc''], [''test'', m @ ''-test-suite.cc''], [''model'', m @ ''.h''], [''helper'', m @ ''-helper.h'']]"

lemma wscript_names:
  assumes "plain_name m"
  shows "sources_of (template_text WSCRIPT_TEMPLATE [(''MODULE'', m)]) =
source_files m"
    and "subdirs_of (template_text WSCRIPT_TEMPLATE [(''MODULE'', m)]) = [[''examples'']]"
proof -
  have c: "CHR ''/'' \<notin> set m" "CHR 0x27 \<notin> set m" "\<And>x. x \<in> set m \<Longrightarrow> x \<noteq> CHR 0x27" using plain_nameD [OF assms] by auto
  have w: "split_on CHR 0x0A (template_text WSCRIPT_TEMPLATE [(''MODULE'', m)]) = map (\<lambda>l. template_text l [(''MODULE'', m)]) [''# -*- Mode: python; py-indent-offset: 4; indent-tabs-mode: nil; coding: utf-8; -*-'',
      '''',
      ''# def options(opt):'',
      ''#     pass'',
      '''',
      ''# def configure(conf):'',
      ''#     conf.check_nonfatal(header_name=\\'stdint.h\\', define_name=\\'HAVE_STDINT_H\\')'',
      '''',
      ''def build(bld):'',
      ''    module = bld.create_ns3_module(%(MODULE)r, [\\'core\\'])'',
      ''    module.source = ['',
      ''        \\'model/%(MODULE)s.cc\\','',
      ''        \\'helper/%(MODULE)s-helper.cc\\','',
      ''        ]'',
      '''',
      ''    module_test = bld.create_ns3_module_test_library(\\'%(MODULE)s\\')'',
      ''    module_test.source = ['',
      ''        \\'test/%(MODULE)s-test-suite.cc\\','',
      ''        ]'',
      '''',
      ''    headers = bld.new_task_gen(features=[\\'ns3header\\'])'',
      ''    headers.module = %(MODULE)r'',
      ''    headers.source = ['',
      ''        \\'model/%(MODULE)s.h\\','',
      ''        \\'helper/%(MODULE)s-helper.h\\','',
      ''        ]'',
      '''',
      ''    if bld.env.ENABLE_EXAMPLES:'',
      ''        bld.add_subdirs(\\'examples\\')'',
      '''',
      ''    # bld.ns3_python_bindings()'',
      ''''] @ [[]]"
    unfolding WSCRIPT_TEMPLATE_def by (rule template_lines [OF assms]) code_simp
  show "sources_of (template_text WSCRIPT_TEMPLATE [(''MODULE'', m)]) = source_files m"
    by (simp add: sources_of_def w field_lines no_fields_text quoted_def assigns_source_def takeWhile_append2 split_on_none c source_files_def)
  show "subdirs_of (template_text WSCRIPT_TEMPLATE [(''MODULE'', m)]) = [[''examples'']]"
    by (simp add: subdirs_of_def w field_lines no_fields_text quoted_def adds_subdir_def)
qed

lemma examples_names:
  assumes "plain_name m"
  shows "sources_of (template_text EXAMPLES_WSCRIPT_TEMPLATE [(''MODULE'', m)]) = [[m @ ''-example.cc'']]"
proof -
  have c: "CHR ''/'' \<notin> set m" "CHR 0x27 \<notin> set m" "\<And>x. x \<in> set m \<Longrightarrow> x \<noteq> CHR 0x27" using plain_nameD [OF assms] by auto
  have w: "split_on CHR 0x0A (template_text EXAMPLES_WSCRIPT_TEMPLATE [(''MODULE'', m)]) = map (\<lambda>l. template_text l [(''MODULE'', m)]) [''# -*- Mode: python; py-indent-offset: 4; indent-tabs-mode: nil; coding: utf-8; -*-'',
      '''',
      ''def build(bld):'',
      ''    obj = bld.create_ns3_program(\\'%(MODULE)s-example\\', [%(MODULE)r])'',
      ''    obj.source = \\'%(MODULE)s-example.cc'' @ [CHR 0x27],
      ''''] @ [[]]"
    unfolding EXAMPLES_WSCRIPT_TEMPLATE_def by (rule template_lines [OF assms]) code_simp
  show ?thesis
    by (simp add: sources_of_def w field_lines [simplified] no_fields_text quoted_def assigns_source_def takeWhile_append2 split_on_none c)
qed

text \<open>C40. For a name without slashes in a directory that has no such entry yet the program succeeds, and makes exactly the directories and
  files of a module, each file its template with the name in place of the fields.  Every source and header that the \<open>wscript\<close> of the
  module names is a file of it and nothing else is named (the sources of the model, the helper and the test, and both headers), the
  directory it adds is there, and so is the program that the \<open>wscript\<close> of that directory names; for these a name has no quote,
  backslash or end of line either.\<close>

theorem new_module_complete:
  assumes "tree_ok fs" and "fs dir = Some Directory" and "fs (dir @ [m]) = None" and "CHR ''/'' \<notin> set m"
    and "m \<noteq> []" and "m \<noteq> ''.''" and "m \<noteq> ''..''"
  shows "case create_module [m] dir fs of (r, fs') \<Rightarrow> r = Inr 0 \<and>
    fs' = (\<lambda>p. case map_of (module_tree (dir @ [m]) m) p of Some n \<Rightarrow> Some n | None \<Rightarrow> fs p) \<and>
    (plain_name m \<longrightarrow> (\<exists>w v. fs' (dir @ [m, ''wscript'']) = Some (Text_File w) \<and> fs' (dir @ [m, ''examples'', ''wscript'']) = Some (Text_File v) \<and>
       sources_of w = source_files m \<and> list_all (\<lambda>p. \<exists>t. fs' ((dir @ [m]) @ p) = Some (Text_File t)) (sources_of w) \<and>
       subdirs_of w = [[''examples'']] \<and> list_all (\<lambda>p. fs' ((dir @ [m]) @ p) = Some Directory) (subdirs_of w) \<and>
       sources_of v = [[m @ ''-example.cc'']] \<and> list_all (\<lambda>p. \<exists>t. fs' ((dir @ [m, ''examples'']) @ p) = Some (Text_File t)) (sources_of v)))"
proof -
  let ?t = "map_of (module_tree (dir @ [m]) m)"
  have c: "create_module [m] dir fs = (Inr 0, \<lambda>p. case ?t p of Some n \<Rightarrow> Some n | None \<Rightarrow> fs p)"
    using assms module_performed [OF assms(1-3)] by (simp add: create_module_def child_def)
  have w: "?t (dir @ [m, ''wscript'']) = Some (Text_File (template_text WSCRIPT_TEMPLATE [(''MODULE'', m)]))"
    "?t (dir @ [m, ''examples'', ''wscript'']) = Some (Text_File (template_text EXAMPLES_WSCRIPT_TEMPLATE [(''MODULE'', m)]))"
    by (simp_all add: module_tree_def Let_def)
  have f: "list_all (\<lambda>p. \<exists>t. ?t ((dir @ [m]) @ p) = Some (Text_File t)) (source_files m)"
    "list_all (\<lambda>p. ?t ((dir @ [m]) @ p) = Some Directory) [[''examples'']]"
    "list_all (\<lambda>p. \<exists>t. ?t ((dir @ [m, ''examples'']) @ p) = Some (Text_File t)) [[m @ ''-example.cc'']]"
    by (simp_all add: source_files_def module_tree_def Let_def)
  let ?fs = "\<lambda>p. case ?t p of Some n \<Rightarrow> Some n | None \<Rightarrow> fs p"
  have g: "list_all (\<lambda>p. \<exists>t. ?fs ((dir @ [m]) @ p) = Some (Text_File t)) (source_files m)"
    "list_all (\<lambda>p. ?fs ((dir @ [m]) @ p) = Some Directory) [[''examples'']]"
    "list_all (\<lambda>p. \<exists>t. ?fs ((dir @ [m, ''examples'']) @ p) = Some (Text_File t)) [[m @ ''-example.cc'']]"
    by (rule list.pred_mono_strong, rule f, fastforce)+
  have "?fs (dir @ [m, ''wscript'']) = Some (Text_File (template_text WSCRIPT_TEMPLATE [(''MODULE'', m)]))"
    "?fs (dir @ [m, ''examples'', ''wscript'']) = Some (Text_File (template_text EXAMPLES_WSCRIPT_TEMPLATE [(''MODULE'', m)]))"
    by (simp_all only: w option.case)
  note h = this
  have "\<exists>w v. ?fs (dir @ [m, ''wscript'']) = Some (Text_File w) \<and> ?fs (dir @ [m, ''examples'', ''wscript'']) = Some (Text_File v) \<and>
       sources_of w = source_files m \<and> list_all (\<lambda>p. \<exists>t. ?fs ((dir @ [m]) @ p) = Some (Text_File t)) (sources_of w) \<and>
       subdirs_of w = [[''examples'']] \<and> list_all (\<lambda>p. ?fs ((dir @ [m]) @ p) = Some Directory) (subdirs_of w) \<and>
       sources_of v = [[m @ ''-example.cc'']] \<and> list_all (\<lambda>p. \<exists>t. ?fs ((dir @ [m, ''examples'']) @ p) = Some (Text_File t)) (sources_of v)"
    if p: "plain_name m"
    by (rule exI, rule exI, rule conjI, rule h(1), rule conjI, rule h(2))
      (unfold wscript_names [OF p] examples_names [OF p], intro conjI refl g)
  then show ?thesis unfolding c prod.case by blast
qed

theorem new_module_complete_witness:
  "\<exists>fs' w. create_module [''wifi''] [''src''] [[] \<mapsto> Directory, [''src''] \<mapsto> Directory] = (Inr 0, fs') \<and> fs' [''src'', ''wifi'', ''doc''] = Some Directory \<and>
    fs' [''src'', ''wifi'', ''wscript''] = Some (Text_File w) \<and> [''helper'', ''wifi-helper.h''] \<in> set (sources_of w)"
proof -
  let ?fs = "[[] \<mapsto> Directory, [''src''] \<mapsto> Directory]"
  have t: "tree_ok ?fs" by (simp add: tree_ok_def)
  have p: "plain_name ''wifi''" by code_simp
  obtain fs' where c: "create_module [''wifi''] [''src''] ?fs = (Inr 0, fs')"
    and f: "fs' = (\<lambda>p. case map_of (module_tree ([''src''] @ [''wifi'']) ''wifi'') p of Some n \<Rightarrow> Some n | None \<Rightarrow> ?fs p)"
    and w: "\<exists>w. fs' [''src'', ''wifi'', ''wscript''] = Some (Text_File w) \<and> sources_of w = source_files ''wifi''"
    using new_module_complete [OF t, of "[''src'']" "''wifi''"] p
    by (cases "create_module [''wifi''] [''src''] ?fs") auto
  have "fs' [''src'', ''wifi'', ''doc''] = Some Directory" unfolding f by (simp add: module_tree_def Let_def)
  with c w show ?thesis by (auto simp: source_files_def)
qed

text \<open>The guard of the header is an identifier of C++ only when the name is made of letters, digits and underscores: a module like
  \<open>point-to-point\<close> gets a header that does not compile.\<close>

definition identifier_char :: "char \<Rightarrow> bool" where
  "identifier_char c \<longleftrightarrow> is_digit c \<or> c = CHR ''_'' \<or> (65 \<le> code c \<and> code c \<le> 90) \<or> (97 \<le> code c \<and> code c \<le> 122)"

lemma guard_of_dashed: "\<not> list_all identifier_char (''__'' @ upper ''point-to-point'' @ ''_H__'')"
  by code_simp

end
