(* ===== verification/Link_Monitor.thy ===== *)
theory Link_Monitor
  imports Topo_File Qlen_Monitor "HOL-Library.List_Lexorder" "HOL-Library.Char_ord"
begin

text \<open>
  \<open>plot_link_util.py\<close>: the throughput and the use of each port over time, and the names of the two figures; and what
  \<open>plot_qlen_exp2.py\<close> plots of the queue monitor, whose reader is that of \<open>plot_qlen.py\<close>.  \<open>flt\<close> is Python's \<open>float\<close> on strings.
  Figures are what is handed to matplotlib.
\<close>

section \<open>The reader\<close>

record series =
  times :: "int list"
  throughput :: "rat list"
  utilization :: "rat list"

type_synonym port_data = "(string, series) dict"

definition no_series :: series where
  "no_series = \<lparr>times = [], throughput = [], utilization = []\<rparr>"

definition link_label :: "int list \<Rightarrow> int \<Rightarrow> int \<Rightarrow> string" where
  "link_label switches n p = (if n \<in> set switches then ''SW'' else ''H'') @ show_int n @ ''-P'' @ show_int p"

definition add_reading :: "string \<Rightarrow> int \<Rightarrow> rat \<Rightarrow> rat \<Rightarrow> port_data \<Rightarrow> port_data" where
  "add_reading label t tx util d =
     (let s = (case map_of d label of None \<Rightarrow> no_series | Some s \<Rightarrow> s)
      in dict_set label \<lparr>times = times s @ [t], throughput = throughput s @ [tx], utilization = utilization s @ [util]\<rparr> d)"

text \<open>A line of data, at a time that is known: fewer than five words are ignored.\<close>

definition link_row :: "(string \<Rightarrow> rat res) \<Rightarrow> int list \<Rightarrow> int \<Rightarrow> string \<Rightarrow> port_data \<Rightarrow> port_data res" where
  "link_row flt switches t line d =
     (case split_ws line of
        a # b # _ # x # y # _ \<Rightarrow>
          bind_res (py_int a) (\<lambda>n. bind_res (py_int b) (\<lambda>p. bind_res (flt x) (\<lambda>tx. bind_res (flt y) (\<lambda>util.
            Inr (add_reading (link_label switches n p) t tx util d)))))
      | _ \<Rightarrow> Inr d)"

fun link_lines :: "(string \<Rightarrow> rat res) \<Rightarrow> int list \<Rightarrow> int option \<Rightarrow> port_data \<Rightarrow> string list \<Rightarrow> port_data res" where
  "link_lines flt switches cur d [] = Inr d"
| "link_lines flt switches cur d (raw # ls) =
     (let line = strip raw
      in if line = [] \<or> startswith line ''#'' then link_lines flt switches cur d ls
         else if startswith line ''time:'' then bind_res (py_int (strip (drop 5 line))) (\<lambda>t. link_lines flt switches (Some t) d ls)
         else (case cur of
             None \<Rightarrow> link_lines flt switches cur d ls
           | Some t \<Rightarrow> bind_res (link_row flt switches t line d) (\<lambda>d. link_lines flt switches cur d ls)))"

definition parse_link_util :: "(string \<Rightarrow> rat res) \<Rightarrow> string list \<Rightarrow> int list \<Rightarrow> port_data res" where
  "parse_link_util flt ls switches = link_lines flt switches None [] ls"

section \<open>The figures\<close>

datatype line_style = Solid | Dashed

text \<open>The curves of a figure: labels in order, those included (an empty set includes all), hosts with a solid line.\<close>

definition link_curves :: "(series \<Rightarrow> rat list) \<Rightarrow> string list \<Rightarrow> port_data \<Rightarrow> (string \<times> line_style \<times> (int \<times> rat) list) list" where
  "link_curves field include_labels d =
     concat (map (\<lambda>label. case map_of d label of
          None \<Rightarrow> []
        | Some s \<Rightarrow>
            if include_labels \<noteq> [] \<and> label \<notin> set include_labels \<or> times s = [] then []
            else [(label, if startswith label ''H'' then Solid else Dashed, zip (times s) (field s))])
       (sort (dict_keys d)))"

text \<open>A path is the list of its parts; \<open>stem\<close> and \<open>suffix\<close> split its name at the last dot, unless that is its first or last character.\<close>

definition path_name :: "string list \<Rightarrow> string" where
  "path_name p = (if p = [] then [] else last p)"

definition suffix :: "string \<Rightarrow> string" where
  "suffix name =
     (let after = takeWhile (\<lambda>c. c \<noteq> CHR ''.'') (rev name)
      in if after \<noteq> [] \<and> Suc (length after) < length name then CHR ''.'' # rev after else [])"

definition stem :: "string \<Rightarrow> string" where
  "stem name = take (length name - length (suffix name)) name"

definition make_output_paths :: "(string list \<Rightarrow> bool) \<Rightarrow> string list option \<Rightarrow> (string list \<times> string list) option" where
  "make_output_paths is_dir out =
     (case out of
        None \<Rightarrow> None
      | Some p \<Rightarrow>
          if is_dir p then Some (p @ [''link_util_throughput.png''], p @ [''link_util_utilization.png''])
          else let name = path_name p; parent = butlast p
               in if suffix name \<noteq> [] then Some (parent @ [stem name @ ''_throughput'' @ suffix name], parent @ [stem name @ ''_utilization'' @ suffix name])
                  else Some (parent @ [name @ ''_throughput.png''], parent @ [name @ ''_utilization.png'']))"

text \<open>\<open>main\<close>: the two figures with the paths they are saved to.  \<open>SystemExit\<close> and other exceptions are not told apart.\<close>

definition link_main ::
    "(string \<Rightarrow> rat res) \<Rightarrow> (string list \<Rightarrow> bool) \<Rightarrow> string list \<Rightarrow> string list \<Rightarrow> string list \<Rightarrow> string list \<Rightarrow>
     ((string list \<times> (string \<times> line_style \<times> (int \<times> rat) list) list) \<times> (string list \<times> (string \<times> line_style \<times> (int \<times> rat) list) list)) res" where
  "link_main flt is_dir topology data out include_args =
     bind_res (parse_switch_nodes topology) (\<lambda>switches.
     bind_res (parse_link_util flt data switches) (\<lambda>d.
       if d = [] then Inl Exception
       else let include_labels = map canonical_link include_args
            in (case make_output_paths is_dir (Some out) of
                  None \<Rightarrow> Inl Exception
                | Some (p, q) \<Rightarrow> Inr ((p, link_curves throughput include_labels d), (q, link_curves utilization include_labels d)))))"

section \<open>The queues of experiment 2\<close>

definition exp2_queues :: "(string \<times> key) list" where
  "exp2_queues = [(''P2 (22-6)'', (22, 6)), (''P3 (26-1)'', (26, 1)), (''P4 (26-3)'', (26, 3)), (''P5 (24-17)'', (24, 17)), (''P6 (24-2)'', (24, 2))]"

text \<open>\<open>main\<close> of \<open>plot_qlen_exp2.py\<close>: the curves, or \<^const>\<open>None\<close> after one of its messages.\<close>

definition exp2_curves :: "(rat \<Rightarrow> rat) \<Rightarrow> string list option \<Rightarrow> (string \<times> (rat \<times> rat) list) list option res" where
  "exp2_curves fl file =
     (case file of
        None \<Rightarrow> Inr None
      | Some ls \<Rightarrow> bind_res (parse_qlen fl True ls) (\<lambda>(ts, q).
          let present = List.map_filter (\<lambda>(label, k). map_option (Pair label) (map_of q k)) exp2_queues
          in if ts = [] \<or> present = [] then Inr None
             else let n = Min (set (length ts # map (length \<circ> snd) present));
                      ms = take n (map (\<lambda>t. fl (of_int t / 1000000)) ts)
                  in Inr (Some (map (\<lambda>(label, s). (label, zip ms (map (\<lambda>x. fl (x / 1000)) (take n s)))) present))))"

section \<open>Reports of the simulator\<close>

text \<open>A report is a time and its rows: node, port, octets, and the texts of throughput and use.  This is how \<open>scratch/third.cc\<close> writes
  them.\<close>

type_synonym row = "nat \<times> nat \<times> nat \<times> string \<times> string"

definition is_word :: "string \<Rightarrow> bool" where
  "is_word w \<longleftrightarrow> w \<noteq> [] \<and> list_all (\<lambda>c. \<not> is_ws c) w"

definition row_line :: "row \<Rightarrow> string" where
  "row_line = (\<lambda>(n, p, b, x, y). show_nat n @ '' '' @ show_nat p @ '' '' @ show_nat b @ '' '' @ x @ '' '' @ y)"

definition print_monitor :: "(nat \<times> row list) list \<Rightarrow> string list" where
  "print_monitor reports =
     [''# Link Utilization Monitor'', ''# Format: time: <timestamp_ns>'', ''# node_id port_id tx_bytes_total tx_throughput_Gbps tx_util_percent''] @
     concat (map (\<lambda>(t, rows). (''time: '' @ show_nat t) # map row_line rows) reports)"

definition row_ok :: "(string \<Rightarrow> rat res) \<Rightarrow> (string \<Rightarrow> rat) \<Rightarrow> row \<Rightarrow> bool" where
  "row_ok flt v = (\<lambda>(n, p, b, x, y). is_word x \<and> is_word y \<and> flt x = Inr (v x) \<and> flt y = Inr (v y))"

text \<open>The readings of one port, in the order of the reports.\<close>

definition port_readings :: "nat \<Rightarrow> nat \<Rightarrow> (nat \<times> row list) list \<Rightarrow> (nat \<times> string \<times> string) list" where
  "port_readings n p reports =
     concat (map (\<lambda>(t, rows). map (\<lambda>(_, _, _, x, y). (t, x, y)) (filter (\<lambda>(n', p', _). n' = n \<and> p' = p) rows)) reports)"

section \<open>Lemmas\<close>

lemma split_ws_last: "is_word w \<Longrightarrow> split_ws w = [w]"
  using split_ws_word [of w "[]"] by (simp add: is_word_def)

lemma split_ws_next: "is_word w \<Longrightarrow> split_ws (w @ CHR '' '' # r) = w # split_ws r"
  using split_ws_word [of w "CHR '' '' # r"] by (simp add: is_word_def is_ws_def code_def split_ws_skip)

lemma show_nat_word [simp]: "is_word (show_nat n)"
  using show_nat_digits [of n] by (auto simp: is_word_def list_all_iff digit_not_ws)

lemma word_ends: "is_word w \<Longrightarrow> \<not> is_ws (hd w) \<and> \<not> is_ws (last w)"
  by (auto simp: is_word_def list_all_iff)

lemma hd_show_nat: "is_digit (hd (show_nat n))"
  by (rule show_nat_digit [of _ n]) simp

lemma strip_between: "is_word a \<Longrightarrow> is_word b \<Longrightarrow> strip (a @ m @ b) = a @ m @ b"
  using word_ends [of a] word_ends [of b] by (intro strip_id) (auto simp: is_word_def)

lemma row_line_strip: "row_ok flt v r \<Longrightarrow> strip (row_line r) = row_line r"
proof -
  obtain n p b x y where r: "r = (n, p, b, x, y)" by (cases r)
  assume "row_ok flt v r"
  then have "is_word y" by (simp add: r row_ok_def)
  from strip_between [OF show_nat_word this, of n "'' '' @ show_nat p @ '' '' @ show_nat b @ '' '' @ x @ '' ''"] show ?thesis
    by (simp add: r row_line_def)
qed

lemma row_line_start: "row_line r \<noteq> [] \<and> \<not> startswith (row_line r) ''#'' \<and> \<not> startswith (row_line r) ''time:''"
proof -
  obtain n p b x y where r: "r = (n, p, b, x, y)" by (cases r)
  obtain c cs where c: "show_nat n = c # cs" by (cases "show_nat n") auto
  with hd_show_nat [of n] have "is_digit c" by simp
  then have "c \<noteq> CHR ''#'' \<and> c \<noteq> CHR ''t''" by (auto simp: is_digit_def code_def)
  then show ?thesis by (simp add: r row_line_def c)
qed

lemma link_row_line:
  "row_ok flt v (n, p, b, x, y) \<Longrightarrow>
    link_row flt switches t (row_line (n, p, b, x, y)) d = Inr (add_reading (link_label switches (int n) (int p)) t (v x) (v y) d)"
  by (simp add: link_row_def row_line_def row_ok_def split_ws_next split_ws_last)

definition put_row :: "(string \<Rightarrow> rat) \<Rightarrow> int list \<Rightarrow> nat \<Rightarrow> row \<Rightarrow> port_data \<Rightarrow> port_data" where
  "put_row v switches t = (\<lambda>(n, p, b, x, y). add_reading (link_label switches (int n) (int p)) (int t) (v x) (v y))"

lemma rows_read:
  "list_all (row_ok flt v) rows \<Longrightarrow>
    link_lines flt switches (Some (int t)) d (map row_line rows @ ls) = link_lines flt switches (Some (int t)) (fold (put_row v switches t) rows d) ls"
proof (induction rows arbitrary: d)
  case (Cons r rows)
  obtain n p b x y where r: "r = (n, p, b, x, y)" by (cases r)
  have "row_ok flt v r" using Cons.prems by simp
  note s = row_line_strip [OF this] row_line_start [of r] link_row_line [OF this [unfolded r], of switches "int t" d, folded r]
  show ?case using Cons s by (simp add: put_row_def r Let_def)
qed simp

lemma time_line_strip: "strip (''time: '' @ show_nat t) = ''time: '' @ show_nat t"
proof -
  have "is_word ''time:''" by (simp add: is_word_def is_ws_def code_def)
  from strip_between [OF this show_nat_word, of "'' ''" t] show ?thesis by simp
qed

lemma time_value: "py_int (strip (drop 5 (''time: '' @ show_nat t))) = Inr (int t)"
proof -
  have "strip ('' '' @ show_nat t) = strip (show_nat t)" by (simp add: strip_def is_ws_def code_def)
  also have "\<dots> = show_nat t" using strip_between [OF show_nat_word show_nat_word] word_ends [OF show_nat_word [of t]] by (intro strip_id) simp
  finally show ?thesis by simp
qed

lemma reports_read:
  "list_all (\<lambda>(t, rows). list_all (row_ok flt v) rows) reports \<Longrightarrow>
    link_lines flt switches cur d (concat (map (\<lambda>(t, rows). (''time: '' @ show_nat t) # map row_line rows) reports)) =
    Inr (fold (\<lambda>(t, rows). fold (put_row v switches t) rows) reports d)"
proof (induction reports arbitrary: cur d)
  case (Cons r reports)
  obtain t rows where r: "r = (t, rows)" by (cases r)
  have "\<not> startswith (''time: '' @ show_nat t) ''#''" "startswith (''time: '' @ show_nat t) ''time:''" by simp_all
  with Cons show ?case using time_line_strip [of t] time_value [of t] rows_read [of flt v rows switches t] by (simp add: r Let_def)
qed simp

text \<open>The series of a port that has none yet is empty.\<close>

definition series_at :: "port_data \<Rightarrow> string \<Rightarrow> series" where
  "series_at d l = (case map_of d l of None \<Rightarrow> no_series | Some s \<Rightarrow> s)"

lemma series_add:
  "series_at (add_reading l t x y d) l' =
    (if l' = l then (let s = series_at d l in \<lparr>times = times s @ [t], throughput = throughput s @ [x], utilization = utilization s @ [y]\<rparr>) else series_at d l')"
  "map_of (add_reading l t x y d) l' = None \<longleftrightarrow> l' \<noteq> l \<and> map_of d l' = None"
  by (auto simp: series_at_def add_reading_def Let_def)

lemma show_int_no_P: "CHR ''P'' \<notin> set (show_int i)"
  using show_nat_digit [of "CHR ''P''"] by (auto simp: show_int_def is_digit_def code_def)

lemma show_int_inj: "show_int i = show_int j \<Longrightarrow> i = j"
  by (metis py_int_show_int sum.inject(2))

lemma link_label_inj: "link_label switches n p = link_label switches n' p' \<longleftrightarrow> n = n' \<and> p = p'"
proof
  let ?pre = "\<lambda>n. if n \<in> set switches then ''SW'' else ''H''" and ?t = "takeWhile (\<lambda>c. c \<noteq> CHR ''P'')"
  have t: "?t (link_label switches n p) = ?pre n @ show_int n @ ''-''" for n p
    using show_int_no_P [of n] by (auto simp: link_label_def takeWhile_append)
  assume e: "link_label switches n p = link_label switches n' p'"
  with t [of n p] t [of n' p'] have "?pre n @ show_int n @ ''-'' = ?pre n' @ show_int n' @ ''-''" by simp
  then have "show_int n = show_int n'" by (simp split: if_splits)
  then have "n = n'" by (rule show_int_inj)
  with e have "show_int p = show_int p'" by (simp add: link_label_def)
  with \<open>n = n'\<close> show "n = n' \<and> p = p'" by (simp add: show_int_inj)
qed simp

definition series_of_readings :: "(string \<Rightarrow> rat) \<Rightarrow> (nat \<times> string \<times> string) list \<Rightarrow> series" where
  "series_of_readings v rs =
     \<lparr>times = map (\<lambda>(t, _, _). int t) rs, throughput = map (\<lambda>(_, x, _). v x) rs, utilization = map (\<lambda>(_, _, y). v y) rs\<rparr>"

definition append_series :: "series \<Rightarrow> series \<Rightarrow> series" where
  "append_series a b = \<lparr>times = times a @ times b, throughput = throughput a @ throughput b, utilization = utilization a @ utilization b\<rparr>"

lemma append_series_simps [simp]:
  "append_series s (series_of_readings v []) = s"
  "append_series (append_series s (series_of_readings v rs)) (series_of_readings v rs') = append_series s (series_of_readings v (rs @ rs'))"
  by (simp_all add: append_series_def series_of_readings_def)

lemma rows_put:
  fixes switches n p
  defines "l \<equiv> link_label switches (int n) (int p)"
  shows "series_at (fold (put_row v switches t) rows d) l = append_series (series_at d l) (series_of_readings v (port_readings n p [(t, rows)]))"
    and "map_of (fold (put_row v switches t) rows d) l = None \<longleftrightarrow> port_readings n p [(t, rows)] = [] \<and> map_of d l = None"
proof (induction rows arbitrary: d)
  case (Cons r rows)
  obtain n' p' b x y where r: "r = (n', p', b, x, y)" by (cases r)
  have l: "l = link_label switches (int n') (int p') \<longleftrightarrow> n' = n \<and> p' = p" unfolding l_def link_label_inj by auto
  { case 1
    show ?case using Cons.IH(1) [of "put_row v switches t r d"] l
      by (auto simp: r put_row_def series_add port_readings_def series_of_readings_def append_series_def Let_def) }
  { case 2
    show ?case using Cons.IH(2) [of "put_row v switches t r d"] l by (auto simp: r put_row_def series_add port_readings_def) }
qed (simp_all add: port_readings_def)

lemma reports_put:
  fixes switches n p
  defines "l \<equiv> link_label switches (int n) (int p)"
  shows "series_at (fold (\<lambda>(t, rows). fold (put_row v switches t) rows) reports d) l =
      append_series (series_at d l) (series_of_readings v (port_readings n p reports))"
    and "map_of (fold (\<lambda>(t, rows). fold (put_row v switches t) rows) reports d) l = None \<longleftrightarrow> port_readings n p reports = [] \<and> map_of d l = None"
proof (induction reports arbitrary: d)
  case (Cons r reports)
  obtain t rows where r: "r = (t, rows)" by (cases r)
  have a: "port_readings n p (r # reports) = port_readings n p [(t, rows)] @ port_readings n p reports" by (simp add: port_readings_def r)
  { case 1
    show ?case unfolding a using Cons.IH(1) [of "fold (put_row v switches t) rows d"] rows_put(1) [of v switches t rows d n p] by (simp add: r l_def) }
  { case 2
    show ?case unfolding a using Cons.IH(2) [of "fold (put_row v switches t) rows d"] rows_put(2) [of v switches t rows d n p] by (auto simp: r l_def) }
qed (simp_all add: port_readings_def)

section \<open>Properties\<close>

text \<open>C11. A report of the simulator is read back: each port gets the times, throughputs and uses of its rows, in order, and a port that
  does not occur gets nothing; the labels of switches and hosts never collide.\<close>

theorem link_report_read_back:
  assumes "list_all (\<lambda>(t, rows). list_all (row_ok flt v) rows) reports"
  shows "\<exists>d. parse_link_util flt (print_monitor reports) switches = Inr d \<and>
    (\<forall>n p. map_of d (link_label switches (int n) (int p)) =
       (if port_readings n p reports = [] then None else Some (series_of_readings v (port_readings n p reports))))"
proof -
  let ?d = "fold (\<lambda>(t, rows). fold (put_row v switches t) rows) reports []"
  have "parse_link_util flt (print_monitor reports) switches = Inr ?d"
    using reports_read [OF assms, of switches None "[]"] by (simp add: parse_link_util_def print_monitor_def strip_id is_ws_def code_def Let_def)
  moreover have "map_of ?d (link_label switches (int n) (int p)) =
       (if port_readings n p reports = [] then None else Some (series_of_readings v (port_readings n p reports)))" for n p
    using reports_put [of v switches reports "[]" n p]
    by (auto simp: series_at_def no_series_def append_series_def series_of_readings_def split: option.splits)
  ultimately show ?thesis by blast
qed

theorem link_report_read_back_witness:
  "\<exists>d. parse_link_util (\<lambda>s. if s = ''9.5'' then Inr (19 / 2) else Inr 95) (print_monitor [(100, [(6, 1, 8, ''9.5'', ''95'')]), (200, [(6, 1, 9, ''9.5'', ''95''), (0, 1, 5, ''95'', ''9.5'')])]) [6] = Inr d \<and>
    map_of d (link_label [6] 6 1) = Some \<lparr>times = [100, 200], throughput = [19 / 2, 19 / 2], utilization = [95, 95]\<rparr> \<and>
    map_of d (link_label [6] 6 2) = None"
proof -
  let ?flt = "\<lambda>s. if s = ''9.5'' then Inr (19 / 2) else Inr 95 :: rat res" and ?v = "\<lambda>s. if s = ''9.5'' then 19 / 2 else 95 :: rat"
  let ?reports = "[(100, [(6, 1, 8, ''9.5'', ''95'')]), (200, [(6, 1, 9, ''9.5'', ''95''), (0, 1, 5, ''95'', ''9.5'')])]"
  have "list_all (\<lambda>(t, rows). list_all (row_ok ?flt ?v) rows) ?reports" by (simp add: row_ok_def is_word_def is_ws_def code_def)
  from link_report_read_back [OF this, of "[6]"] obtain d where d: "parse_link_util ?flt (print_monitor ?reports) [6] = Inr d"
    "\<forall>n p. map_of d (link_label [6] (int n) (int p)) =
       (if port_readings n p ?reports = [] then None else Some (series_of_readings ?v (port_readings n p ?reports)))" by blast
  show ?thesis using d(1) d(2) [rule_format, of 6 1] d(2) [rule_format, of 6 2] by (simp add: port_readings_def series_of_readings_def)
qed

text \<open>The two figures never share a path, and are put into the same directory.\<close>

lemma output_paths_differ: "make_output_paths is_dir (Some out) = Some (p, q) \<Longrightarrow> p \<noteq> q \<and> butlast p = butlast q"
  by (auto simp: make_output_paths_def Let_def split: if_splits)

text \<open>The curves of experiment 2 are equally long: as long as the shortest series, or as the list of times.\<close>

lemma exp2_curves_even:
  assumes "exp2_curves fl (Some ls) = Inr (Some cs)"
  shows "\<exists>n. (\<forall>(label, c) \<in> set cs. length c = n \<and> (\<exists>k. (label, k) \<in> set exp2_queues \<and> n \<le> length (histograms k ls)))"
proof -
  obtain ts q where p: "parse_qlen fl True ls = Inr (ts, q)" using assms by (auto simp: exp2_curves_def bind_res_Inr_iff)
  then obtain s where s: "outer_loop fl True \<lparr>times_ns = [], qlen = [], prev_counts = []\<rparr> ls = Inr s" "q = qlen s"
    by (auto simp: parse_qlen_def bind_res_Inr_iff)
  have len: "map_of q k = Some xs \<Longrightarrow> length xs = length (histograms k ls)" for k xs
    using loops_series(1) [OF s(1), of k] s(2) by (simp add: series_of_def)
  let ?present = "List.map_filter (\<lambda>(label, k). map_option (Pair label) (map_of q k)) exp2_queues"
  let ?n = "Min (set (length ts # map (length \<circ> snd) ?present))"
  have cs: "cs = map (\<lambda>(label, s). (label, zip (take ?n (map (\<lambda>t. fl (of_int t / 1000000)) ts)) (map (\<lambda>x. fl (x / 1000)) (take ?n s)))) ?present"
    using assms by (simp add: exp2_curves_def p Let_def split: if_splits)
  have "length c = ?n \<and> (\<exists>k. (label, k) \<in> set exp2_queues \<and> ?n \<le> length (histograms k ls))" if "(label, c) \<in> set cs" for label c
  proof -
    from that obtain xs where x: "(label, xs) \<in> set ?present"
      "c = zip (take ?n (map (\<lambda>t. fl (of_int t / 1000000)) ts)) (map (\<lambda>x. fl (x / 1000)) (take ?n xs))" unfolding cs by auto
    then obtain k where k: "(label, k) \<in> set exp2_queues" "map_of q k = Some xs" by (force simp: List.map_filter_def)
    have "?n \<le> length ts" "?n \<le> length xs" using x(1) by (force intro!: Min_le)+
    moreover from this have "length c = ?n" using x(2) by simp
    ultimately show ?thesis using k(1) len [OF k(2)] by metis
  qed
  then show ?thesis by blast
qed

end
