(* ===== verification/Viz_Tooltip.thy ===== *)
theory Viz_Tooltip
  imports Py_Strings
begin

text \<open>
  The tooltips of \<open>visualizer/core.py\<close> and of the plugin for wifi links, and what the mouse buttons do on a node and beside all nodes.
  What ns-3 says of a node, and the lines that plugins add, are parameters.  The tooltip of a node is markup of pango.
\<close>

section \<open>Tooltips\<close>

text \<open>\<open>v4\<close> and \<open>v6\<close> are the addresses, each with its mask or prefix, if the device has an interface of that kind.\<close>

record device_info =
  device_label :: string
  device_type :: string
  v4 :: "(string \<times> string) list option"
  v6 :: "(string \<times> string) list option"
  mac_address :: string

record node_details =
  node_number :: int
  node_label :: string
  mobility_model :: "string option"
  has_v4 :: bool
  has_v6 :: bool
  device_infos :: "device_info list"

definition title_line :: "node_details \<Rightarrow> string" where
  "title_line n =
     ''<b><u>Node '' @ show_int (node_number n) @ ''</u></b>'' @
     (if node_label n = [] then [] else '' <b>('' @ node_label n @ '')</b>'')"

definition address_line :: "string \<Rightarrow> (string \<times> string) list \<Rightarrow> string" where
  "address_line family as = ''    <b>'' @ family @ '' Addresses:</b> '' @ join ''; '' (map (\<lambda>(a, m). a @ ''/'' @ m) as)"

definition device_lines :: "node_details \<Rightarrow> nat \<times> device_info \<Rightarrow> string list" where
  "device_lines n = (\<lambda>(i, d).
     [[], ''  <u>NetDevice '' @ show_nat i @ '':</u>''] @
     (if device_label d = [] then [] else [''    <b>Name:</b> '' @ device_label d]) @
     [''    <b>Type:</b> '' @ device_type d] @
     (case v4 d of Some as \<Rightarrow> if has_v4 n then [address_line ''IPv4'' as] else [] | None \<Rightarrow> []) @
     (case v6 d of Some as \<Rightarrow> if has_v6 n then [address_line ''IPv6'' as] else [] | None \<Rightarrow> []) @
     [''    <b>MAC Address:</b> '' @ mac_address d])"

definition tooltip_lines :: "string list \<Rightarrow> node_details \<Rightarrow> string list" where
  "tooltip_lines extra n =
     [title_line n, []] @ extra @
     (case mobility_model n of None \<Rightarrow> [] | Some t \<Rightarrow> [''  <b>Mobility Model</b>: '' @ t]) @
     concat (map (device_lines n) (enumerate 0 (device_infos n)))"

definition node_tooltip :: "string list \<Rightarrow> node_details \<Rightarrow> string" where
  "node_tooltip extra n = join [CHR 0x0A] (tooltip_lines extra n)"

text \<open>The tooltip of a wifi link, whose ends are node numbers; \<open>dist\<close> is the text of the distance.  A link that was destroyed or has no
  access point has no ends.\<close>

definition wifi_tooltip :: "int option \<Rightarrow> int option \<Rightarrow> string \<Rightarrow> string \<Rightarrow> string \<Rightarrow> string res" where
  "wifi_tooltip sta ap dist ssid bssid =
     (case (sta, ap) of
        (Some i, Some j) \<Rightarrow> Inr (''WiFi link between STA Node '' @ show_int i @ '' and AP Node '' @ show_int j @ ''; distance='' @ dist @ '' m.'' @ [CHR 0x0A] @
          ''SSID: '' @ ssid @ [CHR 0x0A] @ ''BSSID: '' @ bssid)
      | _ \<Rightarrow> Inl AttributeError)"

section \<open>Mouse buttons\<close>

datatype click = Select_Node "int option" | Popup_Menu int | Begin_Drag_Of int | End_Drag_Of int

text \<open>What is done, and whether the event is handled: beside the nodes the handler returns nothing for other buttons.\<close>

definition root_button_press :: "int \<Rightarrow> click option \<times> bool" where
  "root_button_press button = (if button = 1 then (Some (Select_Node None), True) else (None, False))"

definition node_button_press :: "int \<Rightarrow> int \<Rightarrow> click option \<times> bool" where
  "node_button_press button node =
     (if button = 1 then (Some (Select_Node (Some node)), True)
      else if button = 3 then (Some (Popup_Menu node), True)
      else if button = 2 then (Some (Begin_Drag_Of node), True)
      else (None, False))"

definition node_button_release :: "int \<Rightarrow> int \<Rightarrow> click option \<times> bool" where
  "node_button_release button node = (if button = 2 then (Some (End_Drag_Of node), True) else (None, False))"

section \<open>Markup\<close>

lemma drop_one: "drop n cs = x # rest \<Longrightarrow> length rest < Suc (length cs)"
  using length_drop [of n cs] by simp

text \<open>Markup that pango accepts: every tag is closed in turn, and a \<open>&\<close>, which begins an entity, does not occur.  The first argument are
  the tags that are open.\<close>

function markup_ok :: "string list \<Rightarrow> string \<Rightarrow> bool" where
  "markup_ok open_tags [] = (open_tags = [])"
| "markup_ok open_tags (c # cs) =
     (if c = CHR ''&'' then False
      else if c = CHR ''<'' then
        (let tag = takeWhile (\<lambda>x. x \<noteq> CHR ''>'') cs
         in case drop (length tag) cs of
              [] \<Rightarrow> False
            | _ # rest \<Rightarrow>
                (case tag of
                   [] \<Rightarrow> False
                 | t # ts \<Rightarrow> if t = CHR ''/'' then (case open_tags of [] \<Rightarrow> False | o1 # os \<Rightarrow> o1 = ts \<and> markup_ok os rest)
                             else markup_ok (tag # open_tags) rest))
      else markup_ok open_tags cs)"
  by pat_completeness auto
termination
  by (relation "measure (length \<circ> snd)") (auto dest!: drop_one)

definition plain :: "string \<Rightarrow> bool" where
  "plain s = list_all (\<lambda>c. c \<noteq> CHR ''&'' \<and> c \<noteq> CHR ''<'') s"

definition closed_text :: "string \<Rightarrow> bool" where
  "closed_text s \<longleftrightarrow> (\<forall>ts r. markup_ok ts (s @ r) = markup_ok ts r)"

lemma closed_simps [simp]: "closed_text []" "closed_text a \<Longrightarrow> closed_text b \<Longrightarrow> closed_text (a @ b)"
  by (simp_all add: closed_text_def)

lemma closed_plain: "plain s \<Longrightarrow> closed_text s"
proof -
  have "markup_ok ts (s @ r) = markup_ok ts r" if "plain s" for ts r
    using that by (induction s) (simp_all add: plain_def)
  then show "plain s \<Longrightarrow> closed_text s" by (simp add: closed_text_def)
qed

lemma closed_bold: "closed_text s \<Longrightarrow> closed_text (''<b>'' @ s @ ''</b>'')"
  by (simp add: closed_text_def)

lemma closed_underlined: "closed_text s \<Longrightarrow> closed_text (''<u>'' @ s @ ''</u>'')"
  by (simp add: closed_text_def)

lemma closed_join: "closed_text sep \<Longrightarrow> list_all closed_text ls \<Longrightarrow> closed_text (join sep ls)"
  by (induction sep ls rule: join.induct) simp_all

lemma plain_simps [simp]: "plain []" "plain (a @ b) \<longleftrightarrow> plain a \<and> plain b" "plain (c # s) \<longleftrightarrow> c \<noteq> CHR ''&'' \<and> c \<noteq> CHR ''<'' \<and> plain s"
  by (simp_all add: plain_def)

lemma plain_numbers [simp]: "plain (show_nat i)" "plain (show_int k)"
proof -
  show n: "plain (show_nat i)" for i using show_nat_digit [of _ i] by (fastforce simp: plain_def list_all_iff is_digit_def code_def)
  show "plain (show_int k)" by (simp add: show_int_def n)
qed

definition device_plain :: "device_info \<Rightarrow> bool" where
  "device_plain d \<longleftrightarrow> plain (device_label d) \<and> plain (device_type d) \<and> plain (mac_address d) \<and>
     list_all (\<lambda>(a, m). plain a \<and> plain m) (concat (case v4 d of None \<Rightarrow> [] | Some as \<Rightarrow> [as])) \<and>
     list_all (\<lambda>(a, m). plain a \<and> plain m) (concat (case v6 d of None \<Rightarrow> [] | Some as \<Rightarrow> [as]))"

lemma closed_lines:
  "closed_text s \<Longrightarrow> closed_text (''    <b>Name:</b> '' @ s)" "closed_text s \<Longrightarrow> closed_text (''    <b>Type:</b> '' @ s)"
  "closed_text s \<Longrightarrow> closed_text (''    <b>MAC Address:</b> '' @ s)" "closed_text s \<Longrightarrow> closed_text (''  <b>Mobility Model</b>: '' @ s)"
  "closed_text s \<Longrightarrow> closed_text (''    <b>IPv4 Addresses:</b> '' @ s)" "closed_text s \<Longrightarrow> closed_text (''    <b>IPv6 Addresses:</b> '' @ s)"
  by (simp_all add: closed_text_def)

lemma closed_interface: "closed_text (''  <u>NetDevice '' @ show_nat i @ '':</u>'')"
  using closed_plain [OF plain_numbers(1) [of i]] by (simp add: closed_text_def takeWhile_append)

lemma closed_addresses:
  assumes "list_all (\<lambda>(a, m). plain a \<and> plain m) as"
  shows "closed_text (join ''; '' (map (\<lambda>(a, m). a @ ''/'' @ m) as))"
proof (rule closed_join)
  show "closed_text ''; ''" by (rule closed_plain) simp
  show "list_all closed_text (map (\<lambda>(a, m). a @ ''/'' @ m) as)" using assms by (auto simp: list_all_iff intro!: closed_plain)
qed

lemma closed_device:
  assumes "device_plain d"
  shows "list_all closed_text (device_lines n (i, d))"
  using assms closed_interface [of i]
  by (auto simp: device_lines_def device_plain_def address_line_def closed_addresses closed_lines [simplified] closed_plain
      closed_lines(5,6) [OF closed_addresses, simplified] split: option.splits)

lemma closed_rest:
  assumes "list_all closed_text extra" and "plain (case mobility_model n of None \<Rightarrow> [] | Some t \<Rightarrow> t)" and "list_all device_plain (device_infos n)"
  shows "list_all closed_text (tl (tooltip_lines extra n))"
proof -
  have "list_all closed_text (concat (map (device_lines n) (enumerate 0 (device_infos n))))"
    using assms(3) closed_device [of _ n] by (fastforce simp: list_all_iff dest: in_set_enumerate_eq [THEN iffD1] intro: nth_mem)
  then show ?thesis using assms(1,2) closed_lines(4) [OF closed_plain] by (auto simp: tooltip_lines_def split: option.splits)
qed

section \<open>Properties\<close>

text \<open>When all other texts are plain, the tooltip of a node is markup exactly when the name of the node has no \<open>&\<close>: names are put
  into the markup as they are, so that a node called \<open>R&D\<close> has no tooltip.\<close>

theorem tooltip_markup:
  assumes "list_all closed_text extra" and "plain (case mobility_model n of None \<Rightarrow> [] | Some t \<Rightarrow> t)" and "list_all device_plain (device_infos n)"
    and "CHR ''<'' \<notin> set (node_label n)"
  shows "markup_ok [] (node_tooltip extra n) = (CHR ''&'' \<notin> set (node_label n))"
proof -
  let ?rest = "tl (tooltip_lines extra n)" and ?nl = "[CHR 0x0A]"
  have "tooltip_lines extra n = title_line n # ?rest" "?rest \<noteq> []" by (simp_all add: tooltip_lines_def)
  then have t: "node_tooltip extra n = title_line n @ ?nl @ join ?nl ?rest" by (metis join_Cons_ne node_tooltip_def)
  have nl: "closed_text ?nl" by (rule closed_plain) simp
  have c: "closed_text (?nl @ join ?nl ?rest)" by (rule closed_simps(2) [OF nl closed_join [OF nl closed_rest [OF assms(1-3)]]])
  then have r: "markup_ok [] (?nl @ join ?nl ?rest)" by (metis append.right_neutral closed_text_def markup_ok.simps(1))
  have num: "markup_ok ts (show_int (node_number n) @ s) = markup_ok ts s" for ts s
    using closed_plain [OF plain_numbers(2)] by (simp add: closed_text_def)
  have amp: "markup_ok ts (l @ s) = (CHR ''&'' \<notin> set l \<and> markup_ok ts s)" if "CHR ''<'' \<notin> set l" for ts l s
    using that by (induction l) auto
  show ?thesis using r by (simp add: t title_line_def num amp [OF assms(4)])
qed

theorem tooltip_markup_witness:
  "markup_ok [] (node_tooltip [] \<lparr>node_number = 3, node_label = ''R-D'', mobility_model = None, has_v4 = True, has_v6 = False,
     device_infos = [\<lparr>device_label = [], device_type = ''ns3::CsmaNetDevice'', v4 = Some [(''10.0.0.1'', ''255.255.255.0'')], v6 = None, mac_address = ''00:01''\<rparr>]\<rparr>) =
   (CHR ''&'' \<notin> set ''R-D'')"
  using tooltip_markup [of "[]" "\<lparr>node_number = 3, node_label = ''R-D'', mobility_model = None, has_v4 = True, has_v6 = False,
     device_infos = [\<lparr>device_label = [], device_type = ''ns3::CsmaNetDevice'', v4 = Some [(''10.0.0.1'', ''255.255.255.0'')], v6 = None, mac_address = ''00:01''\<rparr>]\<rparr>"]
  by (simp add: device_plain_def)

end
