(* ===== verification/Viz_Plugins.thy ===== *)
theory Viz_Plugins
  imports Viz_View
begin

text \<open>
  How the visualizer starts: \<open>load_plugins\<close> and \<open>register_plugin\<close> of \<open>base.py\<close>, and \<open>start\<close> and the hooks of \<open>core.py\<close>.  What the
  import of a module gives is a parameter; a plugin is known by the name of its module.
\<close>

section \<open>Loading plugins\<close>

text \<open>An import gives a module, with what its attribute \<open>register\<close> is if it has one (whether it can be called), or an exception.\<close>

datatype import_result = Imported "bool option" | Import_Error | Import_Raises py_error

record loader =
  plugins_loaded :: bool
  plugins :: "string list"
  plugin_modules :: "(string, string) dict"
  sys_path :: "string list"

definition register_plugin :: "bool \<Rightarrow> string \<Rightarrow> loader \<Rightarrow> loader res" where
  "register_plugin callable name s =
     (if callable then Inr (s\<lparr>plugins := plugins s @ [name], plugin_modules := dict_set name name (plugin_modules s)\<rparr>)
      else Inl AssertionError)"

text \<open>One file of the directory; the result is the state and the exception that leaves the loop.\<close>

definition load_file :: "(string \<Rightarrow> import_result) \<Rightarrow> string \<Rightarrow> loader \<Rightarrow> loader \<times> py_error option" where
  "load_file import_module filename s =
     (let ext = extension filename; name = take (length filename - length ext) filename
      in if ext \<noteq> ''.py'' then (s, None)
         else (case import_module name of
             Import_Error \<Rightarrow> (s, None)
           | Import_Raises e \<Rightarrow> (s, Some e)
           | Imported None \<Rightarrow> (s, None)
           | Imported (Some callable) \<Rightarrow> (case register_plugin callable name s of Inl e \<Rightarrow> (s, Some e) | Inr s1 \<Rightarrow> (s1, None))))"

fun load_files :: "(string \<Rightarrow> import_result) \<Rightarrow> string list \<Rightarrow> loader \<Rightarrow> loader \<times> py_error option" where
  "load_files import_module [] s = (s, None)"
| "load_files import_module (f # fs) s =
     (case load_file import_module f s of (s1, Some e) \<Rightarrow> (s1, Some e) | (s1, None) \<Rightarrow> load_files import_module fs s1)"

definition load_plugins :: "(string \<Rightarrow> import_result) \<Rightarrow> string \<Rightarrow> string list \<Rightarrow> loader \<Rightarrow> loader \<times> py_error option" where
  "load_plugins import_module plugins_dir filenames s =
     (if plugins_loaded s then (s, None)
      else (case load_files import_module filenames (s\<lparr>plugins_loaded := True, sys_path := plugins_dir # sys_path s\<rparr>) of
          (s1, Some e) \<Rightarrow> (s1, Some e)
        | (s1, None) \<Rightarrow> (s1\<lparr>sys_path := sys_path s\<rparr>, None)))"

section \<open>Start\<close>

text \<open>What \<open>start\<close> does, in order: an instance must not exist; without gtk the simulation runs by itself.\<close>

datatype start_step = Run_Simulator | Create_Visualizer "string list" | Queue_Hook nat | Enable_Printing | Start_View

definition start :: "bool \<Rightarrow> bool \<Rightarrow> nat \<Rightarrow> (string \<Rightarrow> import_result) \<Rightarrow> string \<Rightarrow> string list \<Rightarrow> loader \<Rightarrow> (start_step list \<times> loader) res" where
  "start instance_exists imports_ok hooks import_module plugins_dir filenames s =
     (if instance_exists then Inl AssertionError
      else if \<not> imports_ok then Inr ([Run_Simulator], s)
      else (case load_plugins import_module plugins_dir filenames s of
          (s1, Some e) \<Rightarrow> Inl e
        | (s1, None) \<Rightarrow> Inr ([Create_Visualizer (plugins s1)] @ map Queue_Hook [0..<hooks] @ [Enable_Printing, Start_View], s1)))"

text \<open>\<open>set_bounds\<close>: the bounds of the canvas its hook sets.\<close>

definition bounds_hook :: "(rat \<Rightarrow> rat) \<Rightarrow> point \<Rightarrow> point \<Rightarrow> (point \<times> point) res" where
  "bounds_hook fl p q =
     (if fst q \<le> fst p \<or> snd q \<le> snd p then Inl AssertionError else Inr (point_to_canvas fl p, point_to_canvas fl q))"

section \<open>Lemmas\<close>

text \<open>The module of a file, and whether it is a plugin.\<close>

definition module_of :: "string \<Rightarrow> string" where
  "module_of f = take (length f - length (extension f)) f"

definition is_plugin :: "(string \<Rightarrow> import_result) \<Rightarrow> string \<Rightarrow> bool" where
  "is_plugin import_module f \<longleftrightarrow> extension f = ''.py'' \<and> import_module (module_of f) = Imported (Some True)"

definition breaks :: "(string \<Rightarrow> import_result) \<Rightarrow> string \<Rightarrow> bool" where
  "breaks import_module f \<longleftrightarrow> extension f = ''.py'' \<and>
     (case import_module (module_of f) of Import_Raises e \<Rightarrow> True | Imported (Some callable) \<Rightarrow> \<not> callable | _ \<Rightarrow> False)"

lemma load_file_result:
  "snd (load_file im f s) = None \<longleftrightarrow> \<not> breaks im f"
  "plugins (fst (load_file im f s)) = plugins s @ (if is_plugin im f then [module_of f] else [])"
  "sys_path (fst (load_file im f s)) = sys_path s" "plugins_loaded (fst (load_file im f s)) = plugins_loaded s"
  by (auto simp: load_file_def breaks_def is_plugin_def module_of_def register_plugin_def Let_def split: import_result.split option.split)

lemma load_files_result:
  "snd (load_files im fs s) = None \<longleftrightarrow> \<not> list_ex (breaks im) fs"
  "plugins (fst (load_files im fs s)) = plugins s @ map module_of (filter (is_plugin im) (takeWhile (\<lambda>f. \<not> breaks im f) fs))"
  "sys_path (fst (load_files im fs s)) = sys_path s" "plugins_loaded (fst (load_files im fs s)) = plugins_loaded s"
proof (induction fs arbitrary: s)
  case (Cons f fs)
  have p: "breaks im f \<Longrightarrow> \<not> is_plugin im f" by (auto simp: breaks_def is_plugin_def)
  { case 1 show ?case using load_file_result [of im f s] p Cons.IH(1) [of "fst (load_file im f s)"]
      by (cases "load_file im f s"; cases "snd (load_file im f s)") simp_all }
  { case 2 show ?case using load_file_result [of im f s] p Cons.IH(2) [of "fst (load_file im f s)"]
      by (cases "load_file im f s"; cases "snd (load_file im f s)") simp_all }
  { case 3 show ?case using load_file_result [of im f s] p Cons.IH(3) [of "fst (load_file im f s)"]
      by (cases "load_file im f s"; cases "snd (load_file im f s)") simp_all }
  { case 4 show ?case using load_file_result [of im f s] p Cons.IH(4) [of "fst (load_file im f s)"]
      by (cases "load_file im f s"; cases "snd (load_file im f s)") simp_all }
qed simp_all

section \<open>Property\<close>

text \<open>Plugins are loaded once.  Files that cannot be imported, or have no function \<open>register\<close>, are passed over; any other exception of
  a module leaves the loop, with the plugins before it registered, the directory of the plugins still in the search path, and no second
  attempt: the next call does nothing.\<close>

theorem plugins_loaded_once:
  assumes "\<not> plugins_loaded s"
  shows "case load_plugins im dir fs s of (s1, err) \<Rightarrow>
    (err = None) = (\<not> list_ex (breaks im) fs) \<and>
    plugins s1 = plugins s @ map module_of (filter (is_plugin im) (takeWhile (\<lambda>f. \<not> breaks im f) fs)) \<and>
    sys_path s1 = (if err = None then sys_path s else dir # sys_path s) \<and>
    load_plugins im dir fs s1 = (s1, None)"
proof -
  let ?s = "s\<lparr>plugins_loaded := True, sys_path := dir # sys_path s\<rparr>"
  obtain s1 e where l: "load_files im fs ?s = (s1, e)" by fastforce
  note r = load_files_result [of im fs ?s, unfolded l fst_conv snd_conv]
  show ?thesis using assms r by (cases e) (simp_all add: load_plugins_def l)
qed

theorem plugins_loaded_once_witness:
  "case load_plugins (\<lambda>m. if m = ''olsr'' then Imported (Some True) else if m = ''broken'' then Import_Raises KeyError else Import_Error) ''plugins''
     [''olsr.py'', ''olsr.pyc'', ''broken.py'', ''wifi.py''] \<lparr>plugins_loaded = False, plugins = [], plugin_modules = [], sys_path = [''.'']\<rparr> of (s1, err) \<Rightarrow>
     err \<noteq> None \<and> plugins s1 = [''olsr''] \<and> sys_path s1 = [''plugins'', ''.'']"
proof -
  let ?im = "\<lambda>m. if m = ''olsr'' then Imported (Some True) else if m = ''broken'' then Import_Raises KeyError else Import_Error"
  let ?fs = "[''olsr.py'', ''olsr.pyc'', ''broken.py'', ''wifi.py'']" and ?s = "\<lparr>plugins_loaded = False, plugins = [], plugin_modules = [], sys_path = [''.'']\<rparr>"
  have b: "list_ex (breaks ?im) ?fs" by code_simp
  have p: "map module_of (filter (is_plugin ?im) (takeWhile (\<lambda>f. \<not> breaks ?im f) ?fs)) = [''olsr'']" by code_simp
  show ?thesis using plugins_loaded_once [of ?s ?im ?fs "''plugins''"] unfolding p eqTrueI [OF b]
    by (cases "load_plugins ?im ''plugins'' ?fs ?s") auto
qed

end
