(* ===== verification/Spec2Isabelle.thy ===== *)
theory Spec2Isabelle
  imports Telemetry Forwarding Rad_Numeric Topsort Find_Cycles Shell_Cmd Check_Style Test_Runner Test_Report
    Timeline_View Trace_Analyzer Topo_File Qlen_Monitor Pause_Monitor Viz_Thread Viz_Model Viz_Topology Viz_Axes Flow_Results
    Build_Env Build_Flags Command_Output Subst_Task Module_Scan Binding_Types Viz_Console Timeline_Render Viz_Wifi
    Timeline_Graphic Viz_Windows Create_Module Link_Monitor Viz_Tooltip
    Viz_Plugins
begin

text \<open>
  A model of the Python code of Hawkeye-sim, and what it is proved to do.

  \<^bold>\<open>The program.\<close>  Hawkeye finds the cause of congestion in networks with priority flow control (PFC).
  Switches are polled along the path of a victim flow; the reports become a provenance graph of flows and
  ports.  The repository holds the simulation (ns-3 with the modules of Hawkeye), the scripts that read its
  traces and monitors, the generator of the polling tables of the hardware switch, and the Python tools ns-3
  brings along: the test runner, the style checker, the build shell, the visualizer, the helpers of the
  bindings.

  \<^bold>\<open>Theories.\<close>  Three theories model what the scripts use of Python itself: \<open>Py_Prelude\<close> (exceptions as
  values of a sum type, loops that stop at the first exception, dictionaries as lists of pairs in insertion
  order, indexing and slices), \<open>Py_Strings\<close> (string methods on ASCII characters, \<open>int\<close> and decimal numerals)
  and \<open>Py_Float\<close> (doubles as rationals).  The others are the components.

  \<^item> \<open>Pkt_Queue\<close>, \<open>Telemetry\<close>: \<open>analyze/scripts/graph.py\<close>.  \<open>sim_pkt_queue\<close> replays the queue of a port
    (\<open>merge_loop\<close>, \<open>wait_row\<close>, \<open>degrees\<close>); \<open>parse_telemetry\<close> turns the log of a switch into a tree of
    reports, \<open>graph_main\<close> drops reports that are too close.  Shown: the replay ends and returns; it emits
    every packet of every flow once, in proportion; the matrix counts who waits for whom; degrees add up to
    zero; reports are complete, and the tables of a report are read as they were written.
  \<^item> \<open>Forwarding\<close>: \<open>src/ctrl/entry_list_gen.py\<close>.  The polling table is derived from the forwarding table
    and follows it hop by hop.
  \<^item> \<open>Port_Labels\<close>, \<open>Topo_File\<close>, \<open>Trace_Analyzer\<close>, \<open>Qlen_Monitor\<close>, \<open>Pause_Monitor\<close>, \<open>Link_Monitor\<close>: the scripts under
    \<open>mix/00_Hawkeye/analyze/scripts\<close>, \<open>plot_pfc_exp2.py\<close> and \<open>plot_qlen_exp2.py\<close>: labels of ports, topology files, binary
    traces, the monitors of queues, links and PFC frames.  Shown: the five scripts agree on labels; the map of
    links is symmetric and ports are numbered as the simulator does; traces and reports of links are read back; throughput accounts
    for every byte, averages for every sample of the monitor; the pause rates of \<open>plot_pfc.py\<close> are a tenth of
    what they should be, those of \<open>plot_pfc_exp2.py\<close> can lose the last pause.
  \<^item> \<open>Rad_Seq\<close>, \<open>Rad_Numeric\<close>, \<open>Topsort\<close>, \<open>Find_Cycles\<close>: \<open>bindings/python/rad_util.py\<close> and \<open>topsort.py\<close>.
    Shown: both sorts order the nodes of an acyclic graph and raise on a cyclic one; the cycle search finds each
    simple cycle exactly once.
  \<^item> \<open>Shell_Cmd\<close>: \<open>waf-tools/shellcmd.py\<close> and \<open>command.py\<close>: parsing and running pipelines, refined to an
    abstract shell; a program that is not found ends the run in an exception, where a shell goes on.
  \<^item> \<open>Check_Style\<close>, \<open>Ns3rc\<close>: \<open>utils/check-style.py\<close> and \<open>utils.py\<close>: patches, their parser and the filter of
    white-space changes; the configuration file.
  \<^item> \<open>Test_Jobs\<close>, \<open>Worker_Pool\<close>, \<open>Test_Runner\<close>, \<open>Test_Report\<close>: \<open>test.py\<close>.  The jobs of a run, the worker
    threads with their queues as a step relation, the results file and exit status, the reports made from the
    file.  Shown: with and without an interrupt all threads end; the status does not depend on the number of
    threads or on their order; the results file is well nested.
  \<^item> \<open>Timeline_Data\<close>, \<open>Timeline_View\<close>: \<open>utils/grid.py\<close>: time lines, their binary searches, the steps of
    scales, the visible range and its handlers with the errors they raise on the way.  Shown: where the visible range can be, and
    that a range of length 1 raises.
  \<^item> \<open>Viz_Thread\<close>, \<open>Viz_Model\<close>: \<open>visualizer/core.py\<close> and the plugin \<open>interface_statistics.py\<close>.  The
    simulation thread and the view with their lock, event and flag as a step relation; selection, windows of
    samples, arrows and interface rates.  Shown: they run in step; closing the window ends the simulation
    thread; pause messages are taken once each, and shown unless an update raises; when selecting a node from the shell returns and when it waits for a lock its own thread
    holds.
  \<^item> \<open>Viz_Scene\<close>, \<open>Viz_Topology\<close>: the objects on the canvas of \<open>core.py\<close> (nodes, channels, links, icons), the scan
    of the topology and the dragging of nodes.  Shown: what is drawn is what the objects say, but for icons that
    were replaced; the scan raises for a device without a channel, else every node is where its model or the layout puts it; a
    dragged node follows the pointer.
  \<^item> \<open>Viz_Axes\<close>: \<open>hud.py\<close>, the axes of the view.  Shown: an axis has four to nine ticks, whatever is in view, and
    the visible labels are those of the ticks.
  \<^item> \<open>Flow_Results\<close>: \<open>flowmon-parse-results.py\<close>: flows read from the XML of the flow monitor, and their lines.
    Shown: the figures are the quotients of the counters; files as the C++ code writes them are refused.
  \<^item> \<open>Build_Env\<close>, \<open>Build_Flags\<close>, \<open>Command_Output\<close>, \<open>Subst_Task\<close>: what the build adds to waf in \<open>wutils.py\<close>,
    \<open>waf-tools/cflags.py\<close> and \<open>misc.py\<close>: programs are found and run in their environment, compilers get the
    flags of the profile, commands become tasks, and \<open>@name@\<close> is substituted in templates.  Shown: a run returns only
    when the process succeeded; flags of the user are kept, icc and msvc are not configured at all; every
    command runs in the build directory; a substitution replaces the variables and nothing else.
  \<^item> \<open>Module_Path\<close>, \<open>Module_Scan\<close>, \<open>Binding_Types\<close>: the generators of the bindings, \<open>ns3modulescan.py\<close>,
    \<open>ns3modulescan-modular.py\<close>, \<open>ns3modulegen.py\<close> and its customizations.  Shown: the two loops over a path agree, but
    one of them need not return; which declarations are ignored, annotated or imported; sections follow the
    dependencies of modules; every spelling of a smart pointer means the same type.
  \<^item> \<open>Viz_Console\<close>, \<open>Viz_Wifi\<close>: \<open>ipython_view.py\<close>, the console of the visualizer, with its tags, marks and keys, and
    the plugin that links stations to their access points.  Shown: no key changes text that is tagged, and when other text above the
    line can change; after a periodic update the live links are those of the associations, and the others are dead.
  \<^item> \<open>Timeline_Render\<close>, \<open>Timeline_Graphic\<close>: how \<open>grid.py\<close> draws time lines: rows, rectangles, labels, colours, the
    scale below the data and what is around the selection.  Shown: every visible range and event is drawn or its pixel is
    taken; when the rows fit and the colours suffice; the two scales agree but for ranges of one to two times a power of ten;
    the selection stays in the window.
  \<^item> \<open>Viz_View\<close>, \<open>Viz_Windows\<close>: what the user sees of the scene of \<open>core.py\<close> (zoom, scroll bars, panning, following a node,
    autoscale, screenshots), and \<open>update_view\<close> with the windows of the plugins and the arrows.  Shown: the zoom stays in its
    range, panning keeps the point under the pointer, a followed node stays in the middle; when an update succeeds and what is
    shown then; how one window stops all later updates.
  \<^item> \<open>Viz_Tooltip\<close>, \<open>Viz_Plugins\<close>: the text of tooltips, the mouse buttons, and how the visualizer loads its plugins and
    starts.  Shown: when the tooltip of a node is markup; which plugins are registered, once and for all.

  \<^item> \<open>Create_Module\<close>: \<open>src/create-module.py\<close>, with its templates, on a file system.  Shown: nothing that was there is
    changed; a new module has exactly its files, and all files its \<open>wscript\<close> names, in its own lists and in its directories, are there.

  \<^bold>\<open>How state and errors are modelled.\<close>  Objects are records, named after the classes and fields of the code;
  a method returns the new state.  A function that can raise returns \<open>py_error + 'a\<close>; every raise, failed
  lookup and early return is a branch.  Dictionaries keep the order of insertion (\<open>dict_set\<close>, \<open>dict_get\<close>),
  because loops over them produce output in that order.  Threads are step relations: one step is what a thread
  does between two points at which the others can see a difference.  Files are lists of lines, binary files
  lists of bytes.

  \<^bold>\<open>Parameters.\<close>  \<open>fl\<close> rounds the result of each float operation; \<open>dbl\<close> is the double of IEEE 754 and
  \<open>exact\<close> does not round.  Theorems about \<open>exact\<close> speak of the formula the code computes, those about any
  \<open>fl\<close> or \<open>dbl\<close> of the computed number.  \<open>numpy\<close> (\<open>arange\<close>, \<open>histogram\<close>), \<open>shlex\<close>, \<open>eval\<close>, processes,
  the file system, \<open>uncrustify\<close>, \<open>difflib\<close>, the adjustments and coordinates of gtk (\<open>gui\<close>), its handling of keys in a text view, what ns-3 says of a node
  and the run of the simulator are parameters too, with their
  documented behaviour as hypotheses where a theorem needs it; each such theorem has an instance.

  \<^bold>\<open>Termination.\<close>  Loops are structural recursion or functions with a measure, so they are total.  The loops that
  may run forever (\<open>merge_loop\<close> of the replay, \<open>search_loop\<close> of the cycle search) are partial functions with
  \<^const>\<open>None\<close> for a run that never ends, and are proved to return.  No fuel is used.

  \<^bold>\<open>Interfaces.\<close>  Loops keep invariants through \<open>loop_invariant\<close>; dictionaries satisfy \<open>dict_interface\<close>; the
  comparison of quotients with 1 survives rounding by \<open>float_division\<close>; the normalisers of labels meet
  \<open>port_normaliser\<close> and \<open>host_port_normaliser\<close>; the pool of workers is run through \<open>job_runner\<close>.  Each is
  interpreted on the definitions of the model.

  \<^bold>\<open>Not modelled.\<close>  The bindings \<open>modulegen__gcc_*.py\<close> (almost all lines of Python in the repository) are generated
  lists of registrations.  Drawing (matplotlib, gtk, goocanvas), tables of pandas and the layout of graphs, waf's
  scheduling and configuration tests, \<open>getopt\<close>-style help texts and progress messages are input and output of other
  libraries; of the build scripts the model has what they compute and hand to waf; \<open>boost.py\<close> and \<open>relocation.py\<close>
  are tools that come with waf.  Reports printed by \<open>check-style.py\<close>, \<open>read_waf_config\<close> of \<open>test.py\<close> (which executes the
  cache of waf), reflection and clock in \<open>rad_util.py\<close> are left out for the same reason.
\<close>

end
